(* ===== verification/PyPrelude.thy ===== *)
theory PyPrelude
  imports Main "HOL-Library.Multiset"
begin

text \<open>
  The part of the Python language and of its standard library that the modelled scripts use:
  results that may raise (\<open>'e + 'a\<close>, with \<open>Inl\<close> the exception), the \<open>for\<close> loop that stops
  at the first exception, indexing and slicing of sequences, and the string operations of
  \<open>str\<close> and \<open>os.path\<close>.  The lemmas here are the ones that several components share.
\<close>

section \<open>Exceptions as values\<close>

datatype py_error =
    IndexError
  | KeyError
  | ValueError
  | TypeError
  | AttributeError
  | AssertionError
  | ZeroDivisionError
  | UnboundLocalError
  | FileNotFoundError
  | UnicodeDecodeError
  | PlainException string
  | SystemExit int

definition rbind :: "'e + 'a \<Rightarrow> ('a \<Rightarrow> 'e + 'b) \<Rightarrow> 'e + 'b" where
  "rbind r f = (case r of Inl e \<Rightarrow> Inl e | Inr a \<Rightarrow> f a)"

lemma rbind_simps [simp]:
  "rbind (Inl e) f = Inl e"
  "rbind (Inr a) f = f a"
  by (simp_all add: rbind_def)

lemma rbind_Inr_iff: "rbind r f = Inr b \<longleftrightarrow> (\<exists>a. r = Inr a \<and> f a = Inr b)"
  by (cases r) simp_all

lemma rbind_Inl_iff: "rbind r f = Inl e \<longleftrightarrow> r = Inl e \<or> (\<exists>a. r = Inr a \<and> f a = Inl e)"
  by (cases r) simp_all

lemma rbind_assoc: "rbind (rbind r f) g = rbind r (\<lambda>a. rbind (f a) g)"
  by (cases r) simp_all

lemma rbind_cong [fundef_cong]:
  "r = r' \<Longrightarrow> (\<And>a. r' = Inr a \<Longrightarrow> f a = f' a) \<Longrightarrow> rbind r f = rbind r' f'"
  by (cases r') simp_all

text \<open>A \<open>for\<close> loop over a list whose body may raise.\<close>

fun for_each :: "('s \<Rightarrow> 'a \<Rightarrow> 'e + 's) \<Rightarrow> 's \<Rightarrow> 'a list \<Rightarrow> 'e + 's" where
  "for_each f s [] = Inr s"
| "for_each f s (x # xs) = rbind (f s x) (\<lambda>s'. for_each f s' xs)"

lemma for_each_append:
  "for_each f s (xs @ ys) = rbind (for_each f s xs) (\<lambda>s'. for_each f s' ys)"
  by (induction xs arbitrary: s) (simp_all add: rbind_assoc)

text \<open>A loop whose body cannot raise is a fold.\<close>

lemma for_each_total:
  "(\<And>s x. f s x = Inr (g s x)) \<Longrightarrow> for_each f s xs = Inr (foldl g s xs)"
  by (induction xs arbitrary: s) simp_all

text \<open>What every turn that does not raise preserves holds after the loop.\<close>

lemma for_each_preserves:
  assumes "for_each f s xs = Inr s'" "I s"
    and "\<And>s x s'. I s \<Longrightarrow> f s x = Inr s' \<Longrightarrow> I s'"
  shows "I s'"
  using assms(1,2) by (induction xs arbitrary: s) (auto simp: rbind_Inr_iff dest: assms(3))

text \<open>A quantity that each turn raises by an amount that depends on the item.\<close>

lemma for_each_sum:
  fixes m :: "'s \<Rightarrow> 'n :: monoid_add"
  assumes "for_each f s xs = Inr s'" "\<And>s x s'. f s x = Inr s' \<Longrightarrow> m s' = m s + w x"
  shows "m s' = m s + sum_list (map w xs)"
  using assms(1) by (induction xs arbitrary: s) (auto simp: rbind_Inr_iff add.assoc dest!: assms(2))

text \<open>The loop rule: an invariant over the part of the list already seen.\<close>

lemma for_each_inv:
  assumes "I [] s"
    and "\<And>ys x zs t. xs = ys @ x # zs \<Longrightarrow> I ys t \<Longrightarrow> \<exists>t'. f t x = Inr t' \<and> I (ys @ [x]) t'"
  shows "\<exists>t. for_each f s xs = Inr t \<and> I xs t"
proof -
  have "\<exists>t. for_each f s ys = Inr t \<and> I ys t" if "\<exists>zs. xs = ys @ zs" for ys
    using that
  proof (induction ys rule: rev_induct)
    case Nil
    then show ?case using assms(1) by simp
  next
    case (snoc y ys)
    then obtain zs t where "xs = ys @ y # zs" "for_each f s ys = Inr t" "I ys t" by auto
    with assms(2) [of ys y zs t] show ?case by (auto simp: for_each_append)
  qed
  from this [of xs] show ?thesis by simp
qed

text \<open>
  Where a handler catches nothing but its caller goes on, the state that an exception leaves matters:
  an outcome is what was answered or raised, with the state at that moment.
\<close>

type_synonym ('e, 'a, 's) outcome = "('e + 'a) \<times> 's"

definition attempt :: "'e + 'a \<Rightarrow> 's \<Rightarrow> ('a \<Rightarrow> ('e, 'b, 's) outcome) \<Rightarrow> ('e, 'b, 's) outcome" where
  "attempt r s f = (case r of Inl e \<Rightarrow> (Inl e, s) | Inr x \<Rightarrow> f x)"

definition and_then :: "('e, 'a, 's) outcome \<Rightarrow> ('a \<Rightarrow> 's \<Rightarrow> ('e, 'b, 's) outcome) \<Rightarrow> ('e, 'b, 's) outcome" where
  "and_then o1 f = (case o1 of (Inl e, s) \<Rightarrow> (Inl e, s) | (Inr x, s) \<Rightarrow> f x s)"

text \<open>The same where an exception ends the program.\<close>

definition state_or_error :: "('e, 'a, 's) outcome \<Rightarrow> 'e + 's" where
  "state_or_error o1 = (case o1 of (Inl e, s) \<Rightarrow> Inl e | (Inr x, s) \<Rightarrow> Inr s)"

lemma outcome_simps [simp]:
  "attempt (Inl e) s f = (Inl e, s)" "attempt (Inr x) s f = f x"
  "and_then (Inl e, s) g = (Inl e, s)" "and_then (Inr x, s) g = g x s"
  "state_or_error (Inl e, s) = Inl e" "state_or_error (Inr x, s) = Inr s"
  by (simp_all add: attempt_def and_then_def state_or_error_def)

lemma attempt_state: "I s \<Longrightarrow> (\<And>x. r = Inr x \<Longrightarrow> I (snd (f x))) \<Longrightarrow> I (snd (attempt r s f))"
  by (cases r) simp_all

lemma and_then_state: "I (snd o1) \<Longrightarrow> (\<And>x s. o1 = (Inr x, s) \<Longrightarrow> I (snd (g x s))) \<Longrightarrow> I (snd (and_then o1 g))"
  by (cases o1; cases "fst o1") auto

section \<open>Sequences\<close>

text \<open>
  Slices \<open>xs[lo:hi]\<close>: a negative bound counts from the end, and bounds out of range are cut to
  the sequence.  Indexing \<open>xs[i]\<close> is \<open>None\<close> where Python raises \<open>IndexError\<close>.
\<close>

definition slice_bound :: "'a list \<Rightarrow> int \<Rightarrow> nat" where
  "slice_bound xs i = nat (if i < 0 then i + int (length xs) else min i (int (length xs)))"

definition py_slice :: "'a list \<Rightarrow> int \<Rightarrow> int \<Rightarrow> 'a list" where
  "py_slice xs lo hi = drop (slice_bound xs lo) (take (slice_bound xs hi) xs)"

definition py_slice_from :: "'a list \<Rightarrow> int \<Rightarrow> 'a list" where
  "py_slice_from xs lo = drop (slice_bound xs lo) xs"

definition py_slice_to :: "'a list \<Rightarrow> int \<Rightarrow> 'a list" where
  "py_slice_to xs hi = take (slice_bound xs hi) xs"

definition py_nth :: "'a list \<Rightarrow> int \<Rightarrow> 'a option" where
  "py_nth xs i =
     (let j = (if i < 0 then i + int (length xs) else i)
      in if 0 \<le> j \<and> j < int (length xs) then Some (xs ! nat j) else None)"

lemma py_slice_nat: "py_slice xs (int a) (int b) = drop a (take b xs)"
  by (cases "b \<le> length xs"; cases "a \<le> length xs") (simp_all add: py_slice_def slice_bound_def min_def)

lemma py_slice_from_nat: "py_slice_from xs (int a) = drop a xs"
  by (cases "a \<le> length xs") (simp_all add: py_slice_from_def slice_bound_def)

lemma py_slice_to_nat: "py_slice_to xs (int a) = take a xs"
  by (cases "a \<le> length xs") (simp_all add: py_slice_to_def slice_bound_def)

lemma py_slice_from_neg: "0 < n \<Longrightarrow> py_slice_from xs (- int n) = drop (length xs - n) xs"
  by (simp add: py_slice_from_def slice_bound_def nat_diff_distrib' add.commute)

lemma py_slice_to_neg: "0 < n \<Longrightarrow> py_slice_to xs (- int n) = take (length xs - n) xs"
  by (simp add: py_slice_to_def slice_bound_def nat_diff_distrib' add.commute)

lemma py_nth_nat: "i < length xs \<Longrightarrow> py_nth xs (int i) = Some (xs ! i)"
  by (simp add: py_nth_def)

lemma map_filter_snoc: "List.map_filter f (xs @ [x]) = List.map_filter f xs @ (case f x of None \<Rightarrow> [] | Some y \<Rightarrow> [y])"
  by (induction xs) (auto simp: List.map_filter_simps split: option.splits)

section \<open>Strings\<close>

text \<open>\<open>str.startswith\<close>, \<open>sep.join(xs)\<close>, \<open>s.split(c)\<close> for a one-character separator.\<close>

definition startswith :: "string \<Rightarrow> string \<Rightarrow> bool" where
  "startswith s p = (take (length p) s = p)"

fun join :: "string \<Rightarrow> string list \<Rightarrow> string" where
  "join sep [] = []"
| "join sep [x] = x"
| "join sep (x # y # zs) = x @ sep @ join sep (y # zs)"

definition nl :: string where
  "nl = [CHR 0x0A]"

text \<open>\<open>%r\<close> of a string that has no quotes and nothing to escape.\<close>

definition repr :: "string \<Rightarrow> string" where
  "repr s = CHR 0x27 # s @ [CHR 0x27]"

fun split_on :: "char \<Rightarrow> string \<Rightarrow> string list" where
  "split_on c [] = [[]]"
| "split_on c (x # xs) =
     (if x = c then [] # split_on c xs
      else case split_on c xs of [] \<Rightarrow> [[x]] | y # ys \<Rightarrow> (x # y) # ys)"

lemma split_on_nonempty: "split_on c s \<noteq> []"
  by (induction s) (auto split: list.splits)

lemma join_split_on: "join [c] (split_on c s) = s"
proof (induction s)
  case (Cons x xs)
  then show ?case using split_on_nonempty [of c xs]
    by (cases "split_on c xs"; cases "tl (split_on c xs)") (auto split: list.splits)
qed simp

lemma split_on_none: "c \<notin> set s \<Longrightarrow> split_on c s = [s]"
  by (induction s) auto

lemma split_on_append: "c \<notin> set s \<Longrightarrow> split_on c (s @ c # t) = s # split_on c t"
  by (induction s) auto

lemma split_on_concat: "split_on c (s @ c # t) = split_on c s @ split_on c t"
  using split_on_nonempty [of c] by (induction s) (auto split: list.splits simp: Cons_eq_append_conv)

lemma split_on_join:
  "xs \<noteq> [] \<Longrightarrow> \<forall>x \<in> set xs. c \<notin> set x \<Longrightarrow> split_on c (join [c] xs) = xs"
  by (induction "[c]" xs rule: join.induct) (simp_all add: split_on_none split_on_append)

lemma startswith_append [simp]: "startswith (p @ s) p"
  by (simp add: startswith_def)

lemma startswith_iff: "startswith s p \<longleftrightarrow> (\<exists>t. s = p @ t)"
  unfolding startswith_def by (metis append_take_drop_id append_eq_conv_conj)

text \<open>The format \<open>%d\<close> and the conversion \<open>int(s)\<close> on decimal digits.\<close>

definition is_digit :: "char \<Rightarrow> bool" where
  "is_digit c = (48 \<le> (of_char c :: nat) \<and> (of_char c :: nat) \<le> 57)"

definition digit_char :: "nat \<Rightarrow> char" where
  "digit_char n = char_of (48 + n)"

fun show_nat :: "nat \<Rightarrow> string" where
  "show_nat n = (if n < 10 then [digit_char n] else show_nat (n div 10) @ [digit_char (n mod 10)])"

declare show_nat.simps [simp del]

definition read_nat :: "string \<Rightarrow> nat" where
  "read_nat s = foldl (\<lambda>a c. 10 * a + (of_char c - 48)) 0 s"

lemma of_digit_char: "n < 10 \<Longrightarrow> of_char (digit_char n) = 48 + n"
  by (simp add: digit_char_def)

lemma is_digit_digit_char: "n < 10 \<Longrightarrow> is_digit (digit_char n)"
  by (simp add: is_digit_def of_digit_char)

lemma show_nat_digits: "show_nat n \<noteq> [] \<and> list_all is_digit (show_nat n)"
proof (induction n rule: show_nat.induct)
  case (1 n)
  then show ?case
    by (cases "n < 10"; subst (1 2) show_nat.simps) (simp_all add: is_digit_digit_char)
qed

lemma read_show_nat: "read_nat (show_nat n) = n"
proof (induction n rule: show_nat.induct)
  case (1 n)
  then show ?case
    by (cases "n < 10"; subst show_nat.simps) (simp_all add: read_nat_def of_digit_char)
qed

text \<open>\<open>str.strip()\<close> with the white space of Python 3, which is also what a pattern's backslash-s matches, \<open>s.split(c, 1)\<close>, \<open>lines.sort()\<close> and \<open>"%.3f"\<close> of milliseconds.\<close>

definition is_space :: "char \<Rightarrow> bool" where
  "is_space c = (c \<in> set [CHR '' '', CHR 0x09, CHR 0x0A, CHR 0x0B, CHR 0x0C, CHR 0x0D,
     CHR 0x1C, CHR 0x1D, CHR 0x1E, CHR 0x1F, CHR 0x85, CHR 0xA0])"

definition strip :: "string \<Rightarrow> string" where
  "strip s = rev (dropWhile is_space (rev (dropWhile is_space s)))"

definition split_once :: "char \<Rightarrow> string \<Rightarrow> string \<times> string option" where
  "split_once c s =
     (let rest = dropWhile (\<lambda>x. x \<noteq> c) s
      in (takeWhile (\<lambda>x. x \<noteq> c) s, if rest = [] then None else Some (tl rest)))"

definition show_millis :: "nat \<Rightarrow> string" where
  "show_millis t =
     (let ms = t mod 1000
      in show_nat (t div 1000) @ ''.'' @ [digit_char (ms div 100), digit_char (ms div 10 mod 10), digit_char (ms mod 10)])"

lemma line_feed_space [simp]: "is_space (CHR 0x0A)"
  by (simp add: is_space_def)

lemma join_split_once: "split_once c s = (a, Some b) \<Longrightarrow> s = a @ c # b"
proof -
  assume "split_once c s = (a, Some b)"
  then have ab: "a = takeWhile (\<lambda>x. x \<noteq> c) s" "dropWhile (\<lambda>x. x \<noteq> c) s \<noteq> []" "b = tl (dropWhile (\<lambda>x. x \<noteq> c) s)"
    by (auto simp: split_once_def Let_def split: if_splits)
  moreover have "hd (dropWhile (\<lambda>x. x \<noteq> c) s) = c" using hd_dropWhile [OF ab(2)] by simp
  ultimately show "s = a @ c # b" by (metis takeWhile_dropWhile_id list.collapse)
qed

end
