(* ===== verification/VizThread.thy ===== *)
theory VizThread
  imports PyPrelude Complex_Main "HOL-Library.Sublist"
begin

text \<open>
  The two threads of the visualizer, \<open>visualizer/core.py\<close>: \<open>SimulationThread.run\<close> (lines 652 to
  683) and the main thread with its GTK loop, timers and handlers (\<open>_speed_changed\<close>,
  \<open>update_model\<close>, \<open>update_view_timeout\<close>, \<open>_start_update_timer\<close>, \<open>_on_play_button_toggled\<close>,
  \<open>_quit\<close>).  The threads meet at the lock, the event \<open>go\<close>, the flag \<open>quit\<close> and the list of
  pause messages.  An atomic action of one thread is an \<open>action\<close>; the step relation
  \<open>viz_step\<close> has one rule for each.  While it waits for the lock the view runs the event loop, so
  the main thread is a stack of the callbacks that have been entered and not left.  An update of the view may
  raise; what it loses is kept in a field of the model, to be counted.
\<close>

section \<open>The state\<close>

datatype thread = MainThread | SimThread

text \<open>Where the simulation thread is in \<open>run\<close>.\<close>

datatype sim_pc =
    SimTest       \<comment> \<open>\<open>while not self.quit\<close>\<close>
  | SimWait       \<comment> \<open>\<open>self.go.wait()\<close>\<close>
  | SimClear      \<comment> \<open>\<open>self.go.clear()\<close>\<close>
  | SimTestAgain  \<comment> \<open>\<open>if self.quit: break\<close>\<close>
  | SimAcquire    \<comment> \<open>\<open>self.lock.acquire()\<close>\<close>
  | SimRun        \<comment> \<open>\<open>SimulatorRunUntil\<close>\<close>
  | SimReport     \<comment> \<open>\<open>pause_messages.extend\<close>, \<open>idle_add\<close>\<close>
  | SimRelease    \<comment> \<open>\<open>self.lock.release()\<close>\<close>
  | SimEnded

text \<open>
  What the main thread takes the lock for: the update of the view, started by a timer; the
  callback \<open>update_model\<close>; any other handler that works under the lock (the tooltip, dragging a
  node, \<open>set_nodes_of_interest\<close>, a new information window).
\<close>

datatype lock_job = View nat | Model | Handler

datatype frame =
    Spinning nat               \<comment> \<open>\<open>update_view_timeout\<close> of this timer, running the event loop until it gets the lock\<close>
  | Blocked lock_job                \<comment> \<open>inside \<open>lock.acquire()\<close>\<close>
  | Locked lock_job "string list"   \<comment> \<open>with the lock, and the pause messages the view has taken\<close>
  | Shown nat "string list"    \<comment> \<open>\<open>update_view_timeout\<close> after it released the lock\<close>
  | Unlocked                   \<comment> \<open>\<open>autoscale_view\<close>, which reads the simulator without the lock\<close>
  | Quitting                   \<comment> \<open>\<open>_quit\<close> between \<open>quit = True\<close> and \<open>go.set()\<close>\<close>
  | Joining                    \<comment> \<open>\<open>simulation.join()\<close>\<close>

record viz =
  sim_at :: sim_pc
  lock_of :: "thread option"
  go :: bool
  quit_flag :: bool
  target_time :: rat
  pause_messages :: "string list"
  sim_now :: rat
  new_messages :: "string list"
  samples :: nat
  frames :: "frame list"
  idle_updates :: nat
  autoscale_due :: bool
  main_quit :: bool
  play_active :: bool
  speed :: rat
  sample_period :: rat
  timeout_id :: "nat option"
  timers :: "(nat \<times> int) list"
  next_timer :: nat
  bad_removals :: nat
  dialogs :: "string list"
  lost_messages :: "string list"
  collected :: "nat list"

text \<open>
  \<open>sim_now\<close>, \<open>new_messages\<close> and \<open>samples\<close> belong to the simulator: its clock, what
  \<open>GetPauseMessages\<close> returns after a run, and the number of the run whose samples
  \<open>GetTransmissionSamples\<close> returns, since each run drops those of the one before.  \<open>dialogs\<close>
  are the messages that have been shown, \<open>lost_messages\<close> those that a view had taken when it raised, and
  \<open>collected\<close> the runs whose samples
  \<open>update_model\<close> has taken.  \<open>bad_removals\<close> counts the calls of \<open>GLib.source_remove\<close> on a
  source that is gone.
\<close>

definition SAMPLE_PERIOD :: rat where
  "SAMPLE_PERIOD = 1 / 10"

section \<open>The handlers of the main thread\<close>

definition source_remove :: "nat \<Rightarrow> viz \<Rightarrow> viz" where
  "source_remove i s =
     (if i \<in> fst ` set (timers s)
      then s\<lparr>timers := filter (\<lambda>t. fst t \<noteq> i) (timers s)\<rparr>
      else s\<lparr>bad_removals := Suc (bad_removals s)\<rparr>)"

definition timeout_add :: "int \<Rightarrow> viz \<Rightarrow> viz" where
  "timeout_add ms s =
     s\<lparr>timers := timers s @ [(next_timer s, ms)], timeout_id := Some (next_timer s), next_timer := Suc (next_timer s)\<rparr>"

definition remove_timeout :: "viz \<Rightarrow> viz" where
  "remove_timeout s = (case timeout_id s of None \<Rightarrow> s | Some i \<Rightarrow> source_remove i s)"

text \<open>\<open>int(x)\<close> of a positive number is its floor.\<close>

definition timer_interval :: "rat \<Rightarrow> int" where
  "timer_interval v = \<lfloor>SAMPLE_PERIOD / min v 1 * 1000\<rfloor>"

definition start_update_timer :: "viz \<Rightarrow> viz" where
  "start_update_timer s = timeout_add (timer_interval (speed s)) (remove_timeout s)"

definition on_play_button_toggled :: "viz \<Rightarrow> viz" where
  "on_play_button_toggled s = (if play_active s then start_update_timer s else remove_timeout s)"

text \<open>\<open>ToggleButton.set_active\<close> emits \<open>toggled\<close> when the state changes.\<close>

definition set_active :: "bool \<Rightarrow> viz \<Rightarrow> viz" where
  "set_active b s = (if play_active s = b then s else on_play_button_toggled (s\<lparr>play_active := b\<rparr>))"

definition speed_changed :: "rat \<Rightarrow> viz \<Rightarrow> viz" where
  "speed_changed v s = start_update_timer (s\<lparr>speed := v, sample_period := SAMPLE_PERIOD * v\<rparr>)"

text \<open>The first statements of \<open>_quit\<close>, up to \<open>quit = True\<close>.\<close>

definition begin_quit :: "viz \<Rightarrow> viz" where
  "begin_quit s =
     (let s = (case timeout_id s of None \<Rightarrow> s | Some i \<Rightarrow> (source_remove i s)\<lparr>timeout_id := None\<rparr>)
      in s\<lparr>quit_flag := True\<rparr>)"

text \<open>
  The end of \<open>update_view_timeout\<close>, once the lock is released.  GLib drops the source of a
  callback that returns False, if it is still there.
\<close>

definition drop_source :: "nat \<Rightarrow> viz \<Rightarrow> viz" where
  "drop_source i s = s\<lparr>timers := filter (\<lambda>t. fst t \<noteq> i) (timers s)\<rparr>"

definition end_view :: "nat \<Rightarrow> string list \<Rightarrow> viz \<Rightarrow> viz" where
  "end_view i msgs s =
     (let s = (if msgs \<noteq> [] then set_active False (s\<lparr>dialogs := dialogs s @ msgs\<rparr>) else s)
      in if \<not> play_active s then drop_source i (s\<lparr>timeout_id := None\<rparr>)
         else s\<lparr>go := True\<rparr>)"

text \<open>The main thread is in an event loop: the outer one, or that of a view that waits.\<close>

definition at_loop :: "viz \<Rightarrow> bool" where
  "at_loop s = (case frames s of [] \<Rightarrow> \<not> main_quit s | f # _ \<Rightarrow> (case f of Spinning _ \<Rightarrow> True | _ \<Rightarrow> False))"

text \<open>GLib does not dispatch a source again while its callback runs.\<close>

definition dispatching :: "viz \<Rightarrow> nat set" where
  "dispatching s = {i. Spinning i \<in> set (frames s)}"

section \<open>The steps\<close>

datatype action =
    Timer nat | TakeView | LeaveView | FailView | EndView
  | Idle | Call | Acquire | Release
  | Autoscale | EndAutoscale
  | Play | Speed rat
  | Quit | SetGo | Join
  | Test | Wait | Clear | TestAgain | SimLock | Run rat "string list" | Report | SimUnlock

text \<open>
  What the main thread does, callback by callback.  \<open>FailView\<close> is the end of an \<open>update_view_timeout\<close> of which
  \<open>update_view\<close> raises: the \<open>finally\<close> releases the lock, nothing behind it runs, the messages
  that were taken are gone, and GLib, which sees no true answer, drops the source, while
  \<open>_update_timeout_id\<close> still names it.
\<close>

inductive main_step :: "viz \<Rightarrow> action \<Rightarrow> viz \<Rightarrow> bool" where
  timer: "at_loop s \<Longrightarrow> i \<in> fst ` set (timers s) \<Longrightarrow> i \<notin> dispatching s \<Longrightarrow>
     main_step s (Timer i) (s\<lparr>frames := Spinning i # frames s\<rparr>)"
| take_view: "frames s = Spinning i # fs \<Longrightarrow> lock_of s = None \<Longrightarrow>
     main_step s TakeView (s\<lparr>lock_of := Some MainThread, frames := Locked (View i) (pause_messages s) # fs, pause_messages := []\<rparr>)"
| leave_view: "frames s = Locked (View i) msgs # fs \<Longrightarrow>
     main_step s LeaveView (s\<lparr>target_time := sim_now s + sample_period s, lock_of := None, frames := Shown i msgs # fs\<rparr>)"
| fail_view: "frames s = Locked (View i) msgs # fs \<Longrightarrow>
     main_step s FailView (drop_source i (s\<lparr>lock_of := None, lost_messages := lost_messages s @ msgs, frames := fs\<rparr>))"
| end_view: "frames s = Shown i msgs # fs \<Longrightarrow>
     main_step s EndView (end_view i msgs (s\<lparr>frames := fs\<rparr>))"
| idle: "at_loop s \<Longrightarrow> 0 < idle_updates s \<Longrightarrow>
     main_step s Idle (s\<lparr>idle_updates := idle_updates s - 1, frames := Blocked Model # frames s\<rparr>)"
| call: "at_loop s \<Longrightarrow> main_step s Call (s\<lparr>frames := Blocked Handler # frames s\<rparr>)"
| acquire: "frames s = Blocked j # fs \<Longrightarrow> lock_of s = None \<Longrightarrow>
     main_step s Acquire (s\<lparr>lock_of := Some MainThread, frames := Locked j [] # fs\<rparr>)"
| release: "frames s = Locked j msgs # fs \<Longrightarrow> j \<in> {Model, Handler} \<Longrightarrow>
     main_step s Release (s\<lparr>lock_of := None, frames := fs,
       collected := collected s @ (if j = Model then [samples s] else [])\<rparr>)"
| autoscale: "at_loop s \<Longrightarrow> autoscale_due s \<Longrightarrow>
     main_step s Autoscale (s\<lparr>autoscale_due := False, frames := Unlocked # frames s\<rparr>)"
| end_autoscale: "frames s = Unlocked # fs \<Longrightarrow> main_step s EndAutoscale (s\<lparr>frames := fs\<rparr>)"
| play: "at_loop s \<Longrightarrow> main_step s Play (set_active (\<not> play_active s) s)"
| speed: "at_loop s \<Longrightarrow> 1 / 100 \<le> v \<Longrightarrow> v \<le> 10 \<Longrightarrow> main_step s (Speed v) (speed_changed v s)"
| quit: "at_loop s \<Longrightarrow> main_step s Quit (begin_quit (s\<lparr>frames := Quitting # frames s\<rparr>))"
| set_go: "frames s = Quitting # fs \<Longrightarrow> main_step s SetGo (s\<lparr>go := True, frames := Joining # fs\<rparr>)"
| join: "frames s = Joining # fs \<Longrightarrow> sim_at s = SimEnded \<Longrightarrow>
     main_step s Join (s\<lparr>frames := fs, main_quit := True\<rparr>)"

text \<open>
  \<open>SimulatorRunUntil\<close> is C++: it returns at once when the clock has reached the target, and
  otherwise when the clock reaches the target, when the simulation is finished or when a model
  calls \<open>Pause\<close>.  So the clock moves forward and not past the target.
\<close>

inductive sim_step :: "viz \<Rightarrow> action \<Rightarrow> viz \<Rightarrow> bool" where
  test: "sim_at s = SimTest \<Longrightarrow>
     sim_step s Test (s\<lparr>sim_at := (if quit_flag s then SimEnded else SimWait)\<rparr>)"
| wait: "sim_at s = SimWait \<Longrightarrow> go s \<Longrightarrow> sim_step s Wait (s\<lparr>sim_at := SimClear\<rparr>)"
| clear: "sim_at s = SimClear \<Longrightarrow> sim_step s Clear (s\<lparr>go := False, sim_at := SimTestAgain\<rparr>)"
| test_again: "sim_at s = SimTestAgain \<Longrightarrow>
     sim_step s TestAgain (s\<lparr>sim_at := (if quit_flag s then SimEnded else SimAcquire)\<rparr>)"
| sim_lock: "sim_at s = SimAcquire \<Longrightarrow> lock_of s = None \<Longrightarrow>
     sim_step s SimLock (s\<lparr>lock_of := Some SimThread, sim_at := SimRun\<rparr>)"
| run: "sim_at s = SimRun \<Longrightarrow> sim_now s \<le> t \<Longrightarrow> t \<le> max (sim_now s) (target_time s) \<Longrightarrow>
     sim_step s (Run t msgs) (s\<lparr>sim_now := t, new_messages := msgs, samples := Suc (samples s), sim_at := SimReport\<rparr>)"
| report: "sim_at s = SimReport \<Longrightarrow>
     sim_step s Report (s\<lparr>pause_messages := pause_messages s @ new_messages s,
       idle_updates := Suc (idle_updates s), sim_at := SimRelease\<rparr>)"
| sim_unlock: "sim_at s = SimRelease \<Longrightarrow>
     sim_step s SimUnlock (s\<lparr>lock_of := None, sim_at := SimTest\<rparr>)"

definition viz_step :: "viz \<Rightarrow> action \<Rightarrow> viz \<Rightarrow> bool" where
  "viz_step s a t \<longleftrightarrow> main_step s a t \<or> sim_step s a t"

text \<open>
  The state when \<open>start\<close> enters \<open>Gtk.main\<close>: \<open>create_gui\<close> has called \<open>_speed_changed\<close>, so a timer
  is there although the button is not pressed; its first callback draws the view and stops it.
\<close>

definition initial_viz :: viz where
  "initial_viz = speed_changed 1
     \<lparr>sim_at = SimTest, lock_of = None, go = False, quit_flag = False, target_time = 0, pause_messages = [],
      sim_now = 0, new_messages = [], samples = 0, frames = [], idle_updates = 0, autoscale_due = True,
      main_quit = False, play_active = False, speed = 1, sample_period = SAMPLE_PERIOD, timeout_id = None,
      timers = [], next_timer = 1, bad_removals = 0, dialogs = [], lost_messages = [], collected = []\<rparr>"

inductive viz_steps :: "viz \<Rightarrow> action list \<Rightarrow> viz \<Rightarrow> bool" where
  none: "viz_steps s [] s"
| more: "viz_step s a t \<Longrightarrow> viz_steps t as u \<Longrightarrow> viz_steps s (a # as) u"

definition viz_reachable :: "viz \<Rightarrow> bool" where
  "viz_reachable s = (\<exists>as. viz_steps initial_viz as s)"

text \<open>The same steps as a function: an action is possible or not, and has one result.\<close>

fun perform :: "viz \<Rightarrow> action \<Rightarrow> viz option" where
  "perform s (Timer i) =
     (if at_loop s \<and> i \<in> set (map fst (timers s)) \<and> Spinning i \<notin> set (frames s)
      then Some (s\<lparr>frames := Spinning i # frames s\<rparr>) else None)"
| "perform s TakeView =
     (case frames s of Spinning i # fs \<Rightarrow>
        (if lock_of s = None
         then Some (s\<lparr>lock_of := Some MainThread, frames := Locked (View i) (pause_messages s) # fs, pause_messages := []\<rparr>)
         else None)
      | _ \<Rightarrow> None)"
| "perform s LeaveView =
     (case frames s of Locked (View i) msgs # fs \<Rightarrow>
        Some (s\<lparr>target_time := sim_now s + sample_period s, lock_of := None, frames := Shown i msgs # fs\<rparr>)
      | _ \<Rightarrow> None)"
| "perform s FailView =
     (case frames s of Locked (View i) msgs # fs \<Rightarrow>
        Some (drop_source i (s\<lparr>lock_of := None, lost_messages := lost_messages s @ msgs, frames := fs\<rparr>))
      | _ \<Rightarrow> None)"
| "perform s EndView =
     (case frames s of Shown i msgs # fs \<Rightarrow> Some (end_view i msgs (s\<lparr>frames := fs\<rparr>)) | _ \<Rightarrow> None)"
| "perform s Idle =
     (if at_loop s \<and> 0 < idle_updates s
      then Some (s\<lparr>idle_updates := idle_updates s - 1, frames := Blocked Model # frames s\<rparr>) else None)"
| "perform s Call = (if at_loop s then Some (s\<lparr>frames := Blocked Handler # frames s\<rparr>) else None)"
| "perform s Acquire =
     (case frames s of Blocked j # fs \<Rightarrow>
        (if lock_of s = None then Some (s\<lparr>lock_of := Some MainThread, frames := Locked j [] # fs\<rparr>) else None)
      | _ \<Rightarrow> None)"
| "perform s Release =
     (case frames s of Locked j msgs # fs \<Rightarrow>
        (if j \<in> {Model, Handler}
         then Some (s\<lparr>lock_of := None, frames := fs,
           collected := collected s @ (if j = Model then [samples s] else [])\<rparr>)
         else None)
      | _ \<Rightarrow> None)"
| "perform s Autoscale =
     (if at_loop s \<and> autoscale_due s
      then Some (s\<lparr>autoscale_due := False, frames := Unlocked # frames s\<rparr>) else None)"
| "perform s EndAutoscale =
     (case frames s of Unlocked # fs \<Rightarrow> Some (s\<lparr>frames := fs\<rparr>) | _ \<Rightarrow> None)"
| "perform s Play = (if at_loop s then Some (set_active (\<not> play_active s) s) else None)"
| "perform s (Speed v) = (if at_loop s \<and> 1 / 100 \<le> v \<and> v \<le> 10 then Some (speed_changed v s) else None)"
| "perform s Quit = (if at_loop s then Some (begin_quit (s\<lparr>frames := Quitting # frames s\<rparr>)) else None)"
| "perform s SetGo =
     (case frames s of Quitting # fs \<Rightarrow> Some (s\<lparr>go := True, frames := Joining # fs\<rparr>) | _ \<Rightarrow> None)"
| "perform s Join =
     (case frames s of Joining # fs \<Rightarrow>
        (if sim_at s = SimEnded then Some (s\<lparr>frames := fs, main_quit := True\<rparr>) else None)
      | _ \<Rightarrow> None)"
| "perform s Test =
     (if sim_at s = SimTest then Some (s\<lparr>sim_at := (if quit_flag s then SimEnded else SimWait)\<rparr>) else None)"
| "perform s Wait = (if sim_at s = SimWait \<and> go s then Some (s\<lparr>sim_at := SimClear\<rparr>) else None)"
| "perform s Clear = (if sim_at s = SimClear then Some (s\<lparr>go := False, sim_at := SimTestAgain\<rparr>) else None)"
| "perform s TestAgain =
     (if sim_at s = SimTestAgain then Some (s\<lparr>sim_at := (if quit_flag s then SimEnded else SimAcquire)\<rparr>) else None)"
| "perform s SimLock =
     (if sim_at s = SimAcquire \<and> lock_of s = None
      then Some (s\<lparr>lock_of := Some SimThread, sim_at := SimRun\<rparr>) else None)"
| "perform s (Run t msgs) =
     (if sim_at s = SimRun \<and> sim_now s \<le> t \<and> t \<le> max (sim_now s) (target_time s)
      then Some (s\<lparr>sim_now := t, new_messages := msgs, samples := Suc (samples s), sim_at := SimReport\<rparr>) else None)"
| "perform s Report =
     (if sim_at s = SimReport
      then Some (s\<lparr>pause_messages := pause_messages s @ new_messages s,
             idle_updates := Suc (idle_updates s), sim_at := SimRelease\<rparr>) else None)"
| "perform s SimUnlock =
     (if sim_at s = SimRelease then Some (s\<lparr>lock_of := None, sim_at := SimTest\<rparr>) else None)"

fun perform_all :: "viz \<Rightarrow> action list \<Rightarrow> viz option" where
  "perform_all s [] = Some s"
| "perform_all s (a # as) = (case perform s a of None \<Rightarrow> None | Some t \<Rightarrow> perform_all t as)"

inductive_simps main_simps:
  "main_step s (Timer i) t"
  "main_step s TakeView t"
  "main_step s LeaveView t"
  "main_step s FailView t"
  "main_step s EndView t"
  "main_step s Idle t"
  "main_step s Call t"
  "main_step s Acquire t"
  "main_step s Release t"
  "main_step s Autoscale t"
  "main_step s EndAutoscale t"
  "main_step s Play t"
  "main_step s (Speed v) t"
  "main_step s Quit t"
  "main_step s SetGo t"
  "main_step s Join t"
  "main_step s Test t"
  "main_step s Wait t"
  "main_step s Clear t"
  "main_step s TestAgain t"
  "main_step s SimLock t"
  "main_step s (Run x msgs) t"
  "main_step s Report t"
  "main_step s SimUnlock t"

inductive_simps sim_simps:
  "sim_step s (Timer i) t"
  "sim_step s TakeView t"
  "sim_step s LeaveView t"
  "sim_step s FailView t"
  "sim_step s EndView t"
  "sim_step s Idle t"
  "sim_step s Call t"
  "sim_step s Acquire t"
  "sim_step s Release t"
  "sim_step s Autoscale t"
  "sim_step s EndAutoscale t"
  "sim_step s Play t"
  "sim_step s (Speed v) t"
  "sim_step s Quit t"
  "sim_step s SetGo t"
  "sim_step s Join t"
  "sim_step s Test t"
  "sim_step s Wait t"
  "sim_step s Clear t"
  "sim_step s TestAgain t"
  "sim_step s SimLock t"
  "sim_step s (Run x msgs) t"
  "sim_step s Report t"
  "sim_step s SimUnlock t"

lemmas step_simps = viz_step_def main_simps sim_simps

lemma perform_iff: "viz_step s a t \<longleftrightarrow> perform s a = Some t"
  by (cases a)
    (auto simp: step_simps dispatching_def image_iff eq_commute [of t] split: if_splits list.splits frame.splits lock_job.splits)

lemmas perform_sound = perform_iff [THEN iffD1]
lemmas perform_complete = perform_iff [THEN iffD2]

lemma perform_all_iff: "viz_steps s as t \<longleftrightarrow> perform_all s as = Some t"
proof
  show "viz_steps s as t \<Longrightarrow> perform_all s as = Some t"
    by (induction rule: viz_steps.induct) (auto dest: perform_sound)
  show "perform_all s as = Some t \<Longrightarrow> viz_steps s as t"
    by (induction as arbitrary: s)
      (auto split: option.splits intro: viz_steps.intros dest: perform_complete)
qed

lemma viz_steps_snoc: "viz_steps s as t \<Longrightarrow> viz_step t a u \<Longrightarrow> viz_steps s (as @ [a]) u"
  by (induction rule: viz_steps.induct) (auto intro: viz_steps.intros)

lemma viz_steps_rev_induct [consumes 1, case_names none snoc]:
  assumes "viz_steps s as t" "P [] s"
    and "\<And>as t a u. viz_steps s as t \<Longrightarrow> P as t \<Longrightarrow> viz_step t a u \<Longrightarrow> P (as @ [a]) u"
  shows "P as t"
proof -
  have "P (pre @ as) t" if "viz_steps x as t" "viz_steps s pre x" "P pre x" for x pre
    using that
  proof (induction arbitrary: pre rule: viz_steps.induct)
    case (none x)
    then show ?case by simp
  next
    case (more x a y as z)
    then have "viz_steps s (pre @ [a]) y" "P (pre @ [a]) y"
      by (auto intro: viz_steps_snoc assms(3))
    from more.IH [OF this] show ?case by simp
  qed
  from this [OF assms(1) viz_steps.none assms(2)] show ?thesis by simp
qed

lemma viz_invariant:
  assumes "viz_reachable s" "I initial_viz" "\<And>s a t. I s \<Longrightarrow> viz_step s a t \<Longrightarrow> I t"
  shows "I s"
proof -
  from assms(1) obtain as where "viz_steps initial_viz as s" by (auto simp: viz_reachable_def)
  then show ?thesis by (induction rule: viz_steps_rev_induct) (auto intro: assms(2,3))
qed

lemma viz_reachable_step: "viz_reachable s \<Longrightarrow> viz_step s a t \<Longrightarrow> viz_reachable t"
  by (auto simp: viz_reachable_def intro: viz_steps_snoc)

section \<open>What the timer handlers leave alone\<close>

lemma timer_handlers_frame [simp]:
  "sim_at (start_update_timer s) = sim_at s" "lock_of (start_update_timer s) = lock_of s"
  "go (start_update_timer s) = go s" "quit_flag (start_update_timer s) = quit_flag s"
  "frames (start_update_timer s) = frames s" "pause_messages (start_update_timer s) = pause_messages s"
  "new_messages (start_update_timer s) = new_messages s" "dialogs (start_update_timer s) = dialogs s"
  "sim_now (start_update_timer s) = sim_now s" "target_time (start_update_timer s) = target_time s"
  "play_active (start_update_timer s) = play_active s" "main_quit (start_update_timer s) = main_quit s"
  "speed (start_update_timer s) = speed s" "sample_period (start_update_timer s) = sample_period s"
  "lost_messages (start_update_timer s) = lost_messages s"
  by (simp_all add: start_update_timer_def timeout_add_def remove_timeout_def source_remove_def split: option.splits)

lemma remove_timeout_frame [simp]:
  "sim_at (remove_timeout s) = sim_at s" "lock_of (remove_timeout s) = lock_of s"
  "go (remove_timeout s) = go s" "quit_flag (remove_timeout s) = quit_flag s"
  "frames (remove_timeout s) = frames s" "pause_messages (remove_timeout s) = pause_messages s"
  "new_messages (remove_timeout s) = new_messages s" "dialogs (remove_timeout s) = dialogs s"
  "sim_now (remove_timeout s) = sim_now s" "target_time (remove_timeout s) = target_time s"
  "play_active (remove_timeout s) = play_active s" "main_quit (remove_timeout s) = main_quit s"
  "speed (remove_timeout s) = speed s" "sample_period (remove_timeout s) = sample_period s"
  "lost_messages (remove_timeout s) = lost_messages s"
  by (simp_all add: remove_timeout_def source_remove_def split: option.splits)

lemma set_active_frame [simp]:
  "sim_at (set_active b s) = sim_at s" "lock_of (set_active b s) = lock_of s"
  "go (set_active b s) = go s" "quit_flag (set_active b s) = quit_flag s"
  "frames (set_active b s) = frames s" "pause_messages (set_active b s) = pause_messages s"
  "new_messages (set_active b s) = new_messages s" "dialogs (set_active b s) = dialogs s"
  "sim_now (set_active b s) = sim_now s" "target_time (set_active b s) = target_time s"
  "play_active (set_active b s) = b" "main_quit (set_active b s) = main_quit s"
  "speed (set_active b s) = speed s" "sample_period (set_active b s) = sample_period s"
  "lost_messages (set_active b s) = lost_messages s"
  by (simp_all add: set_active_def on_play_button_toggled_def)

lemma begin_quit_frame [simp]:
  "sim_at (begin_quit s) = sim_at s" "lock_of (begin_quit s) = lock_of s"
  "go (begin_quit s) = go s" "quit_flag (begin_quit s)"
  "frames (begin_quit s) = frames s" "pause_messages (begin_quit s) = pause_messages s"
  "new_messages (begin_quit s) = new_messages s" "dialogs (begin_quit s) = dialogs s"
  "sim_now (begin_quit s) = sim_now s" "target_time (begin_quit s) = target_time s"
  "play_active (begin_quit s) = play_active s" "main_quit (begin_quit s) = main_quit s"
  "speed (begin_quit s) = speed s" "sample_period (begin_quit s) = sample_period s"
  "lost_messages (begin_quit s) = lost_messages s"
  by (simp_all add: begin_quit_def source_remove_def Let_def split: option.splits)

lemma end_view_frame [simp]:
  "sim_at (end_view i msgs s) = sim_at s" "lock_of (end_view i msgs s) = lock_of s"
  "go (end_view i msgs s) \<longleftrightarrow> go s \<or> (msgs = [] \<and> play_active s)" "quit_flag (end_view i msgs s) = quit_flag s"
  "frames (end_view i msgs s) = frames s" "pause_messages (end_view i msgs s) = pause_messages s"
  "new_messages (end_view i msgs s) = new_messages s" "dialogs (end_view i msgs s) = dialogs s @ msgs"
  "sim_now (end_view i msgs s) = sim_now s" "target_time (end_view i msgs s) = target_time s"
  "play_active (end_view i msgs s) \<longleftrightarrow> play_active s \<and> msgs = []" "main_quit (end_view i msgs s) = main_quit s"
  "speed (end_view i msgs s) = speed s" "sample_period (end_view i msgs s) = sample_period s"
  "lost_messages (end_view i msgs s) = lost_messages s"
  by (auto simp: end_view_def drop_source_def Let_def)

lemma speed_changed_frame [simp]:
  "sim_at (speed_changed v s) = sim_at s" "lock_of (speed_changed v s) = lock_of s"
  "go (speed_changed v s) = go s" "quit_flag (speed_changed v s) = quit_flag s"
  "frames (speed_changed v s) = frames s" "pause_messages (speed_changed v s) = pause_messages s"
  "new_messages (speed_changed v s) = new_messages s" "dialogs (speed_changed v s) = dialogs s"
  "sim_now (speed_changed v s) = sim_now s" "target_time (speed_changed v s) = target_time s"
  "play_active (speed_changed v s) = play_active s" "main_quit (speed_changed v s) = main_quit s"
  "speed (speed_changed v s) = v" "sample_period (speed_changed v s) = SAMPLE_PERIOD * v"
  "lost_messages (speed_changed v s) = lost_messages s"
  by (simp_all add: speed_changed_def)

lemma drop_source_frame [simp]:
  "sim_at (drop_source i s) = sim_at s" "lock_of (drop_source i s) = lock_of s"
  "go (drop_source i s) = go s" "quit_flag (drop_source i s) = quit_flag s"
  "frames (drop_source i s) = frames s" "pause_messages (drop_source i s) = pause_messages s"
  "new_messages (drop_source i s) = new_messages s" "dialogs (drop_source i s) = dialogs s"
  "sim_now (drop_source i s) = sim_now s" "target_time (drop_source i s) = target_time s"
  "play_active (drop_source i s) = play_active s" "main_quit (drop_source i s) = main_quit s"
  "speed (drop_source i s) = speed s" "sample_period (drop_source i s) = sample_period s"
  "lost_messages (drop_source i s) = lost_messages s" "timeout_id (drop_source i s) = timeout_id s"
  "next_timer (drop_source i s) = next_timer s"
  by (simp_all add: drop_source_def)

section \<open>The lock\<close>

fun is_spinning :: "frame \<Rightarrow> bool" where
  "is_spinning (Spinning _) = True"
| "is_spinning _ = False"

fun holds_lock :: "frame \<Rightarrow> bool" where
  "holds_lock (Locked _ _) = True"
| "holds_lock _ = False"

definition main_holds :: "viz \<Rightarrow> bool" where
  "main_holds s = (case frames s of [] \<Rightarrow> False | f # _ \<Rightarrow> holds_lock f)"

definition sim_holds :: "viz \<Rightarrow> bool" where
  "sim_holds s = (sim_at s \<in> {SimRun, SimReport, SimRelease})"

text \<open>
  Only the innermost callback can hold the lock or wait for anything: below it are views that
  run the event loop because they do not have the lock.
\<close>

definition lock_inv :: "viz \<Rightarrow> bool" where
  "lock_inv s \<longleftrightarrow> (\<forall>f\<in>set (tl (frames s)). is_spinning f)
     \<and> (lock_of s = Some MainThread \<longleftrightarrow> main_holds s) \<and> (lock_of s = Some SimThread \<longleftrightarrow> sim_holds s)"

lemma lock_inv_initial: "lock_inv initial_viz"
  by (simp add: lock_inv_def main_holds_def sim_holds_def initial_viz_def)

lemma at_loopE:
  assumes "at_loop s"
  obtains "frames s = []" | i fs where "frames s = Spinning i # fs"
  using assms by (auto simp: at_loop_def split: list.splits frame.splits)

lemma spinning_not_holding: "\<forall>f\<in>set fs. is_spinning f \<Longrightarrow> (case fs of [] \<Rightarrow> False | f # _ \<Rightarrow> holds_lock f) = False"
  by (cases fs) (auto elim: is_spinning.elims)

lemma spinning_tl: "\<forall>f\<in>set fs. is_spinning f \<Longrightarrow> \<forall>f\<in>set (tl fs). is_spinning f"
  by (cases fs) auto

lemmas lock_inv_defs = lock_inv_def main_holds_def sim_holds_def spinning_not_holding spinning_tl

lemma lock_inv_main: "main_step s a t \<Longrightarrow> lock_inv s \<Longrightarrow> lock_inv t"
  by (induction rule: main_step.induct) (erule at_loopE | simp add: lock_inv_defs | fastforce simp: lock_inv_defs)+

lemma lock_inv_sim: "sim_step s a t \<Longrightarrow> lock_inv s \<Longrightarrow> lock_inv t"
  by (induction rule: sim_step.induct) (auto simp: lock_inv_def main_holds_def sim_holds_def)

lemma lock_inv_step: "lock_inv s \<Longrightarrow> viz_step s a t \<Longrightarrow> lock_inv t"
  by (auto simp: viz_step_def dest: lock_inv_main lock_inv_sim)

lemma reachable_lock_inv: "viz_reachable s \<Longrightarrow> lock_inv s"
  by (rule viz_invariant [where I = lock_inv]) (auto intro: lock_inv_initial lock_inv_step)

text \<open>
  Claim C11.  The simulation runs in its thread, and the view, the callback \<open>update_model\<close> and the
  handlers that take the lock run in the main thread, but never two of them at once.
\<close>

theorem simulator_exclusive:
  assumes "viz_reachable s" "sim_at s = SimRun" "frames s = f # fs"
  shows "\<not> holds_lock f \<and> lock_of s = Some SimThread \<and> (\<forall>g\<in>set fs. is_spinning g)"
  using reachable_lock_inv [OF assms(1)] assms(2,3)
  by (auto simp: lock_inv_def main_holds_def sim_holds_def)

section \<open>Waiting\<close>

text \<open>How many steps the simulation thread can take while nobody else moves.\<close>

fun steps_to_wait :: "sim_pc \<Rightarrow> nat" where
  "steps_to_wait SimEnded = 0"
| "steps_to_wait SimWait = 0"
| "steps_to_wait SimTest = 1"
| "steps_to_wait SimRelease = 2"
| "steps_to_wait SimReport = 3"
| "steps_to_wait SimRun = 4"
| "steps_to_wait SimAcquire = 5"
| "steps_to_wait SimTestAgain = 6"
| "steps_to_wait SimClear = 7"

definition sim_left :: "viz \<Rightarrow> nat" where
  "sim_left s = steps_to_wait (sim_at s) + (if go s \<and> sim_at s \<notin> {SimClear, SimEnded} then 8 else 0)"

lemma sim_left_bound: "sim_left s \<le> 14"
  by (cases "sim_at s") (simp_all add: sim_left_def)

lemma sim_step_left: "sim_step s a t \<Longrightarrow> sim_left t < sim_left s \<and> frames t = frames s"
  by (induction rule: sim_step.induct) (auto simp: sim_left_def)

text \<open>
  The actions by which the main loop starts a callback, and how many steps a callback has still
  before it: its own, and those of the simulation thread when the callback sets \<open>go\<close>.
\<close>

fun begins :: "action \<Rightarrow> bool" where
  "begins (Timer _) = True"
| "begins Idle = True"
| "begins Call = True"
| "begins Autoscale = True"
| "begins Play = True"
| "begins (Speed _) = True"
| "begins Quit = True"
| "begins _ = False"

fun frame_left :: "frame \<Rightarrow> nat" where
  "frame_left (Spinning _) = 11"
| "frame_left (Blocked j) = (case j of View _ \<Rightarrow> 11 | _ \<Rightarrow> 2)"
| "frame_left (Locked j _) = (case j of View _ \<Rightarrow> 10 | _ \<Rightarrow> 1)"
| "frame_left (Shown _ _) = 9"
| "frame_left Unlocked = 1"
| "frame_left Quitting = 10"
| "frame_left Joining = 1"

definition steps_left :: "viz \<Rightarrow> nat" where
  "steps_left s = sum_list (map frame_left (frames s)) + sim_left s"

lemma steps_left_bound: "steps_left s \<le> 11 * length (frames s) + 14"
proof -
  have "frame_left f \<le> 11" for f by (cases f) (simp_all split: lock_job.splits)
  then have "sum_list (map frame_left fs) \<le> 11 * length fs" for fs by (induction fs) (simp_all add: add_mono)
  from add_mono [OF this sim_left_bound] show ?thesis by (simp add: steps_left_def)
qed

lemma sim_left_cong: "sim_at t = sim_at s \<Longrightarrow> go t = go s \<Longrightarrow> sim_left t = sim_left s"
  by (simp add: sim_left_def)

lemma sim_left_go: "sim_at t = sim_at s \<Longrightarrow> sim_left t \<le> sim_left s + 8"
  by (simp add: sim_left_def)

lemma steps_left_main: "main_step s a t \<Longrightarrow> \<not> begins a \<Longrightarrow> steps_left t < steps_left s"
proof (induction rule: main_step.induct)
  case (end_view s i msgs fs)
  then show ?case using sim_left_go [of "end_view i msgs (s\<lparr>frames := fs\<rparr>)" s] by (simp add: steps_left_def)
next
  case (set_go s fs)
  then show ?case using sim_left_go [of "s\<lparr>go := True, frames := Joining # fs\<rparr>" s] by (simp add: steps_left_def)
next
  case (acquire s j fs)
  then show ?case by (cases j) (simp_all add: steps_left_def sim_left_def)
next
  case (release s j msgs fs)
  then show ?case by (auto simp: steps_left_def sim_left_def)
qed (simp_all add: steps_left_def sim_left_def)

lemma steps_left_step: "viz_step s a t \<Longrightarrow> \<not> begins a \<Longrightarrow> steps_left t < steps_left s"
  unfolding viz_step_def using steps_left_main sim_step_left [of s a t] by (auto simp: steps_left_def)

lemma steps_left_run:
  "viz_steps s as t \<Longrightarrow> list_all (\<lambda>a. \<not> begins a) as \<Longrightarrow> length as + steps_left t \<le> steps_left s"
  by (induction rule: viz_steps.induct) (auto dest: steps_left_step)

text \<open>
  \<open>_quit\<close> sets the flag before it sets \<open>go\<close>, and the thread tests the flag again after it has
  cleared \<open>go\<close>, so the signal that wakes it for the last time cannot get lost.
\<close>

fun at_quit :: "frame list \<Rightarrow> bool" where
  "at_quit (Quitting # _) = True"
| "at_quit _ = False"

fun in_quit :: "frame list \<Rightarrow> bool" where
  "in_quit (Quitting # _) = True"
| "in_quit (Joining # _) = True"
| "in_quit _ = False"

definition quit_inv :: "viz \<Rightarrow> bool" where
  "quit_inv s \<longleftrightarrow> (in_quit (frames s) \<longrightarrow> quit_flag s)
     \<and> (quit_flag s \<and> sim_at s = SimWait \<longrightarrow> go s \<or> at_quit (frames s))"

lemma quit_inv_initial: "quit_inv initial_viz"
  by (simp add: quit_inv_def initial_viz_def)

lemma spinning_no_quit: "\<forall>f\<in>set fs. is_spinning f \<Longrightarrow> \<not> in_quit fs \<and> \<not> at_quit fs"
  by (cases fs rule: in_quit.cases) auto

lemma quit_inv_main: "main_step s a t \<Longrightarrow> lock_inv s \<Longrightarrow> quit_inv s \<Longrightarrow> quit_inv t"
proof (induction rule: main_step.induct)
  case (end_view s i msgs fs)
  then have "\<not> in_quit fs \<and> \<not> at_quit fs" by (simp add: lock_inv_def spinning_no_quit)
  with end_view show ?case by (auto simp: quit_inv_def)
next
  case (release s j msgs fs)
  then have "\<not> in_quit fs \<and> \<not> at_quit fs" by (simp add: lock_inv_def spinning_no_quit)
  with release show ?case by (auto simp: quit_inv_def)
next
  case (fail_view s i msgs fs)
  then have "\<not> in_quit fs \<and> \<not> at_quit fs" by (simp add: lock_inv_def spinning_no_quit)
  with fail_view show ?case by (auto simp: quit_inv_def)
next
  case (end_autoscale s fs)
  then have "\<not> in_quit fs \<and> \<not> at_quit fs" by (simp add: lock_inv_def spinning_no_quit)
  with end_autoscale show ?case by (auto simp: quit_inv_def)
next
  case (join s fs)
  then have "\<not> in_quit fs \<and> \<not> at_quit fs" by (simp add: lock_inv_def spinning_no_quit)
  with join show ?case by (auto simp: quit_inv_def)
qed (auto simp: quit_inv_def elim: at_loopE)

lemma quit_inv_sim: "sim_step s a t \<Longrightarrow> quit_inv s \<Longrightarrow> quit_inv t"
  by (induction rule: sim_step.induct) (auto simp: quit_inv_def)

lemma quit_inv_step: "lock_inv s \<and> quit_inv s \<Longrightarrow> viz_step s a t \<Longrightarrow> lock_inv t \<and> quit_inv t"
  using lock_inv_step quit_inv_main quit_inv_sim unfolding viz_step_def by blast

lemma reachable_quit_inv: "viz_reachable s \<Longrightarrow> quit_inv s"
  using viz_invariant [where I = "\<lambda>s. lock_inv s \<and> quit_inv s"] lock_inv_initial quit_inv_initial quit_inv_step
  by blast

fun waits :: "frame \<Rightarrow> bool" where
  "waits (Spinning _) = True"
| "waits (Blocked _) = True"
| "waits Joining = True"
| "waits _ = False"

text \<open>The main thread goes on at once when the simulation thread has come to its end or to its wait.\<close>

lemma waiting_goes_on:
  assumes "lock_of s = None" "frames s = f # fs" "waits f" "f = Joining \<Longrightarrow> sim_at s = SimEnded"
  shows "\<exists>a t. viz_step s a t \<and> \<not> begins a"
proof (cases f)
  case (Spinning i)
  with assms(1,2) show ?thesis by (auto simp: step_simps intro!: exI [of _ TakeView])
next
  case (Blocked j)
  with assms(1,2) show ?thesis by (auto simp: step_simps intro!: exI [of _ Acquire])
next
  case Joining
  with assms(2,4) show ?thesis by (auto simp: step_simps intro!: exI [of _ Join])
qed (use assms(3) in simp_all)

lemma waiting_enabled:
  assumes "viz_reachable s" "frames s = f # fs" "waits f"
  shows "\<exists>a t. viz_step s a t \<and> \<not> begins a"
proof -
  have inv: "lock_inv s" "quit_inv s" using assms(1) by (simp_all add: reachable_lock_inv reachable_quit_inv)
  have free: "lock_of s = None" if "\<not> sim_holds s"
    using that inv(1) assms(2,3) by (cases "lock_of s"; cases "the (lock_of s)"; cases f) (auto simp: lock_inv_def main_holds_def)
  show ?thesis
  proof (cases "sim_at s")
    case SimWait
    show ?thesis
    proof (cases "f = Joining")
      case True
      with inv(2) assms(2) SimWait have "go s" by (auto simp: quit_inv_def)
      with SimWait show ?thesis by (auto simp: step_simps intro!: exI [of _ Wait])
    next
      case False
      with SimWait show ?thesis by (intro waiting_goes_on [OF _ assms(2,3)]) (simp_all add: free sim_holds_def)
    qed
  next
    case SimEnded
    then show ?thesis by (intro waiting_goes_on [OF _ assms(2,3)]) (simp_all add: free sim_holds_def)
  next
    case SimAcquire
    then have "lock_of s = None" by (simp add: free sim_holds_def)
    with SimAcquire show ?thesis by (auto simp: step_simps intro!: exI [of _ SimLock])
  next
    case SimTest
    then show ?thesis by (auto simp: step_simps intro!: exI [of _ Test])
  next
    case SimClear
    then show ?thesis by (auto simp: step_simps intro!: exI [of _ Clear])
  next
    case SimTestAgain
    then show ?thesis by (auto simp: step_simps intro!: exI [of _ TestAgain])
  next
    case SimRun
    then show ?thesis by (auto simp: step_simps intro!: exI [of _ "Run (sim_now s) []"])
  next
    case SimReport
    then show ?thesis by (auto simp: step_simps intro!: exI [of _ Report])
  next
    case SimRelease
    then show ?thesis by (auto simp: step_simps intro!: exI [of _ SimUnlock])
  qed
qed

lemma callback_goes_on:
  assumes "viz_reachable s" "frames s = f # fs"
  shows "\<exists>a t. viz_step s a t \<and> \<not> begins a"
proof (cases f)
  case (Locked j msgs)
  show ?thesis
  proof (cases j)
    case (View i)
    with Locked assms(2) show ?thesis by (auto simp: step_simps intro!: exI [of _ LeaveView])
  qed (use Locked assms(2) in \<open>auto simp: step_simps intro!: exI [of _ Release]\<close>)
next
  case (Shown i msgs)
  with assms(2) show ?thesis by (auto simp: step_simps intro!: exI [of _ EndView])
next
  case Unlocked
  with assms(2) show ?thesis by (auto simp: step_simps intro!: exI [of _ EndAutoscale])
next
  case Quitting
  with assms(2) show ?thesis by (auto simp: step_simps intro!: exI [of _ SetGo])
qed (use waiting_enabled [OF assms] in auto)

lemma viz_steps_reachable: "viz_steps s as t \<Longrightarrow> viz_reachable s \<Longrightarrow> viz_reachable t"
proof (induction rule: viz_steps.induct)
qed (auto intro: viz_reachable_step)

text \<open>
  Claim C10.  Whatever the callbacks of the main thread wait for, it gets: the lock, for which
  \<open>update_view_timeout\<close> runs the event loop and the others block, and the end of the simulation thread.
  In every state it can be in, with any number of callbacks entered and not left, a run in which no further
  callback is started has at most 14 actions and 11 for each of them, and it can be continued as
  long as one of them is not left, so it ends with all of them left.
\<close>

theorem waiting_ends:
  assumes "viz_reachable s" "viz_steps s as t" "list_all (\<lambda>a. \<not> begins a) as"
  shows "length as \<le> 14 + 11 * length (frames s)
    \<and> (frames t \<noteq> [] \<longrightarrow> (\<exists>a u. viz_step t a u \<and> \<not> begins a))"
proof -
  have "length as + steps_left t \<le> steps_left s" by (rule steps_left_run [OF assms(2,3)])
  moreover have "viz_reachable t" using assms(2,1) by (rule viz_steps_reachable)
  ultimately show ?thesis
    using steps_left_bound [of s] callback_goes_on [of t] by (cases "frames t") auto
qed

text \<open>A run that starts the simulation once.\<close>

definition play_once :: "action list" where
  "play_once = [Timer 1, TakeView, LeaveView, EndView, Play, Test, Timer 2, TakeView, LeaveView, EndView,
     Wait, Clear, TestAgain, SimLock, Run (1 / 10) [''pause'']]"

lemmas viz_eval = initial_viz_def speed_changed_def start_update_timer_def timeout_add_def remove_timeout_def
  source_remove_def timer_interval_def SAMPLE_PERIOD_def at_loop_def end_view_def set_active_def
  on_play_button_toggled_def begin_quit_def drop_source_def Let_def

definition after_actions :: "action list \<Rightarrow> viz" where
  "after_actions as = (case perform_all initial_viz as of None \<Rightarrow> initial_viz | Some s \<Rightarrow> s)"

lemma after_actions_steps: "perform_all initial_viz as \<noteq> None \<Longrightarrow> viz_steps initial_viz as (after_actions as)"
  by (auto simp: perform_all_iff after_actions_def)

lemma after_actions_reachable: "viz_reachable (after_actions as)"
proof (cases "perform_all initial_viz as")
  case None
  then show ?thesis by (auto simp: after_actions_def viz_reachable_def intro: viz_steps.none)
next
  case (Some s)
  then show ?thesis by (auto simp: after_actions_def viz_reachable_def perform_all_iff)
qed

lemma play_once_state:
  "sim_at (after_actions (butlast play_once)) = SimRun \<and> frames (after_actions (butlast play_once @ [Call])) = [Blocked Handler]"
  by (simp add: after_actions_def play_once_def viz_eval)

theorem simulator_exclusive_witness:
  "\<not> holds_lock (Blocked Handler) \<and> lock_of (after_actions (butlast play_once @ [Call])) = Some SimThread"
proof -
  have "sim_at (after_actions (butlast play_once @ [Call])) = SimRun"
    by (simp add: after_actions_def play_once_def viz_eval)
  from simulator_exclusive [OF after_actions_reachable this] play_once_state show ?thesis by simp
qed

text \<open>A view waits for the lock while the program is left: two callbacks, and 36 actions at most.\<close>

definition quit_waiting :: "action list" where
  "quit_waiting = butlast play_once @ [Timer 2, Quit]"

lemma quit_waiting_state: "frames (after_actions quit_waiting) = [Quitting, Spinning 2]"
  by (simp add: after_actions_def quit_waiting_def play_once_def viz_eval)

theorem waiting_ends_witness:
  "length [SetGo, Run 0 []] \<le> 36
   \<and> (\<exists>a u. viz_step (after_actions (quit_waiting @ [SetGo, Run 0 []])) a u \<and> \<not> begins a)"
proof -
  have "perform_all (after_actions quit_waiting) [SetGo, Run 0 []] = Some (after_actions (quit_waiting @ [SetGo, Run 0 []]))"
    by (simp add: after_actions_def quit_waiting_def play_once_def viz_eval)
  then have run: "viz_steps (after_actions quit_waiting) [SetGo, Run 0 []] (after_actions (quit_waiting @ [SetGo, Run 0 []]))"
    by (simp add: perform_all_iff)
  have "frames (after_actions (quit_waiting @ [SetGo, Run 0 []])) = [Joining, Spinning 2]"
    by (simp add: after_actions_def quit_waiting_def play_once_def viz_eval)
  with waiting_ends [OF after_actions_reachable run] quit_waiting_state show ?thesis by simp
qed

section \<open>The pause messages\<close>

text \<open>What the runs of the simulator have reported, and where a reported message can be.\<close>

fun reported_by :: "action \<Rightarrow> string list" where
  "reported_by (Run _ msgs) = msgs"
| "reported_by _ = []"

fun in_flight :: "frame list \<Rightarrow> string list" where
  "in_flight (Locked _ msgs # _) = msgs"
| "in_flight (Shown _ msgs # _) = msgs"
| "in_flight _ = []"

definition not_extended :: "viz \<Rightarrow> string list" where
  "not_extended s = (if sim_at s = SimReport then new_messages s else [])"

definition known_messages :: "viz \<Rightarrow> string list" where
  "known_messages s = dialogs s @ in_flight (frames s) @ pause_messages s @ not_extended s"

lemma in_flight_spinning [simp]: "\<forall>f\<in>set fs. is_spinning f \<Longrightarrow> in_flight fs = []"
  by (cases fs rule: in_flight.cases) auto

lemma in_flight_loop: "at_loop s \<Longrightarrow> in_flight (frames s) = []"
  by (erule at_loopE) simp_all

text \<open>Only the view has messages with it, and it does not block on the lock.\<close>

fun job_blocked :: "frame list \<Rightarrow> bool" where
  "job_blocked (Blocked (View _) # _) = False"
| "job_blocked (Locked Model msgs # _) = (msgs = [])"
| "job_blocked (Locked Handler msgs # _) = (msgs = [])"
| "job_blocked _ = True"

lemma job_blocked_spinning: "\<forall>f\<in>set fs. is_spinning f \<Longrightarrow> job_blocked fs"
  by (cases fs rule: job_blocked.cases) auto

lemma job_blocked_main: "main_step s a t \<Longrightarrow> lock_inv s \<Longrightarrow> job_blocked (frames s) \<Longrightarrow> job_blocked (frames t)"
proof (induction rule: main_step.induct)
  case (acquire s j fs)
  then show ?case by (cases j) auto
qed (auto simp: lock_inv_def job_blocked_spinning)

lemma known_main:
  "main_step s a t \<Longrightarrow> lock_inv s \<Longrightarrow> job_blocked (frames s) \<Longrightarrow> a \<noteq> FailView \<Longrightarrow>
   known_messages t = known_messages s \<and> lost_messages t = lost_messages s"
proof (induction rule: main_step.induct)
  case (release s j msgs fs)
  then show ?case by (auto simp: known_messages_def not_extended_def lock_inv_def)
qed (auto simp: known_messages_def not_extended_def lock_inv_def in_flight_loop)

lemma reported_main: "main_step s a t \<Longrightarrow> reported_by a = []"
  by (induction rule: main_step.induct) simp_all

lemma known_fail:
  assumes "main_step s FailView t" "lock_inv s"
  shows "\<exists>msgs rest. known_messages s = dialogs s @ msgs @ rest \<and> known_messages t = dialogs s @ rest
    \<and> lost_messages t = lost_messages s @ msgs"
  using assms by (auto simp: main_simps known_messages_def not_extended_def lock_inv_def)

lemma known_sim:
  "sim_step s a t \<Longrightarrow> known_messages t = known_messages s @ reported_by a \<and> lost_messages t = lost_messages s \<and> a \<noteq> FailView"
  by (induction rule: sim_step.induct) (auto simp: known_messages_def not_extended_def)

definition messages_ok :: "string list \<Rightarrow> viz \<Rightarrow> bool" where
  "messages_ok reported s \<longleftrightarrow>
     subseq (known_messages s) reported \<and> mset reported = mset (known_messages s) + mset (lost_messages s)"

lemma messages_ok_step:
  assumes "messages_ok reported s" "viz_step s a t" "lock_inv s" "job_blocked (frames s)"
  shows "messages_ok (reported @ reported_by a) t"
proof (cases "a = FailView")
  case True
  then have "main_step s FailView t" using assms(2) by (auto simp: viz_step_def dest: known_sim)
  with known_fail [OF this assms(3)] obtain msgs rest where
    m: "known_messages s = dialogs s @ msgs @ rest" "known_messages t = dialogs s @ rest" "lost_messages t = lost_messages s @ msgs"
    by blast
  have "subseq (dialogs s @ rest) (dialogs s @ msgs @ rest)" 
    by (rule list_emb_append_mono [OF subseq_order.refl list_emb_append2 [OF subseq_order.refl]])
  with assms(1) m show ?thesis by (auto simp: messages_ok_def True intro: subseq_order.trans)
next
  case False
  then have "known_messages t = known_messages s @ reported_by a \<and> lost_messages t = lost_messages s"
    using assms(2-4) known_main [of s a t] known_sim [of s a t] reported_main [of s a t] by (auto simp: viz_step_def)
  with assms(1) show ?thesis by (simp add: messages_ok_def list_emb_append_mono)
qed

text \<open>
  Claim C12.  The pause messages that the runs of the simulator have reported and that no view has lost are,
  one after the other and in the order of the reports, in the dialogs, taken by a view, in the thread's list, and
  about to be added to it; none is there twice.  Lost are exactly those that a view had taken when its
  \<open>update_view\<close> raised; when none raises, none is lost.
\<close>

theorem pause_messages_kept:
  assumes "viz_steps initial_viz as s"
  shows "let reported = concat (map reported_by as);
             kept = dialogs s @ in_flight (frames s) @ pause_messages s @ not_extended s
    in subseq kept reported \<and> mset reported = mset kept + mset (lost_messages s)
       \<and> (FailView \<notin> set as \<longrightarrow> kept = reported \<and> lost_messages s = [])"
proof -
  from assms have "lock_inv s \<and> job_blocked (frames s) \<and> messages_ok (concat (map reported_by as)) s
    \<and> (FailView \<notin> set as \<longrightarrow> known_messages s = concat (map reported_by as) \<and> lost_messages s = [])"
  proof (induction rule: viz_steps_rev_induct)
    case none
    then show ?case using lock_inv_initial by (simp add: messages_ok_def known_messages_def not_extended_def initial_viz_def)
  next
    case (snoc as t a u)
    then have "lock_inv u" by (auto intro: lock_inv_step)
    moreover have "job_blocked (frames u)" using snoc(2,3) by (auto simp: viz_step_def dest: job_blocked_main sim_step_left)
    moreover have "messages_ok (concat (map reported_by (as @ [a]))) u" 
      using messages_ok_step [of _ t a u] snoc(2,3) by simp
    moreover have "known_messages u = concat (map reported_by (as @ [a])) \<and> lost_messages u = []" if "FailView \<notin> set (as @ [a])"
      using that snoc(2,3) known_main [of t a u] known_sim [of t a u] reported_main [of t a u] by (auto simp: viz_step_def)
    ultimately show ?case by blast
  qed
  then show ?thesis unfolding messages_ok_def known_messages_def Let_def by simp
qed

text \<open>The message of the first run is lost to a view that raises, the one of the second is shown.\<close>

definition lose_once :: "action list" where
  "lose_once = play_once @ [Report, SimUnlock, Timer 2, TakeView, FailView, Play, Play, Timer 3, TakeView, LeaveView, EndView,
     Test, Wait, Clear, TestAgain, SimLock, Run (1 / 5) [''again''], Report, SimUnlock, Timer 3, TakeView, LeaveView, EndView]"

lemma lose_once_run:
  "perform_all initial_viz lose_once = Some (after_actions lose_once) \<and> dialogs (after_actions lose_once) = [''again'']
   \<and> lost_messages (after_actions lose_once) = [''pause''] \<and> frames (after_actions lose_once) = []"
  by (simp add: lose_once_def play_once_def after_actions_def viz_eval)

theorem pause_messages_kept_witness:
  "concat (map reported_by lose_once) = [''pause'', ''again''] \<and> dialogs (after_actions lose_once) = [''again'']
   \<and> mset [''pause'', ''again''] = mset [''again''] + mset [''pause''] + mset (pause_messages (after_actions lose_once))"
proof -
  have "viz_steps initial_viz lose_once (after_actions lose_once)" using lose_once_run by (simp add: perform_all_iff)
  moreover have "concat (map reported_by lose_once) = [''pause'', ''again'']" by (simp add: lose_once_def play_once_def)
  ultimately show ?thesis
    using pause_messages_kept [of lose_once "after_actions lose_once"] lose_once_run by (simp add: Let_def)
qed

section \<open>The clock\<close>

text \<open>
  The simulation never runs ahead of the time the view has asked for, and the view
  never asks for more than a second ahead of the simulation.
\<close>

theorem clock_within_target:
  assumes "viz_reachable s"
  shows "sim_now s \<le> target_time s \<and> target_time s \<le> sim_now s + 1 \<and> 0 < sample_period s \<and> sample_period s \<le> 1"
  using assms
proof (rule viz_invariant)
  fix s a t
  assume "sim_now s \<le> target_time s \<and> target_time s \<le> sim_now s + 1 \<and> 0 < sample_period s \<and> sample_period s \<le> 1"
    and "viz_step s a t"
  then show "sim_now t \<le> target_time t \<and> target_time t \<le> sim_now t + 1 \<and> 0 < sample_period t \<and> sample_period t \<le> 1"
    by (cases a) (auto simp: step_simps SAMPLE_PERIOD_def)
qed (simp add: initial_viz_def SAMPLE_PERIOD_def)

theorem clock_within_target_witness:
  "sim_now (after_actions play_once) \<le> target_time (after_actions play_once)"
  using clock_within_target [OF after_actions_reachable, of play_once] by simp


section \<open>The timers\<close>

definition live :: "viz \<Rightarrow> nat set" where
  "live s = fst ` set (timers s)"

fun view_id :: "frame \<Rightarrow> nat option" where
  "view_id (Spinning i) = Some i"
| "view_id (Blocked (View i)) = Some i"
| "view_id (Locked (View i) _) = Some i"
| "view_id (Shown i _) = Some i"
| "view_id _ = None"

definition views :: "frame list \<Rightarrow> nat list" where
  "views fs = List.map_filter view_id fs"

lemma views_simps [simp]:
  "views [] = []"
  "views (f # fs) = (case view_id f of None \<Rightarrow> views fs | Some i \<Rightarrow> i # views fs)"
  by (simp_all add: views_def List.map_filter_simps split: option.splits)

lemma views_spinning: "\<forall>f\<in>set fs. is_spinning f \<Longrightarrow> i \<in> set (views fs) \<longleftrightarrow> Spinning i \<in> set fs"
  by (induction fs) (auto elim: is_spinning.elims)

lemma live_update [simp]:
  "live (s\<lparr>play_active := b\<rparr>) = live s" "live (s\<lparr>frames := fs\<rparr>) = live s" "live (s\<lparr>timeout_id := x\<rparr>) = live s"
  "live (s\<lparr>quit_flag := b\<rparr>) = live s" "live (s\<lparr>go := b\<rparr>) = live s" "live (s\<lparr>dialogs := ds\<rparr>) = live s"
  "live (s\<lparr>speed := v, sample_period := p\<rparr>) = live s"
  by (simp_all add: live_def)

lemma live_source_remove [simp]: "live (source_remove i s) = live s - {i}"
  by (auto simp: live_def source_remove_def image_iff)

lemma live_remove_timeout [simp]: "live (remove_timeout s) = live s - set_option (timeout_id s)"
  by (auto simp: remove_timeout_def split: option.splits)

lemma live_start [simp]: "live (start_update_timer s) = insert (next_timer s) (live s - set_option (timeout_id s))"
  using live_remove_timeout [of s]
  by (auto simp: start_update_timer_def timeout_add_def live_def remove_timeout_def source_remove_def split: option.splits)

lemma live_drop [simp]: "live (drop_source i s) = live s - {i}"
  by (auto simp: live_def drop_source_def)

lemma timeout_id_start [simp]: "timeout_id (start_update_timer s) = Some (next_timer s)"
  by (simp add: start_update_timer_def timeout_add_def remove_timeout_def source_remove_def split: option.splits)

lemma next_timer_start [simp]: "next_timer (start_update_timer s) = Suc (next_timer s)"
  by (simp add: start_update_timer_def timeout_add_def remove_timeout_def source_remove_def split: option.splits)

lemma timeout_id_remove [simp]:
  "timeout_id (remove_timeout s) = timeout_id s" "next_timer (remove_timeout s) = next_timer s"
  by (simp_all add: remove_timeout_def source_remove_def split: option.splits)

text \<open>
  The recorded timer is the only live one, and once the button is released no other timer than
  that of the outermost view is left.
\<close>

definition stopped :: "nat set \<Rightarrow> nat list \<Rightarrow> bool" where
  "stopped L vs = (case vs of [] \<Rightarrow> True | i # is \<Rightarrow> L \<subseteq> (if is = [] then {i} else {}))"

definition timer_inv :: "viz \<Rightarrow> bool" where
  "timer_inv s \<longleftrightarrow> live s \<subseteq> set_option (timeout_id s) \<and> (\<not> play_active s \<longrightarrow> stopped (live s) (views (frames s)))"

text \<open>A run in which the speed is not changed while a view waits for the lock.\<close>

inductive calm :: "viz \<Rightarrow> bool" where
  start: "calm initial_viz"
| step: "calm s \<Longrightarrow> viz_step s a t \<Longrightarrow> (\<forall>v. a = Speed v \<longrightarrow> frames s = []) \<Longrightarrow> calm t"

lemma stopped_empty [simp]: "stopped {} vs"
  by (auto simp: stopped_def split: list.splits)

lemma timer_inv_set_active:
  "timer_inv s \<Longrightarrow> timer_inv (set_active b s)"
  by (auto simp: timer_inv_def set_active_def on_play_button_toggled_def Diff_eq_empty_iff [THEN iffD2])

lemma timer_inv_main:
  "main_step s a t \<Longrightarrow> lock_inv s \<Longrightarrow> timer_inv s \<Longrightarrow> (\<forall>v. a = Speed v \<longrightarrow> frames s = []) \<Longrightarrow> timer_inv t"
proof (induction rule: main_step.induct)
  case (timer s i)
  then have loop: "\<forall>f\<in>set (frames s). is_spinning f" by (auto simp: lock_inv_def elim!: at_loopE)
  have i: "i \<in> live s" "i \<notin> set (views (frames s))"
    using timer by (simp_all add: live_def views_spinning [OF loop] dispatching_def)
  then have "stopped (live s) (i # views (frames s))" if "\<not> play_active s"
    using timer that by (cases "timeout_id s") (auto simp: timer_inv_def stopped_def split: list.splits if_splits)
  with timer show ?case by (simp add: timer_inv_def)
next
  case (end_view s i msgs fs)
  show ?case
  proof (cases "msgs = []")
    case True
    have "live s - {i} = {}" if "\<not> play_active s"
      using end_view that by (auto simp: timer_inv_def stopped_def split: if_splits)
    with True end_view show ?thesis by (auto simp: timer_inv_def end_view_def Let_def Diff_eq_empty_iff [THEN iffD2])
  next
    case False
    have "live s - {i} = {}" if "\<not> play_active s"
      using end_view that by (auto simp: timer_inv_def stopped_def split: if_splits)
    moreover have "live s - set_option (timeout_id s) = {}" using end_view by (auto simp: timer_inv_def)
    ultimately show ?thesis
      using False by (auto simp: timer_inv_def end_view_def Let_def set_active_def on_play_button_toggled_def Diff_eq_empty_iff [THEN iffD2])
  qed
next
  case (fail_view s i msgs fs)
  let ?s = "s\<lparr>lock_of := None, lost_messages := lost_messages s @ msgs, frames := fs\<rparr>"
  have "live ?s = live s" by (simp add: live_def)
  then have l: "live (drop_source i ?s) = live s - {i}" using live_drop [of i ?s] by simp
  have "live s - {i} = {}" if "\<not> play_active s"
    using fail_view that by (auto simp: timer_inv_def stopped_def split: if_splits)
  then have "stopped (live s - {i}) vs" if "\<not> play_active s" for vs
    using that by (metis stopped_empty)
  then show ?case using fail_view unfolding timer_inv_def l by (auto simp del: Diff_eq_empty_iff)
next
  case (acquire s j fs)
  then show ?case by (cases j) (auto simp: timer_inv_def live_def)
next
  case (play s)
  then show ?case by (simp add: timer_inv_set_active)
next
  case (speed s v)
  then show ?case by (auto simp: timer_inv_def speed_changed_def stopped_def)
next
  case (quit s)
  then show ?case
    by (auto simp: timer_inv_def begin_quit_def Diff_eq_empty_iff [THEN iffD2] split: option.splits)
qed (auto simp: timer_inv_def lock_inv_def live_def split: frame.splits lock_job.splits)

lemma timer_inv_sim: "sim_step s a t \<Longrightarrow> timer_inv s \<Longrightarrow> timer_inv t"
  by (induction rule: sim_step.induct) (auto simp: timer_inv_def live_def)

definition fresh_inv :: "viz \<Rightarrow> bool" where
  "fresh_inv s \<longleftrightarrow> distinct (map fst (timers s)) \<and> (\<forall>t\<in>set (timers s). fst t < next_timer s)"

lemma fresh_update [simp]:
  "fresh_inv (s\<lparr>play_active := b\<rparr>) = fresh_inv s" "fresh_inv (s\<lparr>frames := fs\<rparr>) = fresh_inv s"
  "fresh_inv (s\<lparr>timeout_id := x\<rparr>) = fresh_inv s" "fresh_inv (s\<lparr>quit_flag := b\<rparr>) = fresh_inv s"
  "fresh_inv (s\<lparr>go := b\<rparr>) = fresh_inv s" "fresh_inv (s\<lparr>dialogs := ds\<rparr>) = fresh_inv s"
  "fresh_inv (s\<lparr>speed := v, sample_period := q\<rparr>) = fresh_inv s"
  by (simp_all add: fresh_inv_def)

lemma fresh_removal [simp]: "fresh_inv s \<Longrightarrow> fresh_inv (source_remove i s)" "fresh_inv s \<Longrightarrow> fresh_inv (drop_source i s)"
  by (auto simp: fresh_inv_def source_remove_def drop_source_def distinct_map_filter)

lemma fresh_remove_timeout [simp]: "fresh_inv s \<Longrightarrow> fresh_inv (remove_timeout s)"
  by (simp add: remove_timeout_def split: option.splits)

lemma fresh_start [simp]: "fresh_inv s \<Longrightarrow> fresh_inv (start_update_timer s)"
  using fresh_remove_timeout [of s]
  by (auto simp: start_update_timer_def timeout_add_def fresh_inv_def less_Suc_eq simp del: fresh_remove_timeout)

lemma fresh_set_active [simp]: "fresh_inv s \<Longrightarrow> fresh_inv (set_active b s)"
  by (simp add: set_active_def on_play_button_toggled_def)

lemma fresh_inv_main: "main_step s a t \<Longrightarrow> fresh_inv s \<Longrightarrow> fresh_inv t"
proof (induction rule: main_step.induct)
  case (end_view s i msgs fs)
  then show ?case by (simp add: end_view_def Let_def)
next
  case (fail_view s i msgs fs)
  then have "fresh_inv (s\<lparr>lock_of := None, lost_messages := lost_messages s @ msgs, frames := fs\<rparr>)"
    by (simp add: fresh_inv_def)
  then show ?case by simp
next
  case (speed s v)
  then show ?case by (simp add: speed_changed_def)
next
  case (quit s)
  then show ?case by (simp add: begin_quit_def Let_def split: option.splits)
qed (auto, auto simp: fresh_inv_def)

lemma fresh_inv_sim: "sim_step s a t \<Longrightarrow> fresh_inv s \<Longrightarrow> fresh_inv t"
  by (induction rule: sim_step.induct) (auto simp: fresh_inv_def)

lemma initial_timer_inv: "timer_inv initial_viz \<and> fresh_inv initial_viz"
  by (auto simp: timer_inv_def fresh_inv_def viz_eval live_def stopped_def)

lemma calm_inv: "calm s \<Longrightarrow> lock_inv s \<and> timer_inv s \<and> fresh_inv s"
proof (induction rule: calm.induct)
  case start
  then show ?case using lock_inv_initial initial_timer_inv by simp
next
  case (step s a t)
  then have "lock_inv t" by (auto intro: lock_inv_step)
  with step show ?case
    by (auto simp: viz_step_def intro: timer_inv_main timer_inv_sim fresh_inv_main fresh_inv_sim)
qed

lemma at_most_one: "set xs \<subseteq> set_option x \<Longrightarrow> distinct xs \<Longrightarrow> length xs \<le> 1"
  by (cases x; cases xs; cases "tl xs") auto

text \<open>
  As long as the speed is not changed while the view waits for the simulation, there is
  never more than one timer, and it is the one that \<open>_update_timeout_id\<close> names.
\<close>

theorem one_timer:
  assumes "calm s"
  shows "length (timers s) \<le> 1 \<and> fst ` set (timers s) \<subseteq> set_option (timeout_id s)"
  using calm_inv [OF assms] at_most_one [of "map fst (timers s)" "timeout_id s"]
  by (auto simp: timer_inv_def fresh_inv_def live_def)

lemma calm_play: "calm (after_actions [Play])"
  by (rule calm.step [OF calm.start, of Play]) (simp_all add: step_simps after_actions_def viz_eval)

theorem one_timer_witness:
  "length (timers (after_actions [Play])) \<le> 1 \<and> timers (after_actions [Play]) \<noteq> []"
  using one_timer [OF calm_play] by (auto simp: after_actions_def viz_eval)

text \<open>
  With a change of the speed at that moment, after the button has been released, two timers are
  left when it is pressed again, and both start the simulation from then on.
\<close>

definition double_timer :: "action list" where
  "double_timer = [Play, Timer 2, Play, Speed 2, TakeView, LeaveView, EndView, Play]"

lemma two_timers:
  "viz_reachable (after_actions double_timer) \<and> timers (after_actions double_timer) = [(3, 100), (4, 100)]
     \<and> timeout_id (after_actions double_timer) = Some 4 \<and> play_active (after_actions double_timer)"
  by (simp add: after_actions_reachable, simp add: after_actions_def double_timer_def viz_eval)

text \<open>
  Releasing the button removes the timer and keeps its number, so pressing it again asks GLib to
  remove a source that is gone.
\<close>

lemma stale_timer: "bad_removals (after_actions [Play, Play, Play]) = 1"
  by (simp add: after_actions_def viz_eval)

text \<open>A view that raises takes its timer with it: the button stays pressed, and nothing updates the view any more.\<close>

lemma failed_view_stops:
  "play_active (after_actions [Timer 1, TakeView, LeaveView, EndView, Play, Timer 2, TakeView, FailView])
     \<and> timers (after_actions [Timer 1, TakeView, LeaveView, EndView, Play, Timer 2, TakeView, FailView]) = []"
  by (simp add: after_actions_def viz_eval)

text \<open>
  The samples of a run are read by \<open>update_model\<close>, which the thread only queues.  The view may take
  the lock first and start the next run, which drops them; the next run is then counted twice.
\<close>

definition one_run :: "action list" where
  "one_run = [Wait, Clear, TestAgain, SimLock, Run 0 [], Report, SimUnlock]"

definition samples_lost :: "action list" where
  "samples_lost = [Play, Timer 2, TakeView, LeaveView, EndView, Test] @ [Wait, Clear, TestAgain, SimLock, Run 0 [],
     Timer 2, Report, SimUnlock, TakeView, LeaveView, EndView, Test] @ one_run @
     [Idle, Acquire, Release, Idle, Acquire, Release]"

lemma run_sampled_twice:
  "viz_reachable (after_actions samples_lost) \<and> collected (after_actions samples_lost) = [2, 2]"
  by (simp add: after_actions_reachable, simp add: after_actions_def samples_lost_def one_run_def viz_eval)

text \<open>\<open>autoscale_view\<close> reads the positions of the nodes while the simulation runs.\<close>

lemma autoscale_races:
  "sim_at (after_actions (butlast play_once @ [Autoscale])) = SimRun
     \<and> frames (after_actions (butlast play_once @ [Autoscale])) = [Unlocked]"
  by (simp add: after_actions_def play_once_def viz_eval)

section \<open>The speed\<close>

text \<open>
  Simulated seconds per real second while the button is pressed: each period of the timer lets the
  simulation run for one sample period.
\<close>

definition real_speed :: "viz \<Rightarrow> rat" where
  "real_speed s = sample_period s / (of_int (timer_interval (speed s)) / 1000)"

text \<open>From a speed of one upwards the simulation runs as fast as asked.\<close>

lemma real_speed_fast: "1 \<le> v \<Longrightarrow> real_speed (speed_changed v s) = v"
  by (simp add: real_speed_def timer_interval_def SAMPLE_PERIOD_def min_def)

text \<open>Below one, both the period and the timer are slowed down: at one half it runs at a quarter.\<close>

lemma real_speed_slow: "real_speed (speed_changed (1 / 2) s) = 1 / 4"
  by (simp add: real_speed_def timer_interval_def SAMPLE_PERIOD_def min_def)

text \<open>
  From a speed of one upwards the simulation runs as fast as asked; below one, where
  both the sample period and the rate of the timer shrink, it runs at the square of the speed that
  was asked for, and faster than that only by the fraction of a millisecond that the timer drops.
\<close>

theorem speed_is_squared:
  assumes "0 < v"
  shows "(1 \<le> v \<longrightarrow> real_speed (speed_changed v s) = v)
     \<and> (v \<le> 1 \<longrightarrow> v * v \<le> real_speed (speed_changed v s) \<and> real_speed (speed_changed v s) * (100 - v) \<le> 100 * (v * v))"
proof (intro conjI impI)
  show "real_speed (speed_changed v s) = v" if "1 \<le> v" using that by (rule real_speed_fast)
  assume le: "v \<le> 1"
  define k where "k = \<lfloor>100 / v\<rfloor>"
  have k: "of_int k \<le> 100 / v" "100 / v < of_int k + 1" using floor_correct [of "100 / v"] by (simp_all add: k_def)
  have "100 \<le> 100 / v" using assms le by (simp add: field_simps)
  then have pos: "(0 :: rat) < of_int k" using k(2) by linarith
  have r: "real_speed (speed_changed v s) = 100 * v / of_int k"
    by (simp add: real_speed_def timer_interval_def SAMPLE_PERIOD_def k_def min_absorb1 [OF le])
  have "v * of_int k \<le> 100" using k(1) assms by (simp add: field_simps)
  then have "v * (v * of_int k) \<le> v * 100" using assms by (intro mult_left_mono) simp_all
  then show "v * v \<le> real_speed (speed_changed v s)"
    unfolding r pos_le_divide_eq [OF pos] by (simp add: ac_simps)
  have "100 - v \<le> v * of_int k" using k(2) assms by (simp add: field_simps)
  then have "100 * v * (100 - v) \<le> 100 * v * (v * of_int k)" using assms by (intro mult_left_mono) simp_all
  then show "real_speed (speed_changed v s) * (100 - v) \<le> 100 * (v * v)" 
    unfolding r times_divide_eq_left pos_divide_le_eq [OF pos] by (simp add: ac_simps)
qed

theorem speed_is_squared_witness:
  "real_speed (speed_changed (1 / 4) initial_viz) * (100 - 1 / 4) \<le> 100 * (1 / 4 * (1 / 4))"
  using speed_is_squared [of "1 / 4" initial_viz] by simp

end
