(* ===== verification/PyPath.thy ===== *)
theory PyPath
  imports PyPrelude
begin

text \<open>
  The functions of \<open>os.path\<close> on POSIX paths that the scripts call: \<open>join\<close>, \<open>split\<close>, \<open>basename\<close>, \<open>dirname\<close>,
  \<open>normpath\<close>, \<open>abspath\<close> and \<open>relpath\<close>.  The two that depend on the current directory take it
  as an argument.
\<close>

definition path_join :: "string \<Rightarrow> string \<Rightarrow> string" where
  "path_join a b =
     (if startswith b ''/'' then b
      else if a = [] \<or> last a = CHR ''/'' then a @ b
      else a @ ''/'' @ b)"

definition basename :: "string \<Rightarrow> string" where
  "basename p = last (split_on (CHR ''/'') p)"

definition initial_slashes :: "string \<Rightarrow> string" where
  "initial_slashes p =
     (if startswith p ''/'' then if startswith p ''//'' \<and> \<not> startswith p ''///'' then ''//'' else ''/'' else [])"

definition norm_step :: "bool \<Rightarrow> string list \<Rightarrow> string \<Rightarrow> string list" where
  "norm_step absolute comps part =
     (if part = [] \<or> part = ''.'' then comps
      else if part \<noteq> ''..'' \<or> (\<not> absolute \<and> comps = []) \<or> (comps \<noteq> [] \<and> last comps = ''..'') then comps @ [part]
      else if comps \<noteq> [] then butlast comps
      else comps)"

definition normpath :: "string \<Rightarrow> string" where
  "normpath p =
     (if p = [] then ''.''
      else
        let slashes = initial_slashes p;
            path = slashes @ join ''/'' (foldl (norm_step (slashes \<noteq> [])) [] (split_on (CHR ''/'') p))
        in if path = [] then ''.'' else path)"

definition abspath :: "string \<Rightarrow> string \<Rightarrow> string" where
  "abspath cwd p = normpath (path_join cwd p)"

fun common_prefix :: "'a list \<Rightarrow> 'a list \<Rightarrow> 'a list" where
  "common_prefix (x # xs) (y # ys) = (if x = y then x # common_prefix xs ys else [])"
| "common_prefix _ _ = []"

definition path_parts :: "string \<Rightarrow> string list" where
  "path_parts p = filter (\<lambda>x. x \<noteq> []) (split_on (CHR ''/'') p)"

definition relpath :: "string \<Rightarrow> string \<Rightarrow> string \<Rightarrow> string" where
  "relpath cwd path start =
     (let start_list = path_parts (abspath cwd start);
          path_list = path_parts (abspath cwd path);
          i = length (common_prefix start_list path_list);
          rel_list = replicate (length start_list - i) ''..'' @ drop i path_list
      in if rel_list = [] then ''.'' else join ''/'' rel_list)"

text \<open>\<open>os.path.split\<close>: the head loses its slashes at the end unless it has nothing else.\<close>

definition path_split :: "string \<Rightarrow> string \<times> string" where
  "path_split p =
     (let tail = rev (takeWhile (\<lambda>c. c \<noteq> CHR ''/'') (rev p));
          head = rev (dropWhile (\<lambda>c. c \<noteq> CHR ''/'') (rev p));
          stripped = rev (dropWhile (\<lambda>c. c = CHR ''/'') (rev head))
      in (if stripped = [] then head else stripped, tail))"

definition dirname :: "string \<Rightarrow> string" where
  "dirname p = fst (path_split p)"

lemma basename_join:
  assumes "CHR ''/'' \<notin> set b"
  shows "basename (path_join a b) = b"
proof -
  have split: "last (split_on (CHR ''/'') (p @ CHR ''/'' # b)) = b" for p
    using assms by (simp add: split_on_concat split_on_none)
  have "b \<noteq> [] \<Longrightarrow> hd b \<noteq> CHR ''/''" using assms hd_in_set by metis
  then have "\<not> startswith b ''/''" by (cases b) (auto simp: startswith_def)
  moreover have "last (split_on (CHR ''/'') (a @ b)) = b" if "a = [] \<or> last a = CHR ''/''"
    using that split [of "butlast a"] assms by (cases a rule: rev_cases) (auto simp: split_on_none)
  ultimately show ?thesis using split [of a] by (auto simp: path_join_def basename_def)
qed

lemma take_to:
  "c \<notin> set xs \<Longrightarrow> takeWhile (\<lambda>x. x \<noteq> c) (xs @ c # rest) = xs \<and> dropWhile (\<lambda>x. x \<noteq> c) (xs @ c # rest) = c # rest"
  "c \<notin> set xs \<Longrightarrow> takeWhile (\<lambda>x. x \<noteq> c) xs = xs \<and> dropWhile (\<lambda>x. x \<noteq> c) xs = []"
  by (induction xs) auto

lemma path_split_last:
  assumes "CHR ''/'' \<notin> set c" "p = [] \<or> List.last p \<noteq> CHR ''/''"
  shows "path_split (p @ CHR ''/'' # c) = (if p = [] then ''/'' else p, c)"
proof -
  have r: "rev (p @ CHR ''/'' # c) = rev c @ CHR ''/'' # rev p" by simp
  have "CHR ''/'' \<notin> set (rev c)" using assms(1) by simp
  note t = take_to(1) [OF this, of "rev p"]
  have d: "dropWhile (\<lambda>x. x = CHR ''/'') (CHR ''/'' # rev p) = rev p"
    using assms(2) by (cases p rule: rev_cases) simp_all
  show ?thesis
    unfolding path_split_def r t [THEN conjunct1] t [THEN conjunct2] Let_def rev_rev_ident d rev_is_Nil_conv by simp
qed

lemma path_split_single:
  assumes "CHR ''/'' \<notin> set c"
  shows "path_split c = ([], c)"
proof -
  have "CHR ''/'' \<notin> set (rev c)" using assms by simp
  note t = take_to(2) [OF this]
  show ?thesis unfolding path_split_def t [THEN conjunct1] t [THEN conjunct2] Let_def by simp
qed

lemma path_split_prefix: "\<exists>r. p = fst (path_split p) @ r"
proof -
  define head where "head = rev (dropWhile (\<lambda>c. c \<noteq> CHR ''/'') (rev p))"
  define stripped where "stripped = rev (dropWhile (\<lambda>c. c = CHR ''/'') (rev head))"
  have cut: "\<exists>r. xs = rev (dropWhile P (rev xs)) @ r" for P and xs :: string
    by (rule exI [of _ "rev (takeWhile P (rev xs))"]) (metis rev_append rev_rev_ident takeWhile_dropWhile_id)
  obtain r1 where r1: "p = head @ r1" unfolding head_def using cut by blast
  obtain r2 where r2: "head = stripped @ r2" unfolding stripped_def using cut by blast
  have "fst (path_split p) = (if stripped = [] then head else stripped)"
    unfolding path_split_def Let_def fst_conv head_def [symmetric] stripped_def [symmetric] by (rule refl)
  then have "fst (path_split p) = head \<or> fst (path_split p) = stripped" by metis
  moreover have "p = stripped @ r2 @ r1" unfolding r1 r2 by (rule append_assoc)
  ultimately show ?thesis using r1 by metis
qed

lemma path_split_shorter:
  "length (fst (path_split p)) \<le> length p \<and> (length (fst (path_split p)) = length p \<longrightarrow> fst (path_split p) = p)"
proof -
  obtain r where r: "p = fst (path_split p) @ r" using path_split_prefix by blast
  then have n: "length p = length (fst (path_split p)) + length r" by (metis length_append)
  show ?thesis
  proof (intro conjI impI)
    assume "length (fst (path_split p)) = length p"
    then have "r = []" using n by simp
    then show "fst (path_split p) = p" using r by (metis append_Nil2)
  qed (simp add: n)
qed

lemma path_split_fixed:
  assumes "path_split p = (p, tail)"
  shows "tail = []"
proof -
  define t where "t = takeWhile (\<lambda>c. c \<noteq> CHR ''/'') (rev p)"
  define d where "d = dropWhile (\<lambda>c. c \<noteq> CHR ''/'') (rev p)"
  have "length p = length t + length d"
    unfolding t_def d_def by (metis length_append length_rev takeWhile_dropWhile_id)
  moreover have "length (fst (path_split p)) \<le> length d"
    using length_dropWhile_le [of "\<lambda>c. c = CHR ''/''" d]
    unfolding path_split_def Let_def fst_conv d_def [symmetric] by (simp split: if_split)
  moreover have "tail = rev t"
    using arg_cong [OF assms, of snd] unfolding path_split_def Let_def snd_conv t_def by (rule sym)
  ultimately have "length t = 0" unfolding assms fst_conv by linarith
  then show ?thesis using \<open>tail = rev t\<close> by simp
qed

end
