(* ===== verification/PyDict.thy ===== *)
theory PyDict
  imports PyPrelude "HOL-Library.AList"
begin

text \<open>
  Python dictionaries.  A \<open>dict\<close> is an association list without repeated keys: storing under a
  present key keeps its place, storing under a new key appends, as CPython does.  The contract
  the scripts rely on is the locale \<open>py_mapping\<close>; its interpretation \<open>pd\<close> is what the
  components use.  Where a script enumerates a dictionary whose order it does not control (the
  scripts that call \<open>has_key\<close> run on Python 2), the enumeration order is an argument \<open>ord\<close>
  of the model, with the named hypothesis \<open>dict_order ord\<close>: it permutes the keys.
\<close>

section \<open>The contract\<close>

locale py_mapping =
  fixes lookup :: "'d \<Rightarrow> 'k \<Rightarrow> 'v option"
    and store :: "'d \<Rightarrow> 'k \<Rightarrow> 'v \<Rightarrow> 'd"
    and remove :: "'d \<Rightarrow> 'k \<Rightarrow> 'd"
    and keys :: "'d \<Rightarrow> 'k list"
    and inv :: "'d \<Rightarrow> bool"
  assumes lookup_store [simp]: "lookup (store d k v) = (lookup d)(k \<mapsto> v)"
    and lookup_remove [simp]: "inv d \<Longrightarrow> lookup (remove d k) = (lookup d)(k := None)"
    and set_keys: "set (keys d) = dom (lookup d)"
    and distinct_keys: "inv d \<Longrightarrow> distinct (keys d)"
    and inv_store [simp]: "inv d \<Longrightarrow> inv (store d k v)"
    and inv_remove [simp]: "inv d \<Longrightarrow> inv (remove d k)"
begin

lemma in_keys [simp]: "k \<in> set (keys d) \<longleftrightarrow> lookup d k \<noteq> None"
  by (auto simp: set_keys)

lemma finite_dom: "finite (dom (lookup d))"
  using finite_set [of "keys d"] by (simp add: set_keys)

lemma length_keys: "inv d \<Longrightarrow> length (keys d) = card (dom (lookup d))"
  using distinct_card [OF distinct_keys] by (simp add: set_keys)

lemma length_keys_store_old:
  "inv d \<Longrightarrow> lookup d k \<noteq> None \<Longrightarrow> length (keys (store d k v)) = length (keys d)"
  by (simp add: length_keys domIff insert_absorb)

lemma length_keys_remove:
  "inv d \<Longrightarrow> lookup d k \<noteq> None \<Longrightarrow> Suc (length (keys (remove d k))) = length (keys d)"
  using card_Suc_Diff1 [OF finite_dom, of k d] by (simp add: length_keys domIff)

lemma keys_empty_iff: "keys d = [] \<longleftrightarrow> lookup d = Map.empty"
  using set_keys [of d] by (metis dom_eq_empty_conv set_empty)

end

section \<open>Association lists as the provider\<close>

type_synonym ('k, 'v) dict = "('k \<times> 'v) list"

definition dget :: "('k, 'v) dict \<Rightarrow> 'k \<Rightarrow> 'v option" where
  "dget d k = map_of d k"

definition dset :: "('k, 'v) dict \<Rightarrow> 'k \<Rightarrow> 'v \<Rightarrow> ('k, 'v) dict" where
  "dset d k v = AList.update k v d"

definition ddel :: "('k, 'v) dict \<Rightarrow> 'k \<Rightarrow> ('k, 'v) dict" where
  "ddel d k = AList.delete k d"

definition dkeys :: "('k, 'v) dict \<Rightarrow> 'k list" where
  "dkeys d = map fst d"

definition has_key :: "('k, 'v) dict \<Rightarrow> 'k \<Rightarrow> bool" where
  "has_key d k = (dget d k \<noteq> None)"

definition dict_inv :: "('k, 'v) dict \<Rightarrow> bool" where
  "dict_inv d = distinct (dkeys d)"

interpretation pd: py_mapping dget dset ddel dkeys dict_inv
proof
  show "dget (dset d k v) = (dget d)(k \<mapsto> v)" for d :: "('k, 'v) dict" and k v
    by (simp add: fun_eq_iff dget_def dset_def update_conv)
  show "dict_inv d \<Longrightarrow> dget (ddel d k) = (dget d)(k := None)" for d :: "('k, 'v) dict" and k
    by (simp add: fun_eq_iff dget_def ddel_def delete_conv)
  show "set (dkeys d) = dom (dget d)" for d :: "('k, 'v) dict"
    by (simp add: dkeys_def dget_def [abs_def] dom_map_of_conv_image_fst)
  show "dict_inv d \<Longrightarrow> distinct (dkeys d)" for d :: "('k, 'v) dict"
    by (simp add: dict_inv_def)
  show "dict_inv d \<Longrightarrow> dict_inv (dset d k v)" for d :: "('k, 'v) dict" and k v
    by (simp add: dict_inv_def dkeys_def dset_def distinct_update)
  show "dict_inv d \<Longrightarrow> dict_inv (ddel d k)" for d :: "('k, 'v) dict" and k
    by (simp add: dict_inv_def dkeys_def ddel_def distinct_delete)
qed

lemma dget_Nil [simp]: "dget [] k = None"
  by (simp add: dget_def)

lemma dict_inv_Nil [simp]: "dict_inv []"
  by (simp add: dict_inv_def dkeys_def)

lemma dkeys_Nil_iff [simp]: "dkeys d = [] \<longleftrightarrow> d = []"
  by (simp add: dkeys_def)

lemma has_key_iff [simp]: "has_key d k \<longleftrightarrow> (\<exists>v. dget d k = Some v)"
  by (simp add: has_key_def)

lemma dkeys_dset_old: "dget d k \<noteq> None \<Longrightarrow> dkeys (dset d k v) = dkeys d"
  using pd.set_keys [of d] by (auto simp: dset_def dkeys_def update_keys)

lemma length_ddel: "dget d k \<noteq> None \<Longrightarrow> length (dkeys (ddel d k)) < length (dkeys d)"
  by (induction d) (auto simp: dget_def ddel_def dkeys_def AList.delete_eq less_Suc_eq_le split: if_splits)

lemma set_dset: "set (dset d k v) \<subseteq> insert (k, v) (set d)"
  unfolding dset_def by (induction d) auto

lemma dset_new: "dget d k = None \<Longrightarrow> dset d k v = d @ [(k, v)]"
  by (induction d) (auto simp: dget_def dset_def split: if_splits)

lemma dset_nonempty [simp]: "dset d k v \<noteq> []"
  by (cases d) (auto simp: dset_def)

definition dict_order :: "('k list \<Rightarrow> 'k list) \<Rightarrow> bool" where
  "dict_order ord \<longleftrightarrow> (\<forall>xs. mset (ord xs) = mset xs)"

lemma dict_order_mset: "dict_order ord \<Longrightarrow> mset (ord xs) = mset xs"
  by (simp add: dict_order_def)

lemma dict_order_set [simp]: "dict_order ord \<Longrightarrow> set (ord xs) = set xs"
  by (metis dict_order_mset set_mset_mset)

lemma dict_order_distinct [simp]: "dict_order ord \<Longrightarrow> distinct (ord xs) \<longleftrightarrow> distinct xs"
  by (metis dict_order_mset mset_eq_imp_distinct_iff)

lemma dict_order_id [simp]: "dict_order (\<lambda>xs. xs)"
  by (simp add: dict_order_def)

lemma dict_order_rev [simp]: "dict_order rev"
  by (simp add: dict_order_def)

end
