(* ===== verification/VizBase.thy ===== *)
theory VizBase
  imports PyPath PyDict Complex_Main
begin

text \<open>
  The base of the visualizer, \<open>visualizer/base.py\<close>: the scale between the simulation and the
  canvas, what is known of the kinds of network devices, and the loading of plugins; and the items
  of \<open>visualizer/svgitem.py\<close>, which show an SVG image on the canvas.  Lengths are rationals; the
  rounding of floating point numbers is not modelled.
\<close>

section \<open>Simulation and canvas\<close>

type_synonym point = "rat \<times> rat"

definition PIXELS_PER_METER :: rat where
  "PIXELS_PER_METER = 3"

definition transform_distance_simulation_to_canvas :: "rat \<Rightarrow> rat" where
  "transform_distance_simulation_to_canvas d = d * PIXELS_PER_METER"

definition transform_point_simulation_to_canvas :: "point \<Rightarrow> point" where
  "transform_point_simulation_to_canvas p = (fst p * PIXELS_PER_METER, snd p * PIXELS_PER_METER)"

definition transform_distance_canvas_to_simulation :: "rat \<Rightarrow> rat" where
  "transform_distance_canvas_to_simulation d = d / PIXELS_PER_METER"

definition transform_point_canvas_to_simulation :: "point \<Rightarrow> point" where
  "transform_point_canvas_to_simulation p = (fst p / PIXELS_PER_METER, snd p / PIXELS_PER_METER)"

lemma canvas_roundtrip [simp]:
  "transform_point_canvas_to_simulation (transform_point_simulation_to_canvas p) = p"
  "transform_point_simulation_to_canvas (transform_point_canvas_to_simulation p) = p"
  "transform_distance_canvas_to_simulation (transform_distance_simulation_to_canvas d) = d"
  "transform_distance_simulation_to_canvas (transform_distance_canvas_to_simulation d) = d"
  by (simp_all add: transform_point_simulation_to_canvas_def transform_point_canvas_to_simulation_def
    transform_distance_simulation_to_canvas_def transform_distance_canvas_to_simulation_def PIXELS_PER_METER_def)

section \<open>Kinds of network devices\<close>

text \<open>A device type is its name; \<open>is_wireless\<close> may be None.\<close>

record traits =
  is_wireless :: "bool option"
  is_virtual :: bool

definition new_traits :: "bool option \<Rightarrow> bool \<Rightarrow> py_error + traits" where
  "new_traits wireless virtual =
     (if virtual \<or> wireless \<noteq> None then Inr \<lparr>is_wireless = wireless, is_virtual = virtual\<rparr>
      else Inl AssertionError)"

definition netdevice_traits :: "py_error + (string, traits) dict" where
  "netdevice_traits = for_each
     (\<lambda>d (ty, wireless, virtual). rbind (new_traits wireless virtual) (\<lambda>t. Inr (dset d ty t))) []
     [(''PointToPointNetDevice'', Some False, False),
      (''CsmaNetDevice'', Some False, False),
      (''WifiNetDevice'', Some True, False),
      (''BridgeNetDevice'', None, True),
      (''LoopbackNetDevice'', Some False, True),
      (''MeshPointDevice'', None, True),
      (''SubscriberStationNetDevice'', Some True, False),
      (''BaseStationNetDevice'', Some True, False),
      (''LteUeNetDevice'', Some True, False),
      (''LteEnbNetDevice'', Some True, False)]"

text \<open>An unknown type is taken for wireless, with a warning the first time.\<close>

definition traits_warning :: "string \<Rightarrow> string \<Rightarrow> string" where
  "traits_warning ty source_file =
     ''WARNING: no NetDeviceTraits registered for device type '' @ repr ty
     @ ''; I will assume this is a non-virtual wireless device, but you should edit '' @ repr source_file
     @ '', variable 'netdevice_traits', to make sure.'' @ [CHR 0x0A]"

definition lookup_netdevice_traits ::
    "string \<Rightarrow> (string, traits) dict \<Rightarrow> string \<Rightarrow> py_error + (traits \<times> (string, traits) dict \<times> string)" where
  "lookup_netdevice_traits source_file table ty =
     (case dget table ty of
        Some t \<Rightarrow> Inr (t, table, [])
      | None \<Rightarrow> rbind (new_traits (Some True) False) (\<lambda>t. Inr (t, dset table ty t, traits_warning ty source_file)))"

lemma lookup_traits_total:
  "\<exists>t table' out. lookup_netdevice_traits f table ty = Inr (t, table', out)
     \<and> dget table' ty = Some t \<and> lookup_netdevice_traits f table' ty = Inr (t, table', [])
     \<and> (\<forall>ty'. ty' \<noteq> ty \<longrightarrow> dget table' ty' = dget table ty')"
  by (cases "dget table ty") (simp_all add: lookup_netdevice_traits_def new_traits_def)

text \<open>A device is scanned for wires when it is neither wireless nor virtual.\<close>

definition is_wired :: "traits \<Rightarrow> bool" where
  "is_wired t = (is_wireless t \<noteq> Some True \<and> \<not> is_virtual t)"

lemma known_wired:
  "case netdevice_traits of Inl e \<Rightarrow> False | Inr table \<Rightarrow>
     filter (\<lambda>ty. is_wired (the (dget table ty))) (dkeys table) = [''PointToPointNetDevice'', ''CsmaNetDevice'']"
  by code_simp

section \<open>Plugins\<close>

record plugin_state =
  plugins :: "string list"
  plugin_modules :: "(string option, string) dict"
  plugins_loaded :: bool
  sys_path :: "string list"
  messages :: "string list"

text \<open>
  A plugin function is named by the module it comes from.  What importing a file gives: an
  \<open>ImportError\<close>, another exception, or a module that has a callable \<open>register\<close>, one that is not
  callable, or none.
\<close>

datatype imported = NoImport string | ImportRaises py_error | Module "bool option"

definition register_plugin :: "bool \<Rightarrow> string \<Rightarrow> string option \<Rightarrow> string option \<Rightarrow> plugin_state \<Rightarrow> py_error + plugin_state" where
  "register_plugin callable f plugin_name plugin_module s =
     (if \<not> callable then Inl AssertionError
      else
        let s = s\<lparr>plugins := plugins s @ [f]\<rparr>
        in Inr (case plugin_module of None \<Rightarrow> s
                | Some m \<Rightarrow> s\<lparr>plugin_modules := dset (plugin_modules s) plugin_name m\<rparr>))"

text \<open>\<open>os.path.splitext\<close> on a name without directories: leading dots belong to the stem.\<close>

definition splitext :: "string \<Rightarrow> string \<times> string" where
  "splitext p =
     (let dots = takeWhile (\<lambda>c. c = CHR ''.'') p;
          body = drop (length dots) p;
          ext = rev (takeWhile (\<lambda>c. c \<noteq> CHR ''.'') (rev body))
      in if CHR ''.'' \<in> set body
         then (dots @ take (length body - length ext - 1) body, CHR ''.'' # ext)
         else (p, []))"

definition load_plugin :: "(string \<Rightarrow> imported) \<Rightarrow> plugin_state \<Rightarrow> string \<Rightarrow> py_error + plugin_state" where
  "load_plugin import_module s filename =
     (let (module_name, ext) = splitext filename
      in if ext \<noteq> ''.py'' then Inr s
         else case import_module module_name of
             NoImport msg \<Rightarrow> Inr (s\<lparr>messages := messages s @ [''Could not load plugin '' @ repr filename @ '': '' @ msg]\<rparr>)
           | ImportRaises e \<Rightarrow> Inl e
           | Module None \<Rightarrow> Inr (s\<lparr>messages := messages s @ [''Plugin '' @ repr module_name @ '' has no 'register' function'']\<rparr>)
           | Module (Some callable) \<Rightarrow> register_plugin callable module_name (Some module_name) (Some module_name) s)"

definition load_plugins ::
    "string \<Rightarrow> (string \<Rightarrow> string list) \<Rightarrow> (string \<Rightarrow> imported) \<Rightarrow> plugin_state \<Rightarrow> py_error + plugin_state" where
  "load_plugins base_dir listdir import_module s =
     (if plugins_loaded s then Inr s
      else
        let plugins_dir = path_join base_dir ''plugins'';
            old_path = sys_path s;
            s = s\<lparr>plugins_loaded := True, sys_path := plugins_dir # sys_path s\<rparr>
        in rbind (for_each (load_plugin import_module) s (listdir plugins_dir)) (\<lambda>s.
           Inr (s\<lparr>sys_path := old_path\<rparr>)))"

lemma splitext_py: "CHR ''.'' \<notin> set n \<Longrightarrow> n \<noteq> [] \<Longrightarrow> splitext (n @ ''.py'') = (n, ''.py'')"
proof -
  assume n: "CHR ''.'' \<notin> set n" "n \<noteq> []"
  then have "takeWhile (\<lambda>c. c = CHR ''.'') (n @ ''.py'') = []" by (cases n) auto
  then show ?thesis by (simp add: splitext_def)
qed

text \<open>The modules that can be imported and have a callable \<open>register\<close>, in the order of the directory.\<close>

definition loadable :: "(string \<Rightarrow> imported) \<Rightarrow> string \<Rightarrow> string list" where
  "loadable import_module filename =
     (case splitext filename of (n, ext) \<Rightarrow>
        if ext = ''.py'' \<and> import_module n = Module (Some True) then [n] else [])"

lemma load_plugin_ok:
  assumes "\<And>n. import_module n \<noteq> Module (Some False)" "\<And>n e. import_module n \<noteq> ImportRaises e"
  shows "\<exists>t. load_plugin import_module s filename = Inr t \<and> plugins t = plugins s @ loadable import_module filename
     \<and> plugins_loaded t = plugins_loaded s"
  using assms
  by (auto simp: load_plugin_def loadable_def register_plugin_def Let_def split: prod.splits imported.splits option.splits)

text \<open>
  Loading the plugins registers each module of the plugin directory that can be imported
  and has a \<open>register\<close> function, once and in the order of the directory; a plugin that cannot be
  imported does not stop the others; the search path is as before, and a second call changes
  nothing.
\<close>

theorem load_plugins_result:
  assumes "\<forall>n. import_module n \<noteq> Module (Some False)" "\<forall>n e. import_module n \<noteq> ImportRaises e" "\<not> plugins_loaded s"
  shows "\<exists>t. load_plugins d listdir import_module s = Inr t
     \<and> plugins t = plugins s @ concat (map (loadable import_module) (listdir (path_join d ''plugins'')))
     \<and> sys_path t = sys_path s \<and> load_plugins d listdir import_module t = Inr t"
proof -
  define s0 where "s0 = s\<lparr>plugins_loaded := True, sys_path := path_join d ''plugins'' # sys_path s\<rparr>"
  have "\<exists>t. for_each (load_plugin import_module) s0 fs = Inr t
     \<and> (plugins t = plugins s0 @ concat (map (loadable import_module) fs) \<and> plugins_loaded t)" for fs
  proof (rule for_each_inv [where I = "\<lambda>fs t. plugins t = plugins s0 @ concat (map (loadable import_module) fs) \<and> plugins_loaded t"])
    show "plugins s0 = plugins s0 @ concat (map (loadable import_module) []) \<and> plugins_loaded s0" by (simp add: s0_def)
  next
    fix ys x zs and t :: plugin_state
    assume "plugins t = plugins s0 @ concat (map (loadable import_module) ys) \<and> plugins_loaded t"
    then show "\<exists>t'. load_plugin import_module t x = Inr t'
      \<and> plugins t' = plugins s0 @ concat (map (loadable import_module) (ys @ [x])) \<and> plugins_loaded t'"
      using load_plugin_ok [of import_module t x] assms(1,2) by auto
  qed
  then obtain t where "for_each (load_plugin import_module) s0 (listdir (path_join d ''plugins'')) = Inr t"
      "plugins t = plugins s0 @ concat (map (loadable import_module) (listdir (path_join d ''plugins'')))" "plugins_loaded t"
    by blast
  then show ?thesis using assms(3) by (simp add: load_plugins_def Let_def s0_def)
qed

definition example_import :: "string \<Rightarrow> imported" where
  "example_import n = (if n = ''olsr'' then Module (Some True) else if n = ''wifi'' then NoImport ''no ns3'' else Module None)"

definition fresh_plugins :: plugin_state where
  "fresh_plugins = \<lparr>plugins = [], plugin_modules = [], plugins_loaded = False, sys_path = [''/lib''], messages = []\<rparr>"

theorem load_plugins_result_witness:
  "\<exists>t. load_plugins ''v'' (\<lambda>_. [''wifi.py'', ''olsr.py'', ''x.txt'']) example_import fresh_plugins = Inr t \<and> plugins t = [''olsr'']"
proof -
  have "concat (map (loadable example_import) [''wifi.py'', ''olsr.py'', ''x.txt'']) = [''olsr'']" by code_simp
  moreover have "plugins fresh_plugins = []" "\<not> plugins_loaded fresh_plugins" by (simp_all add: fresh_plugins_def)
  moreover have "\<forall>n. example_import n \<noteq> Module (Some False)" "\<forall>n e. example_import n \<noteq> ImportRaises e"
    by (simp_all add: example_import_def)
  ultimately show ?thesis
    using load_plugins_result [of example_import fresh_plugins "''v''" "\<lambda>_. [''wifi.py'', ''olsr.py'', ''x.txt'']"] by auto
qed

section \<open>SVG items\<close>

record svg_item =
  svg_x :: rat
  svg_y :: rat
  svg_sx :: rat
  svg_sy :: rat
  handle_size :: point
  svg_width :: rat
  svg_height :: rat
  custom_width :: "rat option"
  custom_height :: "rat option"

definition new_svg_item :: "rat \<Rightarrow> rat \<Rightarrow> point \<Rightarrow> svg_item" where
  "new_svg_item x y handle =
     \<lparr>svg_x = x, svg_y = y, svg_sx = 1, svg_sy = 1, handle_size = handle,
      svg_width = fst handle, svg_height = snd handle, custom_width = None, custom_height = None\<rparr>"

definition true_div :: "rat \<Rightarrow> rat \<Rightarrow> py_error + rat" where
  "true_div a b = (if b = 0 then Inl ZeroDivisionError else Inr (a / b))"

definition size_changed :: "svg_item \<Rightarrow> py_error + svg_item" where
  "size_changed s =
     (case (custom_width s, custom_height s) of
        (None, None) \<Rightarrow>
          Inr (s\<lparr>svg_width := fst (handle_size s), svg_height := snd (handle_size s), svg_sx := 1, svg_sy := 1\<rparr>)
      | (Some w, None) \<Rightarrow>
          rbind (true_div w (fst (handle_size s))) (\<lambda>sx.
            Inr (s\<lparr>svg_width := w, svg_sx := sx, svg_sy := sx, svg_height := snd (handle_size s) * sx\<rparr>))
      | (None, Some h) \<Rightarrow>
          rbind (true_div h (snd (handle_size s))) (\<lambda>sy.
            Inr (s\<lparr>svg_height := h, svg_sy := sy, svg_sx := sy, svg_width := fst (handle_size s) * sy\<rparr>))
      | (Some w, Some h) \<Rightarrow>
          rbind (true_div w (fst (handle_size s))) (\<lambda>sx.
          rbind (true_div h (snd (handle_size s))) (\<lambda>sy.
            Inr (s\<lparr>svg_width := w, svg_height := h, svg_sx := sx, svg_sy := sy\<rparr>))))"

definition svg_set_property :: "string \<Rightarrow> rat \<Rightarrow> svg_item \<Rightarrow> py_error + svg_item" where
  "svg_set_property p v s =
     (if p = ''x'' then Inr (s\<lparr>svg_x := v\<rparr>)
      else if p = ''y'' then Inr (s\<lparr>svg_y := v\<rparr>)
      else if p = ''width'' then size_changed (s\<lparr>custom_width := Some v\<rparr>)
      else if p = ''height'' then size_changed (s\<lparr>custom_height := Some v\<rparr>)
      else Inl AttributeError)"

text \<open>Reading \<open>width\<close> sets the size of the item back to that of the image.\<close>

definition svg_get_property :: "string \<Rightarrow> svg_item \<Rightarrow> py_error + (rat \<times> svg_item)" where
  "svg_get_property p s =
     (if p = ''x'' then Inr (svg_x s, s)
      else if p = ''y'' then Inr (svg_y s, s)
      else if p = ''width'' then
        (let s = s\<lparr>svg_width := fst (handle_size s), svg_height := snd (handle_size s)\<rparr> in Inr (svg_width s, s))
      else if p = ''height'' then Inr (svg_height s, s)
      else Inl AttributeError)"

definition svg_update_bounds :: "svg_item \<Rightarrow> point \<times> point" where
  "svg_update_bounds s = ((svg_x s, svg_y s), (svg_x s + svg_width s, svg_y s + svg_height s))"

definition is_item_at :: "svg_item \<Rightarrow> rat \<Rightarrow> rat \<Rightarrow> bool" where
  "is_item_at s x y =
     (if (x < svg_x s \<or> x > svg_x s + svg_width s) \<or> (y < svg_y s \<or> y > svg_y s + svg_height s) then False else True)"

text \<open>Where \<open>do_simple_paint\<close> puts a point of the image.\<close>

definition svg_paint :: "svg_item \<Rightarrow> point \<Rightarrow> point" where
  "svg_paint s p = (svg_x s + svg_sx s * fst p, svg_y s + svg_sy s * snd p)"

text \<open>The cache of images: the file is read once for each name.\<close>

definition rsvg_handle_factory ::
    "string \<Rightarrow> (string \<Rightarrow> py_error + 'h) \<Rightarrow> string \<Rightarrow> (string, 'h) dict \<Rightarrow> py_error + ('h \<times> (string, 'h) dict)" where
  "rsvg_handle_factory base_dir load base_file_name cache =
     (case dget cache base_file_name of
        Some h \<Rightarrow> Inr (h, cache)
      | None \<Rightarrow>
          rbind (load (path_join (path_join base_dir ''resource'') base_file_name)) (\<lambda>h.
            Inr (h, dset cache base_file_name h)))"

lemma rsvg_cached:
  "rsvg_handle_factory d load f c = Inr (h, c') \<Longrightarrow> rsvg_handle_factory d load' f c' = Inr (h, c')"
  by (auto simp: rsvg_handle_factory_def rbind_Inr_iff split: option.splits)

text \<open>What the paint fills is what the bounds say: the scale and the size agree.\<close>

definition svg_inv :: "svg_item \<Rightarrow> bool" where
  "svg_inv s \<longleftrightarrow> svg_paint s (handle_size s) = snd (svg_update_bounds s)
     \<and> (custom_width s = None \<or> custom_height s = None \<longrightarrow> svg_sx s = svg_sy s)
     \<and> (\<forall>w. custom_width s = Some w \<longrightarrow> svg_width s = w) \<and> (\<forall>h. custom_height s = Some h \<longrightarrow> svg_height s = h)"

lemma size_changed_ok:
  assumes "fst (handle_size s) \<noteq> 0" "snd (handle_size s) \<noteq> 0"
  shows "\<exists>t. size_changed s = Inr t \<and> svg_inv t \<and> handle_size t = handle_size s \<and> svg_x t = svg_x s \<and> svg_y t = svg_y s"
  using assms
  by (cases "custom_width s"; cases "custom_height s")
    (auto simp: size_changed_def true_div_def svg_inv_def svg_paint_def svg_update_bounds_def)

lemma new_svg_inv: "svg_inv (new_svg_item x y h)"
  by (simp add: new_svg_item_def svg_inv_def svg_paint_def svg_update_bounds_def)

definition svg_set_all :: "svg_item \<Rightarrow> (string \<times> rat) list \<Rightarrow> py_error + svg_item" where
  "svg_set_all = for_each (\<lambda>s (p, v). svg_set_property p v s)"

lemma svg_set_ok:
  assumes "svg_inv s" "fst (handle_size s) \<noteq> 0" "snd (handle_size s) \<noteq> 0" "p \<in> {''x'', ''y'', ''width'', ''height''}"
  shows "\<exists>t. svg_set_property p v s = Inr t \<and> svg_inv t \<and> handle_size t = handle_size s"
proof -
  have move: "svg_inv (s\<lparr>svg_x := v\<rparr>)" "svg_inv (s\<lparr>svg_y := v\<rparr>)"
    using assms(1) by (simp_all add: svg_inv_def svg_paint_def svg_update_bounds_def)
  have w: "\<exists>t. size_changed (s\<lparr>custom_width := Some v\<rparr>) = Inr t \<and> svg_inv t \<and> handle_size t = handle_size s"
    using size_changed_ok [of "s\<lparr>custom_width := Some v\<rparr>"] assms(2,3) by auto
  have h: "\<exists>t. size_changed (s\<lparr>custom_height := Some v\<rparr>) = Inr t \<and> svg_inv t \<and> handle_size t = handle_size s"
    using size_changed_ok [of "s\<lparr>custom_height := Some v\<rparr>"] assms(2,3) by auto
  from assms(4) consider "p = ''x''" | "p = ''y''" | "p = ''width''" | "p = ''height''" by blast
  then show ?thesis
  proof cases
    case 1
    then show ?thesis using move by (simp add: svg_set_property_def)
  next
    case 2
    then show ?thesis using move by (simp add: svg_set_property_def)
  next
    case 3
    then show ?thesis using w by (simp add: svg_set_property_def)
  next
    case 4
    then show ?thesis using h by (simp add: svg_set_property_def)
  qed
qed

text \<open>
  Whatever the position and size an item of an image with a size is given, in whatever
  order, the item is there, the image fills exactly its bounds, a width or height that was set is
  that of the item, and as long as only one of them was set the image keeps its proportions.
\<close>

theorem svg_item_fits:
  assumes "fst h \<noteq> 0" "snd h \<noteq> 0" "\<forall>(p, v)\<in>set ps. p \<in> {''x'', ''y'', ''width'', ''height''}"
  shows "\<exists>t. svg_set_all (new_svg_item x y h) ps = Inr t \<and> svg_inv t \<and> handle_size t = h"
proof -
  have "\<exists>t. for_each (\<lambda>s (p, v). svg_set_property p v s) (new_svg_item x y h) ps = Inr t \<and> (svg_inv t \<and> handle_size t = h)"
  proof (rule for_each_inv [where I = "\<lambda>_ t. svg_inv t \<and> handle_size t = h"])
    show "svg_inv (new_svg_item x y h) \<and> handle_size (new_svg_item x y h) = h"
      by (simp add: new_svg_inv) (simp add: new_svg_item_def)
  next
    fix ys q zs and t :: svg_item
    assume "ps = ys @ q # zs" "svg_inv t \<and> handle_size t = h"
    then show "\<exists>t'. (case q of (p, v) \<Rightarrow> svg_set_property p v t) = Inr t' \<and> svg_inv t' \<and> handle_size t' = h"
      using svg_set_ok [of t "fst q" "snd q"] assms by (auto split: prod.splits)
  qed
  then show ?thesis by (simp add: svg_set_all_def)
qed

theorem svg_item_fits_witness:
  "\<exists>t. svg_set_all (new_svg_item 1 2 (40, 20)) [(''width'', 10), (''x'', 5)] = Inr t \<and> svg_inv t \<and> handle_size t = (40, 20)"
  by (rule svg_item_fits) auto

lemma reading_width_resets:
  "rbind (svg_set_all (new_svg_item 0 0 (40, 20)) [(''width'', 10)]) (svg_get_property ''width'') =
     Inr (40, \<lparr>svg_x = 0, svg_y = 0, svg_sx = 1 / 4, svg_sy = 1 / 4, handle_size = (40, 20),
       svg_width = 40, svg_height = 20, custom_width = Some 10, custom_height = None\<rparr>)"
  by (simp add: svg_set_all_def svg_set_property_def size_changed_def true_div_def new_svg_item_def svg_get_property_def)

lemma is_item_at_bounds:
  "is_item_at s x y \<longleftrightarrow> (case svg_update_bounds s of ((x1, y1), (x2, y2)) \<Rightarrow> x1 \<le> x \<and> x \<le> x2 \<and> y1 \<le> y \<and> y \<le> y2)"
  by (auto simp: is_item_at_def svg_update_bounds_def)

end
