(* ===== verification/VizNodes.thy ===== *)
theory VizNodes
  imports VizBase "HOL-Library.Word"
begin

text \<open>
  The objects on the canvas of the visualizer, \<open>visualizer/core.py\<close> lines 78 to 602: \<open>Node\<close>,
  \<open>Channel\<close> and \<open>WiredLink\<close>, and the links of the wireless plugin, which share the lists of links.
  The objects refer to each other, so they live in a store, the \<open>scene\<close>: a node is known by its
  index, a channel and a link by a number.  Methods are functions of the scene.
\<close>

unbundle bit_operations_syntax

section \<open>The store\<close>

record node_view =
  center :: point
  radius :: rat
  fill_rgba :: int
  line_width :: rat
  stroke_color :: string
  node_links :: "nat list"
  mobility_known :: "bool option"
  selected :: bool
  highlighted :: bool
  node_color :: int
  node_size :: rat
  svg :: "(svg_item \<times> point) option"
  node_label :: "string option"
  label_item :: "(string \<times> point) option"

record channel_view =
  channel_center :: point
  channel_links :: "nat list"

datatype link_end = NodeEnd nat | ChannelEnd nat

text \<open>
  A link has two ends; a wireless link has the station first, and no second end while the station
  is not associated.  \<open>drawn\<close> is the line on the canvas, if there has been one.
\<close>

record link_view =
  wired :: bool
  end1 :: "nat option"
  end2 :: "link_end option"
  drawn :: "(point \<times> point) option"
  link_shown :: bool

record scene =
  nodes :: "(nat, node_view) dict"
  channels :: "(nat, channel_view) dict"
  links :: "link_view list"
  canvas_bounds :: "(point \<times> point) option"
  rsvg_cache :: "(string, point) dict"

text \<open>\<open>canvas_bounds\<close> is None where \<open>get_bounds()\<close> does not give four numbers (bug 2969).\<close>

definition DEFAULT_NODE_SIZE :: rat where
  "DEFAULT_NODE_SIZE = 1"

section \<open>Appearance\<close>

definition restyle :: "node_view \<Rightarrow> node_view" where
  "restyle v =
     (let size = transform_distance_simulation_to_canvas (node_size v);
          alpha = (if svg v \<noteq> None then 0x80 else 0xff);
          v = v\<lparr>radius := size, fill_rgba := (node_color v AND 0xffffff00) OR alpha\<rparr>
      in v\<lparr>line_width := (if selected v then size * (3 / 10) else size * (15 / 100)),
           stroke_color := (if highlighted v then ''yellow'' else ''black'')\<rparr>)"

definition unstyled_node :: node_view where
  "unstyled_node =
     \<lparr>center = (0, 0), radius = 0, fill_rgba = 0, line_width = 0, stroke_color = [], node_links = [],
      mobility_known = None, selected = False, highlighted = False, node_color = 0x808080ff,
      node_size = DEFAULT_NODE_SIZE, svg = None, node_label = None, label_item = None\<rparr>"

definition new_node :: node_view where
  "new_node = restyle unstyled_node"

definition new_channel :: channel_view where
  "new_channel = \<lparr>channel_center = (0, 0), channel_links = []\<rparr>"

text \<open>A reference never dangles (see \<open>scene_inv\<close>): the objects of the store are never removed.\<close>

definition node_at :: "scene \<Rightarrow> nat \<Rightarrow> node_view" where
  "node_at sc n = (case dget (nodes sc) n of Some v \<Rightarrow> v | None \<Rightarrow> new_node)"

definition channel_at :: "scene \<Rightarrow> nat \<Rightarrow> channel_view" where
  "channel_at sc c = (case dget (channels sc) c of Some v \<Rightarrow> v | None \<Rightarrow> new_channel)"

definition change_node :: "nat \<Rightarrow> (node_view \<Rightarrow> node_view) \<Rightarrow> scene \<Rightarrow> scene" where
  "change_node n f sc = sc\<lparr>nodes := dset (nodes sc) n (f (node_at sc n))\<rparr>"

definition change_channel :: "nat \<Rightarrow> (channel_view \<Rightarrow> channel_view) \<Rightarrow> scene \<Rightarrow> scene" where
  "change_channel c f sc = sc\<lparr>channels := dset (channels sc) c (f (channel_at sc c))\<rparr>"

definition change_link :: "nat \<Rightarrow> (link_view \<Rightarrow> link_view) \<Rightarrow> scene \<Rightarrow> scene" where
  "change_link i f sc = sc\<lparr>links := (links sc)[i := f (links sc ! i)]\<rparr>"

section \<open>Positions\<close>

definition node_position :: "scene \<Rightarrow> nat \<Rightarrow> point" where
  "node_position sc n = center (node_at sc n)"

definition end_position :: "scene \<Rightarrow> link_end \<Rightarrow> point" where
  "end_position sc e = (case e of NodeEnd n \<Rightarrow> node_position sc n | ChannelEnd c \<Rightarrow> channel_center (channel_at sc c))"

text \<open>The line a link is to show.\<close>

definition link_line :: "scene \<Rightarrow> link_view \<Rightarrow> (point \<times> point) option" where
  "link_line sc l =
     (case (end1 l, end2 l) of
        (Some n, Some e) \<Rightarrow> Some (node_position sc n, end_position sc e)
      | _ \<Rightarrow> None)"

definition update_points :: "nat \<Rightarrow> scene \<Rightarrow> scene" where
  "update_points i sc =
     (case link_line sc (links sc ! i) of
        None \<Rightarrow> sc
      | Some line \<Rightarrow> change_link i (\<lambda>l. l\<lparr>drawn := Some line\<rparr>) sc)"

definition update_all_points :: "nat list \<Rightarrow> scene \<Rightarrow> scene" where
  "update_all_points is sc = fold update_points is sc"

definition svg_position :: "point \<Rightarrow> svg_item \<times> point \<Rightarrow> svg_item \<times> point" where
  "svg_position p sa =
     (case sa of (s, (align_x, align_y)) \<Rightarrow>
        (s\<lparr>svg_x := fst p - (1 - align_x) * svg_width s, svg_y := snd p - (1 - align_y) * svg_height s\<rparr>, (align_x, align_y)))"

definition label_position :: "node_view \<Rightarrow> point \<Rightarrow> point" where
  "label_position v p = (fst p, snd p + node_size v * 3)"

definition grow_bounds :: "point \<Rightarrow> scene \<Rightarrow> scene" where
  "grow_bounds p sc =
     (case canvas_bounds sc of
        None \<Rightarrow> sc
      | Some ((min_x, min_y), (max_x, max_y)) \<Rightarrow>
          (let new_bounds = ((min (fst p) min_x, min (snd p) min_y), (max (fst p) max_x, max (snd p) max_y))
           in if new_bounds \<noteq> ((min_x, min_y), (max_x, max_y)) then sc\<lparr>canvas_bounds := Some new_bounds\<rparr> else sc))"

definition set_position :: "nat \<Rightarrow> point \<Rightarrow> scene \<Rightarrow> scene" where
  "set_position n p sc =
     (let sc = change_node n (\<lambda>v. v\<lparr>center := p\<rparr>) sc;
          sc = change_node n (\<lambda>v. v\<lparr>svg := map_option (svg_position p) (svg v)\<rparr>) sc;
          sc = update_all_points (node_links (node_at sc n)) sc;
          sc = change_node n (\<lambda>v. v\<lparr>label_item := map_option (\<lambda>(t, _). (t, label_position v p)) (label_item v)\<rparr>) sc
      in grow_bounds p sc)"

definition update_position :: "nat \<Rightarrow> scene \<Rightarrow> scene" where
  "update_position n sc = set_position n (node_position sc n) sc"

definition channel_set_position :: "nat \<Rightarrow> point \<Rightarrow> scene \<Rightarrow> scene" where
  "channel_set_position c p sc =
     (let sc = change_channel c (\<lambda>v. v\<lparr>channel_center := p\<rparr>) sc
      in update_all_points (channel_links (channel_at sc c)) sc)"

text \<open>The label item is made when it is first needed; setting its text leaves its place.\<close>

definition update_appearance :: "nat \<Rightarrow> scene \<Rightarrow> scene" where
  "update_appearance n sc =
     (let sc = change_node n restyle sc
      in case node_label (node_at sc n) of
           None \<Rightarrow> sc
         | Some t \<Rightarrow>
             update_position n (change_node n (\<lambda>v. v\<lparr>label_item :=
               Some (t, case label_item v of None \<Rightarrow> (0, 0) | Some (_, p) \<Rightarrow> p)\<rparr>) sc))"

section \<open>The methods of a node\<close>

definition set_selected :: "nat \<Rightarrow> bool \<Rightarrow> scene \<Rightarrow> scene" where
  "set_selected n b sc = update_appearance n (change_node n (\<lambda>v. v\<lparr>selected := b\<rparr>) sc)"

definition set_highlighted :: "nat \<Rightarrow> bool \<Rightarrow> scene \<Rightarrow> scene" where
  "set_highlighted n b sc = update_appearance n (change_node n (\<lambda>v. v\<lparr>highlighted := b\<rparr>) sc)"

definition set_size :: "nat \<Rightarrow> rat \<Rightarrow> scene \<Rightarrow> scene" where
  "set_size n q sc = update_appearance n (change_node n (\<lambda>v. v\<lparr>node_size := q\<rparr>) sc)"

definition set_label :: "nat \<Rightarrow> string \<Rightarrow> scene \<Rightarrow> scene" where
  "set_label n t sc = update_appearance n (change_node n (\<lambda>v. v\<lparr>node_label := Some t\<rparr>) sc)"

text \<open>A colour is a number or a name; \<open>Gdk.color_parse\<close> gives its parts of sixteen bits.\<close>

datatype colour = ColourCode int | ColourName string

definition colour_code :: "(string \<Rightarrow> int \<times> int \<times> int) \<Rightarrow> colour \<Rightarrow> int" where
  "colour_code parse c =
     (case c of
        ColourCode k \<Rightarrow> k
      | ColourName t \<Rightarrow>
          (case parse t of (red, green, blue) \<Rightarrow>
             push_bit 24 (drop_bit 8 red) OR push_bit 16 (drop_bit 8 green) OR push_bit 8 (drop_bit 8 blue) OR 0xff))"

definition set_node_color :: "(string \<Rightarrow> int \<times> int \<times> int) \<Rightarrow> nat \<Rightarrow> colour \<Rightarrow> scene \<Rightarrow> scene" where
  "set_node_color parse n c sc = update_appearance n (change_node n (\<lambda>v. v\<lparr>node_color := colour_code parse c\<rparr>) sc)"

text \<open>
  What an icon needs from outside: whether the module \<open>svgitem\<close> could be imported, the directory
  of \<open>svgitem.py\<close>, and the library that reads an image, of which only the size matters.
\<close>

record svg_library =
  svg_module :: bool
  svg_dir :: string
  svg_load :: "string \<Rightarrow> py_error + point"

definition svg_sized :: "string \<Rightarrow> rat option \<Rightarrow> svg_item \<Rightarrow> py_error + svg_item" where
  "svg_sized property extent s =
     (case extent of None \<Rightarrow> Inr s
      | Some q \<Rightarrow> svg_set_property property (transform_distance_simulation_to_canvas q) s)"

definition set_svg_icon ::
    "svg_library \<Rightarrow> nat \<Rightarrow> string \<Rightarrow> rat option \<Rightarrow> rat option \<Rightarrow> point \<Rightarrow> scene \<Rightarrow> py_error + scene" where
  "set_svg_icon lib n file_base_name width height align sc =
     (if width = None \<and> height = None then Inl ValueError
      else if \<not> svg_module lib then Inl AttributeError
      else
        rbind (rsvg_handle_factory (svg_dir lib) (svg_load lib) file_base_name (rsvg_cache sc)) (\<lambda>(handle, cache).
        let p = node_position sc n in
        rbind (svg_sized ''width'' width (new_svg_item (fst p) (snd p) handle)) (\<lambda>s.
        rbind (svg_sized ''height'' height s) (\<lambda>s.
          Inr (update_appearance n (change_node n (\<lambda>v. v\<lparr>svg := Some (svg_position p (s, align))\<rparr>)
            (sc\<lparr>rsvg_cache := cache\<rparr>)))))))"

definition has_mobility :: "(nat \<Rightarrow> bool) \<Rightarrow> nat \<Rightarrow> scene \<Rightarrow> bool \<times> scene" where
  "has_mobility mobile n sc =
     (case mobility_known (node_at sc n) of
        Some b \<Rightarrow> (b, sc)
      | None \<Rightarrow> (mobile n, change_node n (\<lambda>v. v\<lparr>mobility_known := Some (mobile n)\<rparr>) sc))"

definition add_link :: "nat \<Rightarrow> nat \<Rightarrow> scene \<Rightarrow> scene" where
  "add_link n i sc = change_node n (\<lambda>v. v\<lparr>node_links := node_links v @ [i]\<rparr>) sc"

definition remove_link :: "nat \<Rightarrow> nat \<Rightarrow> scene \<Rightarrow> py_error + scene" where
  "remove_link n i sc =
     (if i \<in> set (node_links (node_at sc n))
      then Inr (change_node n (\<lambda>v. v\<lparr>node_links := remove1 i (node_links v)\<rparr>) sc)
      else Inl ValueError)"

section \<open>Making objects\<close>

definition get_node :: "nat \<Rightarrow> scene \<Rightarrow> scene" where
  "get_node n sc = (case dget (nodes sc) n of Some _ \<Rightarrow> sc | None \<Rightarrow> sc\<lparr>nodes := dset (nodes sc) n new_node\<rparr>)"

definition get_channel :: "nat \<Rightarrow> scene \<Rightarrow> scene" where
  "get_channel c sc =
     (case dget (channels sc) c of Some _ \<Rightarrow> sc | None \<Rightarrow> sc\<lparr>channels := dset (channels sc) c new_channel\<rparr>)"

definition register_link :: "link_end \<Rightarrow> nat \<Rightarrow> scene \<Rightarrow> scene" where
  "register_link e i sc =
     (case e of
        NodeEnd n \<Rightarrow> add_link n i sc
      | ChannelEnd c \<Rightarrow> change_channel c (\<lambda>v. v\<lparr>channel_links := channel_links v @ [i]\<rparr>) sc)"

definition create_link :: "nat \<Rightarrow> link_end \<Rightarrow> scene \<Rightarrow> scene" where
  "create_link n e sc =
     (let i = length (links sc);
          sc = sc\<lparr>links := links sc @ [\<lparr>wired = True, end1 = Some n, end2 = Some e, drawn = None, link_shown = True\<rparr>]\<rparr>
      in register_link e i (add_link n i sc))"

section \<open>Reading the store after a change\<close>

lemma node_at_change [simp]: "node_at (change_node n f sc) m = (if m = n then f (node_at sc n) else node_at sc m)"
  by (simp add: node_at_def change_node_def)

lemma channel_at_change [simp]:
  "channel_at (change_channel c f sc) d = (if d = c then f (channel_at sc c) else channel_at sc d)"
  by (simp add: channel_at_def change_channel_def)

lemma change_frame [simp]:
  "links (change_node n f sc) = links sc" "channels (change_node n f sc) = channels sc"
  "channel_at (change_node n f sc) c = channel_at sc c" "canvas_bounds (change_node n f sc) = canvas_bounds sc"
  "links (change_channel c g sc) = links sc" "nodes (change_channel c g sc) = nodes sc"
  "node_at (change_channel c g sc) m = node_at sc m" "canvas_bounds (change_channel c g sc) = canvas_bounds sc"
  "nodes (change_link i h sc) = nodes sc" "channels (change_link i h sc) = channels sc"
  "node_at (change_link i h sc) m = node_at sc m" "channel_at (change_link i h sc) c = channel_at sc c"
  "canvas_bounds (change_link i h sc) = canvas_bounds sc"
  by (simp_all add: change_node_def change_channel_def change_link_def node_at_def channel_at_def)

lemma grow_bounds_frame [simp]:
  "nodes (grow_bounds p sc) = nodes sc" "channels (grow_bounds p sc) = channels sc" "links (grow_bounds p sc) = links sc"
  "node_at (grow_bounds p sc) m = node_at sc m" "channel_at (grow_bounds p sc) c = channel_at sc c"
  by (auto simp: grow_bounds_def node_at_def channel_at_def Let_def split: option.splits)

lemma update_points_frame [simp]:
  "nodes (update_points i sc) = nodes sc" "channels (update_points i sc) = channels sc"
  "node_at (update_points i sc) m = node_at sc m" "channel_at (update_points i sc) c = channel_at sc c"
  "canvas_bounds (update_points i sc) = canvas_bounds sc" "length (links (update_points i sc)) = length (links sc)"
  by (simp_all add: update_points_def change_link_def node_at_def channel_at_def split: option.splits)

lemma update_all_frame [simp]:
  "nodes (update_all_points is sc) = nodes sc" "channels (update_all_points is sc) = channels sc"
  "node_at (update_all_points is sc) m = node_at sc m" "channel_at (update_all_points is sc) c = channel_at sc c"
  "canvas_bounds (update_all_points is sc) = canvas_bounds sc" "length (links (update_all_points is sc)) = length (links sc)"
  unfolding update_all_points_def by (induction "is" arbitrary: sc) simp_all

lemma link_line_cong:
  "(\<And>n. node_position sc n = node_position sc' n) \<Longrightarrow> (\<And>c. channel_at sc c = channel_at sc' c) \<Longrightarrow> link_line sc l = link_line sc' l"
  by (simp add: link_line_def end_position_def split: option.splits link_end.splits)

lemma link_line_drawn [simp]: "link_line sc (l\<lparr>drawn := x\<rparr>) = link_line sc l"
  by (simp add: link_line_def)

definition redraw :: "scene \<Rightarrow> link_view \<Rightarrow> link_view" where
  "redraw sc l = (case link_line sc l of None \<Rightarrow> l | Some line \<Rightarrow> l\<lparr>drawn := Some line\<rparr>)"

lemma link_line_points [simp]: "link_line (update_points i sc) l = link_line sc l"
  by (rule link_line_cong) (simp_all add: node_position_def)

lemma redraw_idem [simp]: "redraw sc (redraw sc l) = redraw sc l"
  by (auto simp: redraw_def split: option.splits)

lemma redraw_points [simp]: "redraw (update_points i sc) l = redraw sc l"
  by (simp add: redraw_def)

lemma update_points_nth:
  "i < length (links sc) \<Longrightarrow> links (update_points j sc) ! i = (if i = j then redraw sc (links sc ! i) else links sc ! i)"
  by (auto simp: update_points_def redraw_def change_link_def split: option.splits)

lemma update_all_nth:
  "i < length (links sc) \<Longrightarrow>
   links (update_all_points is sc) ! i = (if i \<in> set is then redraw sc (links sc ! i) else links sc ! i)"
  unfolding update_all_points_def
proof (induction "is" arbitrary: sc)
  case (Cons j js)
  then show ?case using Cons.IH [of "update_points j sc"] by (auto simp: update_points_nth)
qed simp

lemma node_at_set_position:
  "node_at (set_position n p sc) m =
     (if m = n then (node_at sc n)\<lparr>center := p, svg := map_option (svg_position p) (svg (node_at sc n)),
        label_item := map_option (\<lambda>(t, _). (t, label_position (node_at sc n) p)) (label_item (node_at sc n))\<rparr>
      else node_at sc m)"
  by (simp add: set_position_def Let_def label_position_def)

lemma set_position_frame [simp]:
  "channels (set_position n p sc) = channels sc" "channel_at (set_position n p sc) c = channel_at sc c"
  "length (links (set_position n p sc)) = length (links sc)"
  by (simp_all add: set_position_def Let_def)

lemma node_position_set [simp]: "node_position (set_position n p sc) m = (if m = n then p else node_position sc m)"
  by (simp add: node_position_def node_at_set_position)

section \<open>The appearance follows the state\<close>

definition styled :: "node_view \<Rightarrow> bool" where
  "styled v \<longleftrightarrow>
     radius v = transform_distance_simulation_to_canvas (node_size v)
     \<and> line_width v = radius v * (if selected v then 3 / 10 else 15 / 100)
     \<and> stroke_color v = (if highlighted v then ''yellow'' else ''black'')
     \<and> fill_rgba v = (node_color v AND 0xffffff00) OR (if svg v = None then 0xff else 0x80)
     \<and> label_item v = map_option (\<lambda>t. (t, label_position v (center v))) (node_label v)
     \<and> map_option (svg_position (center v)) (svg v) = svg v"

lemma svg_position_idem [simp]: "svg_position p (svg_position q sa) = svg_position p sa"
  by (cases sa; cases "snd sa") (simp add: svg_position_def)

lemma styled_new [simp]: "styled new_node"
  by (simp add: styled_def new_node_def restyle_def unstyled_node_def Let_def)

lemma set_position_styled:
  "styled (node_at sc n) \<Longrightarrow> styled (node_at (set_position n p sc) n)"
  by (auto simp: styled_def node_at_set_position label_position_def option.map_comp comp_def split: option.splits prod.splits)

text \<open>Whatever has been set before, \<open>_update_appearance\<close> makes the node look like its state.\<close>

definition appear :: "node_view \<Rightarrow> node_view" where
  "appear v =
     (let v = restyle v
      in case node_label v of None \<Rightarrow> v
         | Some t \<Rightarrow> v\<lparr>svg := map_option (svg_position (center v)) (svg v), label_item := Some (t, label_position v (center v))\<rparr>)"

lemma node_at_update_appearance:
  "node_at (update_appearance n sc) m = (if m = n then appear (node_at sc n) else node_at sc m)"
  by (auto simp: update_appearance_def update_position_def node_at_set_position node_position_def Let_def
      restyle_def label_position_def appear_def split: option.splits)

definition icon_placed :: "node_view \<Rightarrow> bool" where
  "icon_placed v \<longleftrightarrow> map_option (svg_position (center v)) (svg v) = svg v
     \<and> (node_label v = None \<longrightarrow> label_item v = None)"

lemma appear_styled: "icon_placed v \<Longrightarrow> styled (appear v)"
proof (cases "node_label v")
  case None
  then show "icon_placed v \<Longrightarrow> styled (appear v)"
    by (simp add: icon_placed_def styled_def appear_def restyle_def Let_def)
next
  case (Some t)
  then show "icon_placed v \<Longrightarrow> styled (appear v)"
    by (simp add: icon_placed_def styled_def appear_def restyle_def Let_def label_position_def)
qed

lemma styled_icon_placed: "styled v \<Longrightarrow> icon_placed v"
  by (simp add: styled_def icon_placed_def)

datatype node_op =
    MoveTo point | LabelAs string | Resize rat | Paint colour | Select bool | Highlight bool
  | Icon string "rat option" "rat option" point | Link nat | Unlink nat

definition node_operation ::
    "svg_library \<Rightarrow> (string \<Rightarrow> int \<times> int \<times> int) \<Rightarrow> scene \<Rightarrow> nat \<times> node_op \<Rightarrow> py_error + scene" where
  "node_operation lib parse sc nop =
     (case nop of (n, op) \<Rightarrow>
       case op of
         MoveTo p \<Rightarrow> Inr (set_position n p sc)
       | LabelAs t \<Rightarrow> Inr (set_label n t sc)
       | Resize q \<Rightarrow> Inr (set_size n q sc)
       | Paint c \<Rightarrow> Inr (set_node_color parse n c sc)
       | Select b \<Rightarrow> Inr (set_selected n b sc)
       | Highlight b \<Rightarrow> Inr (set_highlighted n b sc)
       | Icon f w h align \<Rightarrow> set_svg_icon lib n f w h align sc
       | Link i \<Rightarrow> Inr (add_link n i sc)
       | Unlink i \<Rightarrow> remove_link n i sc)"

definition styled_scene :: "scene \<Rightarrow> bool" where
  "styled_scene sc \<longleftrightarrow> (\<forall>n. styled (node_at sc n))"

lemma svg_icon_change:
  assumes "set_svg_icon lib n f w h align sc = Inr sc'"
  shows "\<exists>s cache. sc' = update_appearance n (change_node n (\<lambda>v. v\<lparr>svg := Some (svg_position (node_position sc n) (s, align))\<rparr>)
     (sc\<lparr>rsvg_cache := cache\<rparr>))"
  using assms by (auto simp: set_svg_icon_def rbind_Inr_iff Let_def split: if_splits)

lemma node_at_cache [simp]: "node_at (sc\<lparr>rsvg_cache := c\<rparr>) m = node_at sc m"
  by (simp add: node_at_def)

lemma styled_appear:
  "styled_scene sc \<Longrightarrow> icon_placed (f (node_at sc n)) \<Longrightarrow> styled_scene (update_appearance n (change_node n f sc))"
  by (simp add: styled_scene_def node_at_update_appearance appear_styled)

lemma styled_links: "styled_scene sc \<Longrightarrow> styled_scene (change_node n (\<lambda>v. v\<lparr>node_links := g v\<rparr>) sc)"
  by (simp add: styled_scene_def styled_def label_position_def)

lemma node_operation_styled:
  assumes "styled_scene sc" "node_operation lib parse sc nop = Inr sc'"
  shows "styled_scene sc'"
proof -
  obtain n op where nop: "nop = (n, op)" by (cases nop)
  have p: "icon_placed (node_at sc n)" using assms(1) by (simp add: styled_scene_def styled_icon_placed)
  show ?thesis
  proof (cases op)
    case (MoveTo q)
    then show ?thesis
      using assms set_position_styled [of sc n q] by (auto simp: nop node_operation_def styled_scene_def node_at_set_position)
  next
    case (Icon f w h align)
    then have "set_svg_icon lib n f w h align sc = Inr sc'"
      using assms(2) by (simp add: nop node_operation_def)
    from svg_icon_change [OF this] obtain s cache where "sc' = update_appearance n (change_node n
        (\<lambda>v. v\<lparr>svg := Some (svg_position (node_position sc n) (s, align))\<rparr>) (sc\<lparr>rsvg_cache := cache\<rparr>))"
      by blast
    moreover have "styled_scene (sc\<lparr>rsvg_cache := cache\<rparr>)" using assms(1) by (simp add: styled_scene_def)
    ultimately show ?thesis
      using p by (auto intro!: styled_appear simp: icon_placed_def node_position_def)
  next
    case (Unlink i)
    then show ?thesis using assms
      by (auto simp: nop node_operation_def remove_link_def styled_links split: if_splits)
  qed (use assms p in \<open>auto simp: nop node_operation_def set_label_def set_size_def set_node_color_def set_selected_def
      set_highlighted_def add_link_def styled_links icon_placed_def intro!: styled_appear\<close>)
qed

text \<open>
  However nodes are moved, labelled, resized, painted, selected, highlighted or given an
  icon, and in whatever order, every node looks like its state: its radius is its size in pixels,
  the outline is thick when it is selected and yellow when the pointer is on it, the filling has
  the colour of the node and lets an icon through, the label is below the node and the icon is
  where its alignment says.
\<close>

theorem appearance_follows_state:
  assumes "\<forall>n. styled (node_at sc n)" "for_each (node_operation lib parse) sc ops = Inr sc'"
  shows "\<forall>n. styled (node_at sc' n)"
  using for_each_preserves [OF assms(2), of styled_scene] assms(1) node_operation_styled
  by (auto simp: styled_scene_def)

definition empty_scene :: scene where
  "empty_scene = \<lparr>nodes = [], channels = [], links = [], canvas_bounds = Some ((- 10000, - 10000), (10000, 10000)), rsvg_cache = []\<rparr>"

definition one_node :: scene where
  "one_node = get_node 0 empty_scene"

definition example_library :: svg_library where
  "example_library = \<lparr>svg_module = True, svg_dir = ''v'', svg_load = (\<lambda>_. Inr (40, 20))\<rparr>"

definition example_ops :: "(nat \<times> node_op) list" where
  "example_ops = [(0, LabelAs ''a''), (0, Select True), (0, Icon ''i.svg'' (Some 5) None (1 / 2, 1 / 2)), (0, MoveTo (3, 4))]"

lemma example_label:
  "case for_each (node_operation example_library (\<lambda>_. (0, 0, 0))) one_node example_ops of
     Inl e \<Rightarrow> False | Inr sc \<Rightarrow> label_item (node_at sc 0) = Some (''a'', (3, 7))"
  by code_simp

theorem appearance_follows_state_witness:
  "case for_each (node_operation example_library (\<lambda>_. (0, 0, 0))) one_node example_ops of
     Inl e \<Rightarrow> False | Inr sc \<Rightarrow> styled (node_at sc 0) \<and> label_item (node_at sc 0) = Some (''a'', (3, 7))"
proof -
  have "\<forall>n. styled (node_at one_node n)"
    by (simp add: one_node_def get_node_def empty_scene_def node_at_def)
  from appearance_follows_state [OF this] example_label show ?thesis by (auto split: sum.splits)
qed

section \<open>Links are drawn where their ends are\<close>

definition known_node :: "scene \<Rightarrow> nat \<Rightarrow> bool" where
  "known_node sc n = (dget (nodes sc) n \<noteq> None)"

definition known_channel :: "scene \<Rightarrow> nat \<Rightarrow> bool" where
  "known_channel sc c = (dget (channels sc) c \<noteq> None)"

fun known_end :: "scene \<Rightarrow> link_end \<Rightarrow> bool" where
  "known_end sc (NodeEnd n) = known_node sc n"
| "known_end sc (ChannelEnd c) = known_channel sc c"

fun end_links :: "scene \<Rightarrow> link_end \<Rightarrow> nat list" where
  "end_links sc (NodeEnd n) = node_links (node_at sc n)"
| "end_links sc (ChannelEnd c) = channel_links (channel_at sc c)"

text \<open>
  A link is in the list of its second end, and if it is a wire in that of the first; no list names
  a link that does not exist.
\<close>

definition link_registered :: "scene \<Rightarrow> nat \<Rightarrow> link_view \<Rightarrow> bool" where
  "link_registered sc i l \<longleftrightarrow>
     (\<forall>n. end1 l = Some n \<longrightarrow> known_node sc n \<and> (wired l \<longrightarrow> i \<in> set (node_links (node_at sc n))))
     \<and> (\<forall>e. end2 l = Some e \<longrightarrow> known_end sc e \<and> i \<in> set (end_links sc e))
     \<and> (wired l \<longrightarrow> end1 l \<noteq> None \<and> end2 l \<noteq> None)"

definition scene_inv :: "scene \<Rightarrow> bool" where
  "scene_inv sc \<longleftrightarrow> dict_inv (nodes sc) \<and> dict_inv (channels sc)
     \<and> (\<forall>i<length (links sc). link_registered sc i (links sc ! i))
     \<and> (\<forall>e. \<forall>i\<in>set (end_links sc e). i < length (links sc))"

definition in_place :: "scene \<Rightarrow> nat \<Rightarrow> bool" where
  "in_place sc i \<longleftrightarrow> (link_line sc (links sc ! i) \<noteq> None \<longrightarrow> drawn (links sc ! i) = link_line sc (links sc ! i))"

lemma known_change [simp]:
  "known_node (change_node n f sc) m \<longleftrightarrow> m = n \<or> known_node sc m" "known_channel (change_node n f sc) c = known_channel sc c"
  "known_node (change_channel d g sc) m = known_node sc m" "known_channel (change_channel d g sc) c \<longleftrightarrow> c = d \<or> known_channel sc c"
  "known_node (change_link i h sc) m = known_node sc m" "known_channel (change_link i h sc) c = known_channel sc c"
  "known_node (update_all_points is sc) m = known_node sc m" "known_channel (update_all_points is sc) c = known_channel sc c"
  "known_node (grow_bounds p sc) m = known_node sc m" "known_channel (grow_bounds p sc) c = known_channel sc c"
  by (auto simp: known_node_def known_channel_def change_node_def change_channel_def change_link_def
      update_all_frame grow_bounds_frame)

lemma known_set_position [simp]:
  "known_node (set_position n p sc) m \<longleftrightarrow> m = n \<or> known_node sc m" "known_channel (set_position n p sc) c = known_channel sc c"
  by (simp_all add: set_position_def Let_def)

lemma dict_inv_change [simp]:
  "dict_inv (nodes sc) \<Longrightarrow> dict_inv (nodes (change_node n f sc))"
  "dict_inv (channels sc) \<Longrightarrow> dict_inv (channels (change_channel c g sc))"
  by (simp_all add: change_node_def change_channel_def)

lemma redraw_ends [simp]:
  "end1 (redraw sc l) = end1 l" "end2 (redraw sc l) = end2 l" "wired (redraw sc l) = wired l"
  by (simp_all add: redraw_def split: option.splits)

lemma link_line_ends: "end1 l = end1 l' \<Longrightarrow> end2 l = end2 l' \<Longrightarrow> link_line sc l = link_line sc l'"
  by (simp add: link_line_def)

lemma node_links_set_position [simp]: "node_links (node_at (set_position n p sc) m) = node_links (node_at sc m)"
  by (simp add: node_at_set_position)

lemma end_links_set_position [simp]: "end_links (set_position n p sc) e = end_links sc e"
  by (cases e) simp_all

lemma known_end_set_position: "known_end (set_position n p sc) e \<longleftrightarrow> e = NodeEnd n \<or> known_end sc e"
  by (cases e) auto

text \<open>The store at the moment when \<open>set_position\<close> tells the links.\<close>

lemma links_set_position:
  assumes "i < length (links sc)"
  shows "links (set_position n p sc) ! i =
    (if i \<in> set (node_links (node_at sc n)) then redraw (set_position n p sc) (links sc ! i) else links sc ! i)"
proof -
  define s1 where "s1 = change_node n (\<lambda>v. v\<lparr>svg := map_option (svg_position p) (svg v)\<rparr>) (change_node n (\<lambda>v. v\<lparr>center := p\<rparr>) sc)"
  have "node_position s1 m = node_position (set_position n p sc) m" for m
    by (simp add: s1_def node_position_def node_at_set_position)
  then have "redraw s1 l = redraw (set_position n p sc) l" for l
    unfolding redraw_def by (subst link_line_cong [of s1 "set_position n p sc"]) (simp_all add: s1_def)
  moreover have "links (set_position n p sc) = links (update_all_points (node_links (node_at sc n)) s1)"
    by (simp add: set_position_def Let_def s1_def)
  ultimately show ?thesis using assms update_all_nth [of i s1] by (simp add: s1_def)
qed

lemma ends_set_position:
  assumes "i < length (links sc)"
  shows "end1 (links (set_position n p sc) ! i) = end1 (links sc ! i)" "end2 (links (set_position n p sc) ! i) = end2 (links sc ! i)"
    "wired (links (set_position n p sc) ! i) = wired (links sc ! i)"
  by (simp_all add: links_set_position [OF assms])

lemma scene_inv_set_position:
  assumes "scene_inv sc" "known_node sc n"
  shows "scene_inv (set_position n p sc)"
proof -
  have "dict_inv (nodes (set_position n p sc))"
    using assms(1) by (simp add: set_position_def Let_def scene_inv_def)
  moreover have "link_registered (set_position n p sc) i (links (set_position n p sc) ! i)" if "i < length (links sc)" for i
    using assms that by (auto simp: scene_inv_def link_registered_def ends_set_position known_end_set_position)
  ultimately show ?thesis using assms(1) by (auto simp: scene_inv_def)
qed

lemma redraw_drawn: "link_line sc l \<noteq> None \<Longrightarrow> drawn (redraw sc l) = link_line sc l"
  by (auto simp: redraw_def)

lemma in_place_redrawn:
  assumes "i < length (links sc)" "i \<in> set (node_links (node_at sc n))"
  shows "in_place (set_position n p sc) i"
  using assms redraw_drawn [of "set_position n p sc" "links sc ! i"]
    link_line_ends [of "redraw (set_position n p sc) (links sc ! i)" "links sc ! i" "set_position n p sc"]
  by (simp add: in_place_def links_set_position)

lemma in_place_other:
  assumes "i < length (links sc)" "in_place sc i" "end1 (links sc ! i) \<noteq> Some n" "end2 (links sc ! i) \<noteq> Some (NodeEnd n)"
  shows "in_place (set_position n p sc) i"
proof -
  have same: "link_line (set_position n p sc) (links sc ! i) = link_line sc (links sc ! i)"
    using assms(3,4) by (auto simp: link_line_def end_position_def split: option.splits link_end.splits)
  show ?thesis
  proof (cases "i \<in> set (node_links (node_at sc n))")
    case True
    with assms(1) show ?thesis by (rule in_place_redrawn)
  next
    case False
    with assms(1,2) same show ?thesis by (simp add: in_place_def links_set_position)
  qed
qed

lemma in_place_wire:
  assumes "scene_inv sc" "i < length (links sc)" "wired (links sc ! i)" "in_place sc i"
  shows "in_place (set_position n p sc) i"
proof (cases "end1 (links sc ! i) = Some n \<or> end2 (links sc ! i) = Some (NodeEnd n)")
  case True
  with assms(1-3) have "i \<in> set (node_links (node_at sc n))" by (auto simp: scene_inv_def link_registered_def)
  with assms(2) show ?thesis by (rule in_place_redrawn)
next
  case False
  with assms(2,4) show ?thesis by (intro in_place_other) auto
qed

lemma styled_change_links: "styled_scene sc \<Longrightarrow> styled_scene (change_node n (\<lambda>v. v\<lparr>mobility_known := g v\<rparr>) sc)"
  by (simp add: styled_scene_def styled_def label_position_def)

section \<open>The same for channels and for new objects\<close>

lemma channel_at_set [simp]:
  "channel_at (channel_set_position c p sc) d = (if d = c then (channel_at sc c)\<lparr>channel_center := p\<rparr> else channel_at sc d)"
  "node_at (channel_set_position c p sc) m = node_at sc m" "nodes (channel_set_position c p sc) = nodes sc"
  "known_node (channel_set_position c p sc) m = known_node sc m"
  "known_channel (channel_set_position c p sc) d \<longleftrightarrow> d = c \<or> known_channel sc d"
  "length (links (channel_set_position c p sc)) = length (links sc)"
  by (simp_all add: channel_set_position_def)

lemma links_channel_set:
  assumes "i < length (links sc)"
  shows "links (channel_set_position c p sc) ! i =
    (if i \<in> set (channel_links (channel_at sc c)) then redraw (channel_set_position c p sc) (links sc ! i) else links sc ! i)"
proof -
  define s1 where "s1 = change_channel c (\<lambda>v. v\<lparr>channel_center := p\<rparr>) sc"
  have "redraw s1 l = redraw (channel_set_position c p sc) l" for l
    unfolding redraw_def
    by (subst link_line_cong [of s1 "channel_set_position c p sc"]) (simp_all add: s1_def node_position_def)
  moreover have "links (channel_set_position c p sc) = links (update_all_points (channel_links (channel_at sc c)) s1)"
    by (simp add: channel_set_position_def s1_def)
  ultimately show ?thesis using assms update_all_nth [of i s1] by (simp add: s1_def)
qed

lemma end_links_channel_set [simp]: "end_links (channel_set_position c p sc) e = end_links sc e"
  by (cases e) simp_all

lemma known_end_channel_set: "known_end (channel_set_position c p sc) e \<longleftrightarrow> e = ChannelEnd c \<or> known_end sc e"
  by (cases e) auto

lemma scene_inv_channel_set:
  assumes "scene_inv sc" "known_channel sc c"
  shows "scene_inv (channel_set_position c p sc)"
proof -
  have "dict_inv (channels (channel_set_position c p sc))"
    using assms(1) by (simp add: channel_set_position_def scene_inv_def)
  moreover have "link_registered (channel_set_position c p sc) i (links (channel_set_position c p sc) ! i)" if "i < length (links sc)" for i
    using assms that by (auto simp: scene_inv_def link_registered_def links_channel_set known_end_channel_set)
  ultimately show ?thesis using assms(1) by (auto simp: scene_inv_def)
qed

lemma in_place_channel_redrawn:
  assumes "i < length (links sc)" "i \<in> set (channel_links (channel_at sc c))"
  shows "in_place (channel_set_position c p sc) i"
  using assms redraw_drawn [of "channel_set_position c p sc" "links sc ! i"]
    link_line_ends [of "redraw (channel_set_position c p sc) (links sc ! i)" "links sc ! i" "channel_set_position c p sc"]
  by (simp add: in_place_def links_channel_set)

lemma in_place_channel:
  assumes "scene_inv sc" "i < length (links sc)" "in_place sc i"
  shows "in_place (channel_set_position c p sc) i"
proof (cases "i \<in> set (channel_links (channel_at sc c))")
  case True
  with assms(2) show ?thesis by (rule in_place_channel_redrawn)
next
  case False
  with assms(1,2) have "end2 (links sc ! i) \<noteq> Some (ChannelEnd c)" by (auto simp: scene_inv_def link_registered_def)
  then have "link_line (channel_set_position c p sc) (links sc ! i) = link_line sc (links sc ! i)"
    by (auto simp: link_line_def end_position_def node_position_def split: option.splits link_end.splits)
  with assms(2,3) False show ?thesis by (simp add: in_place_def links_channel_set)
qed

lemma node_at_get_node [simp]: "node_at (get_node n sc) m = node_at sc m"
  by (simp add: node_at_def get_node_def split: option.splits)

lemma channel_at_get_channel [simp]: "channel_at (get_channel c sc) d = channel_at sc d"
  by (simp add: channel_at_def get_channel_def split: option.splits)

lemma get_frame [simp]:
  "links (get_node n sc) = links sc" "channels (get_node n sc) = channels sc" "channel_at (get_node n sc) c = channel_at sc c"
  "links (get_channel c sc) = links sc" "nodes (get_channel c sc) = nodes sc" "node_at (get_channel c sc) m = node_at sc m"
  by (simp_all add: get_node_def get_channel_def channel_at_def node_at_def split: option.splits)

lemma known_get [simp]:
  "known_node (get_node n sc) m \<longleftrightarrow> m = n \<or> known_node sc m" "known_channel (get_node n sc) c = known_channel sc c"
  "known_channel (get_channel c sc) d \<longleftrightarrow> d = c \<or> known_channel sc d" "known_node (get_channel c sc) m = known_node sc m"
  by (auto simp: known_node_def known_channel_def get_node_def get_channel_def split: option.splits)

lemma end_links_get [simp]: "end_links (get_node n sc) e = end_links sc e" "end_links (get_channel c sc) e = end_links sc e"
  by (cases e; simp)+

lemma known_end_get:
  "known_end (get_node n sc) e \<longleftrightarrow> e = NodeEnd n \<or> known_end sc e"
  "known_end (get_channel c sc) e \<longleftrightarrow> e = ChannelEnd c \<or> known_end sc e"
  by (cases e; auto)+

lemma link_registered_get:
  "link_registered sc i l \<Longrightarrow> link_registered (get_node n sc) i l"
  "link_registered sc i l \<Longrightarrow> link_registered (get_channel c sc) i l"
  by (auto simp: link_registered_def known_end_get)

lemma dict_inv_get:
  "dict_inv (nodes sc) \<Longrightarrow> dict_inv (nodes (get_node n sc))"
  "dict_inv (channels sc) \<Longrightarrow> dict_inv (channels (get_channel c sc))"
  by (simp_all add: get_node_def get_channel_def split: option.splits)

lemma scene_inv_get: "scene_inv sc \<Longrightarrow> scene_inv (get_node n sc)" "scene_inv sc \<Longrightarrow> scene_inv (get_channel c sc)"
  by (simp_all add: scene_inv_def link_registered_get dict_inv_get)

lemma in_place_get [simp]: "in_place (get_node n sc) i = in_place sc i" "in_place (get_channel c sc) i = in_place sc i"
proof -
  have "link_line (get_node n sc) l = link_line sc l" "link_line (get_channel c sc) l = link_line sc l" for l
    by (rule link_line_cong; simp add: node_position_def)+
  then show "in_place (get_node n sc) i = in_place sc i" "in_place (get_channel c sc) i = in_place sc i"
    by (simp_all add: in_place_def)
qed

text \<open>A new link is in the lists of both ends.\<close>

lemma create_link_frame [simp]:
  "links (create_link n e sc) = links sc @ [\<lparr>wired = True, end1 = Some n, end2 = Some e, drawn = None, link_shown = True\<rparr>]"
  "node_position (create_link n e sc) m = node_position sc m"
  "channel_center (channel_at (create_link n e sc) c) = channel_center (channel_at sc c)"
  by (auto simp: create_link_def register_link_def add_link_def Let_def node_position_def node_at_def channel_at_def
      change_node_def change_channel_def split: link_end.splits)

lemma end_links_create:
  "end_links (create_link n e sc) e' =
    end_links sc e' @ (if e' = NodeEnd n then [length (links sc)] else []) @ (if e' = e then [length (links sc)] else [])"
  by (cases e; cases e')
    (auto simp: create_link_def register_link_def add_link_def Let_def node_at_def channel_at_def change_node_def change_channel_def)

lemma known_end_create:
  "known_end (create_link n e sc) e' \<longleftrightarrow> e' = NodeEnd n \<or> e' = e \<or> known_end sc e'"
  by (cases e; cases e')
    (auto simp: create_link_def register_link_def add_link_def Let_def known_node_def known_channel_def change_node_def change_channel_def)

lemma dict_inv_create:
  "dict_inv (nodes sc) \<Longrightarrow> dict_inv (nodes (create_link n e sc))"
  "dict_inv (channels sc) \<Longrightarrow> dict_inv (channels (create_link n e sc))"
  by (simp_all add: create_link_def register_link_def add_link_def Let_def change_node_def change_channel_def split: link_end.splits)

lemma known_nodes_ends:
  "known_node sc n = known_end sc (NodeEnd n)" "node_links (node_at sc n) = end_links sc (NodeEnd n)"
  by simp_all

lemma scene_inv_create:
  assumes "scene_inv sc"
  shows "scene_inv (create_link n e sc)"
proof -
  have "link_registered (create_link n e sc) i (links sc ! i)" if "i < length (links sc)" for i
  proof -
    have "link_registered sc i (links sc ! i)" using assms that by (simp add: scene_inv_def)
    then show ?thesis
      unfolding link_registered_def known_nodes_ends known_end_create end_links_create by auto
  qed
  moreover have "link_registered (create_link n e sc) (length (links sc))
      \<lparr>wired = True, end1 = Some n, end2 = Some e, drawn = None, link_shown = True\<rparr>"
    unfolding link_registered_def known_nodes_ends known_end_create end_links_create by simp
  ultimately have "\<forall>i<length (links (create_link n e sc)). link_registered (create_link n e sc) i (links (create_link n e sc) ! i)"
    by (simp add: nth_append less_Suc_eq)
  moreover have "\<forall>e'. \<forall>i\<in>set (end_links (create_link n e sc) e'). i < length (links (create_link n e sc))"
    using assms by (auto simp: end_links_create scene_inv_def less_Suc_eq)
  ultimately show ?thesis using assms by (simp add: scene_inv_def dict_inv_create)
qed

text \<open>Changes that leave the wiring alone: what a link connects, the lists, and what is known.\<close>

definition link_ends :: "link_view \<Rightarrow> bool \<times> nat option \<times> link_end option" where
  "link_ends l = (wired l, end1 l, end2 l)"

definition same_wiring :: "scene \<Rightarrow> scene \<Rightarrow> bool" where
  "same_wiring sc sc' \<longleftrightarrow> map link_ends (links sc') = map link_ends (links sc)
     \<and> (\<forall>e. end_links sc' e = end_links sc e) \<and> (\<forall>e. known_end sc' e = known_end sc e)
     \<and> (dict_inv (nodes sc) \<longrightarrow> dict_inv (nodes sc')) \<and> (dict_inv (channels sc) \<longrightarrow> dict_inv (channels sc'))"

lemma same_wiring_refl [simp]: "same_wiring sc sc"
  by (simp add: same_wiring_def)

lemma same_wiring_trans: "same_wiring a b \<Longrightarrow> same_wiring b c \<Longrightarrow> same_wiring a c"
  by (simp add: same_wiring_def)

lemma same_wiring_length: "same_wiring sc sc' \<Longrightarrow> length (links sc') = length (links sc)"
  unfolding same_wiring_def by (metis length_map)

lemma same_wiring_nth:
  "same_wiring sc sc' \<Longrightarrow> i < length (links sc) \<Longrightarrow> link_ends (links sc' ! i) = link_ends (links sc ! i)"
  unfolding same_wiring_def by (metis length_map nth_map)

lemma link_registered_wiring:
  "same_wiring sc sc' \<Longrightarrow> link_ends l = link_ends l' \<Longrightarrow> link_registered sc' i l = link_registered sc i l'"
  unfolding link_registered_def known_nodes_ends same_wiring_def link_ends_def
  by (simp del: known_end.simps end_links.simps)

lemma scene_inv_wiring:
  assumes "same_wiring sc sc'" "scene_inv sc"
  shows "scene_inv sc'"
proof -
  have "link_registered sc' i (links sc' ! i)" if "i < length (links sc')" for i
    using that assms same_wiring_nth [OF assms(1), of i] link_registered_wiring [OF assms(1)] same_wiring_length [OF assms(1)]
    by (auto simp: scene_inv_def)
  then show ?thesis
    using assms same_wiring_length [OF assms(1)] by (simp add: scene_inv_def) (simp add: same_wiring_def)
qed

lemma wiring_change_node:
  "known_node sc n \<Longrightarrow> node_links (f (node_at sc n)) = node_links (node_at sc n) \<Longrightarrow> same_wiring sc (change_node n f sc)"
  unfolding same_wiring_def
proof (intro conjI allI impI)
  fix e
  assume "known_node sc n" "node_links (f (node_at sc n)) = node_links (node_at sc n)"
  then show "end_links (change_node n f sc) e = end_links sc e" "known_end (change_node n f sc) e = known_end sc e"
    by (cases e; auto)+
qed simp_all

lemma wiring_set_position: "known_node sc n \<Longrightarrow> same_wiring sc (set_position n p sc)"
  unfolding same_wiring_def
proof (intro conjI allI impI)
  show "map link_ends (links (set_position n p sc)) = map link_ends (links sc)"
    by (rule nth_equalityI) (simp_all add: link_ends_def ends_set_position)
  show "dict_inv (nodes sc) \<Longrightarrow> dict_inv (nodes (set_position n p sc))"
    by (simp add: set_position_def Let_def)
qed (auto simp: known_end_set_position)

lemma wiring_channel_set: "known_channel sc c \<Longrightarrow> same_wiring sc (channel_set_position c p sc)"
  unfolding same_wiring_def
proof (intro conjI allI impI)
  show "map link_ends (links (channel_set_position c p sc)) = map link_ends (links sc)"
    by (rule nth_equalityI) (simp_all add: link_ends_def links_channel_set)
  show "dict_inv (channels sc) \<Longrightarrow> dict_inv (channels (channel_set_position c p sc))"
    by (simp add: channel_set_position_def)
qed (auto simp: known_end_channel_set)

lemma node_links_restyle [simp]: "node_links (restyle v) = node_links v" "center (restyle v) = center v"
  by (simp_all add: restyle_def Let_def)

lemma wiring_update_appearance: "known_node sc n \<Longrightarrow> same_wiring sc (update_appearance n sc)"
proof -
  assume n: "known_node sc n"
  have r: "same_wiring sc (change_node n restyle sc)" using n by (rule wiring_change_node) simp
  show ?thesis
  proof (cases "node_label (node_at (change_node n restyle sc) n)")
    case None
    then show ?thesis using r by (simp add: update_appearance_def Let_def)
  next
    case (Some t)
    let ?s = "change_node n (\<lambda>v. v\<lparr>label_item := Some (t, case label_item v of None \<Rightarrow> (0, 0) | Some (_, p) \<Rightarrow> p)\<rparr>)
      (change_node n restyle sc)"
    have "same_wiring (change_node n restyle sc) ?s" by (rule wiring_change_node) simp_all
    moreover have "same_wiring ?s (update_position n ?s)"
      unfolding update_position_def by (rule wiring_set_position) simp
    ultimately have "same_wiring sc (update_position n ?s)" using r same_wiring_trans by blast
    then show ?thesis using Some by (simp add: update_appearance_def Let_def)
  qed
qed

lemma center_update_appearance [simp]: "node_position (update_appearance n sc) m = node_position sc m"
  by (auto simp: node_position_def node_at_update_appearance appear_def Let_def split: option.splits)

text \<open>Moving an object, of either kind.\<close>

fun place :: "link_end \<times> point \<Rightarrow> scene \<Rightarrow> scene" where
  "place (NodeEnd n, p) sc = set_position n p sc"
| "place (ChannelEnd c, p) sc = channel_set_position c p sc"

definition ends_of :: "link_view \<Rightarrow> link_end set" where
  "ends_of l = set_option (map_option NodeEnd (end1 l)) \<union> set_option (end2 l)"

lemma ends_of_link_ends: "link_ends l = link_ends l' \<Longrightarrow> ends_of l = ends_of l'"
  by (simp add: link_ends_def ends_of_def)

lemma wiring_place: "known_end sc (fst ep) \<Longrightarrow> same_wiring sc (place ep sc)"
  by (cases "(ep, sc)" rule: place.cases) (auto intro: wiring_set_position wiring_channel_set)

lemma in_place_place:
  assumes "scene_inv sc" "i < length (links sc)" "wired (links sc ! i)" "in_place sc i \<or> fst ep \<in> ends_of (links sc ! i)"
  shows "in_place (place ep sc) i"
proof (cases "in_place sc i")
  case True
  with assms show ?thesis
    by (cases "(ep, sc)" rule: place.cases) (auto intro: in_place_wire in_place_channel)
next
  case False
  have "link_registered sc i (links sc ! i)" using assms(1,2) by (simp add: scene_inv_def)
  then have "i \<in> set (end_links sc (fst ep))"
    using assms(3,4) False by (cases ep; cases "fst ep") (auto simp: link_registered_def ends_of_def)
  with assms(2) show ?thesis
    by (cases "(ep, sc)" rule: place.cases) (auto intro: in_place_redrawn in_place_channel_redrawn)
qed

lemma end_position_place:
  "end_position (place ep sc) e = (if e = fst ep then snd ep else end_position sc e)"
  by (cases "(ep, sc)" rule: place.cases; cases e) (auto simp: end_position_def node_position_def node_at_set_position)

lemma place_all:
  assumes "scene_inv sc" "\<forall>ep\<in>set eps. known_end sc (fst ep)"
  shows "same_wiring sc (fold place eps sc)"
    and "i < length (links sc) \<Longrightarrow> wired (links sc ! i) \<Longrightarrow> in_place sc i \<or> ends_of (links sc ! i) \<inter> fst ` set eps \<noteq> {} \<Longrightarrow>
      in_place (fold place eps sc) i"
  using assms
proof (induction eps arbitrary: sc)
  case Nil
  { case 1 show ?case by simp }
  { case 2 then show ?case by simp }
next
  case (Cons ep eps)
  have s: "same_wiring sc (place ep sc)" "scene_inv (place ep sc)" "\<forall>ep'\<in>set eps. known_end (place ep sc) (fst ep')"
    if "scene_inv sc" "\<forall>ep\<in>set (ep # eps). known_end sc (fst ep)" for sc
  proof -
    show w: "same_wiring sc (place ep sc)" using that(2) by (intro wiring_place) simp
    then show "scene_inv (place ep sc)" using that(1) by (rule scene_inv_wiring)
    from w have "known_end (place ep sc) e = known_end sc e" for e by (simp add: same_wiring_def)
    then show "\<forall>ep'\<in>set eps. known_end (place ep sc) (fst ep')" using that(2) by simp
  qed
  {
    case 1
    note s = s [OF 1]
    show ?case using same_wiring_trans [OF s(1) Cons.IH(1) [OF s(2,3)]] by simp
  next
    case 2
    note s = s [OF 2(4,5)]
    from same_wiring_nth [OF s(1) 2(1)] have e: "link_ends (links (place ep sc) ! i) = link_ends (links sc ! i)" .
    have "in_place (place ep sc) i \<or> ends_of (links (place ep sc) ! i) \<inter> fst ` set eps \<noteq> {}"
      using 2 in_place_place [of sc i ep] ends_of_link_ends [OF e] by auto
    then show ?case
      using Cons.IH(2) [of "place ep sc"] s 2 e same_wiring_length [OF s(1)] by (simp add: link_ends_def)
  }
qed

lemma place_all_positions:
  "distinct (map fst eps) \<Longrightarrow> (e, p) \<in> set eps \<Longrightarrow> end_position (fold place eps sc) e = p"
  "e \<notin> fst ` set eps \<Longrightarrow> end_position (fold place eps sc) e = end_position sc e"
proof (induction eps arbitrary: sc)
  case (Cons ep eps)
  {
    case 1
    show ?case
    proof (cases "(e, p) = ep")
      case True
      moreover have "fst ep \<notin> fst ` set eps" using 1(1) by simp
      ultimately have "e \<notin> fst ` set eps" by (metis fst_conv)
      then show ?thesis using Cons.IH(2) [of "place ep sc"] True by (auto simp: end_position_place)
    next
      case False
      then show ?thesis using Cons.IH(1) [of "place ep sc"] 1 by simp
    qed
  next
    case 2
    then show ?case using Cons.IH(2) [of "place ep sc"] by (simp add: end_position_place)
  }
qed simp_all

text \<open>
  Claim C16.  When objects are moved, one after the other, every wire one of whose ends was moved is
  drawn between its ends, and a wire that was drawn between its ends before still is.
\<close>

theorem wires_follow:
  assumes "scene_inv sc" "\<forall>ep\<in>set eps. known_end sc (fst ep)" "i < length (links sc)" "wired (links sc ! i)"
    and "drawn (links sc ! i) = link_line sc (links sc ! i) \<or> ends_of (links sc ! i) \<inter> fst ` set eps \<noteq> {}"
  shows "\<exists>a b. drawn (links (fold place eps sc) ! i) = Some (a, b)
     \<and> Some a = map_option (node_position (fold place eps sc)) (end1 (links sc ! i))
     \<and> Some b = map_option (end_position (fold place eps sc)) (end2 (links sc ! i))"
proof -
  let ?t = "fold place eps sc"
  have "in_place ?t i" using place_all(2) [OF assms(1-4)] assms(5) by (auto simp: in_place_def)
  moreover have e: "link_ends (links ?t ! i) = link_ends (links sc ! i)"
    using same_wiring_nth [OF place_all(1) [OF assms(1,2)] assms(3)] .
  moreover obtain n e where "end1 (links sc ! i) = Some n" "end2 (links sc ! i) = Some e"
    using assms(1,3,4) by (auto simp: scene_inv_def link_registered_def)
  ultimately show ?thesis by (auto simp: in_place_def link_line_def link_ends_def)
qed

lemma scene_inv_empty: "scene_inv empty_scene"
proof -
  have "end_links empty_scene e = []" for e
    by (cases e) (simp_all add: empty_scene_def node_at_def channel_at_def new_node_def unstyled_node_def new_channel_def)
  then show ?thesis by (simp add: scene_inv_def) (simp add: empty_scene_def)
qed

definition two_nodes :: scene where
  "two_nodes = create_link 0 (NodeEnd 1) (get_node 1 (get_node 0 empty_scene))"

theorem wires_follow_witness:
  "\<exists>a b. drawn (links (fold place [(NodeEnd 1, (5, 6))] two_nodes) ! 0) = Some (a, b)"
proof -
  have inv: "scene_inv two_nodes"
    by (simp add: two_nodes_def scene_inv_create scene_inv_get scene_inv_empty)
  have l: "links two_nodes = [\<lparr>wired = True, end1 = Some 0, end2 = Some (NodeEnd 1), drawn = None, link_shown = True\<rparr>]"
    by (simp add: two_nodes_def) (simp add: empty_scene_def)
  have "known_end two_nodes (NodeEnd 1)" unfolding two_nodes_def known_end_create by simp
  then show ?thesis using wires_follow [OF inv, of "[(NodeEnd 1, (5, 6))]" 0] l by (auto simp: ends_of_def)
qed

end
