(* ===== verification/VizScene.thy ===== *)
theory VizScene
  imports VizNodes
begin

text \<open>
  The topology on the canvas, \<open>visualizer/core.py\<close>: \<open>scan_topology\<close> (lines 1118 to 1191) makes the
  nodes, channels and wires and places them, and \<open>_update_node_positions\<close> (1234 to 1248) moves the
  nodes after the simulation.  The simulator, read through its bindings, is the record \<open>topology\<close>;
  the layout of Graphviz is a function from the graph to the places of its vertices.
\<close>

section \<open>The simulator\<close>

record device =
  device_type :: string
  device_channel :: "nat option"

text \<open>A channel is its \<open>id()\<close>; \<open>channel_devices\<close> gives the nodes of its devices.\<close>

record topology =
  node_count :: nat
  mobility :: "nat \<Rightarrow> point option"
  devices :: "nat \<Rightarrow> device list"
  channel_devices :: "nat \<Rightarrow> nat list"

section \<open>The graph\<close>

text \<open>A graph of \<open>pygraphviz\<close>, strict: adding a vertex or an edge again changes nothing.\<close>

record agraph =
  vertices :: "string list"
  edges :: "(string \<times> string) list"

definition add_once :: "'a \<Rightarrow> 'a list \<Rightarrow> 'a list" where
  "add_once x xs = (if x \<in> set xs then xs else xs @ [x])"

definition graph_add_node :: "string \<Rightarrow> agraph \<Rightarrow> agraph" where
  "graph_add_node v g = g\<lparr>vertices := add_once v (vertices g)\<rparr>"

definition graph_add_edge :: "string \<Rightarrow> string \<Rightarrow> agraph \<Rightarrow> agraph" where
  "graph_add_edge v w g =
     (let g = graph_add_node w (graph_add_node v g)
      in if (w, v) \<in> set (edges g) then g else g\<lparr>edges := add_once (v, w) (edges g)\<rparr>)"

definition node_vertex :: "nat \<Rightarrow> string" where
  "node_vertex n = ''Node '' @ show_nat n"

definition channel_vertex :: "nat \<Rightarrow> string" where
  "channel_vertex c = ''Channel '' @ show_nat c"

section \<open>\<open>scan_topology\<close>\<close>

definition REPRESENT_CHANNELS_AS_NODES :: bool where
  "REPRESENT_CHANNELS_AS_NODES = True"

record scan =
  scan_scene :: scene
  scan_graph :: agraph
  traits_table :: "(string, traits) dict"
  scan_warnings :: "string list"

definition on_scene :: "(scene \<Rightarrow> scene) \<Rightarrow> scan \<Rightarrow> scan" where
  "on_scene f st = st\<lparr>scan_scene := f (scan_scene st)\<rparr>"

text \<open>A device on the other side of the channel: the views are linked, and the vertices when neither node moves.\<close>

definition scan_peer :: "topology \<Rightarrow> nat \<Rightarrow> scan \<Rightarrow> nat \<Rightarrow> scan" where
  "scan_peer topo n st m =
     (let st = on_scene (get_node m) st in
      if m \<noteq> n then
        (let st =
           (if mobility topo n = None then
              (let (moves, sc) = has_mobility (\<lambda>k. mobility topo k \<noteq> None) m (scan_scene st);
                   st = st\<lparr>scan_scene := sc\<rparr>
               in if \<not> moves then st\<lparr>scan_graph := graph_add_edge (node_vertex n) (node_vertex m) (scan_graph st)\<rparr> else st)
            else st)
         in on_scene (\<lambda>sc. create_link n (NodeEnd m) (get_node n sc)) st)
      else st)"

definition scan_channel :: "topology \<Rightarrow> nat \<Rightarrow> scan \<Rightarrow> nat \<Rightarrow> scan" where
  "scan_channel topo n st c =
     (if length (channel_devices topo c) > 2 \<and> REPRESENT_CHANNELS_AS_NODES then
        (let st = (if mobility topo n = None
                   then st\<lparr>scan_graph := graph_add_edge (node_vertex n) (channel_vertex c) (scan_graph st)\<rparr> else st);
             st = on_scene (get_channel c) st
         in on_scene (\<lambda>sc. create_link n (ChannelEnd c) (get_channel c (get_node n sc))) st)
      else foldl (scan_peer topo n) st (channel_devices topo c))"

definition scan_device :: "topology \<Rightarrow> string \<Rightarrow> nat \<Rightarrow> scan \<Rightarrow> device \<Rightarrow> py_error + scan" where
  "scan_device topo base_file n st d =
     rbind (lookup_netdevice_traits base_file (traits_table st) (device_type d)) (\<lambda>(t, table, warning).
       let st = st\<lparr>traits_table := table, scan_warnings := scan_warnings st @ (if warning = [] then [] else [warning])\<rparr> in
       if is_wireless t = Some True then Inr st
       else if is_virtual t then Inr st
       else case device_channel d of
           None \<Rightarrow> Inl AttributeError
         | Some c \<Rightarrow> Inr (scan_channel topo n st c))"

definition scan_node :: "topology \<Rightarrow> string \<Rightarrow> (string \<Rightarrow> int \<times> int \<times> int) \<Rightarrow> scan \<Rightarrow> nat \<Rightarrow> py_error + scan" where
  "scan_node topo base_file parse st n =
     (let st = on_scene (get_node n) st;
          st = (case mobility topo n of
                  Some p \<Rightarrow> on_scene (\<lambda>sc. set_position n (transform_point_simulation_to_canvas p)
                              (set_node_color parse n (ColourName ''red'') sc)) st
                | None \<Rightarrow> st\<lparr>scan_graph := graph_add_node (node_vertex n) (scan_graph st)\<rparr>)
      in for_each (scan_device topo base_file n) st (devices topo n))"

text \<open>The place of a vertex goes to the object with its name.\<close>

definition vertex_object :: "scene \<Rightarrow> string \<Rightarrow> py_error + link_end" where
  "vertex_object sc v =
     (case split_on (CHR '' '') v of
        [node_type, node_id] \<Rightarrow>
          (if node_type = ''Node'' then
             (if has_key (nodes sc) (read_nat node_id) then Inr (NodeEnd (read_nat node_id)) else Inl KeyError)
           else if node_type = ''Channel'' then
             (if has_key (channels sc) (read_nat node_id) then Inr (ChannelEnd (read_nat node_id)) else Inl KeyError)
           else Inl UnboundLocalError)
      | _ \<Rightarrow> Inl ValueError)"

definition place_vertex :: "(string \<Rightarrow> point) \<Rightarrow> scene \<Rightarrow> string \<Rightarrow> py_error + scene" where
  "place_vertex pos sc v = rbind (vertex_object sc v) (\<lambda>e. Inr (place (e, pos v) sc))"

definition scan_topology ::
    "topology \<Rightarrow> string \<Rightarrow> (string \<Rightarrow> int \<times> int \<times> int) \<Rightarrow> (agraph \<Rightarrow> string \<Rightarrow> point) \<Rightarrow> (string, traits) dict \<Rightarrow> scene \<Rightarrow> py_error + scan" where
  "scan_topology topo base_file parse layout table sc =
     rbind (for_each (scan_node topo base_file parse)
        \<lparr>scan_scene = sc, scan_graph = \<lparr>vertices = [], edges = []\<rparr>, traits_table = table, scan_warnings = []\<rparr>
        [0..<node_count topo]) (\<lambda>st.
     rbind (for_each (place_vertex (layout (scan_graph st))) (scan_scene st) (vertices (scan_graph st))) (\<lambda>sc.
       Inr (st\<lparr>scan_scene := sc\<rparr>)))"

section \<open>\<open>_update_node_positions\<close>\<close>

text \<open>
  Whether a node moves is asked once and remembered.  What the view does when it follows the node is
  the function \<open>follow\<close>; it only moves the scroll bars.
\<close>

definition update_node_position :: "topology \<Rightarrow> nat option \<Rightarrow> (point \<Rightarrow> 'v \<Rightarrow> 'v) \<Rightarrow> scene \<times> 'v \<Rightarrow> nat \<Rightarrow> scene \<times> 'v" where
  "update_node_position topo follow_node follow st n =
     (case st of (sc, v) \<Rightarrow>
       case has_mobility (\<lambda>k. mobility topo k \<noteq> None) n sc of (moves, sc) \<Rightarrow>
         if moves then
           (case mobility topo n of
              None \<Rightarrow> (sc, v)
            | Some p \<Rightarrow>
                let q = transform_point_simulation_to_canvas p
                in (set_position n q sc, if follow_node = Some n then follow q v else v))
         else (sc, v))"

definition update_node_positions :: "topology \<Rightarrow> nat option \<Rightarrow> (point \<Rightarrow> 'v \<Rightarrow> 'v) \<Rightarrow> scene \<times> 'v \<Rightarrow> scene \<times> 'v" where
  "update_node_positions topo follow_node follow st =
     foldl (update_node_position topo follow_node follow) st (dkeys (nodes (fst st)))"

section \<open>What a scan makes\<close>

definition wired_type :: "(string, traits) dict \<Rightarrow> string \<Rightarrow> bool" where
  "wired_type table ty = (case dget table ty of None \<Rightarrow> False | Some t \<Rightarrow> is_wired t)"

text \<open>The wires that a node has: to its channel, or to each other node of a channel of two devices.\<close>

definition channel_ends :: "topology \<Rightarrow> nat \<Rightarrow> nat \<Rightarrow> link_end list" where
  "channel_ends topo n c =
     (if length (channel_devices topo c) > 2 then [ChannelEnd c]
      else map NodeEnd (filter (\<lambda>m. m \<noteq> n) (channel_devices topo c)))"

definition device_ends :: "topology \<Rightarrow> (string, traits) dict \<Rightarrow> nat \<Rightarrow> device \<Rightarrow> link_end list" where
  "device_ends topo table n d =
     (if wired_type table (device_type d)
      then (case device_channel d of None \<Rightarrow> [] | Some c \<Rightarrow> channel_ends topo n c) else [])"

definition node_wires :: "topology \<Rightarrow> (string, traits) dict \<Rightarrow> nat \<Rightarrow> (nat \<times> link_end) list" where
  "node_wires topo table n = map (Pair n) (concat (map (device_ends topo table n) (devices topo n)))"

lemma wired_type_lookup:
  assumes "lookup_netdevice_traits f table ty = Inr (t, table', w)"
  shows "wired_type table' = wired_type table \<and> is_wired t = wired_type table ty"
proof (cases "dget table ty")
  case None
  with assms have t: "t = \<lparr>is_wireless = Some True, is_virtual = False\<rparr>" "table' = dset table ty t"
    by (auto simp: lookup_netdevice_traits_def new_traits_def)
  have "wired_type table' x = wired_type table x" for x
    using None by (cases "x = ty") (simp_all add: t wired_type_def is_wired_def)
  then show ?thesis using None by (simp add: t(1) fun_eq_iff) (simp add: wired_type_def is_wired_def)
next
  case (Some x)
  with assms show ?thesis by (simp add: lookup_netdevice_traits_def wired_type_def)
qed

definition known_vertex :: "topology \<Rightarrow> scene \<Rightarrow> string \<Rightarrow> bool" where
  "known_vertex topo sc v \<longleftrightarrow> (\<exists>n. v = node_vertex n \<and> known_node sc n \<and> mobility topo n = None)
     \<or> (\<exists>c. v = channel_vertex c \<and> known_channel sc c)"

text \<open>
  The state of a scan that has visited the nodes \<open>S\<close> and made the wires \<open>L\<close>: the nodes that
  move are in place, the others are vertices of the graph, which has no vertex that moves.
\<close>

definition scene_ok :: "topology \<Rightarrow> nat set \<Rightarrow> (nat \<times> link_end) list \<Rightarrow> scene \<Rightarrow> bool" where
  "scene_ok topo S L sc \<longleftrightarrow> scene_inv sc
     \<and> map link_ends (links sc) = map (\<lambda>(n, e). (True, Some n, Some e)) L
     \<and> (\<forall>n. mobility_known (node_at sc n) \<in> {None, Some (mobility topo n \<noteq> None)})
     \<and> (\<forall>n\<in>S. known_node sc n \<and> (\<forall>p. mobility topo n = Some p \<longrightarrow> node_position sc n = transform_point_simulation_to_canvas p))"

definition scan_ok :: "topology \<Rightarrow> nat set \<Rightarrow> (nat \<times> link_end) list \<Rightarrow> scan \<Rightarrow> bool" where
  "scan_ok topo S L st \<longleftrightarrow> scene_ok topo S L (scan_scene st)
     \<and> distinct (vertices (scan_graph st)) \<and> (\<forall>v\<in>set (vertices (scan_graph st)). known_vertex topo (scan_scene st) v)
     \<and> (\<forall>n\<in>S. mobility topo n = None \<longrightarrow> node_vertex n \<in> set (vertices (scan_graph st)))
     \<and> fst ` set L \<subseteq> S"

lemma known_vertex_mono:
  "known_vertex topo sc v \<Longrightarrow> (\<And>e. known_end sc e \<Longrightarrow> known_end sc' e) \<Longrightarrow> known_vertex topo sc' v"
  unfolding known_vertex_def by (metis known_end.simps)

lemma scan_ok_scene:
  assumes "scan_ok topo S L st" "scene_ok topo S L' sc'" "fst ` set L' \<subseteq> S"
    and "\<And>e. known_end (scan_scene st) e \<Longrightarrow> known_end sc' e"
  shows "scan_ok topo S L' (st\<lparr>scan_scene := sc'\<rparr>)"
  using assms known_vertex_mono [of topo "scan_scene st" _ sc'] by (auto simp: scan_ok_def)

lemma mobility_known_new [simp]: "mobility_known new_node = None"
  by (simp add: new_node_def restyle_def unstyled_node_def Let_def)

lemma scene_ok_get_node: "scene_ok topo S L sc \<Longrightarrow> scene_ok topo S L (get_node n sc)"
  by (auto simp: scene_ok_def scene_inv_get node_position_def)

lemma scene_ok_get_channel: "scene_ok topo S L sc \<Longrightarrow> scene_ok topo S L (get_channel c sc)"
  by (auto simp: scene_ok_def scene_inv_get node_position_def)

lemma scene_ok_create: "scene_ok topo S L sc \<Longrightarrow> scene_ok topo S (L @ [(n, e)]) (create_link n e sc)"
proof -
  assume ok: "scene_ok topo S L sc"
  have "mobility_known (node_at (create_link n e sc) m) = mobility_known (node_at sc m)" for m
    by (cases e) (simp_all add: create_link_def register_link_def add_link_def Let_def node_at_def change_node_def
        change_channel_def)
  moreover have "known_node (create_link n e sc) m" if "known_node sc m" for m
    using that known_end_create [of n e sc "NodeEnd m"] by simp
  ultimately show ?thesis
    using ok by (simp add: scene_ok_def scene_inv_create link_ends_def)
qed

lemma scene_ok_mobility:
  assumes "scene_ok topo S L sc" "known_node sc m"
    and "has_mobility (\<lambda>k. mobility topo k \<noteq> None) m sc = (b, sc')"
  shows "scene_ok topo S L sc' \<and> b = (mobility topo m \<noteq> None) \<and> same_wiring sc sc' \<and> (\<forall>n. node_position sc' n = node_position sc n)"
proof (cases "mobility_known (node_at sc m)")
  case None
  then have sc': "sc' = change_node m (\<lambda>v. v\<lparr>mobility_known := Some (mobility topo m \<noteq> None)\<rparr>) sc" and b: "b = (mobility topo m \<noteq> None)"
    using assms(3) by (auto simp: has_mobility_def)
  have w: "same_wiring sc sc'" unfolding sc' using assms(2) by (rule wiring_change_node) simp
  moreover have "node_position sc' n = node_position sc n" for n by (simp add: sc' node_position_def)
  moreover have "mobility_known (node_at sc' n) \<in> {None, Some (mobility topo n \<noteq> None)}" for n
    using assms(1) by (auto simp: sc' scene_ok_def)
  ultimately show ?thesis using assms(1,2) b scene_inv_wiring [OF w] by (auto simp: scene_ok_def) (auto simp: sc')
next
  case (Some x)
  with assms(1) have "x = (mobility topo m \<noteq> None)" by (auto simp: scene_ok_def dest: spec [of _ m])
  with Some assms show ?thesis by (auto simp: has_mobility_def)
qed

lemma scan_ok_vertex:
  "scan_ok topo S L st \<Longrightarrow> known_vertex topo (scan_scene st) v \<Longrightarrow>
   scan_ok topo S L (st\<lparr>scan_graph := graph_add_node v (scan_graph st)\<rparr>)"
  by (auto simp: scan_ok_def graph_add_node_def add_once_def)

lemma scan_ok_edge:
  assumes "scan_ok topo S L st" "known_vertex topo (scan_scene st) v" "known_vertex topo (scan_scene st) w"
  shows "scan_ok topo S L (st\<lparr>scan_graph := graph_add_edge v w (scan_graph st)\<rparr>)"
proof -
  have "vertices (graph_add_edge v w g) = vertices (graph_add_node w (graph_add_node v g))" for g
    by (simp add: graph_add_edge_def Let_def)
  then have "set (vertices (graph_add_edge v w g)) = {v, w} \<union> set (vertices g)"
      "distinct (vertices (graph_add_edge v w g)) = distinct (vertices g)" for g
    by (auto simp: graph_add_node_def add_once_def)
  then show ?thesis using assms by (auto simp: scan_ok_def)
qed

lemma scan_ok_get_node: "scan_ok topo S L st \<Longrightarrow> scan_ok topo S L (on_scene (get_node n) st)"
  unfolding on_scene_def
  by (rule scan_ok_scene) (auto simp: scan_ok_def scene_ok_get_node known_end_get)

lemma scan_ok_get_channel: "scan_ok topo S L st \<Longrightarrow> scan_ok topo S L (on_scene (get_channel c) st)"
  unfolding on_scene_def
  by (rule scan_ok_scene) (auto simp: scan_ok_def scene_ok_get_channel known_end_get)

lemma scan_ok_create:
  assumes "scan_ok topo S L st" "n \<in> S"
  shows "scan_ok topo S (L @ [(n, e)]) (on_scene (create_link n e) st)"
proof -
  have "scene_ok topo S (L @ [(n, e)]) (create_link n e (scan_scene st))"
    using assms(1) by (simp add: scan_ok_def scene_ok_create)
  moreover have "fst ` set (L @ [(n, e)]) \<subseteq> S" using assms by (simp add: scan_ok_def)
  ultimately show ?thesis using assms(1) unfolding on_scene_def
    by (intro scan_ok_scene) (auto simp: known_end_create)
qed

lemma scan_ok_known: "scan_ok topo S L st \<Longrightarrow> n \<in> S \<Longrightarrow> known_node (scan_scene st) n"
  by (auto simp: scan_ok_def scene_ok_def)

lemma on_scene_simps [simp]:
  "scan_scene (on_scene f st) = f (scan_scene st)" "scan_graph (on_scene f st) = scan_graph st"
  "traits_table (on_scene f st) = traits_table st"
  "on_scene f (on_scene g st) = on_scene (\<lambda>sc. f (g sc)) st"
  by (simp_all add: on_scene_def)

lemma scan_ok_vertex_known:
  "scan_ok topo S L st \<Longrightarrow> known_node (scan_scene st) m \<Longrightarrow> mobility topo m = None \<Longrightarrow> known_vertex topo (scan_scene st) (node_vertex m)"
  by (auto simp: known_vertex_def)

lemma scan_peer_ok:
  assumes "scan_ok topo S L st" "n \<in> S"
  shows "scan_ok topo S (L @ (if m \<noteq> n then [(n, NodeEnd m)] else [])) (scan_peer topo n st m)
    \<and> traits_table (scan_peer topo n st m) = traits_table st"
proof (cases "m = n")
  case True
  then show ?thesis using assms by (simp add: scan_peer_def scan_ok_get_node)
next
  case False
  define s1 where "s1 = on_scene (get_node m) st"
  have s1: "scan_ok topo S L s1" "known_node (scan_scene s1) m" "traits_table s1 = traits_table st"
    using assms(1) by (simp_all add: s1_def scan_ok_get_node)
  define s2 where "s2 = (if mobility topo n = None then
      (let (moves, sc) = has_mobility (\<lambda>k. mobility topo k \<noteq> None) m (scan_scene s1); st = s1\<lparr>scan_scene := sc\<rparr>
       in if \<not> moves then st\<lparr>scan_graph := graph_add_edge (node_vertex n) (node_vertex m) (scan_graph st)\<rparr> else st) else s1)"
  have s2: "scan_ok topo S L s2 \<and> traits_table s2 = traits_table st"
  proof (cases "mobility topo n")
    case None
    obtain b sc where h: "has_mobility (\<lambda>k. mobility topo k \<noteq> None) m (scan_scene s1) = (b, sc)" by (cases "has_mobility (\<lambda>k. mobility topo k \<noteq> None) m (scan_scene s1)")
    have sc: "scene_ok topo S L sc" "b = (mobility topo m \<noteq> None)" "same_wiring (scan_scene s1) sc"
      using scene_ok_mobility [OF _ s1(2) h] s1(1) by (auto simp: scan_ok_def)
    have k: "known_end sc e = known_end (scan_scene s1) e" for e using sc(3) by (simp add: same_wiring_def)
    have ok: "scan_ok topo S L (s1\<lparr>scan_scene := sc\<rparr>)"
      using s1(1) sc(1) k by (intro scan_ok_scene) (auto simp: scan_ok_def)
    have "known_node sc m" "known_node sc n"
      using k [of "NodeEnd m"] k [of "NodeEnd n"] s1(2) scan_ok_known [OF s1(1) assms(2)] by simp_all
    then have "known_vertex topo sc (node_vertex n)" "\<not> b \<Longrightarrow> known_vertex topo sc (node_vertex m)"
      using None sc(2) unfolding known_vertex_def by (blast, metis)
    then have "scan_ok topo S L (s1\<lparr>scan_scene := sc, scan_graph := graph_add_edge (node_vertex n) (node_vertex m) (scan_graph s1)\<rparr>)" if "\<not> b"
      using scan_ok_edge [OF ok, of "node_vertex n" "node_vertex m"] that by simp
    with ok show ?thesis using h None s1(3) by (simp add: s2_def Let_def)
  next
    case (Some p)
    then show ?thesis using s1 by (simp add: s2_def)
  qed
  have "scan_peer topo n st m = on_scene (create_link n (NodeEnd m)) (on_scene (get_node n) s2)"
    using False by (simp add: scan_peer_def s1_def [symmetric] s2_def Let_def)
  then show ?thesis
    using scan_ok_create [OF scan_ok_get_node [of topo S L s2 n] assms(2), of "NodeEnd m"] s2 False by simp
qed

lemma scan_peers_ok:
  assumes "scan_ok topo S L st" "n \<in> S"
  shows "scan_ok topo S (L @ map (Pair n) (map NodeEnd (filter (\<lambda>m. m \<noteq> n) ms))) (foldl (scan_peer topo n) st ms)
    \<and> traits_table (foldl (scan_peer topo n) st ms) = traits_table st"
  using assms
proof (induction ms arbitrary: st L)
  case (Cons m ms)
  from scan_peer_ok [OF Cons.prems, of m] Cons.IH [of "L @ (if m \<noteq> n then [(n, NodeEnd m)] else [])" "scan_peer topo n st m"]
  show ?case using Cons.prems(2) by (auto split: if_splits)
qed simp

lemma scan_channel_ok:
  assumes "scan_ok topo S L st" "n \<in> S"
  shows "scan_ok topo S (L @ map (Pair n) (channel_ends topo n c)) (scan_channel topo n st c)
    \<and> traits_table (scan_channel topo n st c) = traits_table st"
proof (cases "length (channel_devices topo c) > 2")
  case True
  define s1 where "s1 = on_scene (get_channel c) st"
  define s2 where "s2 = on_scene (get_channel c) (if mobility topo n = None
      then st\<lparr>scan_graph := graph_add_edge (node_vertex n) (channel_vertex c) (scan_graph st)\<rparr> else st)"
  have s1: "scan_ok topo S L s1" using assms(1) by (simp add: s1_def scan_ok_get_channel)
  have "s2 = (if mobility topo n = None
      then s1\<lparr>scan_graph := graph_add_edge (node_vertex n) (channel_vertex c) (scan_graph s1)\<rparr> else s1)"
    by (simp add: s1_def s2_def on_scene_def)
  moreover have "known_vertex topo (scan_scene s1) (channel_vertex c)" by (auto simp: known_vertex_def s1_def)
  moreover have "known_vertex topo (scan_scene s1) (node_vertex n)" if "mobility topo n = None"
    using scan_ok_vertex_known [OF s1 scan_ok_known [OF s1 assms(2)] that] .
  ultimately have s2: "scan_ok topo S L s2" using s1 by (simp add: scan_ok_edge)
  have "scan_channel topo n st c = on_scene (create_link n (ChannelEnd c)) (on_scene (get_channel c) (on_scene (get_node n) s2))"
    using True by (simp add: scan_channel_def REPRESENT_CHANNELS_AS_NODES_def Let_def s2_def)
  then show ?thesis
    using scan_ok_create [OF scan_ok_get_channel [OF scan_ok_get_node [OF s2]] assms(2)] True
    by (simp add: channel_ends_def) (simp add: s2_def)
next
  case False
  then show ?thesis using scan_peers_ok [OF assms, of "channel_devices topo c"] by (simp add: scan_channel_def channel_ends_def)
qed

lemma scan_device_ok:
  assumes "scan_ok topo S L st" "n \<in> S" "wired_type (traits_table st) = W"
    and "wired_type (traits_table st) (device_type d) \<longrightarrow> device_channel d \<noteq> None"
  shows "\<exists>st'. scan_device topo f n st d = Inr st' \<and> wired_type (traits_table st') = W
    \<and> scan_ok topo S (L @ map (Pair n) (device_ends topo (traits_table st) n d)) st'"
proof -
  obtain t table w where t: "lookup_netdevice_traits f (traits_table st) (device_type d) = Inr (t, table, w)"
    using lookup_traits_total [of f "traits_table st" "device_type d"] by auto
  note wt = wired_type_lookup [OF t]
  define s1 where "s1 = st\<lparr>traits_table := table, scan_warnings := scan_warnings st @ (if w = [] then [] else [w])\<rparr>"
  have s1: "scan_ok topo S L s1" using assms(1) by (simp add: s1_def scan_ok_def)
  show ?thesis
  proof (cases "is_wired t")
    case True
    then obtain c where c: "device_channel d = Some c" "wired_type (traits_table st) (device_type d)" using wt assms(4) by auto
    have "scan_device topo f n st d = Inr (scan_channel topo n s1 c)"
      using True c(1) by (simp add: scan_device_def t s1_def is_wired_def)
    then show ?thesis
      using scan_channel_ok [OF s1 assms(2), of c] wt assms(3) c by (simp add: device_ends_def s1_def)
  next
    case False
    then have "scan_device topo f n st d = Inr s1" by (auto simp: scan_device_def t s1_def is_wired_def Let_def)
    moreover have "device_ends topo (traits_table st) n d = []" using False wt by (simp add: device_ends_def)
    ultimately show ?thesis using s1 wt assms(3) by (simp add: s1_def)
  qed
qed

lemma device_ends_cong: "wired_type table = wired_type table' \<Longrightarrow> device_ends topo table n d = device_ends topo table' n d"
  by (simp add: device_ends_def)

definition cabled :: "topology \<Rightarrow> (string, traits) dict \<Rightarrow> bool" where
  "cabled topo table \<longleftrightarrow> (\<forall>n<node_count topo. \<forall>d\<in>set (devices topo n).
     wired_type table (device_type d) \<longrightarrow> device_channel d \<noteq> None)"

lemma scan_devices_ok:
  assumes "scan_ok topo S L st" "n \<in> S" "wired_type (traits_table st) = wired_type table"
    and "\<forall>d\<in>set ds. wired_type table (device_type d) \<longrightarrow> device_channel d \<noteq> None"
  shows "\<exists>st'. for_each (scan_device topo f n) st ds = Inr st' \<and> wired_type (traits_table st') = wired_type table
    \<and> scan_ok topo S (L @ map (Pair n) (concat (map (device_ends topo table n) ds))) st'"
  using assms
proof (induction ds arbitrary: st L)
  case (Cons d ds)
  from Cons.prems obtain st1 where 1: "scan_device topo f n st d = Inr st1" "wired_type (traits_table st1) = wired_type table"
    "scan_ok topo S (L @ map (Pair n) (device_ends topo table n d)) st1"
    using scan_device_ok [OF Cons.prems(1-3), of d f] device_ends_cong [OF Cons.prems(3), of topo n d] by auto
  from Cons.IH [OF 1(3) Cons.prems(2) 1(2)] Cons.prems(4) 1(1) show ?case by auto
qed simp

lemma styled_wiring_color: "known_node sc n \<Longrightarrow> same_wiring sc (set_node_color parse n c sc)"
  unfolding set_node_color_def
  by (rule same_wiring_trans [OF wiring_change_node wiring_update_appearance]) simp_all

lemma mobility_known_appear [simp]: "mobility_known (appear v) = mobility_known v"
  by (simp add: appear_def restyle_def Let_def split: option.splits)

lemma link_ends_wiring: "same_wiring sc sc' \<Longrightarrow> map link_ends (links sc') = map link_ends (links sc)"
  by (simp add: same_wiring_def)

lemma known_wiring: "same_wiring sc sc' \<Longrightarrow> known_end sc' e = known_end sc e"
  by (simp add: same_wiring_def)

lemma scan_node_ok:
  assumes "scan_ok topo S L st" "wired_type (traits_table st) = wired_type table"
    and "\<forall>d\<in>set (devices topo n). wired_type table (device_type d) \<longrightarrow> device_channel d \<noteq> None"
  shows "\<exists>st'. scan_node topo f parse st n = Inr st' \<and> wired_type (traits_table st') = wired_type table
    \<and> scan_ok topo (insert n S) (L @ node_wires topo table n) st'"
proof -
  define s1 where "s1 = on_scene (get_node n) st"
  have s1: "scan_ok topo S L s1" "known_node (scan_scene s1) n" "traits_table s1 = traits_table st"
    using assms(1) by (simp_all add: s1_def scan_ok_get_node)
  define s2 where "s2 = (case mobility topo n of
      Some p \<Rightarrow> on_scene (\<lambda>sc. set_position n (transform_point_simulation_to_canvas p) (set_node_color parse n (ColourName ''red'') sc)) s1
    | None \<Rightarrow> s1\<lparr>scan_graph := graph_add_node (node_vertex n) (scan_graph s1)\<rparr>)"
  have "scan_ok topo (insert n S) L s2 \<and> traits_table s2 = traits_table st"
  proof (cases "mobility topo n")
    case None
    then have "scan_ok topo S L s2" "node_vertex n \<in> set (vertices (scan_graph s2))" "scan_scene s2 = scan_scene s1"
      using scan_ok_vertex [OF s1(1) scan_ok_vertex_known [OF s1(1,2)]]
      by (simp_all add: s2_def graph_add_node_def add_once_def)
    then show ?thesis using None s1(2,3) by (auto simp: scan_ok_def scene_ok_def s2_def)
  next
    case (Some p)
    define sc where "sc = set_position n (transform_point_simulation_to_canvas p) (set_node_color parse n (ColourName ''red'') (scan_scene s1))"
    have k: "known_node (set_node_color parse n (ColourName ''red'') (scan_scene s1)) n"
      using known_wiring [OF styled_wiring_color [OF s1(2)], of parse "ColourName ''red''" "NodeEnd n"] s1(2) by simp
    have w: "same_wiring (scan_scene s1) sc"
      unfolding sc_def by (rule same_wiring_trans [OF styled_wiring_color [OF s1(2)] wiring_set_position [OF k]])
    have "node_position sc m = (if m = n then transform_point_simulation_to_canvas p else node_position (scan_scene s1) m)"
      "mobility_known (node_at sc m) = mobility_known (node_at (scan_scene s1) m)" for m
      by (simp_all add: sc_def node_at_set_position set_node_color_def node_at_update_appearance)
        (simp_all add: node_position_def)
    then have "scene_ok topo (insert n S) L sc"
      using s1(1,2) Some scene_inv_wiring [OF w] link_ends_wiring [OF w] known_wiring [OF w, of "NodeEnd _"]
      by (auto simp: scan_ok_def scene_ok_def)
    moreover have "s2 = s1\<lparr>scan_scene := sc\<rparr>" by (simp add: s2_def Some sc_def on_scene_def)
    ultimately show ?thesis
      using s1(1,3) Some known_wiring [OF w] known_vertex_mono [of topo "scan_scene s1" _ sc] by (auto simp: scan_ok_def)
  qed
  then have s2: "scan_ok topo (insert n S) L s2" "wired_type (traits_table s2) = wired_type table" using assms(2) by simp_all
  have "scan_node topo f parse st n = for_each (scan_device topo f n) s2 (devices topo n)"
    by (simp add: scan_node_def s1_def [symmetric] s2_def Let_def)
  then show ?thesis
    using scan_devices_ok [OF s2(1) insertI1 s2(2) assms(3), of f] by (simp add: node_wires_def)
qed

lemma no_blank_digits: "CHR '' '' \<notin> set (show_nat n)"
proof -
  have "list_all is_digit (show_nat n)" using show_nat_digits by blast
  then show ?thesis by (auto simp: list_all_iff is_digit_def)
qed

lemma vertex_object_name:
  "known_node sc n \<Longrightarrow> vertex_object sc (node_vertex n) = Inr (NodeEnd n)"
  "known_channel sc c \<Longrightarrow> vertex_object sc (channel_vertex c) = Inr (ChannelEnd c)"
proof -
  have "split_on (CHR '' '') (''Node'' @ CHR '' '' # show_nat n) = [''Node'', show_nat n]"
    "split_on (CHR '' '') (''Channel'' @ CHR '' '' # show_nat c) = [''Channel'', show_nat c]"
    by (subst split_on_append; simp add: split_on_none no_blank_digits)+
  then show "known_node sc n \<Longrightarrow> vertex_object sc (node_vertex n) = Inr (NodeEnd n)"
    "known_channel sc c \<Longrightarrow> vertex_object sc (channel_vertex c) = Inr (ChannelEnd c)"
    by (simp_all add: vertex_object_def node_vertex_def channel_vertex_def read_show_nat known_node_def known_channel_def)
qed

fun end_vertex :: "link_end \<Rightarrow> string" where
  "end_vertex (NodeEnd n) = node_vertex n"
| "end_vertex (ChannelEnd c) = channel_vertex c"

definition vertex_end :: "scene \<Rightarrow> string \<Rightarrow> link_end" where
  "vertex_end sc v = (case vertex_object sc v of Inl _ \<Rightarrow> NodeEnd 0 | Inr e \<Rightarrow> e)"

lemma known_vertex_end:
  assumes "known_vertex topo sc v"
  shows "vertex_object sc v = Inr (vertex_end sc v)" "known_end sc (vertex_end sc v)" "end_vertex (vertex_end sc v) = v"
  using assms by (auto simp: known_vertex_def vertex_end_def vertex_object_name)

lemma place_vertices:
  assumes "\<forall>v\<in>set vs. known_vertex topo sc v" "scene_inv sc"
  shows "for_each (place_vertex pos) sc vs = Inr (fold place (map (\<lambda>v. (vertex_end sc v, pos v)) vs) sc)"
  using assms
proof (induction vs arbitrary: sc)
  case (Cons v vs)
  define sc1 where "sc1 = place (vertex_end sc v, pos v) sc"
  have "known_vertex topo sc v" using Cons.prems(1) by simp
  note v = known_vertex_end [OF this]
  have w: "same_wiring sc sc1" unfolding sc1_def by (rule wiring_place) (simp add: v(2))
  have k: "known_vertex topo sc1 u" if "u \<in> set vs" for u
    using Cons.prems(1) that known_vertex_mono [of topo sc u sc1] known_wiring [OF w] by simp
  have "vertex_end sc1 u = vertex_end sc u" if "u \<in> set vs" for u
  proof -
    have "known_vertex topo sc u" using Cons.prems(1) that by simp
    then show ?thesis
      using known_wiring [OF w, of "NodeEnd _"] known_wiring [OF w, of "ChannelEnd _"]
      by (auto simp: known_vertex_def vertex_end_def vertex_object_name)
  qed
  then have m: "map (\<lambda>v. (vertex_end sc1 v, pos v)) vs = map (\<lambda>v. (vertex_end sc v, pos v)) vs" by simp
  have "for_each (place_vertex pos) sc1 vs = Inr (fold place (map (\<lambda>v. (vertex_end sc1 v, pos v)) vs) sc1)"
    using Cons.IH [of sc1] k scene_inv_wiring [OF w Cons.prems(2)] by blast
  moreover have "place_vertex pos sc v = Inr sc1" by (simp add: place_vertex_def v(1) sc1_def)
  ultimately show ?case unfolding m by (simp add: sc1_def)
qed simp

lemma mobility_known_set_position [simp]: "mobility_known (node_at (set_position n p sc) m) = mobility_known (node_at sc m)"
  by (simp add: node_at_set_position)

lemma mobility_known_place [simp]: "mobility_known (node_at (place ep sc) m) = mobility_known (node_at sc m)"
  by (cases "(ep, sc)" rule: place.cases) simp_all

lemma mobility_known_places [simp]: "mobility_known (node_at (fold place eps sc) m) = mobility_known (node_at sc m)"
  by (induction eps arbitrary: sc) simp_all

lemma scan_nodes_ok:
  assumes "scan_ok topo S L st" "wired_type (traits_table st) = wired_type table" "cabled topo table" "set ns \<subseteq> {..<node_count topo}"
  shows "\<exists>st'. for_each (scan_node topo f parse) st ns = Inr st'
    \<and> scan_ok topo (S \<union> set ns) (L @ concat (map (node_wires topo table) ns)) st'"
  using assms
proof (induction ns arbitrary: st S L)
  case (Cons n ns)
  have "\<forall>d\<in>set (devices topo n). wired_type table (device_type d) \<longrightarrow> device_channel d \<noteq> None"
    using Cons.prems(3,4) by (auto simp: cabled_def)
  from scan_node_ok [OF Cons.prems(1,2) this, of f parse] obtain st1 where 1: "scan_node topo f parse st n = Inr st1"
    "wired_type (traits_table st1) = wired_type table" "scan_ok topo (insert n S) (L @ node_wires topo table n) st1"
    by blast
  from Cons.IH [OF 1(3,2) Cons.prems(3)] Cons.prems(4) 1(1) show ?case by auto
qed auto

lemma known_vertex_cases:
  assumes "known_vertex topo sc v"
  shows "(\<exists>n. v = node_vertex n \<and> vertex_end sc v = NodeEnd n \<and> mobility topo n = None)
    \<or> (\<exists>c. v = channel_vertex c \<and> vertex_end sc v = ChannelEnd c)"
  using assms by (auto simp: known_vertex_def vertex_end_def vertex_object_name)

lemma channel_vertex_end:
  assumes "known_vertex topo sc (channel_vertex c)"
  shows "vertex_end sc (channel_vertex c) = ChannelEnd c"
proof -
  from known_vertex_end(3) assms have "end_vertex (vertex_end sc (channel_vertex c)) = channel_vertex c" by blast
  with known_vertex_cases [OF assms] show ?thesis
    by (auto simp: channel_vertex_def node_vertex_def) (metis channel_vertex_def end_vertex.simps(2) append_same_eq read_show_nat)
qed

text \<open>The vertices of a graph with their ends, in a scene that knows them.\<close>

definition vertex_places :: "scene \<Rightarrow> agraph \<Rightarrow> (agraph \<Rightarrow> string \<Rightarrow> point) \<Rightarrow> (link_end \<times> point) list" where
  "vertex_places sc g layout = map (\<lambda>v. (vertex_end sc v, layout g v)) (vertices g)"

lemma vertex_places_known:
  assumes "\<forall>v\<in>set (vertices g). known_vertex topo sc v" "distinct (vertices g)"
  shows "distinct (map fst (vertex_places sc g layout))" "\<forall>ep\<in>set (vertex_places sc g layout). known_end sc (fst ep)"
    "mobility topo n = Some p \<Longrightarrow> NodeEnd n \<notin> fst ` set (vertex_places sc g layout)"
proof -
  have "inj_on (vertex_end sc) (set (vertices g))"
    by (rule inj_on_inverseI [where g = end_vertex]) (use assms(1) known_vertex_end(3) in blast)
  then show "distinct (map fst (vertex_places sc g layout))" using assms(2) by (simp add: vertex_places_def distinct_map comp_def)
  show "\<forall>ep\<in>set (vertex_places sc g layout). known_end sc (fst ep)"
    using assms(1) known_vertex_end(2) by (auto simp: vertex_places_def)
  show "NodeEnd n \<notin> fst ` set (vertex_places sc g layout)" if "mobility topo n = Some p"
    using known_vertex_cases assms(1) that by (force simp: vertex_places_def)
qed

text \<open>Each wire has a node of the topology first, and is drawn in place where that node was placed.\<close>

lemma wires_placed:
  assumes m: "map link_ends (links sc) = map (\<lambda>(n, e). (True, Some n, Some e)) L" and inv: "scene_inv sc"
    and N: "fst ` set L \<subseteq> {..<k}" and known: "\<forall>ep\<in>set eps. known_end sc (fst ep)"
    and still: "\<And>n. n < k \<Longrightarrow> P n \<Longrightarrow> NodeEnd n \<in> fst ` set eps" and i: "i < length (links (fold place eps sc))"
  shows "\<exists>n. end1 (links (fold place eps sc) ! i) = Some n \<and> n < k \<and> (P n \<longrightarrow> in_place (fold place eps sc) i)"
proof -
  have w: "same_wiring sc (fold place eps sc)" using inv known by (rule place_all(1))
  have len: "length (links (fold place eps sc)) = length (links sc)" using same_wiring_length [OF w] .
  have "i < length L" using arg_cong [OF m, of length] i len by simp
  moreover obtain n e where "L ! i = (n, e)" by (cases "L ! i")
  ultimately have ne: "link_ends (links sc ! i) = (True, Some n, Some e)" "(n, e) \<in> set L"
    using arg_cong [OF m, of "\<lambda>xs. xs ! i"] i len nth_mem [of i L] by simp_all
  then have n: "n < k" using N by force
  have "link_ends (links (fold place eps sc) ! i) = link_ends (links sc ! i)" using same_wiring_nth [OF w] i len by simp
  moreover have "in_place (fold place eps sc) i" if "P n"
    by (rule place_all(2) [OF inv known]) (use i len ne still [OF n that] in \<open>auto simp: link_ends_def ends_of_def\<close>)
  ultimately show ?thesis using ne n by (auto simp: link_ends_def)
qed

text \<open>What the placing of the vertices leaves of a scan.\<close>

lemma placed_scan_ok:
  fixes layout :: "agraph \<Rightarrow> string \<Rightarrow> point"
  assumes "scan_ok topo {..<node_count topo} L st"
  defines "sc1 \<equiv> scan_scene st" and "g \<equiv> scan_graph st"
  defines "sc2 \<equiv> fold place (vertex_places sc1 g layout) sc1"
  shows "scene_ok topo {..<node_count topo} L sc2"
    and "n < node_count topo \<Longrightarrow> mobility topo n = None \<Longrightarrow>
      node_vertex n \<in> set (vertices g) \<and> node_position sc2 n = layout g (node_vertex n)"
    and "channel_vertex c \<in> set (vertices g) \<Longrightarrow> end_position sc2 (ChannelEnd c) = layout g (channel_vertex c)"
    and "i < length (links sc2) \<Longrightarrow> \<exists>n. end1 (links sc2 ! i) = Some n \<and> n < node_count topo \<and> (mobility topo n = None \<longrightarrow> in_place sc2 i)"
proof -
  let ?eps = "vertex_places sc1 g layout"
  have ok: "scene_ok topo {..<node_count topo} L sc1" "distinct (vertices g)" "\<forall>v\<in>set (vertices g). known_vertex topo sc1 v"
    "\<forall>n<node_count topo. mobility topo n = None \<longrightarrow> node_vertex n \<in> set (vertices g)" "fst ` set L \<subseteq> {..<node_count topo}"
    using assms(1) by (simp_all add: scan_ok_def sc1_def g_def)
  have inv: "scene_inv sc1" using ok(1) by (simp add: scene_ok_def)
  note eps = vertex_places_known [OF ok(3,2)]
  have w: "same_wiring sc1 sc2" unfolding sc2_def using inv eps(2) by (rule place_all(1))
  have vpos: "end_position sc2 (vertex_end sc1 v) = layout g v" if "v \<in> set (vertices g)" for v
    unfolding sc2_def using that by (intro place_all_positions(1) [OF eps(1)]) (auto simp: vertex_places_def)
  have ends: "vertex_end sc1 (node_vertex n) = NodeEnd n" if "n < node_count topo" for n
    using that ok(1) by (simp add: vertex_end_def vertex_object_name scene_ok_def)
  have position: "node_position sc2 n = node_position sc1 n" if "mobility topo n = Some p" for n p
    using place_all_positions(2) [OF eps(3) [OF that, of layout], of sc1] by (simp add: sc2_def end_position_def)
  show "scene_ok topo {..<node_count topo} L sc2"
    using ok(1) scene_inv_wiring [OF w] link_ends_wiring [OF w] known_wiring [OF w, of "NodeEnd _"] position
    by (auto simp: scene_ok_def) (auto simp: sc2_def)
  show "node_vertex n \<in> set (vertices g) \<and> node_position sc2 n = layout g (node_vertex n)"
    if "n < node_count topo" "mobility topo n = None"
    using vpos [of "node_vertex n"] ok(4) that ends by (simp add: end_position_def)
  show "end_position sc2 (ChannelEnd c) = layout g (channel_vertex c)" if "channel_vertex c \<in> set (vertices g)"
    using vpos [OF that] channel_vertex_end ok(3) that by metis
  have "NodeEnd n \<in> fst ` set ?eps" if "n < node_count topo" "mobility topo n = None" for n
    using ok(4) that ends [OF that(1)] by (force simp: vertex_places_def)
  moreover have "map link_ends (links sc1) = map (\<lambda>(n, e). (True, Some n, Some e)) L" using ok(1) by (simp add: scene_ok_def)
  ultimately show "\<exists>n. end1 (links sc2 ! i) = Some n \<and> n < node_count topo \<and> (mobility topo n = None \<longrightarrow> in_place sc2 i)"
    if "i < length (links sc2)"
    using that unfolding sc2_def by (intro wires_placed [OF _ inv ok(5) eps(2)]) auto
qed

text \<open>What a scan of the whole topology leaves.\<close>

lemma scan_topology_ok:
  assumes "cabled topo table" "scene_ok topo {} [] sc"
  shows "\<exists>st g. scan_topology topo f parse layout table sc = Inr st
    \<and> scene_ok topo {..<node_count topo} (concat (map (node_wires topo table) [0..<node_count topo])) (scan_scene st)
    \<and> (\<forall>n<node_count topo. mobility topo n = None \<longrightarrow> node_vertex n \<in> set (vertices g)
         \<and> node_position (scan_scene st) n = layout g (node_vertex n))
    \<and> (\<forall>c. channel_vertex c \<in> set (vertices g) \<longrightarrow> end_position (scan_scene st) (ChannelEnd c) = layout g (channel_vertex c))
    \<and> (\<forall>i<length (links (scan_scene st)). wired (links (scan_scene st) ! i) \<longrightarrow>
         (\<exists>n. end1 (links (scan_scene st) ! i) = Some n \<and> n < node_count topo \<and> (mobility topo n = None \<longrightarrow> in_place (scan_scene st) i)))"
proof -
  let ?L = "concat (map (node_wires topo table) [0..<node_count topo])"
  let ?st0 = "\<lparr>scan_scene = sc, scan_graph = \<lparr>vertices = [], edges = []\<rparr>, traits_table = table, scan_warnings = []\<rparr>"
  have "scan_ok topo {} [] ?st0" using assms(2) by (simp add: scan_ok_def)
  from scan_nodes_ok [OF this _ assms(1), of "[0..<node_count topo]" f parse] obtain st1 where
    1: "for_each (scan_node topo f parse) ?st0 [0..<node_count topo] = Inr st1" "scan_ok topo {..<node_count topo} ?L st1"
    by (auto simp: atLeast_upt lessThan_atLeast0)
  let ?sc2 = "fold place (vertex_places (scan_scene st1) (scan_graph st1) layout) (scan_scene st1)"
  have "\<forall>v\<in>set (vertices (scan_graph st1)). known_vertex topo (scan_scene st1) v" "scene_inv (scan_scene st1)"
    using 1(2) by (simp_all add: scan_ok_def scene_ok_def)
  then have "scan_topology topo f parse layout table sc = Inr (st1\<lparr>scan_scene := ?sc2\<rparr>)"
    using 1(1) place_vertices [of "vertices (scan_graph st1)" topo "scan_scene st1" "layout (scan_graph st1)"]
    by (simp add: scan_topology_def vertex_places_def)
  moreover note placed = placed_scan_ok [OF 1(2), where layout = layout]
  ultimately show ?thesis
    by (intro exI [of _ "st1\<lparr>scan_scene := ?sc2\<rparr>"] exI [of _ "scan_graph st1"]) (auto intro!: placed(1) dest: placed(2-4))
qed

section \<open>Moving the nodes after the simulation\<close>

definition mobility_remembered :: "topology \<Rightarrow> scene \<Rightarrow> bool" where
  "mobility_remembered topo sc \<longleftrightarrow> (\<forall>n. mobility_known (node_at sc n) \<in> {None, Some (mobility topo n \<noteq> None)})"

lemma has_mobility_facts:
  assumes "mobility_remembered topo sc" "known_node sc m"
    and "has_mobility (\<lambda>k. mobility topo k \<noteq> None) m sc = (b, sc')"
  shows "b = (mobility topo m \<noteq> None) \<and> same_wiring sc sc' \<and> links sc' = links sc \<and> mobility_remembered topo sc'
     \<and> (\<forall>e. end_position sc' e = end_position sc e)"
proof (cases "mobility_known (node_at sc m)")
  case None
  then have sc': "sc' = change_node m (\<lambda>v. v\<lparr>mobility_known := Some (mobility topo m \<noteq> None)\<rparr>) sc" and b: "b = (mobility topo m \<noteq> None)"
    using assms(3) by (auto simp: has_mobility_def)
  have "same_wiring sc sc'" unfolding sc' using assms(2) by (rule wiring_change_node) simp
  moreover have "mobility_remembered topo sc'" using assms(1) by (auto simp: mobility_remembered_def sc')
  ultimately show ?thesis using b by (simp add: sc' end_position_def node_position_def split: link_end.splits)
next
  case (Some x)
  with assms(1) have "x = (mobility topo m \<noteq> None)" by (auto simp: mobility_remembered_def dest: spec [of _ m])
  with Some assms show ?thesis by (auto simp: has_mobility_def)
qed

lemma in_place_same:
  assumes "links sc' = links sc" "\<forall>e. end_position sc' e = end_position sc e"
  shows "in_place sc' i = in_place sc i"
proof -
  have "node_position sc' n = node_position sc n" for n using assms(2) [rule_format, of "NodeEnd n"] by (simp add: end_position_def)
  then have "link_line sc' l = link_line sc l" for l using assms(2) by (simp add: link_line_def split: option.splits)
  then show ?thesis by (simp add: in_place_def assms(1))
qed

text \<open>One node: it is moved if it moves, and everything else stays.\<close>

definition moved_to :: "topology \<Rightarrow> nat \<Rightarrow> scene \<Rightarrow> scene \<Rightarrow> bool" where
  "moved_to topo n sc sc' \<longleftrightarrow> same_wiring sc sc' \<and> mobility_remembered topo sc'
     \<and> (\<forall>e. end_position sc' e = (case (e, mobility topo n) of
           (NodeEnd m, Some p) \<Rightarrow> if m = n then transform_point_simulation_to_canvas p else end_position sc e
         | _ \<Rightarrow> end_position sc e))
     \<and> (\<forall>i<length (links sc). wired (links sc ! i) \<longrightarrow>
           in_place sc i \<or> (mobility topo n \<noteq> None \<and> NodeEnd n \<in> ends_of (links sc ! i)) \<longrightarrow> in_place sc' i)"

lemma update_node_position_ok:
  assumes "scene_inv sc" "mobility_remembered topo sc" "known_node sc n"
  shows "moved_to topo n sc (fst (update_node_position topo fo follow (sc, v) n))"
proof -
  obtain b sc1 where h: "has_mobility (\<lambda>k. mobility topo k \<noteq> None) n sc = (b, sc1)"
    by (cases "has_mobility (\<lambda>k. mobility topo k \<noteq> None) n sc")
  note f = has_mobility_facts [OF assms(2,3) h]
  have same: "in_place sc1 i = in_place sc i" for i using f in_place_same by blast
  show ?thesis
  proof (cases "mobility topo n")
    case None
    then have "fst (update_node_position topo fo follow (sc, v) n) = sc1" using h f by (simp add: update_node_position_def)
    then show ?thesis using None f same by (simp add: moved_to_def split: link_end.splits)
  next
    case (Some p)
    define q where "q = transform_point_simulation_to_canvas p"
    have r: "fst (update_node_position topo fo follow (sc, v) n) = place (NodeEnd n, q) sc1"
      using h f Some by (simp add: update_node_position_def Let_def q_def)
    have inv: "scene_inv sc1" using f assms(1) scene_inv_wiring by blast
    have "known_end sc1 (NodeEnd n)" using f known_wiring [of sc sc1 "NodeEnd n"] assms(3) by simp
    then have "same_wiring sc1 (place (NodeEnd n, q) sc1)" by (intro wiring_place) simp
    then have w: "same_wiring sc (place (NodeEnd n, q) sc1)" using f same_wiring_trans by blast
    have "mobility_remembered topo (place (NodeEnd n, q) sc1)" using f by (simp add: mobility_remembered_def)
    moreover have "end_position (place (NodeEnd n, q) sc1) e = (if e = NodeEnd n then q else end_position sc e)" for e
      unfolding end_position_place using f by simp
    moreover have "in_place (place (NodeEnd n, q) sc1) i"
      if "i < length (links sc)" "wired (links sc ! i)" "in_place sc i \<or> NodeEnd n \<in> ends_of (links sc ! i)" for i
      using in_place_place [OF inv, of i "(NodeEnd n, q)"] that f same by simp
    ultimately show ?thesis using w Some unfolding moved_to_def r by (simp add: q_def split: link_end.splits)
  qed
qed

lemma update_node_positions_ok:
  assumes "scene_inv sc" "mobility_remembered topo sc" "\<forall>n\<in>set ns. known_node sc n"
    and "sc' = fst (foldl (update_node_position topo fo follow) (sc, v) ns)"
  shows "same_wiring sc sc' \<and> mobility_remembered topo sc'
     \<and> (\<forall>n p. n \<in> set ns \<and> mobility topo n = Some p \<longrightarrow> node_position sc' n = transform_point_simulation_to_canvas p)
     \<and> (\<forall>n. mobility topo n = None \<or> n \<notin> set ns \<longrightarrow> node_position sc' n = node_position sc n)
     \<and> (\<forall>c. end_position sc' (ChannelEnd c) = end_position sc (ChannelEnd c))
     \<and> (\<forall>i<length (links sc). wired (links sc ! i) \<longrightarrow>
          in_place sc i \<or> (\<exists>n\<in>set ns. mobility topo n \<noteq> None \<and> NodeEnd n \<in> ends_of (links sc ! i)) \<longrightarrow> in_place sc' i)"
  using assms
proof (induction ns arbitrary: sc v)
  case Nil
  then show ?case by simp
next
  case (Cons n ns)
  define sc1 where "sc1 = fst (update_node_position topo fo follow (sc, v) n)"
  have m: "moved_to topo n sc sc1" unfolding sc1_def using Cons.prems by (intro update_node_position_ok) auto
  then have w: "same_wiring sc sc1" "mobility_remembered topo sc1" by (simp_all add: moved_to_def)
  have inv: "scene_inv sc1" using w(1) Cons.prems(1) by (rule scene_inv_wiring)
  have k: "\<forall>n\<in>set ns. known_node sc1 n" using Cons.prems(3) known_wiring [OF w(1), of "NodeEnd _"] by simp
  obtain v1 where "update_node_position topo fo follow (sc, v) n = (sc1, v1)" by (cases "update_node_position topo fo follow (sc, v) n") (simp add: sc1_def)
  then have sc': "sc' = fst (foldl (update_node_position topo fo follow) (sc1, v1) ns)" using Cons.prems(4) by simp
  note IH = Cons.IH [OF inv w(2) k sc']
  have pos: "node_position sc1 x = (if x = n \<and> mobility topo n \<noteq> None then transform_point_simulation_to_canvas (the (mobility topo n)) else node_position sc x)" for x
    using m unfolding moved_to_def by (auto simp: end_position_def split: link_end.splits option.splits dest: spec [of _ "NodeEnd x"])
  have chan: "end_position sc1 (ChannelEnd c) = end_position sc (ChannelEnd c)" for c
    using m unfolding moved_to_def by auto
  have lnk: "in_place sc' i" if i: "i < length (links sc)" "wired (links sc ! i)"
    and d: "in_place sc i \<or> (\<exists>x\<in>set (n # ns). mobility topo x \<noteq> None \<and> NodeEnd x \<in> ends_of (links sc ! i))" for i
  proof -
    have e: "link_ends (links sc1 ! i) = link_ends (links sc ! i)" using same_wiring_nth [OF w(1) i(1)] .
    have "in_place sc1 i \<or> (\<exists>x\<in>set ns. mobility topo x \<noteq> None \<and> NodeEnd x \<in> ends_of (links sc1 ! i))"
      using m i d unfolding moved_to_def ends_of_link_ends [OF e] by auto
    moreover have "i < length (links sc1)" "wired (links sc1 ! i)"
      using i e same_wiring_length [OF w(1)] by (simp_all add: link_ends_def)
    ultimately show ?thesis using IH by blast
  qed
  have posn: "node_position sc' x = transform_point_simulation_to_canvas p" if "x \<in> set (n # ns)" "mobility topo x = Some p" for x p
  proof (cases "x \<in> set ns")
    case True
    with IH that(2) show ?thesis by blast
  next
    case False
    with IH have "node_position sc' x = node_position sc1 x" by blast
    with False that pos [of x] show ?thesis by auto
  qed
  have "same_wiring sc sc'" using w(1) IH same_wiring_trans by blast
  with IH posn lnk chan pos show ?case by auto
qed

lemma scene_ok_wires: "scene_ok topo S L sc \<Longrightarrow> l \<in> set (links sc) \<Longrightarrow> wired l"
proof -
  assume ok: "scene_ok topo S L sc" and l: "l \<in> set (links sc)"
  have "\<forall>x\<in>set (map link_ends (links sc)). fst x"
  proof -
    have "map link_ends (links sc) = map (\<lambda>(n, e). (True, Some n, Some e)) L" using ok by (simp add: scene_ok_def)
    moreover have "\<forall>x\<in>set (map (\<lambda>(n, e). (True, Some n, Some e)) L). fst x" by auto
    ultimately show ?thesis by metis
  qed
  with l show "wired l" by (simp add: link_ends_def)
qed

lemma scene_ok_empty: "scene_ok topo {} [] empty_scene"
  by (simp add: scene_ok_def scene_inv_empty) (simp add: empty_scene_def node_at_def)

text \<open>
  Claim C14.  Scanning a topology whose wired devices are all connected cannot fail.  The wires made
  are, in the order of the nodes and of their devices, one from the node to the channel of each
  device on a channel of more than two devices, and one to each other node of a channel of two;
  the nodes that move are placed where the simulation has them, the others where the layout put
  their vertex.
\<close>

theorem scan_topology_result:
  assumes "cabled topo table"
  shows "\<exists>st g. scan_topology topo f parse layout table empty_scene = Inr st
    \<and> map link_ends (links (scan_scene st)) =
        map (\<lambda>(n, e). (True, Some n, Some e)) (concat (map (node_wires topo table) [0..<node_count topo]))
    \<and> (\<forall>n<node_count topo. node_position (scan_scene st) n =
         (case mobility topo n of
            Some p \<Rightarrow> transform_point_simulation_to_canvas p
          | None \<Rightarrow> layout g (node_vertex n)))"
proof -
  from scan_topology_ok [OF assms scene_ok_empty, of f parse layout] obtain st g where
    st: "scan_topology topo f parse layout table empty_scene = Inr st"
      "scene_ok topo {..<node_count topo} (concat (map (node_wires topo table) [0..<node_count topo])) (scan_scene st)"
      "\<forall>n<node_count topo. mobility topo n = None \<longrightarrow> node_vertex n \<in> set (vertices g)
         \<and> node_position (scan_scene st) n = layout g (node_vertex n)"
    by blast
  then have "\<forall>n<node_count topo. node_position (scan_scene st) n =
      (case mobility topo n of Some p \<Rightarrow> transform_point_simulation_to_canvas p | None \<Rightarrow> layout g (node_vertex n))"
    by (auto simp: scene_ok_def split: option.splits)
  with st show ?thesis unfolding scene_ok_def by blast
qed

text \<open>
  Claim C15.  After the scan and the first update of the positions every wire is drawn from the place
  of its node to the place of its other end, whether these come from the simulation or from the
  layout.
\<close>

theorem first_view_drawn:
  assumes "cabled topo table" "scan_topology topo f parse layout table empty_scene = Inr st"
    and "sc = fst (update_node_positions topo follow_node follow (scan_scene st, v))"
  shows "\<forall>l\<in>set (links sc). \<exists>n e. end1 l = Some n \<and> end2 l = Some e
     \<and> drawn l = Some (node_position sc n, end_position sc e)"
proof -
  from scan_topology_ok [OF assms(1) scene_ok_empty, of f parse layout] assms(2) obtain L where
    ok: "scene_ok topo {..<node_count topo} L (scan_scene st)" and
    cover: "\<forall>i<length (links (scan_scene st)). wired (links (scan_scene st) ! i) \<longrightarrow>
      (\<exists>n. end1 (links (scan_scene st) ! i) = Some n \<and> n < node_count topo \<and> (mobility topo n = None \<longrightarrow> in_place (scan_scene st) i))"
    by auto
  let ?s = "scan_scene st"
  have inv: "scene_inv ?s" and mob: "mobility_remembered topo ?s" and wires: "\<forall>l\<in>set (links ?s). wired l"
    using ok scene_ok_wires [OF ok] by (simp_all add: scene_ok_def mobility_remembered_def)
  have keys: "n \<in> set (dkeys (nodes ?s)) \<longleftrightarrow> known_node ?s n" for n by (auto simp: known_node_def)
  have sc: "sc = fst (foldl (update_node_position topo follow_node follow) (?s, v) (dkeys (nodes ?s)))"
    using assms(3) by (simp add: update_node_positions_def)
  from update_node_positions_ok [OF inv mob _ sc] keys
  have w: "same_wiring ?s sc" and pl: "\<forall>i<length (links ?s). wired (links ?s ! i) \<longrightarrow>
      in_place ?s i \<or> (\<exists>n\<in>set (dkeys (nodes ?s)). mobility topo n \<noteq> None \<and> NodeEnd n \<in> ends_of (links ?s ! i)) \<longrightarrow> in_place sc i"
    by blast+
  have inv': "scene_inv sc" using w inv by (rule scene_inv_wiring)
  show ?thesis
  proof
    fix l assume "l \<in> set (links sc)"
    then obtain i where i: "i < length (links sc)" "l = links sc ! i" by (metis in_set_conv_nth)
    have i': "i < length (links ?s)" "wired (links ?s ! i)" using i(1) same_wiring_length [OF w] wires by simp_all
    have e: "link_ends l = link_ends (links ?s ! i)" using same_wiring_nth [OF w i'(1)] i(2) by simp
    from cover [rule_format, OF i'] obtain n where
      n: "end1 (links ?s ! i) = Some n" "n < node_count topo" "mobility topo n = None \<longrightarrow> in_place ?s i"
      by (elim exE conjE)
    have "known_node ?s n" using ok n(2) by (simp add: scene_ok_def)
    then have "n \<in> set (dkeys (nodes ?s))" using keys by blast
    moreover have "NodeEnd n \<in> ends_of (links ?s ! i)" using n(1) by (simp add: ends_of_def)
    ultimately have "in_place ?s i \<or> (\<exists>m\<in>set (dkeys (nodes ?s)). mobility topo m \<noteq> None \<and> NodeEnd m \<in> ends_of (links ?s ! i))"
      using n(3) by blast
    then have "in_place sc i" using pl [rule_format, OF i'] by blast
    moreover have "wired l" using e i'(2) by (simp add: link_ends_def)
    moreover have "link_registered sc i l" using inv' i by (simp add: scene_inv_def)
    ultimately show "\<exists>n e. end1 l = Some n \<and> end2 l = Some e \<and> drawn l = Some (node_position sc n, end_position sc e)"
      by (auto simp: link_registered_def in_place_def link_line_def i(2))
  qed
qed

text \<open>Two nodes on a point-to-point channel, of which the first moves.\<close>

definition pair_topology :: topology where
  "pair_topology = \<lparr>node_count = 2, mobility = (\<lambda>n. if n = 0 then Some (1, 2) else None),
     devices = (\<lambda>n. [\<lparr>device_type = ''PointToPointNetDevice'', device_channel = Some 7\<rparr>]),
     channel_devices = (\<lambda>c. [0, 1])\<rparr>"

definition wire_traits :: "(string, traits) dict" where
  "wire_traits = [(''PointToPointNetDevice'', \<lparr>is_wireless = Some False, is_virtual = False\<rparr>)]"

definition pair_layout :: "agraph \<Rightarrow> string \<Rightarrow> point" where
  "pair_layout g v = (30, 40)"

lemma pair_cabled: "cabled pair_topology wire_traits"
  by (simp add: cabled_def pair_topology_def)

text \<open>The link between the two is made twice, once from either side.\<close>

lemma pair_wires:
  "concat (map (node_wires pair_topology wire_traits) [0..<2]) = [(0, NodeEnd 1), (1, NodeEnd 0)]"
  by code_simp

theorem scan_topology_result_witness:
  "\<exists>st. scan_topology pair_topology ''v'' (\<lambda>_. (0, 0, 0)) pair_layout wire_traits empty_scene = Inr st
     \<and> length (links (scan_scene st)) = 2 \<and> node_position (scan_scene st) 0 = (3, 6)"
proof -
  have c: "node_count pair_topology = 2" "mobility pair_topology 0 = Some (1, 2)" by (simp_all add: pair_topology_def)
  from scan_topology_result [OF pair_cabled, of "''v''" "\<lambda>_. (0, 0, 0)" pair_layout] obtain st where
    st: "scan_topology pair_topology ''v'' (\<lambda>_. (0, 0, 0)) pair_layout wire_traits empty_scene = Inr st"
      "map link_ends (links (scan_scene st)) =
        map (\<lambda>(n, e). (True, Some n, Some e)) (concat (map (node_wires pair_topology wire_traits) [0..<2]))"
      "\<forall>n<2. node_position (scan_scene st) n = (case mobility pair_topology n of
            Some p \<Rightarrow> transform_point_simulation_to_canvas p | None \<Rightarrow> pair_layout undefined (node_vertex n))"
    unfolding c(1) pair_layout_def by blast
  have "length (links (scan_scene st)) = 2" using arg_cong [OF st(2), of length] by (simp add: pair_wires)
  moreover have "node_position (scan_scene st) 0 = (3, 6)"
    using st(3) c(2) by (simp add: transform_point_simulation_to_canvas_def PIXELS_PER_METER_def)
  ultimately show ?thesis using st(1) by blast
qed

definition pair_scan :: "py_error + scan" where
  "pair_scan = scan_topology pair_topology ''v'' (\<lambda>_. (0, 0, 0)) pair_layout wire_traits empty_scene"

theorem first_view_drawn_witness:
  "case pair_scan of Inl e \<Rightarrow> False | Inr st \<Rightarrow>
     filter (\<lambda>l. drawn l = None) (links (fst (update_node_positions pair_topology None (\<lambda>p v. v) (scan_scene st, ())))) = []"
proof -
  obtain st where st: "pair_scan = Inr st"
    using scan_topology_ok [OF pair_cabled scene_ok_empty, of "''v''" "\<lambda>_. (0, 0, 0)" pair_layout] unfolding pair_scan_def by blast
  from first_view_drawn [OF pair_cabled st [unfolded pair_scan_def] refl, of None "\<lambda>p v. v" "()"]
  show ?thesis by (auto simp: st filter_empty_conv)
qed

text \<open>
  A channel is shown as soon as one of its nodes is scanned, but only a node that does not move makes
  it a vertex of the graph: a channel whose nodes all move is placed by nobody and stays at the
  origin of the canvas.
\<close>

lemma moving_channel_unplaced:
  assumes "mobility topo n \<noteq> None" "2 < length (channel_devices topo c)"
  shows "scan_graph (scan_channel topo n st c) = scan_graph st \<and> known_channel (scan_scene (scan_channel topo n st c)) c
     \<and> end_position (scan_scene (scan_channel topo n st c)) (ChannelEnd c) = end_position (scan_scene st) (ChannelEnd c)"
proof -
  have "known_end (create_link n (ChannelEnd c) sc) (ChannelEnd c)" for sc unfolding known_end_create by simp
  with assms show ?thesis
    by (auto simp: scan_channel_def REPRESENT_CHANNELS_AS_NODES_def Let_def end_position_def)
qed

end
