(* ===== verification/VizHud.thy ===== *)
theory VizHud
  imports VizBase
begin

text \<open>
  The axes of the visualizer, \<open>visualizer/hud.py\<close>: where the marks are (\<open>_compute_divisions\<close>) and
  how \<open>update_view\<close> draws them and reuses its labels.  A path \<open>M x y L x y\<close> is a pair of points, and
  the number a label shows is kept as a number.
\<close>

section \<open>The length of a division\<close>

definition pow10 :: "int \<Rightarrow> rat" where
  "pow10 k = (if 0 \<le> k then 10 ^ nat k else 1 / 10 ^ nat (- k))"

lemma pow10_pos [simp]: "0 < pow10 k"
  by (simp add: pow10_def)

lemma pow10_real: "real_of_rat (pow10 k) = 10 powr of_int k"
proof (cases "0 \<le> k")
  case True
  then show ?thesis by (simp add: pow10_def of_rat_power powr_realpow [symmetric])
next
  case False
  then have "10 powr real_of_int k = inverse (10 powr real_of_int (- k))" by (simp add: powr_minus)
  also have "10 powr real_of_int (- k) = 10 ^ nat (- k)" using False by (simp add: powr_realpow [symmetric])
  finally show ?thesis using False by (simp add: pow10_def of_rat_divide of_rat_power inverse_eq_divide)
qed

text \<open>
  \<open>rint(math.log10(d))\<close>, where \<open>rint(x)\<close> is \<open>math.floor(x+0.5)\<close>: the search compares the square of
  \<open>d\<close> with the odd powers of ten, whose roots are the places where the result changes.
\<close>

definition rint_log10_spec :: "rat \<Rightarrow> int" where
  "rint_log10_spec d = \<lfloor>log 10 (real_of_rat d) + 1 / 2\<rfloor>"

lemma less_square_log:
  assumes "0 < d"
  shows "d * d < pow10 (2 * k - 1) \<longleftrightarrow> rint_log10_spec d < k"
proof -
  have pos: "0 < real_of_rat d" using assms by simp
  have "d * d < pow10 (2 * k - 1) \<longleftrightarrow> real_of_rat (d * d) < real_of_rat (pow10 (2 * k - 1))"
    by (simp only: of_rat_less)
  also have "\<dots> \<longleftrightarrow> real_of_rat d * real_of_rat d < 10 powr (2 * real_of_int k - 1)"
    by (simp add: pow10_real of_rat_mult)
  also have "\<dots> \<longleftrightarrow> log 10 (real_of_rat d * real_of_rat d) < 2 * real_of_int k - 1"
    using pos by (subst log_less_iff) auto
  also have "\<dots> \<longleftrightarrow> log 10 (real_of_rat d) + 1 / 2 < real_of_int k"
    using pos by (simp add: log_mult) (auto simp: field_simps)
  also have "\<dots> \<longleftrightarrow> rint_log10_spec d < k"
    by (simp add: rint_log10_spec_def floor_less_iff)
  finally show ?thesis .
qed

function rint_log10_from :: "int \<Rightarrow> rat \<Rightarrow> int" where
  "rint_log10_from k d =
     (if d \<le> 0 then k
      else if d * d < pow10 (2 * k - 1) then rint_log10_from (k - 1) d
      else if pow10 (2 * (k + 1) - 1) \<le> d * d then rint_log10_from (k + 1) d
      else k)"
  by pat_completeness auto
termination
proof (relation "measure (\<lambda>(k, d). nat \<bar>k - rint_log10_spec d\<bar>)")
  fix k :: int and d :: rat
  assume "\<not> d \<le> 0"
  then have d: "0 < d" by simp
  show "((k - 1, d), k, d) \<in> measure (\<lambda>(k, d). nat \<bar>k - rint_log10_spec d\<bar>)" if "d * d < pow10 (2 * k - 1)"
    using that less_square_log [OF d, of k] by simp
  show "((k + 1, d), k, d) \<in> measure (\<lambda>(k, d). nat \<bar>k - rint_log10_spec d\<bar>)"
    if "\<not> d * d < pow10 (2 * k - 1)" "pow10 (2 * (k + 1) - 1) \<le> d * d"
    using that less_square_log [OF d, of "k + 1"] by (simp add: not_less [symmetric])
qed simp

declare rint_log10_from.simps [simp del]

lemma rint_log10_from_eq: "0 < d \<Longrightarrow> rint_log10_from k d = rint_log10_spec d"
proof (induction k d rule: rint_log10_from.induct)
  case (1 k d)
  show ?case
  proof (cases "d * d < pow10 (2 * k - 1)")
    case True
    with 1 show ?thesis by (subst rint_log10_from.simps) simp
  next
    case False
    with 1 less_square_log [of d k] less_square_log [of d "k + 1"] show ?thesis
      by (subst rint_log10_from.simps) (auto simp: not_less [symmetric])
  qed
qed

definition rint_log10 :: "rat \<Rightarrow> int" where
  "rint_log10 d = rint_log10_from 0 d"

lemma rint_log10_bounds:
  assumes "0 < d"
  shows "pow10 (2 * rint_log10 d - 1) \<le> d * d" "d * d < pow10 (2 * rint_log10 d + 1)"
  using less_square_log [OF assms, of "rint_log10 d"] less_square_log [OF assms, of "rint_log10 d + 1"]
  by (simp_all add: rint_log10_def rint_log10_from_eq [OF assms] not_less [symmetric] add.commute)

definition rint :: "rat \<Rightarrow> int" where
  "rint x = \<lfloor>x + 1 / 2\<rfloor>"

definition fit_division :: "rat \<Rightarrow> rat" where
  "fit_division d =
     (let dv = pow10 (rint_log10 d)
      in if \<bar>dv / 2 - d\<bar> < \<bar>dv - d\<bar> then dv / 2
         else if \<bar>dv * 2 - d\<bar> < \<bar>dv - d\<bar> then dv * 2
         else dv)"

text \<open>
  \<open>_compute_divisions\<close>: five turns of the loop, of which the last three set \<open>ndiv\<close>, which nothing
  reads afterwards.
\<close>

definition division_turn :: "rat \<Rightarrow> rat \<Rightarrow> rat \<Rightarrow> rat \<Rightarrow> (rat \<times> (rat \<times> rat) option) \<Rightarrow> nat \<Rightarrow> py_error + (rat \<times> (rat \<times> rat) option)" where
  "division_turn dx_over_ndiv sz text_width xi st n =
     (let (ndiv, _) = st;
          dv = fit_division dx_over_ndiv;
          x0 = dv * of_int \<lceil>xi / dv\<rceil> - dv
      in rbind (if n > 1 then rbind (true_div sz text_width) (\<lambda>q. Inr (of_int (rint q))) else Inr ndiv) (\<lambda>ndiv.
         Inr (ndiv, Some (x0, dv))))"

definition compute_divisions :: "rat \<Rightarrow> rat \<Rightarrow> py_error + (rat \<times> rat)" where
  "compute_divisions xi xf =
     (if \<not> xf > xi then Inl AssertionError
      else
        let dx = xf - xi; ndiv = 5; text_width = dx / ndiv / 2
        in rbind (for_each (division_turn (dx / ndiv) dx text_width xi) (ndiv, None) [0..<5]) (\<lambda>(_, r).
           case r of None \<Rightarrow> Inl UnboundLocalError | Some x \<Rightarrow> Inr x))"

lemma compute_divisions_eq:
  assumes "xi < xf"
  shows "compute_divisions xi xf =
    (let dv = fit_division ((xf - xi) / 5) in Inr (dv * of_int \<lceil>xi / dv\<rceil> - dv, dv))"
proof -
  have "[0..<5] = [0, 1, 2, 3, Suc 3]" by (simp add: upt_conv_Cons)
  then show ?thesis using assms
    by (simp add: compute_divisions_def Let_def division_turn_def true_div_def)
qed

lemma pow10_odd: "pow10 (2 * k - 1) * 10 = pow10 k * pow10 k" "pow10 (2 * k + 1) = pow10 k * pow10 k * 10"
proof -
  have "real_of_rat (pow10 (2 * k - 1) * 10) = real_of_rat (pow10 k * pow10 k)"
    by (simp add: pow10_real of_rat_mult powr_diff powr_add [symmetric])
  then show "pow10 (2 * k - 1) * 10 = pow10 k * pow10 k" by (simp only: of_rat_eq_iff)
  have "real_of_rat (pow10 (2 * k + 1)) = real_of_rat (pow10 k * pow10 k * 10)"
    by (simp add: pow10_real of_rat_mult powr_add [symmetric])
      (simp add: powr_add)
  then show "pow10 (2 * k + 1) = pow10 k * pow10 k * 10" by (simp only: of_rat_eq_iff)
qed

lemma fit_division_bounds:
  assumes "0 < d"
  shows "0 < fit_division d" "3 * fit_division d < 5 * d" "5 * d < 8 * fit_division d"
proof -
  define w where "w = pow10 (rint_log10 d)"
  have w: "0 < w" by (simp add: w_def)
  have lo: "w * w \<le> 10 * (d * d)" and hi: "d * d < 10 * (w * w)"
    using rint_log10_bounds [OF assms] pow10_odd [of "rint_log10 d"] by (simp_all add: w_def)
  have pos: "0 < d * d" "0 < w * w" using assms w by simp_all
  have lo': "3 * w < 10 * d"
  proof (rule ccontr)
    assume "\<not> 3 * w < 10 * d"
    then have "(10 * d) * (10 * d) \<le> (3 * w) * (3 * w)" using assms w by - (rule mult_mono, auto)
    then have "100 * (d * d) \<le> 9 * (w * w)" by (simp add: algebra_simps)
    with lo pos show False by linarith
  qed
  have hi': "5 * d < 16 * w"
  proof (rule ccontr)
    assume "\<not> 5 * d < 16 * w"
    then have "(16 * w) * (16 * w) \<le> (5 * d) * (5 * d)" using assms w by - (rule mult_mono, auto)
    then have "256 * (w * w) \<le> 25 * (d * d)" by (simp add: algebra_simps)
    with hi pos show False by linarith
  qed
  show "0 < fit_division d" "3 * fit_division d < 5 * d" "5 * d < 8 * fit_division d"
    using w lo' hi' by (auto simp: fit_division_def w_def [symmetric] Let_def abs_if split: if_splits)
qed

section \<open>The marks\<close>

function marks_from :: "rat \<Rightarrow> rat \<Rightarrow> rat \<Rightarrow> rat list" where
  "marks_from x xf dv = (if 0 < dv \<and> x < xf then x # marks_from (x + dv) xf dv else [])"
  by pat_completeness auto
termination
proof (relation "measure (\<lambda>(x, xf, dv). nat \<lceil>(xf - x) / dv\<rceil>)")
  fix x xf dv :: rat
  assume "0 < dv \<and> x < xf"
  then have "(xf - (x + dv)) / dv = (xf - x) / dv - 1" "0 < (xf - x) / dv"
    by (simp_all add: field_simps)
  moreover have "\<lceil>(xf - x) / dv - 1\<rceil> = \<lceil>(xf - x) / dv\<rceil> - 1" by simp
  ultimately show "((x + dv, xf, dv), x, xf, dv) \<in> measure (\<lambda>(x, xf, dv). nat \<lceil>(xf - x) / dv\<rceil>)"
    by simp
qed simp

declare marks_from.simps [simp del]

lemma marks_from_length:
  "0 < dv \<Longrightarrow> int (length (marks_from x xf dv)) = max 0 \<lceil>(xf - x) / dv\<rceil>"
proof (induction x xf dv rule: marks_from.induct)
  case (1 x xf dv)
  have step: "(xf - (x + dv)) / dv = (xf - x) / dv - 1" using 1(2) by (simp add: field_simps)
  show ?case
  proof (cases "x < xf")
    case True
    then have "0 < (xf - x) / dv" using 1(2) by simp
    then have "0 < \<lceil>(xf - x) / dv\<rceil>" by (simp only: zero_less_ceiling)
    with 1 True step show ?thesis by (subst marks_from.simps) simp
  next
    case False
    then have "(xf - x) / dv \<le> 0" using 1(2) by (simp add: divide_nonpos_pos)
    then have "\<lceil>(xf - x) / dv\<rceil> \<le> 0" by (simp only: ceiling_le_zero)
    with False show ?thesis by (subst marks_from.simps) simp
  qed
qed

lemma marks_from_nth:
  "0 < dv \<Longrightarrow> i < length (marks_from x xf dv) \<Longrightarrow> marks_from x xf dv ! i = x + of_nat i * dv"
proof (induction x xf dv arbitrary: i rule: marks_from.induct)
  case (1 x xf dv)
  then show ?case
    by (cases "x < xf"; cases i) (simp_all add: marks_from.simps [of x xf dv] algebra_simps)
qed

lemma marks_from_mem:
  assumes "0 < dv" "x + of_nat i * dv < xf"
  shows "x + of_nat i * dv \<in> set (marks_from x xf dv)"
proof -
  have "of_nat i < (xf - x) / dv" using assms by (simp add: field_simps)
  then have "int i < \<lceil>(xf - x) / dv\<rceil>" by (simp add: less_ceiling_iff)
  then have "i < length (marks_from x xf dv)" using marks_from_length [OF assms(1), of x xf] by simp
  then show ?thesis using marks_from_nth [OF assms(1)] nth_mem by metis
qed

lemma division_facts:
  assumes "xi < xf"
  obtains c dv where "compute_divisions xi xf = Inr (of_int (c - 1) * dv, dv)" "0 < dv"
    "3 * dv < xf - xi" "xf - xi < 8 * dv" "xi \<le> of_int c * dv" "of_int c * dv < xi + dv"
proof -
  define dv where "dv = fit_division ((xf - xi) / 5)"
  define c where "c = \<lceil>xi / dv\<rceil>"
  have dv: "0 < dv" "3 * dv < xf - xi" "xf - xi < 8 * dv"
    using fit_division_bounds [of "(xf - xi) / 5"] assms by (simp_all add: dv_def)
  have "xi / dv \<le> of_int c" "of_int c < xi / dv + 1"
    using ceiling_correct [of "xi / dv"] by (auto simp: c_def)
  then have "xi \<le> of_int c * dv" "of_int c * dv < xi + dv" using dv(1) by (simp_all add: field_simps)
  moreover have "compute_divisions xi xf = Inr (of_int (c - 1) * dv, dv)"
    using compute_divisions_eq [OF assms] by (simp add: Let_def dv_def c_def algebra_simps)
  ultimately show thesis using that dv by blast
qed

lemma marks_count:
  assumes "0 < dv" "3 * dv < xf - xi" "xf - xi < 8 * dv" "xi - dv \<le> x0" "x0 < xi"
  shows "4 \<le> length (marks_from x0 xf dv) \<and> length (marks_from x0 xf dv) \<le> 9"
proof -
  have "3 < (xf - x0) / dv" "(xf - x0) / dv \<le> 9"
    using assms by (simp_all add: field_simps)
  then have "3 < \<lceil>(xf - x0) / dv\<rceil>" "\<lceil>(xf - x0) / dv\<rceil> \<le> 9"
    by (simp_all add: less_ceiling_iff ceiling_le_iff)
  then show ?thesis using marks_from_length [OF assms(1), of x0 xf] by linarith
qed

lemma divisions_count:
  assumes "xi < xf"
  obtains x0 dv where "compute_divisions xi xf = Inr (x0, dv)" "length (marks_from x0 xf dv) \<in> {4..9}"
proof -
  from division_facts [OF assms] obtain c dv where c: "compute_divisions xi xf = Inr (of_int (c - 1) * dv, dv)" "0 < dv"
    "3 * dv < xf - xi" "xf - xi < 8 * dv" "xi \<le> of_int c * dv" "of_int c * dv < xi + dv" by blast
  have "xi - dv \<le> of_int (c - 1) * dv" "of_int (c - 1) * dv < xi" using c(5,6) by (simp_all add: algebra_simps)
  with marks_count [OF c(2,3,4)] have "length (marks_from (of_int (c - 1) * dv) xf dv) \<in> {4..9}" by simp
  with c(1) show thesis by (rule that)
qed

text \<open>
  Claim C21.  For every interval the division is found, and the marks of the axis are multiples of
  it: all that lie in the interval and one more before it, so that there are at least four and at
  most nine.
\<close>

theorem axis_marks:
  assumes "xi < xf"
  shows "\<exists>x0 dv. compute_divisions xi xf = Inr (x0, dv) \<and> 0 < dv
     \<and> 4 \<le> length (marks_from x0 xf dv) \<and> length (marks_from x0 xf dv) \<le> 9
     \<and> (\<forall>z. xi - dv \<le> of_int z * dv \<and> of_int z * dv < xf \<longleftrightarrow> of_int z * dv \<in> set (marks_from x0 xf dv))
     \<and> (\<forall>m\<in>set (marks_from x0 xf dv). \<exists>z. m = of_int z * dv)"
proof -
  from division_facts [OF assms] obtain c dv where c: "compute_divisions xi xf = Inr (of_int (c - 1) * dv, dv)"
    and dv: "0 < dv" "3 * dv < xf - xi" "xf - xi < 8 * dv"
    and b: "xi \<le> of_int c * dv" "of_int c * dv < xi + dv" by blast
  define x0 where "x0 = of_int (c - 1) * dv"
  have x0: "xi - dv \<le> x0" "x0 < xi" using b by (simp_all add: x0_def algebra_simps)
  have nth: "x0 + of_nat i * dv = of_int (c - 1 + int i) * dv" for i by (simp add: x0_def algebra_simps)
  have mult: "\<exists>z. m = of_int z * dv \<and> xi - dv \<le> m \<and> m < xf" if "m \<in> set (marks_from x0 xf dv)" for m
  proof -
    from that obtain i where i: "i < length (marks_from x0 xf dv)" "m = x0 + of_nat i * dv"
      using marks_from_nth [OF dv(1)] by (metis in_set_conv_nth)
    then have "int i < \<lceil>(xf - x0) / dv\<rceil>" using marks_from_length [OF dv(1), of x0 xf] by simp
    then have "of_nat i < (xf - x0) / dv" by (simp add: less_ceiling_iff)
    then have "m < xf" using dv(1) i(2) by (simp add: field_simps)
    moreover have "xi - dv \<le> m" using x0(1) i(2) dv(1) by (simp add: add_increasing2)
    ultimately show ?thesis using i(2) nth by blast
  qed
  have mem: "of_int z * dv \<in> set (marks_from x0 xf dv)" if z: "xi - dv \<le> of_int z * dv" "of_int z * dv < xf" for z
  proof -
    have "of_int (c - 2) * dv < of_int z * dv" using b(2) z(1) by (simp add: algebra_simps)
    then have "c - 2 < z" using dv(1) by (simp only: mult_less_cancel_right_pos of_int_less_iff)
    then have "of_int z * dv = x0 + of_nat (nat (z - (c - 1))) * dv" by (simp add: x0_def algebra_simps)
    with z(2) marks_from_mem [OF dv(1), of x0 "nat (z - (c - 1))" xf] show ?thesis by simp
  qed
  have "compute_divisions xi xf = Inr (x0, dv)" using c by (simp only: x0_def)
  with dv marks_count [OF dv x0] mem mult show ?thesis by blast
qed

theorem axis_marks_witness:
  "\<exists>x0 dv. compute_divisions 0 100 = Inr (x0, dv) \<and> length (marks_from x0 100 dv) \<le> 9"
  using axis_marks [of 0 100] by auto

section \<open>Drawing the axes\<close>

record label =
  label_visible :: bool
  label_shows :: rat
  label_at :: point

record axes =
  axes_visible :: bool
  hlines_visible :: bool
  vlines_visible :: bool
  axis_width :: rat
  hlines :: "(point \<times> point) list"
  vlines :: "(point \<times> point) list"
  labels :: "label list"

text \<open>The scroll bars, the zoom and the conversion of GooCanvas from pixels to the canvas.\<close>

record viewport =
  h_value :: rat
  h_page :: rat
  v_value :: rat
  v_page :: rat
  zoom :: "rat option"
  from_pixels :: "point \<Rightarrow> point"

definition hide :: "label \<Rightarrow> label" where
  "hide l = l\<lparr>label_visible := False\<rparr>"

definition hud_set_visible :: "bool \<Rightarrow> axes \<Rightarrow> axes" where
  "hud_set_visible v a =
     (let a = a\<lparr>axes_visible := v\<rparr>
      in if v then a\<lparr>hlines_visible := True, vlines_visible := True\<rparr>
         else a\<lparr>hlines_visible := False, vlines_visible := False, labels := map hide (labels a)\<rparr>)"

text \<open>\<open>get_label\<close> takes a label from the unused ones, or makes one, and adds it to \<open>labels\<close>.\<close>

definition get_label :: "label list \<times> label list \<Rightarrow> label \<times> label list" where
  "get_label st =
     (case fst st of
        [] \<Rightarrow> (\<lparr>label_visible = True, label_shows = 0, label_at = (0, 0)\<rparr>, [])
      | l # unused \<Rightarrow> (l\<lparr>label_visible := True\<rparr>, unused))"

definition draw_mark :: "(rat \<Rightarrow> point \<times> point) \<Rightarrow> (rat \<Rightarrow> point) \<Rightarrow>
    (point \<times> point) list \<times> label list \<times> label list \<Rightarrow> rat \<Rightarrow> (point \<times> point) list \<times> label list \<times> label list" where
  "draw_mark seg pos st x =
     (case st of (path, unused, used) \<Rightarrow>
        (case get_label (unused, used) of (l, unused) \<Rightarrow>
           (path @ [seg x], unused, used @ [l\<lparr>label_shows := x, label_at := pos x\<rparr>])))"

definition hud_update_view :: "viewport \<Rightarrow> axes \<Rightarrow> py_error + axes" where
  "hud_update_view vp a =
     (case zoom vp of None \<Rightarrow> Inr a | Some z \<Rightarrow>
        let unused = map hide (labels a) in
        rbind (true_div 10 z) (\<lambda>offset.
        rbind (true_div 5 z) (\<lambda>width.
        let (x1, y1) = from_pixels vp (h_value vp, v_value vp);
            (x2, y2) = from_pixels vp (h_value vp + h_page vp, v_value vp + v_page vp);
            yc = y2 - width / 2;
            sim_x2 = x2 / PIXELS_PER_METER
        in rbind (compute_divisions (x1 / PIXELS_PER_METER) sim_x2) (\<lambda>(x0, xdiv).
        let (hpath, unused, used) = foldl
              (draw_mark (\<lambda>x. ((PIXELS_PER_METER * x, yc - offset), (PIXELS_PER_METER * x, yc)))
                 (\<lambda>x. (PIXELS_PER_METER * x, yc - offset)))
              ([((x1, yc), (x2, yc))], unused, []) (marks_from x0 sim_x2 xdiv);
            xc = x1 + width / 2;
            sim_y2 = y2 / PIXELS_PER_METER
        in rbind (compute_divisions (y1 / PIXELS_PER_METER) sim_y2) (\<lambda>(y0, ydiv).
        let (vpath, unused, used) = foldl
              (draw_mark (\<lambda>y. ((xc, PIXELS_PER_METER * y), (xc + offset, PIXELS_PER_METER * y)))
                 (\<lambda>y. (xc + offset, PIXELS_PER_METER * y)))
              ([((xc, y1), (xc, y2))], unused, used) (marks_from y0 sim_y2 ydiv)
        in Inr (a\<lparr>axis_width := width, hlines := hpath, vlines := vpath, labels := used @ unused\<rparr>))))))"

text \<open>The callback of the scroll bars.\<close>

definition hud_scrolled :: "viewport \<Rightarrow> axes \<Rightarrow> py_error + axes" where
  "hud_scrolled vp a = (if axes_visible a then hud_update_view vp a else Inr a)"

lemma draw_marks:
  "foldl (draw_mark seg pos) (path, unused, used) xs =
     (path @ map seg xs, drop (length xs) unused,
      used @ map (\<lambda>x. \<lparr>label_visible = True, label_shows = x, label_at = pos x\<rparr>) xs)"
proof (induction xs arbitrary: path unused used)
  case Nil
  then show ?case by simp
next
  case (Cons x xs)
  have "draw_mark seg pos (path, unused, used) x =
    (path @ [seg x], drop 1 unused, used @ [\<lparr>label_visible = True, label_shows = x, label_at = pos x\<rparr>])"
    by (cases unused; cases "hd unused") (simp_all add: draw_mark_def get_label_def)
  then show ?case by (simp add: Cons)
qed

lemma visible_prefix:
  "filter label_visible (map (\<lambda>x. \<lparr>label_visible = True, label_shows = x, label_at = pos x\<rparr>) xs) =
     map (\<lambda>x. \<lparr>label_visible = True, label_shows = x, label_at = pos x\<rparr>) xs"
  by (induction xs) simp_all

lemma no_hidden: "filter label_visible (drop n (map hide ls)) = []"
  by (simp add: drop_map filter_empty_conv hide_def)

text \<open>
  When the canvas shows a proper rectangle, drawing the axes cannot fail; the labels one
  sees are one for each mark of either axis, with its number and at its place, labels that are not
  needed are kept but hidden, and a label is only made when none is left over: there are at most
  eighteen more, whatever was drawn before.
\<close>

theorem axes_labels:
  assumes "zoom vp = Some z" "z \<noteq> 0"
    and "from_pixels vp (h_value vp, v_value vp) = (x1, y1)"
    and "from_pixels vp (h_value vp + h_page vp, v_value vp + v_page vp) = (x2, y2)"
    and "x1 < x2" "y1 < y2"
  shows "\<exists>a' xs ys. hud_update_view vp a = Inr a'
     \<and> map label_shows (filter label_visible (labels a')) = xs @ ys
     \<and> length (hlines a') = Suc (length xs) \<and> length (vlines a') = Suc (length ys)
     \<and> length xs \<in> {4..9} \<and> length ys \<in> {4..9}
     \<and> length (labels a') = max (length (labels a)) (length xs + length ys)
     \<and> (\<forall>l\<in>set (labels a'). label_visible l \<longrightarrow>
          fst (label_at l) = PIXELS_PER_METER * label_shows l \<or> snd (label_at l) = PIXELS_PER_METER * label_shows l)"
proof -
  have "x1 / PIXELS_PER_METER < x2 / PIXELS_PER_METER" "y1 / PIXELS_PER_METER < y2 / PIXELS_PER_METER"
    using assms(5,6) by (simp_all add: PIXELS_PER_METER_def)
  then obtain x0 xdiv y0 ydiv where
    x: "compute_divisions (x1 / PIXELS_PER_METER) (x2 / PIXELS_PER_METER) = Inr (x0, xdiv)"
      "length (marks_from x0 (x2 / PIXELS_PER_METER) xdiv) \<in> {4..9}" and
    y: "compute_divisions (y1 / PIXELS_PER_METER) (y2 / PIXELS_PER_METER) = Inr (y0, ydiv)"
      "length (marks_from y0 (y2 / PIXELS_PER_METER) ydiv) \<in> {4..9}"
    by (metis divisions_count)
  define xs where "xs = marks_from x0 (x2 / PIXELS_PER_METER) xdiv"
  define ys where "ys = marks_from y0 (y2 / PIXELS_PER_METER) ydiv"
  define w f g where "w = 5 / z" and "f = y2 - w / 2 - 10 / z" and "g = x1 + w / 2 + 10 / z"
  define a' where "a' = a\<lparr>axis_width := w,
    hlines := ((x1, y2 - w / 2), (x2, y2 - w / 2)) # map (\<lambda>x. ((PIXELS_PER_METER * x, f), (PIXELS_PER_METER * x, y2 - w / 2))) xs,
    vlines := ((x1 + w / 2, y1), (x1 + w / 2, y2)) # map (\<lambda>y. ((x1 + w / 2, PIXELS_PER_METER * y), (g, PIXELS_PER_METER * y))) ys,
    labels := (map (\<lambda>x. \<lparr>label_visible = True, label_shows = x, label_at = (PIXELS_PER_METER * x, f)\<rparr>) xs
       @ map (\<lambda>y. \<lparr>label_visible = True, label_shows = y, label_at = (g, PIXELS_PER_METER * y)\<rparr>) ys)
       @ drop (length xs + length ys) (map hide (labels a))\<rparr>"
  have "hud_update_view vp a = Inr a'"
    using x(1) y(1) assms(1-4)
    by (simp add: hud_update_view_def true_div_def Let_def draw_marks xs_def [symmetric] ys_def [symmetric] add.commute)
      (simp add: a'_def w_def f_def g_def add.commute)
  then have a': "hud_update_view vp a = Inr a'"
    "labels a' = (map (\<lambda>x. \<lparr>label_visible = True, label_shows = x, label_at = (PIXELS_PER_METER * x, f)\<rparr>) xs
       @ map (\<lambda>y. \<lparr>label_visible = True, label_shows = y, label_at = (g, PIXELS_PER_METER * y)\<rparr>) ys)
       @ drop (length xs + length ys) (map hide (labels a))"
    "length (hlines a') = Suc (length xs)" "length (vlines a') = Suc (length ys)"
    by (simp_all add: a'_def)
  moreover have "filter label_visible (labels a') =
       map (\<lambda>x. \<lparr>label_visible = True, label_shows = x, label_at = (PIXELS_PER_METER * x, f)\<rparr>) xs
       @ map (\<lambda>y. \<lparr>label_visible = True, label_shows = y, label_at = (g, PIXELS_PER_METER * y)\<rparr>) ys"
    by (simp add: a'(2) visible_prefix no_hidden)
  then have "map label_shows (filter label_visible (labels a')) = xs @ ys" by (simp add: comp_def)
  moreover have "length (labels a') = max (length (labels a)) (length xs + length ys)"
    by (simp add: a'(2))
  moreover have "\<forall>l\<in>set (labels a'). label_visible l \<longrightarrow>
      fst (label_at l) = PIXELS_PER_METER * label_shows l \<or> snd (label_at l) = PIXELS_PER_METER * label_shows l"
    by (auto simp: a'(2) hide_def drop_map)
  ultimately show ?thesis using x(2) y(2) unfolding xs_def [symmetric] ys_def [symmetric] by blast
qed

definition example_viewport :: viewport where
  "example_viewport = \<lparr>h_value = 0, h_page = 600, v_value = 0, v_page = 450, zoom = Some 1, from_pixels = (\<lambda>p. p)\<rparr>"

definition empty_axes :: axes where
  "empty_axes = \<lparr>axes_visible = True, hlines_visible = True, vlines_visible = True, axis_width = 0,
     hlines = [], vlines = [], labels = []\<rparr>"

theorem axes_labels_witness:
  "\<exists>a'. hud_update_view example_viewport empty_axes = Inr a' \<and> length (labels a') \<in> {8..18}"
proof -
  have "zoom example_viewport = Some 1" "labels empty_axes = []"
    "from_pixels example_viewport (h_value example_viewport, v_value example_viewport) = (0, 0)"
    "from_pixels example_viewport (h_value example_viewport + h_page example_viewport,
       v_value example_viewport + v_page example_viewport) = (600, 450)"
    by (simp_all add: example_viewport_def empty_axes_def)
  from axes_labels [OF this(1) _ this(3,4), of empty_axes] this(2) show ?thesis by auto
qed

text \<open>
  Hiding the axes hides everything, and the scroll bars then leave them alone; showing them again
  shows the lines only, the labels return when the view is scrolled.
\<close>

lemma hidden_axes:
  "\<not> hlines_visible (hud_set_visible False a) \<and> filter label_visible (labels (hud_set_visible False a)) = []
     \<and> hud_scrolled vp (hud_set_visible False a) = Inr (hud_set_visible False a)"
  using no_hidden [of 0 "labels a"] by (simp add: hud_set_visible_def hud_scrolled_def)

lemma labels_stay_hidden:
  "filter label_visible (labels (hud_set_visible True (hud_set_visible False a))) = []"
  using no_hidden [of 0 "labels a"] by (simp add: hud_set_visible_def)

text \<open>An empty rectangle is refused.\<close>

lemma empty_interval: "compute_divisions x x = Inl AssertionError"
  by (simp add: compute_divisions_def)

end
