(* ===== verification/VizView.thy ===== *)
theory VizView
  imports VizScene VizHud
begin

text \<open>
  What the user does in the window of the visualizer, \<open>visualizer/core.py\<close>: selecting a node and
  the nodes whose transmissions are shown, dragging a node, panning, zooming, scrolling, following
  and centring.  The simulator's side is the positions of its
  nodes, which dragging changes, and the list it was last given by \<open>SetNodesOfInterest\<close>.
\<close>

section \<open>The state of the window\<close>

datatype show_mode = ShowAll | ShowNone | ShowSelected

text \<open>
  The scroll bars and the zoom are adjustments of GTK, which keep a value inside their limits, those of the
  scroll bars depending on the zoom; GooCanvas converts between pixels and the canvas at the current zoom.
\<close>

record toolkit =
  set_h :: "rat \<Rightarrow> rat \<Rightarrow> rat"
  set_v :: "rat \<Rightarrow> rat \<Rightarrow> rat"
  set_zoom :: "rat \<Rightarrow> rat"
  page_h :: rat
  page_v :: rat
  to_canvas :: "rat \<Rightarrow> point \<Rightarrow> point"
  to_pixels :: "rat \<Rightarrow> point \<Rightarrow> point"

record drag_state =
  canvas0 :: point
  sim0 :: point

record pan_state =
  initial_mouse_pos :: point
  initial_canvas_pos :: point

record window =
  scene_of :: scene
  sim_position :: "nat \<Rightarrow> point option"
  interest :: "nat list"
  selected_node :: "nat option"
  show_mode :: show_mode
  follow_node :: "nat option"
  node_drag :: "drag_state option"
  panning :: "pan_state option"
  h_scroll :: rat
  v_scroll :: rat
  view_zoom :: rat
  information_windows :: "nat list"

section \<open>Selecting\<close>

text \<open>What a caller may pass for a node: a view, the number of a node, a node of the simulator, None, or something else.\<close>

datatype node_arg = ViewNode nat | IndexNode int | SimNode nat | NoNode | OtherArg

definition nodes_get :: "scene \<Rightarrow> int \<Rightarrow> py_error + nat" where
  "nodes_get sc i = (if 0 \<le> i \<and> has_key (nodes sc) (nat i) then Inr (nat i) else Inl KeyError)"

definition selection_arg :: "scene \<Rightarrow> node_arg \<Rightarrow> py_error + nat option" where
  "selection_arg sc a =
     (case a of
        SimNode n \<Rightarrow> rbind (nodes_get sc (int n)) (\<lambda>n. Inr (Some n))
      | IndexNode i \<Rightarrow> rbind (nodes_get sc i) (\<lambda>n. Inr (Some n))
      | ViewNode n \<Rightarrow> Inr (Some n)
      | NoNode \<Rightarrow> Inr None
      | OtherArg \<Rightarrow> Inl TypeError)"

definition mark_selected :: "nat option \<Rightarrow> bool \<Rightarrow> window \<Rightarrow> window" where
  "mark_selected x b w =
     (case x of None \<Rightarrow> w | Some n \<Rightarrow> w\<lparr>scene_of := set_selected n b (scene_of w)\<rparr>)"

definition interest_of_selection :: "nat option \<Rightarrow> nat list" where
  "interest_of_selection x = (case x of None \<Rightarrow> [] | Some n \<Rightarrow> [n])"

definition select_node :: "node_arg \<Rightarrow> window \<Rightarrow> py_error + window" where
  "select_node a w =
     rbind (selection_arg (scene_of w) a) (\<lambda>node.
       if node = selected_node w then Inr w
       else
         let w = mark_selected (selected_node w) False w;
             w = w\<lparr>selected_node := node\<rparr>;
             w = mark_selected (selected_node w) True w
         in Inr (if show_mode w = ShowSelected then w\<lparr>interest := interest_of_selection (selected_node w)\<rparr> else w))"

definition set_show_transmissions_mode :: "nat \<Rightarrow> show_mode \<Rightarrow> window \<Rightarrow> window" where
  "set_show_transmissions_mode n_nodes mode w =
     (let w = w\<lparr>show_mode := mode\<rparr>
      in case mode of
           ShowAll \<Rightarrow> w\<lparr>interest := [0..<n_nodes]\<rparr>
         | ShowNone \<Rightarrow> w\<lparr>interest := []\<rparr>
         | ShowSelected \<Rightarrow> w\<lparr>interest := interest_of_selection (selected_node w)\<rparr>)"

section \<open>Dragging a node\<close>

text \<open>\<open>pointer\<close> is the place of the pointing device in pixels of the window, without the scroll bars.\<close>

definition begin_node_drag :: "toolkit \<Rightarrow> nat \<Rightarrow> point \<Rightarrow> window \<Rightarrow> window" where
  "begin_node_drag tk n pointer w =
     (case sim_position w n of
        None \<Rightarrow> w
      | Some pos \<Rightarrow>
          if node_drag w \<noteq> None then w
          else w\<lparr>node_drag := Some \<lparr>canvas0 = to_canvas tk (view_zoom w) pointer, sim0 = pos\<rparr>\<rparr>)"

definition node_drag_motion :: "toolkit \<Rightarrow> nat \<Rightarrow> point \<Rightarrow> window \<Rightarrow> bool \<times> window" where
  "node_drag_motion tk n pointer w =
     (case (sim_position w n, node_drag w) of
        (Some _, Some d) \<Rightarrow>
          (let canvas = to_canvas tk (view_zoom w) pointer;
               dx = fst canvas - fst (canvas0 d);
               dy = snd canvas - snd (canvas0 d);
               pos = (fst (sim0 d) + transform_distance_canvas_to_simulation dx,
                      snd (sim0 d) + transform_distance_canvas_to_simulation dy)
           in (True, w\<lparr>sim_position := (sim_position w)(n \<mapsto> pos),
                       scene_of := set_position n (transform_point_simulation_to_canvas pos) (scene_of w)\<rparr>))
      | _ \<Rightarrow> (False, w))"

definition end_node_drag :: "window \<Rightarrow> window" where
  "end_node_drag w = (if node_drag w = None then w else w\<lparr>node_drag := None\<rparr>)"

section \<open>Buttons\<close>

text \<open>The handlers answer whether the event has been dealt with.\<close>

definition on_root_button_press_event :: "nat \<Rightarrow> window \<Rightarrow> py_error + (bool \<times> window)" where
  "on_root_button_press_event button w =
     (if button = 1 then rbind (select_node NoNode w) (\<lambda>w. Inr (True, w)) else Inr (False, w))"

text \<open>The menu of the third button is that of the plugins and changes nothing here.\<close>

definition on_node_button_press_event :: "toolkit \<Rightarrow> nat \<Rightarrow> point \<Rightarrow> nat \<Rightarrow> window \<Rightarrow> py_error + (bool \<times> window)" where
  "on_node_button_press_event tk button pointer n w =
     (if button = 1 then rbind (select_node (ViewNode n) w) (\<lambda>w. Inr (True, w))
      else if button = 3 then Inr (True, w)
      else if button = 2 then Inr (True, begin_node_drag tk n pointer w)
      else Inr (False, w))"

definition on_node_button_release_event :: "nat \<Rightarrow> window \<Rightarrow> bool \<times> window" where
  "on_node_button_release_event button w =
     (if button = 2 then (True, end_node_drag w) else (False, w))"

section \<open>Panning and zooming\<close>

definition begin_panning :: "point \<Rightarrow> window \<Rightarrow> window" where
  "begin_panning pointer w =
     w\<lparr>panning := Some \<lparr>initial_mouse_pos = pointer, initial_canvas_pos = (h_scroll w, v_scroll w)\<rparr>\<rparr>"

definition end_panning :: "window \<Rightarrow> window" where
  "end_panning w = (if panning w = None then w else w\<lparr>panning := None\<rparr>)"

text \<open>A motion event is a hint, and then the device is asked where it is, or has the place.\<close>

definition panning_motion :: "toolkit \<Rightarrow> bool \<Rightarrow> point \<Rightarrow> point \<Rightarrow> window \<Rightarrow> py_error + (bool \<times> window)" where
  "panning_motion tk is_hint device_pos event_pos w =
     (case panning w of
        None \<Rightarrow> Inl AssertionError
      | Some p \<Rightarrow>
          (let pos = (if is_hint then device_pos else event_pos);
               dx = fst pos - fst (initial_mouse_pos p);
               dy = snd pos - snd (initial_mouse_pos p)
           in Inr (True, w\<lparr>h_scroll := set_h tk (view_zoom w) (fst (initial_canvas_pos p) - dx),
                           v_scroll := set_v tk (view_zoom w) (snd (initial_canvas_pos p) - dy)\<rparr>)))"

definition canvas_button_press :: "nat \<Rightarrow> point \<Rightarrow> window \<Rightarrow> bool \<times> window" where
  "canvas_button_press button pointer w = (if button = 2 then (True, begin_panning pointer w) else (False, w))"

definition canvas_button_release :: "nat \<Rightarrow> window \<Rightarrow> bool \<times> window" where
  "canvas_button_release button w = (if button = 2 then (True, end_panning w) else (False, w))"

datatype scroll_direction = ScrollUp | ScrollDown | ScrollOther

definition canvas_scroll_event :: "toolkit \<Rightarrow> scroll_direction \<Rightarrow> window \<Rightarrow> bool \<times> window" where
  "canvas_scroll_event tk dir w =
     (case dir of
        ScrollUp \<Rightarrow> (True, w\<lparr>view_zoom := set_zoom tk (view_zoom w * (5 / 4))\<rparr>)
      | ScrollDown \<Rightarrow> (True, w\<lparr>view_zoom := set_zoom tk (view_zoom w / (5 / 4))\<rparr>)
      | ScrollOther \<Rightarrow> (False, w))"

text \<open>The scroll bars are set so that the point is in the middle of the page.\<close>

definition scroll_to_middle :: "toolkit \<Rightarrow> point \<Rightarrow> window \<Rightarrow> window" where
  "scroll_to_middle tk p w =
     (let (px, py) = to_pixels tk (view_zoom w) p
      in w\<lparr>h_scroll := set_h tk (view_zoom w) (px - page_h tk / 2), v_scroll := set_v tk (view_zoom w) (py - page_v tk / 2)\<rparr>)"

definition center_on_node :: "toolkit \<Rightarrow> node_arg \<Rightarrow> window \<Rightarrow> py_error + window" where
  "center_on_node tk a w =
     rbind (case a of
        SimNode n \<Rightarrow> nodes_get (scene_of w) (int n)
      | IndexNode i \<Rightarrow> nodes_get (scene_of w) i
      | ViewNode n \<Rightarrow> Inr n
      | NoNode \<Rightarrow> Inl TypeError
      | OtherArg \<Rightarrow> Inl TypeError) (\<lambda>n.
       Inr (scroll_to_middle tk (node_position (scene_of w) n) w))"

text \<open>A number is not looked up here: it is kept as it is, and no node is ever that number.\<close>

definition set_follow_node :: "node_arg \<Rightarrow> window \<Rightarrow> py_error + window" where
  "set_follow_node a w =
     (case a of
        SimNode n \<Rightarrow> rbind (nodes_get (scene_of w) (int n)) (\<lambda>n. Inr (w\<lparr>follow_node := Some n\<rparr>))
      | ViewNode n \<Rightarrow> Inr (w\<lparr>follow_node := Some n\<rparr>)
      | _ \<Rightarrow> Inr (w\<lparr>follow_node := None\<rparr>))"

text \<open>\<open>_update_node_positions\<close> with the view following the node.\<close>

definition window_positions :: "topology \<Rightarrow> toolkit \<Rightarrow> window \<Rightarrow> window" where
  "window_positions topo tk w =
     (case update_node_positions topo (follow_node w) (scroll_to_middle tk) (scene_of w, w) of
        (sc, v) \<Rightarrow> v\<lparr>scene_of := sc\<rparr>)"

text \<open>The extremes of the positions, at the zoom that is in force.\<close>

definition autoscale_view :: "topology \<Rightarrow> toolkit \<Rightarrow> window \<Rightarrow> window" where
  "autoscale_view topo tk w =
     (if nodes (scene_of w) = [] then w
      else
        let w = window_positions topo tk w;
            positions = map (node_position (scene_of w)) (dkeys (nodes (scene_of w)));
            min_x = Min (set (map fst positions)); min_y = Min (set (map snd positions));
            max_x = Max (set (map fst positions)); max_y = Max (set (map snd positions));
            (min_x_px, min_y_px) = to_pixels tk (view_zoom w) (min_x, min_y);
            (max_x_px, max_y_px) = to_pixels tk (view_zoom w) (max_x, max_y);
            new_dx = 3 / 2 * (max_x_px - min_x_px);
            new_dy = 3 / 2 * (max_y_px - min_y_px)
        in if new_dx = 0 \<or> new_dy = 0 then w
           else
             let w = w\<lparr>view_zoom := set_zoom tk (min (page_h tk / new_dx) (page_v tk / new_dy))\<rparr>;
                 (x1, y1) = to_canvas tk (view_zoom w) (h_scroll w, v_scroll w);
                 (x2, y2) = to_canvas tk (view_zoom w) (h_scroll w + page_h tk, v_scroll w + page_v tk);
                 center_x = (min_x + max_x) / 2; center_y = (min_y + max_y) / 2;
                 (px, py) = to_pixels tk (view_zoom w) (center_x - (x2 - x1) / 2, center_y - (y2 - y1) / 2)
             in w\<lparr>h_scroll := set_h tk (view_zoom w) px, v_scroll := set_v tk (view_zoom w) py\<rparr>)"

section \<open>The selection\<close>

text \<open>
  The one node that looks selected is the one that is selected, and the simulator has been told of
  the nodes whose transmissions are to be shown.
\<close>

definition interest_for :: "nat \<Rightarrow> show_mode \<Rightarrow> nat option \<Rightarrow> nat list" where
  "interest_for n_nodes mode x =
     (case mode of ShowAll \<Rightarrow> [0..<n_nodes] | ShowNone \<Rightarrow> [] | ShowSelected \<Rightarrow> interest_of_selection x)"

definition selection_inv :: "nat \<Rightarrow> window \<Rightarrow> bool" where
  "selection_inv n_nodes w \<longleftrightarrow> (\<forall>n. selected (node_at (scene_of w) n) \<longleftrightarrow> selected_node w = Some n)
     \<and> interest w = interest_for n_nodes (show_mode w) (selected_node w)"

lemma selected_set [simp]:
  "selected (node_at (set_selected n b sc) m) = (if m = n then b else selected (node_at sc m))"
  by (simp add: set_selected_def node_at_update_appearance appear_def restyle_def Let_def split: option.splits)

lemma selected_set_position [simp]: "selected (node_at (set_position n p sc) m) = selected (node_at sc m)"
  by (simp add: node_at_set_position)

lemma selected_mark:
  "selected (node_at (scene_of (mark_selected x b w)) m) = (if x = Some m then b else selected (node_at (scene_of w) m))"
  by (cases x) (simp_all add: mark_selected_def)

lemma mark_selected_frame [simp]:
  "selected_node (mark_selected x b w) = selected_node w" "show_mode (mark_selected x b w) = show_mode w"
  "interest (mark_selected x b w) = interest w"
  by (simp_all add: mark_selected_def split: option.splits)

lemma select_node_inv:
  assumes "selection_inv n w" "select_node a w = Inr w'"
  shows "selection_inv n w' \<and> selection_arg (scene_of w) a = Inr (selected_node w')"
proof -
  obtain x where x: "selection_arg (scene_of w) a = Inr x" using assms(2) by (auto simp: select_node_def rbind_Inr_iff)
  show ?thesis
  proof (cases "x = selected_node w")
    case True
    with assms x show ?thesis by (simp add: select_node_def)
  next
    case False
    define w1 where "w1 = mark_selected x True ((mark_selected (selected_node w) False w)\<lparr>selected_node := x\<rparr>)"
    have w': "w' = (if show_mode w = ShowSelected then w1\<lparr>interest := interest_of_selection x\<rparr> else w1)"
      using assms(2) x False by (simp add: select_node_def Let_def w1_def split: if_splits)
    have "selected (node_at (scene_of w1) m) \<longleftrightarrow> x = Some m" for m
      using assms(1) by (auto simp: w1_def selected_mark selection_inv_def)
    then show ?thesis using assms(1) x
      by (auto simp: w' selection_inv_def w1_def interest_for_def split: show_mode.splits)
  qed
qed

lemma set_mode_inv: "selection_inv n w \<Longrightarrow> selection_inv n (set_show_transmissions_mode n mode w)"
  by (simp add: selection_inv_def set_show_transmissions_mode_def Let_def interest_for_def split: show_mode.splits)

lemma selected_update_position:
  "selected (node_at (fst (update_node_position topo fo follow st n)) m) = selected (node_at (fst st) m)"
  by (cases st) (auto simp: update_node_position_def has_mobility_def Let_def split: option.splits)

lemma selected_update_positions:
  "selected (node_at (fst (update_node_positions topo fo follow st)) m) = selected (node_at (fst st) m)"
proof -
  have "selected (node_at (fst (foldl (update_node_position topo fo follow) st ns)) m) = selected (node_at (fst st) m)" for ns
    by (induction ns arbitrary: st) (simp_all add: selected_update_position)
  then show ?thesis by (simp add: update_node_positions_def)
qed

text \<open>The view that follows a node only scrolls.\<close>

definition scrolled :: "window \<Rightarrow> window \<Rightarrow> bool" where
  "scrolled w v \<longleftrightarrow> v\<lparr>h_scroll := 0, v_scroll := 0\<rparr> = w\<lparr>h_scroll := 0, v_scroll := 0\<rparr>"

lemma scrolled_fields:
  assumes "scrolled w v"
  shows "selected_node v = selected_node w" "show_mode v = show_mode w" "interest v = interest w" "view_zoom v = view_zoom w"
    "sim_position v = sim_position w" "node_drag v = node_drag w" "follow_node v = follow_node w"
  using assms unfolding scrolled_def
  by (auto dest: arg_cong [where f = selected_node] arg_cong [where f = show_mode] arg_cong [where f = interest]
      arg_cong [where f = view_zoom] arg_cong [where f = sim_position] arg_cong [where f = node_drag]
      arg_cong [where f = follow_node])

lemma scroll_to_middle_scrolled: "scrolled w v \<Longrightarrow> scrolled w (scroll_to_middle tk p v)"
  by (simp add: scrolled_def scroll_to_middle_def split: prod.splits)

lemma update_positions_scrolled:
  assumes "scrolled w (snd st)"
  shows "scrolled w (snd (update_node_positions topo fo (scroll_to_middle tk) st))"
proof -
  have step: "scrolled w (snd (update_node_position topo fo (scroll_to_middle tk) s n))" if "scrolled w (snd s)" for s n
    using that by (cases s) (auto simp: update_node_position_def Let_def scroll_to_middle_scrolled split: prod.splits option.splits)
  have "scrolled w (snd (foldl (update_node_position topo fo (scroll_to_middle tk)) st ns))" for ns
    using assms by (induction ns arbitrary: st) (simp_all add: step)
  then show ?thesis by (simp add: update_node_positions_def)
qed

lemma window_positions_frame:
  "scene_of (window_positions topo tk w) = fst (update_node_positions topo (follow_node w) (scroll_to_middle tk) (scene_of w, w))"
  "selected_node (window_positions topo tk w) = selected_node w" "show_mode (window_positions topo tk w) = show_mode w"
  "interest (window_positions topo tk w) = interest w" "view_zoom (window_positions topo tk w) = view_zoom w"
  "node_drag (window_positions topo tk w) = node_drag w" "sim_position (window_positions topo tk w) = sim_position w"
proof -
  have "scrolled w (snd (update_node_positions topo (follow_node w) (scroll_to_middle tk) (scene_of w, w)))"
    by (rule update_positions_scrolled) (simp add: scrolled_def)
  note f = scrolled_fields [OF this]
  show "scene_of (window_positions topo tk w) = fst (update_node_positions topo (follow_node w) (scroll_to_middle tk) (scene_of w, w))"
    "selected_node (window_positions topo tk w) = selected_node w" "show_mode (window_positions topo tk w) = show_mode w"
    "interest (window_positions topo tk w) = interest w" "view_zoom (window_positions topo tk w) = view_zoom w"
    "node_drag (window_positions topo tk w) = node_drag w" "sim_position (window_positions topo tk w) = sim_position w"
    using f by (simp_all add: window_positions_def case_prod_beta)
qed

lemma selection_inv_cong:
  "selection_inv n w \<Longrightarrow> (\<And>m. selected (node_at (scene_of w') m) = selected (node_at (scene_of w) m)) \<Longrightarrow>
   selected_node w' = selected_node w \<Longrightarrow> show_mode w' = show_mode w \<Longrightarrow> interest w' = interest w \<Longrightarrow> selection_inv n w'"
  by (simp add: selection_inv_def)

lemma window_positions_selection: "selection_inv n w \<Longrightarrow> selection_inv n (window_positions topo tk w)"
  by (rule selection_inv_cong [of n w]) (simp_all add: window_positions_frame selected_update_positions)

lemma autoscale_selection: "selection_inv n w \<Longrightarrow> selection_inv n (autoscale_view topo tk w)"
  by (rule selection_inv_cong [of n w])
    (simp_all add: autoscale_view_def Let_def window_positions_frame selected_update_positions split: prod.splits)

section \<open>A session\<close>

datatype user_op =
    PressNode nat point nat | ReleaseNode nat | PressRoot nat | MoveOver nat point | Enter nat | Leave nat
  | ChooseMode show_mode | SelectIt node_arg | PressCanvas nat point | ReleaseCanvas nat | MoveCanvas bool point point
  | ScrollWheel scroll_direction | CentreOn node_arg | FollowIt node_arg | NodeSize rat | ViewUpdate | Autoscale
  | ZoomTo rat | ScrollTo point

text \<open>
  \<open>ZoomTo\<close> is the spin button beside the canvas; \<open>ScrollTo\<close> stands for the scroll bars, which the user moves
  and which GooCanvas moves by itself when the zoom has changed.
\<close>

text \<open>\<open>node_size_changed\<close> gives every node the size.\<close>

definition node_size_changed :: "rat \<Rightarrow> window \<Rightarrow> window" where
  "node_size_changed q w = w\<lparr>scene_of := fold (\<lambda>n. set_size n q) (dkeys (nodes (scene_of w))) (scene_of w)\<rparr>"

definition user_step :: "topology \<Rightarrow> toolkit \<Rightarrow> window \<Rightarrow> user_op \<Rightarrow> py_error + window" where
  "user_step topo tk w op =
     (case op of
        PressNode button pointer n \<Rightarrow> rbind (on_node_button_press_event tk button pointer n w) (\<lambda>(_, w). Inr w)
      | ReleaseNode button \<Rightarrow> Inr (snd (on_node_button_release_event button w))
      | PressRoot button \<Rightarrow> rbind (on_root_button_press_event button w) (\<lambda>(_, w). Inr w)
      | MoveOver n pointer \<Rightarrow> Inr (snd (node_drag_motion tk n pointer w))
      | Enter n \<Rightarrow> Inr (w\<lparr>scene_of := set_highlighted n True (scene_of w)\<rparr>)
      | Leave n \<Rightarrow> Inr (w\<lparr>scene_of := set_highlighted n False (scene_of w)\<rparr>)
      | ChooseMode mode \<Rightarrow> Inr (set_show_transmissions_mode (node_count topo) mode w)
      | SelectIt a \<Rightarrow> select_node a w
      | PressCanvas button pointer \<Rightarrow> Inr (snd (canvas_button_press button pointer w))
      | ReleaseCanvas button \<Rightarrow> Inr (snd (canvas_button_release button w))
      | MoveCanvas is_hint device_pos event_pos \<Rightarrow> rbind (panning_motion tk is_hint device_pos event_pos w) (\<lambda>(_, w). Inr w)
      | ScrollWheel dir \<Rightarrow> Inr (snd (canvas_scroll_event tk dir w))
      | CentreOn a \<Rightarrow> center_on_node tk a w
      | FollowIt a \<Rightarrow> set_follow_node a w
      | NodeSize q \<Rightarrow> Inr (node_size_changed q w)
      | ViewUpdate \<Rightarrow> Inr (window_positions (topo\<lparr>mobility := sim_position w\<rparr>) tk w)
      | Autoscale \<Rightarrow> Inr (autoscale_view (topo\<lparr>mobility := sim_position w\<rparr>) tk w)
      | ZoomTo z \<Rightarrow> Inr (w\<lparr>view_zoom := set_zoom tk z\<rparr>)
      | ScrollTo p \<Rightarrow> Inr (w\<lparr>h_scroll := fst p, v_scroll := snd p\<rparr>))"

lemma selected_appearance [simp]: "selected (node_at (update_appearance n sc) m) = selected (node_at sc m)"
  by (simp add: node_at_update_appearance appear_def restyle_def Let_def split: option.splits)

lemma selected_highlight [simp]: "selected (node_at (set_highlighted n b sc) m) = selected (node_at sc m)"
  by (simp add: set_highlighted_def)

lemma selected_sizes: "selected (node_at (fold (\<lambda>n. set_size n q) ns sc) m) = selected (node_at sc m)"
  by (induction ns arbitrary: sc) (simp_all add: set_size_def)

lemma drag_motion_selection: "selection_inv n w \<Longrightarrow> selection_inv n (snd (node_drag_motion tk m p w))"
  by (auto simp: node_drag_motion_def Let_def selection_inv_def split: option.splits)

lemma scroll_to_middle_selection: "selection_inv n w \<Longrightarrow> selection_inv n (scroll_to_middle tk p w)"
  by (rule selection_inv_cong [of n w]) (simp_all add: scroll_to_middle_def case_prod_beta)

lemma user_step_selection:
  assumes "selection_inv (node_count topo) w" "user_step topo tk w op = Inr w'"
  shows "selection_inv (node_count topo) w'"
proof (cases op)
  case (PressNode button pointer n)
  have "selection_inv (node_count topo) (begin_node_drag tk n pointer w)"
    using assms(1) by (auto simp: begin_node_drag_def selection_inv_def split: option.splits)
  then show ?thesis using assms PressNode select_node_inv [OF assms(1)]
    by (auto simp: user_step_def on_node_button_press_event_def rbind_Inr_iff split: if_splits)
next
  case (ReleaseNode button)
  then show ?thesis using assms
    by (auto simp: user_step_def on_node_button_release_event_def end_node_drag_def selection_inv_def split: if_splits)
next
  case (PressRoot button)
  then show ?thesis using assms select_node_inv [OF assms(1)]
    by (auto simp: user_step_def on_root_button_press_event_def rbind_Inr_iff split: if_splits)
next
  case (MoveOver n pointer)
  then have "w' = snd (node_drag_motion tk n pointer w)" using assms(2) by (simp add: user_step_def)
  then show ?thesis using drag_motion_selection [OF assms(1)] by simp
next
  case (Enter n)
  then show ?thesis using assms by (auto simp: user_step_def selection_inv_def)
next
  case (Leave n)
  then show ?thesis using assms by (auto simp: user_step_def selection_inv_def)
next
  case (ChooseMode mode)
  then show ?thesis using assms set_mode_inv by (auto simp: user_step_def)
next
  case (SelectIt a)
  then show ?thesis using assms select_node_inv by (auto simp: user_step_def)
next
  case (PressCanvas button pointer)
  then show ?thesis using assms by (auto simp: user_step_def canvas_button_press_def begin_panning_def selection_inv_def split: if_splits)
next
  case (ReleaseCanvas button)
  then show ?thesis using assms by (auto simp: user_step_def canvas_button_release_def end_panning_def selection_inv_def split: if_splits)
next
  case (MoveCanvas is_hint device_pos event_pos)
  then show ?thesis using assms
    by (auto simp: user_step_def panning_motion_def Let_def selection_inv_def split: option.splits)
next
  case (ScrollWheel dir)
  then show ?thesis using assms by (cases dir) (auto simp: user_step_def canvas_scroll_event_def selection_inv_def)
next
  case (CentreOn a)
  then obtain n where "w' = scroll_to_middle tk (node_position (scene_of w) n) w"
    using assms(2) by (simp add: user_step_def center_on_node_def rbind_Inr_iff) blast
  then show ?thesis using assms(1) by (simp add: scroll_to_middle_selection)
next
  case (FollowIt a)
  then show ?thesis using assms
    by (cases a) (auto simp: user_step_def set_follow_node_def rbind_Inr_iff selection_inv_def)
next
  case (NodeSize q)
  then show ?thesis using assms by (auto simp: user_step_def node_size_changed_def selection_inv_def selected_sizes)
next
  case ViewUpdate
  then show ?thesis using assms window_positions_selection by (auto simp: user_step_def)
next
  case Autoscale
  then show ?thesis using assms autoscale_selection by (auto simp: user_step_def)
next
  case (ZoomTo z)
  then show ?thesis using assms by (auto simp: user_step_def selection_inv_def)
next
  case (ScrollTo p)
  then show ?thesis using assms by (auto simp: user_step_def selection_inv_def)
qed

lemma session_selection:
  assumes "selection_inv (node_count topo) w" "for_each (user_step topo tk) w ops = Inr w'"
  shows "selection_inv (node_count topo) w'"
  by (rule for_each_preserves [OF assms(2), of "selection_inv (node_count topo)"]) (use assms(1) user_step_selection in blast)+

section \<open>The look of the nodes\<close>

lemma styled_change:
  assumes "styled_scene sc" "\<And>v. center (f v) = center v" "\<And>v. svg (f v) = svg v"
    "\<And>v. node_label (f v) = node_label v" "\<And>v. label_item (f v) = label_item v"
  shows "styled_scene (update_appearance n (change_node n f sc))"
proof -
  have "icon_placed (node_at sc n)" using assms(1) by (simp add: styled_scene_def styled_icon_placed)
  then show ?thesis using assms by (intro styled_appear) (simp_all add: icon_placed_def)
qed

lemma styled_set_selected: "styled_scene sc \<Longrightarrow> styled_scene (set_selected n b sc)"
  by (simp add: set_selected_def styled_change)

lemma styled_set_highlighted: "styled_scene sc \<Longrightarrow> styled_scene (set_highlighted n b sc)"
  by (simp add: set_highlighted_def styled_change)

lemma styled_sizes: "styled_scene sc \<Longrightarrow> styled_scene (fold (\<lambda>n. set_size n q) ns sc)"
  by (induction ns arbitrary: sc) (simp_all add: set_size_def styled_change)

lemma styled_set_position: "styled_scene sc \<Longrightarrow> styled_scene (set_position n p sc)"
  using set_position_styled [of sc n p] by (auto simp: styled_scene_def node_at_set_position)

lemma styled_update_positions:
  assumes "styled_scene (fst st)"
  shows "styled_scene (fst (update_node_positions topo fo follow st))"
proof -
  have known: "styled_scene (change_node n (\<lambda>v. v\<lparr>mobility_known := b\<rparr>) sc)" if "styled_scene sc" for n b sc
    using that by (simp add: styled_scene_def styled_def label_position_def)
  have step: "styled_scene (fst (update_node_position topo fo follow s n))" if "styled_scene (fst s)" for s n
    using that by (cases s) (auto simp: update_node_position_def has_mobility_def Let_def known styled_set_position
      split: option.splits)
  have "styled_scene (fst (foldl (update_node_position topo fo follow) st ns))" for ns
    using assms by (induction ns arbitrary: st) (simp_all add: step)
  then show ?thesis by (simp add: update_node_positions_def)
qed

lemma styled_window_positions: "styled_scene (scene_of w) \<Longrightarrow> styled_scene (scene_of (window_positions topo tk w))"
  by (simp add: window_positions_frame styled_update_positions)

lemma styled_select_node:
  assumes "styled_scene (scene_of w)" "select_node a w = Inr w'"
  shows "styled_scene (scene_of w')"
  using assms by (auto simp: select_node_def rbind_Inr_iff Let_def mark_selected_def styled_set_selected
      split: if_splits option.splits)

lemma user_step_styled:
  assumes "styled_scene (scene_of w)" "user_step topo tk w op = Inr w'"
  shows "styled_scene (scene_of w')"
proof (cases op)
  case (CentreOn a)
  then obtain n where "w' = scroll_to_middle tk (node_position (scene_of w) n) w"
    using assms(2) by (simp add: user_step_def center_on_node_def rbind_Inr_iff) blast
  then show ?thesis using assms(1) by (simp add: scroll_to_middle_def case_prod_beta)
next
  case (MoveOver n pointer)
  then show ?thesis using assms
    by (auto simp: user_step_def node_drag_motion_def Let_def styled_set_position split: option.splits)
next
  case ViewUpdate
  then show ?thesis using assms by (auto simp: user_step_def styled_window_positions)
next
  case Autoscale
  have "styled_scene (scene_of (autoscale_view t tk w))" for t
    using assms(1) styled_window_positions [of w t tk] by (simp add: autoscale_view_def Let_def split: prod.splits)
  then show ?thesis using assms(2) Autoscale by (auto simp: user_step_def)
next
  case (PressNode button pointer n)
  then show ?thesis using assms styled_select_node [OF assms(1)]
    by (auto simp: user_step_def on_node_button_press_event_def begin_node_drag_def rbind_Inr_iff split: if_splits option.splits)
next
  case (PressRoot button)
  then show ?thesis using assms styled_select_node [OF assms(1)]
    by (auto simp: user_step_def on_root_button_press_event_def rbind_Inr_iff split: if_splits)
next
  case (ChooseMode mode)
  then show ?thesis using assms by (cases mode) (auto simp: user_step_def set_show_transmissions_mode_def Let_def)
next
  case (FollowIt a)
  then show ?thesis using assms by (cases a) (auto simp: user_step_def set_follow_node_def rbind_Inr_iff)
next
  case (ScrollWheel dir)
  then show ?thesis using assms by (cases dir) (auto simp: user_step_def canvas_scroll_event_def)
next
  case (SelectIt a)
  then show ?thesis using assms styled_select_node by (auto simp: user_step_def)
qed (use assms in \<open>auto simp: user_step_def on_node_button_release_event_def end_node_drag_def canvas_button_press_def
      begin_panning_def canvas_button_release_def end_panning_def panning_motion_def node_size_changed_def Let_def
      styled_set_highlighted styled_sizes split: if_splits option.splits\<close>)

lemma session_styled:
  assumes "styled_scene (scene_of w)" "for_each (user_step topo tk) w ops = Inr w'"
  shows "styled_scene (scene_of w')"
  by (rule for_each_preserves [OF assms(2), of "\<lambda>w. styled_scene (scene_of w)"])
    (use assms(1) user_step_styled in blast)+

text \<open>
  Claim C17.  Through any session, in which no handler raises, of clicks, drags, scrolling, resizing, changes
  of the mode and updates of the view, from a window whose nodes look like their state: exactly the node that is
  selected, if there is one, is drawn with the thick outline of three tenths of its radius, every other node
  with the thin one, the radius being that of its size, and the outline is yellow where the pointer is on the
  node; and the simulator's list of interesting nodes is what the mode says: all nodes, none, or
  the selected one.
\<close>

theorem selection_shown:
  assumes "selection_inv (node_count topo) w" "styled_scene (scene_of w)" "for_each (user_step topo tk) w ops = Inr w'"
  shows "(\<forall>n. let v = node_at (scene_of w') n in
        (selected v \<longleftrightarrow> selected_node w' = Some n)
        \<and> radius v = transform_distance_simulation_to_canvas (node_size v)
        \<and> line_width v = radius v * (if selected_node w' = Some n then 3 / 10 else 15 / 100)
        \<and> stroke_color v = (if highlighted v then ''yellow'' else ''black''))
     \<and> interest w' = (case show_mode w' of
          ShowAll \<Rightarrow> [0..<node_count topo] | ShowNone \<Rightarrow> []
        | ShowSelected \<Rightarrow> (case selected_node w' of None \<Rightarrow> [] | Some n \<Rightarrow> [n]))"
proof -
  have "selection_inv (node_count topo) w'" by (rule session_selection [OF assms(1,3)])
  moreover have "styled_scene (scene_of w')" by (rule session_styled [OF assms(2,3)])
  ultimately show ?thesis
    unfolding selection_inv_def interest_for_def interest_of_selection_def by (simp add: styled_scene_def styled_def Let_def)
qed

definition plain_toolkit :: toolkit where
  "plain_toolkit = \<lparr>set_h = (\<lambda>z x. x), set_v = (\<lambda>z x. x), set_zoom = (\<lambda>x. x), page_h = 600, page_v = 450,
     to_canvas = (\<lambda>z p. (fst p / z, snd p / z)), to_pixels = (\<lambda>z p. (fst p * z, snd p * z))\<rparr>"

definition new_window :: "topology \<Rightarrow> scene \<Rightarrow> window" where
  "new_window topo sc = \<lparr>scene_of = sc, sim_position = mobility topo, interest = [0..<node_count topo], selected_node = None,
     show_mode = ShowAll, follow_node = None, node_drag = None, panning = None, h_scroll = 0, v_scroll = 0,
     view_zoom = 1, information_windows = []\<rparr>"

lemma selected_fresh [simp]: "selected new_node = False"
  by (simp add: new_node_def restyle_def unstyled_node_def Let_def)

lemma new_window_selection: "selection_inv (node_count topo) (new_window topo one_node)"
  by (simp add: selection_inv_def new_window_def interest_for_def one_node_def)
    (simp add: empty_scene_def node_at_def)

definition click_session :: "user_op list" where
  "click_session = [ChooseMode ShowSelected, PressNode 1 (0, 0) 0]"

lemma click_session_state:
  "\<exists>w. for_each (user_step pair_topology plain_toolkit) (new_window pair_topology one_node) click_session = Inr w
     \<and> selected_node w = Some 0 \<and> show_mode w = ShowSelected"
proof -
  define w1 where "w1 = set_show_transmissions_mode (node_count pair_topology) ShowSelected (new_window pair_topology one_node)"
  have w1: "selected_node w1 = None" "show_mode w1 = ShowSelected"
    by (simp_all add: w1_def set_show_transmissions_mode_def new_window_def)
  define w2 where "w2 = mark_selected (Some 0) True ((mark_selected None False w1)\<lparr>selected_node := Some 0\<rparr>)"
  have "select_node (ViewNode 0) w1 = Inr (w2\<lparr>interest := interest_of_selection (selected_node w2)\<rparr>)"
    by (simp add: select_node_def selection_arg_def w1 Let_def w2_def)
  then show ?thesis
    by (simp add: click_session_def user_step_def on_node_button_press_event_def w1_def [symmetric]) (simp add: w2_def w1)
qed

lemma new_window_styled: "styled_scene (scene_of (new_window topo one_node))"
  by (simp add: new_window_def styled_scene_def one_node_def) (simp add: empty_scene_def node_at_def)

theorem selection_shown_witness:
  "case for_each (user_step pair_topology plain_toolkit) (new_window pair_topology one_node) click_session of
     Inl e \<Rightarrow> False
   | Inr w \<Rightarrow> line_width (node_at (scene_of w) 0) = radius (node_at (scene_of w) 0) * (3 / 10) \<and> interest w = [0]"
  using selection_shown [OF new_window_selection new_window_styled, of pair_topology plain_toolkit click_session]
    click_session_state
  by (auto simp: Let_def)

end
