(* ===== verification/VizPointer.thy ===== *)
theory VizPointer
  imports VizView
begin

text \<open>
  What the pointing device does to the picture of the visualizer, \<open>visualizer/core.py\<close>: a node that
  is dragged follows it whatever else happens meanwhile, but for the way the view was scrolled; and
  the first scaling of the view.
\<close>

section \<open>A node that is dragged\<close>

text \<open>Only presses and releases change the drag, and only motions move a node of the simulator.\<close>

lemma select_node_frame:
  "select_node a w = Inr v \<Longrightarrow> node_drag v = node_drag w \<and> sim_position v = sim_position w"
  by (auto simp: select_node_def rbind_Inr_iff Let_def mark_selected_def split: if_splits option.splits)

lemma autoscale_frame:
  "node_drag (autoscale_view topo tk w) = node_drag w" "sim_position (autoscale_view topo tk w) = sim_position w"
  by (simp_all add: autoscale_view_def Let_def window_positions_frame split: prod.splits)

definition drag_after :: "toolkit \<Rightarrow> window \<Rightarrow> user_op \<Rightarrow> drag_state option" where
  "drag_after tk w op =
     (case op of
        PressNode button pointer n \<Rightarrow> node_drag (if button = 2 then begin_node_drag tk n pointer w else w)
      | ReleaseNode button \<Rightarrow> (if button = 2 then None else node_drag w)
      | _ \<Rightarrow> node_drag w)"

definition moved_after :: "toolkit \<Rightarrow> window \<Rightarrow> user_op \<Rightarrow> nat \<Rightarrow> point option" where
  "moved_after tk w op =
     (case op of MoveOver n pointer \<Rightarrow> sim_position (snd (node_drag_motion tk n pointer w)) | _ \<Rightarrow> sim_position w)"

lemma user_step_frame:
  assumes "user_step topo tk w op = Inr w'"
  shows "node_drag w' = drag_after tk w op \<and> sim_position w' = moved_after tk w op"
proof (cases op)
  case (PressNode button pointer n)
  have "sim_position (begin_node_drag tk n pointer w) = sim_position w"
    by (simp add: begin_node_drag_def split: option.splits)
  then show ?thesis using assms PressNode
    by (auto simp: user_step_def on_node_button_press_event_def rbind_Inr_iff drag_after_def moved_after_def
        dest!: select_node_frame split: if_splits)
next
  case (PressRoot button)
  then show ?thesis using assms
    by (auto simp: user_step_def on_root_button_press_event_def rbind_Inr_iff drag_after_def moved_after_def
        dest!: select_node_frame split: if_splits)
next
  case (SelectIt a)
  then show ?thesis using assms by (auto simp: user_step_def drag_after_def moved_after_def dest!: select_node_frame)
next
  case (ReleaseNode button)
  then show ?thesis using assms
    by (auto simp: user_step_def on_node_button_release_event_def end_node_drag_def drag_after_def moved_after_def
        split: if_splits)
next
  case (MoveOver n pointer)
  have "node_drag (snd (node_drag_motion tk n pointer w)) = node_drag w"
    by (simp add: node_drag_motion_def Let_def split: option.splits)
  then show ?thesis using MoveOver assms by (auto simp: user_step_def drag_after_def moved_after_def)
next
  case (ChooseMode mode)
  then show ?thesis using assms
    by (cases mode) (auto simp: user_step_def set_show_transmissions_mode_def Let_def drag_after_def moved_after_def)
next
  case (MoveCanvas is_hint device_pos event_pos)
  then show ?thesis using assms
    by (auto simp: user_step_def panning_motion_def Let_def drag_after_def moved_after_def split: option.splits)
next
  case (ScrollWheel dir)
  then show ?thesis using assms
    by (cases dir) (auto simp: user_step_def canvas_scroll_event_def drag_after_def moved_after_def)
next
  case (CentreOn a)
  then obtain n where "w' = scroll_to_middle tk (node_position (scene_of w) n) w"
    using assms by (simp add: user_step_def center_on_node_def rbind_Inr_iff) blast
  then show ?thesis using CentreOn by (simp add: scroll_to_middle_def case_prod_beta drag_after_def moved_after_def)
next
  case (FollowIt a)
  then show ?thesis using assms
    by (cases a) (auto simp: user_step_def set_follow_node_def rbind_Inr_iff drag_after_def moved_after_def)
next
  case ViewUpdate
  then show ?thesis using assms by (auto simp: user_step_def window_positions_frame drag_after_def moved_after_def)
next
  case Autoscale
  then have "w' = autoscale_view (topo\<lparr>mobility := sim_position w\<rparr>) tk w" using assms by (simp add: user_step_def)
  then show ?thesis using Autoscale by (simp add: autoscale_frame drag_after_def moved_after_def)
qed (use assms in \<open>auto simp: user_step_def canvas_button_press_def begin_panning_def canvas_button_release_def
      end_panning_def node_size_changed_def drag_after_def moved_after_def split: if_splits\<close>)

lemma drag_after_kept: "node_drag w = Some d \<Longrightarrow> op \<noteq> ReleaseNode 2 \<Longrightarrow> drag_after tk w op = Some d"
  by (cases op) (simp_all add: drag_after_def begin_node_drag_def split: option.splits)

lemma moved_after_movable: "sim_position w n \<noteq> None \<Longrightarrow> moved_after tk w op n \<noteq> None"
  by (cases op) (simp_all add: moved_after_def node_drag_motion_def Let_def split: option.splits)

lemma drag_kept:
  assumes "for_each (user_step topo tk) w ops = Inr w'" "ReleaseNode 2 \<notin> set ops" "node_drag w = Some d"
    "sim_position w n \<noteq> None"
  shows "node_drag w' = Some d \<and> sim_position w' n \<noteq> None"
  using assms
proof (induction ops arbitrary: w)
  case (Cons op ops)
  then obtain v where v: "user_step topo tk w op = Inr v" "for_each (user_step topo tk) v ops = Inr w'"
    by (auto simp: rbind_Inr_iff)
  have "node_drag v = Some d"
    using user_step_frame [OF v(1)] drag_after_kept [of w d op tk] Cons.prems(2,3) by auto
  moreover have "sim_position v n \<noteq> None"
    using user_step_frame [OF v(1)] Cons.prems(4) moved_after_movable by simp
  ultimately show ?case using Cons.IH [OF v(2)] Cons.prems(2) by simp
qed simp

text \<open>
  A canvas whose upper left corner is \<open>(l, t)\<close>: pixels are the distances from it, times the zoom.
  (The corner stays as long as no node is moved beyond the bounds of the canvas.)
\<close>

definition linear_canvas :: "toolkit \<Rightarrow> rat \<Rightarrow> rat \<Rightarrow> bool" where
  "linear_canvas tk l t \<longleftrightarrow>
     (\<forall>z p. to_pixels tk z p = ((fst p - l) * z, (snd p - t) * z))
     \<and> (\<forall>z p. z > 0 \<longrightarrow> to_canvas tk z p = (fst p / z + l, snd p / z + t))"

text \<open>
  The point of the canvas that is shown under a pointer, as the tooltips convert it, with the scroll bars, and
  the one in the upper left corner of the view.
\<close>

definition canvas_under :: "toolkit \<Rightarrow> window \<Rightarrow> point \<Rightarrow> point" where
  "canvas_under tk w p = to_canvas tk (view_zoom w) (h_scroll w + fst p, v_scroll w + snd p)"

definition view_corner :: "toolkit \<Rightarrow> window \<Rightarrow> point" where
  "view_corner tk w = canvas_under tk w (0, 0)"

text \<open>
  Claim C18.  A node that the middle button has taken, on a canvas whose conversion is linear: after any
  operations in which the button is not let go, among them other presses, zooming, scrolling and
  updates of the view, a motion puts the node where it was when it was taken, moved by as much as the point of the
  canvas under the pointer has moved, less what the corner of the view has moved meanwhile; so
  the node follows the pointer exactly when the view shows the same corner as at the press, and is left behind by
  what was scrolled otherwise, because the pixels are converted without the scroll bars.  The simulator is
  given the same place in metres.
\<close>

theorem drag_follows_pointer:
  assumes "linear_canvas tk l t" "view_zoom w > 0" "view_zoom w' > 0"
    and "node_drag w = None" "sim_position w n = Some p"
    and "for_each (user_step topo tk) w (PressNode 2 a n # ops @ [MoveOver n b]) = Inr w'" "ReleaseNode 2 \<notin> set ops"
  shows "node_position (scene_of w') n =
       (3 * fst p + (fst (canvas_under tk w' b) - fst (canvas_under tk w a)) - (fst (view_corner tk w') - fst (view_corner tk w)),
        3 * snd p + (snd (canvas_under tk w' b) - snd (canvas_under tk w a)) - (snd (view_corner tk w') - snd (view_corner tk w)))
     \<and> sim_position w' n = Some (transform_point_canvas_to_simulation (node_position (scene_of w') n))"
proof -
  define d where "d = \<lparr>canvas0 = to_canvas tk (view_zoom w) a, sim0 = p\<rparr>"
  define w1 where "w1 = w\<lparr>node_drag := Some d\<rparr>"
  have "user_step topo tk w (PressNode 2 a n) = Inr w1"
    using assms(4,5) by (simp add: user_step_def on_node_button_press_event_def begin_node_drag_def w1_def d_def)
  then obtain w2 where w2: "for_each (user_step topo tk) w1 ops = Inr w2" "user_step topo tk w2 (MoveOver n b) = Inr w'"
    using assms(6) by (auto simp: for_each_append rbind_Inr_iff)
  have "node_drag w2 = Some d \<and> sim_position w2 n \<noteq> None"
    using drag_kept [OF w2(1) assms(7), of d n] assms(5) by (simp add: w1_def)
  then have w': "w' = (let canvas = to_canvas tk (view_zoom w2) b;
      pos = (fst p + transform_distance_canvas_to_simulation (fst canvas - fst (canvas0 d)),
             snd p + transform_distance_canvas_to_simulation (snd canvas - snd (canvas0 d)))
    in w2\<lparr>sim_position := (sim_position w2)(n \<mapsto> pos),
          scene_of := set_position n (transform_point_simulation_to_canvas pos) (scene_of w2)\<rparr>)"
    using w2(2) by (auto simp: user_step_def node_drag_motion_def Let_def d_def)
  have moved: "node_position (scene_of w') n =
       (3 * fst p + (fst (to_canvas tk (view_zoom w') b) - fst (to_canvas tk (view_zoom w) a)),
        3 * snd p + (snd (to_canvas tk (view_zoom w') b) - snd (to_canvas tk (view_zoom w) a)))
     \<and> sim_position w' n = Some (transform_point_canvas_to_simulation (node_position (scene_of w') n))"
    unfolding w' by (simp add: Let_def d_def transform_point_simulation_to_canvas_def transform_point_canvas_to_simulation_def
      transform_distance_canvas_to_simulation_def PIXELS_PER_METER_def field_simps)
  have lin: "to_canvas tk z q = (fst q / z + l, snd q / z + t)" if "z > 0" for z q
    using assms(1) that unfolding linear_canvas_def by blast
  have "to_canvas tk (view_zoom v) q = (fst (canvas_under tk v q) - fst (view_corner tk v) + l,
      snd (canvas_under tk v q) - snd (view_corner tk v) + t)" if "view_zoom v > 0" for v q
    using that by (simp add: canvas_under_def view_corner_def lin add_divide_distrib)
  from this [OF assms(2)] this [OF assms(3)] moved show ?thesis by simp
qed

definition drag_session :: "user_op list" where
  "drag_session = [ScrollWheel ScrollUp, PressNode 2 (9, 9) 1, PressCanvas 2 (1, 1), ScrollTo (5, 10)]"

lemma drag_session_runs:
  "\<exists>w. for_each (user_step pair_topology plain_toolkit) (new_window pair_topology one_node)
       (PressNode 2 (10, 0) 0 # drag_session @ [MoveOver 0 (50, 25)]) = Inr w
     \<and> view_zoom w = 5 / 4 \<and> h_scroll w = 5 \<and> v_scroll w = 10"
  by (simp add: drag_session_def user_step_def on_node_button_press_event_def begin_node_drag_def new_window_def
      canvas_scroll_event_def canvas_button_press_def begin_panning_def node_drag_motion_def Let_def pair_topology_def
      plain_toolkit_def)

text \<open>The point under the pointer moves by (34, 28), the corner of the view by (4, 8), the node by (30, 20).\<close>

theorem drag_follows_pointer_witness:
  "case for_each (user_step pair_topology plain_toolkit) (new_window pair_topology one_node)
      (PressNode 2 (10, 0) 0 # drag_session @ [MoveOver 0 (50, 25)]) of
     Inl e \<Rightarrow> False
   | Inr w \<Rightarrow> canvas_under plain_toolkit w (50, 25) = (44, 28) \<and> view_corner plain_toolkit w = (4, 8)
      \<and> node_position (scene_of w) 0 = (33, 26) \<and> sim_position w 0 = Some (11, 26 / 3)"
proof -
  obtain w where w: "for_each (user_step pair_topology plain_toolkit) (new_window pair_topology one_node)
      (PressNode 2 (10, 0) 0 # drag_session @ [MoveOver 0 (50, 25)]) = Inr w"
    "view_zoom w = 5 / 4" "h_scroll w = 5" "v_scroll w = 10"
    using drag_session_runs by blast
  have start: "node_drag (new_window pair_topology one_node) = None"
    "sim_position (new_window pair_topology one_node) 0 = Some (1, 2)" "ReleaseNode 2 \<notin> set drag_session"
    "view_zoom (new_window pair_topology one_node) = 1" "h_scroll (new_window pair_topology one_node) = 0"
    "v_scroll (new_window pair_topology one_node) = 0"
    by (simp_all add: new_window_def pair_topology_def drag_session_def)
  have "linear_canvas plain_toolkit 0 0" by (simp add: linear_canvas_def plain_toolkit_def)
  note moved = drag_follows_pointer [OF this _ _ start(1,2) w(1) start(3)]
  have view: "canvas_under plain_toolkit w (50, 25) = (44, 28)" "view_corner plain_toolkit w = (4, 8)"
    "canvas_under plain_toolkit (new_window pair_topology one_node) (10, 0) = (10, 0)"
    "view_corner plain_toolkit (new_window pair_topology one_node) = (0, 0)"
    by (simp_all add: canvas_under_def view_corner_def plain_toolkit_def w(2-4) start(4-6))
  show ?thesis
    using moved unfolding w(1) sum.case view
    by (simp add: w(2) start(4) transform_point_canvas_to_simulation_def PIXELS_PER_METER_def)
qed

text \<open>A node without a mobility model cannot be taken, nor a second node while one is taken.\<close>

lemma begin_drag_refused:
  "sim_position w n = None \<or> node_drag w \<noteq> None \<Longrightarrow> begin_node_drag tk n a w = w"
  by (auto simp: begin_node_drag_def split: option.splits)

lemma motion_after_release:
  "node_drag_motion tk n b (end_node_drag w) = (False, end_node_drag w)"
  by (simp add: node_drag_motion_def end_node_drag_def split: option.splits)

section \<open>The first scaling\<close>

text \<open>One coordinate: the middle of the interval comes to the middle of the page.\<close>

lemma centred_margin:
  fixes x :: rat
  assumes "lo \<le> x" "x \<le> hi" "z > 0" "z * (3 / 2 * (hi - lo)) \<le> page"
  shows "page / 6 \<le> (x - l) * z - ((lo + hi) / 2 - page / z / 2 - l) * z"
    "(x - l) * z - ((lo + hi) / 2 - page / z / 2 - l) * z \<le> page - page / 6"
proof -
  have eq: "(x - l) * z - ((lo + hi) / 2 - page / z / 2 - l) * z = (x - (lo + hi) / 2) * z + page / 2"
    using assms(3) by (simp add: field_simps)
  have "(x - (lo + hi) / 2) * z \<le> (hi - lo) / 2 * z" "(lo - hi) / 2 * z \<le> (x - (lo + hi) / 2) * z"
    using assms by (auto intro!: mult_right_mono simp: field_simps)
  moreover have "(hi - lo) / 2 * z \<le> page / 3" using assms(4) by (simp add: field_simps)
  moreover have "(lo - hi) / 2 * z = - ((hi - lo) / 2 * z)" by (simp add: field_simps)
  ultimately show "page / 6 \<le> (x - l) * z - ((lo + hi) / 2 - page / z / 2 - l) * z"
    "(x - l) * z - ((lo + hi) / 2 - page / z / 2 - l) * z \<le> page - page / 6"
    unfolding eq by linarith+
qed

definition xs_of :: "window \<Rightarrow> rat set" where
  "xs_of w = (\<lambda>n. fst (node_position (scene_of w) n)) ` set (dkeys (nodes (scene_of w)))"

definition ys_of :: "window \<Rightarrow> rat set" where
  "ys_of w = (\<lambda>n. snd (node_position (scene_of w) n)) ` set (dkeys (nodes (scene_of w)))"

text \<open>
  The values of one scaling at the zoom \<open>z0\<close>: the new zoom and the places of the scroll bars.  The
  adjustments accept them when they answer them back, which those of GTK do inside their limits.
\<close>

definition extent :: "rat set \<Rightarrow> rat" where
  "extent S = Max S - Min S"

definition fit_zoom :: "toolkit \<Rightarrow> rat \<Rightarrow> window \<Rightarrow> rat" where
  "fit_zoom tk z0 w = min (page_h tk / (3 / 2 * (extent (xs_of w) * z0))) (page_v tk / (3 / 2 * (extent (ys_of w) * z0)))"

definition fit_scroll :: "rat \<Rightarrow> rat \<Rightarrow> rat \<Rightarrow> rat set \<Rightarrow> rat" where
  "fit_scroll l page z S = ((Min S + Max S) / 2 - page / z / 2 - l) * z"

definition accepts_fit :: "toolkit \<Rightarrow> rat \<Rightarrow> rat \<Rightarrow> rat \<Rightarrow> window \<Rightarrow> bool" where
  "accepts_fit tk l t z0 w \<longleftrightarrow>
     (let z = fit_zoom tk z0 w
      in set_zoom tk z = z \<and> set_h tk z (fit_scroll l (page_h tk) z (xs_of w)) = fit_scroll l (page_h tk) z (xs_of w)
         \<and> set_v tk z (fit_scroll t (page_v tk) z (ys_of w)) = fit_scroll t (page_v tk) z (ys_of w))"

lemma autoscale_unfold:
  fixes topo tk w
  defines "v \<equiv> window_positions topo tk w"
  assumes canvas: "linear_canvas tk l t" "accepts_fit tk l t (view_zoom w) v" "view_zoom w > 0" "nodes (scene_of w) \<noteq> []"
    and extent: "extent (xs_of v) > 0" "extent (ys_of v) > 0" "page_h tk > 0" "page_v tk > 0"
  defines "z \<equiv> fit_zoom tk (view_zoom w) v"
  shows "autoscale_view topo tk w = v\<lparr>view_zoom := z,
      h_scroll := fit_scroll l (page_h tk) z (xs_of v), v_scroll := fit_scroll t (page_v tk) z (ys_of v)\<rparr>" and "z > 0"
proof -
  have vz: "view_zoom v = view_zoom w" by (simp add: v_def window_positions_frame)
  have pos: "page_h tk / (3 / 2 * (extent (xs_of v) * view_zoom w)) > 0" "page_v tk / (3 / 2 * (extent (ys_of v) * view_zoom w)) > 0"
    using extent canvas(3) by simp_all
  then show z: "z > 0" by (simp add: z_def fit_zoom_def)
  have keep: "set_zoom tk z = z" "set_h tk z (fit_scroll l (page_h tk) z (xs_of v)) = fit_scroll l (page_h tk) z (xs_of v)"
    "set_v tk z (fit_scroll t (page_v tk) z (ys_of v)) = fit_scroll t (page_v tk) z (ys_of v)"
    using canvas(2) by (simp_all add: accepts_fit_def Let_def z_def)
  have lin: "to_pixels tk q p = ((fst p - l) * q, (snd p - t) * q)" "q > 0 \<Longrightarrow> to_canvas tk q p = (fst p / q + l, snd p / q + t)" for q p
    using canvas(1) unfolding linear_canvas_def by blast+
  have sets: "set (map fst (map (node_position (scene_of v)) (dkeys (nodes (scene_of v))))) = xs_of v"
    "set (map snd (map (node_position (scene_of v)) (dkeys (nodes (scene_of v))))) = ys_of v"
    by (simp_all add: xs_of_def ys_of_def image_image)
  have px: "(Max (xs_of v) - l) * view_zoom w - (Min (xs_of v) - l) * view_zoom w = extent (xs_of v) * view_zoom w"
    "(Max (ys_of v) - t) * view_zoom w - (Min (ys_of v) - t) * view_zoom w = extent (ys_of v) * view_zoom w"
    by (simp_all add: extent_def algebra_simps)
  have nonzero: "3 / 2 * (extent (xs_of v) * view_zoom w) \<noteq> 0" "3 / 2 * (extent (ys_of v) * view_zoom w) \<noteq> 0"
    using extent canvas(3) by simp_all
  have scroll: "((Min S + Max S) / 2 - ((s + page) / z - s / z) / 2 - c) * z = fit_scroll c page z S" for S s page c
    by (simp add: fit_scroll_def add_divide_distrib)
  show "autoscale_view topo tk w = v\<lparr>view_zoom := z,
      h_scroll := fit_scroll l (page_h tk) z (xs_of v), v_scroll := fit_scroll t (page_v tk) z (ys_of v)\<rparr>"
    using canvas(4) nonzero z
    unfolding autoscale_view_def Let_def v_def [symmetric] sets lin(1) vz prod.case fst_conv snd_conv px
      fit_zoom_def [of tk "view_zoom w" v, symmetric] z_def [symmetric]
    by (simp add: keep(1) lin(2) [OF z] scroll keep(2,3))
qed

lemma autoscale_scene:
  "nodes (scene_of w) \<noteq> [] \<Longrightarrow> scene_of (autoscale_view topo tk w) = scene_of (window_positions topo tk w)"
  by (simp add: autoscale_view_def Let_def split: prod.splits)

lemma spread_pos:
  fixes S :: "rat set"
  assumes "finite S" "x \<in> S" "y \<in> S" "x \<noteq> y"
  shows "Max S - Min S > 0"
proof -
  have "Min S \<le> x" "x \<le> Max S" "Min S \<le> y" "y \<le> Max S" using assms by simp_all
  then show ?thesis using assms(4) by linarith
qed

text \<open>
  Claim C20.  When the canvas is shown at its own size, as at the start, and converts linearly, the scaling of the
  view shows every node, with a sixth of the page free on each side, whenever the nodes differ in both
  coordinates and the zoom and the two scroll bars accept the three values that this scaling gives
  them, that is, when these are inside their limits (0.01 to 9 for the zoom).
\<close>

theorem autoscale_fits:
  assumes "linear_canvas tk l t" "accepts_fit tk l t 1 w'" "page_h tk > 0" "page_v tk > 0" "view_zoom w = 1"
    and "autoscale_view topo tk w = w'"
    and "\<exists>m k. m \<in> set (dkeys (nodes (scene_of w'))) \<and> k \<in> set (dkeys (nodes (scene_of w')))
          \<and> fst (node_position (scene_of w') m) \<noteq> fst (node_position (scene_of w') k)"
    and "\<exists>m k. m \<in> set (dkeys (nodes (scene_of w'))) \<and> k \<in> set (dkeys (nodes (scene_of w')))
          \<and> snd (node_position (scene_of w') m) \<noteq> snd (node_position (scene_of w') k)"
    and "n \<in> set (dkeys (nodes (scene_of w')))"
  shows "case to_pixels tk (view_zoom w') (node_position (scene_of w') n) of (px, py) \<Rightarrow>
       h_scroll w' + page_h tk / 6 \<le> px \<and> px \<le> h_scroll w' + page_h tk - page_h tk / 6
     \<and> v_scroll w' + page_v tk / 6 \<le> py \<and> py \<le> v_scroll w' + page_v tk - page_v tk / 6"
proof -
  define v where "v = window_positions topo tk w"
  have ne: "nodes (scene_of w) \<noteq> []" using assms(6,9) by (auto simp: autoscale_view_def)
  have sc: "scene_of w' = scene_of v" using autoscale_scene [OF ne, of topo tk] assms(6) by (simp add: v_def)
  have px: "to_pixels tk q p = ((fst p - l) * q, (snd p - t) * q)" for q p
    using assms(1) unfolding linear_canvas_def by blast
  have same: "xs_of w' = xs_of v" "ys_of w' = ys_of v" by (simp_all add: xs_of_def ys_of_def sc)
  have fin: "finite (xs_of v)" "finite (ys_of v)" by (simp_all add: xs_of_def ys_of_def)
  have spreads: "extent (xs_of v) > 0" "extent (ys_of v) > 0"
    using assms(7,8) spread_pos [OF fin(1)] spread_pos [OF fin(2)] unfolding sc xs_of_def ys_of_def extent_def by blast+
  have accepts: "accepts_fit tk l t (view_zoom w) v"
    using assms(2,5) by (simp add: accepts_fit_def fit_zoom_def same)
  define z where "z = fit_zoom tk 1 v"
  have z: "z > 0" and w': "w' = v\<lparr>view_zoom := z,
      h_scroll := fit_scroll l (page_h tk) z (xs_of v), v_scroll := fit_scroll t (page_v tk) z (ys_of v)\<rparr>"
    using autoscale_unfold [OF assms(1) accepts [unfolded v_def] _ ne spreads [unfolded v_def] assms(3,4), folded v_def]
      assms(5,6) by (simp_all add: z_def)
  have "fst (node_position (scene_of v) n) \<in> xs_of v" "snd (node_position (scene_of v) n) \<in> ys_of v"
    using assms(9) by (simp_all add: sc xs_of_def ys_of_def)
  moreover have "z * (3 / 2 * extent (xs_of v)) \<le> page_h tk" "z * (3 / 2 * extent (ys_of v)) \<le> page_v tk"
    using spreads pos_le_divide_eq [of "3 / 2 * extent (xs_of v)" z "page_h tk"]
      pos_le_divide_eq [of "3 / 2 * extent (ys_of v)" z "page_v tk"] by (simp_all add: z_def fit_zoom_def)
  ultimately show ?thesis
    using centred_margin [of "Min (xs_of v)" "fst (node_position (scene_of v) n)" "Max (xs_of v)" z "page_h tk" l]
      centred_margin [of "Min (ys_of v)" "snd (node_position (scene_of v) n)" "Max (ys_of v)" z "page_v tk" t]
      px z fin by (simp add: w' fit_scroll_def extent_def)
qed

text \<open>Two nodes, 20 metres apart in x and 10 in y, on a page of 600 by 450 pixels.\<close>

definition two_nodes :: scene where
  "two_nodes = get_node 1 (get_node 0 empty_scene)"

definition moving_topology :: topology where
  "moving_topology = pair_topology\<lparr>mobility := (\<lambda>n. Some (20 * of_nat n, 10 * of_nat n))\<rparr>"

definition two_window :: window where
  "two_window = new_window moving_topology two_nodes"

lemma two_nodes_keys: "dkeys (nodes two_nodes) = [0, 1]"
  by (simp add: two_nodes_def get_node_def empty_scene_def dkeys_def dset_def dget_def)

lemma two_nodes_scene:
  fixes tk
  defines "sc \<equiv> scene_of (autoscale_view moving_topology tk two_window)"
  shows "set (dkeys (nodes sc)) = {0, 1} \<and> node_position sc 0 = (0, 0) \<and> node_position sc 1 = (60, 30)"
proof -
  have sw: "scene_of two_window = two_nodes" "nodes (scene_of two_window) \<noteq> []"
    using two_nodes_keys dkeys_Nil_iff [of "nodes two_nodes"] by (simp_all add: two_window_def new_window_def)
  have "scene_inv two_nodes" unfolding two_nodes_def by (intro scene_inv_get scene_inv_empty)
  moreover have "mobility_remembered moving_topology two_nodes"
    by (simp add: mobility_remembered_def two_nodes_def) (simp add: empty_scene_def node_at_def new_node_def
        restyle_def unstyled_node_def Let_def)
  moreover have k: "known_node two_nodes 0" "known_node two_nodes 1"
    by (simp_all add: known_node_def two_nodes_def get_node_def empty_scene_def)
  ultimately have f: "same_wiring two_nodes (fst (foldl (update_node_position moving_topology fo follow) (two_nodes, v) [0, 1]))
    \<and> (\<forall>n p. n \<in> set [0, 1] \<and> mobility moving_topology n = Some p \<longrightarrow>
         node_position (fst (foldl (update_node_position moving_topology fo follow) (two_nodes, v) [0, 1])) n
           = transform_point_simulation_to_canvas p)" for fo follow and v :: window
    using update_node_positions_ok [of two_nodes moving_topology "[0, 1]" _ fo follow v] by auto
  define fo where "fo = follow_node two_window"
  define follow where "follow = scroll_to_middle tk"
  have sc: "sc = fst (foldl (update_node_position moving_topology fo follow) (two_nodes, two_window) [0, 1])"
    unfolding sc_def autoscale_scene [OF sw(2)] window_positions_frame update_node_positions_def fst_conv sw(1) two_nodes_keys
      fo_def follow_def ..
  have m: "mobility moving_topology 0 = Some (0, 0)" "mobility moving_topology 1 = Some (20, 10)"
    by (simp_all add: moving_topology_def)
  have pos: "node_position sc 0 = transform_point_simulation_to_canvas (0, 0)"
    "node_position sc 1 = transform_point_simulation_to_canvas (20, 10)"
    using f [of fo follow two_window] m unfolding sc by (metis list.set_intros(1), metis list.set_intros)
  have "known_end sc (NodeEnd n) = known_end two_nodes (NodeEnd n)" for n
    using f [of fo follow two_window] unfolding sc same_wiring_def by blast
  then have "dom (dget (nodes sc)) = dom (dget (nodes two_nodes))" by (auto simp: known_node_def dom_def)
  then have "set (dkeys (nodes sc)) = {0, 1}" unfolding pd.set_keys [symmetric] two_nodes_keys by simp
  then show ?thesis using pos by (simp add: transform_point_simulation_to_canvas_def PIXELS_PER_METER_def)
qed

text \<open>
  The toolkit as it is at the start: the canvas goes from -10000 to 10000, the zoom is kept between 0.01 and
  9 (its upper limit of 10 less the page of 1), the scroll bars between 0 and the size less the page.
\<close>

definition gtk_toolkit :: toolkit where
  "gtk_toolkit = \<lparr>set_h = (\<lambda>z x. max 0 (min (20000 * z - 600) x)), set_v = (\<lambda>z x. max 0 (min (20000 * z - 450) x)),
     set_zoom = (\<lambda>z. max (1 / 100) (min 9 z)), page_h = 600, page_v = 450,
     to_canvas = (\<lambda>z p. (fst p / z - 10000, snd p / z - 10000)),
     to_pixels = (\<lambda>z p. ((fst p + 10000) * z, (snd p + 10000) * z))\<rparr>"

theorem autoscale_fits_witness:
  "case autoscale_view moving_topology gtk_toolkit two_window of w \<Rightarrow>
     h_scroll w + 100 \<le> 10060 * view_zoom w \<and> 10060 * view_zoom w \<le> h_scroll w + 500
     \<and> v_scroll w + 75 \<le> 10030 * view_zoom w \<and> 10030 * view_zoom w \<le> v_scroll w + 375"
proof -
  define w where "w = autoscale_view moving_topology gtk_toolkit two_window"
  have f: "set (dkeys (nodes (scene_of w))) = {0, 1}" "node_position (scene_of w) 0 = (0, 0)" "node_position (scene_of w) 1 = (60, 30)"
    using two_nodes_scene [of gtk_toolkit] by (simp_all add: w_def)
  have ex: "\<exists>m k. m \<in> set (dkeys (nodes (scene_of w))) \<and> k \<in> set (dkeys (nodes (scene_of w)))
       \<and> g (node_position (scene_of w) m) \<noteq> g (node_position (scene_of w) k)" if "g (0, 0) \<noteq> g (60, 30)" for g :: "point \<Rightarrow> rat"
    using f that by (intro exI [of _ 0] exI [of _ 1]) simp
  have "xs_of w = {0, 60}" "ys_of w = {0, 30}" using f by (simp_all add: xs_of_def ys_of_def)
  then have "accepts_fit gtk_toolkit (- 10000) (- 10000) 1 w"
    by (simp add: accepts_fit_def fit_zoom_def fit_scroll_def extent_def gtk_toolkit_def Let_def)
  moreover have "linear_canvas gtk_toolkit (- 10000) (- 10000)" "page_h gtk_toolkit = 600" "page_v gtk_toolkit = 450"
    "view_zoom two_window = 1" "to_pixels gtk_toolkit z p = ((fst p + 10000) * z, (snd p + 10000) * z)" for z p
    by (simp_all add: linear_canvas_def gtk_toolkit_def two_window_def new_window_def)
  ultimately show ?thesis
    using autoscale_fits [of gtk_toolkit "- 10000" "- 10000" w two_window moving_topology 1, OF _ _ _ _ _ w_def [symmetric] ex ex] f
    by (simp add: w_def [symmetric])
qed

text \<open>
  The extents are measured in pixels of the zoom in force and then used as if it were 1: the new
  zoom is too small by the factor of the old one, and scaling twice undoes the first.
\<close>

lemma autoscale_zoom:
  fixes topo tk w
  defines "v \<equiv> window_positions topo tk w"
  assumes "linear_canvas tk l t" "accepts_fit tk l t (view_zoom w) v" "view_zoom w > 0" "nodes (scene_of w) \<noteq> []"
    and "extent (xs_of v) > 0" "extent (ys_of v) > 0" "page_h tk > 0" "page_v tk > 0"
  shows "view_zoom (autoscale_view topo tk w) * view_zoom w
    = min (page_h tk / (3 / 2 * extent (xs_of v))) (page_v tk / (3 / 2 * extent (ys_of v)))"
proof -
  have "view_zoom (autoscale_view topo tk w) = fit_zoom tk (view_zoom w) v"
    using arg_cong [where f = view_zoom, OF autoscale_unfold(1) [OF assms(2) assms(3-) [unfolded v_def]]]
    by (simp add: v_def)
  then show ?thesis using assms(4) by (simp add: fit_zoom_def min_mult_distrib_right)
qed

end
