(* ===== verification/VizTraffic.thy ===== *)
theory VizTraffic
  imports VizView
begin

text \<open>
  What the visualizer shows of the packets, \<open>visualizer/core.py\<close>: the samples of the last periods,
  the average of each pair of nodes, and the arrows with their labels, which are taken from a pool
  of canvas items that is hidden and drawn again at every update.  Lengths are rationals, the widths
  that come of a logarithm and the angles are reals; the clipping of a line to the page is done by
  the simulator's library and is an argument, as the format \<open>%.2f\<close> is.
\<close>

section \<open>The samples of the last periods\<close>

record transmission =
  transmitter :: nat
  receiver :: nat
  bytes :: nat

record packet_drop =
  drop_transmitter :: nat
  drop_bytes :: nat

fun pop_while_longer :: "int \<Rightarrow> 'a list \<Rightarrow> py_error + 'a list" where
  "pop_while_longer k [] = (if 0 > k then Inl IndexError else Inr [])"
| "pop_while_longer k (x # xs) = (if int (length (x # xs)) > k then pop_while_longer k xs else Inr (x # xs))"

text \<open>\<open>smoothing\<close> is the value of the adjustment; \<open>int\<close> cuts it off towards zero.\<close>

definition py_int :: "rat \<Rightarrow> int" where
  "py_int q = (if q \<ge> 0 then \<lfloor>q\<rfloor> else \<lceil>q\<rceil>)"

definition do_simulation_periodic_update ::
    "rat \<Rightarrow> transmission list \<Rightarrow> packet_drop list \<Rightarrow> transmission list list \<times> packet_drop list list
      \<Rightarrow> py_error + transmission list list \<times> packet_drop list list" where
  "do_simulation_periodic_update smoothing transmissions drops last_lists =
     (let smooth_factor = py_int (smoothing * 10)
      in rbind (pop_while_longer smooth_factor (fst last_lists @ [transmissions])) (\<lambda>last_transmissions.
         rbind (pop_while_longer smooth_factor (snd last_lists @ [drops])) (\<lambda>last_drops.
           Inr (last_transmissions, last_drops))))"

lemma pop_while_longer_eq: "k \<ge> 0 \<Longrightarrow> pop_while_longer k xs = Inr (drop (length xs - nat k) xs)"
proof (induction xs)
  case (Cons x xs)
  then show ?case by (cases "int (length (x # xs)) > k") (auto simp: Suc_diff_le nat_le_iff)
qed simp

lemma pop_while_longer_negative: "k < 0 \<Longrightarrow> pop_while_longer k xs = Inl IndexError"
  by (induction xs) simp_all

lemma drop_window: "drop (length (drop (length xs - n) xs @ [x]) - n) (drop (length xs - n) xs @ [x]) = drop (length (xs @ [x]) - n) (xs @ [x])"
  by (cases "length xs \<le> n") (auto simp: Suc_diff_le)

text \<open>After any number of periods the lists hold the last ones, at most as many as the adjustment asks.\<close>

lemma samples_window:
  assumes "smoothing \<ge> 0"
  shows "for_each (\<lambda>s (t, d). do_simulation_periodic_update smoothing t d s) ([], []) periods
    = Inr (drop (length periods - nat (py_int (smoothing * 10))) (map fst periods),
           drop (length periods - nat (py_int (smoothing * 10))) (map snd periods))"
proof (induction periods rule: rev_induct)
  case (snoc p ps)
  have "py_int (smoothing * 10) \<ge> 0" using assms by (simp add: py_int_def)
  then show ?case using snoc drop_window [of "map fst ps" "nat (py_int (smoothing * 10))" "fst p"]
      drop_window [of "map snd ps" "nat (py_int (smoothing * 10))" "snd p"]
    by (simp add: for_each_append do_simulation_periodic_update_def Let_def pop_while_longer_eq case_prod_beta)
qed simp

section \<open>Averages\<close>

definition add_sample :: "('k, nat \<times> nat) dict \<Rightarrow> 'k \<Rightarrow> nat \<Rightarrow> ('k, nat \<times> nat) dict" where
  "add_sample d key n =
     (case dget d key of
        Some (sum_bytes, samples) \<Rightarrow> dset d key (sum_bytes + n, samples + 1)
      | None \<Rightarrow> dset d key (n, 1))"

definition transmissions_average :: "transmission list list \<Rightarrow> (nat \<times> nat, nat \<times> nat) dict" where
  "transmissions_average sets =
     foldl (foldl (\<lambda>d t. add_sample d (transmitter t, receiver t) (bytes t))) [] sets"

definition drops_average :: "packet_drop list list \<Rightarrow> (nat, nat \<times> nat) dict" where
  "drops_average sets = foldl (foldl (\<lambda>d t. add_sample d (drop_transmitter t) (drop_bytes t))) [] sets"

lemma foldl_concat: "foldl (foldl f) z xss = foldl f z (concat xss)"
  by (induction xss arbitrary: z) simp_all

text \<open>What a key holds, of the samples that have it.\<close>

definition key_sums :: "nat list \<Rightarrow> (nat \<times> nat) option" where
  "key_sums ns = (if ns = [] then None else Some (sum_list ns, length ns))"

lemma key_sums_Nil [simp]: "key_sums [] = None"
  by (simp add: key_sums_def)

lemma key_sums_snoc:
  "key_sums (ns @ [n]) = Some (case key_sums ns of None \<Rightarrow> (n, 1) | Some (b, c) \<Rightarrow> (b + n, c + 1))"
  by (simp add: key_sums_def)

lemma dget_add_sample:
  "dget (add_sample d key n) k =
     (if k = key then Some (case dget d key of None \<Rightarrow> (n, 1) | Some (b, c) \<Rightarrow> (b + n, c + 1)) else dget d k)"
  by (simp add: add_sample_def split: option.splits prod.splits)

lemma dict_inv_add_sample: "dict_inv d \<Longrightarrow> dict_inv (add_sample d key n)"
  by (simp add: add_sample_def split: option.splits prod.splits)

lemma add_samples:
  "dict_inv (foldl (\<lambda>d t. add_sample d (key t) (amount t)) [] ts)
   \<and> (\<forall>k. dget (foldl (\<lambda>d t. add_sample d (key t) (amount t)) [] ts) k = key_sums (map amount (filter (\<lambda>t. key t = k) ts)))"
  by (induction ts rule: rev_induct) (simp_all add: dget_add_sample dict_inv_add_sample key_sums_snoc)

definition recent :: "rat \<Rightarrow> 'a list \<Rightarrow> 'a list" where
  "recent smoothing xs = drop (length xs - nat (py_int (smoothing * 10))) xs"

text \<open>
  After any number of periods the averages are those of the last periods, as many as the
  adjustment asks for: a pair of nodes has an entry exactly when the first sent to the second in one
  of them, and it holds the sum of the bytes and the number of its samples.
\<close>

theorem transmissions_average_result:
  assumes "smoothing \<ge> 0"
    and "for_each (\<lambda>s (t, d). do_simulation_periodic_update smoothing t d s) ([], []) periods = Inr (last_transmissions, last_drops)"
  shows "dget (transmissions_average last_transmissions) (a, b) =
      (let ts = filter (\<lambda>t. transmitter t = a \<and> receiver t = b) (concat (recent smoothing (map fst periods)))
       in if ts = [] then None else Some (sum_list (map bytes ts), length ts))"
proof -
  have "last_transmissions = recent smoothing (map fst periods)"
    using assms by (simp add: samples_window recent_def)
  then show ?thesis
    using add_samples [of "\<lambda>t. (transmitter t, receiver t)" bytes "concat last_transmissions"]
    by (simp add: transmissions_average_def foldl_concat key_sums_def Let_def)
qed

section \<open>Arrows and labels\<close>

text \<open>The text of a label is a number with an arrow after or before it, or none.\<close>

datatype glyph = NoArrow | RightwardsArrow | LeftwardsArrow

datatype anchor = AnchorCentre | AnchorNorth | AnchorSouth

record overlay_item =
  arrow_visible :: bool
  line_width :: real
  arrow_points :: "(point \<times> point) option"
  label_visible :: bool
  label_font :: string
  label_text :: "string \<times> glyph"
  label_anchor :: anchor
  label_x :: real
  label_y :: real
  label_matrix :: "(point \<times> real) option"

text \<open>An item is the polyline and the text; the pool holds those that an update may draw again.\<close>

record overlay =
  item_at :: "nat \<Rightarrow> overlay_item"
  pool :: "nat list"
  items_made :: nat

definition new_item :: overlay_item where
  "new_item = \<lparr>arrow_visible = True, line_width = 2, arrow_points = None, label_visible = True, label_font = [],
     label_text = ([], NoArrow), label_anchor = AnchorCentre, label_x = 0, label_y = 0, label_matrix = None\<rparr>"

definition change_item :: "nat \<Rightarrow> (overlay_item \<Rightarrow> overlay_item) \<Rightarrow> overlay \<Rightarrow> overlay" where
  "change_item i f ov = ov\<lparr>item_at := (item_at ov)(i := f (item_at ov i))\<rparr>"

definition hide_item :: "overlay_item \<Rightarrow> overlay_item" where
  "hide_item it = it\<lparr>arrow_visible := False, label_visible := False\<rparr>"

definition hide_pool :: "overlay \<Rightarrow> overlay" where
  "hide_pool ov = foldl (\<lambda>ov i. change_item i hide_item ov) ov (pool ov)"

text \<open>\<open>old_arrows.pop()\<close>, and a new polyline and text when the pool is empty.\<close>

definition take_item :: "overlay \<Rightarrow> nat \<times> overlay" where
  "take_item ov =
     (if pool ov = [] then (items_made ov, (change_item (items_made ov) (\<lambda>_. new_item) ov)\<lparr>items_made := items_made ov + 1\<rparr>)
      else (List.last (pool ov), ov\<lparr>pool := butlast (pool ov)\<rparr>))"

definition atan2 :: "real \<Rightarrow> real \<Rightarrow> real" where
  "atan2 y x =
     (if x > 0 then arctan (y / x)
      else if x < 0 then (if y \<ge> 0 then arctan (y / x) + pi else arctan (y / x) - pi)
      else if y > 0 then pi / 2 else if y < 0 then - (pi / 2) else 0)"

definition PI_OVER_2 :: real where
  "PI_OVER_2 = pi / 2"

definition BITRATE_FONT_SIZE :: rat where
  "BITRATE_FONT_SIZE = 10"

text \<open>\<open>math.log\<close> of a number that is not positive raises.\<close>

definition log_width :: "nat \<Rightarrow> nat \<Rightarrow> rat \<Rightarrow> rat \<Rightarrow> py_error + real" where
  "log_width n samples period k =
     (let r = of_nat n / of_nat samples / period
      in if r > 0 then Inr (max (1 / 10) (ln (of_rat r) * of_rat k)) else Inl ValueError)"

definition kbit_per_s :: "nat \<Rightarrow> nat \<Rightarrow> rat \<Rightarrow> rat" where
  "kbit_per_s n samples period = of_nat (n * 8) / 1000 / of_nat samples / period"

text \<open>
  The page in canvas coordinates, the line clipped to it, and the middle of what is left.  The
  clipping is \<open>PyViz::LineClipping\<close> of the simulator's library.
\<close>

type_synonym clipping = "point \<times> point \<Rightarrow> point \<times> point \<Rightarrow> point \<times> point"

definition get_label_over_line_position :: "clipping \<Rightarrow> toolkit \<Rightarrow> window \<Rightarrow> point \<Rightarrow> point \<Rightarrow> point" where
  "get_label_over_line_position clip tk w p1 p2 =
     (let b1 = to_canvas tk (view_zoom w) (h_scroll w, v_scroll w);
          b2 = to_canvas tk (view_zoom w) (h_scroll w + page_h tk, v_scroll w + page_v tk);
          (q1, q2) = clip (b1, b2) (p1, p2)
      in ((fst q1 + fst q2) / 2, (snd q1 + snd q2) / 2))"

definition place_label :: "(rat \<Rightarrow> string) \<Rightarrow> string \<Rightarrow> rat \<Rightarrow> point \<Rightarrow> real \<Rightarrow> real \<Rightarrow> overlay_item \<Rightarrow> overlay_item" where
  "place_label fixed2 font kbps middle angle width it =
     (let it = it\<lparr>label_visible := True, label_font := font\<rparr>;
          it = (if - PI_OVER_2 \<le> angle \<and> angle \<le> PI_OVER_2
                then it\<lparr>label_text := (fixed2 kbps @ '' kbit/s '', RightwardsArrow), label_anchor := AnchorSouth,
                        label_x := 0, label_y := - width / 2\<rparr>
                else it\<lparr>label_text := ('' '' @ fixed2 kbps @ '' kbit/s'', LeftwardsArrow), label_anchor := AnchorNorth,
                        label_x := 0, label_y := width / 2\<rparr>)
      in it\<lparr>label_matrix := Some (middle, angle)\<rparr>)"

section \<open>The updates\<close>

text \<open>
  What an update uses: the clipping, the canvas, the format, how an integer is written, the sample
  period and the size of the nodes.
\<close>

record display =
  clip_line :: clipping
  canvas_of :: toolkit
  fixed2 :: "rat \<Rightarrow> string"
  show_int :: "int \<Rightarrow> string"
  sample_period :: rat
  node_size :: rat

definition text_scale :: "display \<Rightarrow> rat" where
  "text_scale env = node_size env / 5"

text \<open>One pair of nodes.  When the logarithm raises, the item has been taken and made visible.\<close>

definition draw_transmission ::
    "display \<Rightarrow> (nat \<times> nat) \<times> (nat \<times> nat) \<Rightarrow> window \<times> overlay \<Rightarrow> (window \<times> overlay) \<times> (py_error + nat)" where
  "draw_transmission env entry st =
     (case entry of ((transmitter_id, receiver_id), (rx_bytes, rx_count)) \<Rightarrow>
        let w = fst st;
            w = w\<lparr>scene_of := get_node receiver_id (get_node transmitter_id (scene_of w))\<rparr>;
            (i, ov) = take_item (snd st);
            ov = change_item i (\<lambda>it. it\<lparr>arrow_visible := True\<rparr>) ov
        in case log_width rx_bytes rx_count (sample_period env) (text_scale env) of
             Inl e \<Rightarrow> ((w, ov), Inl e)
           | Inr width \<Rightarrow>
               let pos1 = node_position (scene_of w) transmitter_id;
                   pos2 = node_position (scene_of w) receiver_id;
                   kbps = kbit_per_s rx_bytes rx_count (sample_period env);
                   font = ''Sans Serif '' @ show_int env (py_int (1 + BITRATE_FONT_SIZE * text_scale env)) @ ''.000000'';
                   angle = atan2 (of_rat (snd pos2 - snd pos1)) (of_rat (fst pos2 - fst pos1));
                   middle = get_label_over_line_position (clip_line env) (canvas_of env) w pos1 pos2;
                   ov = change_item i (\<lambda>it. place_label (fixed2 env) font kbps middle angle width
                          (it\<lparr>line_width := width, arrow_points := Some (pos1, pos2)\<rparr>)) ov
               in ((w, ov), Inr i))"

text \<open>A drop falls to the lower edge of the page.\<close>

definition draw_drop ::
    "display \<Rightarrow> rat \<Rightarrow> nat \<times> (nat \<times> nat) \<Rightarrow> window \<times> overlay \<Rightarrow> (window \<times> overlay) \<times> (py_error + nat)" where
  "draw_drop env edge_y entry st =
     (case entry of (transmitter_id, (sum_bytes, drop_count)) \<Rightarrow>
        let w = fst st;
            w = w\<lparr>scene_of := get_node transmitter_id (scene_of w)\<rparr>;
            (i, ov) = take_item (snd st);
            ov = change_item i (\<lambda>it. it\<lparr>arrow_visible := True\<rparr>) ov
        in case log_width sum_bytes drop_count (sample_period env) (text_scale env) of
             Inl e \<Rightarrow> ((w, ov), Inl e)
           | Inr width \<Rightarrow>
               let pos1 = node_position (scene_of w) transmitter_id;
                   pos2 = (fst pos1, edge_y);
                   ov = change_item i (\<lambda>it. it\<lparr>line_width := width, arrow_points := Some (pos1, pos2),
                          label_visible := True,
                          label_font := ''Sans Serif '' @ show_int env (py_int (1 + BITRATE_FONT_SIZE * text_scale env)),
                          label_text := (fixed2 env (kbit_per_s sum_bytes drop_count (sample_period env)) @ '' kbit/s'', NoArrow),
                          label_x := of_rat ((fst pos1 + fst pos2) / 2), label_y := of_rat ((snd pos1 + snd pos2) / 2)\<rparr>) ov
               in ((w, ov), Inr i))"

text \<open>The entries in turn; the items drawn are put before what is left of the pool at the end.\<close>

fun draw_all ::
    "('e \<Rightarrow> window \<times> overlay \<Rightarrow> (window \<times> overlay) \<times> (py_error + nat)) \<Rightarrow> 'e list \<Rightarrow> nat list
      \<Rightarrow> window \<times> overlay \<Rightarrow> (window \<times> overlay) \<times> py_error option" where
  "draw_all draw [] new_arrows st = ((fst st, (snd st)\<lparr>pool := new_arrows @ pool (snd st)\<rparr>), None)"
| "draw_all draw (e # es) new_arrows st =
     (case draw e st of
        (st, Inl err) \<Rightarrow> (st, Some err)
      | (st, Inr i) \<Rightarrow> draw_all draw es (new_arrows @ [i]) st)"

definition update_transmissions_view ::
    "display \<Rightarrow> transmission list list \<Rightarrow> window \<times> overlay \<Rightarrow> (window \<times> overlay) \<times> py_error option" where
  "update_transmissions_view env last_transmissions st =
     draw_all (draw_transmission env) (transmissions_average last_transmissions) [] (fst st, hide_pool (snd st))"

definition update_drops_view ::
    "display \<Rightarrow> packet_drop list list \<Rightarrow> window \<times> overlay \<Rightarrow> (window \<times> overlay) \<times> py_error option" where
  "update_drops_view env last_drops st =
     (let w = fst st;
          bottom_y = v_scroll w + page_v (canvas_of env);
          edge_y = snd (to_canvas (canvas_of env) (view_zoom w) (0, bottom_y))
      in draw_all (draw_drop env edge_y) (drops_average last_drops) [] (w, hide_pool (snd st)))"

section \<open>Drawing from the pool\<close>

text \<open>What drawing does not change: the places of the nodes and the part of the canvas that is seen.\<close>

definition same_view :: "window \<Rightarrow> window \<Rightarrow> bool" where
  "same_view w w' \<longleftrightarrow> (\<exists>sc. w' = w\<lparr>scene_of := sc\<rparr> \<and> (\<forall>n. node_position sc n = node_position (scene_of w) n))"

lemma same_view_refl [simp]: "same_view w w"
  unfolding same_view_def by (intro exI [of _ "scene_of w"]) simp

lemma same_view_trans: "same_view u v \<Longrightarrow> same_view v w \<Longrightarrow> same_view u w"
  by (auto simp: same_view_def)

lemma same_view_frame:
  "same_view w w' \<Longrightarrow> h_scroll w' = h_scroll w" "same_view w w' \<Longrightarrow> v_scroll w' = v_scroll w"
  "same_view w w' \<Longrightarrow> view_zoom w' = view_zoom w"
  "same_view w w' \<Longrightarrow> node_position (scene_of w') n = node_position (scene_of w) n"
  by (auto simp: same_view_def)

text \<open>The pool has no item twice and only items that have been made; the others are hidden.\<close>

definition pool_ok :: "overlay \<Rightarrow> nat list \<Rightarrow> bool" where
  "pool_ok ov taken \<longleftrightarrow> distinct (pool ov @ taken) \<and> (\<forall>i\<in>set (pool ov @ taken). i < items_made ov)"

definition overlay_inv :: "overlay \<Rightarrow> bool" where
  "overlay_inv ov \<longleftrightarrow> pool_ok ov []
     \<and> (\<forall>i. i \<notin> set (pool ov) \<longrightarrow> \<not> arrow_visible (item_at ov i) \<and> \<not> label_visible (item_at ov i))"

lemma change_item_simps [simp]:
  "pool (change_item i f ov) = pool ov" "items_made (change_item i f ov) = items_made ov"
  "item_at (change_item i f ov) j = (if j = i then f (item_at ov i) else item_at ov j)"
  by (simp_all add: change_item_def)

lemma hide_pool_simps [simp]:
  "pool (hide_pool ov) = pool ov" "items_made (hide_pool ov) = items_made ov"
  "item_at (hide_pool ov) i = (if i \<in> set (pool ov) then hide_item (item_at ov i) else item_at ov i)"
proof -
  have f: "pool (foldl (\<lambda>ov i. change_item i hide_item ov) v is) = pool v
    \<and> items_made (foldl (\<lambda>ov i. change_item i hide_item ov) v is) = items_made v
    \<and> item_at (foldl (\<lambda>ov i. change_item i hide_item ov) v is) i
        = (if i \<in> set is then hide_item (item_at v i) else item_at v i)" for v "is"
    by (induction "is" arbitrary: v) (auto simp: hide_item_def)
  show "pool (hide_pool ov) = pool ov" "items_made (hide_pool ov) = items_made ov"
    "item_at (hide_pool ov) i = (if i \<in> set (pool ov) then hide_item (item_at ov i) else item_at ov i)"
    using f by (simp_all add: hide_pool_def)
qed

lemma take_item_ok:
  assumes "pool_ok ov taken" "take_item ov = (i, ov')"
  shows "pool_ok ov' (taken @ [i])" "pool ov' = butlast (pool ov)" "items_made ov \<le> items_made ov'"
    "i \<in> set (pool ov) \<or> i \<ge> items_made ov" "j \<noteq> i \<Longrightarrow> item_at ov' j = item_at ov j"
proof -
  show "pool_ok ov' (taken @ [i])" "pool ov' = butlast (pool ov)" "items_made ov \<le> items_made ov'"
    "i \<in> set (pool ov) \<or> i \<ge> items_made ov" "j \<noteq> i \<Longrightarrow> item_at ov' j = item_at ov j"
    using assms by (cases "pool ov" rule: rev_cases; auto simp: take_item_def pool_ok_def less_Suc_eq)+
qed

text \<open>
  What the two updates share: an entry that can be drawn takes an item and makes it a picture of
  the entry, and one that cannot leaves the item it took visible, with an exception.
\<close>

locale pool_drawing =
  fixes draw :: "'e \<Rightarrow> window \<times> overlay \<Rightarrow> (window \<times> overlay) \<times> (py_error + nat)"
    and drawable :: "'e \<Rightarrow> bool"
    and depicts :: "'e \<Rightarrow> window \<Rightarrow> overlay_item \<Rightarrow> bool"
  assumes draw_ok: "drawable e \<Longrightarrow> take_item ov = (i, ov1) \<Longrightarrow>
      \<exists>w' f. draw e (w, ov) = ((w', change_item i f ov1), Inr i) \<and> same_view w w' \<and> depicts e w (f (item_at ov1 i))"
    and draw_fail: "\<not> drawable e \<Longrightarrow> take_item ov = (i, ov1) \<Longrightarrow>
      \<exists>w'. draw e (w, ov) = ((w', change_item i (\<lambda>it. it\<lparr>arrow_visible := True\<rparr>) ov1), Inl ValueError)"
    and depicts_same: "same_view w w' \<Longrightarrow> depicts e w' it \<longleftrightarrow> depicts e w it"
    and depicts_visible: "depicts e w it \<Longrightarrow> arrow_visible it \<and> label_visible it"
begin

lemma draw_all_ok:
  assumes "\<forall>e\<in>set es. drawable e" "pool_ok ov taken"
  shows "\<exists>w' ov' ids. draw_all draw es taken (w, ov) = ((w', ov'), None) \<and> same_view w w' \<and> pool_ok ov' []
    \<and> pool ov' = taken @ ids @ take (length (pool ov) - length es) (pool ov)
    \<and> list_all2 (\<lambda>e i. depicts e w (item_at ov' i)) es ids
    \<and> (\<forall>i\<in>set ids. i \<in> set (pool ov) \<or> i \<ge> items_made ov)
    \<and> (\<forall>i. i \<notin> set ids \<longrightarrow> item_at ov' i = item_at ov i)"
  using assms
proof (induction es arbitrary: taken w ov)
  case Nil
  have "pool_ok (ov\<lparr>pool := taken @ pool ov\<rparr>) []" using Nil(2) by (auto simp: pool_ok_def)
  then show ?case by (intro exI [of _ w] exI [of _ "ov\<lparr>pool := taken @ pool ov\<rparr>"] exI [of _ "[]"]) simp
next
  case (Cons e es)
  obtain i ov1 where t: "take_item ov = (i, ov1)" by (cases "take_item ov")
  obtain w1 f where d: "draw e (w, ov) = ((w1, change_item i f ov1), Inr i)" "same_view w w1" "depicts e w (f (item_at ov1 i))"
    using draw_ok [OF _ t] Cons.prems(1) by (metis list.set_intros(1))
  define ov2 where "ov2 = change_item i f ov1"
  note k = take_item_ok [OF Cons.prems(2) t]
  have "pool_ok ov2 (taken @ [i])" using k(1) by (simp add: ov2_def pool_ok_def)
  from Cons.IH [OF _ this, of w1] Cons.prems(1) obtain w' ov' ids where
    r: "draw_all draw es (taken @ [i]) (w1, ov2) = ((w', ov'), None)" "same_view w1 w'" "pool_ok ov' []"
      "pool ov' = (taken @ [i]) @ ids @ take (length (pool ov2) - length es) (pool ov2)"
      "list_all2 (\<lambda>e i. depicts e w1 (item_at ov' i)) es ids"
      "\<forall>i\<in>set ids. i \<in> set (pool ov2) \<or> i \<ge> items_made ov2" "\<forall>i. i \<notin> set ids \<longrightarrow> item_at ov' i = item_at ov2 i"
    by auto
  have i: "i \<notin> set ids" using r(6) k(1) by (auto simp: ov2_def pool_ok_def)
  have "list_all2 (\<lambda>e i. depicts e w (item_at ov' i)) (e # es) (i # ids)"
    using r(5,7) i d(2,3) depicts_same [OF d(2)] by (simp add: ov2_def)
  moreover have "pool ov' = taken @ (i # ids) @ take (length (pool ov) - length (e # es)) (pool ov)"
    using r(4) k(2) by (simp add: ov2_def take_butlast butlast_conv_take min_def)
  moreover have "\<forall>j\<in>set (i # ids). j \<in> set (pool ov) \<or> j \<ge> items_made ov"
    using r(6) k(2-4) by (auto simp: ov2_def dest: in_set_butlastD)
  moreover have "\<forall>j. j \<notin> set (i # ids) \<longrightarrow> item_at ov' j = item_at ov j"
    using r(7) k(5) by (simp add: ov2_def)
  moreover have "draw_all draw (e # es) taken (w, ov) = ((w', ov'), None)" using r(1) d(1) by (simp add: ov2_def)
  ultimately show ?case using r(3) same_view_trans [OF d(2) r(2)] by blast
qed

text \<open>An update of a sound overlay shows one item for every entry and nothing else, and keeps all items.\<close>

lemma update_shows:
  assumes "\<forall>e\<in>set es. drawable e" "overlay_inv ov"
  shows "\<exists>w' ov' ids. draw_all draw es [] (w, hide_pool ov) = ((w', ov'), None) \<and> same_view w w' \<and> overlay_inv ov'
    \<and> distinct ids \<and> list_all2 (\<lambda>e i. depicts e w (item_at ov' i)) es ids
    \<and> (\<forall>i. (arrow_visible (item_at ov' i) \<longleftrightarrow> i \<in> set ids) \<and> (label_visible (item_at ov' i) \<longleftrightarrow> i \<in> set ids))
    \<and> length (pool ov') = max (length (pool ov)) (length es)"
proof -
  have "pool_ok (hide_pool ov) []" using assms(2) by (simp add: overlay_inv_def pool_ok_def)
  from draw_all_ok [OF assms(1) this, of w] obtain w' ov' ids where
    r: "draw_all draw es [] (w, hide_pool ov) = ((w', ov'), None)" "same_view w w'" "pool_ok ov' []"
      "pool ov' = ids @ take (length (pool ov) - length es) (pool ov)"
      "list_all2 (\<lambda>e i. depicts e w (item_at ov' i)) es ids"
      "\<forall>i. i \<notin> set ids \<longrightarrow> item_at ov' i = item_at (hide_pool ov) i"
    by auto
  have out: "\<not> arrow_visible (item_at ov' i) \<and> \<not> label_visible (item_at ov' i)" if "i \<notin> set ids" for i
    using r(6) that assms(2) by (simp add: overlay_inv_def hide_item_def)
  have "arrow_visible (item_at ov' i) \<and> label_visible (item_at ov' i)" if "i \<in> set ids" for i
    using r(5) that depicts_visible by (auto simp: list_all2_conv_all_nth in_set_conv_nth)
  moreover have "distinct ids" "overlay_inv ov'" using r(3,4) out by (auto simp: overlay_inv_def pool_ok_def)
  moreover have "length (pool ov') = max (length (pool ov)) (length es)"
    using list_all2_lengthD [OF r(5)] by (simp add: r(4))
  ultimately show ?thesis using r(1,2,5) out by blast
qed

text \<open>An entry that cannot be drawn: the item it took is visible and no update finds it again.\<close>

lemma draw_all_fail:
  assumes "\<not> drawable e" "overlay_inv ov"
  shows "\<exists>w' ov' i. draw_all draw (e # es) [] (w, hide_pool ov) = ((w', ov'), Some ValueError)
    \<and> arrow_visible (item_at ov' i) \<and> i \<notin> set (pool ov')"
proof -
  obtain i ov1 where t: "take_item (hide_pool ov) = (i, ov1)" by (cases "take_item (hide_pool ov)")
  have "pool_ok (hide_pool ov) []" using assms(2) by (simp add: overlay_inv_def pool_ok_def)
  from take_item_ok(1) [OF this t] have "i \<notin> set (pool ov1)" by (simp add: pool_ok_def)
  moreover obtain w' where "draw e (w, hide_pool ov) = ((w', change_item i (\<lambda>it. it\<lparr>arrow_visible := True\<rparr>) ov1), Inl ValueError)"
    using draw_fail [OF assms(1) t] by blast
  ultimately show ?thesis
    by (intro exI [of _ w'] exI [of _ "change_item i (\<lambda>it. it\<lparr>arrow_visible := True\<rparr>) ov1"] exI [of _ i]) simp
qed

end

text \<open>The logarithm takes only a positive rate.\<close>

definition entry_drawable :: "display \<Rightarrow> nat \<times> nat \<Rightarrow> bool" where
  "entry_drawable env x \<longleftrightarrow> of_nat (fst x) / of_nat (snd x) / sample_period env > 0"

definition rate_width :: "display \<Rightarrow> nat \<times> nat \<Rightarrow> real" where
  "rate_width env x = max (1 / 10) (ln (of_rat (of_nat (fst x) / of_nat (snd x) / sample_period env)) * of_rat (text_scale env))"

lemma log_width_eq:
  "log_width (fst x) (snd x) (sample_period env) (text_scale env)
    = (if entry_drawable env x then Inr (rate_width env x) else Inl ValueError)"
  by (simp add: log_width_def Let_def entry_drawable_def rate_width_def)

text \<open>The arrow goes from node to node; the label lies along it and tells the rate.\<close>

definition shows_transmission :: "display \<Rightarrow> (nat \<times> nat) \<times> (nat \<times> nat) \<Rightarrow> window \<Rightarrow> overlay_item \<Rightarrow> bool" where
  "shows_transmission env e w it \<longleftrightarrow>
     (let p = node_position (scene_of w) (fst (fst e)); q = node_position (scene_of w) (snd (fst e));
          angle = atan2 (of_rat (snd q - snd p)) (of_rat (fst q - fst p));
          rate = fixed2 env (kbit_per_s (fst (snd e)) (snd (snd e)) (sample_period env))
      in arrow_visible it \<and> label_visible it \<and> arrow_points it = Some (p, q) \<and> line_width it = rate_width env (snd e)
       \<and> label_matrix it = Some (get_label_over_line_position (clip_line env) (canvas_of env) w p q, angle)
       \<and> label_text it = (if - PI_OVER_2 \<le> angle \<and> angle \<le> PI_OVER_2
            then (rate @ '' kbit/s '', RightwardsArrow) else ('' '' @ rate @ '' kbit/s'', LeftwardsArrow)))"

definition shows_drop :: "display \<Rightarrow> rat \<Rightarrow> nat \<times> (nat \<times> nat) \<Rightarrow> window \<Rightarrow> overlay_item \<Rightarrow> bool" where
  "shows_drop env edge_y e w it \<longleftrightarrow>
     (let p = node_position (scene_of w) (fst e)
      in arrow_visible it \<and> label_visible it \<and> arrow_points it = Some (p, (fst p, edge_y))
       \<and> line_width it = rate_width env (snd e)
       \<and> label_text it = (fixed2 env (kbit_per_s (fst (snd e)) (snd (snd e)) (sample_period env)) @ '' kbit/s'', NoArrow))"

lemma same_view_label:
  "same_view w w' \<Longrightarrow> get_label_over_line_position clip tk w' p q = get_label_over_line_position clip tk w p q"
  by (simp add: get_label_over_line_position_def same_view_frame)

lemma same_view_nodes: "(\<And>n. node_position sc n = node_position (scene_of w) n) \<Longrightarrow> same_view w (w\<lparr>scene_of := sc\<rparr>)"
  unfolding same_view_def by blast

lemma node_position_get [simp]: "node_position (get_node n sc) m = node_position sc m"
  by (simp add: node_position_def)

lemma change_item_twice: "change_item i g (change_item i f ov) = change_item i (\<lambda>it. g (f it)) ov"
  by (simp add: change_item_def)

lemma draw_transmission_ok:
  assumes "entry_drawable env (snd e)" "take_item ov = (i, ov1)"
  shows "\<exists>w' f. draw_transmission env e (w, ov) = ((w', change_item i f ov1), Inr i) \<and> same_view w w'
    \<and> shows_transmission env e w (f (item_at ov1 i))"
proof -
  obtain a b n c where e: "e = ((a, b), (n, c))" by (metis surj_pair)
  define w' where "w' = w\<lparr>scene_of := get_node b (get_node a (scene_of w))\<rparr>"
  have same: "same_view w w'" unfolding w'_def by (intro same_view_nodes) simp
  have "log_width n c (sample_period env) (text_scale env) = Inr (rate_width env (n, c))"
    using log_width_eq [of "(n, c)" env] assms(1) by (simp add: e)
  then have "draw_transmission env e (w, ov) = ((w', change_item i (\<lambda>it.
      place_label (fixed2 env) (''Sans Serif '' @ show_int env (py_int (1 + BITRATE_FONT_SIZE * text_scale env)) @ ''.000000'')
        (kbit_per_s n c (sample_period env))
        (get_label_over_line_position (clip_line env) (canvas_of env) w' (node_position (scene_of w) a) (node_position (scene_of w) b))
        (atan2 (of_rat (snd (node_position (scene_of w) b) - snd (node_position (scene_of w) a)))
           (of_rat (fst (node_position (scene_of w) b) - fst (node_position (scene_of w) a))))
        (rate_width env (n, c))
        (it\<lparr>arrow_visible := True, line_width := rate_width env (n, c),
            arrow_points := Some (node_position (scene_of w) a, node_position (scene_of w) b)\<rparr>)) ov1), Inr i)"
    using assms(2) by (simp add: draw_transmission_def e Let_def w'_def change_item_twice)
  then show ?thesis using same
    by (intro exI conjI) (assumption, assumption, simp add: shows_transmission_def e Let_def place_label_def same_view_label)
qed

lemma draw_drop_ok:
  assumes "entry_drawable env (snd e)" "take_item ov = (i, ov1)"
  shows "\<exists>w' f. draw_drop env edge_y e (w, ov) = ((w', change_item i f ov1), Inr i) \<and> same_view w w'
    \<and> shows_drop env edge_y e w (f (item_at ov1 i))"
proof -
  obtain a n c where e: "e = (a, (n, c))" by (metis surj_pair)
  have same: "same_view w (w\<lparr>scene_of := get_node a (scene_of w)\<rparr>)" by (intro same_view_nodes) simp
  have "log_width n c (sample_period env) (text_scale env) = Inr (rate_width env (n, c))"
    using log_width_eq [of "(n, c)" env] assms(1) by (simp add: e)
  then obtain f where "draw_drop env edge_y e (w, ov)
      = ((w\<lparr>scene_of := get_node a (scene_of w)\<rparr>, change_item i f ov1), Inr i)"
    "f = (\<lambda>it. it\<lparr>arrow_visible := True, line_width := rate_width env (n, c),
        arrow_points := Some (node_position (scene_of w) a, (fst (node_position (scene_of w) a), edge_y)),
        label_visible := True,
        label_font := ''Sans Serif '' @ show_int env (py_int (1 + BITRATE_FONT_SIZE * text_scale env)),
        label_text := (fixed2 env (kbit_per_s n c (sample_period env)) @ '' kbit/s'', NoArrow),
        label_x := of_rat ((fst (node_position (scene_of w) a) + fst (node_position (scene_of w) a)) / 2),
        label_y := of_rat ((snd (node_position (scene_of w) a) + edge_y) / 2)\<rparr>)"
    using assms(2) by (simp add: draw_drop_def e Let_def change_item_twice)
  then show ?thesis using same
    by (intro exI conjI) (assumption, assumption, simp add: shows_drop_def e Let_def)
qed

interpretation transmissions: pool_drawing "draw_transmission env" "\<lambda>e. entry_drawable env (snd e)" "shows_transmission env" for env
proof
  show "\<exists>w' f. draw_transmission env e (w, ov) = ((w', change_item i f ov1), Inr i) \<and> same_view w w'
      \<and> shows_transmission env e w (f (item_at ov1 i))"
    if "entry_drawable env (snd e)" "take_item ov = (i, ov1)" for e ov i ov1 w
    using draw_transmission_ok [OF that] .
  show "\<exists>w'. draw_transmission env e (w, ov) = ((w', change_item i (\<lambda>it. it\<lparr>arrow_visible := True\<rparr>) ov1), Inl ValueError)"
    if "\<not> entry_drawable env (snd e)" "take_item ov = (i, ov1)" for e ov i ov1 w
    using that log_width_eq [of "snd e" env] by (simp add: draw_transmission_def Let_def case_prod_beta)
  show "shows_transmission env e w' it \<longleftrightarrow> shows_transmission env e w it" if "same_view w w'" for w w' e it
    using that by (simp add: shows_transmission_def Let_def same_view_frame same_view_label)
  show "arrow_visible it \<and> label_visible it" if "shows_transmission env e w it" for e w it
    using that by (simp add: shows_transmission_def Let_def)
qed

interpretation drops: pool_drawing "draw_drop env edge_y" "\<lambda>e. entry_drawable env (snd e)" "shows_drop env edge_y" for env edge_y
proof
  show "\<exists>w' f. draw_drop env edge_y e (w, ov) = ((w', change_item i f ov1), Inr i) \<and> same_view w w'
      \<and> shows_drop env edge_y e w (f (item_at ov1 i))"
    if "entry_drawable env (snd e)" "take_item ov = (i, ov1)" for e ov i ov1 w
    using draw_drop_ok [OF that] .
  show "\<exists>w'. draw_drop env edge_y e (w, ov) = ((w', change_item i (\<lambda>it. it\<lparr>arrow_visible := True\<rparr>) ov1), Inl ValueError)"
    if "\<not> entry_drawable env (snd e)" "take_item ov = (i, ov1)" for e ov i ov1 w
    using that log_width_eq [of "snd e" env] by (simp add: draw_drop_def Let_def case_prod_beta)
  show "shows_drop env edge_y e w' it \<longleftrightarrow> shows_drop env edge_y e w it" if "same_view w w'" for w w' e it
    using that by (simp add: shows_drop_def Let_def same_view_frame)
  show "arrow_visible it \<and> label_visible it" if "shows_drop env edge_y e w it" for e w it
    using that by (simp add: shows_drop_def Let_def)
qed

section \<open>What is shown\<close>

lemma samples_drawable:
  assumes "dict_inv d" "e \<in> set d" "\<forall>k. dget d k = key_sums (map amount (ts k))" "\<forall>k. \<forall>t\<in>set (ts k). amount t > 0"
    and "sample_period env > 0"
  shows "entry_drawable env (snd e)"
proof -
  obtain k x where e: "e = (k, x)" by (cases e)
  have "dget d k = Some x" using assms(1,2) unfolding e by (simp add: dget_def dict_inv_def dkeys_def)
  then have s: "key_sums (map amount (ts k)) = Some x" using assms(3) by simp
  then have "ts k \<noteq> []" by auto
  then obtain t us where "ts k = t # us" by (cases "ts k") auto
  then have "fst x > 0 \<and> snd x > 0" using s assms(4) [rule_format, of t k] by (auto simp: key_sums_def)
  then show ?thesis using assms(5) by (simp add: entry_drawable_def e)
qed

lemma average_entry:
  assumes "e \<in> set (transmissions_average sets)" "\<forall>ts\<in>set sets. \<forall>t\<in>set ts. bytes t > 0" "sample_period env > 0"
  shows "entry_drawable env (snd e)"
proof -
  let ?d = "transmissions_average sets"
  note a = add_samples [of "\<lambda>t. (transmitter t, receiver t)" bytes "concat sets"]
  have d: "?d = foldl (\<lambda>d t. add_sample d (transmitter t, receiver t) (bytes t)) [] (concat sets)"
    by (simp add: transmissions_average_def foldl_concat)
  show ?thesis
    by (rule samples_drawable [of ?d e bytes "\<lambda>k. filter (\<lambda>t. (transmitter t, receiver t) = k) (concat sets)"])
      (use a assms in \<open>auto simp: d [symmetric]\<close>)
qed

text \<open>
  When every packet of the last periods has a size, the update of the view shows one
  arrow and one label for each pair of nodes that has sent and received, from the one to the other,
  as wide and labelled as its average says, and nothing else; items that are not needed stay in the
  pool, hidden, and a new one is made only when the pool is used up.
\<close>

theorem transmissions_shown:
  assumes "overlay_inv ov" "sample_period env > 0" "\<forall>ts\<in>set sets. \<forall>t\<in>set ts. bytes t > 0"
    and "update_transmissions_view env sets (w, ov) = ((w', ov'), err)"
  shows "err = None \<and> overlay_inv ov' \<and> length (pool ov') = max (length (pool ov)) (length (transmissions_average sets))
     \<and> (\<exists>ids. distinct ids \<and> list_all2 (\<lambda>e i. shows_transmission env e w (item_at ov' i)) (transmissions_average sets) ids
        \<and> (\<forall>i. (arrow_visible (item_at ov' i) \<longleftrightarrow> i \<in> set ids) \<and> (label_visible (item_at ov' i) \<longleftrightarrow> i \<in> set ids)))"
proof -
  have "\<forall>e\<in>set (transmissions_average sets). entry_drawable env (snd e)"
    using average_entry assms(2,3) by blast
  from transmissions.update_shows [OF this assms(1), of w] show ?thesis
    using assms(4) by (auto simp: update_transmissions_view_def)
qed

definition plain_display :: display where
  "plain_display = \<lparr>clip_line = (\<lambda>b l. l), canvas_of = plain_toolkit, fixed2 = (\<lambda>q. ''0''), show_int = (\<lambda>n. ''1''),
     sample_period = 1 / 10, node_size = 7\<rparr>"

definition no_overlay :: overlay where
  "no_overlay = \<lparr>item_at = (\<lambda>_. hide_item new_item), pool = [], items_made = 0\<rparr>"

definition two_samples :: "transmission list list" where
  "two_samples = [[\<lparr>transmitter = 0, receiver = 1, bytes = 100\<rparr>, \<lparr>transmitter = 1, receiver = 0, bytes = 50\<rparr>],
     [\<lparr>transmitter = 0, receiver = 1, bytes = 300\<rparr>]]"

lemma two_averages: "transmissions_average two_samples = [((0, 1), (400, 2)), ((1, 0), (50, 1))]"
  by code_simp

theorem transmissions_shown_witness:
  "case update_transmissions_view plain_display two_samples (new_window pair_topology one_node, no_overlay) of
     ((w, ov), err) \<Rightarrow> err = None \<and> card {i. arrow_visible (item_at ov i)} = 2"
proof -
  obtain w ov err where r: "update_transmissions_view plain_display two_samples (new_window pair_topology one_node, no_overlay)
      = ((w, ov), err)" by (metis surj_pair)
  have "overlay_inv no_overlay" "sample_period plain_display > 0" "\<forall>ts\<in>set two_samples. \<forall>t\<in>set ts. bytes t > 0"
    by (simp_all add: overlay_inv_def pool_ok_def no_overlay_def hide_item_def plain_display_def two_samples_def)
  from transmissions_shown [OF this r] obtain ids where err: "err = None" and ids: "distinct ids"
      "list_all2 (\<lambda>e i. shows_transmission plain_display e (new_window pair_topology one_node) (item_at ov i))
        (transmissions_average two_samples) ids" "\<forall>i. arrow_visible (item_at ov i) \<longleftrightarrow> i \<in> set ids"
    by blast
  have "{i. arrow_visible (item_at ov i)} = set ids" "length ids = 2"
    using ids(3) list_all2_lengthD [OF ids(2)] by (auto simp: two_averages)
  then show ?thesis using r err ids(1) distinct_card [of ids] by simp
qed

text \<open>
  A pair of nodes whose packets were all empty makes the logarithm raise; its item stays on the
  canvas, and no later update hides it.
\<close>

lemma empty_packets_leak:
  assumes "overlay_inv ov" "transmissions_average sets = (k, (0, n)) # es"
  shows "\<exists>w' ov' i. update_transmissions_view env sets (w, ov) = ((w', ov'), Some ValueError)
    \<and> arrow_visible (item_at ov' i) \<and> i \<notin> set (pool ov')"
  using transmissions.draw_all_fail [of env "(k, (0, n))" ov es w] assms
  by (simp add: update_transmissions_view_def entry_drawable_def)

text \<open>The two ways of writing the label: which one is used depends on the side of the receiver.\<close>

lemma atan2_upright: "(- PI_OVER_2 \<le> atan2 y x \<and> atan2 y x \<le> PI_OVER_2) \<longleftrightarrow> x \<ge> 0"
proof -
  have b: "- (pi / 2) < arctan z" "arctan z < pi / 2" for z using arctan_bounded [of z] by simp_all
  consider "x > 0" | "x = 0" | "x < 0" "y \<ge> 0" | "x < 0" "y < 0" by linarith
  then show ?thesis
  proof cases
    case 3
    then have "arctan (y / x) \<le> 0" by (simp add: divide_nonneg_neg)
    moreover have "atan2 y x = arctan (y / x) + pi" using 3 by (simp add: atan2_def)
    ultimately show ?thesis using 3 b [of "y / x"] by (auto simp: PI_OVER_2_def)
  next
    case 4
    then have "atan2 y x = arctan (y / x) - pi" by (simp add: atan2_def)
    then show ?thesis using 4 b [of "y / x"] by (auto simp: PI_OVER_2_def)
  qed (use b [of "y / x"] in \<open>auto simp: atan2_def PI_OVER_2_def\<close>)
qed

text \<open>
  A receiver to the left: the text is turned by the full angle, so it runs to the left and is
  upside down, and the arrow written to the left of the rate points away from the receiver.
\<close>

lemma label_upside_down:
  assumes "shows_transmission env ((a, b), x) w it"
    and "fst (node_position (scene_of w) b) < fst (node_position (scene_of w) a)"
  shows "\<exists>text middle angle. label_text it = (text, LeftwardsArrow) \<and> label_matrix it = Some (middle, angle) \<and> cos angle < 0"
proof -
  define dx :: real where "dx = of_rat (fst (node_position (scene_of w) b) - fst (node_position (scene_of w) a))"
  define dy :: real where "dy = of_rat (snd (node_position (scene_of w) b) - snd (node_position (scene_of w) a))"
  have dx: "dx < 0" using assms(2) by (simp add: dx_def)
  have "cos (arctan z + pi) < 0" "cos (arctan z - pi) < 0" for z
    using cos_gt_zero_pi [of "arctan z"] arctan_bounded [of z] by (simp_all add: cos_diff)
  then have "cos (atan2 dy dx) < 0" using dx by (simp add: atan2_def)
  moreover have "\<not> (- PI_OVER_2 \<le> atan2 dy dx \<and> atan2 dy dx \<le> PI_OVER_2)" using dx atan2_upright by simp
  ultimately show ?thesis using assms(1) by (simp add: shows_transmission_def Let_def dx_def dy_def)
qed

section \<open>The whole update of the view\<close>

text \<open>
  The positions, then the information windows, then the two kinds of arrows; the first exception
  ends it.  An information window changes nothing but its own table: \<open>window_error\<close> tells what its
  \<open>update\<close> raises.  The time shown and the signal to the plugins at the end are left out.
\<close>

fun update_information_windows :: "(nat \<Rightarrow> py_error option) \<Rightarrow> nat list \<Rightarrow> py_error option" where
  "update_information_windows window_error [] = None"
| "update_information_windows window_error (i # is) =
     (case window_error i of None \<Rightarrow> update_information_windows window_error is | Some e \<Rightarrow> Some e)"

definition update_view ::
    "display \<Rightarrow> topology \<Rightarrow> (nat \<Rightarrow> py_error option) \<Rightarrow> transmission list list \<times> packet_drop list list
      \<Rightarrow> window \<times> overlay \<times> overlay \<Rightarrow> (window \<times> overlay \<times> overlay) \<times> py_error option" where
  "update_view env topo window_error last_lists st =
     (case st of (w, transmission_arrows, drop_arrows) \<Rightarrow>
        let w = window_positions topo (canvas_of env) w
        in case update_information_windows window_error (information_windows w) of
             Some e \<Rightarrow> ((w, transmission_arrows, drop_arrows), Some e)
           | None \<Rightarrow>
               (case update_transmissions_view env (fst last_lists) (w, transmission_arrows) of
                  ((w, transmission_arrows), Some e) \<Rightarrow> ((w, transmission_arrows, drop_arrows), Some e)
                | ((w, transmission_arrows), None) \<Rightarrow>
                    (case update_drops_view env (snd last_lists) (w, drop_arrows) of
                       ((w, drop_arrows), err) \<Rightarrow> ((w, transmission_arrows, drop_arrows), err))))"

lemma update_windows_none: "\<forall>i. window_error i = None \<Longrightarrow> update_information_windows window_error is = None"
  by (induction "is") simp_all

lemma drop_entry:
  assumes "e \<in> set (drops_average sets)" "\<forall>ts\<in>set sets. \<forall>t\<in>set ts. drop_bytes t > 0" "sample_period env > 0"
  shows "entry_drawable env (snd e)"
proof -
  let ?d = "drops_average sets"
  note a = add_samples [of drop_transmitter drop_bytes "concat sets"]
  have d: "?d = foldl (\<lambda>d t. add_sample d (drop_transmitter t) (drop_bytes t)) [] (concat sets)"
    by (simp add: drops_average_def foldl_concat)
  show ?thesis
    by (rule samples_drawable [of ?d e drop_bytes "\<lambda>k. filter (\<lambda>t. drop_transmitter t = k) (concat sets)"])
      (use a assms in \<open>auto simp: d [symmetric]\<close>)
qed

lemma window_positions_moved:
  assumes "scene_inv (scene_of w)" "mobility_remembered topo (scene_of w)"
    and "n \<in> set (dkeys (nodes (scene_of w)))" "mobility topo n = Some p"
  shows "node_position (scene_of (window_positions topo tk w)) n = transform_point_simulation_to_canvas p"
proof -
  have known: "\<forall>m\<in>set (dkeys (nodes (scene_of w))). known_node (scene_of w) m" by (simp add: known_node_def)
  show ?thesis
    using update_node_positions_ok [OF assms(1,2) known, of _ "follow_node w" "scroll_to_middle tk" w, OF refl] assms(3,4)
    unfolding window_positions_frame update_node_positions_def fst_conv by blast
qed

text \<open>
  Claim C13.  Updating the view of a scanned scene puts every node that moves at its place in the
  simulation and draws the arrows between the places the nodes have now: when every packet has a
  size and no information window raises, nothing is raised, the visible arrows are one for each
  pair that has sent and received and one for each node that has dropped, and both pools stay sound.
\<close>

theorem update_view_shows:
  assumes "overlay_inv ovt" "overlay_inv ovd" "sample_period env > 0" "\<forall>i. window_error i = None"
    and "\<forall>ts\<in>set sets. \<forall>t\<in>set ts. bytes t > 0" "\<forall>ts\<in>set drop_sets. \<forall>t\<in>set ts. drop_bytes t > 0"
    and "scene_inv (scene_of w)" "mobility_remembered topo (scene_of w)"
    and "update_view env topo window_error (sets, drop_sets) (w, ovt, ovd) = ((w', ovt', ovd'), err)"
  shows "err = None \<and> overlay_inv ovt' \<and> overlay_inv ovd'
     \<and> (\<forall>n\<in>set (dkeys (nodes (scene_of w))). \<forall>p. mobility topo n = Some p \<longrightarrow>
          node_position (scene_of w') n = transform_point_simulation_to_canvas p)
     \<and> (\<exists>ids. distinct ids \<and> list_all2 (\<lambda>e i. shows_transmission env e w' (item_at ovt' i)) (transmissions_average sets) ids
          \<and> (\<forall>i. arrow_visible (item_at ovt' i) \<longleftrightarrow> i \<in> set ids))
     \<and> (\<exists>ids edge_y. distinct ids \<and> list_all2 (\<lambda>e i. shows_drop env edge_y e w' (item_at ovd' i)) (drops_average drop_sets) ids
          \<and> (\<forall>i. arrow_visible (item_at ovd' i) \<longleftrightarrow> i \<in> set ids))"
proof -
  define w1 where "w1 = window_positions topo (canvas_of env) w"
  have "\<forall>e\<in>set (transmissions_average sets). entry_drawable env (snd e)" using average_entry assms(3,5) by blast
  from transmissions.update_shows [OF this assms(1), of w1] obtain w2 ovt2 ids where
    t: "update_transmissions_view env sets (w1, ovt) = ((w2, ovt2), None)" "same_view w1 w2" "overlay_inv ovt2" "distinct ids"
      "list_all2 (\<lambda>e i. shows_transmission env e w1 (item_at ovt2 i)) (transmissions_average sets) ids"
      "\<forall>i. arrow_visible (item_at ovt2 i) \<longleftrightarrow> i \<in> set ids"
    by (auto simp: update_transmissions_view_def)
  define edge_y where "edge_y = snd (to_canvas (canvas_of env) (view_zoom w2) (0, v_scroll w2 + page_v (canvas_of env)))"
  have "\<forall>e\<in>set (drops_average drop_sets). entry_drawable env (snd e)" using drop_entry assms(3,6) by blast
  from drops.update_shows [OF this assms(2), of edge_y w2] obtain w3 ovd2 ids2 where
    d: "update_drops_view env drop_sets (w2, ovd) = ((w3, ovd2), None)" "same_view w2 w3" "overlay_inv ovd2" "distinct ids2"
      "list_all2 (\<lambda>e i. shows_drop env edge_y e w2 (item_at ovd2 i)) (drops_average drop_sets) ids2"
      "\<forall>i. arrow_visible (item_at ovd2 i) \<longleftrightarrow> i \<in> set ids2"
    by (auto simp: update_drops_view_def Let_def edge_y_def)
  have r: "w' = w3" "ovt' = ovt2" "ovd' = ovd2" "err = None"
    using assms(9) t(1) d(1) update_windows_none [OF assms(4)] by (simp_all add: update_view_def Let_def w1_def [symmetric])
  have same: "same_view w1 w3" using same_view_trans t(2) d(2) by blast
  have "list_all2 (\<lambda>e i. shows_transmission env e w3 (item_at ovt2 i)) (transmissions_average sets) ids"
    using t(5) by (simp add: transmissions.depicts_same [OF same])
  moreover have "list_all2 (\<lambda>e i. shows_drop env edge_y e w3 (item_at ovd2 i)) (drops_average drop_sets) ids2"
    using d(5) by (simp add: drops.depicts_same [OF d(2)])
  moreover have "\<forall>n\<in>set (dkeys (nodes (scene_of w))). \<forall>p. mobility topo n = Some p \<longrightarrow>
      node_position (scene_of w3) n = transform_point_simulation_to_canvas p"
    using window_positions_moved [OF assms(7,8)] same_view_frame(4) [OF same] by (simp add: w1_def)
  ultimately show ?thesis unfolding r using t(3,4,6) d(3,4,6) by blast
qed

lemma update_view_example:
  "scene_inv (scene_of (new_window pair_topology one_node))" "mobility_remembered pair_topology (scene_of (new_window pair_topology one_node))"
  "dkeys (nodes (scene_of (new_window pair_topology one_node))) = [0]"
proof -
  show "scene_inv (scene_of (new_window pair_topology one_node))"
    by (simp add: new_window_def one_node_def scene_inv_get scene_inv_empty)
  show "mobility_remembered pair_topology (scene_of (new_window pair_topology one_node))"
    by (simp add: mobility_remembered_def new_window_def one_node_def) (simp add: empty_scene_def node_at_def new_node_def
        restyle_def unstyled_node_def Let_def)
  show "dkeys (nodes (scene_of (new_window pair_topology one_node))) = [0]"
    by (simp add: new_window_def one_node_def get_node_def empty_scene_def dkeys_def dset_def)
qed

theorem update_view_shows_witness:
  "case update_view plain_display pair_topology (\<lambda>_. None) (two_samples, [[\<lparr>drop_transmitter = 0, drop_bytes = 5\<rparr>]])
      (new_window pair_topology one_node, no_overlay, no_overlay) of
     ((w, ovt, ovd), err) \<Rightarrow> err = None \<and> node_position (scene_of w) 0 = (3, 6)
       \<and> (\<exists>i. arrow_visible (item_at ovd i) \<and> arrow_points (item_at ovd i) \<noteq> None)"
proof -
  let ?drops = "[[\<lparr>drop_transmitter = 0, drop_bytes = 5\<rparr>]]"
  obtain w ovt ovd err where r: "update_view plain_display pair_topology (\<lambda>_. None) (two_samples, ?drops)
      (new_window pair_topology one_node, no_overlay, no_overlay) = ((w, ovt, ovd), err)" by (metis surj_pair)
  have "overlay_inv no_overlay" "sample_period plain_display > 0" "\<forall>ts\<in>set two_samples. \<forall>t\<in>set ts. bytes t > 0"
    "\<forall>ts\<in>set ?drops. \<forall>t\<in>set ts. drop_bytes t > 0"
    by (simp_all add: overlay_inv_def pool_ok_def no_overlay_def hide_item_def plain_display_def two_samples_def)
  note f = update_view_shows [OF this(1) this(1,2) _ this(3,4) update_view_example(1,2) r]
  have avg: "drops_average ?drops = [(0, (5, 1))]" by code_simp
  have "mobility pair_topology 0 = Some (1, 2)" by (simp add: pair_topology_def)
  then have "err = None" "node_position (scene_of w) 0 = (3, 6)"
    using f unfolding update_view_example(3) by (simp_all add: transform_point_simulation_to_canvas_def PIXELS_PER_METER_def)
  moreover obtain ids edge_y where "list_all2 (\<lambda>e i. shows_drop plain_display edge_y e w (item_at ovd i)) [(0, (5, 1))] ids"
    using f unfolding avg by blast
  then obtain i where "shows_drop plain_display edge_y (0, (5, 1)) w (item_at ovd i)" by (auto simp: list_all2_Cons1)
  then have "arrow_visible (item_at ovd i) \<and> arrow_points (item_at ovd i) \<noteq> None" by (simp add: shows_drop_def Let_def)
  ultimately show ?thesis using r by auto
qed

end
