(* ===== verification/VizPlugins.thy ===== *)
theory VizPlugins
  imports VizTraffic VizThread
begin

text \<open>
  The plugins of the visualizer, \<open>visualizer/plugins\<close>: the links between wireless stations and
  their access points (\<open>wifi_intrastructure_link.py\<close>), the statistics of the interfaces
  (\<open>interface_statistics.py\<close>), the headers that the window of the last packets offers
  (\<open>show_last_packets.py\<close>) and the rows of the routing tables (\<open>ipv4_routing_table.py\<close>,
  \<open>olsr.py\<close>).  Dialogs and menus are not modelled.
\<close>

section \<open>Links to access points\<close>

text \<open>
  A link belongs to the device of a station; the list of links of a node, to which an access point
  adds it, is kept apart from that of the wires.
\<close>

record wifi_link =
  sta :: "nat option"
  ap :: "nat option"
  link_visible :: bool
  visible_line :: "(point \<times> point) option"
  invisible_line :: "(point \<times> point) option"

record wifi =
  position_of :: "nat \<Rightarrow> point"
  wifi_links :: "wifi_link list"
  links_at :: "nat \<Rightarrow> nat list"
  access_points :: "(string, nat) dict"
  stations :: "(nat \<times> nat \<times> nat) list"

text \<open>A wireless device: of a station, of an access point with its address, or another.\<close>

datatype mac_kind = StaWifiMac | ApWifiMac string | OtherMac

record wifi_device =
  dev_id :: nat
  mac :: mac_kind

definition change_link :: "nat \<Rightarrow> (wifi_link \<Rightarrow> wifi_link) \<Rightarrow> wifi \<Rightarrow> wifi" where
  "change_link i f s = s\<lparr>wifi_links := (wifi_links s)[i := f (wifi_links s ! i)]\<rparr>"

definition update_wifi_points :: "nat \<Rightarrow> wifi \<Rightarrow> py_error + wifi" where
  "update_wifi_points i s =
     (case ap (wifi_links s ! i) of
        None \<Rightarrow> Inr s
      | Some b \<Rightarrow>
          (case sta (wifi_links s ! i) of
             None \<Rightarrow> Inl AttributeError
           | Some a \<Rightarrow>
               let line = Some (position_of s a, position_of s b)
               in Inr (change_link i (\<lambda>l. l\<lparr>visible_line := line, invisible_line := line\<rparr>) s)))"

definition set_ap :: "nat \<Rightarrow> nat option \<Rightarrow> wifi \<Rightarrow> py_error + wifi" where
  "set_ap i new_ap s =
     (if new_ap = ap (wifi_links s ! i) then Inr s
      else
        rbind (case ap (wifi_links s ! i) of
            None \<Rightarrow> Inr s
          | Some b \<Rightarrow> if i \<in> set (links_at s b) then Inr (s\<lparr>links_at := (links_at s)(b := remove1 i (links_at s b))\<rparr>)
                       else Inl ValueError) (\<lambda>s.
          let s = change_link i (\<lambda>l. l\<lparr>ap := new_ap\<rparr>) s;
              s = (case new_ap of
                     None \<Rightarrow> change_link i (\<lambda>l. l\<lparr>link_visible := False\<rparr>) s
                   | Some b \<Rightarrow> change_link i (\<lambda>l. l\<lparr>link_visible := True\<rparr>)
                       (s\<lparr>links_at := (links_at s)(b := links_at s b @ [i])\<rparr>))
          in update_wifi_points i s))"

text \<open>The constructor; its \<open>set_ap (None)\<close> returns at once, and the group without lines stays visible.\<close>

definition new_wifi_link :: "nat \<Rightarrow> wifi \<Rightarrow> py_error + (nat \<times> wifi)" where
  "new_wifi_link n s =
     (let i = length (wifi_links s);
          s = s\<lparr>wifi_links := wifi_links s @ [\<lparr>sta = Some n, ap = None, link_visible = True, visible_line = None, invisible_line = None\<rparr>]\<rparr>
      in rbind (set_ap i None s) (\<lambda>s. Inr (i, s)))"

definition destroy_link :: "nat \<Rightarrow> wifi \<Rightarrow> wifi" where
  "destroy_link i = change_link i (\<lambda>l. l\<lparr>link_visible := False, sta := None, ap := None\<rparr>)"

definition scan_wifi_device :: "nat \<Rightarrow> wifi \<Rightarrow> wifi_device \<Rightarrow> py_error + wifi" where
  "scan_wifi_device n s dev =
     (case mac dev of
        StaWifiMac \<Rightarrow> rbind (new_wifi_link n s) (\<lambda>(i, s). Inr (s\<lparr>stations := stations s @ [(dev_id dev, n, i)]\<rparr>))
      | ApWifiMac bssid \<Rightarrow> Inr (s\<lparr>access_points := dset (access_points s) bssid n\<rparr>)
      | OtherMac \<Rightarrow> Inr s)"

definition scan_nodes :: "(nat \<times> wifi_device list) list \<Rightarrow> wifi \<Rightarrow> py_error + wifi" where
  "scan_nodes wifi_nodes s =
     (let s = foldl (\<lambda>s (_, _, i). destroy_link i s) s (stations s);
          s = s\<lparr>access_points := [], stations := []\<rparr>
      in for_each (\<lambda>s (n, devs). for_each (scan_wifi_device n) s devs) s wifi_nodes)"

text \<open>What the simulator tells of the device of a station: whether its link is up, and to whom.\<close>

type_synonym association = "nat \<Rightarrow> bool \<times> string"

definition associate :: "association \<Rightarrow> wifi \<Rightarrow> nat \<times> nat \<times> nat \<Rightarrow> py_error + wifi" where
  "associate radio s entry =
     (case entry of (dev, _, i) \<Rightarrow>
        if \<not> fst (radio dev) then set_ap i None s
        else
          let bssid = snd (radio dev)
          in if bssid = ''00:00:00:00:00:00'' then set_ap i None s
             else (case dget (access_points s) bssid of
                     None \<Rightarrow> Inl KeyError
                   | Some n \<Rightarrow> set_ap i (Some n) s))"

definition wifi_periodic_update :: "association \<Rightarrow> wifi \<Rightarrow> py_error + wifi" where
  "wifi_periodic_update radio s = for_each (associate radio) s (stations s)"

definition wifi_update_view :: "wifi \<Rightarrow> py_error + wifi" where
  "wifi_update_view s = for_each (\<lambda>s e. update_wifi_points (snd (snd e)) s) s (stations s)"

section \<open>The links follow the associations\<close>

text \<open>
  A link of a station is in the list of exactly the access point it goes to, once, and its lines go
  from the station to it, wherever they are when the points are updated.
\<close>

definition link_ok :: "wifi \<Rightarrow> nat \<Rightarrow> bool" where
  "link_ok s i \<longleftrightarrow> sta (wifi_links s ! i) \<noteq> None
     \<and> (\<forall>n. count_list (links_at s n) i = (if ap (wifi_links s ! i) = Some n then 1 else 0))"

abbreviation link_of :: "nat \<times> nat \<times> nat \<Rightarrow> nat" where
  "link_of e \<equiv> snd (snd e)"

definition station_ok :: "wifi \<Rightarrow> nat \<times> nat \<times> nat \<Rightarrow> bool" where
  "station_ok s e \<longleftrightarrow> link_of e < length (wifi_links s) \<and> sta (wifi_links s ! link_of e) = Some (fst (snd e))
     \<and> link_ok s (link_of e)"

definition wifi_inv :: "wifi \<Rightarrow> bool" where
  "wifi_inv s \<longleftrightarrow> distinct (map link_of (stations s)) \<and> (\<forall>e\<in>set (stations s). station_ok s e)"

definition drawn_link :: "wifi \<Rightarrow> nat \<Rightarrow> bool" where
  "drawn_link s i \<longleftrightarrow> (\<forall>a b. sta (wifi_links s ! i) = Some a \<and> ap (wifi_links s ! i) = Some b \<longrightarrow>
     visible_line (wifi_links s ! i) = Some (position_of s a, position_of s b)
     \<and> invisible_line (wifi_links s ! i) = Some (position_of s a, position_of s b))"

lemma count_list_remove1: "count_list (remove1 i xs) j = count_list xs j - (if j = i then 1 else 0)"
  by (induction xs) auto

lemma count_list_in: "i \<in> set xs \<longleftrightarrow> count_list xs i > 0"
  by (induction xs) auto

text \<open>What \<open>set_ap\<close> does to a sound link: the list it leaves, the list it joins, and the link itself.\<close>

definition unlisted :: "nat \<Rightarrow> nat option \<Rightarrow> (nat \<Rightarrow> nat list) \<Rightarrow> nat \<Rightarrow> nat list" where
  "unlisted i x L = (case x of None \<Rightarrow> L | Some b \<Rightarrow> L(b := remove1 i (L b)))"

definition listed :: "nat \<Rightarrow> nat option \<Rightarrow> (nat \<Rightarrow> nat list) \<Rightarrow> nat \<Rightarrow> nat list" where
  "listed i x L = (case x of None \<Rightarrow> L | Some b \<Rightarrow> L(b := L b @ [i]))"

definition attached :: "wifi \<Rightarrow> nat \<Rightarrow> nat option \<Rightarrow> wifi_link \<Rightarrow> wifi_link" where
  "attached s a x l =
     (case x of
        None \<Rightarrow> l\<lparr>ap := None, link_visible := False\<rparr>
      | Some b \<Rightarrow> l\<lparr>ap := Some b, link_visible := True, visible_line := Some (position_of s a, position_of s b),
                   invisible_line := Some (position_of s a, position_of s b)\<rparr>)"

lemma set_ap_eq:
  assumes "i < length (wifi_links s)" "sta (wifi_links s ! i) = Some a" "x \<noteq> ap (wifi_links s ! i)"
    and "\<And>b. ap (wifi_links s ! i) = Some b \<Longrightarrow> i \<in> set (links_at s b)"
  shows "set_ap i x s = Inr (s\<lparr>wifi_links := (wifi_links s)[i := attached s a x (wifi_links s ! i)],
     links_at := listed i x (unlisted i (ap (wifi_links s ! i)) (links_at s))\<rparr>)"
proof (cases "ap (wifi_links s ! i)")
  case None
  with assms show ?thesis
    by (cases x) (simp_all add: set_ap_def Let_def update_wifi_points_def change_link_def attached_def listed_def unlisted_def)
next
  case (Some b)
  with assms show ?thesis
    by (cases x) (simp_all add: set_ap_def Let_def update_wifi_points_def change_link_def attached_def listed_def unlisted_def)
qed

lemma count_unlisted:
  "(\<And>n. count_list (L n) i = (if x = Some n then 1 else 0)) \<Longrightarrow> count_list (unlisted i x L n) i = 0"
  by (simp add: unlisted_def count_list_remove1 split: option.splits)

lemma count_unlisted_other: "j \<noteq> i \<Longrightarrow> count_list (unlisted i x L n) j = count_list (L n) j"
  by (simp add: unlisted_def count_list_remove1 split: option.splits)

lemma count_listed:
  "count_list (listed i x L n) j = count_list (L n) j + (if x = Some n \<and> j = i then 1 else 0)"
  by (simp add: listed_def split: option.splits)

text \<open>The link that is attached is sound afterwards and the others are left alone.\<close>

definition attaches :: "nat \<Rightarrow> nat option \<Rightarrow> wifi \<Rightarrow> wifi \<Rightarrow> bool" where
  "attaches i x s s' \<longleftrightarrow> link_ok s' i \<and> ap (wifi_links s' ! i) = x \<and> sta (wifi_links s' ! i) = sta (wifi_links s ! i)
    \<and> length (wifi_links s') = length (wifi_links s) \<and> position_of s' = position_of s
    \<and> access_points s' = access_points s \<and> stations s' = stations s
    \<and> (\<forall>j. j \<noteq> i \<longrightarrow> wifi_links s' ! j = wifi_links s ! j \<and> (\<forall>n. count_list (links_at s' n) j = count_list (links_at s n) j))"

lemma set_ap_ok:
  assumes "i < length (wifi_links s)" "link_ok s i"
  shows "\<exists>s'. set_ap i x s = Inr s' \<and> attaches i x s s'
    \<and> (if x = ap (wifi_links s ! i) then s' = s else link_visible (wifi_links s' ! i) = (x \<noteq> None) \<and> drawn_link s' i)"
proof (cases "x = ap (wifi_links s ! i)")
  case True
  then show ?thesis using assms by (simp add: set_ap_def attaches_def)
next
  case False
  obtain a where a: "sta (wifi_links s ! i) = Some a" using assms(2) by (auto simp: link_ok_def)
  have c: "count_list (links_at s n) i = (if ap (wifi_links s ! i) = Some n then 1 else 0)" for n
    using assms(2) by (simp add: link_ok_def)
  then have "\<And>b. ap (wifi_links s ! i) = Some b \<Longrightarrow> i \<in> set (links_at s b)" by (simp add: count_list_in)
  note e = set_ap_eq [OF assms(1) a False this]
  define s' where "s' = s\<lparr>wifi_links := (wifi_links s)[i := attached s a x (wifi_links s ! i)],
     links_at := listed i x (unlisted i (ap (wifi_links s ! i)) (links_at s))\<rparr>"
  have f: "sta (attached s a x l) = sta l" "ap (attached s a x l) = x" "link_visible (attached s a x l) = (x \<noteq> None)" for l
    by (simp_all add: attached_def split: option.splits)
  have "link_ok s' i"
    using count_unlisted [of "links_at s" i "ap (wifi_links s ! i)", OF c] assms(1) a
    by (simp add: link_ok_def s'_def f count_listed)
  moreover have "drawn_link s' i"
    using assms(1) a by (simp add: drawn_link_def s'_def f) (simp add: attached_def)
  ultimately show ?thesis using e assms(1) False
    by (simp add: attaches_def s'_def f count_listed count_unlisted_other)
qed

definition wanted :: "association \<Rightarrow> wifi \<Rightarrow> nat \<Rightarrow> nat option" where
  "wanted radio s dev =
     (if fst (radio dev) \<and> snd (radio dev) \<noteq> ''00:00:00:00:00:00'' then dget (access_points s) (snd (radio dev)) else None)"

definition known_peer :: "association \<Rightarrow> wifi \<Rightarrow> nat \<Rightarrow> bool" where
  "known_peer radio s dev \<longleftrightarrow>
     (fst (radio dev) \<and> snd (radio dev) \<noteq> ''00:00:00:00:00:00'' \<longrightarrow> dget (access_points s) (snd (radio dev)) \<noteq> None)"

lemma associate_eq:
  "associate radio s e = (if known_peer radio s (fst e) then set_ap (link_of e) (wanted radio s (fst e)) s else Inl KeyError)"
  by (simp add: associate_def Let_def wanted_def known_peer_def case_prod_beta split: option.splits)

text \<open>Nothing but the links of the stations is changed, and their stations stay.\<close>

definition wifi_frame :: "nat set \<Rightarrow> wifi \<Rightarrow> wifi \<Rightarrow> bool" where
  "wifi_frame I s s' \<longleftrightarrow> length (wifi_links s') = length (wifi_links s) \<and> position_of s' = position_of s
    \<and> access_points s' = access_points s \<and> stations s' = stations s
    \<and> (\<forall>j. j \<notin> I \<longrightarrow> wifi_links s' ! j = wifi_links s ! j \<and> (\<forall>n. count_list (links_at s' n) j = count_list (links_at s n) j))"

lemma wifi_frame_station: "wifi_frame I s s' \<Longrightarrow> link_of e \<notin> I \<Longrightarrow> station_ok s' e = station_ok s e"
  by (simp add: wifi_frame_def station_ok_def link_ok_def)

lemma other_link:
  assumes "distinct (map link_of (e # es))" "e' \<in> set es"
  shows "link_of e' \<noteq> link_of e"
proof
  assume eq: "link_of e' = link_of e"
  have "link_of e' \<in> link_of ` set es" using assms(2) by (rule imageI)
  then show False using assms(1) unfolding eq by simp
qed

lemma others_ok:
  assumes "distinct (map link_of (e # es))" "wifi_frame {link_of e} s s'"
  shows "\<forall>e'\<in>set es. station_ok s' e' = station_ok s e' \<and> wifi_links s' ! link_of e' = wifi_links s ! link_of e'"
proof
  fix e' assume "e' \<in> set es"
  then have n: "link_of e' \<notin> {link_of e}" using other_link [OF assms(1)] by simp
  then have "wifi_links s' ! link_of e' = wifi_links s ! link_of e'" using assms(2) unfolding wifi_frame_def by blast
  then show "station_ok s' e' = station_ok s e' \<and> wifi_links s' ! link_of e' = wifi_links s ! link_of e'"
    using wifi_frame_station [OF assms(2) n] by simp
qed

lemma associate_all:
  assumes "distinct (map link_of es)" "\<forall>e\<in>set es. station_ok s e \<and> known_peer radio s (fst e)"
  shows "\<exists>s'. for_each (associate radio) s es = Inr s' \<and> wifi_frame (link_of ` set es) s s'
    \<and> (\<forall>e\<in>set es. station_ok s' e \<and> ap (wifi_links s' ! link_of e) = wanted radio s (fst e))"
  using assms
proof (induction es arbitrary: s)
  case Nil
  then show ?case by (simp add: wifi_frame_def)
next
  case (Cons e es)
  have e: "link_of e < length (wifi_links s)" "link_ok s (link_of e)" "known_peer radio s (fst e)" "station_ok s e"
    using Cons.prems(2) by (simp_all add: station_ok_def)
  from set_ap_ok [OF e(1,2)] obtain s1 where
    s1: "set_ap (link_of e) (wanted radio s (fst e)) s = Inr s1" "attaches (link_of e) (wanted radio s (fst e)) s s1" by blast
  then have a: "associate radio s e = Inr s1" using e(3) by (simp add: associate_eq)
  have f1: "wifi_frame {link_of e} s s1" and ok1: "station_ok s1 e" "ap (wifi_links s1 ! link_of e) = wanted radio s (fst e)"
    using s1(2) e(4) by (simp_all add: attaches_def wifi_frame_def station_ok_def)
  have aps: "access_points s1 = access_points s" using f1 by (simp add: wifi_frame_def)
  have "\<forall>e'\<in>set es. station_ok s1 e' \<and> known_peer radio s1 (fst e')"
    using others_ok [OF Cons.prems(1) f1] Cons.prems(2) aps by (simp add: known_peer_def)
  from Cons.IH [OF _ this] Cons.prems(1) obtain s' where
    s': "for_each (associate radio) s1 es = Inr s'" "wifi_frame (link_of ` set es) s1 s'"
      "\<forall>e\<in>set es. station_ok s' e \<and> ap (wifi_links s' ! link_of e) = wanted radio s1 (fst e)"
    by auto
  have "link_of e \<notin> link_of ` set es" using Cons.prems(1) by simp
  then have "station_ok s' e" "ap (wifi_links s' ! link_of e) = wanted radio s (fst e)"
    using wifi_frame_station [OF s'(2)] ok1 s'(2) by (simp_all add: wifi_frame_def)
  moreover have "wifi_frame (link_of ` set (e # es)) s s'" using f1 s'(2) by (simp add: wifi_frame_def)
  moreover have "wanted radio s1 = wanted radio s" by (simp add: wanted_def fun_eq_iff aps)
  ultimately show ?case using a s'(1,3) by simp
qed

lemma update_points_ok:
  assumes "station_ok s e"
  shows "\<exists>s'. update_wifi_points (link_of e) s = Inr s' \<and> wifi_frame {link_of e} s s' \<and> station_ok s' e
    \<and> drawn_link s' (link_of e) \<and> ap (wifi_links s' ! link_of e) = ap (wifi_links s ! link_of e)"
  using assms
  by (cases "ap (wifi_links s ! link_of e)")
    (auto simp: update_wifi_points_def change_link_def Let_def wifi_frame_def station_ok_def link_ok_def drawn_link_def)

lemma update_points_all:
  assumes "distinct (map link_of es)" "\<forall>e\<in>set es. station_ok s e"
  shows "\<exists>s'. for_each (\<lambda>s e. update_wifi_points (link_of e) s) s es = Inr s' \<and> wifi_frame (link_of ` set es) s s'
    \<and> (\<forall>e\<in>set es. station_ok s' e \<and> drawn_link s' (link_of e) \<and> ap (wifi_links s' ! link_of e) = ap (wifi_links s ! link_of e))"
  using assms
proof (induction es arbitrary: s)
  case Nil
  then show ?case by (simp add: wifi_frame_def)
next
  case (Cons e es)
  from update_points_ok [of s e] Cons.prems(2) obtain s1 where
    s1: "update_wifi_points (link_of e) s = Inr s1" "wifi_frame {link_of e} s s1" "station_ok s1 e"
      "drawn_link s1 (link_of e)" "ap (wifi_links s1 ! link_of e) = ap (wifi_links s ! link_of e)" by auto
  have "\<forall>e'\<in>set es. station_ok s1 e'"
    using others_ok [OF Cons.prems(1) s1(2)] Cons.prems(2) by simp
  from Cons.IH [OF _ this] Cons.prems(1) obtain s' where
    s': "for_each (\<lambda>s e. update_wifi_points (link_of e) s) s1 es = Inr s'" "wifi_frame (link_of ` set es) s1 s'"
      "\<forall>e\<in>set es. station_ok s' e \<and> drawn_link s' (link_of e) \<and> ap (wifi_links s' ! link_of e) = ap (wifi_links s1 ! link_of e)"
    by auto
  have n: "link_of e \<notin> link_of ` set es" using Cons.prems(1) by simp
  then have "station_ok s' e" "wifi_links s' ! link_of e = wifi_links s1 ! link_of e" "position_of s' = position_of s1"
    using wifi_frame_station [OF s'(2)] s1(3) s'(2) by (simp_all add: wifi_frame_def)
  moreover from this have "drawn_link s' (link_of e)" using s1(4) by (simp add: drawn_link_def)
  moreover have "\<forall>e'\<in>set es. wifi_links s1 ! link_of e' = wifi_links s ! link_of e'"
    using others_ok [OF Cons.prems(1) s1(2)] by simp
  moreover have "wifi_frame (link_of ` set (e # es)) s s'" using s1(2) s'(2) by (simp add: wifi_frame_def)
  ultimately show ?case using s1(1,5) s'(1,3) by simp
qed

text \<open>
  Claim C19.  When every associated station has an access point that the scan has found, a period
  followed by an update of the view leaves the link of each station at the access point it is
  associated with, or nowhere when it is not; the link is in the list of links of that access point,
  once, and of no other node; and its lines go from the station to the access point.
\<close>

theorem wifi_links_follow:
  assumes "wifi_inv s" "\<forall>e\<in>set (stations s). known_peer radio s (fst e)"
  shows "\<exists>s'. rbind (wifi_periodic_update radio s) wifi_update_view = Inr s' \<and> wifi_inv s' \<and> stations s' = stations s
    \<and> (\<forall>(dev, n, i)\<in>set (stations s'). ap (wifi_links s' ! i) = wanted radio s dev
        \<and> (\<forall>b. count_list (links_at s' b) i = (if wanted radio s dev = Some b then 1 else 0))
        \<and> (\<forall>b. wanted radio s dev = Some b \<longrightarrow> visible_line (wifi_links s' ! i) = Some (position_of s n, position_of s b)))"
proof -
  have d: "distinct (map link_of (stations s))" and ok: "\<forall>e\<in>set (stations s). station_ok s e \<and> known_peer radio s (fst e)"
    using assms by (auto simp: wifi_inv_def)
  from associate_all [OF d ok] obtain s1 where s1: "wifi_periodic_update radio s = Inr s1"
      "wifi_frame (link_of ` set (stations s)) s s1"
      "\<forall>e\<in>set (stations s). station_ok s1 e \<and> ap (wifi_links s1 ! link_of e) = wanted radio s (fst e)"
    unfolding wifi_periodic_update_def by blast
  have st: "stations s1 = stations s" using s1(2) by (simp add: wifi_frame_def)
  from update_points_all [OF d] s1(3) obtain s' where s': "wifi_update_view s1 = Inr s'"
      "wifi_frame (link_of ` set (stations s)) s1 s'"
      "\<forall>e\<in>set (stations s). station_ok s' e \<and> drawn_link s' (link_of e) \<and> ap (wifi_links s' ! link_of e) = ap (wifi_links s1 ! link_of e)"
    unfolding wifi_update_view_def st by blast
  have f: "stations s' = stations s" "position_of s' = position_of s" using s1(2) s'(2) by (simp_all add: wifi_frame_def)
  have "wifi_inv s'" using s'(3) d f by (simp add: wifi_inv_def)
  moreover have "rbind (wifi_periodic_update radio s) wifi_update_view = Inr s'" using s1(1) s'(1) by simp
  ultimately show ?thesis using f s1(3) s'(3)
    by (intro exI [of _ s']) (force simp: station_ok_def link_ok_def drawn_link_def)
qed

text \<open>A scan makes a sound state from any in which the lists of links have only links that were made.\<close>

definition links_made :: "wifi \<Rightarrow> bool" where
  "links_made s \<longleftrightarrow> (\<forall>n. \<forall>j\<in>set (links_at s n). j < length (wifi_links s))"

lemma count_fresh: "links_made s \<Longrightarrow> count_list (links_at s n) (length (wifi_links s)) = 0"
  by (auto simp: links_made_def count_list_0_iff)

lemma wifi_device_ok:
  assumes "wifi_inv s" "links_made s"
  shows "\<exists>s'. scan_wifi_device n s dev = Inr s' \<and> wifi_inv s' \<and> links_made s'"
proof (cases "mac dev")
  case StaWifiMac
  define l where "l = \<lparr>sta = Some n, ap = None, link_visible = True, visible_line = None, invisible_line = None\<rparr>"
  define s' where "s' = s\<lparr>wifi_links := wifi_links s @ [l], stations := stations s @ [(dev_id dev, n, length (wifi_links s))]\<rparr>"
  have step: "scan_wifi_device n s dev = Inr s'"
    using StaWifiMac by (simp add: scan_wifi_device_def new_wifi_link_def Let_def set_ap_def s'_def l_def nth_append)
  have old: "station_ok s' e \<and> link_of e < length (wifi_links s)" if "e \<in> set (stations s)" for e
    using assms(1) that by (auto simp: wifi_inv_def station_ok_def link_ok_def s'_def nth_append)
  have "length (wifi_links s) \<notin> link_of ` set (stations s)"
  proof
    assume "length (wifi_links s) \<in> link_of ` set (stations s)"
    then obtain e where e: "e \<in> set (stations s)" "length (wifi_links s) = link_of e" by blast
    from old [OF e(1)] e(2) show False by linarith
  qed
  moreover have "station_ok s' (dev_id dev, n, length (wifi_links s))"
    using count_fresh [OF assms(2)] by (simp add: station_ok_def link_ok_def s'_def l_def)
  ultimately have "wifi_inv s'" using assms(1) old by (auto simp: wifi_inv_def s'_def)
  moreover have "links_made s'" using assms(2) by (auto simp: links_made_def s'_def less_Suc_eq)
  ultimately show ?thesis using step by blast
next
  case (ApWifiMac bssid)
  then show ?thesis using assms
    by (simp add: scan_wifi_device_def wifi_inv_def links_made_def station_ok_def link_ok_def)
next
  case OtherMac
  then show ?thesis using assms by (simp add: scan_wifi_device_def)
qed

lemma for_each_reaches:
  assumes "\<And>s x. I s \<Longrightarrow> \<exists>s'. f s x = Inr s' \<and> I s'" "I s"
  shows "\<exists>s'. for_each f s xs = Inr s' \<and> I s'"
  using assms(2)
proof (induction xs arbitrary: s)
  case (Cons x xs)
  then obtain s1 where "f s x = Inr s1" "I s1" using assms(1) by blast
  then show ?case using Cons.IH by simp
qed simp

lemma wifi_nodes_ok:
  assumes "links_made s"
  shows "\<exists>s'. scan_nodes wifi_nodes s = Inr s' \<and> wifi_inv s' \<and> links_made s'"
proof -
  define s1 where "s1 = (foldl (\<lambda>s (_, _, i). destroy_link i s) s (stations s))\<lparr>access_points := [], stations := []\<rparr>"
  have "length (wifi_links (foldl (\<lambda>s (_, _, i). destroy_link i s) v es)) = length (wifi_links v)
    \<and> links_at (foldl (\<lambda>s (_, _, i). destroy_link i s) v es) = links_at v" for v and es :: "(nat \<times> nat \<times> nat) list"
    by (induction es arbitrary: v) (auto simp: destroy_link_def change_link_def)
  then have "wifi_inv s1 \<and> links_made s1" using assms by (simp add: s1_def wifi_inv_def links_made_def)
  then have "\<exists>s'. for_each (\<lambda>s (n, devs). for_each (scan_wifi_device n) s devs) s1 wifi_nodes = Inr s' \<and> wifi_inv s' \<and> links_made s'"
    by (rule for_each_reaches [rotated]) (auto intro!: for_each_reaches [of "\<lambda>s. wifi_inv s \<and> links_made s"] wifi_device_ok)
  then show ?thesis by (simp add: scan_nodes_def s1_def)
qed

definition no_wifi :: wifi where
  "no_wifi = \<lparr>position_of = (\<lambda>n. (of_nat n, 0)), wifi_links = [], links_at = (\<lambda>_. []), access_points = [], stations = []\<rparr>"

text \<open>An access point at node 0, and two stations of which the second is down.\<close>

definition cafe :: wifi where
  "cafe = projr (scan_nodes [(0, [\<lparr>dev_id = 5, mac = ApWifiMac ''00:00:00:00:00:01''\<rparr>]),
     (1, [\<lparr>dev_id = 6, mac = StaWifiMac\<rparr>]), (2, [\<lparr>dev_id = 7, mac = StaWifiMac\<rparr>])] no_wifi)"

definition cafe_radio :: association where
  "cafe_radio dev = (dev = 6, ''00:00:00:00:00:01'')"

lemma cafe_facts: "wifi_inv cafe" "stations cafe = [(6, 1, 0), (7, 2, 1)]"
  "access_points cafe = [(''00:00:00:00:00:01'', 0)]" "position_of cafe = position_of no_wifi"
proof -
  have "links_made no_wifi" by (simp add: links_made_def no_wifi_def)
  from wifi_nodes_ok [OF this] show "wifi_inv cafe" unfolding cafe_def by (metis sum.sel(2))
  show "stations cafe = [(6, 1, 0), (7, 2, 1)]" "access_points cafe = [(''00:00:00:00:00:01'', 0)]"
    "position_of cafe = position_of no_wifi"
    by (simp_all add: cafe_def scan_nodes_def no_wifi_def scan_wifi_device_def new_wifi_link_def set_ap_def Let_def dset_new)
qed

theorem wifi_links_follow_witness:
  "case rbind (wifi_periodic_update cafe_radio cafe) wifi_update_view of
     Inl e \<Rightarrow> False
   | Inr s \<Rightarrow> ap (wifi_links s ! 0) = Some 0 \<and> ap (wifi_links s ! 1) = None
       \<and> visible_line (wifi_links s ! 0) = Some ((1, 0), (0, 0))"
proof -
  have "\<forall>e\<in>set (stations cafe). known_peer cafe_radio cafe (fst e)"
    by (simp add: cafe_facts known_peer_def cafe_radio_def dget_def)
  from wifi_links_follow [OF cafe_facts(1) this] show ?thesis
    by (auto simp: cafe_facts wanted_def cafe_radio_def dget_def no_wifi_def)
qed

text \<open>
  An access point that the scan did not find, as one whose mac has another type, stops the period
  with an exception: the stations after it keep their old links.
\<close>

lemma unknown_access_point:
  "\<not> known_peer radio s (fst e) \<Longrightarrow> stations s = e # es \<Longrightarrow> wifi_periodic_update radio s = Inl KeyError"
  by (simp add: wifi_periodic_update_def associate_eq)

text \<open>A second scan destroys the links but leaves them in the lists of the access points.\<close>

lemma rescan_keeps_list:
  assumes "stations s = [(d, n, i)]"
  shows "case scan_nodes [] s of Inl e \<Rightarrow> False | Inr s' \<Rightarrow> links_at s' = links_at s \<and> stations s' = []"
  using assms by (simp add: scan_nodes_def destroy_link_def change_link_def)

section \<open>Statistics of the interfaces\<close>

record interface_counters =
  transmitted_packets :: nat
  transmitted_bytes :: nat
  received_packets :: nat
  received_bytes :: nat

record net_dev_stats =
  counters :: interface_counters
  tx_packet_rate :: rat
  rx_packet_rate :: rat
  tx_bit_rate :: rat
  rx_bit_rate :: rat

definition NODE_STATISTICS_MEMORY :: nat where
  "NODE_STATISTICS_MEMORY = 10"

type_synonym node_statistics = "(nat, interface_counters list list) dict"

text \<open>A period brings the counters of the interfaces of every node.\<close>

definition collect_statistics :: "node_statistics \<Rightarrow> nat \<times> interface_counters list \<Rightarrow> py_error + node_statistics" where
  "collect_statistics d entry =
     (let raw_stats_list = (case dget d (fst entry) of Some l \<Rightarrow> l | None \<Rightarrow> [])
      in rbind (pop_while_longer (int NODE_STATISTICS_MEMORY) (raw_stats_list @ [snd entry])) (\<lambda>l.
           Inr (dset d (fst entry) l)))"

definition statistics_periodic_update ::
    "node_statistics \<Rightarrow> (nat \<times> interface_counters list) list \<Rightarrow> py_error + node_statistics" where
  "statistics_periodic_update d nodes_statistics = for_each collect_statistics d nodes_statistics"

text \<open>The change from the first to the last of the periods kept, over the time between them.\<close>

definition rates :: "interface_counters \<Rightarrow> interface_counters \<Rightarrow> net_dev_stats" where
  "rates c0 c1 =
     (let k = SAMPLE_PERIOD * of_nat (NODE_STATISTICS_MEMORY - 1)
      in \<lparr>counters = c1,
          tx_packet_rate = (of_nat (transmitted_packets c1) - of_nat (transmitted_packets c0)) / k,
          rx_packet_rate = (of_nat (received_packets c1) - of_nat (received_packets c0)) / k,
          tx_bit_rate = (of_nat (transmitted_bytes c1) - of_nat (transmitted_bytes c0)) * 8 / k,
          rx_bit_rate = (of_nat (received_bytes c1) - of_nat (received_bytes c0)) * 8 / k\<rparr>)"

fun interface_rates :: "interface_counters list \<Rightarrow> interface_counters list \<Rightarrow> py_error + net_dev_stats list" where
  "interface_rates first [] = Inr []"
| "interface_rates [] (c # cs) = Inl IndexError"
| "interface_rates (c0 # first) (c # cs) = rbind (interface_rates first cs) (\<lambda>r. Inr (rates c0 c # r))"

definition get_interface_statistics :: "node_statistics \<Rightarrow> nat \<Rightarrow> py_error + net_dev_stats list" where
  "get_interface_statistics d n =
     (case dget d n of
        None \<Rightarrow> Inr []
      | Some raw_stats_list \<Rightarrow>
          if length raw_stats_list < NODE_STATISTICS_MEMORY then Inr []
          else if length raw_stats_list \<noteq> NODE_STATISTICS_MEMORY then Inl AssertionError
          else interface_rates (hd raw_stats_list) (List.last raw_stats_list))"

text \<open>What a node holds: the last records that were made of it.\<close>

definition records_of :: "nat \<Rightarrow> (nat \<times> interface_counters list) list \<Rightarrow> interface_counters list list" where
  "records_of n entries = map snd (filter (\<lambda>e. fst e = n) entries)"

lemma collected:
  "\<exists>d. for_each collect_statistics [] entries = Inr d \<and> (\<forall>n. dget d n =
     (let rs = records_of n entries in if rs = [] then None else Some (drop (length rs - 10) rs)))"
proof (induction entries rule: rev_induct)
  case (snoc e es)
  then obtain d where d: "for_each collect_statistics [] es = Inr d"
    "\<And>n. dget d n = (let rs = records_of n es in if rs = [] then None else Some (drop (length rs - 10) rs))" by auto
  define rs where "rs = records_of (fst e) es"
  have "(case dget d (fst e) of Some l \<Rightarrow> l | None \<Rightarrow> []) = drop (length rs - 10) rs"
    by (simp add: d(2) rs_def Let_def)
  then have "collect_statistics d e = Inr (dset d (fst e) (drop (length (rs @ [snd e]) - 10) (rs @ [snd e])))"
    using drop_window [of rs 10 "snd e"]
    by (simp add: collect_statistics_def NODE_STATISTICS_MEMORY_def pop_while_longer_eq)
  then show ?case using d(1) d(2)
    by (simp add: for_each_append) (simp add: rs_def records_of_def Let_def)
qed (simp add: records_of_def)

lemma interface_rates_eq:
  "length first = length latest \<Longrightarrow> interface_rates first latest = Inr (map2 rates first latest)"
  by (induction first latest rule: list_induct2) simp_all

text \<open>
  The statistics of a node are empty until ten periods have been recorded of it; from
  then on, while its number of interfaces stays the same, they hold for each interface its latest
  counters and what these have grown by, in a second, since the tenth period back.
\<close>

theorem interface_statistics_result:
  assumes "for_each collect_statistics [] entries = Inr d" "\<forall>r\<in>set (records_of n entries). length r = m"
  shows "get_interface_statistics d n =
    (let rs = records_of n entries
     in if length rs < 10 then Inr [] else Inr (map2 rates (rs ! (length rs - 10)) (rs ! (length rs - 1))))"
proof -
  define rs where "rs = records_of n entries"
  have d: "dget d n = (if rs = [] then None else Some (drop (length rs - 10) rs))"
    using collected [of entries] assms(1) by (simp add: rs_def Let_def)
  show ?thesis
  proof (cases "length rs < 10")
    case True
    then show ?thesis unfolding rs_def [symmetric]
      by (simp add: get_interface_statistics_def d NODE_STATISTICS_MEMORY_def)
  next
    case False
    have "rs ! (length rs - 10) \<in> set rs" "rs ! (length rs - 1) \<in> set rs" using False by (simp_all add: not_less)
    then have "length (rs ! (length rs - 10)) = length (rs ! (length rs - 1))"
      using assms(2) unfolding rs_def [symmetric] by metis
    moreover have "hd (drop (length rs - 10) rs) = rs ! (length rs - 10)" "List.last (drop (length rs - 10) rs) = rs ! (length rs - 1)"
      using False by (auto simp: hd_drop_conv_nth last_drop last_conv_nth)
    ultimately show ?thesis using False unfolding rs_def [symmetric]
      by (auto simp: get_interface_statistics_def d NODE_STATISTICS_MEMORY_def interface_rates_eq Let_def)
  qed
qed

text \<open>An interface that is added later than the first of the records raises.\<close>

lemma interface_added: "length first < length latest \<Longrightarrow> interface_rates first latest = Inl IndexError"
  by (induction first latest rule: interface_rates.induct) auto

definition counting :: "nat \<Rightarrow> interface_counters" where
  "counting i = \<lparr>transmitted_packets = i, transmitted_bytes = 9 * i, received_packets = 0, received_bytes = 0\<rparr>"

lemma ten_periods:
  "records_of 3 (map (\<lambda>i. (3, [counting i])) [0..<12]) = map (\<lambda>i. [counting i]) [0..<12]"
  by (simp add: records_of_def)

theorem interface_statistics_result_witness:
  "case for_each collect_statistics [] (map (\<lambda>i. (3, [counting i])) [0..<12]) of
     Inl e \<Rightarrow> False | Inr d \<Rightarrow> get_interface_statistics d 3 = Inr [rates (counting 2) (counting 11)]"
proof -
  obtain d where d: "for_each collect_statistics [] (map (\<lambda>i. (3, [counting i])) [0..<12]) = Inr d"
    using collected [of "map (\<lambda>i. (3, [counting i])) [0..<12]"] by blast
  have "\<forall>r\<in>set (records_of 3 (map (\<lambda>i. (3, [counting i])) [0..<12])). length r = 1"
    unfolding ten_periods by simp
  from interface_statistics_result [OF d this] show ?thesis using d
    unfolding ten_periods by (simp add: Let_def numeral_2_eq_2)
qed

section \<open>The headers that can be filtered\<close>

text \<open>
  The types of the simulator, by number; \<open>parent_of\<close> is None where \<open>HasParent\<close> is false.  The walk
  up from a type returns when it meets a header or trailer or a type without a parent.
\<close>

partial_function (option) type_is_good :: "(nat \<Rightarrow> nat option) \<Rightarrow> nat set \<Rightarrow> nat \<Rightarrow> bool option" where
  "type_is_good parent_of roots t =
     (if t \<in> roots then Some True
      else (case parent_of t of None \<Rightarrow> Some False | Some p \<Rightarrow> type_is_good parent_of roots p))"

definition offer_type :: "(nat \<Rightarrow> nat option) \<Rightarrow> nat set \<Rightarrow> nat list option \<Rightarrow> nat \<Rightarrow> nat list option" where
  "offer_type parent_of roots acc t =
     (case acc of None \<Rightarrow> None
      | Some ts \<Rightarrow> (case type_is_good parent_of roots t of
           None \<Rightarrow> None
         | Some good \<Rightarrow> Some (if \<not> good then ts else if t \<in> roots then ts else ts @ [t])))"

definition packet_filter_list :: "(nat \<Rightarrow> nat option) \<Rightarrow> nat \<Rightarrow> nat \<Rightarrow> nat list \<Rightarrow> nat list option" where
  "packet_filter_list parent_of header trailer registered =
     foldl (offer_type parent_of {header, trailer}) (Some []) registered"

definition subtype :: "(nat \<Rightarrow> nat option) \<Rightarrow> nat rel" where
  "subtype parent_of = {(p, t). parent_of t = Some p}"

lemma type_is_good_eq:
  assumes "wf (subtype parent_of)"
  shows "type_is_good parent_of roots t = Some (\<exists>r\<in>roots. (r, t) \<in> (subtype parent_of)\<^sup>*)"
  using assms
proof (induction t rule: wf_induct_rule)
  case (less t)
  have unfold: "(r, t) \<in> (subtype parent_of)\<^sup>* \<longleftrightarrow> r = t \<or> (\<exists>p. parent_of t = Some p \<and> (r, p) \<in> (subtype parent_of)\<^sup>*)" for r
    by (subst rtrancl.simps) (auto simp: subtype_def)
  show ?case
  proof (cases "parent_of t")
    case None
    then show ?thesis unfolding unfold by (simp add: type_is_good.simps [of parent_of roots t])
  next
    case (Some p)
    then have "(p, t) \<in> subtype parent_of" by (simp add: subtype_def)
    note IH = less [OF this]
    show ?thesis unfolding unfold using IH Some by (auto simp: type_is_good.simps [of parent_of roots t])
  qed
qed

text \<open>
  When no type is its own ancestor, the search for the headers returns, and the window
  offers exactly the registered types below the header or the trailer, in the order of their
  registration, without these two.
\<close>

theorem packet_filter_result:
  assumes "wf (subtype parent_of)"
  shows "packet_filter_list parent_of header trailer registered =
    Some (filter (\<lambda>t. t \<noteq> header \<and> t \<noteq> trailer \<and>
      ((header, t) \<in> (subtype parent_of)\<^sup>* \<or> (trailer, t) \<in> (subtype parent_of)\<^sup>*)) registered)"
  unfolding packet_filter_list_def
  by (induction registered rule: rev_induct) (auto simp: offer_type_def type_is_good_eq [OF assms])

definition small_types :: "nat \<Rightarrow> nat option" where
  "small_types t = (if t = 0 then None else Some (t div 2))"

lemma small_types_wf: "wf (subtype small_types)"
  by (rule wf_subset [OF wf_less_than]) (auto simp: subtype_def small_types_def split: if_splits)

theorem packet_filter_result_witness:
  "packet_filter_list small_types 2 3 [0, 1, 2, 3, 4, 7, 1, 9] = Some [4, 7, 9]"
proof -
  have good: "type_is_good small_types {2, 3} t = Some (\<exists>r\<in>{2, 3}. (r, t) \<in> (subtype small_types)\<^sup>*)" for t
    by (rule type_is_good_eq [OF small_types_wf])
  have walk: "type_is_good small_types {2, 3} 0 = Some False" "type_is_good small_types {2, 3} 1 = Some False"
    "type_is_good small_types {2, 3} 4 = Some True" "type_is_good small_types {2, 3} 7 = Some True"
    "type_is_good small_types {2, 3} 9 = Some True"
    by (simp_all add: type_is_good.simps small_types_def)
  show ?thesis
    unfolding packet_filter_result [OF small_types_wf]
    using walk good [of 0] good [of 1] good [of 4] good [of 7] good [of 9] by simp
qed

definition capture_options :: "bool \<Rightarrow> (nat \<times> bool) list \<Rightarrow> bool \<times> nat \<times> nat list" where
  "capture_options op_and filters = (op_and, 100, map fst (filter snd filters))"

definition select_all :: "bool \<Rightarrow> (nat \<times> bool) list \<Rightarrow> (nat \<times> bool) list" where
  "select_all b filters = map (\<lambda>(t, _). (t, b)) filters"

lemma selected_headers:
  "capture_options m (select_all True fs) = (m, 100, map fst fs)" "capture_options m (select_all False fs) = (m, 100, [])"
  by (simp_all add: capture_options_def select_all_def case_prod_beta comp_def filter_True filter_empty_conv)

section \<open>Rows of the tables\<close>

text \<open>
  An interface has a name when it has a device, and is the loop when it has none; what the
  simulator says of a route is given as it is.
\<close>

definition interface_name :: "(int \<Rightarrow> string) \<Rightarrow> (nat \<Rightarrow> string option) \<Rightarrow> nat \<Rightarrow> string" where
  "interface_name int_text device_name i =
     (case device_name i of
        None \<Rightarrow> ''lo''
      | Some name \<Rightarrow> if name = [] then ''(interface '' @ int_text (int i) @ '')'' else name)"

record route =
  destination :: string
  next_hop :: string
  via :: nat

datatype routing = StaticRouting "route list" | GlobalRouting "route list" | OtherRouting

datatype protocol = SingleProtocol routing | ListRouting "(routing \<times> int) list" | NoProtocol

definition table_sources :: "protocol \<Rightarrow> (route list \<times> string \<times> int) list" where
  "table_sources p =
     (case p of
        NoProtocol \<Rightarrow> []
      | SingleProtocol (StaticRouting rs) \<Rightarrow> [(rs, ''static'', 0)]
      | SingleProtocol _ \<Rightarrow> []
      | ListRouting ps \<Rightarrow> concat (map (\<lambda>(r, prio). case r of
            StaticRouting rs \<Rightarrow> [(rs, ''static'', prio)]
          | GlobalRouting rs \<Rightarrow> [(rs, ''global'', prio)]
          | OtherRouting \<Rightarrow> []) ps))"

type_synonym row = "string \<times> string \<times> string \<times> string \<times> int"

text \<open>Without a protocol that is known the table is left as it was.\<close>

definition update_routing_table :: "(int \<Rightarrow> string) \<Rightarrow> (nat \<Rightarrow> string option) \<Rightarrow> protocol \<Rightarrow> row list \<Rightarrow> row list" where
  "update_routing_table int_text device_name p table_model =
     (if table_sources p = [] then table_model
      else concat (map (\<lambda>(rs, type_string, prio).
        map (\<lambda>r. (destination r, next_hop r, interface_name int_text device_name (via r), type_string, prio)) rs) (table_sources p)))"

definition update_olsr_table :: "(int \<Rightarrow> string) \<Rightarrow> (nat \<Rightarrow> string option) \<Rightarrow> (route \<times> int) list option
    \<Rightarrow> (string \<times> string \<times> string \<times> int) list \<Rightarrow> (string \<times> string \<times> string \<times> int) list" where
  "update_olsr_table int_text device_name entries table_model =
     (case entries of
        None \<Rightarrow> table_model
      | Some rs \<Rightarrow> map (\<lambda>(r, distance). (destination r, next_hop r, interface_name int_text device_name (via r), distance)) rs)"

lemma stale_table: "table_sources p = [] \<Longrightarrow> update_routing_table int_text device_name p t = t"
  by (simp add: update_routing_table_def)

text \<open>A protocol in a list loses none of its routes, whatever stands before or after it.\<close>

lemma listed_routes:
  assumes "(StaticRouting rs, prio) \<in> set ps" "r \<in> set rs"
  shows "(destination r, next_hop r, interface_name int_text device_name (via r), ''static'', prio)
    \<in> set (update_routing_table int_text device_name (ListRouting ps) t)"
proof -
  have s: "(rs, ''static'', prio) \<in> set (table_sources (ListRouting ps))"
    unfolding table_sources_def by (auto intro!: bexI [OF _ assms(1)])
  then have ne: "table_sources (ListRouting ps) \<noteq> []" by (metis empty_iff list.set(1))
  have "(destination r, next_hop r, interface_name int_text device_name (via r), ''static'', prio)
    \<in> set (map (\<lambda>r. (destination r, next_hop r, interface_name int_text device_name (via r), ''static'', prio)) rs)"
    using assms(2) by simp
  then show ?thesis using ne bexI [OF _ s] by (simp add: update_routing_table_def)
qed

end
