(* ===== verification/Topsort.thy ===== *)
theory Topsort
  imports PyDict
begin

text \<open>
  \<open>bindings/python/topsort.py\<close>: dependency sorting.  \<open>topsort\<close> orders the elements of a list
  of (parent, child) pairs, \<open>topsort_levels\<close> groups them by depth; both raise \<open>CycleError\<close>
  when the pairs have a cycle.  The dictionaries \<open>num_parents\<close> and \<open>children\<close> are the state;
  the enumeration order of \<open>num_parents.keys()\<close> is the argument \<open>ord\<close>.
\<close>

section \<open>The program\<close>

datatype 'a ts_error =
    MissingKey 'a
  | CycleError "'a list" "('a, int) dict" "('a, 'a list) dict"
  | LevelsCycleError "('a, int) dict" "('a, 'a list) dict"

type_synonym 'a counts = "('a, int) dict"
type_synonym 'a succ_map = "('a, 'a list) dict"

text \<open>The body of the loop that fills \<open>num_parents\<close> and \<open>children\<close>, shared by both sorts.\<close>

definition add_pair :: "'a counts \<times> 'a succ_map \<Rightarrow> 'a \<times> 'a \<Rightarrow> 'a ts_error + 'a counts \<times> 'a succ_map" where
  "add_pair st pc =
     (case (st, pc) of ((num_parents, children), (parent, child)) \<Rightarrow>
       let np1 = (if \<not> has_key num_parents parent then dset num_parents parent 0 else num_parents);
           np2 = (if \<not> has_key np1 child then dset np1 child 0 else np1)
       in case dget np2 child of
            None \<Rightarrow> Inl (MissingKey child)
          | Some n \<Rightarrow>
              Inr (dset np2 child (n + 1),
                   dset children parent
                     ((case dget children parent of None \<Rightarrow> [] | Some cs \<Rightarrow> cs) @ [child])))"

definition build :: "('a \<times> 'a) list \<Rightarrow> 'a ts_error + 'a counts \<times> 'a succ_map" where
  "build pairlist = for_each add_pair ([], []) pairlist"

text \<open>
  The body of \<open>for child in children[parent]\<close> in \<open>topsort\<close>; the list is the part of
  \<open>answer\<close> that the outer loop has not reached yet.
\<close>

definition knock_child :: "'a counts \<times> 'a list \<Rightarrow> 'a \<Rightarrow> 'a ts_error + 'a counts \<times> 'a list" where
  "knock_child st child =
     (case st of (num_parents, pending) \<Rightarrow>
       case dget num_parents child of
         None \<Rightarrow> Inl (MissingKey child)
       | Some n \<Rightarrow>
           Inr (dset num_parents child (n - 1),
                if n - 1 = 0 then pending @ [child] else pending))"

lemma knock_child_size:
  "for_each knock_child (np, r) cs = Inr (np', r') \<Longrightarrow> length (dkeys np') = length (dkeys np)"
  by (induction cs arbitrary: np r)
    (auto simp: knock_child_def rbind_Inr_iff dkeys_dset_old split: option.splits)

text \<open>
  The loop \<open>for parent in answer\<close>, whose list grows while it runs: \<open>ans_done\<close> holds the
  parents already visited, \<open>todo\<close> the rest of \<open>answer\<close>.
\<close>

function topsort_loop ::
  "'a list \<Rightarrow> 'a list \<Rightarrow> 'a counts \<Rightarrow> 'a succ_map \<Rightarrow> 'a ts_error + 'a list \<times> 'a counts \<times> 'a succ_map" where
  "topsort_loop ans_done [] num_parents children = Inr (ans_done, num_parents, children)"
| "topsort_loop ans_done (parent # todo) num_parents children =
     (if \<not> has_key num_parents parent then Inl (MissingKey parent)
      else case dget children parent of
        None \<Rightarrow> topsort_loop (ans_done @ [parent]) todo (ddel num_parents parent) children
      | Some cs \<Rightarrow>
          (case for_each knock_child (ddel num_parents parent, todo) cs of
            Inl e \<Rightarrow> Inl e
          | Inr (np', todo') \<Rightarrow> topsort_loop (ans_done @ [parent]) todo' np' (ddel children parent)))"
  by pat_completeness auto
termination
  by (relation "measure (\<lambda>(_, _, np, _). length (dkeys np))")
    (auto simp: length_ddel dest!: knock_child_size)

definition topsort :: "('a list \<Rightarrow> 'a list) \<Rightarrow> ('a \<times> 'a) list \<Rightarrow> 'a ts_error + 'a list" where
  "topsort ord pairlist =
     rbind (build pairlist) (\<lambda>(num_parents, children).
       let answer = filter (\<lambda>x. dget num_parents x = Some 0) (ord (dkeys num_parents))
       in rbind (topsort_loop [] answer num_parents children) (\<lambda>(answer, num_parents, children).
            if num_parents \<noteq> [] then Inl (CycleError answer num_parents children)
            else Inr answer))"

text \<open>
  \<open>topsort_levels_core\<close> is a generator: its run is the list of levels it yields and how it
  ends, \<open>None\<close> for \<open>StopIteration\<close> (the normal end) or the exception that it raises.
\<close>

definition drop_parent :: "'a counts \<Rightarrow> 'a \<Rightarrow> 'a ts_error + 'a counts" where
  "drop_parent num_parents child =
     (case dget num_parents child of
        None \<Rightarrow> Inl (MissingKey child)
      | Some n \<Rightarrow> Inr (dset num_parents child (n - 1)))"

definition visit_level_parent ::
  "'a counts \<times> 'a succ_map \<Rightarrow> 'a \<Rightarrow> 'a ts_error + 'a counts \<times> 'a succ_map" where
  "visit_level_parent st level_parent =
     (case st of (num_parents, children) \<Rightarrow>
       if \<not> has_key num_parents level_parent then Inl (MissingKey level_parent)
       else case dget children level_parent of
         None \<Rightarrow> Inr (ddel num_parents level_parent, children)
       | Some cs \<Rightarrow>
           rbind (for_each drop_parent (ddel num_parents level_parent) cs)
             (\<lambda>np'. Inr (np', ddel children level_parent)))"

lemma drop_parent_size:
  "for_each drop_parent np cs = Inr np' \<Longrightarrow> length (dkeys np') = length (dkeys np)"
  by (induction cs arbitrary: np)
    (auto simp: drop_parent_def rbind_Inr_iff dkeys_dset_old split: option.splits)

lemma visit_level_parent_size:
  "visit_level_parent (np, ch) p = Inr (np', ch') \<Longrightarrow> length (dkeys np') < length (dkeys np)"
  by (auto simp: visit_level_parent_def rbind_Inr_iff length_ddel
      dest!: drop_parent_size split: option.splits if_splits)

lemma visit_level_size:
  "for_each visit_level_parent (np, ch) lv = Inr (np', ch')
     \<Longrightarrow> length (dkeys np') + length lv \<le> length (dkeys np)"
proof (induction lv arbitrary: np ch)
  case (Cons p lv)
  then obtain np1 ch1 where p: "visit_level_parent (np, ch) p = Inr (np1, ch1)"
    and r: "for_each visit_level_parent (np1, ch1) lv = Inr (np', ch')"
    by (auto simp: rbind_Inr_iff)
  from visit_level_parent_size [OF p] Cons.IH [OF r] show ?case by simp
qed simp

function topsort_levels_core ::
  "('a list \<Rightarrow> 'a list) \<Rightarrow> 'a counts \<Rightarrow> 'a succ_map \<Rightarrow> 'a list list \<times> 'a ts_error option" where
  "topsort_levels_core ord num_parents children =
     (let level_parents = filter (\<lambda>x. dget num_parents x = Some 0) (ord (dkeys num_parents))
      in if level_parents = [] then
           ([], if num_parents \<noteq> [] then Some (LevelsCycleError num_parents children) else None)
         else case for_each visit_level_parent (num_parents, children) level_parents of
           Inl e \<Rightarrow> ([level_parents], Some e)
         | Inr (np', ch') \<Rightarrow>
             (let (levels, end_state) = topsort_levels_core ord np' ch'
              in (level_parents # levels, end_state)))"
  by pat_completeness auto
termination
proof (relation "measure (\<lambda>(_, np, _). length (dkeys np))", goal_cases)
  case (2 ord np ch lv r x y)
  then have "0 < length lv" and "for_each visit_level_parent (np, ch) lv = Inr (x, y)"
    and r: "r = (x, y)" by simp_all
  from this(1) visit_level_size [OF this(2)] have "length (dkeys x) < length (dkeys np)" by linarith
  then show ?case by (simp add: r)
qed simp

declare topsort_levels_core.simps [simp del]

definition topsort_levels ::
  "('a list \<Rightarrow> 'a list) \<Rightarrow> ('a \<times> 'a) list \<Rightarrow> 'a list list \<times> 'a ts_error option" where
  "topsort_levels ord pairlist =
     (case build pairlist of
        Inl e \<Rightarrow> ([], Some e)
      | Inr (num_parents, children) \<Rightarrow> topsort_levels_core ord num_parents children)"

section \<open>The specification\<close>

text \<open>The graph that a list of pairs stands for, and what the two dictionaries say of it.\<close>

definition elements :: "('a \<times> 'a) list \<Rightarrow> 'a set" where
  "elements ps = fst ` set ps \<union> snd ` set ps"

definition succs :: "('a \<times> 'a) list \<Rightarrow> 'a \<Rightarrow> 'a list" where
  "succs ps p = map snd (filter (\<lambda>e. fst e = p) ps)"

definition open_parents :: "('a \<times> 'a) list \<Rightarrow> 'a set \<Rightarrow> 'a \<Rightarrow> nat" where
  "open_parents ps D c = length (filter (\<lambda>e. snd e = c \<and> fst e \<notin> D) ps)"

text \<open>\<open>topo ps xs\<close>: every parent of an element of \<open>xs\<close> stands before it in \<open>xs\<close>.\<close>

definition topo :: "('a \<times> 'a) list \<Rightarrow> 'a list \<Rightarrow> bool" where
  "topo ps xs \<longleftrightarrow> (\<forall>us c vs. xs = us @ c # vs \<longrightarrow> (\<forall>p. (p, c) \<in> set ps \<longrightarrow> p \<in> set us))"

lemma open_parents_0_iff: "open_parents ps D c = 0 \<longleftrightarrow> (\<forall>p. (p, c) \<in> set ps \<longrightarrow> p \<in> D)"
  by (force simp: open_parents_def filter_empty_conv)

lemma open_parents_insert:
  "x \<notin> D \<Longrightarrow> open_parents ps D c = open_parents ps (insert x D) c + count_list (succs ps x) c"
  by (induction ps) (auto simp: open_parents_def succs_def)

lemma open_parents_insert_diff:
  "x \<notin> D \<Longrightarrow>
     int (open_parents ps D c) - int (count_list (succs ps x) c) = int (open_parents ps (insert x D) c)"
  using open_parents_insert [of x D ps c] by simp

lemma set_succs: "c \<in> set (succs ps p) \<longleftrightarrow> (p, c) \<in> set ps"
  by (force simp: succs_def)

lemma finite_elements: "finite (elements ps)"
  by (simp add: elements_def)

lemma in_elements: "(p, c) \<in> set ps \<Longrightarrow> p \<in> elements ps \<and> c \<in> elements ps"
  by (force simp: elements_def)

lemma topo_Nil: "topo ps []"
  by (simp add: topo_def)

lemma topo_snoc:
  "topo ps xs \<Longrightarrow> (\<And>p. (p, c) \<in> set ps \<Longrightarrow> p \<in> set xs) \<Longrightarrow> topo ps (xs @ [c])"
  by (auto simp: topo_def append_eq_append_conv2 append_eq_Cons_conv Cons_eq_append_conv; blast)

lemma topo_append:
  "topo ps xs \<Longrightarrow> (\<And>c p. c \<in> set ys \<Longrightarrow> (p, c) \<in> set ps \<Longrightarrow> p \<in> set xs) \<Longrightarrow> topo ps (xs @ ys)"
proof (induction ys rule: rev_induct)
  case (snoc y ys)
  then have "topo ps (xs @ ys)" by (metis UnI1 set_append)
  with topo_snoc [of ps "xs @ ys" y] snoc.prems(2) [of y] show ?case by auto
qed simp

section \<open>What the dictionaries hold\<close>

text \<open>
  \<open>counts_ok ps D np\<close>: the elements outside \<open>D\<close> are the keys of \<open>np\<close>, each with the number of
  its parents outside \<open>D\<close>.  \<open>succs_ok ps D ch\<close>: the elements outside \<open>D\<close> keep their children.
\<close>

definition counts_ok :: "('a \<times> 'a) list \<Rightarrow> 'a set \<Rightarrow> 'a counts \<Rightarrow> bool" where
  "counts_ok ps D np \<longleftrightarrow> dict_inv np \<and>
     (\<forall>x. dget np x = (if x \<in> elements ps - D then Some (int (open_parents ps D x)) else None))"

definition succs_ok :: "('a \<times> 'a) list \<Rightarrow> 'a set \<Rightarrow> 'a succ_map \<Rightarrow> bool" where
  "succs_ok ps D ch \<longleftrightarrow> dict_inv ch \<and>
     (\<forall>x. dget ch x = (if x \<in> D \<or> succs ps x = [] then None else Some (succs ps x)))"

lemma elements_snoc: "elements (ps @ [(p, c)]) = insert p (insert c (elements ps))"
  by (auto simp: elements_def)

lemma open_parents_snoc:
  "open_parents (ps @ [(p, c)]) {} x = open_parents ps {} x + (if x = c then 1 else 0)"
  by (simp add: open_parents_def)

lemma succs_snoc: "succs (ps @ [(p, c)]) x = succs ps x @ (if x = p then [c] else [])"
  by (simp add: succs_def)

lemma open_parents_fresh: "x \<notin> elements ps \<Longrightarrow> open_parents ps {} x = 0"
  by (force simp: open_parents_def elements_def filter_empty_conv)

lemma add_pair_step:
  assumes "counts_ok ps {} np" "succs_ok ps {} ch"
  shows "\<exists>np' ch'. add_pair (np, ch) (p, c) = Inr (np', ch')
           \<and> counts_ok (ps @ [(p, c)]) {} np' \<and> succs_ok (ps @ [(p, c)]) {} ch'"
proof -
  define np1 where "np1 = (if \<not> has_key np p then dset np p 0 else np)"
  define np2 where "np2 = (if \<not> has_key np1 c then dset np1 c 0 else np1)"
  have np2: "dict_inv np2" "\<And>x. dget np2 x =
      (if x \<in> insert p (insert c (elements ps)) then Some (int (open_parents ps {} x)) else None)"
    using assms(1) by (auto simp: np1_def np2_def counts_ok_def open_parents_fresh)
  have "counts_ok (ps @ [(p, c)]) {} (dset np2 c (int (open_parents ps {} c) + 1))"
    using np2 by (auto simp: counts_ok_def elements_snoc open_parents_snoc)
  moreover have "succs_ok (ps @ [(p, c)]) {}
      (dset ch p ((case dget ch p of None \<Rightarrow> [] | Some cs \<Rightarrow> cs) @ [c]))"
    using assms(2) by (auto simp: succs_ok_def succs_snoc)
  moreover have "add_pair (np, ch) (p, c) =
      Inr (dset np2 c (int (open_parents ps {} c) + 1),
           dset ch p ((case dget ch p of None \<Rightarrow> [] | Some cs \<Rightarrow> cs) @ [c]))"
    using np2(2) [of c] unfolding add_pair_def Let_def prod.case np1_def [symmetric] np2_def [symmetric]
    by simp
  ultimately show ?thesis by blast
qed

lemma build_spec: "\<exists>np ch. build ps = Inr (np, ch) \<and> counts_ok ps {} np \<and> succs_ok ps {} ch"
proof -
  have "\<exists>t. for_each add_pair ([], []) ps = Inr t \<and> counts_ok ps {} (fst t) \<and> succs_ok ps {} (snd t)"
  proof (rule for_each_inv [where I = "\<lambda>ys t. counts_ok ys {} (fst t) \<and> succs_ok ys {} (snd t)"])
    show "counts_ok [] {} (fst ([], [])) \<and> succs_ok [] {} (snd ([], []))"
      by (simp add: counts_ok_def succs_ok_def elements_def succs_def)
    fix ys x zs t
    assume "counts_ok ys {} (fst t) \<and> succs_ok ys {} (snd t)"
    then show "\<exists>t'. add_pair t x = Inr t' \<and> counts_ok (ys @ [x]) {} (fst t') \<and> succs_ok (ys @ [x]) {} (snd t')"
      using add_pair_step [of ys "fst t" "snd t" "fst x" "snd x"] by auto
  qed
  then show ?thesis by (auto simp: build_def)
qed

text \<open>Decrementing the counts of a list of children, in both sorts.\<close>

lemma knock_children:
  assumes "dict_inv np"
    and "\<And>c. c \<in> set cs \<Longrightarrow> \<exists>n. dget np c = Some n \<and> int (count_list cs c) \<le> n"
  shows "\<exists>np' new. for_each knock_child (np, r) cs = Inr (np', r @ new) \<and> dict_inv np'
           \<and> (\<forall>x. dget np' x = map_option (\<lambda>n. n - int (count_list cs x)) (dget np x))
           \<and> distinct new \<and> set new = {c \<in> set cs. dget np c = Some (int (count_list cs c))}"
proof -
  let ?I = "\<lambda>ys (np', r'). \<exists>new. r' = r @ new \<and> dict_inv np'
           \<and> (\<forall>x. dget np' x = map_option (\<lambda>n. n - int (count_list ys x)) (dget np x))
           \<and> distinct new \<and> set new = {c \<in> set ys. dget np c = Some (int (count_list ys c))}"
  have "\<exists>t. for_each knock_child (np, r) cs = Inr t \<and> ?I cs t"
  proof (rule for_each_inv [where I = ?I])
    show "?I [] (np, r)" using assms(1) by (simp add: option.map_ident)
    fix ys c zs and t :: "'a counts \<times> 'a list"
    assume cs: "cs = ys @ c # zs" and I: "?I ys t"
    obtain np' r' where t: "t = (np', r')" by (cases t)
    from I obtain new where new: "r' = r @ new" "dict_inv np'"
        "\<And>x. dget np' x = map_option (\<lambda>n. n - int (count_list ys x)) (dget np x)"
        "distinct new" "set new = {c \<in> set ys. dget np c = Some (int (count_list ys c))}"
      by (auto simp: t)
    from assms(2) [of c] obtain n where n: "dget np c = Some n" "int (count_list cs c) \<le> n"
      by (auto simp: cs)
    then have le: "int (count_list ys c) < n" by (simp add: cs)
    show "\<exists>t'. knock_child t c = Inr t' \<and> ?I (ys @ [c]) t'"
      using new n le by (auto simp: t knock_child_def intro!: exI [of _ "new @ [c]"] exI [of _ new])
  qed
  then show ?thesis by auto
qed

section \<open>Correctness of \<open>topsort\<close>\<close>

definition loop_inv :: "('a \<times> 'a) list \<Rightarrow> 'a list \<Rightarrow> 'a list \<Rightarrow> 'a counts \<Rightarrow> 'a succ_map \<Rightarrow> bool" where
  "loop_inv ps dn todo np ch \<longleftrightarrow>
     counts_ok ps (set dn) np \<and> succs_ok ps (set dn) ch \<and> distinct (dn @ todo)
     \<and> set (dn @ todo) = {x \<in> elements ps. open_parents ps (set dn) x = 0} \<and> topo ps (dn @ todo)"

lemma counts_okD:
  "counts_ok ps D np \<Longrightarrow> dget np x = (if x \<in> elements ps - D then Some (int (open_parents ps D x)) else None)"
  by (simp add: counts_ok_def)

lemma succs_okD:
  "succs_ok ps D ch \<Longrightarrow> dget ch x = (if x \<in> D \<or> succs ps x = [] then None else Some (succs ps x))"
  by (simp add: succs_ok_def)

text \<open>After the visit of \<open>x\<close> both dictionaries describe the graph without \<open>x\<close>.\<close>

lemma counts_ok_visit:
  assumes "counts_ok ps D np" "x \<notin> D" "dict_inv np'"
    and "\<And>y. dget np' y = map_option (\<lambda>n. n - int (count_list (succs ps x) y)) (dget (ddel np x) y)"
  shows "counts_ok ps (insert x D) np'"
  using assms by (auto simp: counts_ok_def open_parents_insert_diff)

lemma succs_ok_visit: "succs_ok ps D ch \<Longrightarrow> succs_ok ps (insert x D) (ddel ch x)"
  by (auto simp: succs_ok_def)

lemma succs_ok_leaf: "succs_ok ps D ch \<Longrightarrow> succs ps x = [] \<Longrightarrow> succs_ok ps (insert x D) ch"
  by (auto simp: succs_ok_def)

lemma children_counted:
  assumes "counts_ok ps D np" "x \<notin> D" "open_parents ps D x = 0" "c \<in> set (succs ps x)"
    and "\<And>y. y \<in> D \<Longrightarrow> open_parents ps D y = 0"
  shows "dget (ddel np x) c = Some (int (open_parents ps D c))"
    and "int (count_list (succs ps x) c) \<le> int (open_parents ps D c)"
proof -
  from assms(4) have e: "(x, c) \<in> set ps" by (simp add: set_succs)
  have "c \<noteq> x" "c \<notin> D" using assms(2,3,5) e by (auto simp: open_parents_0_iff)
  with assms(1) e show "dget (ddel np x) c = Some (int (open_parents ps D c))"
    by (auto simp: counts_ok_def dest: in_elements)
  show "int (count_list (succs ps x) c) \<le> int (open_parents ps D c)"
    using open_parents_insert [OF assms(2), of ps c] by simp
qed

lemma zero_parents_visit:
  assumes "x \<notin> D"
  shows "{y \<in> elements ps. open_parents ps (insert x D) y = 0} =
     {y \<in> elements ps. open_parents ps D y = 0}
     \<union> {c \<in> set (succs ps x). open_parents ps D c = count_list (succs ps x) c}"
proof -
  have "open_parents ps (insert x D) y = 0 \<longleftrightarrow>
      open_parents ps D y = 0 \<or> y \<in> set (succs ps x) \<and> open_parents ps D y = count_list (succs ps x) y" for y
    using open_parents_insert [OF assms, of ps y] by (cases "y \<in> set (succs ps x)") (auto simp: count_list_0_iff)
  then show ?thesis by (auto simp: set_succs dest: in_elements)
qed

lemma topsort_step:
  assumes "loop_inv ps dn (x # todo) np ch"
  shows "\<exists>todo' np' ch'. topsort_loop dn (x # todo) np ch = topsort_loop (dn @ [x]) todo' np' ch'
           \<and> loop_inv ps (dn @ [x]) todo' np' ch'"
proof -
  let ?D = "set dn"
  from assms have np: "counts_ok ps ?D np" and ch: "succs_ok ps ?D ch" and dist: "distinct (dn @ x # todo)"
    and zs: "set (dn @ x # todo) = {y \<in> elements ps. open_parents ps ?D y = 0}" and tp: "topo ps (dn @ x # todo)"
    by (auto simp: loop_inv_def)
  have x: "x \<notin> ?D" "open_parents ps ?D x = 0" "x \<in> elements ps" using dist zs by auto
  have D0: "y \<in> ?D \<Longrightarrow> open_parents ps ?D y = 0" for y using zs by auto
  note cc = children_counted [OF np x(1,2) _ D0]
  obtain np' new where k: "for_each knock_child (ddel np x, todo) (succs ps x) = Inr (np', todo @ new)"
    "dict_inv np'"
    "\<And>y. dget np' y = map_option (\<lambda>n. n - int (count_list (succs ps x) y)) (dget (ddel np x) y)"
    "distinct new"
    "set new = {c \<in> set (succs ps x). dget (ddel np x) c = Some (int (count_list (succs ps x) c))}"
    using knock_children [of "ddel np x" "succs ps x" todo] cc np by (auto simp: counts_ok_def)
  have new: "set new = {c \<in> set (succs ps x). open_parents ps ?D c = count_list (succs ps x) c}"
    using k(5) cc by auto
  define ch' where "ch' = (if succs ps x = [] then ch else ddel ch x)"
  have key: "has_key np x" using counts_okD [OF np, of x] x by auto
  have "topsort_loop dn (x # todo) np ch = topsort_loop (dn @ [x]) (todo @ new) np' ch'"
    using succs_okD [OF ch, of x] x(1) key k(1) by (cases "succs ps x = []") (auto simp: ch'_def)
  moreover have "loop_inv ps (dn @ [x]) (todo @ new) np' ch'"
  proof -
    have "counts_ok ps (insert x ?D) np'" by (rule counts_ok_visit [OF np x(1) k(2,3)])
    moreover have "succs_ok ps (insert x ?D) ch'"
      unfolding ch'_def by (simp add: succs_ok_visit [OF ch] succs_ok_leaf [OF ch])
    moreover have "set new \<inter> set (dn @ x # todo) = {}"
      unfolding new zs by (auto simp: count_list_0_iff)
    moreover have "set ((dn @ x # todo) @ new) = {y \<in> elements ps. open_parents ps (insert x ?D) y = 0}"
      unfolding set_append [of _ new] zs new zero_parents_visit [OF x(1)] by blast
    moreover have "topo ps ((dn @ x # todo) @ new)"
    proof (rule topo_append [OF tp])
      fix c p assume "c \<in> set new" "(p, c) \<in> set ps"
      then have "open_parents ps (insert x ?D) c = 0"
        using open_parents_insert [OF x(1), of ps c] by (simp add: new)
      with \<open>(p, c) \<in> set ps\<close> show "p \<in> set (dn @ x # todo)" by (auto simp: open_parents_0_iff)
    qed
    ultimately show ?thesis using dist k(4) by (auto simp: loop_inv_def)
  qed
  ultimately show ?thesis by blast
qed

lemma topsort_loop_spec:
  assumes "loop_inv ps dn todo np ch"
  shows "\<exists>xs np' ch'. topsort_loop dn todo np ch = Inr (xs, np', ch') \<and> loop_inv ps xs [] np' ch'"
  using assms
proof (induction "card (elements ps - set dn)" arbitrary: dn todo np ch rule: less_induct)
  case less
  show ?case
  proof (cases todo)
    case Nil
    with less.prems show ?thesis by auto
  next
    case (Cons x xs)
    from topsort_step [of ps dn x xs np ch] less.prems Cons obtain todo' np' ch' where
      s: "topsort_loop dn todo np ch = topsort_loop (dn @ [x]) todo' np' ch'"
         "loop_inv ps (dn @ [x]) todo' np' ch'" by auto
    have "x \<in> elements ps" "x \<notin> set dn" using less.prems Cons by (auto simp: loop_inv_def)
    then have "card (elements ps - set (dn @ [x])) < card (elements ps - set dn)"
      by (intro psubset_card_mono) (auto simp: finite_elements)
    from less.hyps [OF this s(2)] s(1) show ?thesis by simp
  qed
qed

text \<open>A finite non-empty set in which every element has a parent holds a cycle.\<close>

lemma stuck_cyclic:
  assumes "S \<noteq> {}" "\<And>x. x \<in> S \<Longrightarrow> \<exists>p \<in> S. (p, x) \<in> set ps"
  shows "\<not> acyclic (set ps)"
proof
  assume "acyclic (set ps)"
  then have "wf (set ps)" by (simp add: finite_acyclic_wf)
  with assms show False by (metis wfE_min ex_in_conv)
qed

lemma topo_acyclic:
  assumes "topo ps xs" "distinct xs" "elements ps \<subseteq> set xs"
  shows "acyclic (set ps)"
proof (rule acyclic_subset [OF wf_acyclic [OF wf_measure]])
  show "set ps \<subseteq> measure (\<lambda>x. LEAST i. xs ! i = x \<and> i < length xs)"
  proof clarify
    fix p c assume e: "(p, c) \<in> set ps"
    let ?ix = "\<lambda>x. LEAST i. xs ! i = x \<and> i < length xs"
    from e assms(3) have "c \<in> set xs" by (auto dest: in_elements)
    then obtain us vs where xs: "xs = us @ c # vs" by (auto dest: split_list)
    with e assms(1) have "p \<in> set us" by (auto simp: topo_def)
    then obtain i where i: "i < length us" "us ! i = p" by (auto simp: in_set_conv_nth)
    then have "?ix p \<le> i" by (intro Least_le) (auto simp: xs nth_append)
    also have "i < length us" by (rule i(1))
    also have "length us = ?ix c"
      using assms(2) by (intro Least_equality [symmetric])
        (auto simp: xs nth_append in_set_conv_nth split: if_splits intro!: leI)
    finally show "(p, c) \<in> measure ?ix" by simp
  qed
qed

lemma topsort_run:
  assumes "dict_order ord"
  shows "\<exists>xs np ch. loop_inv ps xs [] np ch
           \<and> topsort ord ps = (if np \<noteq> [] then Inl (CycleError xs np ch) else Inr xs)"
proof -
  obtain np ch where b: "build ps = Inr (np, ch)" "counts_ok ps {} np" "succs_ok ps {} ch"
    using build_spec by blast
  let ?a = "filter (\<lambda>x. dget np x = Some 0) (ord (dkeys np))"
  have a: "set ?a = {x \<in> elements ps. open_parents ps {} x = 0}"
    using assms counts_okD [OF b(2)] by (auto split: if_splits)
  moreover have "distinct ?a"
    using assms b(2) pd.distinct_keys [of np] by (simp add: counts_ok_def)
  moreover have "topo ps ([] @ ?a)"
    by (rule topo_append [OF topo_Nil]) (use a in \<open>auto simp: open_parents_0_iff\<close>)
  ultimately have "loop_inv ps [] ?a np ch"
    using b(2,3) by (simp add: loop_inv_def)
  from topsort_loop_spec [OF this] show ?thesis
    by (fastforce simp: topsort_def b(1) Let_def)
qed

lemma topsort_answer:
  assumes "dict_order ord" "topsort ord ps = Inr xs"
  shows "distinct xs \<and> set xs = elements ps \<and> topo ps xs"
proof -
  from topsort_run [OF assms(1), of ps] assms(2) obtain ch where "loop_inv ps xs [] [] ch"
    by (auto split: if_splits)
  then have inv: "counts_ok ps (set xs) []" "distinct xs" "topo ps xs"
      "set xs = {x \<in> elements ps. open_parents ps (set xs) x = 0}"
    by (simp_all add: loop_inv_def)
  from counts_okD [OF inv(1)] have "elements ps \<subseteq> set xs" by (force split: if_splits)
  with inv show ?thesis by auto
qed

text \<open>
  Claim C1.  What \<open>topsort\<close> returns: every element of the pairs exactly once, each after all its
  parents, whatever the order in which \<open>num_parents.keys()\<close> enumerates the dictionary.
\<close>

theorem topsort_sorted:
  assumes "dict_order ord" "topsort ord ps = Inr xs"
  shows "distinct xs \<and> set xs = elements ps \<and> topo ps xs"
  by (rule topsort_answer [OF assms])

theorem topsort_sorted_witness:
  "topsort (\<lambda>xs. xs) [(1, 2), (3, 4), (5, 6), (1, 3), (1, 5), (1, 6), (2, 5)] = Inr [1, 2, 3, 5, 4, 6 :: nat]
   \<and> topo [(1, 2), (3, 4), (5, 6), (1, 3), (1, 5), (1, 6), (2, 5)] [1, 2, 3, 5, 4, 6 :: nat]"
proof -
  have run: "topsort (\<lambda>xs. xs) [(1, 2), (3, 4), (5, 6), (1, 3), (1, 5), (1, 6), (2, 5)]
      = Inr [1, 2, 3, 5, 4, 6 :: nat]" by code_simp
  from topsort_sorted [OF dict_order_id run] run show ?thesis by blast
qed

text \<open>
  Claim C2.  \<open>topsort\<close> returns exactly when the pairs have no cycle.  On a cyclic input it raises
  \<open>CycleError\<close>, never \<open>KeyError\<close>; the dictionary it reports is not empty, and each element
  left in it has a parent that is left in it too.
\<close>

theorem topsort_decides_cycles:
  assumes "dict_order ord"
  shows "if acyclic (set ps) then \<exists>xs. topsort ord ps = Inr xs
    else \<exists>xs np ch. topsort ord ps = Inl (CycleError xs np ch) \<and> dkeys np \<noteq> []
           \<and> (\<forall>x. has_key np x \<longrightarrow> (\<exists>p. has_key np p \<and> (p, x) \<in> set ps))"
proof -
  from topsort_run [OF assms, of ps] obtain xs np ch where inv: "loop_inv ps xs [] np ch"
    and run: "topsort ord ps = (if np \<noteq> [] then Inl (CycleError xs np ch) else Inr xs)" by blast
  from inv have np: "counts_ok ps (set xs) np" "distinct xs" "topo ps xs"
      "\<And>x. x \<in> set xs \<longleftrightarrow> x \<in> elements ps \<and> open_parents ps (set xs) x = 0"
    by (auto simp: loop_inv_def set_eq_iff)
  have left: "has_key np x \<longleftrightarrow> x \<in> elements ps - set xs" for x
    using counts_okD [OF np(1), of x] by (simp split: if_splits)
  have par: "\<exists>p. has_key np p \<and> (p, x) \<in> set ps" if "has_key np x" for x
  proof -
    from that have "x \<in> elements ps" "x \<notin> set xs" unfolding left by auto
    with np(4) [of x] have "open_parents ps (set xs) x \<noteq> 0" by simp
    then obtain p where "(p, x) \<in> set ps" "p \<notin> set xs" by (auto simp: open_parents_0_iff)
    with in_elements [of p x ps] show ?thesis unfolding left by blast
  qed
  show ?thesis
  proof (cases "np = []")
    case True
    with left have "elements ps \<subseteq> set xs" by (auto simp: has_key_def)
    with np topo_acyclic have "acyclic (set ps)" by blast
    with True run show ?thesis by simp
  next
    case False
    then have "{x. has_key np x} \<noteq> {}" using pd.keys_empty_iff [of np] by (auto simp: has_key_def)
    with par stuck_cyclic [of "{x. has_key np x}" ps] have "\<not> acyclic (set ps)" by blast
    with False run par show ?thesis by simp
  qed
qed

theorem topsort_decides_cycles_witness:
  "\<exists>xs np ch. topsort rev [(1, 2), (2, 3), (3, 2 :: nat)] = Inl (CycleError xs np ch)"
proof -
  have "(2, 2) \<in> (set [(1, 2), (2, 3), (3, 2 :: nat)])\<^sup>+"
    by (rule trancl_into_trancl [of _ 3]) auto
  then have "\<not> acyclic (set [(1, 2), (2, 3), (3, 2 :: nat)])" unfolding acyclic_def by blast
  with topsort_decides_cycles [OF dict_order_rev, of "[(1, 2), (2, 3), (3, 2 :: nat)]"]
  show ?thesis by (auto split: if_splits)
qed

text \<open>
  The comment at the \<open>raise\<close> says that everything left in \<open>num_parents\<close> has a child.
  It has a parent, not always a child: here 4 hangs off the cycle of 2 and 3, is reported with
  it, and is no key of the reported \<open>children\<close>.
\<close>

theorem topsort_leftover_without_child:
  "topsort (\<lambda>xs. xs) [(1, 2), (2, 3), (3, 2), (3, 4 :: nat)] =
     Inl (CycleError [1] [(2, 1), (3, 1), (4, 1)] [(2, [3]), (3, [2, 4])])"
  by code_simp

section \<open>Correctness of \<open>topsort_levels\<close>\<close>

text \<open>\<open>below ps k\<close>: the elements of depth less than \<open>k\<close>.\<close>

fun below :: "('a \<times> 'a) list \<Rightarrow> nat \<Rightarrow> 'a set" where
  "below ps 0 = {}"
| "below ps (Suc k) = {x \<in> elements ps. \<forall>p. (p, x) \<in> set ps \<longrightarrow> p \<in> below ps k}"

declare below.simps(2) [simp del]

lemma below_mono: "below ps k \<subseteq> below ps (Suc k)"
  by (induction k) (auto simp: below.simps(2))

lemma below_elements: "below ps k \<subseteq> elements ps"
  by (cases k) (auto simp: below.simps(2))

lemma below_closed: "x \<in> below ps k \<Longrightarrow> open_parents ps (below ps k) x = 0"
  using below_mono [of ps k] by (auto simp: open_parents_0_iff below.simps(2))

lemma below_Suc: "below ps (Suc k) = {x \<in> elements ps. open_parents ps (below ps k) x = 0}"
  by (simp add: open_parents_0_iff below.simps(2))

lemma below_wf: "elements ps \<subseteq> below ps k \<Longrightarrow> wf (set ps)"
proof (rule wf_subset [OF wf_measure])
  assume all: "elements ps \<subseteq> below ps k"
  show "set ps \<subseteq> measure (\<lambda>x. LEAST j. x \<in> below ps j)"
  proof clarify
    fix p c assume e: "(p, c) \<in> set ps"
    let ?d = "\<lambda>x. LEAST j. x \<in> below ps j"
    from e all have c: "c \<in> below ps (?d c)" by (auto intro: LeastI dest: in_elements)
    then obtain j where j: "?d c = Suc j" by (cases "?d c") auto
    with c e have "p \<in> below ps j" by (simp add: below.simps(2))
    then have "?d p \<le> j" by (rule Least_le)
    with j show "(p, c) \<in> measure ?d" by simp
  qed
qed

lemma drop_parent_knock:
  "for_each drop_parent np cs = map_sum id fst (for_each knock_child (np, r) cs)"
proof (induction cs arbitrary: np r)
  case (Cons c cs)
  show ?case
  proof (cases "dget np c")
    case (Some n)
    then show ?thesis
      using Cons.IH [of "dset np c (n - 1)" "if n - 1 = 0 then r @ [c] else r"]
      by (simp add: drop_parent_def knock_child_def)
  qed (simp add: drop_parent_def knock_child_def)
qed simp

lemma visit_level_parent_step:
  assumes np: "counts_ok ps D np" and ch: "succs_ok ps D ch" and x: "x \<in> elements ps" "x \<notin> D"
    and D: "\<And>y. y \<in> insert x D \<Longrightarrow> open_parents ps D y = 0"
  shows "\<exists>np' ch'. visit_level_parent (np, ch) x = Inr (np', ch')
           \<and> counts_ok ps (insert x D) np' \<and> succs_ok ps (insert x D) ch'"
proof -
  note cc = children_counted [OF np x(2) D [OF insertI1] _ D [OF insertI2]]
  obtain np' new where k: "for_each knock_child (ddel np x, []) (succs ps x) = Inr (np', new)"
    "dict_inv np'"
    "\<And>y. dget np' y = map_option (\<lambda>n. n - int (count_list (succs ps x) y)) (dget (ddel np x) y)"
    using knock_children [of "ddel np x" "succs ps x" "[]"] cc np by (auto simp: counts_ok_def)
  from k(1) have d: "for_each drop_parent (ddel np x) (succs ps x) = Inr np'"
    by (simp add: drop_parent_knock [of _ _ "[]"])
  define ch' where "ch' = (if succs ps x = [] then ch else ddel ch x)"
  have "visit_level_parent (np, ch) x = Inr (np', ch')"
    using succs_okD [OF ch, of x] counts_okD [OF np, of x] x d
    by (cases "succs ps x = []") (auto simp: visit_level_parent_def ch'_def)
  moreover have "counts_ok ps (insert x D) np'" by (rule counts_ok_visit [OF np x(2) k(2,3)])
  moreover have "succs_ok ps (insert x D) ch'"
    unfolding ch'_def by (simp add: succs_ok_visit [OF ch] succs_ok_leaf [OF ch])
  ultimately show ?thesis by blast
qed

lemma open_parents_0_mono: "open_parents ps D x = 0 \<Longrightarrow> D \<subseteq> D' \<Longrightarrow> open_parents ps D' x = 0"
  by (auto simp: open_parents_0_iff)

lemma visit_level:
  assumes np: "counts_ok ps D np" and ch: "succs_ok ps D ch" and lv: "distinct lv"
    "set lv \<subseteq> elements ps - D" "\<And>y. y \<in> set lv \<union> D \<Longrightarrow> open_parents ps D y = 0"
  shows "\<exists>np' ch'. for_each visit_level_parent (np, ch) lv = Inr (np', ch')
           \<and> counts_ok ps (D \<union> set lv) np' \<and> succs_ok ps (D \<union> set lv) ch'"
proof -
  let ?I = "\<lambda>ys (np', ch'). counts_ok ps (D \<union> set ys) np' \<and> succs_ok ps (D \<union> set ys) ch'"
  have "\<exists>t. for_each visit_level_parent (np, ch) lv = Inr t \<and> ?I lv t"
  proof (rule for_each_inv [where I = ?I])
    show "?I [] (np, ch)" using np ch by simp
    fix ys x zs and t :: "'a counts \<times> 'a succ_map"
    assume s: "lv = ys @ x # zs" and I: "?I ys t"
    obtain np' ch' where t: "t = (np', ch')" by (cases t)
    have "x \<in> elements ps" "x \<notin> D \<union> set ys" using lv(1,2) by (auto simp: s)
    moreover have "y \<in> insert x (D \<union> set ys) \<Longrightarrow> open_parents ps (D \<union> set ys) y = 0" for y
      by (rule open_parents_0_mono [of ps D]) (use lv(3) [of y] in \<open>auto simp: s\<close>)
    ultimately show "\<exists>t'. visit_level_parent t x = Inr t' \<and> ?I (ys @ [x]) t'"
      using visit_level_parent_step [of ps "D \<union> set ys" np' ch' x] I by (auto simp: t)
  qed
  then show ?thesis by auto
qed

definition rest_of :: "('a \<times> 'a) list \<Rightarrow> nat \<Rightarrow> 'a set" where
  "rest_of ps k = elements ps - below ps k"

text \<open>The level found when the elements of depth below \<open>k\<close> are gone.\<close>

lemma next_level:
  assumes "dict_order ord" "counts_ok ps (below ps k) np"
  defines "lv \<equiv> filter (\<lambda>x. dget np x = Some 0) (ord (dkeys np))"
  shows "set lv = below ps (Suc k) - below ps k" "distinct lv" "np = [] \<longleftrightarrow> rest_of ps k = {}"
proof -
  note np = counts_okD [OF assms(2)]
  show "set lv = below ps (Suc k) - below ps k"
    using assms(1) np by (auto simp: lv_def below_Suc split: if_splits)
  show "distinct lv"
    using assms(1,2) pd.distinct_keys [of np] by (simp add: lv_def counts_ok_def)
  have "np = [] \<longleftrightarrow> dget np = Map.empty" using pd.keys_empty_iff [of np] by simp
  then show "np = [] \<longleftrightarrow> rest_of ps k = {}" by (auto simp: fun_eq_iff np rest_of_def split: if_splits)
qed

lemma stuck_rest:
  assumes "below ps (Suc k) - below ps k = {}" "x \<in> rest_of ps k"
  shows "\<exists>p \<in> rest_of ps k. (p, x) \<in> set ps"
proof -
  from assms have "x \<notin> below ps (Suc k)" and x: "x \<in> elements ps" by (auto simp: rest_of_def)
  then obtain p where "(p, x) \<in> set ps" "p \<notin> below ps k" by (auto simp: below.simps(2))
  with in_elements [of p x ps] show ?thesis by (auto simp: rest_of_def)
qed

lemma levels_core_spec:
  assumes ord: "dict_order ord"
    and "counts_ok ps (below ps k) np" "succs_ok ps (below ps k) ch" "topsort_levels_core ord np ch = (ls, r)"
  shows "(\<forall>i < length ls. ls ! i \<noteq> [] \<and> distinct (ls ! i) \<and> set (ls ! i) = below ps (Suc (k + i)) - below ps (k + i))
    \<and> (if rest_of ps (k + length ls) = {} then r = None
       else (\<exists>np' ch'. r = Some (LevelsCycleError np' ch') \<and> counts_ok ps (below ps (k + length ls)) np')
            \<and> (\<forall>x \<in> rest_of ps (k + length ls). \<exists>p \<in> rest_of ps (k + length ls). (p, x) \<in> set ps))"
  using assms(2-4)
proof (induction "card (rest_of ps k)" arbitrary: k np ch ls r rule: less_induct)
  case less
  define lv where "lv = filter (\<lambda>x. dget np x = Some 0) (ord (dkeys np))"
  note lv = next_level [OF ord less.prems(1), folded lv_def]
  show ?case
  proof (cases "lv = []")
    case True
    then have "ls = []" "r = (if np \<noteq> [] then Some (LevelsCycleError np ch) else None)"
      using less.prems(3) by (simp_all add: topsort_levels_core.simps [of ord np ch] lv_def [symmetric] Let_def)
    moreover have "below ps (Suc k) - below ps k = {}" using lv(1) True by simp
    ultimately show ?thesis using lv(3) stuck_rest [of ps k] less.prems(1) by simp
  next
    case False
    have u: "below ps k \<union> set lv = below ps (Suc k)" using lv(1) below_mono [of ps k] by blast
    have "y \<in> set lv \<union> below ps k \<Longrightarrow> open_parents ps (below ps k) y = 0" for y
      unfolding lv(1) using below_mono [of ps k] below_Suc [of ps k] by blast
    moreover have "set lv \<subseteq> elements ps - below ps k" unfolding lv(1) using below_elements [of ps "Suc k"] by blast
    ultimately obtain np' ch' where v: "for_each visit_level_parent (np, ch) lv = Inr (np', ch')"
      "counts_ok ps (below ps (Suc k)) np'" "succs_ok ps (below ps (Suc k)) ch'"
      using visit_level [OF less.prems(1,2) lv(2)] unfolding u by blast
    obtain ls' where r: "topsort_levels_core ord np' ch' = (ls', r)" "ls = lv # ls'"
      using less.prems(3) False v(1)
      by (auto simp: topsort_levels_core.simps [of ord np ch] lv_def [symmetric] Let_def split: prod.splits)
    obtain x where "x \<in> below ps (Suc k) - below ps k" using False hd_in_set [of lv] unfolding lv(1) [symmetric] by blast
    then have "rest_of ps (Suc k) \<subset> rest_of ps k"
      using u below_elements [of ps "Suc k"] by (auto simp: rest_of_def)
    then have "card (rest_of ps (Suc k)) < card (rest_of ps k)"
      by (rule psubset_card_mono [rotated]) (simp add: rest_of_def finite_elements)
    note IH = less.hyps [OF this v(2,3) r(1), unfolded add_Suc]
    have "ls ! i \<noteq> [] \<and> distinct (ls ! i) \<and> set (ls ! i) = below ps (Suc (k + i)) - below ps (k + i)"
      if "i < length ls" for i
      using that IH lv(1,2) False by (cases i) (auto simp: r(2))
    moreover have "k + length ls = Suc (k + length ls')" by (simp add: r(2))
    ultimately show ?thesis using IH by presburger
  qed
qed

lemma set_levels:
  "(\<forall>i < length ls. set (ls ! i) = below ps (Suc i) - below ps i) \<Longrightarrow> set (concat ls) = below ps (length ls)"
proof (induction ls rule: rev_induct)
  case (snoc l ls)
  then have "\<forall>i < length ls. set (ls ! i) = below ps (Suc i) - below ps i"
    by (metis nth_append_left length_append_singleton less_SucI)
  with snoc.IH have "set (concat ls) = below ps (length ls)" by blast
  moreover have "set l = below ps (Suc (length ls)) - below ps (length ls)"
    using snoc.prems [rule_format, of "length ls"] by simp
  ultimately show ?case using below_mono [of ps "length ls"] by (auto)
qed simp

text \<open>The elements that a cycle leads to, those on a cycle among them.\<close>

definition below_cycle :: "('a \<times> 'a) list \<Rightarrow> 'a \<Rightarrow> bool" where
  "below_cycle ps x \<longleftrightarrow> (\<exists>y. (y, y) \<in> (set ps)\<^sup>+ \<and> (y, x) \<in> (set ps)\<^sup>*)"

lemma below_no_cycle: "x \<in> below ps k \<Longrightarrow> \<not> below_cycle ps x"
proof (induction k arbitrary: x)
  case (Suc k)
  have parent: "\<not> below_cycle ps p" if "(p, x) \<in> set ps" for p
    using Suc that by (simp add: below.simps(2))
  have "\<exists>p. (p, x) \<in> set ps \<and> below_cycle ps p" if y: "(y, y) \<in> (set ps)\<^sup>+" "(y, x) \<in> (set ps)\<^sup>*" for y
  proof -
    have "(y, x) \<in> (set ps)\<^sup>+" using y by (metis rtrancl_eq_or_trancl)
    then obtain p where "(y, p) \<in> (set ps)\<^sup>*" "(p, x) \<in> set ps" by (meson tranclD2)
    with y(1) show ?thesis by (auto simp: below_cycle_def)
  qed
  with parent show ?case unfolding below_cycle_def [of ps x] by blast
qed simp

lemma rest_below_cycle:
  assumes "\<forall>x \<in> R. \<exists>p \<in> R. (p, x) \<in> set ps" "x \<in> R"
  shows "below_cycle ps x"
proof -
  define A where "A = {z \<in> R. (z, x) \<in> (set ps)\<^sup>*}"
  define qs where "qs = filter (\<lambda>(p, c). c \<in> A) ps"
  have "\<exists>p \<in> A. (p, z) \<in> set qs" if "z \<in> A" for z
  proof -
    from that assms(1) obtain p where "p \<in> R" "(p, z) \<in> set ps" "(z, x) \<in> (set ps)\<^sup>*" by (auto simp: A_def)
    then show ?thesis using that by (auto simp: A_def qs_def intro: converse_rtrancl_into_rtrancl)
  qed
  moreover have "x \<in> A" using assms(2) by (simp add: A_def)
  ultimately obtain y where y: "(y, y) \<in> (set qs)\<^sup>+"
    using stuck_cyclic [of A qs] by (auto simp: acyclic_def)
  then obtain z where "(z, y) \<in> set qs" by (meson tranclD2)
  then have "y \<in> A" by (simp add: qs_def)
  moreover have "(y, y) \<in> (set ps)\<^sup>+" using trancl_mono [OF y, of "set ps"] by (auto simp: qs_def)
  ultimately show ?thesis by (auto simp: A_def below_cycle_def)
qed

text \<open>
  Claim C34.  The \<open>k\<close>-th list that \<open>topsort_levels\<close> yields is not empty and holds exactly the elements of
  depth \<open>k\<close>, each once: all their parents lie in earlier levels and, after level 0, one of them in the
  level just before.  Together the levels hold exactly the elements that no cycle leads to.  Without a
  cycle these are all elements and the generator ends normally; with one the generator raises
  \<open>CycleError\<close> behind these levels, and the dictionary it reports has the other elements as its keys.
\<close>

theorem topsort_levels_depth:
  assumes "dict_order ord" "topsort_levels ord ps = (ls, r)"
  shows "(\<forall>i < length ls. ls ! i \<noteq> [] \<and> distinct (ls ! i) \<and> set (ls ! i) = below ps (Suc i) - below ps i)
    \<and> set (concat ls) = {x \<in> elements ps. \<not> below_cycle ps x}
    \<and> (if acyclic (set ps) then r = None \<and> set (concat ls) = elements ps
       else \<exists>np ch. r = Some (LevelsCycleError np ch) \<and> (\<forall>x. has_key np x \<longleftrightarrow> x \<in> elements ps \<and> below_cycle ps x))"
proof -
  let ?n = "length ls"
  obtain np ch where b: "build ps = Inr (np, ch)" "counts_ok ps {} np" "succs_ok ps {} ch"
    using build_spec by blast
  with assms(2) have run: "topsort_levels_core ord np ch = (ls, r)" by (simp add: topsort_levels_def)
  note core = levels_core_spec [OF assms(1), of ps 0 np ch ls r, unfolded add_0 below.simps(1), OF b(2,3) run]
  from core have lv: "\<forall>i < ?n. ls ! i \<noteq> [] \<and> distinct (ls ! i) \<and> set (ls ! i) = below ps (Suc i) - below ps i"
    by blast
  from core have e: "if rest_of ps ?n = {} then r = None
       else (\<exists>np' ch'. r = Some (LevelsCycleError np' ch') \<and> counts_ok ps (below ps ?n) np')
            \<and> (\<forall>x \<in> rest_of ps ?n. \<exists>p \<in> rest_of ps ?n. (p, x) \<in> set ps)"
    by blast
  have all: "set (concat ls) = below ps ?n" by (rule set_levels) (use lv in blast)
  have rest: "rest_of ps ?n = {x \<in> elements ps. below_cycle ps x}"
    using e rest_below_cycle [of "rest_of ps ?n" ps] below_no_cycle [of _ ps ?n]
    by (auto simp: rest_of_def split: if_splits)
  have yielded: "set (concat ls) = {x \<in> elements ps. \<not> below_cycle ps x}"
    using all rest below_elements [of ps ?n] by (auto simp: rest_of_def)
  have no_rest: "rest_of ps ?n = {} \<longleftrightarrow> acyclic (set ps)"
  proof
    assume "rest_of ps ?n = {}"
    then have "elements ps \<subseteq> below ps ?n" by (auto simp: rest_of_def)
    then show "acyclic (set ps)" using below_wf by (blast intro: wf_acyclic)
  next
    assume "acyclic (set ps)"
    with rest show "rest_of ps ?n = {}" by (auto simp: acyclic_def below_cycle_def)
  qed
  show ?thesis
  proof (cases "acyclic (set ps)")
    case True
    with no_rest e have "r = None" by simp
    with True lv yielded show ?thesis by (auto simp: acyclic_def below_cycle_def)
  next
    case False
    with no_rest e obtain np' ch' where r: "r = Some (LevelsCycleError np' ch')" "counts_ok ps (below ps ?n) np'"
      by (auto split: if_splits)
    have "has_key np' x \<longleftrightarrow> x \<in> rest_of ps ?n" for x
      using counts_okD [OF r(2), of x] by (simp add: rest_of_def split: if_splits)
    with False lv yielded r(1) show ?thesis by (simp add: rest)
  qed
qed

theorem topsort_levels_depth_witness:
  "topsort_levels (\<lambda>xs. xs) [(1, 2), (2, 3), (3, 4), (4, 3 :: nat)]
      = ([[1], [2]], Some (LevelsCycleError [(3, 1), (4, 1)] [(3, [4]), (4, [3])]))
   \<and> set [2] = below [(1, 2), (2, 3), (3, 4), (4, 3 :: nat)] (Suc 1) - below [(1, 2), (2, 3), (3, 4), (4, 3)] 1"
proof -
  have run: "topsort_levels (\<lambda>xs. xs) [(1, 2), (2, 3), (3, 4), (4, 3 :: nat)]
      = ([[1], [2]], Some (LevelsCycleError [(3, 1), (4, 1)] [(3, [4]), (4, [3])]))" by code_simp
  from topsort_levels_depth [OF dict_order_id run] have
    "[[1], [2 :: nat]] ! 1 \<noteq> [] \<and> distinct ([[1], [2 :: nat]] ! 1) \<and> set ([[1], [2 :: nat]] ! 1) =
       below [(1, 2), (2, 3), (3, 4), (4, 3)] (Suc 1) - below [(1, 2), (2, 3), (3, 4), (4, 3)] 1"
    by (elim conjE allE [of _ 1]) simp
  with run show ?thesis by simp
qed

end
