(* ===== verification/TestJobs.thy ===== *)
theory TestJobs
  imports PyDict PyPath "HOL-Library.List_Lexorder"
begin

text \<open>
  The first half of the test driver \<open>test.py\<close>: the \<open>Job\<close> class, the command line of a job
  (\<open>run_job_synchronously\<close>), the environment (\<open>make_paths\<close>), the collection of the examples
  (\<open>parse_examples_to_run_file\<close>), and the part of \<open>run_tests\<close> that decides what is run and
  queues a job for it.  The waf configuration, the command line options, the files of the source
  tree and the results of shell commands are arguments.
\<close>

section \<open>Data\<close>

record job =
  is_break :: bool
  is_skip :: bool
  skip_reason :: string
  is_example :: bool
  is_pyexample :: bool
  shell_command :: string
  display_name :: string
  basedir :: string
  tempdir :: string
  job_cwd :: string
  tmp_file_name :: string
  returncode :: int
  elapsed_time :: nat
  build_path :: string

definition new_job :: job where
  "new_job = \<lparr>is_break = False, is_skip = False, skip_reason = [], is_example = False, is_pyexample = False,
     shell_command = [], display_name = [], basedir = [], tempdir = [], job_cwd = [], tmp_file_name = [],
     returncode = 0, elapsed_time = 0, build_path = []\<rparr>"

text \<open>What waf stored about the build; \<open>getcwd\<close> is the current directory.\<close>

record config =
  APPNAME :: string
  VERSION :: string
  BUILD_PROFILE :: string
  NSC_ENABLED :: bool
  ENABLE_EXAMPLES :: bool
  ENABLE_PYTHON_BINDINGS :: bool
  PYTHON :: "string list"
  NS3_BASEDIR :: string
  NS3_BUILDDIR :: string
  NS3_ENABLED_MODULES :: "string list"
  NS3_ENABLED_CONTRIBUTED_MODULES :: "string list"
  NS3_MODULE_PATH :: "string list"
  EXAMPLE_DIRECTORIES :: "string list"
  getcwd :: string

record test_options =
  o_buildpath :: string
  o_constrain :: string
  o_duration :: bool
  o_example :: string
  o_update_data :: bool
  o_fullness :: string
  o_valgrind :: bool
  o_kinds :: bool
  o_list :: bool
  o_multiple :: bool
  o_nowaf :: bool
  o_pyexample :: string
  o_retain :: bool
  o_suite :: string
  o_text :: string
  o_verbose :: bool
  o_html :: string
  o_xml :: string

definition core_kinds :: "string list" where
  "core_kinds = [''bvt'', ''core'', ''performance'', ''system'', ''unit'']"

definition core_valgrind_skip_tests :: "string list" where
  "core_valgrind_skip_tests = [
    ''ns3-tcp-cwnd'',
    ''nsc-tcp-loss'',
    ''ns3-tcp-interoperability'',
    ''routing-click'',
    ''lte-rr-ff-mac-scheduler'',
    ''lte-tdmt-ff-mac-scheduler'',
    ''lte-fdmt-ff-mac-scheduler'',
    ''lte-pf-ff-mac-scheduler'',
    ''lte-tta-ff-mac-scheduler'',
    ''lte-fdbet-ff-mac-scheduler'',
    ''lte-ttbet-ff-mac-scheduler'',
    ''lte-fdtbfq-ff-mac-scheduler'',
    ''lte-tdtbfq-ff-mac-scheduler'',
    ''lte-pss-ff-mac-scheduler'']"

definition core_nsc_missing_skip_tests :: "string list" where
  "core_nsc_missing_skip_tests = [
    ''ns3-tcp-cwnd'',
    ''nsc-tcp-loss'',
    ''ns3-tcp-interoperability'']"

definition TMP_OUTPUT_DIR :: string where
  "TMP_OUTPUT_DIR = ''testpy-output''"

definition VALGRIND_SUPPRESSIONS_FILE :: string where
  "VALGRIND_SUPPRESSIONS_FILE = ''testpy.supp''"

section \<open>Names and commands\<close>

definition build_profile_suffix :: "config \<Rightarrow> string" where
  "build_profile_suffix c = (if BUILD_PROFILE c = ''release'' then [] else ''-'' @ BUILD_PROFILE c)"

definition program_name :: "config \<Rightarrow> string \<Rightarrow> string" where
  "program_name c nm = APPNAME c @ VERSION c @ ''-'' @ nm @ build_profile_suffix c"

definition test_runner_name :: "config \<Rightarrow> string" where
  "test_runner_name c = program_name c ''test-runner''"

text \<open>The command that \<open>run_job_synchronously\<close> hands to the shell; \<open>PYTHON[0]\<close> may be missing.\<close>

definition job_command :: "config \<Rightarrow> string \<Rightarrow> bool \<Rightarrow> bool \<Rightarrow> string \<Rightarrow> py_error + string" where
  "job_command c command valgrind python bpath =
     (let suppressions_path = path_join (NS3_BASEDIR c) VALGRIND_SUPPRESSIONS_FILE
      in rbind (if python then
                  (case PYTHON c of
                     [] \<Rightarrow> Inl IndexError
                   | interpreter # _ \<Rightarrow> Inr (interpreter @ '' '' @ path_join (NS3_BASEDIR c) command))
                else if length bpath > 0 then Inr (path_join bpath command)
                else Inr (path_join (NS3_BUILDDIR c) command)) (\<lambda>path_cmd.
           Inr (if valgrind then
                  ''valgrind --suppressions='' @ suppressions_path @
                  '' --leak-check=full --show-reachable=yes --error-exitcode=2 --errors-for-leak-kinds=all '' @ path_cmd
                else path_cmd)))"

text \<open>
  The outcome of a shell command: exit code, the two outputs (\<open>None\<close> where the bytes cannot be
  decoded) and the milliseconds it took.
\<close>

record shell_result =
  sr_code :: int
  sr_out :: "string option"
  sr_err :: "string option"
  sr_time :: nat

type_synonym shell = "string \<Rightarrow> string \<Rightarrow> shell_result"

definition run_job_synchronously ::
    "config \<Rightarrow> shell \<Rightarrow> string \<Rightarrow> string \<Rightarrow> bool \<Rightarrow> bool \<Rightarrow> string
      \<Rightarrow> py_error + int \<times> string option \<times> string option \<times> nat" where
  "run_job_synchronously c sh command directory valgrind python bpath =
     rbind (job_command c command valgrind python bpath) (\<lambda>cmd.
       let r = sh cmd directory;
           retval = sr_code r;
           retval = (if sr_out r = None then 1 else retval);
           retval = (if sr_err r = None then 1 else retval)
       in Inr (retval, sr_out r, sr_err r, sr_time r))"

section \<open>The environment\<close>

datatype platform = Darwin | Win32 | Cygwin | OtherPlatform

definition extend_path :: "string \<Rightarrow> string \<Rightarrow> string list \<Rightarrow> (string, string) dict \<Rightarrow> (string, string) dict" where
  "extend_path var sep paths environ =
     (let environ = (if \<not> has_key environ var then dset environ var [] else environ)
      in foldl (\<lambda>env path. dset env var ((case dget env var of None \<Rightarrow> [] | Some v \<Rightarrow> v) @ sep @ path)) environ paths)"

definition make_paths :: "config \<Rightarrow> platform \<Rightarrow> (string, string) dict \<Rightarrow> (string, string) dict" where
  "make_paths c plat environ =
     (let have_PYTHONPATH = has_key environ ''PYTHONPATH'';
          pypath = path_join (path_join (NS3_BUILDDIR c) ''bindings'') ''python'';
          environ = dset environ ''PYTHONPATH'' pypath;
          environ = (if \<not> have_PYTHONPATH then dset environ ''PYTHONPATH'' pypath
            else dset environ ''PYTHONPATH''
              ((case dget environ ''PYTHONPATH'' of None \<Rightarrow> [] | Some v \<Rightarrow> v) @ '':'' @ pypath))
      in case plat of
           Darwin \<Rightarrow> extend_path ''DYLD_LIBRARY_PATH'' '':'' (NS3_MODULE_PATH c) environ
         | Win32 \<Rightarrow> extend_path ''PATH'' '';'' (NS3_MODULE_PATH c) environ
         | Cygwin \<Rightarrow> extend_path ''PATH'' '':'' (NS3_MODULE_PATH c) environ
         | OtherPlatform \<Rightarrow> extend_path ''LD_LIBRARY_PATH'' '':'' (NS3_MODULE_PATH c) environ)"

section \<open>Examples\<close>

text \<open>The source tree: which files exist and what the lists of an \<open>examples-to-run\<close> file hold.\<close>

record tree =
  path_exists :: "string \<Rightarrow> bool"
  cpp_examples :: "string \<Rightarrow> (string \<times> string \<times> string) list"
  python_examples :: "string \<Rightarrow> (string \<times> string) list"

record examples =
  example_tests :: "(string \<times> string \<times> string \<times> string) list"
  example_names_original :: "string list"
  python_tests :: "(string \<times> string) list"

definition add_arguments :: "string \<Rightarrow> string option \<Rightarrow> string" where
  "add_arguments s arguments = (case arguments of None \<Rightarrow> s | Some a \<Rightarrow> s @ '' '' @ a)"

definition add_cpp_example ::
    "config \<Rightarrow> tree \<Rightarrow> string \<Rightarrow> examples \<Rightarrow> string \<times> string \<times> string \<Rightarrow> examples" where
  "add_cpp_example c t cpp_executable_dir ex entry =
     (case entry of (example_name_original, do_run, do_valgrind_run) \<Rightarrow>
       case split_once (CHR '' '') example_name_original of (example_name, arguments) \<Rightarrow>
         let example_path = path_join cpp_executable_dir (program_name c example_name);
             example_name = path_join (relpath (getcwd c) cpp_executable_dir (NS3_BUILDDIR c)) example_name
         in if path_exists t example_path then
              ex\<lparr>example_tests := example_tests ex @
                   [(add_arguments example_name arguments, add_arguments example_path arguments, do_run, do_valgrind_run)],
                 example_names_original := example_names_original ex @ [example_name_original]\<rparr>
            else ex)"

definition add_python_example :: "tree \<Rightarrow> string \<Rightarrow> examples \<Rightarrow> string \<times> string \<Rightarrow> examples" where
  "add_python_example t python_script_dir ex entry =
     (case entry of (example_name, do_run) \<Rightarrow>
       case split_once (CHR '' '') example_name of (example_name, arguments) \<Rightarrow>
         let example_path = path_join python_script_dir example_name
         in if path_exists t example_path then
              ex\<lparr>python_tests := python_tests ex @ [(add_arguments example_path arguments, do_run)]\<rparr>
            else ex)"

definition parse_examples_to_run_file ::
    "config \<Rightarrow> tree \<Rightarrow> string \<Rightarrow> string \<Rightarrow> string \<Rightarrow> examples \<Rightarrow> examples" where
  "parse_examples_to_run_file c t examples_to_run_path cpp_executable_dir python_script_dir ex =
     (if path_exists t examples_to_run_path then
        foldl (add_python_example t python_script_dir)
          (foldl (add_cpp_example c t cpp_executable_dir) ex (cpp_examples t examples_to_run_path))
          (python_examples t examples_to_run_path)
      else ex)"

definition parse_directory :: "config \<Rightarrow> tree \<Rightarrow> examples \<Rightarrow> string \<Rightarrow> examples" where
  "parse_directory c t ex directory =
     (let example_directory = path_join ''examples'' directory
      in parse_examples_to_run_file c t (path_join example_directory ''examples-to-run.py'')
           (path_join (NS3_BUILDDIR c) example_directory) example_directory ex)"

definition parse_module :: "config \<Rightarrow> tree \<Rightarrow> string \<Rightarrow> examples \<Rightarrow> string \<Rightarrow> examples" where
  "parse_module c t root ex module_name =
     (let module_directory = path_join root (py_slice_from module_name (int (length ''ns3-'')));
          example_directory = path_join module_directory ''examples''
      in parse_examples_to_run_file c t (path_join (path_join module_directory ''test'') ''examples-to-run.py'')
           (path_join (NS3_BUILDDIR c) example_directory) example_directory ex)"

definition collect_examples :: "config \<Rightarrow> tree \<Rightarrow> examples" where
  "collect_examples c t =
     foldl (parse_module c t ''contrib'')
       (foldl (parse_module c t ''src'')
         (foldl (parse_directory c t) \<lparr>example_tests = [], example_names_original = [], python_tests = []\<rparr>
           (EXAMPLE_DIRECTORIES c))
         (NS3_ENABLED_MODULES c))
       (NS3_ENABLED_CONTRIBUTED_MODULES c)"

section \<open>What is built and what is run\<close>

definition waf_command :: "test_options \<Rightarrow> string" where
  "waf_command opts =
     (if o_kinds opts \<or> o_list opts \<or> (length (o_constrain opts) > 0 \<and> o_constrain opts \<in> set core_kinds)
      then ''./waf --target=test-runner''
      else if length (o_example opts) > 0 then ''./waf --target='' @ basename (o_example opts)
      else ''./waf'')"

text \<open>
  \<open>--kinds\<close> calls \<open>decode\<close> on the output: a \<open>str\<close> has no such method, and bytes that could
  not be decoded before raise again.
\<close>

definition print_kinds :: "config \<Rightarrow> shell \<Rightarrow> py_error + unit" where
  "print_kinds c sh =
     rbind (run_job_synchronously c sh (path_join ''utils'' (test_runner_name c @ '' --print-test-type-list''))
              (getcwd c) False False [])
       (\<lambda>(rc, standard_out, standard_err, et).
         case standard_out of Some s \<Rightarrow> Inl AttributeError | None \<Rightarrow> Inl ValueError)"

definition sort_strings :: "string list \<Rightarrow> string list" where
  "sort_strings xs = sort_key (map (\<lambda>c. of_char c :: nat)) xs"

definition print_list :: "config \<Rightarrow> shell \<Rightarrow> test_options \<Rightarrow> examples \<Rightarrow> py_error + string list" where
  "print_list c sh opts ex =
     (let path_cmd = path_join ''utils'' (test_runner_name c @ '' --print-test-name-list --print-test-types'' @
            (if length (o_constrain opts) > 0 then '' --test-type='' @ o_constrain opts else []))
      in rbind (run_job_synchronously c sh path_cmd (getcwd c) False False [])
        (\<lambda>(rc, standard_out, standard_err, et).
           if rc \<noteq> 0 then Inr [''test.py error:  test-runner return code returned'']
           else case standard_out of
             None \<Rightarrow> Inl ValueError
           | Some s \<Rightarrow>
               Inr ([''Test Type    Test Name'', ''---------    ---------'']
                 @ filter (\<lambda>item. strip item \<noteq> []) (sort_strings (split_on (CHR 0x0A) s))
                 @ map (\<lambda>item. ''example      '' @ item) (sort_strings (example_names_original ex))
                 @ [[]])))"

text \<open>A command that asks the test runner for names; the bytes it could not decode raise here.\<close>

definition query_names :: "config \<Rightarrow> shell \<Rightarrow> string \<Rightarrow> py_error + string" where
  "query_names c sh arguments =
     rbind (run_job_synchronously c sh (path_join ''utils'' (test_runner_name c @ '' --print-test-name-list'' @ arguments))
              (getcwd c) False False [])
       (\<lambda>(rc, suites, standard_err, et). case suites of None \<Rightarrow> Inl ValueError | Some s \<Rightarrow> Inr s)"

definition requested_suites :: "config \<Rightarrow> shell \<Rightarrow> test_options \<Rightarrow> py_error + string \<times> bool" where
  "requested_suites c sh opts =
     (if length (o_suite opts) > 0 then
        rbind (query_names c sh []) (\<lambda>suites.
          if o_suite opts \<in> set (split_on (CHR 0x0A) suites) then Inr (o_suite opts @ [CHR 0x0A], True)
          else Inl (SystemExit 2))
      else if length (o_example opts) = 0 \<and> length (o_pyexample opts) = 0 then
        rbind (query_names c sh (if length (o_constrain opts) > 0 then '' --test-type='' @ o_constrain opts else []))
          (\<lambda>suites. Inr (suites, False))
      else Inr ([], False))"

text \<open>\<open>if performance_test in suite_list: suite_list.remove(performance_test)\<close>\<close>

definition remove_performance :: "string list \<Rightarrow> string list \<Rightarrow> string list" where
  "remove_performance performance_test_list suite_list = foldl (\<lambda>l t. remove1 t l) suite_list performance_test_list"

definition select_suites :: "config \<Rightarrow> shell \<Rightarrow> test_options \<Rightarrow> py_error + string list" where
  "select_suites c sh opts =
     rbind (requested_suites c sh opts) (\<lambda>(suites, single_suite).
       let suite_list = split_on (CHR 0x0A) suites
       in if \<not> single_suite \<and> o_constrain opts \<noteq> ''performance'' then
            rbind (query_names c sh '' --test-type=performance'') (\<lambda>performance_tests.
              Inr (remove_performance (split_on (CHR 0x0A) performance_tests) suite_list))
          else Inr suite_list)"

section \<open>Queueing the jobs\<close>

definition to_upper :: "char \<Rightarrow> char" where
  "to_upper ch = (let n = (of_char ch :: nat) in if 97 \<le> n \<and> n \<le> 122 then char_of (n - 32) else ch)"

definition skip_if :: "bool \<Rightarrow> string \<Rightarrow> job \<Rightarrow> job" where
  "skip_if condition reason j = (if condition then j\<lparr>is_skip := True, skip_reason := reason\<rparr> else j)"

definition suite_job :: "config \<Rightarrow> test_options \<Rightarrow> string \<Rightarrow> string \<Rightarrow> job" where
  "suite_job c opts testpy_output_dir test =
     (let multiple = (if o_multiple opts then [] else '' --stop-on-failure'');
          fullness = (if length (o_fullness opts) > 0 then '' --fullness='' @ map to_upper (o_fullness opts)
                      else '' --fullness=QUICK'');
          path_cmd = path_join ''utils'' (test_runner_name c @ '' --test-name='' @ test @ multiple @ fullness);
          j = new_job\<lparr>display_name := test, tmp_file_name := path_join testpy_output_dir (test @ ''.xml''),
                job_cwd := getcwd c, basedir := getcwd c, tempdir := testpy_output_dir, shell_command := path_cmd\<rparr>
      in skip_if (\<not> NSC_ENABLED c \<and> test \<in> set core_nsc_missing_skip_tests) ''requires NSC''
           (skip_if (o_valgrind opts \<and> test \<in> set core_valgrind_skip_tests) ''crashes valgrind'' j))"

definition suite_jobs :: "config \<Rightarrow> test_options \<Rightarrow> string \<Rightarrow> string list \<Rightarrow> job list" where
  "suite_jobs c opts testpy_output_dir suite_list =
     map (suite_job c opts testpy_output_dir) (filter (\<lambda>test. length test > 0) (map strip suite_list))"

definition example_job :: "config \<Rightarrow> string \<Rightarrow> string \<Rightarrow> string \<Rightarrow> string \<Rightarrow> job" where
  "example_job c testpy_output_dir name command path =
     new_job\<lparr>is_example := True, display_name := name, job_cwd := testpy_output_dir, basedir := getcwd c,
       tempdir := testpy_output_dir, shell_command := command, build_path := path\<rparr>"

definition pyexample_job :: "config \<Rightarrow> string \<Rightarrow> string \<Rightarrow> job" where
  "pyexample_job c testpy_output_dir name =
     new_job\<lparr>is_pyexample := True, display_name := name, job_cwd := testpy_output_dir, basedir := getcwd c,
       tempdir := testpy_output_dir, shell_command := name\<rparr>"

definition command_name :: "string \<Rightarrow> string" where
  "command_name test = basename (fst (split_once (CHR '' '') test))"

definition no_selection :: "test_options \<Rightarrow> bool" where
  "no_selection opts = (length (o_suite opts) = 0 \<and> length (o_example opts) = 0 \<and> length (o_pyexample opts) = 0)"

text \<open>
  The conditions of the examples are Python expressions over the configuration; \<open>evaluate\<close> is their value.
\<close>

definition runnable_programs :: "string list \<Rightarrow> (string, string) dict" where
  "runnable_programs programs = foldl (\<lambda>d program. dset d (basename program) program) [] programs"

definition example_jobs ::
    "config \<Rightarrow> test_options \<Rightarrow> (string \<Rightarrow> bool) \<Rightarrow> string list \<Rightarrow> examples \<Rightarrow> string \<Rightarrow> job list" where
  "example_jobs c opts evaluate programs ex testpy_output_dir =
     (let dictionary = runnable_programs programs
      in if no_selection opts then
           if (length (o_constrain opts) = 0 \<or> o_constrain opts = ''example'') \<and> ENABLE_EXAMPLES c then
             map (\<lambda>(name, test, do_run, do_valgrind_run).
                 skip_if (o_valgrind opts \<and> \<not> evaluate do_valgrind_run) ''skip in valgrind runs''
                   (example_job c testpy_output_dir name test (o_buildpath opts)))
               (filter (\<lambda>(name, test, do_run, do_valgrind_run). has_key dictionary (command_name test) \<and> evaluate do_run)
                 (example_tests ex))
           else []
         else if length (o_example opts) > 0 then
           case dget dictionary (program_name c (o_example opts)) of
             None \<Rightarrow> []
           | Some program \<Rightarrow>
               let example_path = abspath (getcwd c) program
               in [example_job c testpy_output_dir example_path example_path (o_buildpath opts)]
         else [])"

definition pyexample_jobs ::
    "config \<Rightarrow> test_options \<Rightarrow> (string \<Rightarrow> bool) \<Rightarrow> string list \<Rightarrow> examples \<Rightarrow> string \<Rightarrow> job list" where
  "pyexample_jobs c opts evaluate scripts ex testpy_output_dir =
     (if no_selection opts then
        if (length (o_constrain opts) = 0 \<or> o_constrain opts = ''pyexample'') \<and> ENABLE_EXAMPLES c then
          map (\<lambda>(test, do_run).
              skip_if (\<not> ENABLE_PYTHON_BINDINGS c) ''requires Python bindings''
                (skip_if (o_valgrind opts) ''skip in valgrind runs'' (pyexample_job c testpy_output_dir test)))
            (filter (\<lambda>(test, do_run). command_name test \<in> set scripts \<and> evaluate do_run) (python_tests ex))
        else []
      else if length (o_pyexample opts) > 0 then
        if basename (o_pyexample opts) \<in> set scripts then [pyexample_job c testpy_output_dir (o_pyexample opts)] else []
      else [])"

definition queue_jobs ::
    "config \<Rightarrow> shell \<Rightarrow> test_options \<Rightarrow> (string \<Rightarrow> bool) \<Rightarrow> string list \<Rightarrow> string list \<Rightarrow> examples \<Rightarrow> string
      \<Rightarrow> py_error + job list" where
  "queue_jobs c sh opts evaluate programs scripts ex testpy_output_dir =
     rbind (select_suites c sh opts) (\<lambda>suite_list.
       Inr (suite_jobs c opts testpy_output_dir suite_list
            @ example_jobs c opts evaluate programs ex testpy_output_dir
            @ pyexample_jobs c opts evaluate scripts ex testpy_output_dir))"

text \<open>
  The first half of \<open>run_tests\<close>: the exit status when it ends before any test (\<open>return\<close> without a
  value is 0), or the jobs.  \<open>waf\<close> is the return code of the build and \<open>build_status\<close> the runnable programs
  and scripts, if that file exists.
\<close>

datatype plan = Finished int | RunJobs "job list"

definition plan_tests ::
    "config \<Rightarrow> tree \<Rightarrow> shell \<Rightarrow> test_options \<Rightarrow> (string \<Rightarrow> int) \<Rightarrow> (string list \<times> string list) option
      \<Rightarrow> (string \<Rightarrow> bool) \<Rightarrow> string \<Rightarrow> py_error + plan" where
  "plan_tests c t sh opts waf build_status evaluate date_and_time =
     (if \<not> o_nowaf opts \<and> waf (waf_command opts) \<noteq> 0 then Inr (Finished (waf (waf_command opts)))
      else case build_status of
        None \<Rightarrow> Inl (SystemExit 2)
      | Some (programs, scripts) \<Rightarrow>
          let ex = collect_examples c t
          in rbind (if o_kinds opts then print_kinds c sh else Inr ()) (\<lambda>_.
             rbind (if o_list opts then print_list c sh opts ex else Inr []) (\<lambda>_.
               if o_kinds opts \<or> o_list opts then Inr (Finished 0)
               else rbind (queue_jobs c sh opts evaluate programs scripts ex
                             (path_join TMP_OUTPUT_DIR date_and_time))
                      (\<lambda>jobs. Inr (RunJobs jobs)))))"

section \<open>Correctness: the environment\<close>

lemma extend_path_get:
  "dget (extend_path var sep paths environ) k =
     (if k = var then Some ((case dget environ var of None \<Rightarrow> [] | Some v \<Rightarrow> v) @ concat (map (\<lambda>p. sep @ p) paths))
      else dget environ k)"
proof -
  have "dget env var = Some v \<Longrightarrow>
      dget (foldl (\<lambda>env path. dset env var ((case dget env var of None \<Rightarrow> [] | Some v \<Rightarrow> v) @ sep @ path)) env paths) k
      = (if k = var then Some (v @ concat (map (\<lambda>p. sep @ p) paths)) else dget env k)" for env v
    by (induction paths arbitrary: env v) auto
  then show ?thesis by (cases "dget environ var") (auto simp: extend_path_def Let_def)
qed

definition library_variable :: "platform \<Rightarrow> string" where
  "library_variable plat =
     (case plat of Darwin \<Rightarrow> ''DYLD_LIBRARY_PATH'' | Win32 \<Rightarrow> ''PATH'' | Cygwin \<Rightarrow> ''PATH'' | OtherPlatform \<Rightarrow> ''LD_LIBRARY_PATH'')"

definition separator :: "platform \<Rightarrow> string" where
  "separator plat = (case plat of Win32 \<Rightarrow> '';'' | _ \<Rightarrow> '':'')"

text \<open>
  The environment of the tests.  \<open>make_paths\<close> appends the module directories to the
  library variable of the platform, keeping what the user had, and leaves every variable but that and
  \<open>PYTHONPATH\<close> alone.  A \<open>PYTHONPATH\<close> of the user does not survive: the bindings directory
  overwrites it before it is appended, so the variable holds that directory twice.
\<close>

theorem make_paths_environment:
  "dget (make_paths c plat environ) k =
     (let pypath = path_join (path_join (NS3_BUILDDIR c) ''bindings'') ''python''
      in if k = ''PYTHONPATH'' then
           Some (case dget environ ''PYTHONPATH'' of None \<Rightarrow> pypath | Some user \<Rightarrow> pypath @ '':'' @ pypath)
         else if k = library_variable plat then
           Some ((case dget environ k of None \<Rightarrow> [] | Some v \<Rightarrow> v)
             @ concat (map (\<lambda>p. separator plat @ p) (NS3_MODULE_PATH c)))
         else dget environ k)"
  by (cases plat; cases "dget environ ''PYTHONPATH''")
    (simp_all add: make_paths_def extend_path_get library_variable_def separator_def Let_def)

section \<open>Correctness: the plan\<close>

text \<open>
  The option \<open>--kinds\<close> never lists anything: once waf has built and the build status file is there,
  the run raises, whatever the test runner prints.
\<close>

theorem kinds_option_raises:
  assumes "o_kinds opts" "o_nowaf opts \<or> waf (waf_command opts) = 0"
  shows "\<exists>e. plan_tests c t sh opts waf (Some (programs, scripts)) evaluate date = Inl e"
proof -
  have "\<exists>e. print_kinds c sh = Inl e"
    unfolding print_kinds_def run_job_synchronously_def
    by (cases "job_command c (path_join ''utils'' (test_runner_name c @ '' --print-test-type-list'')) False False []")
      (auto split: option.splits simp: Let_def)
  then show ?thesis using assms by (auto simp: plan_tests_def)
qed

definition plain_config :: config where
  "plain_config = \<lparr>APPNAME = ''ns'', VERSION = ''3'', BUILD_PROFILE = ''debug'', NSC_ENABLED = False,
     ENABLE_EXAMPLES = True, ENABLE_PYTHON_BINDINGS = False, PYTHON = [''python3''], NS3_BASEDIR = ''/r'',
     NS3_BUILDDIR = ''/r/build'', NS3_ENABLED_MODULES = [], NS3_ENABLED_CONTRIBUTED_MODULES = [],
     NS3_MODULE_PATH = [], EXAMPLE_DIRECTORIES = [], getcwd = ''/r''\<rparr>"

definition plain_options :: test_options where
  "plain_options = \<lparr>o_buildpath = [], o_constrain = [], o_duration = False, o_example = [], o_update_data = False,
     o_fullness = ''QUICK'', o_valgrind = False, o_kinds = False, o_list = False, o_multiple = False, o_nowaf = True,
     o_pyexample = [], o_retain = False, o_suite = [], o_text = [], o_verbose = False, o_html = [], o_xml = []\<rparr>"

text \<open>A test runner with three suites, one of them a performance suite.\<close>

definition plain_shell :: shell where
  "plain_shell cmd directory =
     \<lparr>sr_code = 0,
       sr_out = Some (if last cmd = CHR ''e'' then ''slow'' else ''a'' @ CHR 0x0A # ''slow'' @ CHR 0x0A # ''nsc-tcp-loss''),
       sr_err = Some [], sr_time = 5\<rparr>"

definition plain_tree :: tree where
  "plain_tree = \<lparr>path_exists = \<lambda>p. True, cpp_examples = \<lambda>p. [], python_examples = \<lambda>p. []\<rparr>"

theorem kinds_option_raises_witness:
  "\<exists>e. plan_tests plain_config plain_tree plain_shell (plain_options\<lparr>o_kinds := True\<rparr>) (\<lambda>cmd. 0)
     (Some ([], [])) (\<lambda>s. True) ''now'' = Inl e"
  by (rule kinds_option_raises) (simp_all add: plain_options_def)

lemma remove_performance_mset: "mset (remove_performance ps l) = mset l - mset ps"
  unfolding remove_performance_def by (induction ps arbitrary: l) (simp_all add: diff_diff_add)

lemma remove_performance_filter:
  "distinct l \<Longrightarrow> remove_performance ps l = filter (\<lambda>x. x \<notin> set ps) l"
  unfolding remove_performance_def
proof (induction ps arbitrary: l)
  case (Cons p ps)
  then have "foldl (\<lambda>l t. remove1 t l) (remove1 p l) ps = filter (\<lambda>x. x \<notin> set ps) (remove1 p l)"
    by (intro Cons.IH) (simp add: distinct_remove1)
  also have "\<dots> = filter (\<lambda>x. x \<notin> set (p # ps)) l"
    using Cons.prems by (auto simp: distinct_remove1_removeAll removeAll_filter_not_eq intro: filter_cong)
  finally show ?case by simp
qed simp

text \<open>What a queued job may look like.\<close>

definition job_ok :: "job \<Rightarrow> bool" where
  "job_ok j \<longleftrightarrow> \<not> is_break j \<and> \<not> (is_example j \<and> is_pyexample j) \<and> (is_skip j \<longleftrightarrow> skip_reason j \<noteq> [])
     \<and> returncode j = 0 \<and> elapsed_time j = 0 \<and> (tmp_file_name j = [] \<longleftrightarrow> is_example j \<or> is_pyexample j)"

lemma job_ok_skip_if [simp]: "reason \<noteq> [] \<Longrightarrow> job_ok j \<Longrightarrow> job_ok (skip_if b reason j)"
  by (simp add: job_ok_def skip_if_def)

lemma path_join_nonempty: "b \<noteq> [] \<Longrightarrow> path_join a b \<noteq> []"
  by (auto simp: path_join_def)

lemma job_ok_kinds [simp]:
  "job_ok (suite_job c opts dir test)"
  "job_ok (example_job c dir nm command path)"
  "job_ok (pyexample_job c dir nm)"
  unfolding suite_job_def Let_def
  by (intro job_ok_skip_if; simp add: job_ok_def new_job_def path_join_nonempty)
    (simp_all add: job_ok_def new_job_def example_job_def pyexample_job_def)

lemma queue_jobs_ok:
  assumes "queue_jobs c sh opts evaluate programs scripts ex dir = Inr jobs"
  shows "\<forall>j \<in> set jobs. job_ok j"
  using assms
  by (auto simp: queue_jobs_def rbind_Inr_iff suite_jobs_def example_jobs_def pyexample_jobs_def Let_def
      split: if_splits option.splits)

text \<open>
  What a plain \<open>test.py\<close> runs, when the test runner answers both queries and lists no
  name twice: every suite it lists except the performance suites, in its order, then the runnable C++ examples, then the
  runnable Python examples whose condition holds; and every queued job is a real one, of one
  kind, skipped exactly when a reason is noted.
\<close>

theorem default_plan:
  assumes "no_selection opts" "o_constrain opts = []" "ENABLE_EXAMPLES c"
    and "query_names c sh [] = Inr names" "query_names c sh '' --test-type=performance'' = Inr performance"
    and "distinct (split_on (CHR 0x0A) names)"
  shows "\<exists>jobs. queue_jobs c sh opts evaluate programs scripts ex dir = Inr jobs
    \<and> map display_name jobs =
        filter (\<lambda>s. s \<noteq> []) (map strip (filter (\<lambda>s. s \<notin> set (split_on (CHR 0x0A) performance)) (split_on (CHR 0x0A) names)))
        @ map fst (filter (\<lambda>(name, test, do_run, do_valgrind_run).
            command_name test \<in> basename ` set programs \<and> evaluate do_run) (example_tests ex))
        @ map fst (filter (\<lambda>(test, do_run). command_name test \<in> set scripts \<and> evaluate do_run) (python_tests ex))
    \<and> (\<forall>j \<in> set jobs. job_ok j)"
proof -
  have suites: "select_suites c sh opts =
      Inr (filter (\<lambda>s. s \<notin> set (split_on (CHR 0x0A) performance)) (split_on (CHR 0x0A) names))"
    using assms by (simp add: select_suites_def requested_suites_def no_selection_def remove_performance_filter)
  have key: "has_key (runnable_programs programs) k \<longleftrightarrow> k \<in> basename ` set programs" for k
  proof -
    have "dget (foldl (\<lambda>d program. dset d (basename program) program) d programs) k \<noteq> None
        \<longleftrightarrow> dget d k \<noteq> None \<or> k \<in> basename ` set programs" for d
      by (induction programs arbitrary: d) auto
    from this [of "[]"] show ?thesis by (simp add: runnable_programs_def has_key_def)
  qed
  have names: "display_name (skip_if b r j) = display_name j" for b r j by (simp add: skip_if_def)
  obtain jobs where jobs: "queue_jobs c sh opts evaluate programs scripts ex dir = Inr jobs"
    "jobs = suite_jobs c opts dir (filter (\<lambda>s. s \<notin> set (split_on (CHR 0x0A) performance)) (split_on (CHR 0x0A) names))
            @ example_jobs c opts evaluate programs ex dir @ pyexample_jobs c opts evaluate scripts ex dir"
    using suites by (simp add: queue_jobs_def)
  have "map display_name (suite_jobs c opts dir l) = filter (\<lambda>s. s \<noteq> []) (map strip l)" for l
  proof -
    have "display_name (suite_job c opts dir t) = t" for t by (simp add: suite_job_def names Let_def new_job_def)
    then show ?thesis by (simp add: suite_jobs_def o_def)
  qed
  moreover have "map display_name (example_jobs c opts evaluate programs ex dir) =
      map fst (filter (\<lambda>(name, test, do_run, do_valgrind_run).
            command_name test \<in> basename ` set programs \<and> evaluate do_run) (example_tests ex))"
    using assms key by (auto simp: example_jobs_def Let_def names example_job_def new_job_def)
  moreover have "map display_name (pyexample_jobs c opts evaluate scripts ex dir) =
      map fst (filter (\<lambda>(test, do_run). command_name test \<in> set scripts \<and> evaluate do_run) (python_tests ex))"
    using assms by (auto simp: pyexample_jobs_def names pyexample_job_def new_job_def)
  ultimately show ?thesis using jobs queue_jobs_ok [OF jobs(1)] by simp
qed

theorem default_plan_witness:
  "\<exists>jobs. queue_jobs plain_config plain_shell plain_options (\<lambda>s. True) [''b/ns3-x-debug''] [''y.py'']
      \<lparr>example_tests = [(''x'', ''/b/ns3-x-debug --n=1'', ''True'', ''True'')], example_names_original = [],
       python_tests = [(''d/y.py'', ''True''), (''d/z.py'', ''True'')]\<rparr> ''out'' = Inr jobs
    \<and> map display_name jobs = [''a'', ''nsc-tcp-loss'', ''x'', ''d/y.py'']"
proof -
  have names: "query_names plain_config plain_shell [] = Inr (''a'' @ CHR 0x0A # ''slow'' @ CHR 0x0A # ''nsc-tcp-loss'')"
    "query_names plain_config plain_shell '' --test-type=performance'' = Inr ''slow''"
    by (simp_all add: query_names_def run_job_synchronously_def job_command_def plain_shell_def plain_config_def
        path_join_def startswith_def)
  have "distinct (split_on (CHR 0x0A) (''a'' @ CHR 0x0A # ''slow'' @ CHR 0x0A # ''nsc-tcp-loss''))" by simp
  note plan = default_plan [OF _ _ _ names this, of plain_options "\<lambda>s. True" "[''b/ns3-x-debug'']" "[''y.py'']"
      "\<lparr>example_tests = [(''x'', ''/b/ns3-x-debug --n=1'', ''True'', ''True'')], example_names_original = [],
       python_tests = [(''d/y.py'', ''True''), (''d/z.py'', ''True'')]\<rparr>" "''out''"]
  have "no_selection plain_options" "o_constrain plain_options = []" "ENABLE_EXAMPLES plain_config"
    by (simp_all add: plain_options_def plain_config_def no_selection_def)
  from plan [OF this] show ?thesis
    by (simp add: strip_def is_space_def command_name_def split_once_def basename_def) (erule ex_forward, simp)
qed

end
