(* ===== verification/PyNum.thy ===== *)
theory PyNum
  imports PyPrelude Complex_Main
begin

text \<open>
  Numbers as a script handles them that mixes integers and floating point numbers: the kind of a
  result decides whether a later division rounds, and it differs between Python 2 and 3.  A
  floating point number is the rational it stands for; the rounding of its operations is not
  modelled.
\<close>

datatype python = Py2 | Py3

datatype num = I int | F rat

primrec num_val :: "num \<Rightarrow> rat" where
  "num_val (I n) = of_int n"
| "num_val (F q) = q"

fun num_add :: "num \<Rightarrow> num \<Rightarrow> num" where
  "num_add (I a) (I b) = I (a + b)"
| "num_add a b = F (num_val a + num_val b)"

fun num_sub :: "num \<Rightarrow> num \<Rightarrow> num" where
  "num_sub (I a) (I b) = I (a - b)"
| "num_sub a b = F (num_val a - num_val b)"

fun num_mul :: "num \<Rightarrow> num \<Rightarrow> num" where
  "num_mul (I a) (I b) = I (a * b)"
| "num_mul a b = F (num_val a * num_val b)"

text \<open>The division \<open>a / b\<close>: of two integers it rounds down in Python 2.\<close>

fun num_div :: "python \<Rightarrow> num \<Rightarrow> num \<Rightarrow> py_error + num" where
  "num_div v a b =
     (if num_val b = 0 then Inl ZeroDivisionError
      else case (v, a, b) of
        (Py2, I m, I n) \<Rightarrow> Inr (I (m div n))
      | _ \<Rightarrow> Inr (F (num_val a / num_val b)))"

text \<open>The remainder \<open>a % b\<close>, with the sign of the divisor.\<close>

fun num_mod :: "num \<Rightarrow> num \<Rightarrow> py_error + num" where
  "num_mod a b =
     (if num_val b = 0 then Inl ZeroDivisionError
      else case (a, b) of
        (I m, I n) \<Rightarrow> Inr (I (m mod n))
      | _ \<Rightarrow> Inr (F (num_val a - num_val b * of_int \<lfloor>num_val a / num_val b\<rfloor>)))"

definition num_less :: "num \<Rightarrow> num \<Rightarrow> bool" where
  "num_less a b = (num_val a < num_val b)"

definition num_le :: "num \<Rightarrow> num \<Rightarrow> bool" where
  "num_le a b = (num_val a \<le> num_val b)"

text \<open>\<open>max(a, b)\<close> and \<open>min(a, b)\<close> answer the first of two equal arguments.\<close>

definition num_max :: "num \<Rightarrow> num \<Rightarrow> num" where
  "num_max a b = (if num_less a b then b else a)"

definition num_min :: "num \<Rightarrow> num \<Rightarrow> num" where
  "num_min a b = (if num_less b a then b else a)"

primrec num_abs :: "num \<Rightarrow> num" where
  "num_abs (I n) = I \<bar>n\<bar>"
| "num_abs (F q) = F \<bar>q\<bar>"

text \<open>\<open>int(x)\<close> cuts the fraction off.\<close>

definition cut :: "rat \<Rightarrow> int" where
  "cut q = (if 0 \<le> q then \<lfloor>q\<rfloor> else \<lceil>q\<rceil>)"

primrec num_int :: "num \<Rightarrow> int" where
  "num_int (I n) = n"
| "num_int (F q) = cut q"

definition is_float :: "num \<Rightarrow> bool" where
  "is_float a = (case a of F q \<Rightarrow> True | I n \<Rightarrow> False)"

lemma num_val_ops [simp]:
  "num_val (num_add a b) = num_val a + num_val b"
  "num_val (num_sub a b) = num_val a - num_val b"
  "num_val (num_mul a b) = num_val a * num_val b"
  "num_val (num_max a b) = max (num_val a) (num_val b)"
  "num_val (num_min a b) = min (num_val a) (num_val b)"
  "num_val (num_abs a) = \<bar>num_val a\<bar>"
  by (cases a; cases b; simp add: num_max_def num_min_def num_less_def max_def min_def)+

text \<open>A division with a floating point number on either side is the one of the rationals.\<close>

lemma num_div_float:
  "is_float a \<or> is_float b \<Longrightarrow> num_val b \<noteq> 0 \<Longrightarrow> num_div v a b = Inr (F (num_val a / num_val b))"
  by (cases v; cases a; cases b) (simp_all add: is_float_def)

lemma is_float_ops [simp]:
  "is_float (F q)" "\<not> is_float (I n)"
  "is_float (num_add a b) \<longleftrightarrow> is_float a \<or> is_float b"
  "is_float (num_sub a b) \<longleftrightarrow> is_float a \<or> is_float b"
  "is_float (num_mul a b) \<longleftrightarrow> is_float a \<or> is_float b"
  by (cases a; cases b; simp add: is_float_def)+

lemma num_div_zero: "num_val b = 0 \<Longrightarrow> num_div v a b = Inl ZeroDivisionError"
  by simp

lemma num_div_ok: "num_val b \<noteq> 0 \<Longrightarrow> \<exists>q. num_div v a b = Inr q"
  by (cases v; cases a; cases b) simp_all

declare num_div.simps [simp del] num_mod.simps [simp del]

lemma cut_mono: "p \<le> q \<Longrightarrow> cut p \<le> cut q"
  unfolding cut_def by (auto intro: floor_mono ceiling_mono order_trans [of _ 0])

lemma cut_bounds: "0 \<le> q \<Longrightarrow> of_int (cut q) \<le> q" "q - 1 < of_int (cut q)"
  unfolding cut_def by (simp_all split: if_splits) linarith+

end
