(* ===== verification/ModuleScan.thy ===== *)
theory ModuleScan
  imports Topsort TestJobs PyNum
begin

text \<open>
  The scanner that writes the bindings of the modules, \<open>bindings/python/ns3modulescan.py\<close>: the
  path of a header inside the tree, the annotations of what is scanned, with the table
  \<open>type_annotations\<close>, and the sections of the output, one for each module in the order of
  \<open>topsort\<close>.  The parser of the headers is pygccxml: a declaration is the record of what the script
  reads of it.
\<close>

section \<open>The path of a header\<close>

text \<open>\<open>os.path.join\<close> of a list; without an argument it raises.\<close>

definition path_join_list :: "string list \<Rightarrow> py_error + string" where
  "path_join_list l = (case l of [] \<Rightarrow> Inl TypeError | p # ps \<Rightarrow> Inr (foldl path_join p ps))"

partial_function (option) relative_loop :: "string \<Rightarrow> string list \<Rightarrow> (py_error + string) option" where
  "relative_loop head l =
     (if head = [] then Some (Inl AssertionError)
      else
        let (head, tail) = path_split head
        in if tail = ''ns3'' then Some (path_join_list l)
           else relative_loop head (tail # l))"

definition get_ns3_relative_path :: "string \<Rightarrow> (py_error + string) option" where
  "get_ns3_relative_path path = relative_loop path []"

definition plain_parts :: "string list \<Rightarrow> bool" where
  "plain_parts cs \<longleftrightarrow> (\<forall>c\<in>set cs. c \<noteq> [] \<and> CHR ''/'' \<notin> set c)"

lemma join_snoc: "cs \<noteq> [] \<Longrightarrow> join sep (cs @ [c]) = join sep cs @ sep @ c"
  by (induction sep cs rule: join.induct) simp_all

lemma plain_snoc: "plain_parts (cs @ [c]) \<longleftrightarrow> plain_parts cs \<and> c \<noteq> [] \<and> CHR ''/'' \<notin> set c"
  by (auto simp: plain_parts_def)

lemma join_last:
  assumes "plain_parts cs" "cs \<noteq> []"
  shows "join ''/'' cs \<noteq> [] \<and> List.last (join ''/'' cs) \<noteq> CHR ''/''"
proof -
  obtain ds c where cs: "cs = ds @ [c]" using assms(2) by (cases cs rule: rev_cases) auto
  have c: "c \<noteq> []" "List.last c \<noteq> CHR ''/''"
    using assms(1) last_in_set [of c] unfolding cs plain_snoc by metis+
  show ?thesis using c unfolding cs by (cases "ds = []") (simp_all add: join_snoc)
qed

lemma path_join_plain:
  assumes "plain_parts (p # ps)"
  shows "path_join_list (p # ps) = Inr (join ''/'' (p # ps))"
proof -
  have "foldl path_join p ps = join ''/'' (p # ps)"
    using assms
  proof (induction ps rule: rev_induct)
    case (snoc c cs)
    have pl: "plain_parts (p # cs)" "c \<noteq> []" "CHR ''/'' \<notin> set c" using snoc.prems by (auto simp: plain_parts_def)
    have "\<not> startswith c ''/''" using pl(2,3) by (cases c) (auto simp: startswith_def)
    moreover have "join ''/'' (p # cs) \<noteq> [] \<and> List.last (join ''/'' (p # cs)) \<noteq> CHR ''/''" using join_last [OF pl(1)] by simp
    ultimately have "path_join (join ''/'' (p # cs)) c = join ''/'' (p # cs) @ ''/'' @ c" by (simp add: path_join_def)
    then show ?case using snoc.IH [OF pl(1)] join_snoc [of "p # cs" "''/''" c] by simp
  qed simp
  then show ?thesis by (simp add: path_join_list_def)
qed

text \<open>The part of a path behind its last component \<open>ns3\<close>.\<close>

definition behind_ns3 :: "string list \<Rightarrow> string list" where
  "behind_ns3 cs = rev (takeWhile (\<lambda>c. c \<noteq> ''ns3'') (rev cs))"

lemma relative_step:
  assumes "CHR ''/'' \<notin> set c" "p = [] \<or> List.last p \<noteq> CHR ''/''"
  shows "relative_loop (p @ CHR ''/'' # c) l =
    (if c = ''ns3'' then Some (path_join_list l) else relative_loop (if p = [] then ''/'' else p) (c # l))"
  by (subst relative_loop.simps) (simp add: path_split_last [OF assms])

lemma relative_loop_relative:
  assumes "plain_parts cs"
  shows "relative_loop (join ''/'' cs) l =
    Some (if ''ns3'' \<in> set cs then path_join_list (behind_ns3 cs @ l) else Inl AssertionError)"
  using assms
proof (induction cs arbitrary: l rule: rev_induct)
  case Nil
  then show ?case by (simp add: relative_loop.simps)
next
  case (snoc c cs)
  have pl: "plain_parts cs" "c \<noteq> []" "CHR ''/'' \<notin> set c" using snoc.prems by (simp_all add: plain_snoc)
  show ?case
  proof (cases "cs = []")
    case True
    have "relative_loop c l = (if c = ''ns3'' then Some (path_join_list l) else relative_loop [] (c # l))"
      using pl(2) by (subst relative_loop.simps) (simp add: path_split_single [OF pl(3)])
    then show ?thesis using True by (simp add: relative_loop.simps [of "[]"] behind_ns3_def)
  next
    case False
    then show ?thesis
      using relative_step [OF pl(3), of "join ''/'' cs" l] join_last [OF pl(1) False] snoc.IH [OF pl(1)]
      by (simp add: join_snoc behind_ns3_def)
  qed
qed

lemma root_never_ends: "relative_loop ''/'' l = None"
proof -
  have "head \<noteq> ''/''" if "relative_loop head l = Some r" for head l r
  proof (rule relative_loop.raw_induct [of "\<lambda>head l r. head \<noteq> ''/''", OF _ that])
    fix loop head l r
    assume IH: "\<And>head l r. loop head l = Some r \<Longrightarrow> head \<noteq> ''/''"
      and r: "(if head = [] then Some (Inl AssertionError)
        else let (head, tail) = path_split head
             in if tail = ''ns3'' then Some (path_join_list l) else loop head (tail # l)) = Some r"
    show "head \<noteq> ''/''"
    proof
      assume h: "head = ''/''"
      have "path_split ''/'' = (''/'', [])" by (simp add: path_split_def)
      then show False using r IH unfolding h by auto
    qed
  qed
  then show ?thesis by (cases "relative_loop ''/'' l") auto
qed

lemma relative_loop_absolute:
  assumes "plain_parts cs"
  shows "relative_loop (CHR ''/'' # join ''/'' cs) l =
    (if ''ns3'' \<in> set cs then Some (path_join_list (behind_ns3 cs @ l)) else None)"
  using assms
proof (induction cs arbitrary: l rule: rev_induct)
  case Nil
  then show ?case by (simp add: root_never_ends)
next
  case (snoc c cs)
  have pl: "plain_parts cs" "c \<noteq> []" "CHR ''/'' \<notin> set c" using snoc.prems by (simp_all add: plain_snoc)
  show ?case
  proof (cases "cs = []")
    case True
    then show ?thesis using relative_step [OF pl(3), of "[]" l]
      by (simp add: root_never_ends behind_ns3_def)
  next
    case False
    then show ?thesis
      using relative_step [OF pl(3), of "CHR ''/'' # join ''/'' cs" l] join_last [OF pl(1) False] snoc.IH [OF pl(1)]
      by (simp add: join_snoc behind_ns3_def)
  qed
qed

text \<open>
  The path of a header is what follows the last component \<open>ns3\<close> of its name.  Without
  such a component the assertion fails for a relative path, but for an absolute one the search
  never ends: the head of the root is the root.
\<close>

theorem relative_path_result:
  assumes "plain_parts cs" "cs \<noteq> []"
  shows "get_ns3_relative_path (join ''/'' cs) =
      Some (if ''ns3'' \<notin> set cs then Inl AssertionError
            else if List.last cs = ''ns3'' then Inl TypeError else Inr (join ''/'' (behind_ns3 cs)))
    \<and> get_ns3_relative_path (''/'' @ join ''/'' cs) =
      (if ''ns3'' \<notin> set cs then None
       else Some (if List.last cs = ''ns3'' then Inl TypeError else Inr (join ''/'' (behind_ns3 cs))))"
proof -
  have "behind_ns3 cs = [] \<longleftrightarrow> List.last cs = ''ns3''" if "''ns3'' \<in> set cs"
    using that assms(2) by (cases cs rule: rev_cases) (auto simp: behind_ns3_def)
  moreover have "plain_parts (behind_ns3 cs)"
    using assms(1) set_takeWhileD [of _ "\<lambda>c. c \<noteq> ''ns3''" "rev cs"] unfolding plain_parts_def behind_ns3_def set_rev by blast
  ultimately have "path_join_list (behind_ns3 cs) = (if List.last cs = ''ns3'' then Inl TypeError else Inr (join ''/'' (behind_ns3 cs)))"
    if "''ns3'' \<in> set cs" using that path_join_plain by (cases "behind_ns3 cs") (simp_all add: path_join_list_def)
  then show ?thesis using relative_loop_relative [OF assms(1), of "[]"] relative_loop_absolute [OF assms(1), of "[]"]
    by (simp add: get_ns3_relative_path_def)
qed

theorem relative_path_result_witness:
  "get_ns3_relative_path ''/home/ns3/core/object.h'' = Some (Inr ''core/object.h'')
   \<and> get_ns3_relative_path ''/usr/include'' = None"
proof -
  have "plain_parts [''home'', ''ns3'', ''core'', ''object.h'']" "plain_parts [''usr'', ''include'']" by (simp_all add: plain_parts_def)
  from relative_path_result [OF this(1)] relative_path_result [OF this(2)] show ?thesis by (simp add: behind_ns3_def)
qed

section \<open>Annotations\<close>

text \<open>
  The value of an annotation is a string, None, True, or the dictionaries of the parameters of a
  function.  The table is keyed by what a declaration is called.
\<close>

datatype annotation = Txt string | NoneValue | TrueValue | Params "(string, (string, string) dict) dict"

type_synonym annotations = "(string, annotation) dict"
type_synonym annotation_table = "(string, annotations) dict"

definition type_annotations :: annotation_table where
  "type_annotations =
     [(''::ns3::AttributeChecker'',
        [(''automatic_type_narrowing'', Txt ''true''), (''allow_subclassing'', Txt ''false'')]),
      (''::ns3::AttributeValue'',
        [(''automatic_type_narrowing'', Txt ''true''), (''allow_subclassing'', Txt ''false'')]),
      (''::ns3::CommandLine'',
        [(''allow_subclassing'', Txt ''true'')]),
      (''::ns3::NscTcpL4Protocol'',
        [(''ignore'', Txt ''true'')]),
      (''ns3::RandomVariable::RandomVariable(ns3::RandomVariableBase const & variable) [constructor]'',
        [(''ignore'', NoneValue)]),
      (''ns3::RandomVariableBase * ns3::RandomVariable::Peek() const [member function]'',
        [(''ignore'', NoneValue)]),
      (''void ns3::RandomVariable::GetSeed(uint32_t * seed) const [member function]'',
        [(''params'', Params [(''seed'', [(''direction'', ''out''), (''array_length'', ''6'')])])]),
      (''bool ns3::TypeId::LookupAttributeByName(std::string name, ns3::TypeId::AttributeInformation * info) const [member function]'',
        [(''params'', Params [(''info'', [(''transfer_ownership'', ''false'')])])]),
      (''static bool ns3::TypeId::LookupByNameFailSafe(std::string name, ns3::TypeId * tid) [member function]'',
        [(''ignore'', NoneValue)]),
      (''bool ns3::TraceSourceAccessor::ConnectWithoutContext(ns3::ObjectBase * obj, ns3::CallbackBase const & cb) const [member function]'',
        [(''params'', Params [(''obj'', [(''transfer_ownership'', ''false'')])])]),
      (''bool ns3::TraceSourceAccessor::Connect(ns3::ObjectBase * obj, std::string context, ns3::CallbackBase const & cb) const [member function]'',
        [(''params'', Params [(''obj'', [(''transfer_ownership'', ''false'')])])]),
      (''bool ns3::TraceSourceAccessor::DisconnectWithoutContext(ns3::ObjectBase * obj, ns3::CallbackBase const & cb) const [member function]'',
        [(''params'', Params [(''obj'', [(''transfer_ownership'', ''false'')])])]),
      (''bool ns3::TraceSourceAccessor::Disconnect(ns3::ObjectBase * obj, std::string context, ns3::CallbackBase const & cb) const [member function]'',
        [(''params'', Params [(''obj'', [(''transfer_ownership'', ''false'')])])]),
      (''bool ns3::AttributeAccessor::Set(ns3::ObjectBase * object, ns3::AttributeValue const & value) const [member function]'',
        [(''params'', Params [(''object'', [(''transfer_ownership'', ''false'')])])]),
      (''ns3::EmpiricalVariable::EmpiricalVariable(ns3::RandomVariableBase const & variable) [constructor]'',
        [(''ignore'', NoneValue)]),
      (''static ns3::AttributeList * ns3::AttributeList::GetGlobal() [member function]'',
        [(''caller_owns_return'', Txt ''false'')]),
      (''void ns3::CommandLine::Parse(int argc, char * * argv) const [member function]'',
        [(''ignore'', NoneValue)]),
      (''extern void ns3::PythonCompleteConstruct(ns3::Ptr<ns3::Object> object, ns3::TypeId typeId, ns3::AttributeList const & attributes) [free function]'',
        [(''ignore'', NoneValue)]),
      (''ns3::Ptr<ns3::Ipv4RoutingProtocol> ns3::Ipv4ListRouting::GetRoutingProtocol(uint32_t index, int16_t & priority) const [member function]'',
        [(''params'', Params [(''priority'', [(''direction'', ''out'')])])]),
      (''ns3::Ipv4RoutingTableEntry * ns3::GlobalRouter::GetInjectedRoute(uint32_t i) [member function]'',
        [(''params'', Params [(''return'', [(''caller_owns_return'', ''false'')])])]),
      (''ns3::Ipv4RoutingTableEntry * ns3::Ipv4GlobalRouting::GetRoute(uint32_t i) const [member function]'',
        [(''params'', Params [(''return'', [(''caller_owns_return'', ''false'')])])]),
      (''::ns3::TestCase'',
        [(''ignore'', Txt ''true'')]),
      (''::ns3::TestRunner'',
        [(''ignore'', Txt ''true'')]),
      (''::ns3::TestSuite'',
        [(''ignore'', Txt ''true'')])]"

text \<open>What the script reads of a declaration; \<open>decl_text\<close> is its \<open>str\<close> and an argument is its default value.\<close>

datatype decl_kind = MemberFunction string | ConstructorDecl | FreeFunction | OtherCall | ClassDecl | EnumDecl | OtherDecl

record scanned_decl =
  decl_kind :: decl_kind
  decl_name :: string
  decl_string :: string
  decl_text :: string
  file_name :: string
  defaults :: "string option list"
  template_args :: "string list"

record scan_annotations =
  table :: annotation_table
  decl :: scanned_decl
  global_annotations :: annotations
  parameter_annotations :: "(string, (string, string) dict) dict"

definition dupdate :: "('k, 'v) dict \<Rightarrow> ('k, 'v) dict \<Rightarrow> ('k, 'v) dict" where
  "dupdate d e = foldl (\<lambda>d (k, v). dset d k v) d e"

definition annotate :: "string \<Rightarrow> annotation \<Rightarrow> scan_annotations \<Rightarrow> scan_annotations" where
  "annotate k v s = s\<lparr>global_annotations := dset (global_annotations s) k v\<rparr>"

definition is_member :: "string \<Rightarrow> scanned_decl \<Rightarrow> bool" where
  "is_member parent d = (decl_kind d = MemberFunction parent)"

definition is_call :: "scanned_decl \<Rightarrow> bool" where
  "is_call d = (case decl_kind d of MemberFunction _ \<Rightarrow> True | ConstructorDecl \<Rightarrow> True | FreeFunction \<Rightarrow> True
     | OtherCall \<Rightarrow> True | ClassDecl \<Rightarrow> False | EnumDecl \<Rightarrow> False | OtherDecl \<Rightarrow> False)"

definition fix_default :: "string option \<Rightarrow> string option" where
  "fix_default a =
     (if a = Some ''ns3::MilliSeconds( )'' then Some ''ns3::MilliSeconds(0)''
      else if a = Some ''ns3::Seconds( )'' then Some ''ns3::Seconds(0)'' else a)"

text \<open>The statements between the comment and the classes, which annotate single functions of the library.\<close>

definition annotate_functions :: "scan_annotations \<Rightarrow> scan_annotations" where
  "annotate_functions s =
     (let d = decl s;
          s = (if is_member ''Object'' d \<and> decl_name d = ''GetObject'' \<and> template_args d = [''ns3::Object'']
               then annotate ''template_instance_names'' (Txt ''ns3::Object=>GetObject'') s else s);
          s = (if is_member ''Simulator'' d \<and> startswith (decl_name d) ''Schedule'' then annotate ''ignore'' NoneValue s else s);
          s = (if is_member ''Simulator'' d \<and> decl_name d = ''Run'' then annotate ''ignore'' TrueValue s else s)
      in if is_call d then s\<lparr>decl := d\<lparr>defaults := map fix_default (defaults d)\<rparr>\<rparr> else s)"

text \<open>Classes: four kinds of templates, for which the hook returns, and the table.\<close>

definition annotate_class :: "scan_annotations \<Rightarrow> bool \<times> scan_annotations" where
  "annotate_class s =
     (let name = decl_string (decl s)
      in if startswith name ''::ns3::SimpleRefCount<'' then
           (True, annotate ''automatic_type_narrowing'' (Txt ''true'')
              (annotate ''peekref_method'' (Txt ''GetReferenceCount'')
                (annotate ''decref_method'' (Txt ''Unref'') (annotate ''incref_method'' (Txt ''Ref'') s))))
         else if startswith name ''::ns3::Callback<'' then (True, annotate ''ignore'' NoneValue s)
         else if startswith name ''::ns3::TracedCallback<'' then (True, annotate ''ignore'' NoneValue s)
         else if startswith name ''::ns3::Ptr<'' then (True, annotate ''ignore'' NoneValue s)
         else case dget (table s) name of
                None \<Rightarrow> (False, s)
              | Some a \<Rightarrow> (False, s\<lparr>global_annotations := dupdate (global_annotations s) a\<rparr>))"

text \<open>
  The loop over the items of an entry deletes \<open>params\<close> from the entry itself.  Under Python 2 the
  items are a list; under Python 3 the next turn finds that the dictionary has changed.
\<close>

fun take_params :: "python \<Rightarrow> string \<Rightarrow> (string \<times> annotation) list \<Rightarrow> scan_annotations \<Rightarrow> py_error + scan_annotations" where
  "take_params v key [] s = Inr s"
| "take_params v key ((k, x) # items) s =
     (if k = ''params'' then
        (case x of
           Params ps \<Rightarrow>
             let s = s\<lparr>parameter_annotations := dupdate (parameter_annotations s) ps,
                       table := dset (table s) key (ddel (the (dget (table s) key)) ''params'')\<rparr>
             in (case v of
                   Py2 \<Rightarrow> take_params v key items s
                 | Py3 \<Rightarrow> Inl (PlainException ''dictionary changed size during iteration''))
         | _ \<Rightarrow> Inl TypeError)
      else take_params v key items s)"

definition annotate_call :: "python \<Rightarrow> scan_annotations \<Rightarrow> py_error + scan_annotations" where
  "annotate_call v s =
     (let key = decl_text (decl s)
      in case dget (table s) key of
           None \<Rightarrow> Inr s
         | Some a \<Rightarrow> rbind (take_params v key a s) (\<lambda>s.
             Inr (s\<lparr>global_annotations := dupdate (global_annotations s) (the (dget (table s) key))\<rparr>)))"

definition customized_call :: "decl_kind \<Rightarrow> bool" where
  "customized_call k = (case k of FreeFunction \<Rightarrow> True | MemberFunction _ \<Rightarrow> True | ConstructorDecl \<Rightarrow> True | _ \<Rightarrow> False)"

definition pre_scan_hook :: "python \<Rightarrow> scan_annotations \<Rightarrow> (py_error + scan_annotations) option" where
  "pre_scan_hook v s =
     (case get_ns3_relative_path (file_name (decl s)) of
        None \<Rightarrow> None
      | Some (Inl e) \<Rightarrow> Some (Inl e)
      | Some (Inr header) \<Rightarrow> Some (
          let s = annotate ''pygen_comment'' (Txt (header @ '': '' @ decl_text (decl s))) s;
              s = annotate_functions s;
              (returned, s) = (if decl_kind (decl s) = ClassDecl then annotate_class s else (False, s))
          in if returned then Inr s
             else if decl_kind (decl s) = FreeFunction \<and> decl_name (decl s) = ''PeekPointer''
               then Inr (annotate ''ignore'' NoneValue s)
             else if customized_call (decl_kind (decl s)) then annotate_call v s
             else Inr s))"

lemma dupdate_Nil [simp]: "dupdate d [] = d"
  by (simp add: dupdate_def)

text \<open>
  A function whose entry holds the annotations of its parameters gets them once: the entry in the
  table is emptied, and a second declaration of the same text gets none.  Under Python 3 the first
  raises.
\<close>

lemma params_given_once:
  assumes "dget (table s) (decl_text (decl s)) = Some [(''params'', Params ps)]"
  shows "\<exists>s1. annotate_call Py2 s = Inr s1 \<and> parameter_annotations s1 = dupdate (parameter_annotations s) ps
      \<and> global_annotations s1 = global_annotations s
      \<and> (\<forall>s2. table s2 = table s1 \<and> decl_text (decl s2) = decl_text (decl s) \<longrightarrow> annotate_call Py2 s2 = Inr s2)"
    and "annotate_call Py3 s = Inl (PlainException ''dictionary changed size during iteration'')"
proof -
  define s1 where "s1 = s\<lparr>parameter_annotations := dupdate (parameter_annotations s) ps,
    table := dset (table s) (decl_text (decl s)) []\<rparr>"
  have d: "ddel [(''params'', Params ps)] ''params'' = []" by (simp add: ddel_def)
  have "annotate_call Py2 s = Inr s1" using assms by (simp add: annotate_call_def Let_def d s1_def)
  moreover have "annotate_call Py2 s2 = Inr s2" if "table s2 = table s1" "decl_text (decl s2) = decl_text (decl s)" for s2
    using that by (simp add: annotate_call_def s1_def)
  ultimately show "\<exists>s1. annotate_call Py2 s = Inr s1 \<and> parameter_annotations s1 = dupdate (parameter_annotations s) ps
      \<and> global_annotations s1 = global_annotations s
      \<and> (\<forall>s2. table s2 = table s1 \<and> decl_text (decl s2) = decl_text (decl s) \<longrightarrow> annotate_call Py2 s2 = Inr s2)"
    by (intro exI [of _ s1]) (simp add: s1_def)
  show "annotate_call Py3 s = Inl (PlainException ''dictionary changed size during iteration'')"
    using assms by (simp add: annotate_call_def Let_def)
qed

text \<open>In the table, \<open>params\<close> always stands alone.\<close>

lemma params_alone:
  "list_all (\<lambda>(k, a). ''params'' \<in> set (dkeys a) \<longrightarrow> length a = 1) type_annotations \<and> dict_inv type_annotations"
  by code_simp

text \<open>
  The classes of callbacks, of which a class is the name, whether its \<open>decl_string\<close> is that of an
  instantiation, and the parameters of the template; what is written is a list of lists in Python.
\<close>

definition repr_list :: "string list \<Rightarrow> string" where
  "repr_list xs = ''['' @ join '', '' (map repr xs) @ '']''"

definition callback_lines :: "string \<Rightarrow> string \<times> bool \<times> string list \<Rightarrow> py_error + string" where
  "callback_lines written cls =
     (let (name, is_instantiation, template_parameters) = cls
      in if \<not> startswith name ''Callback<'' then Inr written
         else if \<not> is_instantiation then Inl AssertionError
         else Inr (written @ ''    '' @ repr_list template_parameters @ '','' @ nl))"

definition scan_callback_classes :: "(string \<times> bool \<times> string list) list \<Rightarrow> py_error + string" where
  "scan_callback_classes classes =
     rbind (for_each callback_lines (''callback_classes = ['' @ nl) classes) (\<lambda>written. Inr (written @ '']'' @ nl))"

lemma scan_callback_classes_result:
  assumes "\<forall>(name, i, ps)\<in>set classes. startswith name ''Callback<'' \<longrightarrow> i"
  shows "scan_callback_classes classes = Inr (''callback_classes = ['' @ nl
    @ concat (map (\<lambda>(name, i, ps). ''    '' @ repr_list ps @ '','' @ nl) (filter (\<lambda>(name, _). startswith name ''Callback<'') classes)) @ '']'' @ nl)"
proof -
  have "for_each callback_lines w classes =
    Inr (w @ concat (map (\<lambda>(name, i, ps). ''    '' @ repr_list ps @ '','' @ nl) (filter (\<lambda>(name, _). startswith name ''Callback<'') classes)))" for w
    using assms by (induction classes arbitrary: w) (auto simp: callback_lines_def)
  then show ?thesis by (simp add: scan_callback_classes_def)
qed

section \<open>Sections\<close>

text \<open>
  A module has the modules it depends on and its headers.  A section is its name, its file and the
  name of the module with local customizations; \<open>open\<close> is taken to succeed.
\<close>

type_synonym modules = "(string, string list \<times> string list) dict"

datatype scan_error = ScanError py_error | SortError "string ts_error"

record section_map =
  sections :: "(string \<times> string \<times> string option) list"
  headers_map :: "(string, string) dict"
  section_precedences :: "(string, int) dict"

definition main_section :: string where
  "main_section = ''__main__''"

definition section_name :: "string \<Rightarrow> string" where
  "section_name m = ''ns3_module_'' @ map (\<lambda>c. if c = CHR ''-'' then CHR ''_'' else c) m"

definition dependency_pairs :: "modules \<Rightarrow> string \<Rightarrow> (string \<times> string) list" where
  "dependency_pairs ms name =
     (case dget ms name of None \<Rightarrow> [] | Some (deps, _) \<Rightarrow> map (\<lambda>dep. (dep, name)) (sort_strings deps))"

definition module_graph :: "modules \<Rightarrow> (string \<times> string) list" where
  "module_graph ms = concat (map (dependency_pairs ms) (sort_strings (dkeys ms)))"

definition add_section :: "string \<Rightarrow> modules \<Rightarrow> section_map \<times> int \<Rightarrow> string \<Rightarrow> scan_error + (section_map \<times> int)" where
  "add_section pygen_file_name ms st m =
     (let (sm, prec) = st;
          name = section_name m;
          sm = sm\<lparr>sections := sections sm @ [(name, path_join (dirname pygen_file_name) (name @ ''.py''), Some (name @ ''__local''))]\<rparr>
      in case dget ms m of
           None \<Rightarrow> Inl (ScanError KeyError)
         | Some (_, headers) \<Rightarrow>
             Inr (sm\<lparr>headers_map := foldl (\<lambda>d h. dset d h name) (headers_map sm) headers,
                      section_precedences := dset (section_precedences sm) name prec\<rparr>, prec + 1))"

text \<open>\<open>keys().sort()\<close> works on the list of Python 2; the view of Python 3 has no \<open>sort\<close>.\<close>

definition module_sections ::
    "python \<Rightarrow> (string list \<Rightarrow> string list) \<Rightarrow> string \<Rightarrow> modules \<Rightarrow> scan_error + section_map" where
  "module_sections v ord pygen_file_name ms =
     (case v of
        Py3 \<Rightarrow> Inl (ScanError AttributeError)
      | Py2 \<Rightarrow>
          (case topsort ord (module_graph ms) of
             Inl e \<Rightarrow> Inl (SortError e)
           | Inr sorted_modules \<Rightarrow>
               rbind (for_each (add_section pygen_file_name ms)
                 (\<lparr>sections = [(main_section, pygen_file_name, None)], headers_map = [], section_precedences = []\<rparr>, 0)
                 sorted_modules) (\<lambda>(sm, _). Inr sm)))"

definition classify_location :: "section_map \<Rightarrow> string \<Rightarrow> string" where
  "classify_location sm file = (case dget (headers_map sm) (basename file) of Some name \<Rightarrow> name | None \<Rightarrow> main_section)"

definition get_section_precedence :: "section_map \<Rightarrow> string \<Rightarrow> py_error + int" where
  "get_section_precedence sm name =
     (if name = main_section then Inr (- 1)
      else case dget (section_precedences sm) name of Some i \<Rightarrow> Inr i | None \<Rightarrow> Inl KeyError)"

text \<open>What the loop leaves, of the modules in their order.\<close>

definition listed_headers :: "modules \<Rightarrow> string \<Rightarrow> string list" where
  "listed_headers ms m = (case dget ms m of None \<Rightarrow> [] | Some (_, hs) \<Rightarrow> hs)"

definition last_lister :: "modules \<Rightarrow> string list \<Rightarrow> string \<Rightarrow> string option" where
  "last_lister ms xs h = (case filter (\<lambda>m. h \<in> set (listed_headers ms m)) (rev xs) of [] \<Rightarrow> None | m # _ \<Rightarrow> Some m)"

lemma dget_headers: "dget (foldl (\<lambda>d h. dset d h name) d hs) h = (if h \<in> set hs then Some name else dget d h)"
  by (induction hs rule: rev_induct) auto

lemma sections_made:
  assumes "for_each (add_section f ms) (\<lparr>sections = S, headers_map = [], section_precedences = []\<rparr>, 0) xs = Inr (sm, n)"
    and "inj_on section_name (set xs)" "distinct xs"
  shows "n = int (length xs) \<and> (\<forall>i<length xs. dget (section_precedences sm) (section_name (xs ! i)) = Some (int i))
    \<and> (\<forall>h. dget (headers_map sm) h = map_option section_name (last_lister ms xs h))
    \<and> map fst (sections sm) = map fst S @ map section_name xs"
  using assms
proof (induction xs arbitrary: sm n rule: rev_induct)
  case Nil
  then show ?case by (auto simp: last_lister_def)
next
  case (snoc m xs)
  from snoc.prems(1) obtain sm1 n1 where
    r: "for_each (add_section f ms) (\<lparr>sections = S, headers_map = [], section_precedences = []\<rparr>, 0) xs = Inr (sm1, n1)"
      "add_section f ms (sm1, n1) m = Inr (sm, n)"
    by (auto simp: for_each_append rbind_Inr_iff)
  have IH: "n1 = int (length xs)" "\<forall>i<length xs. dget (section_precedences sm1) (section_name (xs ! i)) = Some (int i)"
    "\<forall>h. dget (headers_map sm1) h = map_option section_name (last_lister ms xs h)"
    "map fst (sections sm1) = map fst S @ map section_name xs"
    using snoc.IH [OF r(1)] snoc.prems(2,3) by (auto simp: inj_on_def)
  obtain deps hs where m: "dget ms m = Some (deps, hs)" using r(2) by (auto simp: add_section_def Let_def split: option.splits)
  have sm: "n = n1 + 1" "section_precedences sm = dset (section_precedences sm1) (section_name m) n1"
    "headers_map sm = foldl (\<lambda>d h. dset d h (section_name m)) (headers_map sm1) hs"
    "map fst (sections sm) = map fst (sections sm1) @ [section_name m]"
    using r(2) by (auto simp: add_section_def Let_def m)
  have "section_name (xs ! i) \<noteq> section_name m" if "i < length xs" for i
  proof
    assume "section_name (xs ! i) = section_name m"
    then have "xs ! i = m" using snoc.prems(2) that by (auto simp: inj_on_def)
    then show False using snoc.prems(3) that nth_mem by fastforce
  qed
  then have "\<forall>i<length (xs @ [m]). dget (section_precedences sm) (section_name ((xs @ [m]) ! i)) = Some (int i)"
    using IH(1,2) by (auto simp: sm(2) nth_append less_Suc_eq)
  moreover have "dget (headers_map sm) h = map_option section_name (last_lister ms (xs @ [m]) h)" for h
    using IH(3) by (simp add: sm(3) dget_headers last_lister_def listed_headers_def m)
  ultimately show ?case using IH(1,4) sm(1,4) by simp
qed

lemma set_sort_strings [simp]: "set (sort_strings xs) = set xs"
  by (simp add: sort_strings_def)

lemma module_graph_iff:
  "(d, m) \<in> set (module_graph ms) \<longleftrightarrow> (\<exists>deps hs. dget ms m = Some (deps, hs) \<and> d \<in> set deps)"
proof -
  have "set (dependency_pairs ms k) = {(d, k) | d. \<exists>deps hs. dget ms k = Some (deps, hs) \<and> d \<in> set deps}" for k
    by (cases "dget ms k") (auto simp: dependency_pairs_def)
  moreover have "set (dkeys ms) = {k. dget ms k \<noteq> None}" using pd.set_keys [of ms] by (auto simp: dom_def)
  ultimately show ?thesis by (force simp: module_graph_def)
qed

lemma topo_before:
  assumes "topo ps xs" "(p, c) \<in> set ps" "c \<in> set xs"
  shows "\<exists>i j. i < j \<and> j < length xs \<and> xs ! i = p \<and> xs ! j = c"
proof -
  obtain us vs where xs: "xs = us @ c # vs" using assms(3) by (metis split_list)
  then have "p \<in> set us" using assms(1,2) by (auto simp: topo_def)
  then obtain i where "i < length us" "us ! i = p" by (auto simp: in_set_conv_nth)
  then show ?thesis by (intro exI [of _ i] exI [of _ "length us"]) (simp add: xs nth_append)
qed

lemma section_name_main [simp]: "section_name m \<noteq> main_section"
  by (simp add: section_name_def main_section_def)

lemma last_lister_unique:
  assumes "m \<in> set xs" "h \<in> set (listed_headers ms m)" "\<forall>k\<in>set xs. h \<in> set (listed_headers ms k) \<longrightarrow> k = m"
  shows "last_lister ms xs h = Some m"
proof -
  have "m \<in> set (filter (\<lambda>m. h \<in> set (listed_headers ms m)) (rev xs))" using assms(1,2) by simp
  then obtain k ks where f: "filter (\<lambda>m. h \<in> set (listed_headers ms m)) (rev xs) = k # ks"
    by (cases "filter (\<lambda>m. h \<in> set (listed_headers ms m)) (rev xs)") auto
  then have "k \<in> set (filter (\<lambda>m. h \<in> set (listed_headers ms m)) (rev xs))" by simp
  then have "k \<in> set xs \<and> h \<in> set (listed_headers ms k)" by simp
  then show ?thesis using f assms(3) by (simp add: last_lister_def)
qed

lemma module_sections_sorted:
  assumes "dict_order ord" "module_sections Py2 ord f ms = Inr sm" "inj_on section_name (elements (module_graph ms))"
  obtains xs where "distinct xs" "set xs = elements (module_graph ms)" "topo (module_graph ms) xs"
    "\<forall>i<length xs. dget (section_precedences sm) (section_name (xs ! i)) = Some (int i)"
    "\<forall>h. dget (headers_map sm) h = map_option section_name (last_lister ms xs h)"
proof -
  obtain xs n where t: "topsort ord (module_graph ms) = Inr xs"
    and r: "for_each (add_section f ms) (\<lparr>sections = [(main_section, f, None)], headers_map = [], section_precedences = []\<rparr>, 0) xs = Inr (sm, n)"
    using assms(2) by (auto simp: module_sections_def rbind_Inr_iff split: sum.splits)
  note a = topsort_answer [OF assms(1) t]
  have "inj_on section_name (set xs)" "distinct xs" using a assms(3) by auto
  from sections_made [OF r this] a that show ?thesis by blast
qed

text \<open>
  Claim C37.  Under Python 2 (under Python 3 the scan always raises), when the scan returns and no two
  modules share the name of their section, as \<open>a-b\<close> and \<open>a_b\<close> would, the sections of the bindings are in
  an order in which no module needs a later one: a module has a higher precedence than each module it
  depends on, and the main section has the lowest.  A header that one module lists is classified to the
  section of the module, except those of a module that depends on nothing and that nothing depends on,
  which stay in the main section.
\<close>

theorem module_sections_ordered:
  assumes "dict_order ord" "module_sections Py2 ord f ms = Inr sm" "inj_on section_name (elements (module_graph ms))"
  shows "(\<forall>m deps hs d. dget ms m = Some (deps, hs) \<and> d \<in> set deps \<longrightarrow>
        (\<exists>i j. get_section_precedence sm main_section = Inr (- 1) \<and> get_section_precedence sm (section_name d) = Inr i
           \<and> get_section_precedence sm (section_name m) = Inr j \<and> - 1 < i \<and> i < j))
    \<and> (\<forall>m h. m \<in> elements (module_graph ms) \<and> basename h \<in> set (listed_headers ms m)
        \<and> (\<forall>k\<in>elements (module_graph ms). basename h \<in> set (listed_headers ms k) \<longrightarrow> k = m) \<longrightarrow> classify_location sm h = section_name m)
    \<and> (\<forall>h. (\<forall>k\<in>elements (module_graph ms). basename h \<notin> set (listed_headers ms k)) \<longrightarrow> classify_location sm h = main_section)"
proof -
  obtain xs where xs: "distinct xs" "set xs = elements (module_graph ms)" "topo (module_graph ms) xs"
    "\<forall>i<length xs. dget (section_precedences sm) (section_name (xs ! i)) = Some (int i)"
    "\<forall>h. dget (headers_map sm) h = map_option section_name (last_lister ms xs h)"
    by (rule module_sections_sorted [OF assms])
  have "\<exists>i j. get_section_precedence sm (section_name d) = Inr i \<and> get_section_precedence sm (section_name m) = Inr j \<and> - 1 < i \<and> i < j"
    if "dget ms m = Some (deps, hs)" "d \<in> set deps" for m deps hs d
  proof -
    have e: "(d, m) \<in> set (module_graph ms)" unfolding module_graph_iff using that by blast
    then have "m \<in> set xs" unfolding xs(2) elements_def by force
    from topo_before [OF xs(3) e this] obtain i j where "i < j" "j < length xs" "xs ! i = d" "xs ! j = m" by blast
    then show ?thesis using xs(4) by (intro exI [of _ "int i"] exI [of _ "int j"]) (auto simp: get_section_precedence_def)
  qed
  moreover have "classify_location sm h = section_name m"
    if "m \<in> elements (module_graph ms)" "basename h \<in> set (listed_headers ms m)"
      "\<forall>k\<in>elements (module_graph ms). basename h \<in> set (listed_headers ms k) \<longrightarrow> k = m" for m h
  proof -
    have "last_lister ms xs (basename h) = Some m"
      by (rule last_lister_unique) (unfold xs(2), (rule that)+)
    then show ?thesis using xs(5) by (simp add: classify_location_def)
  qed
  moreover have "classify_location sm h = main_section"
    if "\<forall>k\<in>elements (module_graph ms). basename h \<notin> set (listed_headers ms k)" for h
  proof -
    have "filter (\<lambda>m. basename h \<in> set (listed_headers ms m)) (rev xs) = []" using that xs(2) by (simp add: filter_empty_conv)
    then show ?thesis using xs(5) by (simp add: classify_location_def last_lister_def)
  qed
  moreover have "get_section_precedence sm main_section = Inr (- 1)" by (simp add: get_section_precedence_def)
  ultimately show ?thesis by blast
qed

text \<open>The scan of the modules succeeds when they do not depend on each other in a circle and are all there.\<close>

lemma sections_succeed:
  "\<forall>m\<in>set xs. dget ms m \<noteq> None \<Longrightarrow> \<exists>r. for_each (add_section f ms) st xs = Inr r"
proof (induction xs arbitrary: st)
  case (Cons m xs)
  then obtain deps hs where "dget ms m = Some (deps, hs)" by auto
  then have "\<exists>st'. add_section f ms st m = Inr st'" by (simp add: add_section_def Let_def case_prod_beta)
  then show ?case using Cons by auto
qed simp

definition small_modules :: modules where
  "small_modules = [(''wifi'', [''network'', ''core''], [''wifi-mac.h'']), (''core'', [], [''object.h'']),
     (''network'', [''core''], [''node.h'']), (''brite'', [], [''brite.h''])]"

lemma small_modules_run:
  "module_sections Py2 (\<lambda>xs. xs) ''out/main.py'' small_modules = Inr
     \<lparr>sections = [(''__main__'', ''out/main.py'', None),
        (''ns3_module_core'', ''out/ns3_module_core.py'', Some ''ns3_module_core__local''),
        (''ns3_module_network'', ''out/ns3_module_network.py'', Some ''ns3_module_network__local''),
        (''ns3_module_wifi'', ''out/ns3_module_wifi.py'', Some ''ns3_module_wifi__local'')],
      headers_map = [(''object.h'', ''ns3_module_core''), (''node.h'', ''ns3_module_network''), (''wifi-mac.h'', ''ns3_module_wifi'')],
      section_precedences = [(''ns3_module_core'', 0), (''ns3_module_network'', 1), (''ns3_module_wifi'', 2)]\<rparr>"
  by code_simp

theorem module_sections_ordered_witness:
  "case module_sections Py2 (\<lambda>xs. xs) ''out/main.py'' small_modules of
     Inl e \<Rightarrow> False
   | Inr sm \<Rightarrow> classify_location sm ''ns3/node.h'' = section_name ''network'' \<and> classify_location sm ''ns3/brite.h'' = main_section
       \<and> (\<exists>i j. get_section_precedence sm (section_name ''network'') = Inr i
            \<and> get_section_precedence sm (section_name ''wifi'') = Inr j \<and> i < j)"
proof -
  have el: "elements (module_graph small_modules) = {''core'', ''network'', ''wifi''}" by code_simp
  have inj: "inj_on section_name (elements (module_graph small_modules))"
    unfolding el by (simp add: section_name_def)
  have b: "basename ''ns3/node.h'' = ''node.h''" "basename ''ns3/brite.h'' = ''brite.h''" by code_simp+
  have l: "listed_headers small_modules ''core'' = [''object.h'']" "listed_headers small_modules ''network'' = [''node.h'']"
    "listed_headers small_modules ''wifi'' = [''wifi-mac.h'']" by code_simp+
  have w: "dget small_modules ''wifi'' = Some ([''network'', ''core''], [''wifi-mac.h''])" by code_simp
  note t = module_sections_ordered [OF dict_order_id small_modules_run inj]
  have c: "classify_location sm ''ns3/node.h'' = section_name ''network'' \<and> classify_location sm ''ns3/brite.h'' = main_section"
    if "module_sections Py2 (\<lambda>xs. xs) ''out/main.py'' small_modules = Inr sm" for sm
  proof -
    note t = module_sections_ordered [OF dict_order_id that inj]
    have n: "\<forall>k\<in>elements (module_graph small_modules). ''brite.h'' \<notin> set (listed_headers small_modules k)"
      unfolding el by (simp add: l)
    show ?thesis using t [THEN conjunct2, THEN conjunct1, rule_format, of "''network''" "''ns3/node.h''"]
        t [THEN conjunct2, THEN conjunct2, THEN spec, of "''ns3/brite.h''"] n
      by (simp add: el b l)
  qed
  have p: "\<exists>i j. get_section_precedence sm (section_name ''network'') = Inr i
      \<and> get_section_precedence sm (section_name ''wifi'') = Inr j \<and> i < j"
    if "module_sections Py2 (\<lambda>xs. xs) ''out/main.py'' small_modules = Inr sm" for sm
    using module_sections_ordered [OF dict_order_id that inj, THEN conjunct1, rule_format, OF conjI, OF w, of "''network''"] by auto
  show ?thesis using small_modules_run c p by (auto split: sum.splits)
qed

end
