(* ===== verification/ModuleScanModular.thy ===== *)
theory ModuleScanModular
  imports ModuleScan
begin

text \<open>
  The scanner of a single module, \<open>bindings/python/ns3modulescan-modular.py\<close>: the search in a path
  with the test that ends it, and the hook as the class \<open>PreScanHook\<close>, which finds the module
  a declaration belongs to.  The steps that are the same as in \<open>ns3modulescan.py\<close> are those of
  \<open>ModuleScan\<close>.
\<close>

section \<open>The path of a header\<close>

function modular_loop :: "string \<Rightarrow> string list \<Rightarrow> py_error + string" where
  "modular_loop head l =
     (if head = [] then Inl AssertionError
      else
        let (new_head, tail) = path_split head
        in if new_head = head then Inl ValueError
           else if tail = ''ns3'' then path_join_list l
           else modular_loop new_head (tail # l))"
  by auto

termination
proof (relation "measure (\<lambda>(head, l). length head)")
  fix head l x y and z :: string and w :: string
  assume "head \<noteq> []" "x = path_split head" "(z, w) = x" "z \<noteq> head"
  then show "((z, w # l), head, l) \<in> measure (\<lambda>(head, l). length head)"
    using path_split_shorter [of head] by (metis case_prod_conv fst_conv in_measure le_neq_implies_less)
qed simp

declare modular_loop.simps [simp del]

definition modular_relative_path :: "string \<Rightarrow> py_error + string option" where
  "modular_relative_path path =
     (if path = [] then Inr None else rbind (modular_loop path []) (\<lambda>header. Inr (Some header)))"

lemma fixed_never_ends:
  assumes "path_split h = (h, tail)" "h \<noteq> []"
  shows "relative_loop h l = None"
proof -
  have "head \<noteq> h" if "relative_loop head l = Some r" for head l r
  proof (rule relative_loop.raw_induct [of "\<lambda>head l r. head \<noteq> h", OF _ that])
    fix loop head l r
    assume IH: "\<And>head l r. loop head l = Some r \<Longrightarrow> head \<noteq> h"
      and r: "(if head = [] then Some (Inl AssertionError)
        else let (head, tail) = path_split head
             in if tail = ''ns3'' then Some (path_join_list l) else loop head (tail # l)) = Some r"
    show "head \<noteq> h"
    proof
      assume "head = h"
      then show False using r IH assms path_split_fixed [OF assms(1)] by auto
    qed
  qed
  then show ?thesis by (cases "relative_loop h l") auto
qed

definition when_it_ends :: "py_error + 'a \<Rightarrow> (py_error + 'a) option" where
  "when_it_ends r = (if r = Inl ValueError then None else Some r)"

lemma loops_agree: "relative_loop head l = when_it_ends (modular_loop head l)"
proof (induction head l rule: modular_loop.induct)
  case (1 head l)
  obtain h t where ht: "path_split head = (h, t)" by fastforce
  have j: "path_join_list l \<noteq> Inl ValueError" by (simp add: path_join_list_def split: list.split)
  show ?case
  proof (cases "head = []")
    case True
    then show ?thesis by (simp add: relative_loop.simps [of "[]"] modular_loop.simps [of "[]"] when_it_ends_def)
  next
    case False
    show ?thesis
    proof (cases "h = head")
      case True
      then show ?thesis using ht False fixed_never_ends [of head t l]
        by (simp add: modular_loop.simps [of head] when_it_ends_def)
    next
      case neq: False
      then show ?thesis using 1 [OF False ht [symmetric] refl neq] ht False j
        by (subst relative_loop.simps, subst modular_loop.simps) (simp add: when_it_ends_def)
    qed
  qed
qed

text \<open>
  Claim C36.  The scanner of a single module always finds an answer for the path of a header: the
  one of the other scanner where that ends, and the error \<open>ValueError\<close> exactly where the other one
  runs for ever.
\<close>

theorem modular_path_agrees:
  "get_ns3_relative_path path =
    (if path = [] then Some (Inl AssertionError)
     else case modular_relative_path path of
            Inl e \<Rightarrow> if e = ValueError then None else Some (Inl e)
          | Inr header \<Rightarrow> Some (Inr (the header)))"
  by (cases "path = []"; cases "modular_loop path []")
    (simp_all add: get_ns3_relative_path_def loops_agree modular_relative_path_def when_it_ends_def modular_loop.simps [of "[]"])

section \<open>The hook\<close>

text \<open>
  What the parser says of a class that is an instance of a template: the file in which each
  parameter is declared, \<open>None\<close> for a declaration without a location.
\<close>

record template_info =
  is_instantiation :: bool
  param_files :: "string option list"

definition underscored :: "string \<Rightarrow> string" where
  "underscored m = map (\<lambda>c. if c = CHR ''-'' then CHR ''_'' else c) m"

text \<open>The modules of the parameters; those outside of the tree are left out.\<close>

definition param_module :: "(string, string) dict \<Rightarrow> string list \<Rightarrow> string option \<Rightarrow> py_error + string list" where
  "param_module headers mods file =
     (case file of
        None \<Rightarrow> Inr mods
      | Some path \<Rightarrow>
          (case modular_relative_path path of
             Inl e \<Rightarrow> if e = ValueError then Inr mods else Inl e
           | Inr h \<Rightarrow>
               (case Option.bind h (dget headers) of None \<Rightarrow> Inl KeyError | Some m \<Rightarrow> Inr (mods @ [m]))))"

definition class_module ::
    "(string, string) dict \<Rightarrow> string \<Rightarrow> template_info \<Rightarrow> string \<Rightarrow> py_error + string" where
  "class_module headers this_module info definition_module =
     (if is_instantiation info then
        rbind (for_each (param_module headers) [] (param_files info))
          (\<lambda>mods. Inr (if this_module \<in> set mods then this_module else definition_module))
      else Inr definition_module)"

text \<open>The hook; the class it prints to the standard error is left out.\<close>

definition hook_class ::
    "(string, string) dict \<Rightarrow> string \<Rightarrow> template_info \<Rightarrow> string \<Rightarrow> scan_annotations \<Rightarrow> py_error + scan_annotations" where
  "hook_class headers this_module info definition_module s =
     rbind (class_module headers this_module info definition_module) (\<lambda>definition_module.
       Inr (snd (annotate_class
         (if definition_module \<noteq> this_module
          then annotate ''import_from_module'' (Txt (''ns.'' @ underscored definition_module)) s else s))))"

definition hook_enum :: "string \<Rightarrow> string \<Rightarrow> scan_annotations \<Rightarrow> scan_annotations" where
  "hook_enum this_module definition_module s =
     (if definition_module \<noteq> this_module
      then annotate ''import_from_module'' (Txt (''ns.'' @ definition_module)) s else s)"

definition hook_function :: "string \<Rightarrow> string \<Rightarrow> scan_annotations \<Rightarrow> py_error + scan_annotations" where
  "hook_function this_module definition_module s =
     (if definition_module \<noteq> this_module then Inr (annotate ''ignore'' NoneValue s)
      else if decl_name (decl s) = ''PeekPointer'' then Inr (annotate ''ignore'' NoneValue s)
      else annotate_call Py2 s)"

text \<open>
  The entry is enumerated as \<open>list(annotations.items())\<close>, which under both versions is what
  \<open>items\<close> is under Python 2.
\<close>

definition modular_hook ::
    "(string, string) dict \<Rightarrow> string \<Rightarrow> template_info \<Rightarrow> scan_annotations \<Rightarrow> py_error + scan_annotations" where
  "modular_hook headers this_module info s =
     (case modular_relative_path (file_name (decl s)) of
        Inl e \<Rightarrow> if e = ValueError then Inr s else Inl e
      | Inr header \<Rightarrow>
          if header = None \<or> header = Some [] then Inr s
          else case dget headers (the header) of
            None \<Rightarrow> Inl KeyError
          | Some definition_module \<Rightarrow>
              let s = annotate ''pygen_comment''
                  (Txt (the header @ '' (module '' @ repr definition_module @ ''): '' @ decl_text (decl s))) s;
                  s = annotate_functions s
              in (case decl_kind (decl s) of
                    ClassDecl \<Rightarrow> hook_class headers this_module info definition_module s
                  | EnumDecl \<Rightarrow> Inr (hook_enum this_module definition_module s)
                  | FreeFunction \<Rightarrow> hook_function this_module definition_module s
                  | MemberFunction _ \<Rightarrow> annotate_call Py2 s
                  | ConstructorDecl \<Rightarrow> annotate_call Py2 s
                  | OtherCall \<Rightarrow> Inr s
                  | OtherDecl \<Rightarrow> Inr s))"

lemma dget_dupdate_other: "k \<notin> set (dkeys e) \<Longrightarrow> dget (dupdate d e) k = dget d k"
  unfolding dupdate_def by (induction e rule: rev_induct) (auto simp: dkeys_def)

lemma annotate_others [simp]:
  "decl (annotate k v s) = decl s" "table (annotate k v s) = table s"
  "dget (global_annotations (annotate k v s)) j = (if j = k then Some v else dget (global_annotations s) j)"
  by (simp_all add: annotate_def)

lemma annotate_functions_others:
  "table (annotate_functions s) = table s" "decl_kind (decl (annotate_functions s)) = decl_kind (decl s)"
  "decl_string (decl (annotate_functions s)) = decl_string (decl s)"
  "k \<notin> {''template_instance_names'', ''ignore''} \<Longrightarrow>
    dget (global_annotations (annotate_functions s)) k = dget (global_annotations s) k"
  by (simp_all add: annotate_functions_def Let_def)

lemma annotate_class_imports:
  assumes "\<forall>a. dget (table s) (decl_string (decl s)) = Some a \<longrightarrow> ''import_from_module'' \<notin> set (dkeys a)"
  shows "dget (global_annotations (snd (annotate_class s))) ''import_from_module'' =
    dget (global_annotations s) ''import_from_module''"
  using assms by (auto simp: annotate_class_def Let_def dget_dupdate_other split: option.splits)

text \<open>
  A class is imported from the module of its header, unless this is the module that is
  scanned or one of the parameters of its template is declared in that module; the name of the
  module to import is written with underscores.
\<close>

theorem class_imports:
  assumes "modular_relative_path (file_name (decl s)) = Inr (Some h)" "h \<noteq> []" "dget headers h = Some m"
    and "decl_kind (decl s) = ClassDecl" "dget (global_annotations s) ''import_from_module'' = None"
    and "is_instantiation info \<longrightarrow> for_each (param_module headers) [] (param_files info) = Inr mods"
    and "\<forall>a. dget (table s) (decl_string (decl s)) = Some a \<longrightarrow> ''import_from_module'' \<notin> set (dkeys a)"
  shows "\<exists>s'. modular_hook headers this_module info s = Inr s' \<and>
    dget (global_annotations s') ''import_from_module'' =
      (if m = this_module \<or> is_instantiation info \<and> this_module \<in> set mods then None
       else Some (Txt (''ns.'' @ underscored m)))"
proof -
  define c where "c = annotate_functions (annotate ''pygen_comment'' (Txt (h @ '' (module '' @ repr m @ ''): '' @ decl_text (decl s))) s)"
  have c: "table c = table s" "decl_kind (decl c) = ClassDecl" "decl_string (decl c) = decl_string (decl s)"
    "dget (global_annotations c) ''import_from_module'' = None"
    using assms(4,5) by (simp_all add: c_def annotate_functions_others)
  have "class_module headers this_module info m = Inr (if is_instantiation info \<and> this_module \<in> set mods then this_module else m)"
    using assms(6) by (simp add: class_module_def)
  moreover have "modular_hook headers this_module info s = hook_class headers this_module info m c"
    using assms(1-4) by (simp add: modular_hook_def c_def Let_def annotate_functions_others)
  ultimately show ?thesis using assms(7) c by (auto simp: hook_class_def annotate_class_imports)
qed

text \<open>For an enumeration the name is left as it is, which for a module with a hyphen is no name in Python.\<close>

lemma enum_imports:
  "m \<noteq> this_module \<Longrightarrow>
    dget (global_annotations (hook_enum this_module m s)) ''import_from_module'' = Some (Txt (''ns.'' @ m))"
  "underscored ''flow-monitor'' = ''flow_monitor''"
  by (simp_all add: hook_enum_def underscored_def)

text \<open>A header that the map does not name ends the scan.\<close>

lemma unknown_header:
  "modular_relative_path (file_name (decl s)) = Inr (Some h) \<Longrightarrow> h \<noteq> [] \<Longrightarrow> dget headers h = None \<Longrightarrow>
    modular_hook headers this_module info s = Inl KeyError"
  by (simp add: modular_hook_def)

text \<open>A function of another module gets no wrapper.\<close>

lemma foreign_function:
  assumes "modular_relative_path (file_name (decl s)) = Inr (Some h)" "h \<noteq> []" "dget headers h = Some m"
    "decl_kind (decl s) = FreeFunction" "m \<noteq> this_module"
  shows "\<exists>s'. modular_hook headers this_module info s = Inr s' \<and> dget (global_annotations s') ''ignore'' = Some NoneValue"
  using assms by (simp add: modular_hook_def Let_def annotate_functions_others hook_function_def)

definition tag_class :: scan_annotations where
  "tag_class = \<lparr>table = type_annotations,
     decl = \<lparr>decl_kind = ClassDecl, decl_name = ''Tag<ns3::Node>'', decl_string = ''::ns3::Tag<ns3::Node>'',
       decl_text = ''ns3::Tag<ns3::Node> [class]'', file_name = ''/build/ns3/tag.h'', defaults = [], template_args = []\<rparr>,
     global_annotations = [], parameter_annotations = []\<rparr>"

theorem class_imports_witness:
  "\<exists>s'. modular_hook [(''tag.h'', ''core-tags''), (''node.h'', ''network'')] ''wifi''
      \<lparr>is_instantiation = True, param_files = [Some ''/build/ns3/node.h'', None]\<rparr> tag_class = Inr s'
    \<and> dget (global_annotations s') ''import_from_module'' = Some (Txt ''ns.core_tags'')"
proof -
  let ?headers = "[(''tag.h'', ''core-tags''), (''node.h'', ''network'')]"
  have "modular_relative_path (file_name (decl tag_class)) = Inr (Some ''tag.h'')" by code_simp
  moreover have "dget ?headers ''tag.h'' = Some ''core-tags''" by code_simp
  moreover have "for_each (param_module ?headers) [] [Some ''/build/ns3/node.h'', None] = Inr [''network'']" by code_simp
  moreover have "dget (table tag_class) (decl_string (decl tag_class)) = None" by code_simp
  ultimately show ?thesis
    using class_imports [of tag_class "''tag.h''" ?headers "''core-tags''"
        "\<lparr>is_instantiation = True, param_files = [Some ''/build/ns3/node.h'', None]\<rparr>" "[''network'']" "''wifi''"]
    by (simp add: tag_class_def underscored_def)
qed

end
