(* ===== verification/CreateModule.thy ===== *)
theory CreateModule
  imports PyPath PyDict
begin

text \<open>
  The script that creates the files of a new module, \<open>src/create-module.py\<close>: the nine templates,
  the formatting of a template with a dictionary, and \<open>main\<close> over a disk that maps paths to
  directories and texts.
\<close>

section \<open>Templates\<close>

text \<open>
  A template is a list of lines, and a line a list of pieces: literal text, \<open>%(key)s\<close> or \<open>%(key)r\<close>.
\<close>

datatype piece = Lit string | Key string | ReprKey string

type_synonym template = "piece list list"

definition WSCRIPT_TEMPLATE :: template where
  "WSCRIPT_TEMPLATE =
     [[Lit (''# -*- Mode: python; py-indent-offset: 4; indent-tabs-mode: nil; coding: utf-8; -*-'')],
      [],
      [Lit (''# def options(opt):'')],
      [Lit (''#     pass'')],
      [],
      [Lit (''# def configure(conf):'')],
      [Lit (''#     conf.check_nonfatal(header_name='stdint.h', define_name='HAVE_STDINT_H')'')],
      [],
      [Lit (''def build(bld):'')],
      [Lit (''    module = bld.create_ns3_module(''), ReprKey ''MODULE'', Lit ('', ['core'])'')],
      [Lit (''    module.source = ['')],
      [Lit (''        'model/''), Key ''MODULE'', Lit (''.cc','')],
      [Lit (''        'helper/''), Key ''MODULE'', Lit (''-helper.cc','')],
      [Lit (''        ]'')],
      [],
      [Lit (''    module_test = bld.create_ns3_module_test_library('' @ [CHR 0x27]), Key ''MODULE'', Lit ([CHR 0x27] @ '')'')],
      [Lit (''    module_test.source = ['')],
      [Lit (''        'test/''), Key ''MODULE'', Lit (''-test-suite.cc','')],
      [Lit (''        ]'')],
      [],
      [Lit (''    headers = bld(features='ns3header')'')],
      [Lit (''    headers.module = ''), ReprKey ''MODULE''],
      [Lit (''    headers.source = ['')],
      [Lit (''        'model/''), Key ''MODULE'', Lit (''.h','')],
      [Lit (''        'helper/''), Key ''MODULE'', Lit (''-helper.h','')],
      [Lit (''        ]'')],
      [],
      [Lit (''    if bld.env.ENABLE_EXAMPLES:'')],
      [Lit (''        bld.recurse('examples')'')],
      [],
      [Lit (''    # bld.ns3_python_bindings()'')],
      [],
      []]"

definition MODEL_CC_TEMPLATE :: template where
  "MODEL_CC_TEMPLATE =
     [[Lit (''/* -*- Mode:C++; c-file-style:'' @ [CHR 0x22] @ ''gnu'' @ [CHR 0x22] @ ''; indent-tabs-mode:nil; -*- */'')],
      [],
      [Lit (''#include '' @ [CHR 0x22]), Key ''MODULE'', Lit (''.h'' @ [CHR 0x22])],
      [],
      [Lit (''namespace ns3 {'')],
      [],
      [Lit (''/* ... */'')],
      [],
      [],
      [Lit (''}'')],
      [],
      []]"

definition MODEL_H_TEMPLATE :: template where
  "MODEL_H_TEMPLATE =
     [[Lit (''/* -*- Mode:C++; c-file-style:'' @ [CHR 0x22] @ ''gnu'' @ [CHR 0x22] @ ''; indent-tabs-mode:nil; -*- */'')],
      [Lit (''#ifndef ''), Key ''INCLUDE_GUARD''],
      [Lit (''#define ''), Key ''INCLUDE_GUARD''],
      [],
      [Lit (''namespace ns3 {'')],
      [],
      [Lit (''/* ... */'')],
      [],
      [Lit (''}'')],
      [],
      [Lit (''#endif /* ''), Key ''INCLUDE_GUARD'', Lit ('' */'')],
      [],
      []]"

definition HELPER_CC_TEMPLATE :: template where
  "HELPER_CC_TEMPLATE =
     [[Lit (''/* -*- Mode:C++; c-file-style:'' @ [CHR 0x22] @ ''gnu'' @ [CHR 0x22] @ ''; indent-tabs-mode:nil; -*- */'')],
      [],
      [Lit (''#include '' @ [CHR 0x22]), Key ''MODULE'', Lit (''-helper.h'' @ [CHR 0x22])],
      [],
      [Lit (''namespace ns3 {'')],
      [],
      [Lit (''/* ... */'')],
      [],
      [],
      [Lit (''}'')],
      [],
      []]"

definition HELPER_H_TEMPLATE :: template where
  "HELPER_H_TEMPLATE =
     [[Lit (''/* -*- Mode:C++; c-file-style:'' @ [CHR 0x22] @ ''gnu'' @ [CHR 0x22] @ ''; indent-tabs-mode:nil; -*- */'')],
      [Lit (''#ifndef ''), Key ''INCLUDE_GUARD''],
      [Lit (''#define ''), Key ''INCLUDE_GUARD''],
      [],
      [Lit (''#include '' @ [CHR 0x22] @ ''ns3/''), Key ''MODULE'', Lit (''.h'' @ [CHR 0x22])],
      [],
      [Lit (''namespace ns3 {'')],
      [],
      [Lit (''/* ... */'')],
      [],
      [Lit (''}'')],
      [],
      [Lit (''#endif /* ''), Key ''INCLUDE_GUARD'', Lit ('' */'')],
      [],
      []]"

definition EXAMPLES_WSCRIPT_TEMPLATE :: template where
  "EXAMPLES_WSCRIPT_TEMPLATE =
     [[Lit (''# -*- Mode: python; py-indent-offset: 4; indent-tabs-mode: nil; coding: utf-8; -*-'')],
      [],
      [Lit (''def build(bld):'')],
      [Lit (''    obj = bld.create_ns3_program('' @ [CHR 0x27]), Key ''MODULE'', Lit (''-example', [''), ReprKey ''MODULE'', Lit (''])'')],
      [Lit (''    obj.source = '' @ [CHR 0x27]), Key ''MODULE'', Lit (''-example.cc'' @ [CHR 0x27])],
      [],
      []]"

definition EXAMPLE_CC_TEMPLATE :: template where
  "EXAMPLE_CC_TEMPLATE =
     [[Lit (''/* -*- Mode:C++; c-file-style:'' @ [CHR 0x22] @ ''gnu'' @ [CHR 0x22] @ ''; indent-tabs-mode:nil; -*- */'')],
      [],
      [Lit (''#include '' @ [CHR 0x22] @ ''ns3/core-module.h'' @ [CHR 0x22])],
      [Lit (''#include '' @ [CHR 0x22] @ ''ns3/''), Key ''MODULE'', Lit (''-helper.h'' @ [CHR 0x22])],
      [],
      [Lit (''using namespace ns3;'')],
      [],
      [],
      [Lit (''int '')],
      [Lit (''main (int argc, char *argv[])'')],
      [Lit (''{'')],
      [Lit (''  bool verbose = true;'')],
      [],
      [Lit (''  CommandLine cmd;'')],
      [Lit (''  cmd.AddValue ('' @ [CHR 0x22] @ ''verbose'' @ [CHR 0x22] @ '', '' @ [CHR 0x22] @ ''Tell application to log if true'' @ [CHR 0x22] @ '', verbose);'')],
      [],
      [Lit (''  cmd.Parse (argc,argv);'')],
      [],
      [Lit (''  /* ... */'')],
      [],
      [Lit (''  Simulator::Run ();'')],
      [Lit (''  Simulator::Destroy ();'')],
      [Lit (''  return 0;'')],
      [Lit (''}'')],
      [],
      [],
      []]"

definition TEST_CC_TEMPLATE :: template where
  "TEST_CC_TEMPLATE =
     [[Lit (''/* -*- Mode:C++; c-file-style:'' @ [CHR 0x22] @ ''gnu'' @ [CHR 0x22] @ ''; indent-tabs-mode:nil; -*- */'')],
      [],
      [Lit (''// Include a header file from your module to test.'')],
      [Lit (''#include '' @ [CHR 0x22] @ ''ns3/''), Key ''MODULE'', Lit (''.h'' @ [CHR 0x22])],
      [],
      [Lit (''// An essential include is test.h'')],
      [Lit (''#include '' @ [CHR 0x22] @ ''ns3/test.h'' @ [CHR 0x22])],
      [],
      [Lit (''// Do not put your test classes in namespace ns3.  You may find it useful'')],
      [Lit (''// to use the using directive to access the ns3 namespace directly'')],
      [Lit (''using namespace ns3;'')],
      [],
      [Lit (''// This is an example TestCase.'')],
      [Lit (''class ''), Key ''CAPITALIZED'', Lit (''TestCase1 : public TestCase'')],
      [Lit (''{'')],
      [Lit (''public:'')],
      [Lit (''  ''), Key ''CAPITALIZED'', Lit (''TestCase1 ();'')],
      [Lit (''  virtual ~''), Key ''CAPITALIZED'', Lit (''TestCase1 ();'')],
      [],
      [Lit (''private:'')],
      [Lit (''  virtual void DoRun (void);'')],
      [Lit (''};'')],
      [],
      [Lit (''// Add some help text to this case to describe what it is intended to test'')],
      [Key ''CAPITALIZED'', Lit (''TestCase1::''), Key ''CAPITALIZED'', Lit (''TestCase1 ()'')],
      [Lit (''  : TestCase ('' @ [CHR 0x22]), Key ''CAPITALIZED'', Lit ('' test case (does nothing)'' @ [CHR 0x22] @ '')'')],
      [Lit (''{'')],
      [Lit (''}'')],
      [],
      [Lit (''// This destructor does nothing but we include it as a reminder that'')],
      [Lit (''// the test case should clean up after itself'')],
      [Key ''CAPITALIZED'', Lit (''TestCase1::~''), Key ''CAPITALIZED'', Lit (''TestCase1 ()'')],
      [Lit (''{'')],
      [Lit (''}'')],
      [],
      [Lit (''//'')],
      [Lit (''// This method is the pure virtual method from class TestCase that every'')],
      [Lit (''// TestCase must implement'')],
      [Lit (''//'')],
      [Lit (''void'')],
      [Key ''CAPITALIZED'', Lit (''TestCase1::DoRun (void)'')],
      [Lit (''{'')],
      [Lit (''  // A wide variety of test macros are available in src/core/test.h'')],
      [Lit (''  NS_TEST_ASSERT_MSG_EQ (true, true, '' @ [CHR 0x22] @ ''true doesn't equal true for some reason'' @ [CHR 0x22] @ '');'')],
      [Lit (''  // Use this one for floating point comparisons'')],
      [Lit (''  NS_TEST_ASSERT_MSG_EQ_TOL (0.01, 0.01, 0.001, '' @ [CHR 0x22] @ ''Numbers are not equal within tolerance'' @ [CHR 0x22] @ '');'')],
      [Lit (''}'')],
      [],
      [Lit (''// The TestSuite class names the TestSuite, identifies what type of TestSuite,'')],
      [Lit (''// and enables the TestCases to be run.  Typically, only the constructor for'')],
      [Lit (''// this class must be defined'')],
      [Lit (''//'')],
      [Lit (''class ''), Key ''CAPITALIZED'', Lit (''TestSuite : public TestSuite'')],
      [Lit (''{'')],
      [Lit (''public:'')],
      [Lit (''  ''), Key ''CAPITALIZED'', Lit (''TestSuite ();'')],
      [Lit (''};'')],
      [],
      [Key ''CAPITALIZED'', Lit (''TestSuite::''), Key ''CAPITALIZED'', Lit (''TestSuite ()'')],
      [Lit (''  : TestSuite ('' @ [CHR 0x22]), Key ''MODULE'', Lit ([CHR 0x22] @ '', UNIT)'')],
      [Lit (''{'')],
      [Lit (''  // TestDuration for TestCase can be QUICK, EXTENSIVE or TAKES_FOREVER'')],
      [Lit (''  AddTestCase (new ''), Key ''CAPITALIZED'', Lit (''TestCase1, TestCase::QUICK);'')],
      [Lit (''}'')],
      [],
      [Lit (''// Do not forget to allocate an instance of this TestSuite'')],
      [Lit (''static ''), Key ''CAPITALIZED'', Lit (''TestSuite ''), Key ''COMPOUND'', Lit (''TestSuite;'')],
      [],
      []]"

definition DOC_RST_TEMPLATE :: template where
  "DOC_RST_TEMPLATE =
     [[Lit (''Example Module Documentation'')],
      [Lit (''----------------------------'')],
      [],
      [Lit (''.. include:: replace.txt'')],
      [Lit (''.. highlight:: cpp'')],
      [],
      [Lit (''.. heading hierarchy:'')],
      [Lit (''   ------------- Chapter'')],
      [Lit (''   ************* Section (#.#)'')],
      [Lit (''   ============= Subsection (#.#.#)'')],
      [Lit (''   ############# Paragraph (no number)'')],
      [],
      [Lit (''This is a suggested outline for adding new module documentation to |ns3|.'')],
      [Lit (''See ``src/click/doc/click.rst`` for an example.'')],
      [],
      [Lit (''The introductory paragraph is for describing what this code is trying to'')],
      [Lit (''model.'')],
      [],
      [Lit (''For consistency (italicized formatting), please use |ns3| to refer to'')],
      [Lit (''ns-3 in the documentation (and likewise, |ns2| for ns-2).  These macros'')],
      [Lit (''are defined in the file ``replace.txt``.'')],
      [],
      [Lit (''Model Description'')],
      [Lit (''*****************'')],
      [],
      [Lit (''The source code for the new module lives in the directory ``src/''), Key ''MODULE'', Lit (''``.'')],
      [],
      [Lit (''Add here a basic description of what is being modeled.'')],
      [],
      [Lit (''Design'')],
      [Lit (''======'')],
      [],
      [Lit (''Briefly describe the software design of the model and how it fits into '')],
      [Lit (''the existing ns-3 architecture. '')],
      [],
      [Lit (''Scope and Limitations'')],
      [Lit (''====================='')],
      [],
      [Lit (''What can the model do?  What can it not do?  Please use this section to'')],
      [Lit (''describe the scope and limitations of the model.'')],
      [],
      [Lit (''References'')],
      [Lit (''=========='')],
      [],
      [Lit (''Add academic citations here, such as if you published a paper on this'')],
      [Lit (''model, or if readers should read a particular specification or other work.'')],
      [],
      [Lit (''Usage'')],
      [Lit (''*****'')],
      [],
      [Lit (''This section is principally concerned with the usage of your model, using'')],
      [Lit (''the public API.  Focus first on most common usage patterns, then go'')],
      [Lit (''into more advanced topics.'')],
      [],
      [Lit (''Building New Module'')],
      [Lit (''==================='')],
      [],
      [Lit (''Include this subsection only if there are special build instructions or'')],
      [Lit (''platform limitations.'')],
      [],
      [Lit (''Helpers'')],
      [Lit (''======='')],
      [],
      [Lit (''What helper API will users typically use?  Describe it here.'')],
      [],
      [Lit (''Attributes'')],
      [Lit (''=========='')],
      [],
      [Lit (''What classes hold attributes, and what are the key ones worth mentioning?'')],
      [],
      [Lit (''Output'')],
      [Lit (''======'')],
      [],
      [Lit (''What kind of data does the model generate?  What are the key trace'')],
      [Lit (''sources?   What kind of logging output can be enabled?'')],
      [],
      [Lit (''Advanced Usage'')],
      [Lit (''=============='')],
      [],
      [Lit (''Go into further details (such as using the API outside of the helpers)'')],
      [Lit (''in additional sections, as needed.'')],
      [],
      [Lit (''Examples'')],
      [Lit (''========'')],
      [],
      [Lit (''What examples using this new code are available?  Describe them here.'')],
      [],
      [Lit (''Troubleshooting'')],
      [Lit (''==============='')],
      [],
      [Lit (''Add any tips for avoiding pitfalls, etc.'')],
      [],
      [Lit (''Validation'')],
      [Lit (''**********'')],
      [],
      [Lit (''Describe how the model has been tested/validated.  What tests run in the'')],
      [Lit (''test suite?  How much API and code is covered by the tests?  Again, '')],
      [Lit (''references to outside published work may help here.'')],
      []]"

definition fill_piece :: "(string, string) dict \<Rightarrow> string \<Rightarrow> piece \<Rightarrow> py_error + string" where
  "fill_piece values line p =
     (case p of
        Lit s \<Rightarrow> Inr (line @ s)
      | Key k \<Rightarrow> (case dget values k of None \<Rightarrow> Inl KeyError | Some v \<Rightarrow> Inr (line @ v))
      | ReprKey k \<Rightarrow> (case dget values k of None \<Rightarrow> Inl KeyError | Some v \<Rightarrow> Inr (line @ repr v)))"

definition fill_line :: "(string, string) dict \<Rightarrow> string list \<Rightarrow> piece list \<Rightarrow> py_error + string list" where
  "fill_line values lines ps = rbind (for_each (fill_piece values) [] ps) (\<lambda>line. Inr (lines @ [line]))"

definition fill :: "(string, string) dict \<Rightarrow> template \<Rightarrow> py_error + string" where
  "fill values t = rbind (for_each (fill_line values) [] t) (\<lambda>lines. Inr (join nl lines))"

section \<open>The name of the module\<close>

text \<open>The methods of ASCII strings.\<close>

definition in_range :: "char \<Rightarrow> char \<Rightarrow> char \<Rightarrow> bool" where
  "in_range a b c = ((of_char a :: nat) \<le> of_char c \<and> (of_char c :: nat) \<le> of_char b)"

definition lower_char :: "char \<Rightarrow> char" where
  "lower_char c = (if in_range (CHR ''A'') (CHR ''Z'') c then char_of (of_char c + 32 :: nat) else c)"

definition upper_char :: "char \<Rightarrow> char" where
  "upper_char c = (if in_range (CHR ''a'') (CHR ''z'') c then char_of (of_char c - 32 :: nat) else c)"

definition isalnum :: "string \<Rightarrow> bool" where
  "isalnum s = (s \<noteq> [] \<and> list_all (\<lambda>c. in_range (CHR ''a'') (CHR ''z'') c \<or> in_range (CHR ''A'') (CHR ''Z'') c
     \<or> in_range (CHR ''0'') (CHR ''9'') c) s)"

definition capitalize :: "string \<Rightarrow> string" where
  "capitalize s = (case s of [] \<Rightarrow> [] | c # cs \<Rightarrow> upper_char c # map lower_char cs)"

definition words :: "string \<Rightarrow> string list" where
  "words modname = split_on (CHR ''-'') modname"

definition guard_prefix :: "string \<Rightarrow> string" where
  "guard_prefix modname = map upper_char (map (\<lambda>c. if c = CHR ''-'' then CHR ''_'' else c) modname)"

definition capitalized :: "string \<Rightarrow> string" where
  "capitalized modname = concat (map capitalize (words modname))"

definition compound :: "string \<Rightarrow> string" where
  "compound modname = concat ([hd (words modname)] @ map capitalize (tl (words modname)))"

section \<open>The disk\<close>

text \<open>The empty path is the current directory.\<close>

datatype entry = Directory | TextFile string

type_synonym disk = "string \<Rightarrow> entry option"

definition is_directory :: "disk \<Rightarrow> string \<Rightarrow> bool" where
  "is_directory d p = (p = [] \<or> d p = Some Directory)"

definition mkdir :: "string \<Rightarrow> disk \<Rightarrow> py_error + disk" where
  "mkdir p d =
     (if d p \<noteq> None then Inl (PlainException ''File exists'')
      else if \<not> is_directory d (dirname p) then Inl FileNotFoundError
      else Inr (d(p \<mapsto> Directory)))"

definition open_wt :: "string \<Rightarrow> disk \<Rightarrow> py_error + disk" where
  "open_wt p d =
     (if is_directory d p then Inl (PlainException ''Is a directory'')
      else if \<not> is_directory d (dirname p) then Inl FileNotFoundError
      else Inr (d(p \<mapsto> TextFile [])))"

datatype scaffold_step = MakeDir string | WriteTemplate string template "(string, string) dict"

definition scaffold_run :: "disk \<Rightarrow> scaffold_step \<Rightarrow> py_error + disk" where
  "scaffold_run d st =
     (case st of
        MakeDir p \<Rightarrow> mkdir p d
      | WriteTemplate p t values \<Rightarrow> rbind (open_wt p d) (\<lambda>d. rbind (fill values t) (\<lambda>text. Inr (d(p \<mapsto> TextFile text)))))"

definition scaffold :: "string \<Rightarrow> string \<Rightarrow> scaffold_step list" where
  "scaffold moduledir modname =
     (let M = (''MODULE'', modname); examplesdir = path_join moduledir ''examples'';
          inside = (\<lambda>dir file. path_join (path_join moduledir dir) file)
      in [MakeDir moduledir,
          WriteTemplate (path_join moduledir ''wscript'') WSCRIPT_TEMPLATE [M],
          MakeDir (path_join moduledir ''model''),
          WriteTemplate (inside ''model'' (modname @ ''.cc'')) MODEL_CC_TEMPLATE [M],
          WriteTemplate (inside ''model'' (modname @ ''.h'')) MODEL_H_TEMPLATE [M, (''INCLUDE_GUARD'', guard_prefix modname @ ''_H'')],
          MakeDir (path_join moduledir ''test''),
          WriteTemplate (inside ''test'' (modname @ ''-test-suite.cc'')) TEST_CC_TEMPLATE
            [M, (''CAPITALIZED'', capitalized modname), (''COMPOUND'', compound modname)],
          MakeDir (path_join moduledir ''helper''),
          WriteTemplate (inside ''helper'' (modname @ ''-helper.cc'')) HELPER_CC_TEMPLATE [M],
          WriteTemplate (inside ''helper'' (modname @ ''-helper.h'')) HELPER_H_TEMPLATE
            [M, (''INCLUDE_GUARD'', guard_prefix modname @ ''_HELPER_H'')],
          MakeDir examplesdir,
          WriteTemplate (path_join examplesdir ''wscript'') EXAMPLES_WSCRIPT_TEMPLATE [M],
          WriteTemplate (inside ''examples'' (modname @ ''-example.cc'')) EXAMPLE_CC_TEMPLATE [M],
          MakeDir (path_join moduledir ''doc''),
          WriteTemplate (inside ''doc'' (modname @ ''.rst'')) DOC_RST_TEMPLATE [M]])"

text \<open>
  \<open>main\<close> of the arguments behind the options, in the directory \<open>base\<close> of the script: the exit
  status, the lines that are printed, except for the help text, and the disk.
\<close>

definition create_module :: "string \<Rightarrow> string list \<Rightarrow> disk \<Rightarrow> py_error + (int \<times> string list \<times> disk)" where
  "create_module base args d =
     (if length args \<noteq> 1 then Inr (1, [], d)
      else
        let modname = map lower_char (args ! 0)
        in if False \<in> set (map isalnum (words modname))
             then Inr (2, [''Module name should only contain alphanumeric characters and dashes''], d)
           else if CHR ''/'' \<in> set modname then Inl AssertionError
           else
             let moduledir = path_join base modname
             in if d moduledir \<noteq> None then Inr (2, [''Module '' @ repr modname @ '' already exists''], d)
                else rbind (for_each scaffold_run d (scaffold moduledir modname)) (\<lambda>d.
                  Inr (0, [''Creating module '' @ repr modname @ '', run './waf configure' to include it in the build''], d)))"

section \<open>What is created\<close>

text \<open>A template can be filled when the dictionary has its keys.\<close>

definition has_keys :: "string list \<Rightarrow> template \<Rightarrow> bool" where
  "has_keys ks t = list_all (list_all (\<lambda>p. case p of Lit _ \<Rightarrow> True | Key k \<Rightarrow> k \<in> set ks | ReprKey k \<Rightarrow> k \<in> set ks)) t"

lemma fill_succeeds:
  assumes "has_keys (dkeys values) t"
  shows "\<exists>text. fill values t = Inr text"
proof -
  have line: "\<exists>l'. for_each (fill_piece values) l ps = Inr l'"
    if "list_all (\<lambda>p. case p of Lit _ \<Rightarrow> True | Key k \<Rightarrow> k \<in> set (dkeys values) | ReprKey k \<Rightarrow> k \<in> set (dkeys values)) ps" for l ps
    using that
  proof (induction ps arbitrary: l)
    case (Cons p ps)
    have "dget values k \<noteq> None" if "k \<in> set (dkeys values)" for k using that pd.set_keys [of "values"] by (auto simp: dom_def)
    then have "\<exists>l'. fill_piece values l p = Inr l'"
      using Cons.prems by (cases p) (force simp: fill_piece_def)+
    then show ?case using Cons by auto
  qed simp
  have "\<exists>ls'. for_each (fill_line values) ls t = Inr ls'" for ls
    using assms unfolding has_keys_def
  proof (induction t arbitrary: ls)
    case (Cons ps t)
    then have "\<exists>l. for_each (fill_piece values) [] ps = Inr l" by (intro line) (simp only: list.pred_inject)
    then have "\<exists>ls'. fill_line values ls ps = Inr ls'" by (auto simp: fill_line_def)
    then show ?case using Cons by auto
  qed simp
  then obtain ls where "for_each (fill_line values) [] t = Inr ls" by blast
  then show ?thesis by (simp add: fill_def)
qed

lemma templates_have_keys:
  "has_keys [''MODULE''] WSCRIPT_TEMPLATE" "has_keys [''MODULE''] MODEL_CC_TEMPLATE"
  "has_keys [''MODULE'', ''INCLUDE_GUARD''] MODEL_H_TEMPLATE" "has_keys [''MODULE''] HELPER_CC_TEMPLATE"
  "has_keys [''MODULE'', ''INCLUDE_GUARD''] HELPER_H_TEMPLATE" "has_keys [''MODULE''] EXAMPLES_WSCRIPT_TEMPLATE"
  "has_keys [''MODULE''] EXAMPLE_CC_TEMPLATE" "has_keys [''MODULE'', ''CAPITALIZED'', ''COMPOUND''] TEST_CC_TEMPLATE"
  "has_keys [''MODULE''] DOC_RST_TEMPLATE"
  by code_simp+

text \<open>
  Steps that create each path once, in directories that are there or that were made before, all
  succeed, and add exactly their entries.
\<close>

fun target :: "scaffold_step \<Rightarrow> string" where
  "target (MakeDir p) = p"
| "target (WriteTemplate p t values) = p"

fun step_entry :: "scaffold_step \<Rightarrow> entry" where
  "step_entry (MakeDir p) = Directory"
| "step_entry (WriteTemplate p t values) = TextFile (case fill values t of Inl e \<Rightarrow> [] | Inr text \<Rightarrow> text)"

fun fillable :: "scaffold_step \<Rightarrow> bool" where
  "fillable (MakeDir p) = True"
| "fillable (WriteTemplate p t values) = (case fill values t of Inl e \<Rightarrow> False | Inr text \<Rightarrow> True)"

fun well_placed :: "string set \<Rightarrow> scaffold_step list \<Rightarrow> bool" where
  "well_placed D [] = True"
| "well_placed D (st # sts) =
     (dirname (target st) \<in> D \<and> well_placed (case st of MakeDir p \<Rightarrow> insert p D | WriteTemplate _ _ _ \<Rightarrow> D) sts)"

lemma scaffold_run_entry:
  assumes "d (target st) = None" "target st \<noteq> []" "fillable st" "is_directory d (dirname (target st))"
  shows "scaffold_run d st = Inr (d(target st \<mapsto> step_entry st))"
  using assms by (cases st) (auto simp: scaffold_run_def mkdir_def open_wt_def is_directory_def split: sum.splits)

lemma steps_done:
  assumes "\<forall>p\<in>D. is_directory d p" "well_placed D sts" "distinct (map target sts)"
    "\<forall>st\<in>set sts. d (target st) = None \<and> target st \<noteq> [] \<and> fillable st"
  shows "for_each scaffold_run d sts = Inr (d ++ map_of (map (\<lambda>st. (target st, step_entry st)) sts))"
  using assms
proof (induction sts arbitrary: d D)
  case (Cons st sts)
  let ?d = "d(target st \<mapsto> step_entry st)"
  let ?D = "case st of MakeDir p \<Rightarrow> insert p D | WriteTemplate _ _ _ \<Rightarrow> D"
  have st: "d (target st) = None" "target st \<noteq> []" "fillable st" "is_directory d (dirname (target st))"
    using Cons.prems by auto
  then have "target st \<notin> D" using Cons.prems(1) by (auto simp: is_directory_def)
  then have D: "\<forall>p\<in>?D. is_directory ?d p" using Cons.prems(1) by (cases st) (auto simp: is_directory_def)
  have "\<forall>s\<in>set sts. ?d (target s) = None \<and> target s \<noteq> [] \<and> fillable s"
    using Cons.prems(3,4) by (auto simp: image_iff)
  then have "for_each scaffold_run ?d sts = Inr (?d ++ map_of (map (\<lambda>st. (target st, step_entry st)) sts))"
    using Cons.prems(2,3) by (intro Cons.IH [OF D]) simp_all
  moreover have "map_of (map (\<lambda>st. (target st, step_entry st)) sts) (target st) = None"
    using Cons.prems(3) by (force simp: map_of_eq_None_iff)
  then have "?d ++ map_of (map (\<lambda>st. (target st, step_entry st)) sts) = d ++ map_of (map (\<lambda>st. (target st, step_entry st)) (st # sts))"
    by (auto simp: fun_eq_iff map_add_def split: option.splits)
  ultimately show ?case by (simp only: for_each.simps scaffold_run_entry [OF st] rbind_simps)
qed simp

text \<open>The steps with their paths written out.\<close>

definition guard_keys :: "string \<Rightarrow> string \<Rightarrow> (string, string) dict" where
  "guard_keys N suffix = [(''MODULE'', N), (''INCLUDE_GUARD'', guard_prefix N @ suffix)]"

definition test_keys :: "string \<Rightarrow> (string, string) dict" where
  "test_keys N = [(''MODULE'', N), (''CAPITALIZED'', capitalized N), (''COMPOUND'', compound N)]"

definition module_files :: "string \<Rightarrow> (string \<times> template \<times> (string, string) dict) list" where
  "module_files N =
     [(''/wscript'', WSCRIPT_TEMPLATE, [(''MODULE'', N)]),
      (''/model/'' @ N @ ''.cc'', MODEL_CC_TEMPLATE, [(''MODULE'', N)]),
      (''/model/'' @ N @ ''.h'', MODEL_H_TEMPLATE, guard_keys N ''_H''),
      (''/test/'' @ N @ ''-test-suite.cc'', TEST_CC_TEMPLATE, test_keys N),
      (''/helper/'' @ N @ ''-helper.cc'', HELPER_CC_TEMPLATE, [(''MODULE'', N)]),
      (''/helper/'' @ N @ ''-helper.h'', HELPER_H_TEMPLATE, guard_keys N ''_HELPER_H''),
      (''/examples/wscript'', EXAMPLES_WSCRIPT_TEMPLATE, [(''MODULE'', N)]),
      (''/examples/'' @ N @ ''-example.cc'', EXAMPLE_CC_TEMPLATE, [(''MODULE'', N)]),
      (''/doc/'' @ N @ ''.rst'', DOC_RST_TEMPLATE, [(''MODULE'', N)])]"

lemma path_join_in: "p \<noteq> [] \<Longrightarrow> last p \<noteq> CHR ''/'' \<Longrightarrow> \<not> startswith x ''/'' \<Longrightarrow> path_join p x = p @ ''/'' @ x"
  by (simp add: path_join_def)

lemma dirname_in: "p \<noteq> [] \<Longrightarrow> last p \<noteq> CHR ''/'' \<Longrightarrow> CHR ''/'' \<notin> set x \<Longrightarrow> dirname (p @ CHR ''/'' # x) = p"
  by (simp add: dirname_def path_split_last)

lemma scaffold_flat:
  assumes "M \<noteq> []" "last M \<noteq> CHR ''/''" "CHR ''/'' \<notin> set N" "N \<noteq> []"
  shows "scaffold M N =
    [MakeDir M, WriteTemplate (M @ ''/wscript'') WSCRIPT_TEMPLATE [(''MODULE'', N)], MakeDir (M @ ''/model''),
     WriteTemplate (M @ ''/model/'' @ N @ ''.cc'') MODEL_CC_TEMPLATE [(''MODULE'', N)],
     WriteTemplate (M @ ''/model/'' @ N @ ''.h'') MODEL_H_TEMPLATE (guard_keys N ''_H''),
     MakeDir (M @ ''/test''), WriteTemplate (M @ ''/test/'' @ N @ ''-test-suite.cc'') TEST_CC_TEMPLATE (test_keys N),
     MakeDir (M @ ''/helper''), WriteTemplate (M @ ''/helper/'' @ N @ ''-helper.cc'') HELPER_CC_TEMPLATE [(''MODULE'', N)],
     WriteTemplate (M @ ''/helper/'' @ N @ ''-helper.h'') HELPER_H_TEMPLATE (guard_keys N ''_HELPER_H''),
     MakeDir (M @ ''/examples''), WriteTemplate (M @ ''/examples/wscript'') EXAMPLES_WSCRIPT_TEMPLATE [(''MODULE'', N)],
     WriteTemplate (M @ ''/examples/'' @ N @ ''-example.cc'') EXAMPLE_CC_TEMPLATE [(''MODULE'', N)],
     MakeDir (M @ ''/doc''), WriteTemplate (M @ ''/doc/'' @ N @ ''.rst'') DOC_RST_TEMPLATE [(''MODULE'', N)]]"
proof -
  have "\<not> startswith (N @ x) ''/''" for x using assms(3,4) by (cases N) (auto simp: startswith_def)
  then show ?thesis using assms(1,2)
    by (simp add: scaffold_def Let_def path_join_in startswith_def guard_keys_def test_keys_def)
qed

lemma scaffold_runs:
  assumes "M \<noteq> []" "last M \<noteq> CHR ''/''" "CHR ''/'' \<notin> set N" "N \<noteq> []"
    and "is_directory d (dirname M)" "d M = None" "\<forall>p. d (M @ ''/'' @ p) = None"
  shows "for_each scaffold_run d (scaffold M N) =
    Inr (d ++ map_of (map (\<lambda>st. (target st, step_entry st)) (scaffold M N)))"
proof (rule steps_done)
  note flat = scaffold_flat [OF assms(1-4)]
  show "\<forall>p\<in>{dirname M}. is_directory d p" using assms(5) by simp
  have dir: "dirname (M @ CHR ''/'' # x) = M" if "CHR ''/'' \<notin> set x" for x
    using that by (rule dirname_in [OF assms(1,2)])
  have sub: "dirname (M @ CHR ''/'' # sub @ CHR ''/'' # x) = M @ CHR ''/'' # sub"
    if "CHR ''/'' \<notin> set sub" "sub \<noteq> []" "CHR ''/'' \<notin> set x" for sub x
  proof -
    have "last (M @ CHR ''/'' # sub) \<noteq> CHR ''/''" 
      using last_in_set [OF that(2)] that(1,2) by (metis last_ConsR last_appendR list.distinct(1))
    from dirname_in [OF _ this that(3)] show ?thesis by simp
  qed
  show "well_placed {dirname M} (scaffold M N)"
    using dir [of "''wscript''"] dir [of "''model''"] dir [of "''test''"] dir [of "''helper''"] dir [of "''examples''"] dir [of "''doc''"]
      sub [of "''model''" "N @ ''.cc''"] sub [of "''model''" "N @ ''.h''"] sub [of "''test''" "N @ ''-test-suite.cc''"]
      sub [of "''helper''" "N @ ''-helper.cc''"] sub [of "''helper''" "N @ ''-helper.h''"]
      sub [of "''examples''" "''wscript''"] sub [of "''examples''" "N @ ''-example.cc''"] sub [of "''doc''" "N @ ''.rst''"] assms(3)
    by (simp add: flat)
  show "distinct (map target (scaffold M N))" using assms(3,4) by (auto simp: flat Cons_eq_append_conv append_eq_Cons_conv)
  have "fillable (WriteTemplate p t values)" if "has_keys (dkeys values) t" for p t "values"
    using fill_succeeds [OF that] by auto
  then have "\<forall>st\<in>set (scaffold M N). fillable st"
    using templates_have_keys by (simp add: flat dkeys_def guard_keys_def test_keys_def)
  moreover have "d (M @ CHR ''/'' # p) = None" for p using assms(7) by simp
  ultimately show "\<forall>st\<in>set (scaffold M N). d (target st) = None \<and> target st \<noteq> [] \<and> fillable st"
    using assms(1,6) by (simp add: flat)
qed

lemma scaffold_entries:
  assumes "M \<noteq> []" "last M \<noteq> CHR ''/''" "CHR ''/'' \<notin> set N" "N \<noteq> []"
  shows "map_of (map (\<lambda>st. (target st, step_entry st)) (scaffold M N)) p =
    (if p \<in> {M, M @ ''/model'', M @ ''/test'', M @ ''/helper'', M @ ''/examples'', M @ ''/doc''} then Some Directory
     else map_option (\<lambda>(t, values). TextFile (case fill values t of Inl e \<Rightarrow> [] | Inr text \<Rightarrow> text))
       (map_of (map (\<lambda>(file, t, values). (M @ file, t, values)) (module_files N)) p))"
  by (auto simp: scaffold_flat [OF assms] module_files_def)

lemma words_alnum:
  assumes "False \<notin> set (map isalnum (words N))"
  shows "N \<noteq> []" "CHR ''/'' \<notin> set N" "last N \<noteq> CHR ''/''"
proof -
  show "N \<noteq> []" using assms by (auto simp: words_def isalnum_def)
  have char: "c = CHR ''-'' \<or> c \<noteq> CHR ''/''" if "isalnum w" "c \<in> set w" for c w
    using that by (auto simp: isalnum_def list_all_iff in_range_def)
  have "\<forall>w\<in>set (split_on (CHR ''-'') N). CHR ''/'' \<notin> set w"
    using assms char by (auto simp: words_def image_iff)
  moreover
  have "set (join [CHR ''-''] ws) \<subseteq> insert (CHR ''-'') (\<Union>w\<in>set ws. set w)" for ws
    by (induction "[CHR ''-'']" ws rule: join.induct) auto
  from this [of "split_on (CHR ''-'') N"] have "set N \<subseteq> insert (CHR ''-'') (\<Union>w\<in>set (split_on (CHR ''-'') N). set w)"
    by (simp only: join_split_on)
  ultimately show "CHR ''/'' \<notin> set N" by auto
  then show "last N \<noteq> CHR ''/''" using \<open>N \<noteq> []\<close> last_in_set by metis
qed

lemma last_path_join: "b \<noteq> [] \<Longrightarrow> path_join a b \<noteq> [] \<and> last (path_join a b) = last b"
  by (simp add: path_join_def)

text \<open>
  Claim C35.  A name whose words between the dashes are letters and digits, and that is not taken,
  makes the six directories and the nine files, each filled with the name, and changes nothing
  else; no step fails.  The same name is refused the next time, and nothing is changed.
\<close>

theorem module_created:
  assumes "list_all isalnum (words (map lower_char name))" "M = path_join base (map lower_char name)"
    and "is_directory d (dirname M)" "d M = None" "\<forall>p. d (M @ ''/'' @ p) = None"
  shows "\<exists>out d'. create_module base [name] d = Inr (0, out, d')
    \<and> (\<forall>p. d' p = (if p \<in> {M, M @ ''/model'', M @ ''/test'', M @ ''/helper'', M @ ''/examples'', M @ ''/doc''} then Some Directory
        else case map_of (map (\<lambda>(file, t, values). (M @ file, t, values)) (module_files (map lower_char name))) p of
               None \<Rightarrow> d p
             | Some (t, values) \<Rightarrow> (case fill values t of Inl e \<Rightarrow> None | Inr text \<Rightarrow> Some (TextFile text))))
    \<and> (\<exists>err. create_module base [name] d' = Inr (2, err, d'))"
proof -
  define N where "N = map lower_char name"
  define d' where "d' = d ++ map_of (map (\<lambda>st. (target st, step_entry st)) (scaffold M N))"
  have alnum: "False \<notin> set (map isalnum (words N))" using assms(1) by (auto simp: N_def list_all_iff)
  note N = words_alnum [OF alnum]
  have M: "M \<noteq> []" "last M \<noteq> CHR ''/''" using last_path_join [OF N(1)] N(3) assms(2) by (simp_all add: N_def)
  note run = scaffold_runs [OF M N(2,1) assms(3-5), folded d'_def]
  note entries = scaffold_entries [OF M N(2,1)]
  have filled: "\<exists>text. fill vs t = Inr text" if "(fl, t, vs) \<in> set (module_files N)" for fl t vs
    using that by (intro fill_succeeds) (auto simp: module_files_def templates_have_keys dkeys_def guard_keys_def test_keys_def)
  have "d' p = (if p \<in> {M, M @ ''/model'', M @ ''/test'', M @ ''/helper'', M @ ''/examples'', M @ ''/doc''} then Some Directory
      else case map_of (map (\<lambda>(file, t, values). (M @ file, t, values)) (module_files N)) p of None \<Rightarrow> d p
           | Some (t, values) \<Rightarrow> (case fill values t of Inl e \<Rightarrow> None | Inr text \<Rightarrow> Some (TextFile text)))" for p
  proof (cases "map_of (map (\<lambda>(file, t, values). (M @ file, t, values)) (module_files N)) p")
    case (Some tv)
    obtain t vs where tv: "tv = (t, vs)" by fastforce
    from map_of_SomeD [OF Some] obtain fl where "(fl, t, vs) \<in> set (module_files N)" by (auto simp: tv)
    then obtain str where "fill vs t = Inr str" using filled by blast
    then show ?thesis unfolding d'_def map_add_def entries Some tv by simp
  qed (simp add: d'_def map_add_def entries)
  moreover have "\<exists>out. create_module base [name] d = Inr (0, out, d')"
    using alnum N(2) assms(2,4) run by (simp add: create_module_def N_def [symmetric] Let_def)
  moreover have "d' M = Some Directory" by (simp add: d'_def map_add_def entries)
  then have "\<exists>err. create_module base [name] d' = Inr (2, err, d')"
    using alnum N(2) assms(2) by (simp add: create_module_def N_def [symmetric] Let_def)
  ultimately show ?thesis unfolding N_def [symmetric] by blast
qed

theorem module_created_witness:
  "\<exists>out d'. create_module ''src'' [''My-Net''] [''src'' \<mapsto> Directory] = Inr (0, out, d')
    \<and> d' ''src/my-net/doc'' = Some Directory \<and> (\<exists>text. d' ''src/my-net/model/my-net.h'' = Some (TextFile text))"
proof -
  have name: "map lower_char ''My-Net'' = ''my-net''" by code_simp
  have alnum: "list_all isalnum (words (map lower_char ''My-Net''))" by code_simp
  have M: "''src/my-net'' = path_join ''src'' (map lower_char ''My-Net'')" by code_simp
  have src: "is_directory [''src'' \<mapsto> Directory] (dirname ''src/my-net'')" by code_simp
  have new: "[''src'' \<mapsto> Directory] ''src/my-net'' = None" "\<forall>p. [''src'' \<mapsto> Directory] (''src/my-net'' @ ''/'' @ p) = None" by simp_all
  obtain str where str: "fill (guard_keys ''my-net'' ''_H'') MODEL_H_TEMPLATE = Inr str"
    using fill_succeeds [of "guard_keys ''my-net'' ''_H''" MODEL_H_TEMPLATE] templates_have_keys(3) by (auto simp: guard_keys_def dkeys_def)
  obtain out d' where r: "create_module ''src'' [''My-Net''] [''src'' \<mapsto> Directory] = Inr (0, out, d')"
    and d': "d' p = (if p \<in> {''src/my-net'', ''src/my-net'' @ ''/model'', ''src/my-net'' @ ''/test'', ''src/my-net'' @ ''/helper'',
          ''src/my-net'' @ ''/examples'', ''src/my-net'' @ ''/doc''} then Some Directory
        else case map_of (map (\<lambda>(file, t, values). (''src/my-net'' @ file, t, values)) (module_files ''my-net'')) p of
               None \<Rightarrow> [''src'' \<mapsto> Directory] p
             | Some (t, values) \<Rightarrow> (case fill values t of Inl e \<Rightarrow> None | Inr text \<Rightarrow> Some (TextFile text)))" for p
    using module_created [OF alnum M src new] unfolding name by blast
  have "d' ''src/my-net/doc'' = Some Directory" by (simp add: d')
  moreover have "d' ''src/my-net/model/my-net.h'' = Some (TextFile str)" by (simp add: d' module_files_def str)
  ultimately show ?thesis using r by blast
qed

text \<open>Other names are refused, also the empty one, and a name with an empty word.\<close>

lemma bad_name_refused:
  "\<not> list_all isalnum (words (map lower_char name)) \<Longrightarrow> \<exists>err. create_module base [name] d = Inr (2, err, d)"
  by (auto simp: create_module_def Let_def list_all_iff image_iff)

lemma empty_word_refused: "create_module base [''a--b''] d = Inr (2, [''Module name should only contain alphanumeric characters and dashes''], d)"
proof -
  have "False \<in> set (map isalnum (words (map lower_char ''a--b'')))" by code_simp
  then show ?thesis by (simp add: create_module_def)
qed

text \<open>
  A name that begins with a digit is accepted, although the names of the include guard and of the
  classes then begin with it too; and the helper of one module has the guard of the model of another.
\<close>

lemma digit_first:
  "list_all isalnum (words ''3gpp-net'')" "guard_prefix ''3gpp-net'' @ ''_H'' = ''3GPP_NET_H''"
  "capitalized ''3gpp-net'' @ ''TestSuite'' = ''3gppNetTestSuite''"
  by code_simp+

lemma guards_clash: "guard_prefix (m @ ''-helper'') @ ''_H'' = guard_prefix m @ ''_HELPER_H''"
proof -
  have "guard_prefix ''-helper'' = ''_HELPER''" by code_simp
  moreover have "guard_prefix (a @ b) = guard_prefix a @ guard_prefix b" for a b by (simp add: guard_prefix_def)
  ultimately show ?thesis by simp
qed

end
