(* ===== verification/SmartPointer.thy ===== *)
theory SmartPointer
  imports PyPrelude
begin

text \<open>
  The types of the bindings that are smart pointers, the class \<open>SmartPointerTransformation\<close> of
  \<open>bindings/python/ns3modulegen_core_customizations.py\<close>, and the code that creates an object of the
  library.  The type handlers are those of pybindgen.
\<close>

section \<open>Names of types\<close>

definition endswith :: "string \<Rightarrow> string \<Rightarrow> bool" where
  "endswith s p = startswith (rev s) (rev p)"

text \<open>
  The pattern \<open>(ns3::|::ns3::|)Ptr<([^>]+)>\s*$\<close> at the beginning of the name: what stands
  between the brackets.
\<close>

definition ptr_match :: "string \<Rightarrow> string option" where
  "ptr_match nm =
     (case List.find (\<lambda>p. startswith nm (p @ ''Ptr<'')) [''ns3::'', ''::ns3::'', []] of
        None \<Rightarrow> None
      | Some p \<Rightarrow>
          let t = drop (length (p @ ''Ptr<'')) nm;
              inner = takeWhile (\<lambda>c. c \<noteq> CHR ''>'') t;
              rest = dropWhile (\<lambda>c. c \<noteq> CHR ''>'') t
          in if inner \<noteq> [] \<and> rest \<noteq> [] \<and> list_all is_space (tl rest) then Some inner else None)"

definition cut_const_before :: "string \<times> bool \<Rightarrow> string \<times> bool" where
  "cut_const_before x = (case x of (nm, c) \<Rightarrow> if startswith nm ''const '' then (drop 6 nm, True) else (nm, c))"

definition cut_const_behind :: "string \<times> bool \<Rightarrow> string \<times> bool" where
  "cut_const_behind x = (case x of (nm, c) \<Rightarrow> if endswith nm '' const'' then (take (length nm - 6) nm, True) else (nm, c))"

definition get_untransformed_type_traits :: "string \<Rightarrow> string option \<times> bool" where
  "get_untransformed_type_traits nm =
     (case ptr_match nm of
        None \<Rightarrow> (None, False)
      | Some group2 \<Rightarrow>
          let (name1, is_const) = cut_const_behind (cut_const_before (strip group2, False));
              new_name = name1 @ '' *''
          in (Some (if startswith new_name ''::'' then drop 2 new_name else new_name), is_const))"

definition get_untransformed_name :: "string \<Rightarrow> string option" where
  "get_untransformed_name nm = fst (get_untransformed_type_traits nm)"

text \<open>A handler: the keyword argument that is set to false, the type it is made for and the type it wraps.\<close>

datatype handler_class = ParameterClass | ReturnValueClass | OtherClass

definition create_type_handler :: "handler_class \<Rightarrow> string \<Rightarrow> py_error + (string \<times> string \<times> string)" where
  "create_type_handler k nm =
     rbind (case k of
              ParameterClass \<Rightarrow> Inr ''transfer_ownership''
            | ReturnValueClass \<Rightarrow> Inr ''caller_owns_return''
            | OtherClass \<Rightarrow> Inl AssertionError) (\<lambda>keyword.
       case get_untransformed_type_traits nm of
         (None, _) \<Rightarrow> Inl TypeError
       | (Some orig_ctype, is_const) \<Rightarrow>
           let base = take (length orig_ctype - 2) orig_ctype
           in Inr (keyword, (if is_const then ''ns3::Ptr< '' @ base @ '' const >'' else ''ns3::Ptr< '' @ base @ '' >''), orig_ctype))"

definition untransform :: "string \<Rightarrow> string \<Rightarrow> string" where
  "untransform untransformed_ctype expression =
     ''const_cast<'' @ untransformed_ctype @ ''> (ns3::PeekPointer ('' @ expression @ ''))''"

definition transform :: "string \<Rightarrow> string \<Rightarrow> py_error + string" where
  "transform untransformed_ctype expression =
     (if untransformed_ctype = [] then Inl IndexError
      else if last untransformed_ctype \<noteq> CHR ''*'' then Inl AssertionError
      else Inr (''ns3::Ptr< '' @ butlast untransformed_ctype @ '' > ('' @ expression @ '')''))"

section \<open>Correctness\<close>

text \<open>A name without anything that the transformation takes away.\<close>

definition bare_name :: "string \<Rightarrow> bool" where
  "bare_name n \<longleftrightarrow> n \<noteq> [] \<and> CHR ''>'' \<notin> set n \<and> \<not> is_space (hd n) \<and> \<not> is_space (last n) \<and> n \<noteq> ''const''
     \<and> \<not> startswith n ''const '' \<and> \<not> endswith n '' const'' \<and> \<not> startswith n '':''"

lemma strip_padded:
  assumes "list_all is_space b1" "list_all is_space b2" "x \<noteq> []" "\<not> is_space (hd x)" "\<not> is_space (last x)"
  shows "strip (b1 @ x @ b2) = x"
proof -
  have drop: "dropWhile is_space (b @ y @ z) = y @ z" if "list_all is_space b" "y \<noteq> []" "\<not> is_space (hd y)" for b y z
    using that by (induction b) (auto simp: neq_Nil_conv)
  have "dropWhile is_space (b1 @ x @ b2) = x @ b2" by (rule drop) (use assms in auto)
  moreover have "dropWhile is_space (rev b2 @ rev x @ []) = rev x @ []"
    by (rule drop) (use assms in \<open>auto simp: hd_rev\<close>)
  ultimately show ?thesis by (simp add: strip_def)
qed

lemma ptr_match_padded:
  assumes "p \<in> {''ns3::'', ''::ns3::'', []}" "CHR ''>'' \<notin> set inner" "inner \<noteq> []" "list_all is_space b"
  shows "ptr_match (p @ ''Ptr<'' @ inner @ ''>'' @ b) = Some inner"
proof -
  have "List.find (\<lambda>q. startswith (p @ ''Ptr<'' @ inner @ ''>'' @ b) (q @ ''Ptr<'')) [''ns3::'', ''::ns3::'', []] = Some p"
    using assms(1) by (auto simp: startswith_def)
  moreover have "takeWhile (\<lambda>c. c \<noteq> CHR ''>'') (inner @ CHR ''>'' # b) = inner"
    "dropWhile (\<lambda>c. c \<noteq> CHR ''>'') (inner @ CHR ''>'' # b) = CHR ''>'' # b"
    using assms(2) by (induction inner) auto
  ultimately show ?thesis using assms(3,4) by (simp add: ptr_match_def)
qed

text \<open>The three ways to write a pointer to a name, constant or not.\<close>

definition spellings :: "string \<Rightarrow> (string \<times> bool) list" where
  "spellings n = [(n, False), (''const '' @ n, True), (n @ '' const'', True)]"

lemma startswith_longer: "startswith (a @ b) p \<Longrightarrow> length p \<le> length a \<Longrightarrow> startswith a p"
  by (simp add: startswith_def)

lemma startswith_const:
  assumes "startswith (n @ '' const'') ''const ''" "n \<noteq> []" "n \<noteq> ''const''"
  shows "startswith n ''const ''"
proof (cases "length n \<ge> 6")
  case True
  then show ?thesis using assms(1) by (intro startswith_longer [of n]) simp_all
next
  case False
  moreover have "0 < length n" using assms(2) by simp
  ultimately have "length n = 1 \<or> length n = 2 \<or> length n = 3 \<or> length n = 4 \<or> length n = 5" by arith
  then show ?thesis using assms(1,3)
    by (auto simp: startswith_def length_Suc_conv numeral_2_eq_2 numeral_3_eq_3 eval_nat_numeral)
qed

lemma cut_spelling:
  assumes "bare_name n" "(s, c) \<in> set (spellings n)"
  shows "cut_const_behind (cut_const_before (s, False)) = (n, c)"
  using assms startswith_const [of n]
  by (auto simp: spellings_def cut_const_behind_def cut_const_before_def bare_name_def endswith_def startswith_def)

text \<open>
  A smart pointer is found in every spelling: with any prefix of the namespace, any white
  space inside and behind, and \<open>const\<close> before or behind the name; the type that is made for it is one
  spelling for all, from which the same type is read again.
\<close>

theorem smart_pointer_types:
  assumes "bare_name n" "(s, c) \<in> set (spellings n)" "p \<in> {''ns3::'', ''::ns3::'', []}"
    and "list_all is_space b1" "list_all is_space b2" "list_all is_space b3"
    and "nm = p @ ''Ptr<'' @ b1 @ s @ b2 @ ''>'' @ b3"
  shows "get_untransformed_type_traits nm = (Some (n @ '' *''), c)
    \<and> create_type_handler ParameterClass nm =
        Inr (''transfer_ownership'', ''ns3::Ptr< '' @ n @ (if c then '' const >'' else '' >''), n @ '' *'')
    \<and> get_untransformed_type_traits (''ns3::Ptr< '' @ n @ (if c then '' const >'' else '' >'')) = (Some (n @ '' *''), c)"
proof -
  have n: "n \<noteq> []" "CHR ''>'' \<notin> set n" "\<not> is_space (hd n)" "\<not> is_space (last n)" using assms(1) unfolding bare_name_def by blast+
  have ct: "\<not> is_space (CHR ''c'')" "\<not> is_space (CHR ''t'')" "\<not> is_space (CHR ''>'')" by (simp_all add: is_space_def)
  have read: "get_untransformed_type_traits (q @ ''Ptr<'' @ a1 @ t @ a2 @ ''>'' @ a3) = (Some (n @ '' *''), d)"
    if "(t, d) \<in> set (spellings n)" "q \<in> {''ns3::'', ''::ns3::'', []}" "list_all is_space a1" "list_all is_space a2" "list_all is_space a3"
    for t d q a1 a2 a3
  proof -
    have t: "t \<noteq> []" "\<not> is_space (hd t)" "\<not> is_space (last t)" "CHR ''>'' \<notin> set t"
      using that(1) n ct by (auto simp: spellings_def)
    have "CHR ''>'' \<notin> set a1 \<union> set a2" using that(3,4) ct(3) unfolding list_all_iff by blast
    then have "ptr_match (q @ ''Ptr<'' @ (a1 @ t @ a2) @ ''>'' @ a3) = Some (a1 @ t @ a2)"
      using t that(2,5) by (intro ptr_match_padded) auto
    moreover have "strip (a1 @ t @ a2) = t" using that(3,4) t(1-3) by (rule strip_padded)
    moreover have "\<not> startswith (n @ '' *'') ''::''" using assms(1) by (cases n) (auto simp: bare_name_def startswith_def)
    ultimately show ?thesis using cut_spelling [OF assms(1) that(1)] by (simp add: get_untransformed_type_traits_def)
  qed
  have nm: "get_untransformed_type_traits nm = (Some (n @ '' *''), c)" unfolding assms(7) using assms(2-6) by (rule read)
  have "(if c then (n @ '' const'', True) else (n, False)) \<in> set (spellings n)" by (simp add: spellings_def)
  then have "get_untransformed_type_traits (''ns3::Ptr< '' @ n @ (if c then '' const >'' else '' >'')) = (Some (n @ '' *''), c)"
    using read [of n False "''ns3::''" "'' ''" "'' ''" "[]"] read [of "n @ '' const''" True "''ns3::''" "'' ''" "'' ''" "[]"]
    by (cases c) (simp_all add: spellings_def is_space_def)
  with nm show ?thesis by (simp add: create_type_handler_def)
qed

theorem smart_pointer_types_witness:
  "get_untransformed_type_traits ''Ptr<const Node >'' = (Some ''Node *'', True)
   \<and> create_type_handler ParameterClass ''Ptr<const Node >'' = Inr (''transfer_ownership'', ''ns3::Ptr< Node const >'', ''Node *'')"
proof -
  have "bare_name ''Node''" by code_simp
  moreover have "(''const Node'', True) \<in> set (spellings ''Node'')" by (simp add: spellings_def)
  moreover have "list_all is_space '' ''" by (simp add: is_space_def)
  ultimately show ?thesis
    using smart_pointer_types [of "''Node''" "''const Node''" True "[]" "[]" "'' ''" "[]" "''Ptr<const Node >''"] by simp
qed

text \<open>A type that is no smart pointer is left to the others, and cannot be made a handler for.\<close>

lemma no_smart_pointer:
  "ptr_match nm = None \<Longrightarrow> get_untransformed_name nm = None \<and> create_type_handler ParameterClass nm = Inl TypeError"
  by (simp add: get_untransformed_name_def get_untransformed_type_traits_def create_type_handler_def)

text \<open>A pointer to an instance of a template is none: the brackets must not be nested.\<close>

lemma nested_template: "ptr_match ''ns3::Ptr<ns3::Tag<int> >'' = None"
  by code_simp

section \<open>Creating an object\<close>

text \<open>
  \<open>ns3_object_instance_creation_function\<close>: the lines of code.  The message for a class that cannot
  be constructed has two places and is given one value, which raises \<open>TypeError\<close> instead.
\<close>

datatype creation_error = TypeErrorRaised | AssertionRaised | CodeGenerationError string

record cpp_class =
  full_name :: string
  cannot_be_constructed :: bool
  incomplete_type :: bool

definition instance_creation :: "cpp_class \<Rightarrow> string \<Rightarrow> string \<Rightarrow> string \<Rightarrow> creation_error + string list" where
  "instance_creation cls lvalue parameters construct_type_name =
     (if lvalue = [] \<or> startswith lvalue ''None'' then Inl AssertionRaised
      else if cannot_be_constructed cls then Inl TypeErrorRaised
      else if incomplete_type cls
        then Inl (CodeGenerationError (full_name cls @ '' cannot be constructed (incomplete type)''))
      else Inr [lvalue @ '' = new '' @ construct_type_name @ ''('' @ parameters @ '');'', lvalue @ ''->Ref ();''])"

lemma never_the_error:
  "lvalue \<noteq> [] \<Longrightarrow> \<not> startswith lvalue ''None'' \<Longrightarrow> cannot_be_constructed cls \<Longrightarrow>
    instance_creation cls lvalue parameters construct_type_name = Inl TypeErrorRaised"
  by (simp add: instance_creation_def)

end
