(* ===== verification/ShellCmd.thy ===== *)
theory ShellCmd
  imports PyDict PyPath "HOL-Library.Sublist"
begin

text \<open>
  The shell command interpreter of the build (\<open>waf-tools/shellcmd.py\<close>): the tokenizer
  \<open>shlex.split\<close> it uses, the parser \<open>Pipeline.parse\<close> with its six states, the display form
  \<open>get_abbreviated_command\<close> and the interpreter \<open>Pipeline.run\<close>.  The processes and files are
  the operating system's: \<open>run\<close> takes a \<open>world\<close> that tells which launches and opens succeed and
  how each process exits, and returns the log of what it did, from which the files and the pipe
  ends that it opened and closed are read.
\<close>

section \<open>Data\<close>

text \<open>What \<open>stdout\<close> and \<open>stderr\<close> of a command hold: a file name or one of the two constants.\<close>

datatype redirect = ToFile string | PIPE_CONST | STDOUT_CONST

record command =
  name :: string
  argv :: "string list"
  stdin :: "string option"
  stdout :: "redirect option"
  stderr :: "redirect option"
  env_vars :: "(string, string) dict option"

datatype node = Pipe | And | Or | CommandNode command | Chdir "string option"

definition new_command :: "string \<Rightarrow> command" where
  "new_command nm = \<lparr>name = nm, argv = [nm], stdin = None, stdout = None, stderr = None, env_vars = None\<rparr>"

section \<open>Tokens\<close>

definition is_name_char :: "char \<Rightarrow> bool" where
  "is_name_char c = (let n = (of_char c :: nat)
     in (97 \<le> n \<and> n \<le> 122) \<or> (65 \<le> n \<and> n \<le> 90) \<or> (48 \<le> n \<and> n \<le> 57) \<or> n = 95)"

text \<open>
  \<open>env_var_rx\<close>, the pattern \<open>^([a-zA-Z0-9_]+)=(\S+)$\<close>: since no name character is the equals
  sign the name is the longest run, and the end anchor lets one final line feed pass.
\<close>

definition env_var_match :: "string \<Rightarrow> (string \<times> string) option" where
  "env_var_match token =
     (let nm = takeWhile is_name_char token;
          rest = dropWhile is_name_char token
      in if nm \<noteq> [] \<and> rest \<noteq> [] \<and> hd rest = CHR ''='' then
           let value = (if last rest = CHR 0x0A then butlast (tl rest) else tl rest)
           in if value \<noteq> [] \<and> list_all (\<lambda>c. \<not> is_space c) value then Some (nm, value) else None
         else None)"

text \<open>
  \<open>shlex.split\<close>: POSIX mode, split at blanks only, no comments.  The state \<open>InQuote q\<close> is inside
  quotes, \<open>Escaped\<close> is behind a backslash, with the quote it must return to.
\<close>

datatype shlex_state = Start | InWord | InQuote char | Escaped "char option"

fun shlex_go :: "shlex_state \<Rightarrow> string \<Rightarrow> bool \<Rightarrow> string \<Rightarrow> py_error + string list" where
  "shlex_go Start token quoted [] = Inr []"
| "shlex_go InWord token quoted [] = Inr (if token \<noteq> [] \<or> quoted then [token] else [])"
| "shlex_go (InQuote q) token quoted [] = Inl ValueError"
| "shlex_go (Escaped e) token quoted [] = Inl ValueError"
| "shlex_go Start token quoted (c # cs) =
     (if c \<in> set [CHR '' '', CHR 0x09, CHR 0x0D, CHR 0x0A] then shlex_go Start [] False cs
      else if c = CHR 0x5C then shlex_go (Escaped None) [] False cs
      else if c = CHR 0x22 \<or> c = CHR 0x27 then shlex_go (InQuote c) [] False cs
      else shlex_go InWord [c] False cs)"
| "shlex_go InWord token quoted (c # cs) =
     (if c \<in> set [CHR '' '', CHR 0x09, CHR 0x0D, CHR 0x0A] then
        if token \<noteq> [] \<or> quoted then rbind (shlex_go Start [] False cs) (\<lambda>ts. Inr (token # ts))
        else shlex_go Start [] False cs
      else if c = CHR 0x22 \<or> c = CHR 0x27 then shlex_go (InQuote c) token quoted cs
      else if c = CHR 0x5C then shlex_go (Escaped None) token quoted cs
      else shlex_go InWord (token @ [c]) quoted cs)"
| "shlex_go (InQuote q) token quoted (c # cs) =
     (if c = q then shlex_go InWord token True cs
      else if c = CHR 0x5C \<and> q = CHR 0x22 then shlex_go (Escaped (Some q)) token True cs
      else shlex_go (InQuote q) (token @ [c]) True cs)"
| "shlex_go (Escaped None) token quoted (c # cs) = shlex_go InWord (token @ [c]) quoted cs"
| "shlex_go (Escaped (Some q)) token quoted (c # cs) =
     (if c \<noteq> CHR 0x5C \<and> c \<noteq> q then shlex_go (InQuote q) (token @ [CHR 0x5C, c]) quoted cs
      else shlex_go (InQuote q) (token @ [c]) quoted cs)"

definition shlex_split :: "string \<Rightarrow> py_error + string list" where
  "shlex_split s = shlex_go Start [] False s"

section \<open>The parser\<close>

datatype parse_state = BEGIN | COMMAND | CHDIR | STDERR | STDOUT | STDIN

record parser =
  state :: parse_state
  current_command :: "node option"
  pipeline :: "node list"
  pending_env :: "(string, string) dict"

definition commit_command :: "parser \<Rightarrow> py_error + parser" where
  "commit_command p =
     (case current_command p of
        None \<Rightarrow> Inl AssertionError
      | Some node \<Rightarrow> Inr (p\<lparr>pipeline := pipeline p @ [node], current_command := None\<rparr>))"

definition append_op :: "node \<Rightarrow> parser \<Rightarrow> py_error + parser" where
  "append_op op p = rbind (commit_command p) (\<lambda>p. Inr (p\<lparr>pipeline := pipeline p @ [op], state := BEGIN\<rparr>))"

definition begin_token :: "parser \<Rightarrow> string \<Rightarrow> py_error + parser" where
  "begin_token p token =
     (case env_var_match token of
        Some (key, value) \<Rightarrow> Inr (p\<lparr>pending_env := dset (pending_env p) key value\<rparr>)
      | None \<Rightarrow>
          if current_command p \<noteq> None then Inl AssertionError
          else if token = ''cd'' then
            if pending_env p \<noteq> [] then Inl AssertionError
            else Inr (p\<lparr>current_command := Some (Chdir None), state := CHDIR\<rparr>)
          else if pending_env p \<noteq> [] then
            Inr (p\<lparr>current_command := Some (CommandNode ((new_command token)\<lparr>env_vars := Some (pending_env p)\<rparr>)),
                  pending_env := [], state := COMMAND\<rparr>)
          else Inr (p\<lparr>current_command := Some (CommandNode (new_command token)), state := COMMAND\<rparr>))"

text \<open>Tokens in a command; \<open>set_command\<close> writes an attribute of the current command.\<close>

definition set_command :: "parser \<Rightarrow> command \<Rightarrow> parse_state \<Rightarrow> parser" where
  "set_command p c st = p\<lparr>current_command := Some (CommandNode c), state := st\<rparr>"

definition command_token :: "parser \<Rightarrow> command \<Rightarrow> string \<Rightarrow> py_error + parser" where
  "command_token p c token =
     (if token = ''>'' then Inr (p\<lparr>state := STDOUT\<rparr>)
      else if token = ''2>'' then Inr (p\<lparr>state := STDERR\<rparr>)
      else if token = ''2>&1'' then
        if stderr c \<noteq> None then Inl AssertionError
        else Inr (set_command p (c\<lparr>stderr := Some STDOUT_CONST\<rparr>) COMMAND)
      else if token = ''<'' then Inr (p\<lparr>state := STDIN\<rparr>)
      else if token = ''|'' then
        if stdout c \<noteq> None then Inl AssertionError
        else append_op Pipe (set_command p (c\<lparr>stdout := Some PIPE_CONST\<rparr>) COMMAND)
      else if token = ''&&'' then append_op And p
      else if token = ''||'' then append_op Or p
      else Inr (set_command p (c\<lparr>argv := argv c @ [token]\<rparr>) COMMAND))"

definition redirect_token :: "parser \<Rightarrow> command \<Rightarrow> string \<Rightarrow> py_error + parser" where
  "redirect_token p c token =
     (case state p of
        STDOUT \<Rightarrow> if stdout c \<noteq> None then Inl AssertionError
                   else Inr (set_command p (c\<lparr>stdout := Some (ToFile token)\<rparr>) COMMAND)
      | STDERR \<Rightarrow> if stderr c \<noteq> None then Inl AssertionError
                   else Inr (set_command p (c\<lparr>stderr := Some (ToFile token)\<rparr>) COMMAND)
      | _ \<Rightarrow> if stdin c \<noteq> None then Inl AssertionError
                   else Inr (set_command p (c\<lparr>stdin := Some token\<rparr>) COMMAND))"

definition chdir_token :: "parser \<Rightarrow> string option \<Rightarrow> string \<Rightarrow> py_error + parser" where
  "chdir_token p dir token =
     (if token = ''&&'' then append_op And p
      else if dir \<noteq> None then Inl AssertionError
      else Inr (p\<lparr>current_command := Some (Chdir (Some token))\<rparr>))"

text \<open>
  One turn of the loop.  Outside \<open>BEGIN\<close> the current command is there and of the right class;
  otherwise the attribute access of the code would raise.
\<close>

definition parse_step :: "parser \<Rightarrow> string \<Rightarrow> py_error + parser" where
  "parse_step p token =
     (case (state p, current_command p) of
        (BEGIN, _) \<Rightarrow> begin_token p token
      | (COMMAND, Some (CommandNode c)) \<Rightarrow> command_token p c token
      | (CHDIR, Some (Chdir dir)) \<Rightarrow> chdir_token p dir token
      | (STDOUT, Some (CommandNode c)) \<Rightarrow> redirect_token p c token
      | (STDERR, Some (CommandNode c)) \<Rightarrow> redirect_token p c token
      | (STDIN, Some (CommandNode c)) \<Rightarrow> redirect_token p c token
      | _ \<Rightarrow> Inl AttributeError)"

definition parse :: "string list \<Rightarrow> py_error + node list" where
  "parse tokens =
     rbind (for_each parse_step \<lparr>state = BEGIN, current_command = None, pipeline = [], pending_env = []\<rparr> tokens)
       (\<lambda>p. rbind (commit_command p) (\<lambda>p. Inr (pipeline p)))"

definition parse_text :: "string \<Rightarrow> py_error + node list" where
  "parse_text command = rbind (shlex_split command) parse"

definition abbreviate_node :: "node \<Rightarrow> string list" where
  "abbreviate_node node =
     (case node of
        CommandNode c \<Rightarrow> [name c]
      | Chdir dir \<Rightarrow> [''cd '' @ (case dir of None \<Rightarrow> ''None'' | Some d \<Rightarrow> d)]
      | Pipe \<Rightarrow> [''|'']
      | And \<Rightarrow> [''&&'']
      | Or \<Rightarrow> [])"

definition get_abbreviated_command :: "node list \<Rightarrow> string" where
  "get_abbreviated_command nodes = join '' '' (concat (map abbreviate_node nodes))"

section \<open>The interpreter\<close>

text \<open>Where a stream of a process goes, and what the interpreter asks of the operating system.\<close>

datatype stream = Inherit | Handle string | NewPipe | ToStdout | OutputOf nat

record popen =
  p_args :: "string list"
  p_stdin :: stream
  p_stdout :: stream
  p_stderr :: stream
  p_env :: "(string, string) dict option"
  p_cwd :: "string option"

datatype event = Open string | Close string | Launch popen | Wait nat | Print "string list" int

record world =
  can_open :: "string \<Rightarrow> bool"
  can_launch :: "nat \<Rightarrow> bool"
  exit_code :: "nat \<Rightarrow> int"
  environ :: "(string, string) dict"

datatype run_mode = RUN_BEGIN | RUN_PIPE

text \<open>
  The locals of \<open>run\<close>.  A file to close is \<open>None\<close> for the shared \<open>dev_null\<close>; \<open>launched\<close> counts
  the processes, which are numbered in the order of their launch.
\<close>

record runner =
  log :: "event list"
  files_to_close :: "string option list"
  piped_commands :: "nat list"
  display :: "string list"
  mode :: run_mode
  cwd :: string
  launched :: nat

definition show_if :: "bool \<Rightarrow> string \<Rightarrow> runner \<Rightarrow> runner" where
  "show_if verbose text r = (if verbose then r\<lparr>display := display r @ [text]\<rparr> else r)"

text \<open>\<open>open(filename, "r")\<close> and \<open>_open_out_file\<close>.\<close>

definition open_file :: "world \<Rightarrow> string \<Rightarrow> runner \<Rightarrow> py_error + stream \<times> runner" where
  "open_file w filename r =
     (if can_open w filename
      then Inr (Handle filename,
        r\<lparr>log := log r @ [Open filename], files_to_close := files_to_close r @ [Some filename]\<rparr>)
      else Inl FileNotFoundError)"

definition open_out_file :: "world \<Rightarrow> string \<Rightarrow> runner \<Rightarrow> py_error + stream \<times> runner" where
  "open_out_file w filename r =
     (if filename = ''NUL:'' \<or> filename = ''/dev/null''
      then Inr (Handle ''/dev/null'', r\<lparr>files_to_close := files_to_close r @ [None]\<rparr>)
      else open_file w filename r)"

definition choose_stdin :: "world \<Rightarrow> bool \<Rightarrow> command \<Rightarrow> runner \<Rightarrow> py_error + stream \<times> runner" where
  "choose_stdin w verbose cmd r =
     (if mode r = RUN_PIPE then
        if piped_commands r = [] then Inl IndexError else Inr (OutputOf (last (piped_commands r)), r)
      else case stdin cmd of
          None \<Rightarrow> Inr (Inherit, r)
        | Some filename \<Rightarrow>
            rbind (open_file w filename r) (\<lambda>(s, r). Inr (s, show_if verbose (''< '' @ filename) r)))"

definition choose_stdout :: "world \<Rightarrow> bool \<Rightarrow> command \<Rightarrow> runner \<Rightarrow> py_error + stream \<times> runner" where
  "choose_stdout w verbose cmd r =
     (case stdout cmd of
        None \<Rightarrow> Inr (Inherit, r)
      | Some PIPE_CONST \<Rightarrow> Inr (NewPipe, r)
      | Some STDOUT_CONST \<Rightarrow> Inl TypeError
      | Some (ToFile filename) \<Rightarrow>
          rbind (open_out_file w filename r) (\<lambda>(s, r). Inr (s, show_if verbose (''> '' @ filename) r)))"

definition choose_stderr :: "world \<Rightarrow> bool \<Rightarrow> command \<Rightarrow> runner \<Rightarrow> py_error + stream \<times> runner" where
  "choose_stderr w verbose cmd r =
     (case stderr cmd of
        None \<Rightarrow> Inr (Inherit, r)
      | Some PIPE_CONST \<Rightarrow> Inr (NewPipe, r)
      | Some STDOUT_CONST \<Rightarrow> Inr (ToStdout, show_if verbose ''2>&1'' r)
      | Some (ToFile filename) \<Rightarrow>
          rbind (open_out_file w filename r) (\<lambda>(s, r). Inr (s, show_if verbose (''2> '' @ filename) r)))"

definition show_command :: "command \<Rightarrow> string" where
  "show_command cmd =
     (case env_vars cmd of
        Some env \<Rightarrow> if env \<noteq> []
          then join '' '' (map (\<lambda>(key, val). key @ ''='' @ val) env) @ '' '' @ join '' '' (argv cmd)
          else join '' '' (argv cmd)
      | None \<Rightarrow> join '' '' (argv cmd))"

definition command_env :: "world \<Rightarrow> command \<Rightarrow> (string, string) dict option" where
  "command_env w cmd =
     (case env_vars cmd of
        Some env \<Rightarrow> if env \<noteq> [] then Some (foldl (\<lambda>d (key, val). dset d key val) (environ w) env) else None
      | None \<Rightarrow> None)"

text \<open>The part of the loop body from the display of the command to the launch of its process.\<close>

definition spawn :: "world \<Rightarrow> bool \<Rightarrow> command \<Rightarrow> runner \<Rightarrow> py_error + runner" where
  "spawn w verbose cmd r =
     rbind (choose_stdin w verbose cmd (show_if verbose (show_command cmd) r)) (\<lambda>(sin, r).
     rbind (choose_stdout w verbose cmd r) (\<lambda>(sout, r).
     rbind (choose_stderr w verbose cmd r) (\<lambda>(serr, r).
       let proc = \<lparr>p_args = argv cmd, p_stdin = sin, p_stdout = sout, p_stderr = serr,
                   p_env = command_env w cmd, p_cwd = (if cwd r = ''.'' then None else Some (cwd r))\<rparr>
       in if can_launch w (launched r)
          then Inr (r\<lparr>log := log r @ [Launch proc], piped_commands := piped_commands r @ [launched r],
                      launched := Suc (launched r)\<rparr>)
          else Inl FileNotFoundError)))"

text \<open>\<open>_exec_piped_commands\<close>: wait for all, then the last status if any is not zero.\<close>

definition exec_piped_commands :: "world \<Rightarrow> nat list \<Rightarrow> int" where
  "exec_piped_commands w commands =
     (let retvals = map (exit_code w) commands
      in if list_ex (\<lambda>r. r \<noteq> 0) retvals then last retvals else 0)"

definition close_event :: "string option \<Rightarrow> event list" where
  "close_event f = (case f of None \<Rightarrow> [] | Some filename \<Rightarrow> [Close filename])"

definition wait_and_close :: "event list \<Rightarrow> runner \<Rightarrow> runner" where
  "wait_and_close shown r =
     r\<lparr>log := log r @ map Wait (piped_commands r) @ shown @ concat (map close_event (files_to_close r)),
       files_to_close := []\<rparr>"

text \<open>
  After the waits of \<open>&&\<close> and \<open>||\<close> the verbose code prints \<open>retval\<close>, a local it only binds at
  the end of the command line: that raises \<open>UnboundLocalError\<close>.
\<close>

fun run_loop :: "world \<Rightarrow> bool \<Rightarrow> runner \<Rightarrow> node list \<Rightarrow> py_error + int option \<times> runner" where
  "run_loop w verbose r [] = Inr (None, r)"
| "run_loop w verbose r [Chdir dir] = Inl IndexError"
| "run_loop w verbose r (Chdir dir # next_op # rest) =
     (if next_op \<noteq> And then Inl AssertionError
      else case dir of
        None \<Rightarrow> Inl TypeError
      | Some d \<Rightarrow> run_loop w verbose
          (show_if verbose (''cd '' @ d @ '' &&'') (r\<lparr>cwd := path_join (cwd r) d\<rparr>)) rest)"
| "run_loop w verbose r [CommandNode cmd] =
     rbind (spawn w verbose cmd r) (\<lambda>r.
       let retval = exec_piped_commands w (piped_commands r)
       in Inr (Some retval, wait_and_close (if verbose then [Print (display r) retval] else []) r))"
| "run_loop w verbose r (CommandNode cmd # next_node # rest) =
     rbind (spawn w verbose cmd r) (\<lambda>r.
       case next_node of
         Pipe \<Rightarrow> run_loop w verbose (r\<lparr>mode := RUN_PIPE, display := display r @ [''|'']\<rparr>) rest
       | Or \<Rightarrow>
           let this_retval = exec_piped_commands w (piped_commands r);
               r = wait_and_close [] r
           in if verbose then Inl UnboundLocalError
              else if this_retval = 0 then Inr (Some this_retval, r)
              else run_loop w verbose (r\<lparr>mode := RUN_BEGIN, piped_commands := [], display := []\<rparr>) rest
       | And \<Rightarrow>
           let this_retval = exec_piped_commands w (piped_commands r);
               r = wait_and_close [] r
           in if verbose then Inl UnboundLocalError
              else if this_retval \<noteq> 0 then Inr (Some this_retval, r)
              else run_loop w verbose (r\<lparr>mode := RUN_BEGIN, piped_commands := [], display := []\<rparr>) rest
       | _ \<Rightarrow> run_loop w verbose r rest)"
| "run_loop w verbose r (op # rest) = Inl AssertionError"

definition start_runner :: runner where
  "start_runner = \<lparr>log = [], files_to_close = [], piped_commands = [], display = [],
     mode = RUN_BEGIN, cwd = ''.'', launched = 0\<rparr>"

definition run :: "world \<Rightarrow> bool \<Rightarrow> node list \<Rightarrow> py_error + int option \<times> runner" where
  "run w verbose nodes = run_loop w verbose start_runner nodes"

section \<open>Correctness of the parser\<close>

text \<open>
  The command lines the parser produces: commands and operators alternate, the line ends with a
  command, the output of a command is the pipe constant exactly where a pipe follows, and
  nothing but \<open>&&\<close> follows a \<open>cd\<close>.
\<close>

definition operators :: "string list" where
  "operators = [''>'', ''2>'', ''2>&1'', ''<'', ''|'', ''&&'', ''||'']"

definition wf_binding :: "string \<times> string \<Rightarrow> bool" where
  "wf_binding b = (case b of (key, val) \<Rightarrow>
     key \<noteq> [] \<and> list_all is_name_char key \<and> val \<noteq> [] \<and> list_all (\<lambda>c. \<not> is_space c) val)"

definition wf_env :: "(string, string) dict \<Rightarrow> bool" where
  "wf_env env = (dict_inv env \<and> list_all wf_binding env)"

definition wf_command :: "command \<Rightarrow> bool" where
  "wf_command c =
     (argv c \<noteq> [] \<and> hd (argv c) = name c \<and> list_all (\<lambda>a. a \<notin> set operators) (tl (argv c))
      \<and> name c \<noteq> ''cd'' \<and> env_var_match (name c) = None
      \<and> stdout c \<noteq> Some STDOUT_CONST \<and> stderr c \<noteq> Some PIPE_CONST
      \<and> (case env_vars c of None \<Rightarrow> True | Some env \<Rightarrow> env \<noteq> [] \<and> wf_env env))"

definition wf_pair :: "node \<Rightarrow> node \<Rightarrow> bool" where
  "wf_pair n op =
     (case n of
        CommandNode c \<Rightarrow> wf_command c \<and> op \<in> set [Pipe, And, Or] \<and> (op = Pipe \<longleftrightarrow> stdout c = Some PIPE_CONST)
      | Chdir d \<Rightarrow> op = And \<and> d \<noteq> Some ''&&''
      | _ \<Rightarrow> False)"

definition wf_last :: "node \<Rightarrow> bool" where
  "wf_last n =
     (case n of CommandNode c \<Rightarrow> wf_command c \<and> stdout c \<noteq> Some PIPE_CONST | Chdir d \<Rightarrow> d \<noteq> Some ''&&'' | _ \<Rightarrow> False)"

fun wf_prefix :: "node list \<Rightarrow> bool" where
  "wf_prefix [] = True"
| "wf_prefix [n] = False"
| "wf_prefix (n # op # rest) = (wf_pair n op \<and> wf_prefix rest)"

fun wf_nodes :: "node list \<Rightarrow> bool" where
  "wf_nodes [] = False"
| "wf_nodes [n] = wf_last n"
| "wf_nodes (n # op # rest) = (wf_pair n op \<and> wf_nodes rest)"

lemma wf_prefix_snoc: "wf_prefix ns \<Longrightarrow> wf_pair n op \<Longrightarrow> wf_prefix (ns @ [n, op])"
  by (induction ns rule: wf_prefix.induct) auto

lemma wf_nodes_snoc: "wf_prefix ns \<Longrightarrow> wf_last n \<Longrightarrow> wf_nodes (ns @ [n])"
  by (induction ns rule: wf_prefix.induct) auto

lemma equals_no_name_char [simp]: "\<not> is_name_char (CHR ''='')"
  by (simp add: is_name_char_def)

lemma env_var_match_binding:
  assumes "wf_binding (key, val)"
  shows "env_var_match (key @ ''='' @ val) = Some (key, val)"
proof -
  have "last val \<noteq> CHR 0x0A"
    using assms line_feed_space last_in_set [of val] unfolding wf_binding_def list_all_iff prod.case by metis
  moreover have "takeWhile is_name_char (key @ ''='' @ val) = key"
    "dropWhile is_name_char (key @ ''='' @ val) = ''='' @ val"
    using assms by (simp_all add: wf_binding_def takeWhile_append2 dropWhile_append2 list_all_iff)
  ultimately show ?thesis using assms by (simp add: env_var_match_def wf_binding_def Let_def)
qed

lemma env_var_match_wf: "env_var_match token = Some (key, val) \<Longrightarrow> wf_binding (key, val)"
  by (auto simp: env_var_match_def wf_binding_def Let_def list_all_iff
      dest: set_takeWhileD split: if_splits)

definition parser_ok :: "parser \<Rightarrow> bool" where
  "parser_ok p \<longleftrightarrow> wf_prefix (pipeline p) \<and>
     (case state p of
        BEGIN \<Rightarrow> current_command p = None \<and> wf_env (pending_env p)
      | CHDIR \<Rightarrow> (\<exists>d. current_command p = Some (Chdir d) \<and> d \<noteq> Some ''&&'') \<and> pending_env p = []
      | _ \<Rightarrow> (\<exists>c. current_command p = Some (CommandNode c) \<and> wf_command c \<and> stdout c \<noteq> Some PIPE_CONST)
           \<and> pending_env p = [])"

lemma wf_env_Nil [simp]: "wf_env []"
  by (simp add: wf_env_def)

lemma wf_env_dset: "wf_env env \<Longrightarrow> wf_binding (key, val) \<Longrightarrow> wf_env (dset env key val)"
  using set_dset [of env key val] by (auto simp: wf_env_def list_all_iff)

lemma append_op_ok:
  assumes "append_op op p = Inr p'" "wf_prefix (pipeline p)" "current_command p = Some n" "wf_pair n op"
    "pending_env p = []"
  shows "parser_ok p'"
  using assms wf_prefix_snoc [OF assms(2,4)]
  by (auto simp: append_op_def commit_command_def parser_ok_def)

lemma wf_new_command:
  "env_var_match token = None \<Longrightarrow> token \<noteq> ''cd'' \<Longrightarrow> wf_command (new_command token)"
  by (simp add: wf_command_def new_command_def)

lemma parse_step_ok:
  assumes "parser_ok p" "parse_step p token = Inr p'"
  shows "parser_ok p'"
proof (cases "state p")
  case BEGIN
  with assms have p: "wf_prefix (pipeline p)" "current_command p = None" "wf_env (pending_env p)"
    and run: "begin_token p token = Inr p'" by (auto simp: parser_ok_def parse_step_def)
  show ?thesis
  proof (cases "env_var_match token")
    case None
    with run p wf_new_command [OF None] show ?thesis
      by (auto simp: begin_token_def parser_ok_def wf_command_def new_command_def split: if_splits)
  next
    case (Some kv)
    with run p BEGIN show ?thesis
      by (cases kv) (auto simp: begin_token_def parser_ok_def wf_env_dset env_var_match_wf)
  qed
next
  case COMMAND
  with assms(1) obtain c where c: "current_command p = Some (CommandNode c)" "wf_command c"
    "stdout c \<noteq> Some PIPE_CONST" "wf_prefix (pipeline p)" "pending_env p = []" by (auto simp: parser_ok_def)
  with COMMAND assms(2) have run: "command_token p c token = Inr p'" by (simp add: parse_step_def)
  consider "token = ''|''" | "token = ''&&''" | "token = ''||''" | "token \<notin> {''|'', ''&&'', ''||''}" by blast
  then show ?thesis
  proof cases
    case 1
    with run c show ?thesis
      by (auto simp: command_token_def set_command_def wf_pair_def wf_command_def split: if_splits elim!: append_op_ok)
  next
    case 4
    with run c show ?thesis
      by (auto simp: command_token_def set_command_def parser_ok_def wf_command_def operators_def split: if_splits)
  qed (use run c in \<open>auto simp: command_token_def wf_pair_def elim!: append_op_ok\<close>)
next
  case CHDIR
  with assms show ?thesis
    by (auto simp: parse_step_def parser_ok_def chdir_token_def wf_pair_def split: if_splits)
      (auto simp: append_op_def commit_command_def wf_pair_def intro!: wf_prefix_snoc)
qed (use assms in \<open>auto simp: parse_step_def parser_ok_def redirect_token_def set_command_def wf_command_def split: if_splits\<close>)

lemma parse_wf:
  assumes "parse tokens = Inr nodes"
  shows "wf_nodes nodes"
proof -
  obtain p p' where p: "for_each parse_step \<lparr>state = BEGIN, current_command = None, pipeline = [], pending_env = []\<rparr> tokens = Inr p"
    "commit_command p = Inr p'" "nodes = pipeline p'" using assms by (auto simp: parse_def rbind_Inr_iff)
  have "parser_ok \<lparr>state = BEGIN, current_command = None, pipeline = [], pending_env = []\<rparr>"
    by (simp add: parser_ok_def)
  then have "parser_ok p" by (rule for_each_preserves [OF p(1)]) (rule parse_step_ok)
  then show ?thesis using p(2,3)
    by (auto simp: parser_ok_def commit_command_def wf_last_def split: option.splits parse_state.splits intro!: wf_nodes_snoc)
qed

text \<open>A command line back as tokens.\<close>

definition binding_token :: "string \<times> string \<Rightarrow> string" where
  "binding_token b = (case b of (key, val) \<Rightarrow> key @ ''='' @ val)"

definition redirect_tokens :: "string \<Rightarrow> redirect option \<Rightarrow> string list" where
  "redirect_tokens op r =
     (case r of Some (ToFile f) \<Rightarrow> [op, f] | Some STDOUT_CONST \<Rightarrow> [op @ ''&1''] | _ \<Rightarrow> [])"

definition node_tokens :: "node \<Rightarrow> string list" where
  "node_tokens n =
     (case n of
        Pipe \<Rightarrow> [''|''] | And \<Rightarrow> [''&&''] | Or \<Rightarrow> [''||'']
      | Chdir d \<Rightarrow> ''cd'' # (case d of None \<Rightarrow> [] | Some dir \<Rightarrow> [dir])
      | CommandNode c \<Rightarrow>
          (case env_vars c of None \<Rightarrow> [] | Some env \<Rightarrow> map binding_token env) @ argv c
          @ (case stdin c of None \<Rightarrow> [] | Some f \<Rightarrow> [''<'', f])
          @ redirect_tokens ''>'' (stdout c) @ redirect_tokens ''2>'' (stderr c))"

definition render :: "node list \<Rightarrow> string list" where
  "render nodes = concat (map node_tokens nodes)"

text \<open>How the parser reads each part of a rendered command.\<close>

abbreviation (input) at_begin :: "node list \<Rightarrow> (string, string) dict \<Rightarrow> parser" where
  "at_begin ns env \<equiv> \<lparr>state = BEGIN, current_command = None, pipeline = ns, pending_env = env\<rparr>"

abbreviation (input) in_command :: "node list \<Rightarrow> command \<Rightarrow> parser" where
  "in_command ns c \<equiv> \<lparr>state = COMMAND, current_command = Some (CommandNode c), pipeline = ns, pending_env = []\<rparr>"

lemma read_bindings:
  "dict_inv (env @ env') \<Longrightarrow> list_all wf_binding env' \<Longrightarrow>
   for_each parse_step (at_begin ns env) (map binding_token env') = Inr (at_begin ns (env @ env'))"
proof (induction env' arbitrary: env)
  case (Cons b env')
  obtain key val where b: "b = (key, val)" by (cases b)
  have "dget env key = None"
    using Cons.prems(1) by (auto simp: b dict_inv_def dkeys_def dget_def map_of_eq_None_iff)
  then have "parse_step (at_begin ns env) (binding_token b) = Inr (at_begin ns (env @ [b]))"
    using Cons.prems(2) env_var_match_binding [of key val]
    by (simp add: parse_step_def begin_token_def binding_token_def b dset_new)
  with Cons show ?case by simp
qed simp

lemma read_args:
  "list_all (\<lambda>a. a \<notin> set operators) args \<Longrightarrow>
   for_each parse_step (in_command ns c) args = Inr (in_command ns (c\<lparr>argv := argv c @ args\<rparr>))"
  by (induction args arbitrary: c) (simp_all add: parse_step_def command_token_def set_command_def operators_def)

lemma read_redirects:
  assumes "stdin c = None" "stdout c = None" "stderr c = None" "out \<noteq> Some STDOUT_CONST" "err \<noteq> Some PIPE_CONST"
  shows "for_each parse_step (in_command ns c)
      ((case inp of None \<Rightarrow> [] | Some f \<Rightarrow> [''<'', f]) @ redirect_tokens ''>'' out @ redirect_tokens ''2>'' err)
    = Inr (in_command ns (c\<lparr>stdin := inp, stdout := if out = Some PIPE_CONST then None else out, stderr := err\<rparr>))"
  using assms
  by (cases inp; cases out; cases err)
    (auto simp: redirect_tokens_def parse_step_def command_token_def redirect_token_def set_command_def
      split: redirect.splits)

lemma read_name:
  assumes "wf_command c"
  shows "for_each parse_step (at_begin ns [])
      ((case env_vars c of None \<Rightarrow> [] | Some env \<Rightarrow> map binding_token env) @ [name c])
    = Inr (in_command ns ((new_command (name c))\<lparr>env_vars := env_vars c\<rparr>))"
proof (cases "env_vars c")
  case None
  with assms show ?thesis
    by (simp add: wf_command_def parse_step_def begin_token_def new_command_def)
next
  case (Some env)
  with assms have "env \<noteq> []" "wf_env env" by (simp_all add: wf_command_def)
  with assms Some read_bindings [of "[]" env ns] show ?thesis
    by (simp add: wf_command_def wf_env_def for_each_append parse_step_def begin_token_def)
qed

lemma read_command:
  assumes "wf_command c"
  shows "for_each parse_step (at_begin ns []) (node_tokens (CommandNode c))
    = Inr (in_command ns (c\<lparr>stdout := if stdout c = Some PIPE_CONST then None else stdout c\<rparr>))"
proof -
  from assms obtain rest where argv: "argv c = name c # rest" "list_all (\<lambda>a. a \<notin> set operators) rest"
    by (cases "argv c") (auto simp: wf_command_def)
  have "for_each parse_step (at_begin ns []) (node_tokens (CommandNode c)) =
     rbind (for_each parse_step (at_begin ns [])
        ((case env_vars c of None \<Rightarrow> [] | Some env \<Rightarrow> map binding_token env) @ [name c])) (\<lambda>p.
     rbind (for_each parse_step p rest) (\<lambda>p. for_each parse_step p
       ((case stdin c of None \<Rightarrow> [] | Some f \<Rightarrow> [''<'', f])
        @ redirect_tokens ''>'' (stdout c) @ redirect_tokens ''2>'' (stderr c))))"
    by (simp add: node_tokens_def argv for_each_append rbind_assoc)
  also have "\<dots> = for_each parse_step
      (in_command ns ((new_command (name c))\<lparr>env_vars := env_vars c, argv := name c # rest\<rparr>))
      ((case stdin c of None \<Rightarrow> [] | Some f \<Rightarrow> [''<'', f])
        @ redirect_tokens ''>'' (stdout c) @ redirect_tokens ''2>'' (stderr c))"
    unfolding read_name [OF assms] by (simp add: read_args argv(2)) (simp add: new_command_def)
  also have "\<dots> = Inr (in_command ns (c\<lparr>stdout := if stdout c = Some PIPE_CONST then None else stdout c\<rparr>))"
    using assms argv by (subst read_redirects) (auto simp: new_command_def wf_command_def)
  finally show ?thesis .
qed

lemma read_chdir:
  "d \<noteq> Some ''&&'' \<Longrightarrow> for_each parse_step (at_begin ns []) (node_tokens (Chdir d))
    = Inr \<lparr>state = CHDIR, current_command = Some (Chdir d), pipeline = ns, pending_env = []\<rparr>"
proof -
  have "env_var_match ''cd'' = None" by code_simp
  then show "d \<noteq> Some ''&&'' \<Longrightarrow> ?thesis"
    by (cases d) (auto simp: node_tokens_def parse_step_def begin_token_def chdir_token_def)
qed

lemma read_pair:
  assumes "wf_pair n op"
  shows "for_each parse_step (at_begin ns []) (node_tokens n @ node_tokens op) = Inr (at_begin (ns @ [n, op]) [])"
proof (cases n)
  case (CommandNode c)
  with assms have "wf_command c" "op \<in> {Pipe, And, Or}" "op = Pipe \<longleftrightarrow> stdout c = Some PIPE_CONST"
    by (auto simp: wf_pair_def)
  with CommandNode show ?thesis
    by (auto simp: for_each_append read_command)
      (auto simp: node_tokens_def parse_step_def command_token_def set_command_def append_op_def commit_command_def)
next
  case (Chdir d)
  with assms show ?thesis
    by (auto simp: wf_pair_def for_each_append read_chdir)
      (auto simp: node_tokens_def parse_step_def chdir_token_def append_op_def commit_command_def)
qed (use assms in \<open>simp_all add: wf_pair_def\<close>)

lemma parse_render:
  "wf_nodes nodes \<Longrightarrow>
   rbind (for_each parse_step (at_begin ns []) (render nodes)) (\<lambda>p. rbind (commit_command p) (\<lambda>p. Inr (pipeline p)))
     = Inr (ns @ nodes)"
proof (induction nodes arbitrary: ns rule: wf_nodes.induct)
  case (2 n)
  then show ?case
    by (cases n) (auto simp: render_def read_command read_chdir wf_last_def commit_command_def)
next
  case (3 n op rest)
  have "render (n # op # rest) = (node_tokens n @ node_tokens op) @ render rest" by (simp add: render_def)
  with 3 show ?case by (simp only: for_each_append [of _ _ "_ @ _"] read_pair wf_nodes.simps) simp
qed simp

text \<open>
  Claim C22.  The parser and its language.  The lists of nodes that \<open>parse\<close> returns are exactly the
  well-formed command lines (commands and operators alternate, an output is the pipe constant
  exactly before a pipe, only \<open>&&\<close> follows \<open>cd\<close>, no operator token is an argument, environment
  bindings are non-empty and stand before the command name), and every such line is accepted: written
  as tokens and parsed it gives the same nodes back, which holds of no other list of nodes.
\<close>

theorem parse_language:
  "((\<exists>tokens. parse tokens = Inr nodes) \<longleftrightarrow> wf_nodes nodes) \<and> (parse (render nodes) = Inr nodes \<longleftrightarrow> wf_nodes nodes)"
  using parse_wf [of _ nodes] parse_render [of nodes "[]"] by (auto simp: parse_def)

section \<open>Correctness of the interpreter\<close>

lemma exec_piped_last: "commands \<noteq> [] \<Longrightarrow> exec_piped_commands w commands = exit_code w (last commands)"
  by (cases commands rule: rev_cases) (auto simp: exec_piped_commands_def Let_def)

definition opened_files :: "event list \<Rightarrow> string list" where
  "opened_files es = concat (map (\<lambda>e. case e of Open f \<Rightarrow> [f] | _ \<Rightarrow> []) es)"

definition closed_files :: "event list \<Rightarrow> string list" where
  "closed_files es = concat (map (\<lambda>e. case e of Close f \<Rightarrow> [f] | _ \<Rightarrow> []) es)"

definition waited :: "event list \<Rightarrow> nat list" where
  "waited es = concat (map (\<lambda>e. case e of Wait n \<Rightarrow> [n] | _ \<Rightarrow> []) es)"

definition launches :: "event list \<Rightarrow> popen list" where
  "launches es = concat (map (\<lambda>e. case e of Launch p \<Rightarrow> [p] | _ \<Rightarrow> []) es)"

named_theorems event_simps

lemma event_lists [event_simps]:
  "opened_files [] = []" "opened_files (es @ fs) = opened_files es @ opened_files fs"
  "closed_files [] = []" "closed_files (es @ fs) = closed_files es @ closed_files fs"
  "waited [] = []" "waited (es @ fs) = waited es @ waited fs"
  "launches [] = []" "launches (es @ fs) = launches es @ launches fs"
  by (simp_all add: opened_files_def closed_files_def waited_def launches_def)

lemma event_single [event_simps]:
  "opened_files [e] = (case e of Open f \<Rightarrow> [f] | _ \<Rightarrow> [])"
  "closed_files [e] = (case e of Close f \<Rightarrow> [f] | _ \<Rightarrow> [])"
  "waited [e] = (case e of Wait n \<Rightarrow> [n] | _ \<Rightarrow> [])"
  "launches [e] = (case e of Launch p \<Rightarrow> [p] | _ \<Rightarrow> [])"
  by (simp_all add: opened_files_def closed_files_def waited_def launches_def)

lemma event_maps [event_simps]:
  "opened_files (map Wait ns) = []" "closed_files (map Wait ns) = []"
  "waited (map Wait ns) = ns" "launches (map Wait ns) = []"
  by (induction ns) (simp_all add: opened_files_def closed_files_def waited_def launches_def)

lemma event_closes [event_simps]:
  "opened_files (concat (map close_event fs)) = []" "waited (concat (map close_event fs)) = []"
  "launches (concat (map close_event fs)) = []"
  "closed_files (concat (map close_event fs)) = List.map_filter id fs"
  by (induction fs) (auto simp: event_simps close_event_def List.map_filter_simps split: option.splits)

text \<open>Files that are open, and processes not yet waited for, are the ones the locals name.\<close>

definition accounted :: "runner \<Rightarrow> bool" where
  "accounted r \<longleftrightarrow>
     mset (opened_files (log r)) = mset (closed_files (log r)) + mset (List.map_filter id (files_to_close r))
     \<and> waited (log r) @ piped_commands r = [0..<launched r]
     \<and> length (launches (log r)) = launched r"

lemma accounted_show [simp]: "accounted (show_if verbose text r) \<longleftrightarrow> accounted r"
  by (simp add: show_if_def accounted_def)

lemma accounted_open:
  "open_file w f r = Inr (s, r') \<Longrightarrow> accounted r \<Longrightarrow> accounted r'"
  "open_out_file w f r = Inr (s, r') \<Longrightarrow> accounted r \<Longrightarrow> accounted r'"
  by (auto simp: open_file_def open_out_file_def accounted_def map_filter_snoc event_simps split: if_splits)

lemma accounted_choose:
  "choose_stdin w v cmd r = Inr (s, r') \<Longrightarrow> accounted r \<Longrightarrow> accounted r'"
  "choose_stdout w v cmd r = Inr (s, r') \<Longrightarrow> accounted r \<Longrightarrow> accounted r'"
  "choose_stderr w v cmd r = Inr (s, r') \<Longrightarrow> accounted r \<Longrightarrow> accounted r'"
  by (auto simp: choose_stdin_def choose_stdout_def choose_stderr_def rbind_Inr_iff
      split: if_splits option.splits redirect.splits dest: accounted_open)

lemma accounted_spawn:
  assumes "spawn w v cmd r = Inr r'" "accounted r"
  shows "accounted r'"
proof -
  obtain s1 r1 s2 r2 s3 r3 where steps: "choose_stdin w v cmd (show_if v (show_command cmd) r) = Inr (s1, r1)"
    "choose_stdout w v cmd r1 = Inr (s2, r2)" "choose_stderr w v cmd r2 = Inr (s3, r3)"
    and r': "\<exists>p. r' = r3\<lparr>log := log r3 @ [Launch p], piped_commands := piped_commands r3 @ [launched r3],
        launched := Suc (launched r3)\<rparr>"
    using assms(1) by (auto simp: spawn_def rbind_Inr_iff Let_def split: if_splits)
  have "accounted r3"
    using accounted_choose(3) [OF steps(3) accounted_choose(2) [OF steps(2) accounted_choose(1) [OF steps(1)]]] assms(2)
    by simp
  with r' show ?thesis by (auto simp: accounted_def event_simps)
qed

definition all_done :: "runner \<Rightarrow> bool" where
  "all_done r \<longleftrightarrow> mset (opened_files (log r)) = mset (closed_files (log r))
     \<and> waited (log r) = [0..<launched r] \<and> length (launches (log r)) = launched r"

lemma all_done_wait:
  "accounted r \<Longrightarrow> all_done (wait_and_close (if v then [Print t n] else []) r)"
  "accounted r \<Longrightarrow> all_done (wait_and_close [] r)"
  by (auto simp: accounted_def all_done_def wait_and_close_def event_simps)

lemma accounted_next:
  "accounted r \<Longrightarrow> accounted ((wait_and_close [] r)\<lparr>mode := m, piped_commands := [], display := d\<rparr>)"
  by (auto simp: accounted_def wait_and_close_def event_simps List.map_filter_simps)

lemma run_loop_done:
  "run_loop w v r nodes = Inr (Some status, r') \<Longrightarrow> accounted r \<Longrightarrow> all_done r'"
proof (induction w v r nodes rule: run_loop.induct)
  case (3 w v r dir next_op rest)
  then show ?case by (auto simp: accounted_def show_if_def split: if_splits option.splits)
next
  case (4 w v r cmd)
  then show ?case by (auto simp: rbind_Inr_iff Let_def all_done_wait dest!: accounted_spawn)
next
  case (5 w v r cmd next_node rest)
  then obtain r1 where r1: "spawn w v cmd r = Inr r1" "accounted r1"
    using accounted_spawn by (auto simp: rbind_Inr_iff)
  have "accounted (r1\<lparr>mode := RUN_PIPE, display := d\<rparr>)" for d using r1(2) by (simp add: accounted_def)
  with 5 r1 show ?case
    by (cases next_node) (auto simp: Let_def all_done_wait accounted_next split: if_splits)
qed auto

lemma run_done:
  assumes "run w verbose nodes = Inr (Some status, r)"
  shows "mset (opened_files (log r)) = mset (closed_files (log r))" "waited (log r) = [0..<length (launches (log r))]"
  using run_loop_done [OF assms [unfolded run_def]]
  by (auto simp: accounted_def all_done_def start_runner_def event_simps List.map_filter_simps)

text \<open>The commands of a line, which are every second node, and what is launched for one.\<close>

fun commands :: "node list \<Rightarrow> command list" where
  "commands [CommandNode c] = [c]"
| "commands (CommandNode c # op # rest) = c # commands rest"
| "commands (Chdir d # op # rest) = commands rest"
| "commands _ = []"

definition launched_for :: "popen \<Rightarrow> command \<Rightarrow> bool" where
  "launched_for p c \<longleftrightarrow> p_args p = argv c \<and> (p_stdout p = NewPipe \<longleftrightarrow> stdout c = Some PIPE_CONST)
     \<and> (p_stderr p = NewPipe \<longleftrightarrow> stderr c = Some PIPE_CONST)"

lemma choose_launches:
  "choose_stdin w v cmd r = Inr (s, r') \<Longrightarrow> launches (log r') = launches (log r)"
  "choose_stdout w v cmd r = Inr (s, r') \<Longrightarrow> launches (log r') = launches (log r) \<and> (s = NewPipe \<longleftrightarrow> stdout cmd = Some PIPE_CONST)"
  "choose_stderr w v cmd r = Inr (s, r') \<Longrightarrow> launches (log r') = launches (log r) \<and> (s = NewPipe \<longleftrightarrow> stderr cmd = Some PIPE_CONST)"
  by (auto simp: choose_stdin_def choose_stdout_def choose_stderr_def open_file_def open_out_file_def show_if_def
      rbind_Inr_iff event_simps split: if_splits option.splits redirect.splits)

lemma spawn_launches:
  assumes "spawn w v cmd r = Inr r'"
  shows "\<exists>p. launches (log r') = launches (log r) @ [p] \<and> launched_for p cmd"
proof -
  obtain s1 r1 s2 r2 s3 r3 where steps: "choose_stdin w v cmd (show_if v (show_command cmd) r) = Inr (s1, r1)"
    "choose_stdout w v cmd r1 = Inr (s2, r2)" "choose_stderr w v cmd r2 = Inr (s3, r3)"
    and p: "log r' = log r3 @ [Launch \<lparr>p_args = argv cmd, p_stdin = s1, p_stdout = s2, p_stderr = s3,
      p_env = command_env w cmd, p_cwd = (if cwd r3 = ''.'' then None else Some (cwd r3))\<rparr>]"
    using assms by (auto simp: spawn_def rbind_Inr_iff Let_def split: if_splits)
  from choose_launches(1) [OF steps(1)] choose_launches(2) [OF steps(2)] choose_launches(3) [OF steps(3)] p
  show ?thesis by (auto simp: launched_for_def event_simps show_if_def)
qed

lemma launches_wait [simp]: "launches (log (wait_and_close shown r)) = launches (log r) @ launches shown"
  by (simp add: wait_and_close_def event_simps)

text \<open>A run launches a number of the commands, in their order.\<close>

definition launches_some :: "runner \<Rightarrow> runner \<Rightarrow> node list \<Rightarrow> bool" where
  "launches_some r r' nodes =
     (\<exists>ps k. launches (log r') = launches (log r) @ ps \<and> list_all2 launched_for ps (take k (commands nodes)))"

lemma launches_one:
  assumes "spawn w v cmd r = Inr r1" "launches (log r') = launches (log r1)" "commands nodes = cmd # cs"
  shows "launches_some r r' nodes"
  using spawn_launches [OF assms(1)] assms(2,3) unfolding launches_some_def
  by (metis (no_types) list_all2_Cons list_all2_Nil take_0 take_Suc_Cons)

lemma launches_next:
  assumes "spawn w v cmd r = Inr r1" "launches_some r2 r' rest" "launches (log r2) = launches (log r1)"
  shows "launches_some r r' (CommandNode cmd # n # rest)"
proof -
  from spawn_launches [OF assms(1)] obtain p where "launches (log r1) = launches (log r) @ [p]" "launched_for p cmd" by blast
  moreover from assms(2) obtain ps k where "launches (log r') = launches (log r2) @ ps"
    "list_all2 launched_for ps (take k (commands rest))" by (auto simp: launches_some_def)
  ultimately show ?thesis using assms(3) unfolding launches_some_def
    by (intro exI [of _ "p # ps"] exI [of _ "Suc k"]) simp
qed

lemma run_loop_launches:
  "run_loop w v r nodes = Inr (Some status, r') \<Longrightarrow> launches_some r r' nodes"
proof (induction w v r nodes rule: run_loop.induct)
  case (3 w v r dir next_op rest)
  then show ?case by (auto simp: launches_some_def show_if_def split: if_splits option.splits)
next
  case (4 w v r cmd)
  then obtain r1 where "spawn w v cmd r = Inr r1" "launches (log r') = launches (log r1)"
    by (auto simp: rbind_Inr_iff Let_def event_simps)
  then show ?case by (rule launches_one) simp
next
  case (5 w v r cmd next_node rest)
  then obtain r1 where r1: "spawn w v cmd r = Inr r1" by (auto simp: rbind_Inr_iff)
  have one: "launches_some r (wait_and_close [] r1) (CommandNode cmd # next_node # rest)"
    by (rule launches_one [OF r1]) (simp_all add: event_simps)
  let ?next = "(wait_and_close [] r1)\<lparr>mode := RUN_BEGIN, piped_commands := [], display := []\<rparr>"
  have more: "launches_some r r' (CommandNode cmd # next_node # rest)"
    if "launches_some r2 r' rest" "r2 \<in> {r1, r1\<lparr>mode := RUN_PIPE, display := display r1 @ [''|'']\<rparr>, ?next}" for r2
    by (rule launches_next [OF r1 that(1)]) (use that(2) in \<open>auto simp: event_simps\<close>)
  show ?case
  proof (cases next_node)
    case Pipe
    with 5 r1 show ?thesis by (intro more [of "r1\<lparr>mode := RUN_PIPE, display := display r1 @ [''|'']\<rparr>"]) auto
  next
    case And
    have "launches_some ?next r' rest" if "exec_piped_commands w (piped_commands r1) = 0"
      using 5 r1 And that by (auto simp: Let_def split: if_splits)
    with 5 r1 one more [of ?next] And show ?thesis by (auto simp: Let_def split: if_splits)
  next
    case Or
    have "launches_some ?next r' rest" if "exec_piped_commands w (piped_commands r1) \<noteq> 0"
      using 5 r1 Or that by (auto simp: Let_def split: if_splits)
    with 5 r1 one more [of ?next] Or show ?thesis by (auto simp: Let_def split: if_splits)
  next
    case (CommandNode x)
    with 5 r1 show ?thesis by (intro more [of r1]) auto
  next
    case (Chdir d)
    with 5 r1 show ?thesis by (intro more [of r1]) auto
  qed
qed auto

lemma run_launches:
  assumes "run w verbose nodes = Inr (Some status, r)"
  shows "length (launches (log r)) = launched r"
    "list_all2 launched_for (launches (log r)) (take (launched r) (commands nodes))"
proof -
  show len: "length (launches (log r)) = launched r"
    using run_loop_done [OF assms [unfolded run_def]]
    by (auto simp: accounted_def all_done_def start_runner_def event_simps List.map_filter_simps)
  obtain k where k: "list_all2 launched_for (launches (log r)) (take k (commands nodes))"
    using run_loop_launches [OF assms [unfolded run_def]] by (auto simp: launches_some_def start_runner_def event_simps)
  with len have "min (length (commands nodes)) k = launched r" by (auto dest: list_all2_lengthD)
  then have "take k (commands nodes) = take (launched r) (commands nodes)" by (cases "k \<le> length (commands nodes)") auto
  with k show "list_all2 launched_for (launches (log r)) (take (launched r) (commands nodes))" by simp
qed

text \<open>
  What a run holds open: a file for each \<open>open\<close>, and for each process that \<open>Popen\<close> makes with a pipe the
  end of the pipe on this side, \<open>proc.stdout\<close>.  The number is that of the next process.
\<close>

datatype open_handle = FileHandle string | OutPipe nat | ErrPipe nat

definition pipe_ends :: "nat \<Rightarrow> bool \<Rightarrow> bool \<Rightarrow> open_handle list" where
  "pipe_ends n out err = (if out then [OutPipe n] else []) @ (if err then [ErrPipe n] else [])"

fun opened_handles :: "nat \<Rightarrow> event list \<Rightarrow> open_handle list" where
  "opened_handles n [] = []"
| "opened_handles n (Open f # es) = FileHandle f # opened_handles n es"
| "opened_handles n (Launch p # es) =
     pipe_ends n (p_stdout p = NewPipe) (p_stderr p = NewPipe) @ opened_handles (Suc n) es"
| "opened_handles n (e # es) = opened_handles n es"

definition closed_handles :: "event list \<Rightarrow> open_handle list" where
  "closed_handles es = map FileHandle (closed_files es)"

fun pipes_of :: "nat \<Rightarrow> command list \<Rightarrow> open_handle list" where
  "pipes_of n [] = []"
| "pipes_of n (c # cs) = pipe_ends n (stdout c = Some PIPE_CONST) (stderr c = Some PIPE_CONST) @ pipes_of (Suc n) cs"

lemma opened_handles_split:
  "list_all2 launched_for (launches es) cs \<Longrightarrow>
   mset (opened_handles n es) = mset (map FileHandle (opened_files es)) + mset (pipes_of n cs)"
proof (induction n es arbitrary: cs rule: opened_handles.induct)
  case (3 n p es)
  then obtain c cs' where "cs = c # cs'" "launched_for p c" "list_all2 launched_for (launches es) cs'"
    by (auto simp: launches_def list_all2_Cons1)
  moreover have "opened_files (Launch p # es) = opened_files es" by (simp add: opened_files_def)
  moreover note 3(1) [OF calculation(3)]
  ultimately show ?case by (simp add: launched_for_def)
qed (auto simp: opened_files_def launches_def)

text \<open>
  Claim C24.  Whenever \<open>run\<close> returns a status, on any list of nodes and whatever the commands
  exit with, it has started the first commands of the line, some number of them, in order and with their arguments, and
  has waited for each of them exactly once, in that order.  Of what it opened, every
  file has been closed, as often as it was opened; what it leaves open are exactly its ends of the
  pipes, one for each output of a started command that is a pipe.
\<close>

theorem run_closes_files:
  assumes "run w verbose nodes = Inr (Some status, r)"
  shows "\<exists>cs. prefix cs (commands nodes) \<and> list_all2 launched_for (launches (log r)) cs \<and> waited (log r) = [0..<length cs]
    \<and> mset (opened_handles 0 (log r)) = mset (closed_handles (log r)) + mset (pipes_of 0 cs)"
proof -
  note cs = run_launches(2) [OF assms]
  from run_done [OF assms] opened_handles_split [OF cs, of 0] cs show ?thesis
    by (intro exI [of _ "take (launched r) (commands nodes)"])
      (simp add: take_is_prefix closed_handles_def list_all2_lengthD [OF cs])
qed

definition plain_world :: world where
  "plain_world = \<lparr>can_open = \<lambda>f. True, can_launch = \<lambda>n. True, exit_code = \<lambda>n. if n = 0 then 1 else 0, environ = []\<rparr>"

text \<open>\<open>a < in | b\<close>: the file is closed, the pipe is not.\<close>

definition piped_line :: "node list" where
  "piped_line = [CommandNode ((new_command ''a'')\<lparr>stdin := Some ''in'', stdout := Some PIPE_CONST\<rparr>), Pipe, CommandNode (new_command ''b'')]"

theorem run_closes_files_witness:
  "\<exists>r. run plain_world False piped_line = Inr (Some 0, r) \<and> opened_handles 0 (log r) = [FileHandle ''in'', OutPipe 0]
    \<and> closed_handles (log r) = [FileHandle ''in''] \<and> waited (log r) = [0, 1]"
proof -
  have "case run plain_world False piped_line of Inr (Some st, r) \<Rightarrow>
      st = 0 \<and> opened_handles 0 (log r) = [FileHandle ''in'', OutPipe 0] \<and> closed_handles (log r) = [FileHandle ''in'']
      \<and> length (launches (log r)) = 2 | _ \<Rightarrow> False" by code_simp
  then obtain r where r: "run plain_world False piped_line = Inr (Some 0, r)"
      "opened_handles 0 (log r) = [FileHandle ''in'', OutPipe 0]" "closed_handles (log r) = [FileHandle ''in'']"
      "length (launches (log r)) = 2" by (auto split: sum.splits option.splits)
  from run_closes_files [OF r(1)] have "waited (log r) = [0..<length (launches (log r))]"
    by (auto dest: list_all2_lengthD)
  with r show ?thesis by (auto simp: numeral_2_eq_2)
qed

text \<open>
  What a command line means: the status of a pipeline is that of its last command, and the line
  ends with the first \<open>&&\<close> behind a failure or \<open>||\<close> behind a success.  The second component
  is the number of processes started when the first is number \<open>n\<close>.
\<close>

fun outcome :: "(nat \<Rightarrow> int) \<Rightarrow> nat \<Rightarrow> node list \<Rightarrow> int \<times> nat" where
  "outcome exits n [CommandNode c] = (exits n, Suc n)"
| "outcome exits n (CommandNode c # op # rest) =
     (if (op = And \<and> exits n \<noteq> 0) \<or> (op = Or \<and> exits n = 0) then (exits n, Suc n)
      else outcome exits (Suc n) rest)"
| "outcome exits n (Chdir d # op # rest) = outcome exits n rest"
| "outcome exits n _ = (0, n)"

fun has_logical :: "node list \<Rightarrow> bool" where
  "has_logical (CommandNode c # op # rest) = (op \<noteq> Pipe \<or> has_logical rest)"
| "has_logical (Chdir d # op # rest) = has_logical rest"
| "has_logical _ = False"

text \<open>A line \<open>run\<close> can execute: each \<open>cd\<close> has a directory and a successor.\<close>

fun runnable :: "node list \<Rightarrow> bool" where
  "runnable [n] = (\<exists>c. n = CommandNode c)"
| "runnable (n # op # rest) = ((case n of Chdir d \<Rightarrow> d \<noteq> None | _ \<Rightarrow> True) \<and> runnable rest)"
| "runnable [] = False"

definition nothing_fails :: "world \<Rightarrow> bool" where
  "nothing_fails w \<longleftrightarrow> (\<forall>f. can_open w f) \<and> (\<forall>n. can_launch w n)"

lemma show_if_simps [simp]:
  "mode (show_if v t r) = mode r" "piped_commands (show_if v t r) = piped_commands r"
  "launched (show_if v t r) = launched r"
  by (simp_all add: show_if_def)

definition same_run :: "runner \<Rightarrow> runner \<Rightarrow> bool" where
  "same_run r r' \<longleftrightarrow> mode r' = mode r \<and> piped_commands r' = piped_commands r \<and> launched r' = launched r"

lemma choose_total:
  assumes "nothing_fails w"
  shows "(mode r = RUN_PIPE \<longrightarrow> piped_commands r \<noteq> []) \<Longrightarrow> \<exists>s r'. choose_stdin w v cmd r = Inr (s, r') \<and> same_run r r'"
    and "stdout cmd \<noteq> Some STDOUT_CONST \<Longrightarrow> \<exists>s r'. choose_stdout w v cmd r = Inr (s, r') \<and> same_run r r'"
    and "\<exists>s r'. choose_stderr w v cmd r = Inr (s, r') \<and> same_run r r'"
  using assms
  by (auto simp: nothing_fails_def same_run_def choose_stdin_def choose_stdout_def choose_stderr_def
      open_out_file_def open_file_def split: option.splits redirect.splits)

lemma spawn_total:
  assumes "nothing_fails w" "mode r = RUN_PIPE \<longrightarrow> piped_commands r \<noteq> []" "stdout cmd \<noteq> Some STDOUT_CONST"
  shows "\<exists>r'. spawn w v cmd r = Inr r' \<and> piped_commands r' = piped_commands r @ [launched r]
    \<and> launched r' = Suc (launched r)"
proof -
  obtain s1 r1 where 1: "choose_stdin w v cmd (show_if v (show_command cmd) r) = Inr (s1, r1)"
      "same_run (show_if v (show_command cmd) r) r1"
    using choose_total(1) [OF assms(1), of "show_if v (show_command cmd) r" v cmd] assms(2) by auto
  obtain s2 r2 where 2: "choose_stdout w v cmd r1 = Inr (s2, r2)" "same_run r1 r2"
    using choose_total(2) [OF assms(1,3)] by blast
  obtain s3 r3 where 3: "choose_stderr w v cmd r2 = Inr (s3, r3)" "same_run r2 r3"
    using choose_total(3) [OF assms(1)] by blast
  show ?thesis using 1 2 3 assms(1) by (simp add: spawn_def same_run_def nothing_fails_def Let_def)
qed

lemma wf_head_not_op [simp]:
  "\<not> wf_nodes (Pipe # rest)" "\<not> wf_nodes (And # rest)" "\<not> wf_nodes (Or # rest)"
  "\<not> wf_pair Pipe op" "\<not> wf_pair And op" "\<not> wf_pair Or op"
  by (cases rest; simp add: wf_last_def wf_pair_def)+

text \<open>What \<open>run\<close> needs of a line, whatever its arguments are.\<close>

fun alternating :: "node list \<Rightarrow> bool" where
  "alternating [CommandNode c] = (stdout c \<noteq> Some STDOUT_CONST)"
| "alternating (CommandNode c # op # rest) = (stdout c \<noteq> Some STDOUT_CONST \<and> op \<in> set [Pipe, And, Or] \<and> alternating rest)"
| "alternating (Chdir d # op # rest) = (d \<noteq> None \<and> op = And \<and> alternating rest)"
| "alternating _ = False"

lemma wf_alternating: "wf_nodes nodes \<Longrightarrow> runnable nodes \<Longrightarrow> alternating nodes"
  by (induction nodes rule: alternating.induct) (auto simp: wf_pair_def wf_last_def wf_command_def)

lemma run_loop_outcome:
  assumes "nothing_fails w"
  shows "alternating nodes \<Longrightarrow> (mode r = RUN_PIPE \<longrightarrow> piped_commands r \<noteq> []) \<Longrightarrow>
    if v \<and> has_logical nodes then run_loop w v r nodes = Inl UnboundLocalError
    else \<exists>r'. run_loop w v r nodes = Inr (Some (fst (outcome (exit_code w) (launched r) nodes)), r')
           \<and> launched r' = snd (outcome (exit_code w) (launched r) nodes)"
  using assms
proof (induction w v r nodes rule: run_loop.induct)
  case (4 w v r cmd)
  then have "stdout cmd \<noteq> Some STDOUT_CONST" by simp
  with spawn_total [OF 4(3,2)] obtain r1 where "spawn w v cmd r = Inr r1"
    "piped_commands r1 = piped_commands r @ [launched r]" "launched r1 = Suc (launched r)" by blast
  then show ?case by (simp add: Let_def exec_piped_last wait_and_close_def)
next
  case (5 w v r cmd next_node rest)
  then have "stdout cmd \<noteq> Some STDOUT_CONST" "alternating rest" "next_node \<in> {Pipe, And, Or}" by auto
  moreover from spawn_total [OF 5(8,7) this(1)] obtain r1 where r1: "spawn w v cmd r = Inr r1"
    "piped_commands r1 = piped_commands r @ [launched r]" "launched r1 = Suc (launched r)" by blast
  moreover have "exec_piped_commands w (piped_commands r1) = exit_code w (launched r)"
    using r1(2) by (simp add: exec_piped_last)
  ultimately show ?case using 5(1-3) [OF r1(1)] 5(8)
    by (cases next_node) (auto simp: Let_def wait_and_close_def split: if_splits)
qed auto

lemma run_outcome:
  assumes "nothing_fails w" "alternating nodes"
  shows "if v \<and> has_logical nodes then run w v nodes = Inl UnboundLocalError
    else \<exists>r. run w v nodes = Inr (Some (fst (outcome (exit_code w) 0 nodes)), r)
           \<and> launched r = snd (outcome (exit_code w) 0 nodes)"
proof -
  have s: "launched start_runner = 0" "mode start_runner = RUN_PIPE \<longrightarrow> piped_commands start_runner \<noteq> []"
    by (simp_all add: start_runner_def)
  from run_loop_outcome [OF assms s(2), of v] show ?thesis unfolding run_def s(1) .
qed

text \<open>
  Claim C23.  The status of a line: on every well-formed line whose \<open>cd\<close>s are complete, when no
  open and no launch fails, the quiet \<open>run\<close> returns the status of the last command of the
  pipeline that decides the line, and starts no process behind it.  Unlike a shell, \<open>&&\<close> behind a
  failure and \<open>||\<close> behind a success end the whole line.
\<close>

theorem run_status:
  assumes "nothing_fails w" "wf_nodes nodes" "runnable nodes"
  shows "\<exists>r. run w False nodes = Inr (Some (fst (outcome (exit_code w) 0 nodes)), r)
    \<and> launched r = snd (outcome (exit_code w) 0 nodes)"
  using run_outcome [OF assms(1) wf_alternating [OF assms(2,3)], of False] by simp

theorem run_status_witness:
  "\<exists>r. run plain_world False
      [CommandNode (new_command ''false''), And, CommandNode (new_command ''x''), Or, CommandNode (new_command ''y'')]
      = Inr (Some 1, r) \<and> launched r = 1"
  using run_status [of plain_world
      "[CommandNode (new_command ''false''), And, CommandNode (new_command ''x''), Or, CommandNode (new_command ''y'')]"]
  by (simp add: plain_world_def nothing_fails_def wf_pair_def wf_last_def wf_command_def new_command_def
      env_var_match_def is_name_char_def)

text \<open>
  The verbose \<open>run\<close> cannot execute \<open>&&\<close> or \<open>||\<close>: behind the first pipeline that one
  of them follows it reads the unbound \<open>retval\<close> and raises, whatever the commands return.
  A line of pipes alone returns the status of its last command.
\<close>

theorem run_verbose:
  assumes "nothing_fails w" "wf_nodes nodes" "runnable nodes"
  shows "if has_logical nodes then run w True nodes = Inl UnboundLocalError
    else \<exists>r. run w True nodes = Inr (Some (fst (outcome (exit_code w) 0 nodes)), r)"
  using run_outcome [OF assms(1) wf_alternating [OF assms(2,3)], of True] by auto

theorem run_verbose_witness:
  "run plain_world True [CommandNode (new_command ''a''), And, CommandNode (new_command ''b'')] = Inl UnboundLocalError"
  using run_verbose [of plain_world "[CommandNode (new_command ''a''), And, CommandNode (new_command ''b'')]"]
  by (simp add: plain_world_def nothing_fails_def wf_pair_def wf_last_def wf_command_def new_command_def
      env_var_match_def is_name_char_def)

text \<open>
  The display form of a command line drops every \<open>||\<close>: the branch meant for it tests for
  \<open>And\<close> a second time, so the line displays like the one without the operator.
\<close>

theorem abbreviation_drops_or:
  "get_abbreviated_command nodes = get_abbreviated_command (filter (\<lambda>n. n \<noteq> Or) nodes)"
proof -
  have "concat (map abbreviate_node nodes) = concat (map abbreviate_node (filter (\<lambda>n. n \<noteq> Or) nodes))"
    by (induction nodes) (auto simp: abbreviate_node_def)
  then show ?thesis by (simp add: get_abbreviated_command_def)
qed

end
