(* ===== verification/CommandTask.thy ===== *)
theory CommandTask
  imports ShellCmd
begin

text \<open>
  The task of the build that runs a command line, \<open>waf-tools/command.py\<close>: the line is parsed by
  \<open>shellcmd.py\<close>, the variables in its parts are replaced, and it is run.  What Python evaluates
  inside \<open>${ }\<close> is an argument.
\<close>

section \<open>Substitution\<close>

text \<open>
  \<open>arg_rx\<close>: two dollar signs, or a name and any code up to the first brace on the same line.  No
  name character is a brace, so the name is the longest run.
\<close>

datatype arg_match = Dollar | Subst string string

definition arg_match_at :: "string \<Rightarrow> (arg_match \<times> string) option" where
  "arg_match_at s =
     (if startswith s ''$$'' then Some (Dollar, drop 2 s)
      else if startswith s ''${'' then
        let var = takeWhile is_name_char (drop 2 s);
            rest = dropWhile is_name_char (drop 2 s);
            code = takeWhile (\<lambda>c. c \<noteq> CHR ''}'') rest;
            behind = dropWhile (\<lambda>c. c \<noteq> CHR ''}'') rest
        in if var \<noteq> [] \<and> behind \<noteq> [] \<and> CHR 0x0A \<notin> set code then Some (Subst var code, tl behind) else None
      else None)"

record build_node =
  srcpath :: string
  bldpath :: string
  abspath_bld :: string

text \<open>
  The values an expression can have: a node, the list of the inputs or of the outputs of the task
  itself, another list of strings, a string, or something else, which \<open>re.sub\<close> refuses.
\<close>

datatype subst_value = NodeValue build_node | TheInputs | TheOutputs | ListValue "string list" | TextValue string | OtherValue

record command_task =
  inputs :: "build_node list"
  outputs :: "build_node list"

type_synonym evaluator = "string \<Rightarrow> py_error + subst_value"

definition repl :: "evaluator \<Rightarrow> command_task \<Rightarrow> arg_match \<Rightarrow> py_error + string" where
  "repl ev t m =
     (case m of
        Dollar \<Rightarrow> Inr ''$''
      | Subst var code \<Rightarrow>
          rbind (ev (var @ code)) (\<lambda>result.
            case result of
              NodeValue n \<Rightarrow> if var = ''TGT'' then Inr (abspath_bld n) else if var = ''SRC'' then Inr (srcpath n) else Inl ValueError
            | TheInputs \<Rightarrow> (case inputs t of [n] \<Rightarrow> Inr (srcpath n) | _ \<Rightarrow> Inl ValueError)
            | TheOutputs \<Rightarrow> (case outputs t of [n] \<Rightarrow> Inr (abspath_bld n) | _ \<Rightarrow> Inl ValueError)
            | ListValue xs \<Rightarrow> (case xs of [x] \<Rightarrow> Inr x | _ \<Rightarrow> Inl AssertionError)
            | TextValue s \<Rightarrow> Inr s
            | OtherValue \<Rightarrow> Inl TypeError))"

lemma startswith_long: "startswith s p \<Longrightarrow> length p \<le> length s"
  unfolding startswith_def by (metis length_take min.cobounded1)

lemma arg_match_shorter:
  assumes "arg_match_at s = Some (m, rest)"
  shows "length rest < length s"
proof (cases "startswith s ''$$''")
  case True
  then show ?thesis using assms startswith_long [OF True] by (auto simp: arg_match_at_def)
next
  case False
  define behind where "behind = dropWhile (\<lambda>c. c \<noteq> CHR ''}'') (dropWhile is_name_char (drop 2 s))"
  have r: "rest = tl behind" "behind \<noteq> []"
    using assms False unfolding arg_match_at_def Let_def behind_def [symmetric] by (auto split: if_splits)
  have "length behind \<le> length (drop 2 s)"
    unfolding behind_def using length_dropWhile_le le_trans by blast
  then show ?thesis using r by (cases behind) auto
qed

function subst_arg :: "evaluator \<Rightarrow> command_task \<Rightarrow> string \<Rightarrow> py_error + string" where
  "subst_arg ev t [] = Inr []"
| "subst_arg ev t (c # cs) =
     (case arg_match_at (c # cs) of
        None \<Rightarrow> rbind (subst_arg ev t cs) (\<lambda>out. Inr (c # out))
      | Some (m, rest) \<Rightarrow> rbind (repl ev t m) (\<lambda>text. rbind (subst_arg ev t rest) (\<lambda>out. Inr (text @ out))))"
  by pat_completeness auto

termination
  by (relation "measure (\<lambda>(ev, t, s). length s)") (auto dest: arg_match_shorter)









definition task_str :: "command_task \<Rightarrow> string \<Rightarrow> py_error + string" where
  "task_str t text =
     rbind (parse_text text) (\<lambda>nodes.
       Inr (''command ('' @ get_abbreviated_command nodes @ ''): '' @ join '' '' (map bldpath (inputs t))
         @ (if outputs t \<noteq> [] then '' -> '' else []) @ join '' '' (map bldpath (outputs t))))"

section \<open>Correctness\<close>

text \<open>A text written with its dollar signs doubled is the text.\<close>

definition escape_dollars :: "string \<Rightarrow> string" where
  "escape_dollars s = concat (map (\<lambda>c. if c = CHR ''$'' then ''$$'' else [c]) s)"

lemma no_match: "c \<noteq> CHR ''$'' \<Longrightarrow> arg_match_at (c # cs) = None"
  by (simp add: arg_match_at_def startswith_def)

text \<open>
  Doubling the dollar signs of a text is undone by the substitution, whatever the
  variables are: every text can be written in a command.
\<close>

theorem escaped_text:
  "subst_arg ev t (escape_dollars s) = Inr s"
proof (induction s)
  case (Cons c s)
  show ?case
  proof (cases "c = CHR ''$''")
    case True
    have "arg_match_at (''$$'' @ escape_dollars s) = Some (Dollar, escape_dollars s)"
      by (simp add: arg_match_at_def startswith_def)
    then show ?thesis using True Cons by (simp add: escape_dollars_def repl_def)
  next
    case False
    then show ?thesis using Cons by (simp add: escape_dollars_def no_match)
  qed
qed (simp add: escape_dollars_def)
















text \<open>A list that is the inputs or the outputs of the task must have one element, and so must any other list.\<close>

lemma several_sources:
  "length (inputs t) \<noteq> 1 \<Longrightarrow> ev (var @ code) = Inr TheInputs \<Longrightarrow> repl ev t (Subst var code) = Inl ValueError"
  "length xs \<noteq> 1 \<Longrightarrow> ev (var @ code) = Inr (ListValue xs) \<Longrightarrow> repl ev t (Subst var code) = Inl AssertionError"
  by (auto simp: repl_def split: list.splits)

end
