(* ===== verification/CompilerFlags.thy ===== *)
theory CompilerFlags
  imports PyDict
begin

text \<open>
  The compiler flags of a build profile, \<open>waf-tools/cflags.py\<close>: the three classes of compilers, the
  profiles, and \<open>configure\<close> on the variables of the environment it reads and writes.
\<close>

section \<open>Compilers\<close>

datatype traits = GccTraits | IccTraits | MsvcTraits

definition warnings_flags :: "traits \<Rightarrow> string list list" where
  "warnings_flags c =
     (case c of
        GccTraits \<Rightarrow> [[''-Wall''], [''-Werror''], [''-Wextra'']]
      | IccTraits \<Rightarrow> [[], [], [''-Wall'']]
      | MsvcTraits \<Rightarrow> [[''/W2''], [''/WX''], [''/Wall'']])"

fun warnings_loop :: "string list list \<Rightarrow> nat list \<Rightarrow> string list \<Rightarrow> string list" where
  "warnings_loop flags [] ws = ws"
| "warnings_loop flags (l # ls) ws = (if l < length flags then warnings_loop flags ls (ws @ flags ! l) else ws)"

definition get_warnings_flags :: "traits \<Rightarrow> nat \<Rightarrow> string list" where
  "get_warnings_flags c level = warnings_loop (warnings_flags c) [0..<level] []"

text \<open>Above level 3 the method returns \<open>None\<close>.\<close>

definition get_optimization_flags :: "traits \<Rightarrow> nat \<Rightarrow> string list option" where
  "get_optimization_flags c level =
     (case c of
        MsvcTraits \<Rightarrow>
          (if level = 0 then Some [''/Od''] else if level = 1 then Some [] else if level = 2 then Some [''/O2'']
           else if level = 3 then Some [''/Ox''] else None)
      | _ \<Rightarrow>
          (if level = 0 then Some [''-O0''] else if level = 1 then Some [''-O''] else if level = 2 then Some [''-O2'']
           else if level = 3 then Some [''-O3''] else None))"

definition get_debug_flags :: "traits \<Rightarrow> nat \<Rightarrow> string list \<times> string list" where
  "get_debug_flags c level =
     (case c of
        MsvcTraits \<Rightarrow>
          (if level = 0 then ([], [''NDEBUG'']) else if level = 1 then ([''/ZI'', ''/RTC1''], [])
           else ([''/ZI'', ''/RTC1''], [''_DEBUG'']))
      | _ \<Rightarrow>
          (if level = 0 then ([''-g0''], [''NDEBUG'']) else if level = 1 then ([''-g''], [])
           else ([''-ggdb'', ''-g3''], [''_DEBUG''])))"

definition compiler_mapping :: "(string, traits) dict" where
  "compiler_mapping =
     [(''gcc'', GccTraits), (''g++'', GccTraits), (''msvc'', MsvcTraits), (''icc'', IccTraits), (''icpc'', IccTraits),
      (''clang'', GccTraits), (''clang++'', GccTraits)]"

text \<open>The levels of optimization, of warnings and of debugging.\<close>

definition profiles :: "(string, nat \<times> nat \<times> nat) dict" where
  "profiles = [(''default'', (2, 1, 1)), (''debug'', (0, 2, 3)), (''release'', (3, 1, 0))]"

section \<open>The configuration\<close>

record build_env =
  compiler_cc :: string
  compiler_cxx :: string
  ccflags :: "string list"
  ccdefines :: "string list"
  cxxflags :: "string list"
  cxxdefines :: "string list"

text \<open>\<open>list.remove\<close> in a \<open>try\<close>: the first one goes, if there is one.\<close>

definition without_werror :: "bool \<Rightarrow> string list \<Rightarrow> string list" where
  "without_werror disable_werror ws = (if disable_werror then remove1 ''-Werror'' ws else ws)"

definition add_flags :: "string list \<Rightarrow> string list \<Rightarrow> string list \<Rightarrow> string list \<Rightarrow> build_env \<Rightarrow> build_env" where
  "add_flags optimizations debug ws debug_defs e =
     (let e = (if compiler_cc e \<noteq> [] \<and> ccflags e = []
               then e\<lparr>ccflags := ccflags e @ optimizations @ debug @ ws, ccdefines := ccdefines e @ debug_defs\<rparr> else e)
      in if compiler_cxx e \<noteq> [] \<and> cxxflags e = []
         then e\<lparr>cxxflags := cxxflags e @ optimizations @ debug @ ws, cxxdefines := cxxdefines e @ debug_defs\<rparr> else e)"

definition find_compiler :: "build_env \<Rightarrow> traits option" where
  "find_compiler e =
     (case dget compiler_mapping (compiler_cc e) of Some c \<Rightarrow> Some c | None \<Rightarrow> dget compiler_mapping (compiler_cxx e))"

text \<open>
  Without a compiler it raises \<open>WafError\<close>; a compiler that is not in the table gets a warning and no
  flags.  A level that has no optimization flags would append \<open>None\<close>, which raises.
\<close>

definition configure :: "string \<Rightarrow> bool \<Rightarrow> build_env \<Rightarrow> py_error + build_env" where
  "configure build_profile disable_werror e =
     (if compiler_cc e = [] \<and> compiler_cxx e = [] then Inl (PlainException ''neither COMPILER_CC nor COMPILER_CXX are defined'')
      else case find_compiler e of
        None \<Rightarrow> Inr e
      | Some compiler \<Rightarrow>
          (case dget profiles build_profile of
             None \<Rightarrow> Inl KeyError
           | Some (opt_level, warn_level, dbg_level) \<Rightarrow>
               let (debug, debug_defs) = get_debug_flags compiler dbg_level;
                   ws = without_werror disable_werror (get_warnings_flags compiler warn_level)
               in (case get_optimization_flags compiler opt_level of
                     None \<Rightarrow> Inl TypeError
                   | Some optimizations \<Rightarrow> Inr (add_flags optimizations debug ws debug_defs e))))"

section \<open>Correctness\<close>

text \<open>The warnings are cumulative, and a level above the last adds nothing.\<close>

lemma warnings_cumulative: "get_warnings_flags c level = concat (take level (warnings_flags c))"
proof -
  have "warnings_loop flags [l..<l + n] ws = ws @ concat (take n (drop l flags))" for flags l n ws
  proof (induction n arbitrary: l ws)
    case (Suc n)
    have u: "[l..<l + Suc n] = l # [Suc l..<Suc l + n]" by (simp add: upt_conv_Cons del: upt_Suc)
    show ?case
    proof (cases "l < length flags")
      case True
      then have "drop l flags = flags ! l # drop (Suc l) flags" by (simp add: Cons_nth_drop_Suc)
      then show ?thesis unfolding u using True Suc [of "Suc l"] by (simp del: upt_Suc)
    next
      case False
      then show ?thesis unfolding u by (simp del: upt_Suc)
    qed
  qed simp
  from this [of "warnings_flags c" 0 level "[]"] show ?thesis by (simp add: get_warnings_flags_def)
qed

lemma profiles_have_flags:
  assumes "dget profiles p = Some (opt, warn, dbg)"
  obtains fs where "get_optimization_flags c opt = Some fs" "fs \<noteq> []"
  using assms by (cases c) (auto simp: profiles_def dget_def get_optimization_flags_def split: if_splits)

text \<open>
  For a profile of the table \<open>configure\<close> succeeds for every compiler; flags that are set
  in the environment are left as they are, and a second \<open>configure\<close> changes nothing.
\<close>

theorem configure_once:
  assumes "compiler_cc e \<noteq> [] \<or> compiler_cxx e \<noteq> []" "p \<in> {''default'', ''debug'', ''release''}"
  shows "\<exists>e'. configure p dw e = Inr e' \<and> configure p dw e' = Inr e'
    \<and> (ccflags e \<noteq> [] \<longrightarrow> ccflags e' = ccflags e \<and> ccdefines e' = ccdefines e)
    \<and> (cxxflags e \<noteq> [] \<longrightarrow> cxxflags e' = cxxflags e \<and> cxxdefines e' = cxxdefines e)"
proof (cases "find_compiler e")
  case None
  then show ?thesis using assms(1) by (auto simp: configure_def)
next
  case (Some c)
  obtain opt warn dbg where p: "dget profiles p = Some (opt, warn, dbg)"
    using assms(2) by (auto simp: profiles_def dget_def)
  obtain fs where fs: "get_optimization_flags c opt = Some fs" "fs \<noteq> []" using profiles_have_flags [OF p] .
  let ?add = "add_flags fs (fst (get_debug_flags c dbg)) (without_werror dw (get_warnings_flags c warn)) (snd (get_debug_flags c dbg))"
  have run: "configure p dw e1 = Inr (?add e1)" if "compiler_cc e1 = compiler_cc e" "compiler_cxx e1 = compiler_cxx e" for e1
  proof -
    have "find_compiler e1 = Some c" using Some unfolding find_compiler_def that .
    then show ?thesis using that assms(1) by (auto simp: configure_def p fs(1) case_prod_beta Let_def)
  qed
  have "compiler_cc (?add e) = compiler_cc e" "compiler_cxx (?add e) = compiler_cxx e"
    by (simp_all add: add_flags_def Let_def)
  moreover have "?add (?add e) = ?add e" using fs(2) by (simp add: add_flags_def Let_def)
  moreover have "ccflags e \<noteq> [] \<longrightarrow> ccflags (?add e) = ccflags e \<and> ccdefines (?add e) = ccdefines e"
    "cxxflags e \<noteq> [] \<longrightarrow> cxxflags (?add e) = cxxflags e \<and> cxxdefines (?add e) = cxxdefines e"
    by (simp_all add: add_flags_def Let_def)
  ultimately show ?thesis using run by (intro exI [of _ "?add e"]) simp
qed

definition gcc_env :: build_env where
  "gcc_env = \<lparr>compiler_cc = ''gcc'', compiler_cxx = ''g++'', ccflags = [''-Os''], ccdefines = [], cxxflags = [], cxxdefines = []\<rparr>"

theorem configure_once_witness:
  "\<exists>e'. configure ''debug'' True gcc_env = Inr e' \<and> configure ''debug'' True e' = Inr e' \<and> ccflags e' = [''-Os'']"
  using configure_once [of gcc_env "''debug''" True] by (auto simp: gcc_env_def)

text \<open>
  The option that disables warnings as errors removes \<open>-Werror\<close>, whatever the profile; the flag
  \<open>/WX\<close>, which is the same for the third compiler, stays.
\<close>

lemma werror_disabled: "''-Werror'' \<notin> set (without_werror True (get_warnings_flags c level))"
proof -
  have "set (without_werror True (concat (take l (warnings_flags c)))) \<subseteq> set (concat (warnings_flags c)) - {''-Werror''}" for l
  proof -
    have d: "distinct (concat (take l (warnings_flags c)))" "set (concat (take l (warnings_flags c))) \<subseteq> set (concat (warnings_flags c))"
      by (cases c; cases l rule: nat.exhaust; cases "l - 1" rule: nat.exhaust; cases "l - 2" rule: nat.exhaust;
          simp add: warnings_flags_def take_Cons' numeral_2_eq_2)+
    then show ?thesis by (auto simp: without_werror_def)
  qed
  then show ?thesis unfolding warnings_cumulative by blast
qed

lemma wx_stays: "''/WX'' \<in> set (without_werror True (get_warnings_flags MsvcTraits 2))"
  by code_simp

end
