(* ===== verification/RadUtil.thy ===== *)
theory RadUtil
  imports PyDict "HOL-Library.Sublist"
begin

text \<open>
  \<open>bindings/python/rad_util.py\<close>: the helper functions on integers, strings and lists.  The
  script is Python 2, where \<open>/\<close> on integers rounds down.  Functions on floating-point values,
  the clock, the random generator and the module table are not modelled.
\<close>

unbundle bit_operations_syntax

section \<open>Sequences\<close>

definition is_rotated :: "'a list \<Rightarrow> 'a list \<Rightarrow> py_error + bool" where
  "is_rotated seq1 seq2 =
     (if length seq1 \<noteq> length seq2 then Inr False
      else case seq2 of
        [] \<Rightarrow> Inl IndexError
      | head_item # _ \<Rightarrow>
          let start_indexes = filter (\<lambda>index1. seq1 ! index1 = head_item) [0..<length seq1];
              double_seq1 = seq1 @ seq1
          in Inr (list_ex (\<lambda>index1. py_slice double_seq1 (int index1) (int (index1 + length seq1)) = seq2)
                    start_indexes))"

function common_prefix_loop :: "'a list \<Rightarrow> 'a list \<Rightarrow> nat \<Rightarrow> nat \<Rightarrow> 'a list \<Rightarrow> 'a list" where
  "common_prefix_loop s1 s2 common_len i pre =
     (if i < common_len then
        if s1 ! i \<noteq> s2 ! i then pre
        else common_prefix_loop s1 s2 common_len (i + 1) (pre @ [s1 ! i])
      else pre)"
  by pat_completeness auto
termination
  by (relation "measure (\<lambda>(_, _, n, i, _). n - i)") auto

function common_suffix_loop :: "'a list \<Rightarrow> 'a list \<Rightarrow> nat \<Rightarrow> nat \<Rightarrow> 'a list \<Rightarrow> 'a list" where
  "common_suffix_loop s1 s2 common_len i suf =
     (if i < common_len + 1 then
        if py_nth s1 (- int i) \<noteq> py_nth s2 (- int i) then suf
        else common_suffix_loop s1 s2 common_len (i + 1) (suf @ [s1 ! (length s1 - i)])
      else suf)"
  by pat_completeness auto
termination
  by (relation "measure (\<lambda>(_, _, n, i, _). n + 1 - i)") auto

declare common_prefix_loop.simps [simp del] common_suffix_loop.simps [simp del]

definition find_common_fixes :: "'a list \<Rightarrow> 'a list \<Rightarrow> 'a list \<times> 'a list" where
  "find_common_fixes s1 s2 =
     (let common_len = min (length s1) (length s2)
      in (common_prefix_loop s1 s2 common_len 0 [],
          rev (common_suffix_loop s1 s2 common_len 1 [])))"

fun permutations :: "'a list \<Rightarrow> 'a list list" where
  "permutations (item # x # xs) =
     concat (map (\<lambda>sub_list. map (\<lambda>i. take i sub_list @ item # drop i sub_list)
                                [0..<length (item # x # xs)])
                 (permutations (x # xs)))"
| "permutations input_list = [input_list]"

text \<open>
  \<open>uniquify\<close> has a fast path over a dictionary, with the order of the keys as it comes when
  \<open>preserve_order\<close> is not set, and a quadratic path for items that cannot be hashed.
\<close>

definition uniquify_step :: "'a list \<times> ('a, int) dict \<Rightarrow> 'a \<Rightarrow> 'a list \<times> ('a, int) dict" where
  "uniquify_step st x =
     (case st of (out, d) \<Rightarrow> if \<not> has_key d x then (out @ [x], dset d x 0) else (out, d))"

definition uniquify_slow_step :: "'a list \<Rightarrow> 'a \<Rightarrow> 'a list" where
  "uniquify_slow_step result x = (if x \<notin> set result then result @ [x] else result)"

definition uniquify :: "('a list \<Rightarrow> 'a list) \<Rightarrow> bool \<Rightarrow> bool \<Rightarrow> 'a list \<Rightarrow> 'a list" where
  "uniquify ord hashable preserve_order seq =
     (if hashable then
        if preserve_order then fst (foldl uniquify_step ([], []) seq)
        else ord (dkeys (foldl (\<lambda>d x. dset d x (0 :: int)) [] seq))
      else foldl uniquify_slow_step [] seq)"

definition reverse_dict :: "(('k \<times> 'v) list \<Rightarrow> ('k \<times> 'v) list) \<Rightarrow> ('k, 'v) dict \<Rightarrow> ('v, 'k) dict" where
  "reverse_dict ord d = foldl (\<lambda>result (key, value). dset result value key) [] (ord d)"

text \<open>\<open>zip(*matrix)\<close> stops at the shortest row.\<close>

fun zip_rows :: "nat \<Rightarrow> 'a list list \<Rightarrow> 'a list list" where
  "zip_rows 0 rows = []"
| "zip_rows (Suc n) rows =
     (if rows = [] \<or> [] \<in> set rows then [] else map hd rows # zip_rows n (map tl rows))"

definition transpose_matrix :: "'a list list \<Rightarrow> 'a list list" where
  "transpose_matrix matrix = zip_rows (case matrix of [] \<Rightarrow> 0 | row # _ \<Rightarrow> length row) matrix"

definition reverse_string :: "string \<Rightarrow> string" where
  "reverse_string input_string = rev input_string"

section \<open>Integers\<close>

text \<open>The integer case of \<open>gcf\<close>: a non-zero remainder is always above \<open>epsilon\<close>.\<close>

function gcf_loop :: "int \<Rightarrow> int \<Rightarrow> int" where
  "gcf_loop result remainder =
     (if remainder \<noteq> 0 then gcf_loop remainder (result mod remainder) else \<bar>result\<bar>)"
  by pat_completeness auto
termination
  by (relation "measure (\<lambda>(_, r). nat \<bar>r\<bar>)") (auto simp: abs_mod_less)

declare gcf_loop.simps [simp del]

definition gcf :: "int \<Rightarrow> int \<Rightarrow> int" where
  "gcf a b = gcf_loop (max a b) (min a b)"

definition lcm_int :: "int \<Rightarrow> int \<Rightarrow> int" where
  "lcm_int a b = (let denom = gcf a b in if denom = 0 then 0 else a * (b div denom))"

definition reduce_fraction :: "int \<times> int \<Rightarrow> py_error + int \<times> int" where
  "reduce_fraction fraction =
     (case fraction of (numerator, denominator) \<Rightarrow>
       let common_factor = \<bar>gcf numerator denominator\<bar>
       in if common_factor = 0 then Inl ZeroDivisionError
          else Inr (numerator div common_factor, denominator div common_factor))"

definition lsb :: "int \<Rightarrow> nat \<Rightarrow> int" where
  "lsb x n = x AND (2 ^ n - 1)"

definition gray_encode :: "int \<Rightarrow> int" where
  "gray_encode i = i XOR drop_bit 1 i"

text \<open>
  \<open>round_grid\<close> on integers.  \<open>add_one\<close> is bound by the first test that applies; where none
  does, reading it raises \<open>UnboundLocalError\<close>.
\<close>

definition round_grid :: "int \<Rightarrow> int \<Rightarrow> int \<Rightarrow> py_error + int" where
  "round_grid val grid mode =
     (if grid = 0 then Inl ZeroDivisionError
      else
        let off_grid = val mod grid;
            add_one = (if mode = 0 then Some (if grid \<le> 2 * off_grid then 1 else 0)
                       else if mode = 1 \<and> off_grid \<noteq> 0 then Some 1
                       else if mode = -1 \<and> off_grid \<noteq> 0 then Some 0
                       else None)
        in case add_one of
             None \<Rightarrow> Inl UnboundLocalError
           | Some k \<Rightarrow> Inr ((val div grid + k) * grid))"

section \<open>Strings\<close>

text \<open>The digits of \<open>hex(i)\<close> for \<open>i \<ge> 0\<close>, and the table \<open>hex2bin\<close>.\<close>

fun hex_digits :: "nat \<Rightarrow> nat list" where
  "hex_digits i = (if i < 16 then [i] else hex_digits (i div 16) @ [i mod 16])"

declare hex_digits.simps [simp del]

definition hex2bin :: "nat \<Rightarrow> string" where
  "hex2bin d =
     [''0000'', ''0001'', ''0010'', ''0011'', ''0100'', ''0101'', ''0110'', ''0111'',
      ''1000'', ''1001'', ''1010'', ''1011'', ''1100'', ''1101'', ''1110'', ''1111''] ! d"

text \<open>
  The text of \<open>hex(i)\<close> for a negative \<open>i\<close> starts with \<open>-0x\<close>, so the table is asked for
  \<open>x\<close> and raises \<open>KeyError\<close>.
\<close>

definition int2bin :: "int \<Rightarrow> int \<Rightarrow> py_error + string" where
  "int2bin i n =
     (if i < 0 then Inl KeyError
      else
        let result = concat (map hex2bin (hex_digits (nat i)))
        in if CHR ''1'' \<in> set (py_slice_to result (- n)) then Inl ValueError
           else let result = py_slice_from result (- n)
                in Inr (replicate (nat (n - int (length result))) (CHR ''0'') @ result))"

datatype arg_value = ArgText string | ArgNone | ArgList "string list"

definition get_args_step :: "(string, arg_value) dict \<times> string list \<Rightarrow> string \<Rightarrow> (string, arg_value) dict \<times> string list" where
  "get_args_step st arg =
     (case st of (d, args) \<Rightarrow>
       if startswith arg ''-'' then
         let parts = split_on (CHR ''='') (dropWhile (\<lambda>c. c = CHR ''-'') arg)
         in if length parts = 2 then (dset d (parts ! 0) (ArgText (parts ! 1)), args)
            else (dset d (parts ! 0) ArgNone, args)
       else (d, args @ [arg]))"

definition get_args :: "string list \<Rightarrow> (string, arg_value) dict" where
  "get_args argv = (case foldl get_args_step ([], []) argv of (d, args) \<Rightarrow> dset d ''args'' (ArgList args))"

section \<open>Correctness: sequences\<close>

text \<open>
  \<open>is_rotated\<close> decides rotation; the one input it cannot take is the pair of empty
  sequences, where reading the head item raises \<open>IndexError\<close>.
\<close>

lemma is_rotated_eq:
  "is_rotated seq1 seq2 =
     (if seq1 = [] \<and> seq2 = [] then Inl IndexError else Inr (\<exists>n. seq2 = rotate n seq1))"
proof (cases "length seq1 = length seq2 \<and> seq2 \<noteq> []")
  case False
  then show ?thesis by (auto simp: is_rotated_def) (metis length_rotate rotate_is_Nil_conv)+
next
  case True
  then obtain h t where seq2: "seq2 = h # t" by (cases seq2) auto
  have ne: "seq1 \<noteq> []" using True by auto
  have sl: "py_slice (seq1 @ seq1) (int i) (int (i + length seq1)) = rotate i seq1" if "i < length seq1" for i
    using that unfolding py_slice_nat by (simp add: rotate_drop_take)
  have hd: "seq1 ! (n mod length seq1) = h" if "seq2 = rotate n seq1" for n
    using hd_rotate_conv_nth [OF ne, of n] that seq2 by (metis list.sel(1))
  have "(\<exists>i < length seq1. seq1 ! i = h \<and> rotate i seq1 = seq2) \<longleftrightarrow> (\<exists>n. seq2 = rotate n seq1)"
    using hd rotate_conv_mod [of _ seq1] ne by (metis length_greater_0_conv mod_less_divisor)
  moreover have "list_ex (\<lambda>i. py_slice (seq1 @ seq1) (int i) (int (i + length seq1)) = seq2)
      (filter (\<lambda>i. seq1 ! i = h) [0..<length seq1])
    \<longleftrightarrow> (\<exists>i < length seq1. seq1 ! i = h \<and> rotate i seq1 = seq2)"
    unfolding list_ex_iff using sl by auto
  moreover have "is_rotated seq1 seq2 =
      Inr (list_ex (\<lambda>i. py_slice (seq1 @ seq1) (int i) (int (i + length seq1)) = seq2)
        (filter (\<lambda>i. seq1 ! i = h) [0..<length seq1]))"
    unfolding is_rotated_def Let_def using True by (simp add: seq2 del: upt_Suc)
  ultimately show ?thesis using ne by simp
qed

lemma common_prefix_loop_eq:
  "i \<le> n \<Longrightarrow> n \<le> length s1 \<Longrightarrow> n \<le> length s2 \<Longrightarrow>
     common_prefix_loop s1 s2 n i acc = acc @ longest_common_prefix (drop i (take n s1)) (drop i (take n s2))"
proof (induction s1 s2 n i acc rule: common_prefix_loop.induct)
  case (1 s1 s2 n i acc)
  show ?case
  proof (cases "i < n")
    case True
    with "1.prems" have d: "drop i (take n s1) = s1 ! i # drop (Suc i) (take n s1)"
      "drop i (take n s2) = s2 ! i # drop (Suc i) (take n s2)"
      by (auto intro!: Cons_nth_drop_Suc [symmetric] simp: Cons_nth_drop_Suc [symmetric] min_def)
    then show ?thesis using "1.IH" "1.prems" True
      by (simp add: common_prefix_loop.simps [of s1 s2 n i acc])
  qed (use "1.prems" in \<open>subst common_prefix_loop.simps, simp\<close>)
qed

lemma common_suffix_loop_eq:
  "n \<le> length s1 \<Longrightarrow> n \<le> length s2 \<Longrightarrow> 
     common_suffix_loop s1 s2 n (Suc i) acc = common_prefix_loop (rev s1) (rev s2) n i acc"
proof (induction "n - i" arbitrary: i acc)
  case 0
  then show ?case
    by (simp add: common_suffix_loop.simps [of s1 s2 n "Suc i" acc] common_prefix_loop.simps [of _ _ n i acc])
next
  case (Suc k)
  then have i: "i < n" "k = n - Suc i" by auto
  have nth: "py_nth s1 (- int (Suc i)) = Some (rev s1 ! i)" "py_nth s2 (- int (Suc i)) = Some (rev s2 ! i)"
    using i Suc.prems by (auto simp: py_nth_def rev_nth nat_diff_distrib' intro!: arg_cong [of _ _ "(!) _"])
  show ?case
    using Suc.hyps(1) [OF i(2) Suc.prems] i Suc.prems nth
    by (simp add: common_suffix_loop.simps [of s1 s2 n "Suc i" acc] common_prefix_loop.simps [of _ _ n i acc] rev_nth)
qed

lemma longest_common_prefix_take:
  "longest_common_prefix (take (min (length xs) (length ys)) xs) (take (min (length xs) (length ys)) ys)
     = longest_common_prefix xs ys"
  by (induction xs ys rule: longest_common_prefix.induct) auto

text \<open>
  \<open>find_common_fixes\<close> returns the longest common prefix and the longest common suffix
  of its arguments (each found on its own: the two may overlap in the shorter string).
\<close>

theorem find_common_fixes_longest:
  "find_common_fixes s1 s2 =
     (longest_common_prefix s1 s2, rev (longest_common_prefix (rev s1) (rev s2)))"
proof -
  let ?n = "min (length s1) (length s2)"
  have "common_prefix_loop s1 s2 ?n 0 [] = longest_common_prefix s1 s2"
    using common_prefix_loop_eq [of 0 ?n s1 s2 "[]"] longest_common_prefix_take [of s1 s2] by simp
  moreover have "common_suffix_loop s1 s2 ?n 1 [] = longest_common_prefix (rev s1) (rev s2)"
    using common_suffix_loop_eq [of ?n s1 s2 0 "[]"] common_prefix_loop_eq [of 0 ?n "rev s1" "rev s2" "[]"]
      longest_common_prefix_take [of "rev s1" "rev s2"] by simp
  ultimately show ?thesis by (simp add: find_common_fixes_def Let_def)
qed

lemma mset_insert_at: "mset (take i xs @ x # drop i xs) = add_mset x (mset xs)"
  by (metis append_take_drop_id mset.simps(2) mset_append union_mset_add_mset_right)

lemma mset_Cons_split:
  assumes "mset ys = add_mset x M"
  obtains us vs where "ys = us @ x # vs" "mset (us @ vs) = M"
proof -
  from assms have "x \<in> set ys" by (metis set_mset_mset union_single_eq_member)
  then obtain us vs where "ys = us @ x # vs" by (auto dest: split_list)
  with assms that show thesis by auto
qed

text \<open>
  \<open>permutations\<close> lists the rearrangements of its input, all of them and nothing else,
  in a list of length \<open>n!\<close>.
\<close>

theorem permutations_complete:
  "set (permutations xs) = {ys. mset ys = mset xs} \<and> length (permutations xs) = fact (length xs)"
proof (induction xs rule: permutations.induct)
  case (1 x y zs)
  have "ys \<in> set (permutations (x # y # zs)) \<longleftrightarrow> mset ys = mset (x # y # zs)" for ys
  proof
    assume "ys \<in> set (permutations (x # y # zs))"
    with "1.IH" show "mset ys = mset (x # y # zs)" by (auto simp: mset_insert_at simp del: mset_append)
  next
    assume "mset ys = mset (x # y # zs)"
    then have "mset ys = add_mset x (mset (y # zs))" by simp
    then obtain us vs where ys: "ys = us @ x # vs" and m: "mset (us @ vs) = mset (y # zs)"
      by (rule mset_Cons_split)
    have "length us < length (x # y # zs)" using mset_eq_length [OF m] by simp
    then have i: "length us \<in> set [0..<length (x # y # zs)]" unfolding set_upt by simp
    have sub: "us @ vs \<in> set (permutations (y # zs))" using "1.IH" m by simp
    have "ys = take (length us) (us @ vs) @ x # drop (length us) (us @ vs)" by (simp add: ys)
    from image_eqI [of _ "\<lambda>i. take i (us @ vs) @ x # drop i (us @ vs)", OF this i] show "ys \<in> set (permutations (x # y # zs))"
      unfolding permutations.simps(1) set_concat set_map
      by (intro UN_I [OF imageI [OF sub]]) (simp only: set_map)
  qed
  moreover have "length (permutations (x # y # zs)) = fact (length (x # y # zs))"
    using "1.IH" by (simp add: length_concat o_def sum_list_triv algebra_simps)
  ultimately show ?case by blast
qed auto

lemma rev_remdups_snoc:
  "rev (remdups (rev (xs @ [x]))) = (if x \<in> set xs then rev (remdups (rev xs)) else rev (remdups (rev xs)) @ [x])"
  by simp

lemma uniquify_fast:
  "\<exists>d. foldl uniquify_step ([], []) xs = (rev (remdups (rev xs)), d) \<and> (\<forall>x. has_key d x \<longleftrightarrow> x \<in> set xs)"
proof (induction xs rule: rev_induct)
  case (snoc x xs)
  then obtain d where "foldl uniquify_step ([], []) xs = (rev (remdups (rev xs)), d)"
    "\<forall>x. has_key d x \<longleftrightarrow> x \<in> set xs" by blast
  moreover have "uniquify_step (out, d) x = (if x \<notin> set xs then (out @ [x], dset d x 0) else (out, d))" for out
    using calculation(2) [rule_format, of x] by (cases "dget d x") (auto simp: uniquify_step_def)
  ultimately show ?case by auto
qed simp

lemma uniquify_slow: "foldl uniquify_slow_step [] xs = rev (remdups (rev xs))"
  by (induction xs rule: rev_induct) (simp_all add: uniquify_slow_step_def)

lemma dset_all_keys:
  "dict_inv (foldl (\<lambda>d x. dset d x (0 :: int)) [] xs)
   \<and> set (dkeys (foldl (\<lambda>d x. dset d x (0 :: int)) [] xs)) = set xs"
  by (induction xs rule: rev_induct) (auto simp: pd.set_keys)

text \<open>
  On each of its three paths \<open>uniquify\<close> returns every item once and nothing else; the
  order-preserving path and the path for unhashable items agree and keep first occurrences.
\<close>

theorem uniquify_distinct:
  assumes "dict_order ord"
  shows "distinct (uniquify ord hashable preserve_order seq) \<and> set (uniquify ord hashable preserve_order seq) = set seq
    \<and> uniquify ord True True seq = rev (remdups (rev seq)) \<and> uniquify ord False preserve_order seq = rev (remdups (rev seq))"
  using uniquify_fast [of seq] dset_all_keys [of seq] assms
  by (auto simp: uniquify_def uniquify_slow dict_inv_def)

theorem uniquify_distinct_witness:
  "distinct (uniquify rev True False [3, 3, 1, 2 :: nat]) \<and> uniquify rev True True [3, 3, 1, 2 :: nat] = [3, 1, 2]"
  using uniquify_distinct [OF dict_order_rev, of True False "[3, 3, 1, 2 :: nat]"] by simp

section \<open>Correctness: integers\<close>

lemma gcf_loop_gcd: "gcf_loop a b = gcd a b"
proof (induction a b rule: gcf_loop.induct)
  case (1 a b)
  then show ?case
    by (cases "b = 0") (simp_all add: gcf_loop.simps [of a b] gcf_loop.simps [of a 0] gcd_red_int [of a b])
qed

lemma gcf_gcd: "gcf a b = gcd a b"
  by (simp add: gcf_def gcf_loop_gcd max_def min_def gcd.commute)

lemma sgn_div_dvd: "0 < (g :: int) \<Longrightarrow> g dvd b \<Longrightarrow> sgn (b div g) = sgn b"
  by (auto elim!: dvdE simp: sgn_mult)

text \<open>
  On integers \<open>gcf\<close> is the greatest common divisor, \<open>lcm\<close> the least common multiple
  with the sign of the product, and \<open>reduce_fraction\<close> the fraction in lowest terms with the
  sign of the denominator kept; only \<open>0/0\<close> raises.
\<close>

theorem gcf_lcm_reduce:
  "gcf a b = gcd a b \<and> lcm_int a b = sgn a * sgn b * lcm a b
   \<and> (case reduce_fraction (a, b) of
        Inl e \<Rightarrow> a = 0 \<and> b = 0 \<and> e = ZeroDivisionError
      | Inr (n, d) \<Rightarrow> (a \<noteq> 0 \<or> b \<noteq> 0) \<and> coprime n d \<and> n * b = a * d \<and> sgn d = sgn b)"
proof -
  let ?g = "gcd a b"
  have "lcm_int a b = sgn a * sgn b * lcm a b"
  proof (cases "?g = 0")
    case False
    then have "lcm_int a b = a * (b div ?g)" by (simp add: lcm_int_def gcf_gcd)
    also have "\<dots> = (a * b) div ?g" by (simp add: div_mult_swap)
    also have "a * b = sgn (a * b) * \<bar>a * b\<bar>" by (simp only: mult_sgn_abs)
    also have "\<dots> = (sgn a * sgn b) * (?g * lcm a b)" by (simp only: sgn_mult prod_gcd_lcm_int abs_mult)
    finally have "lcm_int a b = (sgn a * sgn b * lcm a b) * ?g div ?g" by (simp only: mult_ac)
    also have "\<dots> = sgn a * sgn b * lcm a b" by (rule nonzero_mult_div_cancel_right [OF False])
    finally show ?thesis .
  qed (simp add: lcm_int_def gcf_gcd)
  moreover have "coprime (a div ?g) (b div ?g)" "(a div ?g) * b = a * (b div ?g)" "sgn (b div ?g) = sgn b"
    if "?g \<noteq> 0"
  proof -
    show "coprime (a div ?g) (b div ?g)" using that by (intro div_gcd_coprime) auto
    show "(a div ?g) * b = a * (b div ?g)" by (simp add: div_mult_swap dvd_div_mult)
    show "sgn (b div ?g) = sgn b" using that by (intro sgn_div_dvd) (simp_all add: order_le_less)
  qed
  ultimately show ?thesis by (auto simp: gcf_gcd reduce_fraction_def Let_def)
qed

theorem gcf_lcm_reduce_witness: "gcf 12 (- 18) = 6 \<and> lcm_int 12 (- 18) = - 36"
  using gcf_lcm_reduce [of 12 "- 18"] by (simp add: gcd_int_int_eq lcm_int_int_eq) code_simp

lemma lsb_mod: "lsb x n = x mod 2 ^ n"
  by (simp add: lsb_def flip: mask_eq_exp_minus_1 take_bit_eq_mask take_bit_eq_mod)

lemma xor_succ: "0 \<le> i \<Longrightarrow> \<exists>k. i XOR (i + 1) = (mask (Suc k) :: int)"
proof (induction "nat i" arbitrary: i rule: less_induct)
  case less
  show ?case
  proof (cases "even i")
    case True
    then have "i XOR (i + 1) = mask (Suc 0)" by (auto simp: xor_int_rec [of i "i + 1"] elim!: evenE)
    then show ?thesis by blast
  next
    case False
    then obtain j where j: "i = 2 * j + 1" by (elim oddE)
    with less.prems have "0 \<le> j" "nat j < nat i" by auto
    with less.hyps obtain k where "j XOR (j + 1) = mask (Suc k)" by blast
    moreover have "i XOR (i + 1) = 1 + 2 * (j XOR (j + 1))"
      unfolding j by (subst xor_int_rec) (simp add: add.commute)
    ultimately have "i XOR (i + 1) = mask (Suc (Suc k))" by (simp add: mask_eq_exp_minus_1)
    then show ?thesis by blast
  qed
qed

lemma gray_encode_xor: "gray_encode a XOR gray_encode b = gray_encode (a XOR b)"
  by (auto simp: gray_encode_def drop_bit_xor intro!: bit_eqI simp: bit_simps)

lemma gray_encode_mask: "gray_encode (mask (Suc k)) = 2 ^ k"
proof (rule bit_eqI)
  fix n
  show "bit (gray_encode (mask (Suc k))) n \<longleftrightarrow> bit (2 ^ k :: int) n"
    by (cases n k rule: linorder_cases) (auto simp: gray_encode_def bit_simps)
qed

lemma xor_0_eq:
  assumes "(a :: int) XOR b = 0"
  shows "a = b"
proof (rule bit_eqI)
  fix n
  from assms have "bit (a XOR b) n = bit (0 :: int) n" by simp
  then show "bit a n = bit b n" by (simp add: bit_xor_iff)
qed

lemma gray_encode_0: "0 \<le> i \<Longrightarrow> gray_encode i = 0 \<Longrightarrow> i = 0"
proof (induction "nat i" arbitrary: i rule: less_induct)
  case less
  from less.prems(2) have e: "i = drop_bit 1 i" unfolding gray_encode_def by (rule xor_0_eq)
  show ?case
  proof (rule ccontr)
    assume "i \<noteq> 0"
    with less.prems(1) have "drop_bit 1 i < i" by (simp add: drop_bit_eq_div)
    with e show False by simp
  qed
qed

text \<open>
  \<open>gray_encode\<close> is a Gray code: the codes of consecutive integers differ in exactly
  one bit, and different non-negative integers have different codes.
\<close>

theorem gray_code:
  assumes "0 \<le> i" "0 \<le> j"
  shows "(\<exists>k. gray_encode i XOR gray_encode (i + 1) = 2 ^ k) \<and> (gray_encode i = gray_encode j \<longrightarrow> i = j)"
proof
  from xor_succ [OF assms(1)] show "\<exists>k. gray_encode i XOR gray_encode (i + 1) = 2 ^ k"
    by (auto simp: gray_encode_xor gray_encode_mask)
  show "gray_encode i = gray_encode j \<longrightarrow> i = j"
  proof
    assume "gray_encode i = gray_encode j"
    then have "gray_encode (i XOR j) = 0" by (simp flip: gray_encode_xor)
    from gray_encode_0 [OF _ this] assms have "i XOR j = 0" by simp
    then show "i = j" by (rule xor_0_eq)
  qed
qed

theorem gray_code_witness: "\<exists>k. gray_encode 7 XOR gray_encode 8 = 2 ^ k"
  using gray_code [of 7 0] by simp

text \<open>
  \<open>round_grid\<close> for a positive grid: mode 0 gives the nearest multiple, mode 1 the least
  multiple above and mode -1 the greatest below a value off the grid.  A value that already lies
  on the grid is not returned in modes 1 and -1: the variable \<open>add_one\<close> is unbound there.
\<close>

theorem round_grid_cases:
  assumes "0 < grid"
  shows "(\<exists>r. round_grid v grid 0 = Inr r \<and> grid dvd r \<and> 2 * \<bar>r - v\<bar> \<le> grid)
    \<and> (if grid dvd v then round_grid v grid 1 = Inl UnboundLocalError \<and> round_grid v grid (-1) = Inl UnboundLocalError
       else \<exists>r. grid dvd r \<and> v < r \<and> r - grid < v \<and> round_grid v grid 1 = Inr r \<and> round_grid v grid (-1) = Inr (r - grid))"
proof -
  define q m where "q = v div grid" and "m = v mod grid"
  have v: "v = q * grid + m" by (simp add: q_def m_def)
  have m: "0 \<le> m" "m < grid" using assms by (simp_all add: m_def)
  note defs = round_grid_def Let_def q_def [symmetric] m_def [symmetric] dvd_eq_mod_eq_0
  have "\<exists>r. round_grid v grid 0 = Inr r \<and> grid dvd r \<and> 2 * \<bar>r - v\<bar> \<le> grid"
  proof (cases "grid \<le> 2 * m")
    case True
    have "(q + 1) * grid - v = grid - m" using v by (simp add: algebra_simps)
    then have "2 * \<bar>(q + 1) * grid - v\<bar> \<le> grid" using True m by (simp only:) simp
    with True assms show ?thesis by (simp add: defs)
  next
    case False
    have "q * grid - v = - m" using v by (simp add: algebra_simps)
    then have "2 * \<bar>q * grid - v\<bar> \<le> grid" using False m by (simp only: abs_minus_cancel abs_of_nonneg)
    with False assms show ?thesis by (simp add: defs)
  qed
  moreover have "\<exists>r. grid dvd r \<and> v < r \<and> r - grid < v \<and> round_grid v grid 1 = Inr r \<and> round_grid v grid (-1) = Inr (r - grid)"
    if "\<not> grid dvd v"
  proof (intro exI conjI)
    have "0 < m" using m that by (simp add: defs order_le_less)
    moreover have "(q + 1) * grid - v = grid - m" using v by (simp add: algebra_simps)
    ultimately show "v < (q + 1) * grid" "(q + 1) * grid - grid < v" using m by linarith+
    show "round_grid v grid 1 = Inr ((q + 1) * grid)" "round_grid v grid (-1) = Inr ((q + 1) * grid - grid)"
      using assms that by (simp_all add: defs algebra_simps)
  qed simp
  ultimately show ?thesis using assms by (simp add: defs)
qed

theorem round_grid_cases_witness: "round_grid 10 5 1 = Inl UnboundLocalError \<and> round_grid 8 5 0 = Inr 10"
  using round_grid_cases [of 5 10] by (simp add: round_grid_def)

section \<open>Correctness: strings\<close>

definition bin_value :: "string \<Rightarrow> nat" where
  "bin_value s = foldl (\<lambda>v c. 2 * v + (if c = CHR ''1'' then 1 else 0)) 0 s"

lemma bin_value_acc:
  "foldl (\<lambda>v c. 2 * v + (if c = CHR ''1'' then 1 else 0)) a s = a * 2 ^ length s + bin_value s"
proof (induction s rule: rev_induct)
  case Nil
  then show ?case by (simp add: bin_value_def)
qed (simp add: bin_value_def)

lemma bin_value_append: "bin_value (xs @ ys) = bin_value xs * 2 ^ length ys + bin_value ys"
  using bin_value_acc [of "bin_value xs" ys] by (simp add: bin_value_def)

lemma bin_value_bound: "bin_value s < 2 ^ length s"
  by (induction s rule: rev_induct) (auto simp: bin_value_append bin_value_def [of "[]"] bin_value_def [of "[_]"])

lemma bin_value_0: "CHR ''1'' \<notin> set s \<longleftrightarrow> bin_value s = 0"
proof (induction s rule: rev_induct)
  case Nil
  show ?case by (simp add: bin_value_def)
next
  case (snoc x xs)
  then show ?case by (auto simp: bin_value_append bin_value_def [of "[x]"])
qed

lemma bin_value_zeros: "bin_value (replicate k (CHR ''0'') @ s) = bin_value s"
  using bin_value_0 [of "replicate k (CHR ''0'')"] by (simp add: bin_value_append)

lemma hex2bin_value: "d < 16 \<Longrightarrow> length (hex2bin d) = 4 \<and> bin_value (hex2bin d) = d"
  by (auto simp: hex2bin_def bin_value_def less_Suc_eq numeral_eq_Suc)

lemma hex_digits_value:
  "length (concat (map hex2bin (hex_digits i))) = 4 * length (hex_digits i)
   \<and> bin_value (concat (map hex2bin (hex_digits i))) = i"
proof (induction i rule: hex_digits.induct)
  case (1 i)
  show ?case
  proof (cases "i < 16")
    case True
    then show ?thesis by (subst (1 2 3) hex_digits.simps) (simp add: hex2bin_value)
  next
    case False
    with "1.IH" hex2bin_value [of "i mod 16"] show ?thesis
      by (subst (1 2 3) hex_digits.simps) (simp add: bin_value_append)
  qed
qed

lemma hex_digits_binary: "set (concat (map hex2bin (hex_digits i))) \<subseteq> {CHR ''0'', CHR ''1''}"
proof (induction i rule: hex_digits.induct)
  case (1 i)
  have "set (hex2bin d) \<subseteq> {CHR ''0'', CHR ''1''}" if "d < 16" for d
    using that by (auto simp: hex2bin_def less_Suc_eq numeral_eq_Suc)
  with 1 show ?case by (cases "i < 16"; subst hex_digits.simps) simp_all
qed

lemma int2bin_result:
  assumes "0 < n"
  shows "if i < 2 ^ n then \<exists>s. int2bin (int i) (int n) = Inr s \<and> length s = n \<and> bin_value s = i \<and> set s \<subseteq> {CHR ''0'', CHR ''1''}
    else int2bin (int i) (int n) = Inl ValueError"
proof -
  define r where "r = concat (map hex2bin (hex_digits i))"
  have r: "bin_value r = i" using hex_digits_value [of i] by (simp add: r_def)
  define hi lo where "hi = take (length r - n) r" and "lo = drop (length r - n) r"
  have split: "bin_value hi * 2 ^ length lo + bin_value lo = i" "bin_value lo < 2 ^ length lo" "length lo = min n (length r)"
    using r bin_value_append [of hi lo] bin_value_bound [of lo] by (auto simp: hi_def lo_def min_def)
  have run: "int2bin (int i) (int n) =
      (if bin_value hi \<noteq> 0 then Inl ValueError else Inr (replicate (n - length lo) (CHR ''0'') @ lo))"
    using py_slice_to_neg [OF assms, of r] py_slice_from_neg [OF assms, of r]
    by (simp add: int2bin_def Let_def r_def [symmetric] hi_def [symmetric] lo_def [symmetric] flip: bin_value_0)
      (simp add: nat_diff_distrib')
  have hi: "bin_value hi = 0 \<longleftrightarrow> i < 2 ^ n"
  proof (cases "n \<le> length r")
    case True
    with split have "length lo = n" by simp
    then show ?thesis using split(1,2) by (cases "bin_value hi") auto
  next
    case False
    then have "hi = []" by (simp add: hi_def)
    moreover have "i < 2 ^ n" using bin_value_bound [of r] r False
      by (metis less_le_trans nat_le_linear one_le_numeral power_increasing)
    ultimately show ?thesis by (simp add: bin_value_def)
  qed
  have "set lo \<subseteq> {CHR ''0'', CHR ''1''}"
    using hex_digits_binary [of i] set_drop_subset [of "length r - n" r] by (simp add: r_def lo_def)
  then show ?thesis using run hi split(1,3) bin_value_zeros [of "n - length lo" lo]
    by (auto simp: set_replicate_conv_if)
qed

text \<open>
  For a positive width \<open>int2bin i n\<close> gives the \<open>n\<close>-digit binary numeral of \<open>i\<close>, and
  raises \<open>ValueError\<close> exactly when \<open>i\<close> does not fit: nothing is cut off silently.
\<close>

theorem int2bin_value:
  assumes "0 < n"
  shows "if i < 2 ^ n then \<exists>s. int2bin (int i) (int n) = Inr s \<and> length s = n \<and> bin_value s = i
    else int2bin (int i) (int n) = Inl ValueError"
  using int2bin_result [OF assms, of i] by (auto split: if_splits)

theorem int2bin_value_witness:
  "int2bin 123 8 = Inr ''01111011'' \<and> int2bin 15 2 = Inl ValueError"
proof -
  have "int2bin 15 2 = Inl ValueError" using int2bin_value [of 2 15] by simp
  moreover have "int2bin 123 8 = Inr ''01111011''" by code_simp
  ultimately show ?thesis by blast
qed

text \<open>What an argument of the command line sets, if it is an option.\<close>

definition option_of :: "string \<Rightarrow> (string \<times> arg_value) option" where
  "option_of arg =
     (if startswith arg ''-'' then
        (let parts = split_on (CHR ''='') (dropWhile (\<lambda>c. c = CHR ''-'') arg)
         in Some (hd parts, if length parts = 2 then ArgText (parts ! 1) else ArgNone))
      else None)"

lemma get_args_step_option_of:
  "get_args_step (d, args) arg = (case option_of arg of
     Some (k, v) \<Rightarrow> (dset d k v, args) | None \<Rightarrow> (d, args @ [arg]))"
  by (simp add: get_args_step_def option_of_def Let_def hd_conv_nth split_on_nonempty)

lemma option_of_None: "option_of arg = None \<longleftrightarrow> \<not> startswith arg ''-''"
  by (simp add: option_of_def Let_def)

lemma get_args_fold:
  "\<exists>d. foldl get_args_step ([], []) argv = (d, filter (\<lambda>a. \<not> startswith a ''-'') argv)
     \<and> (\<forall>k. dget d k = map_of (rev (List.map_filter option_of argv)) k)"
proof (induction argv rule: rev_induct)
  case (snoc arg argv)
  then obtain d where d: "foldl get_args_step ([], []) argv = (d, filter (\<lambda>a. \<not> startswith a ''-'') argv)"
    "\<And>k. dget d k = map_of (rev (List.map_filter option_of argv)) k" by blast
  show ?case
  proof (cases "option_of arg")
    case None
    with d show ?thesis using option_of_None [of arg]
      by (simp add: get_args_step_option_of map_filter_snoc)
  next
    case (Some kv)
    with d show ?thesis using option_of_None [of arg]
      by (cases kv) (simp add: get_args_step_option_of map_filter_snoc)
  qed
qed (simp add: List.map_filter_simps)

text \<open>
  \<open>get_args\<close> keeps the arguments that are no options, in their order, under the key
  \<open>args\<close>, and every other key holds the value of the last option of that name.  An option
  named \<open>--args\<close> is therefore lost.
\<close>

theorem get_args_lookup:
  "dget (get_args argv) k =
     (if k = ''args'' then Some (ArgList (filter (\<lambda>a. \<not> startswith a ''-'') argv))
      else map_of (rev (List.map_filter option_of argv)) k)"
  using get_args_fold [of argv] by (auto simp: get_args_def)

section \<open>Matrices and dictionaries\<close>

lemma zip_rows_eq:
  "rows \<noteq> [] \<Longrightarrow> \<forall>r \<in> set rows. length r = n \<Longrightarrow> zip_rows n rows = map (\<lambda>j. map (\<lambda>r. r ! j) rows) [0..<n]"
proof (induction n arbitrary: rows)
  case (Suc n)
  have "zip_rows n (map tl rows) = map (\<lambda>j. map (\<lambda>r. r ! j) (map tl rows)) [0..<n]"
    by (rule Suc.IH) (use Suc.prems in auto)
  moreover have "map (\<lambda>r. r ! j) (map tl rows) = map (\<lambda>r. r ! Suc j) rows" for j
    using Suc.prems(2) by (intro map_cong [OF refl, THEN trans [OF map_map]]) (auto simp: length_Suc_conv)
  moreover have "map hd rows = map (\<lambda>r. r ! 0) rows" using Suc.prems(2) by (auto simp: length_Suc_conv)
  moreover have "[] \<notin> set rows" using Suc.prems by auto
  ultimately show ?case using Suc.prems(1)
    by (simp add: map_upt_Suc del: upt_Suc)
qed simp

lemma transpose_matrix_eq:
  assumes "matrix \<noteq> []" "\<forall>r \<in> set matrix. length r = n"
  shows "transpose_matrix matrix = map (\<lambda>j. map (\<lambda>r. r ! j) matrix) [0..<n]"
  using zip_rows_eq [OF assms] assms by (cases matrix) (simp_all add: transpose_matrix_def)

lemma transpose_matrix_involution:
  assumes "matrix \<noteq> []" "\<forall>r \<in> set matrix. length r = n" "0 < n"
  shows "transpose_matrix (transpose_matrix matrix) = matrix"
proof -
  have "transpose_matrix (transpose_matrix matrix) =
      map (\<lambda>i. map (\<lambda>r. r ! i) (map (\<lambda>j. map (\<lambda>r. r ! j) matrix) [0..<n])) [0..<length matrix]"
    unfolding transpose_matrix_eq [OF assms(1,2)] by (rule transpose_matrix_eq) (use assms(3) in auto)
  also have "\<dots> = matrix"
    using assms(2) by (auto intro!: nth_equalityI simp: nth_mem)
  finally show ?thesis .
qed

lemma reverse_dict_fold:
  "dget (foldl (\<lambda>result (key, value). dset result value key) r kvs) v
     = (case map_of (rev (map prod.swap kvs)) v of None \<Rightarrow> dget r v | Some k \<Rightarrow> Some k)"
  by (induction kvs arbitrary: r) (auto simp: map_add_def split: option.splits)

lemma reverse_dict_get:
  assumes "dict_order ord" "dict_inv d" "distinct (map snd d)"
  shows "dget (reverse_dict ord d) v = Some k \<longleftrightarrow> dget d k = Some v"
proof -
  have set: "set (ord d) = set d" using assms(1) by simp
  have "distinct (map snd (ord d))"
    using assms(1,3) by (metis dict_order_mset mset_map mset_eq_imp_distinct_iff)
  then have "distinct (map fst (rev (map prod.swap (ord d))))"
    by (simp add: comp_def flip: rev_map)
  then have "map_of (rev (map prod.swap (ord d))) v = Some k \<longleftrightarrow> (v, k) \<in> set (rev (map prod.swap (ord d)))"
    by (rule map_of_eq_Some_iff)
  moreover have "dget (reverse_dict ord d) v = map_of (rev (map prod.swap (ord d))) v"
    by (simp add: reverse_dict_def reverse_dict_fold split: option.splits)
  ultimately have "dget (reverse_dict ord d) v = Some k \<longleftrightarrow> (v, k) \<in> set (rev (map prod.swap (ord d)))"
    by simp
  also have "\<dots> \<longleftrightarrow> (k, v) \<in> set d" using set by (force simp: prod.swap_def)
  also have "\<dots> \<longleftrightarrow> dget d k = Some v"
    using assms(2) by (simp add: dget_def dict_inv_def dkeys_def)
  finally show ?thesis .
qed

end
