(* ===== verification/FindCycles.thy ===== *)
theory FindCycles
  imports RadUtil
begin

text \<open>
  The cycle finder of \<open>bindings/python/topsort.py\<close> (\<open>find_cycles\<close>), which walks every
  repetition-free path of a graph given as a dictionary from a parent to its children.  The
  generator is modelled by the list of the cycles it yields.  The lemmas show that the walk
  ends, that it raises nothing, and that its result lists every simple cycle of the graph once
  up to rotation, although nodes met on an earlier walk are never used as starting points.
\<close>

section \<open>The code\<close>

type_synonym 'a graph = "('a, 'a list) dict"

text \<open>The loop over the cycles found so far, which stops at the first rotation.\<close>

fun is_dup :: "'a list list \<Rightarrow> 'a list \<Rightarrow> py_error + bool" where
  "is_dup [] cycle = Inr False"
| "is_dup (other_cycle # rest) cycle =
     rbind (is_rotated other_cycle cycle) (\<lambda>dup. if dup then Inr True else is_dup rest cycle)"

definition path_index :: "'a list \<Rightarrow> 'a \<Rightarrow> nat" where
  "path_index path child = length (takeWhile (\<lambda>x. x \<noteq> child) path)"

definition visit_child ::
    "'a list \<Rightarrow> 'a list list \<times> 'a list list \<times> 'a set \<Rightarrow> 'a \<Rightarrow> py_error + 'a list list \<times> 'a list list \<times> 'a set" where
  "visit_child path st child =
     (case st of (cycles, paths, visited_nodes) \<Rightarrow>
       if child \<in> set path then
         let cycle = py_slice_from path (int (path_index path child))
         in rbind (is_dup cycles cycle) (\<lambda>dup.
              Inr (if dup then cycles else cycles @ [cycle], paths, visited_nodes))
       else Inr (cycles, paths @ [path @ [child]], insert child visited_nodes))"

text \<open>
  The children a path is extended by, and the weight of a stack of paths that every turn of the
  loop decreases: a path that can still grow by \<open>k\<close> nodes weighs \<open>B ^ k\<close>, where \<open>B\<close> is above
  the number of children of any node.
\<close>

definition all_children :: "'a graph \<Rightarrow> 'a list" where
  "all_children graph = concat (map snd graph)"

definition path_weight :: "'a graph \<Rightarrow> 'a list \<Rightarrow> nat" where
  "path_weight graph path =
     Suc (length (all_children graph)) ^ card (set (all_children graph) - set path)"

lemma children_bound:
  assumes "dget graph v = Some children"
  shows "length children \<le> length (all_children graph)" "set children \<subseteq> set (all_children graph)"
  using assms by (induction graph) (auto simp: dget_def all_children_def split: if_splits)

lemma visit_child_simps:
  "child \<in> set path \<Longrightarrow> visit_child path (cycles, paths, visited) child =
     rbind (is_dup cycles (drop (path_index path child) path)) (\<lambda>dup.
       Inr (if dup then cycles else cycles @ [drop (path_index path child) path], paths, visited))"
  "child \<notin> set path \<Longrightarrow> visit_child path (cycles, paths, visited) child =
     Inr (cycles, paths @ [path @ [child]], insert child visited)"
  by (simp_all add: visit_child_def py_slice_from_nat Let_def)

lemma visit_child_fold:
  "for_each (visit_child path) (cycles, paths, visited) children = Inr (cycles', paths', visited')
   \<Longrightarrow> paths' = paths @ map (\<lambda>c. path @ [c]) (filter (\<lambda>c. c \<notin> set path) children)
     \<and> visited' = visited \<union> (set children - set path)"
proof (induction children arbitrary: cycles paths visited)
  case (Cons c children)
  then obtain cycles1 where "for_each (visit_child path)
      (cycles1, if c \<in> set path then paths else paths @ [path @ [c]],
       if c \<in> set path then visited else insert c visited) children = Inr (cycles', paths', visited')"
    by (cases "c \<in> set path") (auto simp: visit_child_simps rbind_Inr_iff)
  from Cons.IH [OF this] show ?case by auto
qed simp

lemma weight_push:
  assumes "dget graph v = Some children"
  shows "sum_list (map (path_weight graph) (map (\<lambda>c. path @ [c]) (filter (\<lambda>c. c \<notin> set path) children)))
    < path_weight graph path"
proof -
  define B where "B = length (all_children graph)"
  define k where "k = card (set (all_children graph) - set path)"
  let ?new = "filter (\<lambda>c. c \<notin> set path) children"
  have "path_weight graph (path @ [c]) = Suc B ^ (k - 1)" if "c \<in> set ?new" for c
  proof -
    have "set (all_children graph) - set (path @ [c]) = (set (all_children graph) - set path) - {c}" by auto
    moreover have "c \<in> set (all_children graph) - set path" using that children_bound(2) [OF assms] by auto
    ultimately show ?thesis unfolding path_weight_def B_def k_def by (simp add: card_Diff_singleton)
  qed
  then have "map (path_weight graph) (map (\<lambda>c. path @ [c]) ?new) = map (\<lambda>c. Suc B ^ (k - 1)) ?new"
    by simp
  then have sum: "sum_list (map (path_weight graph) (map (\<lambda>c. path @ [c]) ?new)) = length ?new * Suc B ^ (k - 1)"
    by (simp only: sum_list_triv)  simp
  show ?thesis
  proof (cases "?new = []")
    case True
    then show ?thesis unfolding sum by (simp add: path_weight_def)
  next
    case False
    then obtain c where "c \<in> set ?new" by (meson ex_in_conv set_empty)
    then have "0 < k" using children_bound(2) [OF assms] by (auto simp: k_def card_gt_0_iff)
    have "length ?new \<le> B" using children_bound(1) [OF assms] length_filter_le order_trans unfolding B_def by blast
    then have "length ?new * Suc B ^ (k - 1) < Suc B * Suc B ^ (k - 1)"
      by (intro mult_strict_right_mono) simp_all
    also have "\<dots> = path_weight graph path"
      using \<open>0 < k\<close> by (simp add: path_weight_def B_def k_def flip: power_Suc)
    finally show ?thesis unfolding sum .
  qed
qed

function walk_paths ::
    "'a graph \<Rightarrow> 'a list list \<Rightarrow> 'a list list \<Rightarrow> 'a set \<Rightarrow> py_error + 'a list list \<times> 'a set" where
  "walk_paths graph cycles paths visited_nodes =
     (if paths = [] then Inr (cycles, visited_nodes)
      else
        let path = last paths
        in case dget graph (last path) of
             None \<Rightarrow> walk_paths graph cycles (butlast paths) visited_nodes
           | Some children \<Rightarrow>
               rbind (for_each (visit_child path) (cycles, butlast paths, visited_nodes) children)
                 (\<lambda>(cycles, paths, visited_nodes). walk_paths graph cycles paths visited_nodes))"
  by pat_completeness auto
termination
proof (relation "measure (\<lambda>(graph, _, paths, _). sum_list (map (path_weight graph) paths))", goal_cases)
  case (2 graph cycles paths visited path)
  then show ?case
    by (cases paths rule: rev_cases) (simp_all add: path_weight_def)
next
  case (3 graph cycles paths visited path children r cycles' pv paths' visited')
  from 3 have "paths' = butlast paths @ map (\<lambda>c. path @ [c]) (filter (\<lambda>c. c \<notin> set path) children)"
    by (auto dest: visit_child_fold sym)
  with 3 weight_push [of graph "last path" children path] show ?case
    by (cases paths rule: rev_cases) auto
qed simp

declare walk_paths.simps [simp del]

definition start_walk ::
    "'a graph \<Rightarrow> 'a list list \<times> 'a set \<Rightarrow> 'a \<Rightarrow> py_error + 'a list list \<times> 'a set" where
  "start_walk graph st parent =
     (case st of (cycles, visited_nodes) \<Rightarrow>
       if parent \<in> visited_nodes then Inr (cycles, visited_nodes)
       else walk_paths graph cycles [[parent]] visited_nodes)"

definition find_cycles :: "('a list \<Rightarrow> 'a list) \<Rightarrow> 'a graph \<Rightarrow> py_error + 'a list list" where
  "find_cycles ord parent_children =
     rbind (for_each (start_walk parent_children) ([], {}) (ord (dkeys parent_children)))
       (\<lambda>(cycles, visited_nodes). Inr cycles)"

section \<open>What it is meant to find\<close>

definition edge :: "'a graph \<Rightarrow> 'a \<Rightarrow> 'a \<Rightarrow> bool" where
  "edge graph a b \<longleftrightarrow> (\<exists>children. dget graph a = Some children \<and> b \<in> set children)"

fun walk :: "'a graph \<Rightarrow> 'a \<Rightarrow> 'a list \<Rightarrow> bool" where
  "walk graph a [] = True"
| "walk graph a (b # bs) = (edge graph a b \<and> walk graph b bs)"

definition simple_cycle :: "'a graph \<Rightarrow> 'a list \<Rightarrow> bool" where
  "simple_cycle graph c \<longleftrightarrow>
     c \<noteq> [] \<and> distinct c \<and> walk graph (hd c) (tl c) \<and> edge graph (last c) (hd c)"

definition recorded :: "'a list list \<Rightarrow> 'a list \<Rightarrow> bool" where
  "recorded cycles c \<longleftrightarrow> (\<exists>cyc \<in> set cycles. \<exists>n. c = rotate n cyc)"

definition simple_path :: "'a graph \<Rightarrow> 'a list \<Rightarrow> bool" where
  "simple_path graph p \<longleftrightarrow> p \<noteq> [] \<and> distinct p \<and> walk graph (hd p) (tl p)"

lemma walk_append: "walk graph a (xs @ ys) \<longleftrightarrow> walk graph a xs \<and> walk graph (last (a # xs)) ys"
  by (induction xs arbitrary: a) auto

lemma simple_path_snoc:
  "p \<noteq> [] \<Longrightarrow> simple_path graph (p @ [c]) \<longleftrightarrow> simple_path graph p \<and> c \<notin> set p \<and> edge graph (last p) c"
  by (cases p) (auto simp: simple_path_def walk_append)

lemma simple_path_append:
  "p \<noteq> [] \<Longrightarrow> q \<noteq> [] \<Longrightarrow> simple_path graph (p @ q) \<longleftrightarrow>
     simple_path graph p \<and> simple_path graph q \<and> set p \<inter> set q = {} \<and> edge graph (last p) (hd q)"
  by (cases p; cases q) (auto simp: simple_path_def walk_append)

lemma simple_cycle_path: "simple_cycle graph c \<longleftrightarrow> simple_path graph c \<and> edge graph (last c) (hd c)"
  by (auto simp: simple_cycle_def simple_path_def)

lemma simple_cycle_rotate1: "simple_cycle graph c \<Longrightarrow> simple_cycle graph (rotate1 c)"
  by (cases c; cases "tl c") (auto simp: simple_cycle_path simple_path_def walk_append)

lemma simple_cycle_rotate: "simple_cycle graph c \<Longrightarrow> simple_cycle graph (rotate n c)"
  by (induction n) (simp_all add: simple_cycle_rotate1)

lemma recorded_mono: "recorded cycles c \<Longrightarrow> set cycles \<subseteq> set cycles' \<Longrightarrow> recorded cycles' c"
  by (auto simp: recorded_def)

lemma recorded_self: "c \<in> set cycles \<Longrightarrow> recorded cycles c"
  unfolding recorded_def by (metis rotate0 id_apply)

lemma recorded_rotate: "recorded cycles (rotate n c) \<longleftrightarrow> recorded cycles c"
proof
  assume "recorded cycles (rotate n c)"
  then obtain other m where other: "other \<in> set cycles" "rotate n c = rotate m other" by (auto simp: recorded_def)
  obtain k where "c = rotate k (rotate n c)"
  proof (cases "c = []")
    case False
    have "rotate (length c * n - n) (rotate n c) = rotate (length c * n) c"
      using False by (cases c) (simp_all add: rotate_rotate add.commute)
    then show ?thesis using that by (metis rotate_id mod_mult_self1_is_0)
  qed (use that in auto)
  with other show "recorded cycles c" unfolding recorded_def by (metis rotate_rotate)
qed (auto simp: recorded_def rotate_rotate, blast)

text \<open>Reading \<open>cycles\<close> never fails, as every cycle in it is non-empty.\<close>

lemma is_dup_eq: "[] \<notin> set cycles \<Longrightarrow> is_dup cycles c = Inr (recorded cycles c)"
  by (induction cycles) (auto simp: is_rotated_eq recorded_def)

definition cycles_ok :: "'a graph \<Rightarrow> 'a list list \<Rightarrow> bool" where
  "cycles_ok graph cycles \<longleftrightarrow>
     (\<forall>c \<in> set cycles. simple_cycle graph c) \<and> sorted_wrt (\<lambda>a b. \<nexists>n. b = rotate n a) cycles"

lemma cycles_ok_nonempty: "cycles_ok graph cycles \<Longrightarrow> [] \<notin> set cycles"
  by (auto simp: cycles_ok_def simple_cycle_def)

lemma cycles_ok_add:
  "cycles_ok graph cycles \<Longrightarrow> simple_cycle graph c \<Longrightarrow> \<not> recorded cycles c \<Longrightarrow> cycles_ok graph (cycles @ [c])"
  by (auto simp: cycles_ok_def sorted_wrt_append recorded_def)

lemma split_at_child:
  assumes "child \<in> set p"
  obtains ys zs where "p = ys @ child # zs" "child \<notin> set ys" "path_index p child = length ys"
proof -
  obtain ys zs where "p = ys @ child # zs" "child \<notin> set ys" using split_list_first [OF assms] by blast
  moreover from this have "path_index p child = length ys"
    by (simp add: path_index_def) (subst takeWhile_append2, auto)
  ultimately show thesis by (rule that)
qed

lemma closing_cycle:
  assumes "simple_path graph p" "child \<in> set p" "edge graph (last p) child"
  shows "simple_cycle graph (drop (path_index p child) p)"
proof -
  obtain ys zs where p: "p = ys @ child # zs" "path_index p child = length ys"
    using split_at_child [OF assms(2)] by metis
  have "simple_path graph (child # zs)"
    using assms(1) simple_path_append [of ys "child # zs" graph] by (cases "ys = []") (simp_all add: p)
  with assms(3) p show ?thesis by (simp add: simple_cycle_path)
qed

text \<open>One node of a path: its children that lie on the path close cycles, the others extend it.\<close>

lemma visit_children:
  assumes "cycles_ok graph cycles" "simple_path graph path" "\<forall>c \<in> set children. edge graph (last path) c"
  shows "\<exists>cycles'. for_each (visit_child path) (cycles, paths, visited) children =
        Inr (cycles', paths @ map (\<lambda>c. path @ [c]) (filter (\<lambda>c. c \<notin> set path) children),
             visited \<union> (set children - set path))
      \<and> cycles_ok graph cycles' \<and> set cycles \<subseteq> set cycles'
      \<and> (\<forall>c \<in> set children \<inter> set path. recorded cycles' (drop (path_index path c) path))"
  using assms(1,3)
proof (induction children arbitrary: cycles paths visited)
  case (Cons c children)
  define cyc where "cyc = drop (path_index path c) path"
  define cycles1 where "cycles1 = (if c \<in> set path \<and> \<not> recorded cycles cyc then cycles @ [cyc] else cycles)"
  have "simple_cycle graph cyc" if "c \<in> set path"
    using closing_cycle [OF assms(2) that] Cons.prems(2) by (simp add: cyc_def)
  then have ok: "cycles_ok graph cycles1" using Cons.prems(1) cycles_ok_add by (auto simp: cycles1_def)
  have sub: "set cycles \<subseteq> set cycles1" by (auto simp: cycles1_def)
  have rec: "c \<in> set path \<Longrightarrow> recorded cycles1 cyc" by (auto simp: cycles1_def intro: recorded_self)
  have step: "visit_child path (cycles, paths, visited) c =
      Inr (cycles1, if c \<in> set path then paths else paths @ [path @ [c]],
           if c \<in> set path then visited else insert c visited)"
    using is_dup_eq [OF cycles_ok_nonempty [OF Cons.prems(1)]]
    by (cases "c \<in> set path") (auto simp: visit_child_simps cycles1_def cyc_def)
  from Cons.IH [OF ok, of "if c \<in> set path then paths else paths @ [path @ [c]]"
      "if c \<in> set path then visited else insert c visited"] Cons.prems(2)
  obtain cycles' where "for_each (visit_child path) (cycles, paths, visited) (c # children) =
        Inr (cycles', paths @ map (\<lambda>c. path @ [c]) (filter (\<lambda>c. c \<notin> set path) (c # children)),
             visited \<union> (set (c # children) - set path))"
      "cycles_ok graph cycles'" "set cycles1 \<subseteq> set cycles'"
      "\<forall>c \<in> set children \<inter> set path. recorded cycles' (drop (path_index path c) path)"
    by (cases "c \<in> set path") (auto simp: step insert_Diff_if)
  then show ?case using sub rec recorded_mono [OF rec] by (intro exI [of _ cycles']) (auto simp: cyc_def)
qed simp

text \<open>The extensions of the stacked paths are all walked, and every cycle one of them closes is recorded.\<close>

definition extensions :: "'a graph \<Rightarrow> 'a list list \<Rightarrow> 'a list set" where
  "extensions graph paths = {p @ q |p q. p \<in> set paths \<and> simple_path graph (p @ q)}"

lemma extensionsI: "p \<in> set paths \<Longrightarrow> simple_path graph (p @ q) \<Longrightarrow> p @ q \<in> extensions graph paths"
  by (auto simp: extensions_def)

lemma extensions_append: "extensions graph (xs @ ys) = extensions graph xs \<union> extensions graph ys"
  by (auto simp: extensions_def)

lemma extensions_step:
  assumes "path \<noteq> []"
  shows "extensions graph [path] \<subseteq> {path} \<union>
    extensions graph (map (\<lambda>c. path @ [c]) (filter (\<lambda>c. c \<notin> set path) (case dget graph (last path) of None \<Rightarrow> [] | Some cs \<Rightarrow> cs)))"
proof
  fix e assume "e \<in> extensions graph [path]"
  then obtain q where e: "e = path @ q" "simple_path graph (path @ q)" by (auto simp: extensions_def)
  show "e \<in> {path} \<union> extensions graph (map (\<lambda>c. path @ [c])
      (filter (\<lambda>c. c \<notin> set path) (case dget graph (last path) of None \<Rightarrow> [] | Some cs \<Rightarrow> cs)))"
  proof (cases q)
    case (Cons c q')
    then have "edge graph (last path) c" "c \<notin> set path"
      using e(2) simple_path_append [OF assms, of q] by auto
    with e Cons show ?thesis
      by (fastforce simp: extensions_def edge_def)
  qed (use e in simp)
qed

definition closes :: "'a graph \<Rightarrow> 'a list list \<Rightarrow> 'a list \<Rightarrow> bool" where
  "closes graph cycles p \<longleftrightarrow>
     (\<forall>c \<in> set p. edge graph (last p) c \<longrightarrow> recorded cycles (drop (path_index p c) p))"

lemma closes_mono: "closes graph cycles p \<Longrightarrow> set cycles \<subseteq> set cycles' \<Longrightarrow> closes graph cycles' p"
  by (auto simp: closes_def intro: recorded_mono)

definition walked :: "'a graph \<Rightarrow> 'a list list \<Rightarrow> 'a list list \<Rightarrow> 'a set \<Rightarrow> 'a list list \<Rightarrow> 'a set \<Rightarrow> bool" where
  "walked graph cycles paths visited cycles' visited' \<longleftrightarrow>
     cycles_ok graph cycles' \<and> set cycles \<subseteq> set cycles'
     \<and> visited' \<subseteq> visited \<union> \<Union> (set ` extensions graph paths)
     \<and> (\<forall>p \<in> extensions graph paths. closes graph cycles' p)"

lemma walked_step:
  assumes "walked graph cycles1 paths1 visited1 cycles' visited'" "set cycles \<subseteq> set cycles1"
    "closes graph cycles1 path" "extensions graph paths \<subseteq> {path} \<union> extensions graph paths1"
    "extensions graph paths1 \<subseteq> extensions graph paths"
    "visited1 \<subseteq> visited \<union> \<Union> (set ` extensions graph paths)"
  shows "walked graph cycles paths visited cycles' visited'"
proof -
  have "\<Union> (set ` extensions graph paths1) \<subseteq> \<Union> (set ` extensions graph paths)"
    using assms(5) by (rule UN_mono) simp
  then have "visited' \<subseteq> visited \<union> \<Union> (set ` extensions graph paths)"
    using assms(1,6) unfolding walked_def by (meson Un_least Un_upper2 order_trans)
  moreover have "closes graph cycles' path" using assms(1,3) closes_mono by (metis walked_def)
  then have "\<forall>p \<in> extensions graph paths. closes graph cycles' p"
    using assms(1,4) by (auto simp: walked_def)
  ultimately show ?thesis using assms(1,2) by (auto simp: walked_def)
qed

text \<open>One path is taken off the list, and its simple extensions by one node are put there.\<close>

lemma walk_path:
  assumes path: "simple_path graph path" "path \<noteq> []" and ok: "cycles_ok graph cycles"
    and rest: "\<forall>p \<in> set rest. simple_path graph p" and children: "dget graph (last path) = Some children"
  defines "new \<equiv> map (\<lambda>c. path @ [c]) (filter (\<lambda>c. c \<notin> set path) children)"
  obtains cycles1 where
    "for_each (visit_child path) (cycles, rest, visited) children = Inr (cycles1, rest @ new, visited \<union> (set children - set path))"
    "cycles_ok graph cycles1" "\<forall>p \<in> set (rest @ new). simple_path graph p"
    "\<And>cycles' visited'. walked graph cycles1 (rest @ new) (visited \<union> (set children - set path)) cycles' visited' \<Longrightarrow>
      walked graph cycles (rest @ [path]) visited cycles' visited'"
proof -
  have edges: "\<forall>c \<in> set children. edge graph (last path) c" using children by (auto simp: edge_def)
  from visit_children [OF ok path(1) edges, of rest visited]
  obtain cycles1 where loop: "for_each (visit_child path) (cycles, rest, visited) children =
      Inr (cycles1, rest @ new, visited \<union> (set children - set path))"
    and ok1: "cycles_ok graph cycles1" "set cycles \<subseteq> set cycles1"
    and rec: "\<forall>c \<in> set children \<inter> set path. recorded cycles1 (drop (path_index path c) path)" unfolding new_def by blast
  have simple: "\<forall>p \<in> set (rest @ new). simple_path graph p"
    using rest path edges by (auto simp: simple_path_snoc new_def)
  have closes: "closes graph cycles1 path" using rec children by (auto simp: closes_def edge_def)
  have ext: "extensions graph (rest @ [path]) \<subseteq> {path} \<union> extensions graph (rest @ new)"
    using extensions_step [OF path(2), of graph] children by (auto simp: extensions_append new_def)
  have ext2: "extensions graph (rest @ new) \<subseteq> extensions graph (rest @ [path])"
    by (auto simp: extensions_append extensions_def new_def) blast+
  have "set children - set path \<subseteq> \<Union> (set ` extensions graph (rest @ [path]))"
  proof
    fix c assume "c \<in> set children - set path"
    then have "path @ [c] \<in> extensions graph (rest @ [path])"
      using path edges by (intro extensionsI) (auto simp: simple_path_snoc)
    then show "c \<in> \<Union> (set ` extensions graph (rest @ [path]))" by force
  qed
  then have "walked graph cycles (rest @ [path]) visited cycles' visited'"
    if "walked graph cycles1 (rest @ new) (visited \<union> (set children - set path)) cycles' visited'" for cycles' visited'
    by (intro walked_step [OF that ok1(2) closes ext ext2]) blast
  with loop ok1(1) simple show thesis by (rule that)
qed

lemma walk_paths_total:
  assumes "cycles_ok graph cycles" "\<forall>p \<in> set paths. simple_path graph p"
  shows "\<exists>cycles' visited'. walk_paths graph cycles paths visited = Inr (cycles', visited')
    \<and> walked graph cycles paths visited cycles' visited'"
  using assms
proof (induction graph cycles paths visited rule: walk_paths.induct)
  case (1 graph cycles paths visited)
  show ?case
  proof (cases paths rule: rev_cases)
    case Nil
    with "1.prems" show ?thesis by (auto simp: walk_paths.simps walked_def extensions_def)
  next
    case (snoc rest path)
    then have path: "simple_path graph path" "path \<noteq> []" "paths \<noteq> []" "path = last paths" "butlast paths = rest"
      and rest: "\<forall>p \<in> set rest. simple_path graph p" using "1.prems"(2) by (auto simp: simple_path_def)
    show ?thesis
    proof (cases "dget graph (last path)")
      case None
      have ext: "extensions graph paths \<subseteq> {path} \<union> extensions graph rest"
        "extensions graph rest \<subseteq> extensions graph paths"
        using extensions_step [OF path(2), of graph] None by (auto simp: snoc extensions_append extensions_def)
      have closes: "closes graph cycles' path" for cycles'
        using None by (simp add: closes_def edge_def)
      have "walk_paths graph cycles paths visited = walk_paths graph cycles rest visited"
        using None path(3,5) by (subst walk_paths.simps) (simp add: path(4) [symmetric])
      moreover obtain cycles' visited' where "walk_paths graph cycles rest visited = Inr (cycles', visited')"
        "walked graph cycles rest visited cycles' visited'"
        using "1.IH"(1) [OF path(3,4) None "1.prems"(1)] rest path(5) by auto
      moreover from walked_step [OF this(2) subset_refl closes ext] have "walked graph cycles paths visited cycles' visited'" by simp
      ultimately show ?thesis by metis
    next
      case (Some children)
      define new where "new = map (\<lambda>c. path @ [c]) (filter (\<lambda>c. c \<notin> set path) children)"
      define visited1 where "visited1 = visited \<union> (set children - set path)"
      obtain cycles1 where loop: "for_each (visit_child path) (cycles, rest, visited) children = Inr (cycles1, rest @ new, visited1)"
        and ok: "cycles_ok graph cycles1" "\<forall>p \<in> set (rest @ new). simple_path graph p"
        and whole: "\<And>cycles' visited'. walked graph cycles1 (rest @ new) visited1 cycles' visited' \<Longrightarrow>
          walked graph cycles paths visited cycles' visited'"
        using walk_path [OF path(1,2) "1.prems"(1) rest Some, of visited, folded new_def visited1_def snoc] by blast
      obtain cycles' visited' where run: "walk_paths graph cycles1 (rest @ new) visited1 = Inr (cycles', visited')"
        and w: "walked graph cycles1 (rest @ new) visited1 cycles' visited'"
        using "1.IH"(2) [OF path(3,4) Some, of "(cycles1, rest @ new, visited1)" cycles1 "(rest @ new, visited1)" "rest @ new" visited1]
          loop ok path(5) by auto
      have "walk_paths graph cycles paths visited = Inr (cycles', visited')"
        using Some run path(3,5) loop unfolding path(4) [symmetric] by (subst walk_paths.simps) (simp add: path(4) [symmetric])
      with whole [OF w] show ?thesis by metis
    qed
  qed
qed

section \<open>Every cycle, once\<close>

text \<open>A cycle that meets a path from the root is closed by an extension of that path.\<close>

lemma path_to_cycle:
  assumes "simple_path graph p" "set p \<inter> set c \<noteq> {}"
  obtains q x zs where "p = q @ x # zs" "x \<in> set c" "set q \<inter> set c = {}"
proof -
  from assms(2) have "\<exists>x \<in> set p. x \<in> set c" by blast
  from split_list_first_prop [OF this] show thesis using that by (auto simp: disjoint_iff)
qed

lemma cycle_recorded:
  assumes "simple_cycle graph c" "simple_path graph (root # p)" "set (root # p) \<inter> set c \<noteq> {}"
    and closed: "\<And>e. e \<in> extensions graph [[root]] \<Longrightarrow> closes graph cycles e"
  shows "recorded cycles c"
proof -
  obtain q x zs where qx: "root # p = q @ x # zs" "x \<in> set c" "set q \<inter> set c = {}"
    by (rule path_to_cycle [OF assms(2,3)])
  obtain as bs where c: "c = as @ x # bs" using split_list [OF qx(2)] by blast
  define r where "r = rotate (length as) c"
  have r: "r = x # bs @ as" "simple_cycle graph r" "set r = set c"
    using simple_cycle_rotate [OF assms(1), of "length as"] rotate_append [of as "x # bs"] by (auto simp: r_def c)
  have path: "simple_path graph (q @ r)"
  proof (cases "q = []")
    case False
    with assms(2) qx(1) have "simple_path graph q" "edge graph (last q) x"
      using simple_path_append [of q "x # zs" graph] by auto
    with False r qx(3) show ?thesis by (simp add: simple_path_append simple_cycle_path)
  qed (use r in \<open>simp add: simple_cycle_path\<close>)
  moreover have "hd (q @ r) = root" using qx(1) r(1) by (cases q) auto
  then have "q @ r = [root] @ tl (q @ r)" using r(1) by (cases "q @ r") auto
  ultimately have "q @ r \<in> extensions graph [[root]]" unfolding extensions_def by force
  then have "closes graph cycles (q @ r)" by (rule closed)
  moreover have "edge graph (last (q @ r)) x" using r(1,2) by (simp add: simple_cycle_path)
  moreover have "path_index (q @ r) x = length q"
  proof -
    have "\<forall>y \<in> set q. y \<noteq> x" using qx(2,3) by blast
    then show ?thesis unfolding path_index_def by (subst takeWhile_append2) (auto simp: r(1))
  qed
  ultimately have "recorded cycles r" using r(1) by (simp add: closes_def)
  then show ?thesis by (simp add: r_def recorded_rotate)
qed

text \<open>The loop over the starting points: what lies beyond a visited node is settled.\<close>

definition settled :: "'a graph \<Rightarrow> 'a list list \<Rightarrow> 'a \<Rightarrow> bool" where
  "settled graph cycles x \<longleftrightarrow> (\<forall>c. simple_cycle graph c \<and> x \<in> set c \<longrightarrow> recorded cycles c)"

lemma settled_mono: "settled graph cycles x \<Longrightarrow> set cycles \<subseteq> set cycles' \<Longrightarrow> settled graph cycles' x"
  by (auto simp: settled_def intro: recorded_mono)

lemma start_walk_step:
  assumes "cycles_ok graph cycles" "\<forall>x \<in> visited. settled graph cycles x"
  shows "\<exists>cycles' visited'. start_walk graph (cycles, visited) parent = Inr (cycles', visited')
    \<and> cycles_ok graph cycles' \<and> set cycles \<subseteq> set cycles'
    \<and> (\<forall>x \<in> insert parent visited'. settled graph cycles' x)"
proof (cases "parent \<in> visited")
  case False
  have root: "simple_path graph [parent]" by (simp add: simple_path_def)
  from walk_paths_total [OF assms(1), of "[[parent]]" visited] root
  obtain cycles' visited' where run: "walk_paths graph cycles [[parent]] visited = Inr (cycles', visited')"
      and w: "walked graph cycles [[parent]] visited cycles' visited'" by auto
  then have sub: "set cycles \<subseteq> set cycles'"
    and vis: "visited' \<subseteq> visited \<union> \<Union> (set ` extensions graph [[parent]])"
    and closed: "\<And>e. e \<in> extensions graph [[parent]] \<Longrightarrow> closes graph cycles' e" by (auto simp: walked_def)
  have "settled graph cycles' x" if e: "e \<in> extensions graph [[parent]]" "x \<in> set e" for e x
  proof -
    obtain q where q: "e = parent # q" "simple_path graph (parent # q)" using e(1) by (auto simp: extensions_def)
    show ?thesis unfolding settled_def
    proof (intro allI impI)
      fix c assume "simple_cycle graph c \<and> x \<in> set c"
      then show "recorded cycles' c"
        using e(2) by (intro cycle_recorded [OF _ q(2) _ closed]) (auto simp: q(1))
    qed
  qed
  moreover have "parent \<in> \<Union> (set ` extensions graph [[parent]])"
    using root by (force simp: extensions_def)
  moreover have "settled graph cycles' x" if "x \<in> visited" for x
    using assms(2) that sub settled_mono by metis
  ultimately have "\<forall>x \<in> insert parent visited'. settled graph cycles' x" using vis by blast
  with run w sub False show ?thesis by (simp add: start_walk_def walked_def)
qed (use assms in \<open>auto simp: start_walk_def\<close>)

lemma find_cycles_total:
  "\<exists>cycles. find_cycles ord graph = Inr cycles \<and> cycles_ok graph cycles
     \<and> (\<forall>x \<in> set (ord (dkeys graph)). settled graph cycles x)"
proof -
  define I where "I ys st = (case st of (cycles, visited) \<Rightarrow> cycles_ok graph cycles
      \<and> (\<forall>x \<in> set ys \<union> visited. settled graph cycles x))" for ys st
  have "I [] ([], {})" by (simp add: I_def cycles_ok_def)
  moreover have "\<exists>st'. start_walk graph st x = Inr st' \<and> I (ys @ [x]) st'" if "I ys st" for ys x st
  proof -
    obtain cycles visited where st: "st = (cycles, visited)" by (cases st)
    with that have "cycles_ok graph cycles" "\<forall>x \<in> visited. settled graph cycles x"
      and ys: "\<forall>x \<in> set ys. settled graph cycles x" by (auto simp: I_def)
    from start_walk_step [OF this(1,2), of x] obtain cycles' visited' where
      "start_walk graph (cycles, visited) x = Inr (cycles', visited')" "cycles_ok graph cycles'"
      "set cycles \<subseteq> set cycles'" "\<forall>y \<in> insert x visited'. settled graph cycles' y" by blast
    with ys show ?thesis unfolding st by (auto simp: I_def intro: settled_mono)
  qed
  ultimately have "\<exists>st. for_each (start_walk graph) ([], {}) (ord (dkeys graph)) = Inr st \<and> I (ord (dkeys graph)) st"
    by (intro for_each_inv) blast
  then show ?thesis by (auto simp: find_cycles_def I_def)
qed

text \<open>
  Claim C4.  \<open>find_cycles\<close> ends and raises nothing, on every graph and whatever the order in
  which the dictionary is enumerated; each item it yields is a simple cycle of the graph (every
  node a parent of the next, the last one a parent of the first, no node twice), and no item is a
  rotation of an earlier one.
\<close>

theorem find_cycles_sound:
  "\<exists>cycles. find_cycles ord graph = Inr cycles
     \<and> (\<forall>c \<in> set cycles. simple_cycle graph c) \<and> sorted_wrt (\<lambda>a b. \<nexists>n. b = rotate n a) cycles"
  using find_cycles_total [of ord graph] by (auto simp: cycles_ok_def)

theorem find_cycles_sound_witness:
  "find_cycles (\<lambda>xs. xs) [(1::nat, [2]), (2, [3, 1]), (3, [2])] = Inr [[1, 2], [2, 3]]
    \<and> simple_cycle [(1, [2]), (2, [3, 1]), (3, [2])] [1, 2::nat]"
proof -
  have run: "find_cycles (\<lambda>xs. xs) [(1::nat, [2]), (2, [3, 1]), (3, [2])] = Inr [[1, 2], [2, 3]]" by code_simp
  with find_cycles_sound [of "\<lambda>xs. xs" "[(1::nat, [2]), (2, [3, 1]), (3, [2])]"] show ?thesis by simp
qed

text \<open>
  Claim C3.  \<open>find_cycles\<close> misses nothing: every simple cycle of the graph is a rotation of one
  it yields, although a node met on an earlier walk is never a starting point.  The hypothesis is
  that enumerating the dictionary gives each of its keys.
\<close>

theorem find_cycles_complete:
  assumes "dict_order ord" "simple_cycle graph c"
  shows "\<exists>cycles. find_cycles ord graph = Inr cycles \<and> (\<exists>found \<in> set cycles. \<exists>n. c = rotate n found)"
proof -
  obtain cycles where cycles: "find_cycles ord graph = Inr cycles"
    "\<forall>x \<in> set (ord (dkeys graph)). settled graph cycles x"
    using find_cycles_total [of ord graph] by metis
  have "last c \<in> set (ord (dkeys graph))"
    using assms by (auto simp: simple_cycle_def edge_def)
  then have "recorded cycles c"
    using cycles(2) assms(2) by (auto simp: settled_def simple_cycle_def)
  with cycles(1) show ?thesis by (simp add: recorded_def)
qed

theorem find_cycles_complete_witness:
  "\<exists>cycles. find_cycles rev [(1::nat, [2]), (2, [3]), (3, [2, 4])] = Inr cycles
     \<and> (\<exists>found \<in> set cycles. \<exists>n. [3, 2] = rotate n found)"
proof (rule find_cycles_complete)
  show "dict_order (rev :: nat list \<Rightarrow> nat list)" by simp
  show "simple_cycle [(1::nat, [2]), (2, [3]), (3, [2, 4])] [3, 2]"
    by (simp add: simple_cycle_def edge_def dget_def)
qed

end
