(* ===== verification/CheckStyle.thy ===== *)
theory CheckStyle
  imports PyDict
begin

text \<open>
  The style checker (\<open>utils/check-style.py\<close>): the patch data model (\<open>PatchChunkLine\<close>,
  \<open>PatchChunk\<close>, \<open>Patch\<close>), the reader \<open>parse_patchset\<close> and the writers, the pass
  \<open>remove_trailing_whitespace_changes\<close> and the decisions of \<open>indent\<close>, \<open>indent_files\<close> and the
  main program.  The source and the destination side of a chunk share their line objects, so
  the pass works on positions in the one list of lines.
\<close>

section \<open>Patches\<close>

datatype line_type = INVALID | SRC | DST | BOTH

record patch_line =
  kind :: line_type
  content :: string

definition is_src :: "patch_line \<Rightarrow> bool" where
  "is_src l = (kind l = SRC \<or> kind l = BOTH)"

definition is_dst :: "patch_line \<Rightarrow> bool" where
  "is_dst l = (kind l = DST \<or> kind l = BOTH)"

definition append_to_line :: "patch_line \<Rightarrow> string \<Rightarrow> patch_line" where
  "append_to_line l s = l\<lparr>content := content l @ s\<rparr>"

definition newline :: string where
  "newline = [CHR 0x0A]"

definition write_line :: "patch_line \<Rightarrow> py_error + string" where
  "write_line l =
     (case kind l of
        SRC \<Rightarrow> Inr (''-'' @ content l @ newline)
      | DST \<Rightarrow> Inr (''+'' @ content l @ newline)
      | BOTH \<Rightarrow> Inr ('' '' @ content l @ newline)
      | INVALID \<Rightarrow> Inl (PlainException ''invalid patch''))"

record chunk =
  lines :: "patch_line list"
  src_pos :: nat
  dst_pos :: nat

text \<open>The positions of the lines that \<open>src()\<close> and \<open>dst()\<close> collect.\<close>

definition src :: "chunk \<Rightarrow> nat list" where
  "src c = filter (\<lambda>i. is_src (lines c ! i)) [0..<length (lines c)]"

definition dst :: "chunk \<Rightarrow> nat list" where
  "dst c = filter (\<lambda>i. is_dst (lines c ! i)) [0..<length (lines c)]"

definition src_len :: "chunk \<Rightarrow> nat" where
  "src_len c = length (src c)"

definition dst_len :: "chunk \<Rightarrow> nat" where
  "dst_len c = length (dst c)"

definition chunk_header :: "chunk \<Rightarrow> string" where
  "chunk_header c = ''@@ -'' @ show_nat (src_pos c) @ '','' @ show_nat (src_len c) @
     '' +'' @ show_nat (dst_pos c) @ '','' @ show_nat (dst_len c) @ '' @@'' @ newline"

definition emit_line :: "string list \<Rightarrow> patch_line \<Rightarrow> py_error + string list" where
  "emit_line f l = rbind (write_line l) (\<lambda>s. Inr (f @ [s]))"

definition write_chunk :: "string list \<Rightarrow> chunk \<Rightarrow> py_error + string list" where
  "write_chunk f c = for_each emit_line (f @ [chunk_header c]) (lines c)"

record patch =
  src_name :: string
  dst_name :: string
  chunks :: "chunk list"

definition write_patch :: "string list \<Rightarrow> patch \<Rightarrow> py_error + string list" where
  "write_patch f p =
     for_each write_chunk (f @ [''--- '' @ src_name p @ newline, ''+++ '' @ dst_name p @ newline]) (chunks p)"

section \<open>Reading patches\<close>

text \<open>
  The regular expressions.  \<open>prefix_match p\<close> is the pattern \<open>^p(.*)$\<close>: the rest of the line, which a final
  line feed may follow, and no line feed inside.
\<close>

definition prefix_match :: "string \<Rightarrow> string \<Rightarrow> string option" where
  "prefix_match p line =
     (if startswith line p then
        let rest = drop (length p) line;
            body = (if rest \<noteq> [] \<and> last rest = CHR 0x0A then butlast rest else rest)
        in if CHR 0x0A \<in> set body then None else Some body
      else None)"

definition expect :: "string \<Rightarrow> string \<Rightarrow> string option" where
  "expect p s = (if startswith s p then Some (drop (length p) s) else None)"

definition take_digits :: "string \<Rightarrow> (nat \<times> string) option" where
  "take_digits s =
     (let ds = takeWhile is_digit s in if ds = [] then None else Some (read_nat ds, dropWhile is_digit s))"

definition chunk_match :: "string \<Rightarrow> (nat \<times> nat) option" where
  "chunk_match line =
     Option.bind (expect ''@@ -'' line) (\<lambda>s. Option.bind (take_digits s) (\<lambda>(src_start, s).
     Option.bind (expect '','' s) (\<lambda>s. Option.bind (take_digits s) (\<lambda>(src_count, s).
     Option.bind (expect '' +'' s) (\<lambda>s. Option.bind (take_digits s) (\<lambda>(dst_start, s).
     Option.bind (expect '','' s) (\<lambda>s. Option.bind (take_digits s) (\<lambda>(dst_count, s).
     Option.bind (expect '' @@'' s) (\<lambda>s. Some (src_start, dst_start))))))))))"

datatype line_class = SrcFile string | DstFile string | ChunkStart nat nat | PatchLine patch_line

definition classify :: "string \<Rightarrow> line_class option" where
  "classify line =
     (case prefix_match ''--- '' line of Some m \<Rightarrow> Some (SrcFile m) | None \<Rightarrow>
      case prefix_match ''+++ '' line of Some m \<Rightarrow> Some (DstFile m) | None \<Rightarrow>
      case chunk_match line of Some (s, d) \<Rightarrow> Some (ChunkStart s d) | None \<Rightarrow>
      case prefix_match ''-'' line of Some m \<Rightarrow> Some (PatchLine \<lparr>kind = SRC, content = m\<rparr>) | None \<Rightarrow>
      case prefix_match ''+'' line of Some m \<Rightarrow> Some (PatchLine \<lparr>kind = DST, content = m\<rparr>) | None \<Rightarrow>
      case prefix_match '' '' line of Some m \<Rightarrow> Some (PatchLine \<lparr>kind = BOTH, content = m\<rparr>) | None \<Rightarrow> None)"

text \<open>
  The current patch is the last one of the set; the current chunk stays where it is when a new patch
  starts, so it is kept as a pair of positions.
\<close>

record reader =
  patchset :: "patch list"
  current_chunk :: "(nat \<times> nat) option"

definition add_line :: "patch list \<Rightarrow> nat \<times> nat \<Rightarrow> patch_line \<Rightarrow> patch list" where
  "add_line ps at l =
     (case at of (i, j) \<Rightarrow>
       let p = ps ! i; c = chunks p ! j
       in ps[i := p\<lparr>chunks := (chunks p)[j := c\<lparr>lines := lines c @ [l]\<rparr>]\<rparr>])"

definition read_line :: "reader \<Rightarrow> string \<Rightarrow> py_error + reader" where
  "read_line r line =
     (case classify line of
        Some (SrcFile m) \<Rightarrow>
          Inr (r\<lparr>patchset := patchset r @ [\<lparr>src_name = m, dst_name = [], chunks = []\<rparr>]\<rparr>)
      | Some (DstFile m) \<Rightarrow>
          if patchset r = [] then Inl AttributeError
          else Inr (r\<lparr>patchset := butlast (patchset r) @ [(last (patchset r))\<lparr>dst_name := m\<rparr>]\<rparr>)
      | Some (ChunkStart s d) \<Rightarrow>
          if patchset r = [] then Inl AttributeError
          else
            let p = last (patchset r)
            in Inr (r\<lparr>patchset := butlast (patchset r) @
                        [p\<lparr>chunks := chunks p @ [\<lparr>lines = [], src_pos = s, dst_pos = d\<rparr>]\<rparr>],
                      current_chunk := Some (length (patchset r) - 1, length (chunks p))\<rparr>)
      | Some (PatchLine l) \<Rightarrow>
          (case current_chunk r of
             None \<Rightarrow> Inl UnboundLocalError
           | Some at \<Rightarrow> Inr (r\<lparr>patchset := add_line (patchset r) at l\<rparr>))
      | None \<Rightarrow> Inl (PlainException []))"

definition parse_patchset :: "string list \<Rightarrow> py_error + patch list" where
  "parse_patchset generator =
     rbind (for_each read_line \<lparr>patchset = [], current_chunk = None\<rparr> generator) (\<lambda>r. Inr (patchset r))"

section \<open>The white space pass\<close>

text \<open>
  The pattern \<open>^(.*)([ \t]+)$\<close>.  The first group is greedy, so the second one is a single
  character.
\<close>

definition whitespace_match :: "string \<Rightarrow> (string \<times> string) option" where
  "whitespace_match line =
     Option.bind (prefix_match [] line) (\<lambda>m.
       if m \<noteq> [] \<and> (last m = CHR '' '' \<or> last m = CHR 0x09) then Some (butlast m, [last m]) else None)"

text \<open>The loop over \<open>range(0, len(src))\<close>; the flag is false when an index error ended it.\<close>

fun whitespace_loop :: "nat list \<Rightarrow> nat list \<Rightarrow> patch_line list \<Rightarrow> patch_line list \<times> bool" where
  "whitespace_loop [] dsts ls = (ls, True)"
| "whitespace_loop (s # srcs) [] ls = (ls, False)"
| "whitespace_loop (s # srcs) (d # dsts) ls =
     (case whitespace_match (content (ls ! s)) of
        Some (g1, g2) \<Rightarrow>
          if g1 = content (ls ! d) then whitespace_loop srcs dsts (ls[d := append_to_line (ls ! d) g2])
          else whitespace_loop srcs dsts ls
      | None \<Rightarrow> whitespace_loop srcs dsts ls)"

definition whitespace_chunk :: "chunk \<Rightarrow> chunk \<times> bool" where
  "whitespace_chunk c =
     (case whitespace_loop (src c) (dst c) (lines c) of (ls, ok) \<Rightarrow> (c\<lparr>lines := ls\<rparr>, ok))"

fun whitespace_chunks :: "chunk list \<Rightarrow> chunk list \<times> bool" where
  "whitespace_chunks [] = ([], True)"
| "whitespace_chunks (c # cs) =
     (case whitespace_chunk c of (c', ok) \<Rightarrow>
       if ok then (case whitespace_chunks cs of (cs', ok') \<Rightarrow> (c' # cs', ok')) else (c' # cs, False))"

fun whitespace_patches :: "patch list \<Rightarrow> patch list" where
  "whitespace_patches [] = []"
| "whitespace_patches (p # ps) =
     (case whitespace_chunks (chunks p) of (cs, ok) \<Rightarrow>
       p\<lparr>chunks := cs\<rparr> # (if ok then whitespace_patches ps else ps))"

definition remove_trailing_whitespace_changes :: "string list \<Rightarrow> py_error + patch list" where
  "remove_trailing_whitespace_changes patch_generator =
     rbind (parse_patchset patch_generator) (\<lambda>patchset. Inr (whitespace_patches patchset))"

section \<open>Indentation\<close>

text \<open>The lines of the configuration file that \<open>uncrustify_config_file\<close> writes.\<close>

definition level0 :: "string list" where
  "level0 = [
    ''sp_func_proto_paren=Add'',
    ''sp_func_def_paren=Add'',
    ''sp_func_call_paren=Add'',
    ''sp_after_semi_for=Ignore'',
    ''sp_before_sparen=Ignore'',
    ''sp_type_func=Ignore'',
    ''sp_after_type=Ignore'',
    ''nl_class_leave_one_liners=True'',
    ''nl_enum_leave_one_liners=True'',
    ''nl_func_leave_one_liners=True'',
    ''nl_assign_leave_one_liners=True'',
    ''#nl_collapse_empty_body=False'',
    ''nl_getset_leave_one_liners=True'',
    ''nl_if_leave_one_liners=True'',
    ''nl_fdef_brace=Ignore'',
    ''# finally, indentation configuration'',
    ''indent_with_tabs=0'',
    ''indent_namespace=false'',
    ''indent_columns=2'',
    ''indent_brace=2'',
    ''indent_case_brace=2'',
    ''indent_class=true'',
    ''indent_class_colon=True'',
    ''# alignment'',
    ''indent_align_assign=False'',
    ''align_left_shift=True'',
    ''# comment reformating disabled'',
    ''cmt_reflow_mode=1 # do not touch comments at all'',
    ''cmt_indent_multi=False # really, do not touch them'']"

definition level1 :: "string list" where
  "level1 = [
    ''# extra spaces here and there'',
    ''sp_brace_typedef=Add'',
    ''sp_enum_assign=Add'',
    ''sp_before_sparen=Add'',
    ''sp_after_semi_for=Add'',
    ''sp_arith=Add'',
    ''sp_assign=Add'',
    ''sp_compare=Add'',
    ''sp_func_class_paren=Add'',
    ''sp_after_type=Add'',
    ''sp_type_func=Add'',
    ''sp_angle_paren=Add'']"

definition level2 :: "string list" where
  "level2 = [
    ''nl_collapse_empty_body=False'',
    ''nl_if_brace=Add'',
    ''nl_brace_else=Add'',
    ''nl_elseif_brace=Add'',
    ''nl_else_brace=Add'',
    ''nl_while_brace=Add'',
    ''nl_do_brace=Add'',
    ''nl_for_brace=Add'',
    ''nl_brace_while=Add'',
    ''nl_switch_brace=Add'',
    ''nl_after_case=True'',
    ''nl_namespace_brace=Remove'',
    ''nl_after_brace_open=True'',
    ''nl_class_leave_one_liners=False'',
    ''nl_enum_leave_one_liners=False'',
    ''nl_func_leave_one_liners=False'',
    ''nl_if_leave_one_liners=False'',
    ''nl_class_colon=Ignore'',
    ''nl_after_access_spec=1'',
    ''nl_after_semicolon=True'',
    ''pos_class_colon=Lead'',
    ''pos_class_comma=Trail'',
    ''pos_bool=Lead'',
    ''nl_class_init_args=Add'',
    ''nl_template_class=Add'',
    ''nl_class_brace=Add'',
    ''# does not work very well'',
    ''nl_func_type_name=Ignore'',
    ''nl_func_scope_name=Ignore'',
    ''nl_func_type_name_class=Ignore'',
    ''nl_func_proto_type_name=Ignore'',
    ''# function'' @ [CHR 0x5C] @ ''n('',
    ''nl_func_paren=Remove'',
    ''nl_fdef_brace=Add'',
    ''nl_struct_brace=Add'',
    ''nl_enum_brace=Add'',
    ''nl_union_brace=Add'',
    ''mod_full_brace_do=Add'',
    ''mod_full_brace_for=Add'',
    ''mod_full_brace_if=Add'',
    ''mod_full_brace_while=Add'',
    ''mod_full_brace_for=Add'',
    ''mod_remove_extra_semicolon=True'',
    ''# max code width'',
    ''#code_width=128'',
    ''#ls_for_split_full=True'',
    ''#ls_func_split_full=True'']"

definition uncrustify_config_file :: "int \<Rightarrow> string list" where
  "uncrustify_config_file level =
     [[]] @ level0 @ (if 1 \<le> level then [] # level1 else []) @ (if 2 \<le> level then [] # level2 else [])"

text \<open>
  The programs and library functions that \<open>indent\<close> calls: \<open>uncrustify\<close> with a configuration and what
  it finds under the name of the source (\<open>None\<close> for no file; it answers \<open>None\<close> when it is not installed), \<open>difflib.unified_diff\<close>, \<open>patch\<close>, and the names of temporary
  files.  A file is the list of its lines.  On Python 3 the debug output writes the bytes the
  process returned to a text stream, which raises \<open>TypeError\<close>, so nothing behind it runs.
\<close>

record tools =
  uncrustify :: "string list \<Rightarrow> string list option \<Rightarrow> string list option"
  unified_diff :: "string \<Rightarrow> string \<Rightarrow> string list \<Rightarrow> string list \<Rightarrow> string list"
  patch_tool :: "string list \<Rightarrow> string list \<Rightarrow> string list"
  temp_name :: "string \<Rightarrow> string"

definition indent :: "tools \<Rightarrow> bool \<Rightarrow> int \<Rightarrow> string \<Rightarrow> string list option \<Rightarrow> py_error + string list" where
  "indent t debug level source source_file =
     (case uncrustify t (uncrustify_config_file level) source_file of
        None \<Rightarrow> Inl (PlainException ''uncrustify not installed'')
      | Some output_lines \<Rightarrow>
          if debug then Inl TypeError
          else case source_file of
            None \<Rightarrow> Inl FileNotFoundError
          | Some source_lines \<Rightarrow>
            let diff = unified_diff t source (temp_name t source) source_lines output_lines
            in rbind (if level < 3 then
                        rbind (remove_trailing_whitespace_changes diff) (\<lambda>patchset.
                          if length patchset \<noteq> 0 then write_patch [] (patchset ! 0) else Inr [])
                      else Inr diff)
                 (\<lambda>final_diff. Inr (patch_tool t final_diff source_lines)))"

type_synonym files = "string \<Rightarrow> string list option"

definition indent_one ::
    "tools \<Rightarrow> bool \<Rightarrow> int \<Rightarrow> files \<Rightarrow> (string \<times> string list) list \<Rightarrow> string \<Rightarrow> py_error + (string \<times> string list) list" where
  "indent_one t debug level fs outs f = rbind (indent t debug level f (fs f)) (\<lambda>d. Inr (outs @ [(f, d)]))"

definition indent_files ::
    "tools \<Rightarrow> bool \<Rightarrow> bool \<Rightarrow> int \<Rightarrow> bool \<Rightarrow> files \<Rightarrow> string list \<Rightarrow> py_error + bool \<times> files \<times> string list" where
  "indent_files t diff debug level inplace fs files =
     rbind (for_each (indent_one t debug level fs) [] files) (\<lambda>outs.
       if inplace then Inr (True, foldl (\<lambda>fs (f, d). fs(f \<mapsto> d)) fs outs, [])
       else
         let failed = filter (\<lambda>(f, d). fs f \<noteq> Some d) outs
         in if length failed > 0 then
              Inr (False, fs,
                if \<not> diff then
                  (''Found '' @ show_nat (length failed) @ '' badly indented files:'') # map (\<lambda>(f, d). ''  '' @ f) failed
                else concat (map (\<lambda>(f, d). unified_diff t f (temp_name t f) (the (fs f)) d) failed))
            else Inr (True, fs, []))"

text \<open>
  The mercurial hook and the main program; \<open>modified\<close> is what \<open>hg_modified_files\<close> lists.  The
  main program ends with \<open>sys.exit\<close>: the result is the exit status.
\<close>

record options =
  opt_debug :: bool
  opt_level :: int
  opt_hg_hook :: bool
  opt_hg :: bool
  opt_file :: string
  opt_diff :: bool
  opt_in_place :: bool

definition run_as_hg_hook :: "tools \<Rightarrow> files \<Rightarrow> string list \<Rightarrow> py_error + bool" where
  "run_as_hg_hook t fs modified = rbind (indent_files t False False 0 False fs modified) (\<lambda>(ok, fs, out). Inr (\<not> ok))"

definition run_as_main :: "tools \<Rightarrow> files \<Rightarrow> string list \<Rightarrow> options \<Rightarrow> py_error + int \<times> files \<times> string list" where
  "run_as_main t fs modified opts =
     (if opt_hg_hook opts then
        rbind (indent_files t False (opt_debug opts) (opt_level opts) False fs modified)
          (\<lambda>(ok, fs, out). Inr (if \<not> ok then 1 else 0, fs, out))
      else if opt_hg opts then
        rbind (indent_files t (opt_diff opts) (opt_debug opts) (opt_level opts) (opt_in_place opts) fs modified)
          (\<lambda>(ok, fs, out). Inr (0, fs, out))
      else if opt_file opts \<noteq> [] then
        if fs (opt_file opts) = None
        then Inr (1, fs, [''file '' @ opt_file opts @ '' does not exist''])
        else rbind (indent_files t (opt_diff opts) (opt_debug opts) (opt_level opts) (opt_in_place opts) fs [opt_file opts])
          (\<lambda>(ok, fs, out). Inr (0, fs, out))
      else Inr (0, fs, []))"

section \<open>Correctness: reading back what was written\<close>

definition one_line :: "string \<Rightarrow> bool" where
  "one_line s \<longleftrightarrow> CHR 0x0A \<notin> set s"

text \<open>
  The lines that can be written and read back: a deleted line must not start with two dashes and
  a blank, an added one not with two plus signs and a blank, or it would be read as a file header.
\<close>

definition readable_line :: "patch_line \<Rightarrow> bool" where
  "readable_line l \<longleftrightarrow> one_line (content l) \<and> kind l \<noteq> INVALID
     \<and> \<not> (kind l = SRC \<and> startswith (content l) ''-- '') \<and> \<not> (kind l = DST \<and> startswith (content l) ''++ '')"

definition readable :: "patch \<Rightarrow> bool" where
  "readable p \<longleftrightarrow> one_line (src_name p) \<and> one_line (dst_name p)
     \<and> (\<forall>c \<in> set (chunks p). \<forall>l \<in> set (lines c). readable_line l)"

lemma prefix_match_newline: "one_line s \<Longrightarrow> prefix_match p (p @ s @ newline) = Some s"
  by (simp add: prefix_match_def newline_def one_line_def)

lemma prefix_match_other: "\<not> startswith line p \<Longrightarrow> prefix_match p line = None"
  by (simp add: prefix_match_def)

lemma expect_append [simp]: "expect p (p @ s) = Some s"
  by (simp add: expect_def)

lemma expect_other: "\<not> startswith line p \<Longrightarrow> expect p line = None"
  by (simp add: expect_def)

lemma take_digits_show:
  assumes "s = [] \<or> \<not> is_digit (hd s)"
  shows "take_digits (show_nat n @ s) = Some (n, s)"
proof -
  have "takeWhile is_digit (show_nat n @ s) = show_nat n" "dropWhile is_digit (show_nat n @ s) = s"
    using show_nat_digits [of n] assms
    by (cases s; simp add: list_all_iff takeWhile_append2 dropWhile_append2)+
  then show ?thesis using show_nat_digits [of n] by (simp add: take_digits_def read_show_nat)
qed

lemma separators_no_digit [simp]: "\<not> is_digit (CHR '','')" "\<not> is_digit (CHR '' '')"
  by (simp_all add: is_digit_def)

lemma chunk_match_header: "chunk_match (chunk_header c) = Some (src_pos c, dst_pos c)"
  by (simp add: chunk_match_def chunk_header_def expect_def startswith_def take_digits_show)

lemma classify_header: "classify (chunk_header c) = Some (ChunkStart (src_pos c) (dst_pos c))"
proof -
  have "\<not> startswith (chunk_header c) ''--- ''" "\<not> startswith (chunk_header c) ''+++ ''"
    by (simp_all add: chunk_header_def startswith_def)
  then show ?thesis by (simp add: classify_def prefix_match_other chunk_match_header)
qed

lemma classify_names:
  "one_line s \<Longrightarrow> classify (''--- '' @ s @ newline) = Some (SrcFile s)"
  "one_line s \<Longrightarrow> classify (''+++ '' @ s @ newline) = Some (DstFile s)"
  using prefix_match_newline [of s "''--- ''"] prefix_match_newline [of s "''+++ ''"]
    prefix_match_other [of "''+++ '' @ s @ newline" "''--- ''"]
  by (simp_all add: classify_def startswith_def)

lemma startswith_newline:
  assumes "CHR 0x0A \<notin> set p"
  shows "startswith (s @ newline) p \<longleftrightarrow> startswith s p"
proof
  assume "startswith (s @ newline) p"
  then obtain t where t: "s @ newline = p @ t" by (auto simp: startswith_iff)
  with assms show "startswith s p"
    by (cases t rule: rev_cases) (auto simp: newline_def startswith_iff)
qed (auto simp: startswith_iff)

lemma classify_line:
  assumes "readable_line l"
  shows "\<exists>s. write_line l = Inr s \<and> classify s = Some (PatchLine l)"
proof -
  have one: "one_line (content l)" using assms by (simp add: readable_line_def)
  note body = prefix_match_newline [OF one, of "''-''"] prefix_match_newline [OF one, of "''+''"]
    prefix_match_newline [OF one, of "'' ''"]
  have head: "startswith (c # s @ newline) (c' # p) \<longleftrightarrow> c = c' \<and> startswith s p"
    if "CHR 0x0A \<notin> set p" for c c' s p
    using startswith_newline [OF that, of s] by (simp add: startswith_def)
  have chunk: "chunk_match (c # s) = None" if "c \<noteq> CHR ''@''" for c s
    using that by (simp add: chunk_match_def expect_def startswith_def)
  show ?thesis
  proof (cases "kind l")
    case SRC
    with assms have "\<not> startswith (content l) ''-- ''" by (simp add: readable_line_def)
    with SRC body show ?thesis
      by (cases l) (simp add: write_line_def classify_def prefix_match_other head chunk)
  next
    case DST
    with assms have "\<not> startswith (content l) ''++ ''" by (simp add: readable_line_def)
    with DST body show ?thesis
      by (cases l) (simp add: write_line_def classify_def prefix_match_other head chunk)
  next
    case BOTH
    with body show ?thesis
      by (cases l) (simp add: write_line_def classify_def prefix_match_other head chunk)
  qed (use assms in \<open>simp add: readable_line_def\<close>)
qed

text \<open>Reading a patch back: its lines, its chunks, its header.\<close>

lemma read_lines:
  assumes "\<forall>l \<in> set ls. readable_line l"
  shows "\<exists>out. for_each emit_line f ls = Inr (f @ out) \<and>
    for_each read_line \<lparr>patchset = ps @ [p\<lparr>chunks := cs @ [c]\<rparr>], current_chunk = Some (length ps, length cs)\<rparr> out =
      Inr \<lparr>patchset = ps @ [p\<lparr>chunks := cs @ [c\<lparr>lines := lines c @ ls\<rparr>]\<rparr>],
           current_chunk = Some (length ps, length cs)\<rparr>"
  using assms
proof (induction ls arbitrary: f c)
  case (Cons l ls)
  obtain s where s: "write_line l = Inr s" "classify s = Some (PatchLine l)"
    using classify_line Cons.prems by auto
  from Cons.IH [of "f @ [s]" "c\<lparr>lines := lines c @ [l]\<rparr>"] Cons.prems
  obtain out where out: "for_each emit_line (f @ [s]) ls = Inr ((f @ [s]) @ out)"
    "for_each read_line \<lparr>patchset = ps @ [p\<lparr>chunks := cs @ [c\<lparr>lines := lines c @ [l]\<rparr>]\<rparr>],
        current_chunk = Some (length ps, length cs)\<rparr> out =
      Inr \<lparr>patchset = ps @ [p\<lparr>chunks := cs @ [c\<lparr>lines := lines c @ l # ls\<rparr>]\<rparr>],
           current_chunk = Some (length ps, length cs)\<rparr>" by auto
  have "emit_line f l = Inr (f @ [s])" by (simp add: emit_line_def s)
  moreover have "read_line \<lparr>patchset = ps @ [p\<lparr>chunks := cs @ [c]\<rparr>], current_chunk = Some (length ps, length cs)\<rparr> s =
      Inr \<lparr>patchset = ps @ [p\<lparr>chunks := cs @ [c\<lparr>lines := lines c @ [l]\<rparr>]\<rparr>],
           current_chunk = Some (length ps, length cs)\<rparr>"
    by (simp add: s read_line_def add_line_def Let_def)
  ultimately show ?case using out by (intro exI [of _ "s # out"]) simp
qed simp

lemma read_chunk:
  assumes "\<forall>l \<in> set (lines c). readable_line l"
  shows "\<exists>out. write_chunk f c = Inr (f @ out) \<and>
    for_each read_line \<lparr>patchset = ps @ [p], current_chunk = cur\<rparr> out =
      Inr \<lparr>patchset = ps @ [p\<lparr>chunks := chunks p @ [c]\<rparr>], current_chunk = Some (length ps, length (chunks p))\<rparr>"
proof -
  define c0 where "c0 = \<lparr>lines = [], src_pos = src_pos c, dst_pos = dst_pos c\<rparr>"
  from read_lines [OF assms, where f = "f @ [chunk_header c]" and ps = ps and p = p and cs = "chunks p" and c = c0]
  obtain out where out: "for_each emit_line (f @ [chunk_header c]) (lines c) = Inr ((f @ [chunk_header c]) @ out)"
    "for_each read_line \<lparr>patchset = ps @ [p\<lparr>chunks := chunks p @ [c0]\<rparr>],
        current_chunk = Some (length ps, length (chunks p))\<rparr> out =
      Inr \<lparr>patchset = ps @ [p\<lparr>chunks := chunks p @ [c]\<rparr>],
           current_chunk = Some (length ps, length (chunks p))\<rparr>" by (auto simp: c0_def)
  have "read_line \<lparr>patchset = ps @ [p], current_chunk = cur\<rparr> (chunk_header c) =
      Inr \<lparr>patchset = ps @ [p\<lparr>chunks := chunks p @ [c0]\<rparr>], current_chunk = Some (length ps, length (chunks p))\<rparr>"
    by (simp add: read_line_def classify_header c0_def)
  with out show ?thesis
    by (intro exI [of _ "chunk_header c # out"]) (simp add: write_chunk_def)
qed

lemma read_chunks:
  assumes "\<forall>c \<in> set cs. \<forall>l \<in> set (lines c). readable_line l"
  shows "\<exists>out cur'. for_each write_chunk f cs = Inr (f @ out) \<and>
    for_each read_line \<lparr>patchset = ps @ [p], current_chunk = cur\<rparr> out =
      Inr \<lparr>patchset = ps @ [p\<lparr>chunks := chunks p @ cs\<rparr>], current_chunk = cur'\<rparr>"
  using assms
proof (induction cs arbitrary: f p cur)
  case (Cons c cs)
  obtain out1 where 1: "write_chunk f c = Inr (f @ out1)"
    "for_each read_line \<lparr>patchset = ps @ [p], current_chunk = cur\<rparr> out1 =
      Inr \<lparr>patchset = ps @ [p\<lparr>chunks := chunks p @ [c]\<rparr>], current_chunk = Some (length ps, length (chunks p))\<rparr>"
    using read_chunk [of c f ps p cur] Cons.prems by auto
  from Cons.IH [of "f @ out1" "p\<lparr>chunks := chunks p @ [c]\<rparr>" "Some (length ps, length (chunks p))"] Cons.prems
  obtain out2 cur' where "for_each write_chunk (f @ out1) cs = Inr ((f @ out1) @ out2)"
    "for_each read_line \<lparr>patchset = ps @ [p\<lparr>chunks := chunks p @ [c]\<rparr>],
        current_chunk = Some (length ps, length (chunks p))\<rparr> out2 =
      Inr \<lparr>patchset = ps @ [p\<lparr>chunks := chunks p @ c # cs\<rparr>], current_chunk = cur'\<rparr>" by auto
  with 1 show ?case
    by (intro exI [of _ "out1 @ out2"] exI [of _ cur']) (simp add: for_each_append)
next
  case Nil
  show ?case by (intro exI [of _ "[]"] exI) simp
qed

lemma read_patch:
  assumes "readable p"
  shows "\<exists>out cur'. write_patch f p = Inr (f @ out) \<and>
    for_each read_line \<lparr>patchset = ps, current_chunk = cur\<rparr> out = Inr \<lparr>patchset = ps @ [p], current_chunk = cur'\<rparr>"
proof -
  define h1 h2 where "h1 = ''--- '' @ src_name p @ newline" and "h2 = ''+++ '' @ dst_name p @ newline"
  have cl: "classify h1 = Some (SrcFile (src_name p))" "classify h2 = Some (DstFile (dst_name p))"
    using assms classify_names unfolding readable_def h1_def h2_def by blast+
  have heads: "read_line \<lparr>patchset = ps, current_chunk = cur\<rparr> h1 =
      Inr \<lparr>patchset = ps @ [\<lparr>src_name = src_name p, dst_name = [], chunks = []\<rparr>], current_chunk = cur\<rparr>"
    "read_line \<lparr>patchset = ps @ [\<lparr>src_name = src_name p, dst_name = [], chunks = []\<rparr>], current_chunk = cur\<rparr> h2 =
      Inr \<lparr>patchset = ps @ [p\<lparr>chunks := []\<rparr>], current_chunk = cur\<rparr>"
    by (simp_all add: read_line_def cl)
  from read_chunks [of "chunks p" "f @ [h1, h2]" ps "p\<lparr>chunks := []\<rparr>" cur] assms
  obtain out cur' where "for_each write_chunk (f @ [h1, h2]) (chunks p) = Inr ((f @ [h1, h2]) @ out)"
    "for_each read_line \<lparr>patchset = ps @ [p\<lparr>chunks := []\<rparr>], current_chunk = cur\<rparr> out =
      Inr \<lparr>patchset = ps @ [p], current_chunk = cur'\<rparr>" by (auto simp: readable_def)
  with heads show ?thesis
    by (intro exI [of _ "h1 # h2 # out"] exI [of _ cur']) (simp add: write_patch_def h1_def h2_def)
qed

lemma read_patches:
  assumes "\<forall>p \<in> set ps. readable p"
  shows "\<exists>out cur'. for_each write_patch f ps = Inr (f @ out) \<and>
    for_each read_line \<lparr>patchset = before, current_chunk = cur\<rparr> out =
      Inr \<lparr>patchset = before @ ps, current_chunk = cur'\<rparr>"
  using assms
proof (induction ps arbitrary: f before cur)
  case (Cons p ps)
  obtain out1 cur1 where 1: "write_patch f p = Inr (f @ out1)"
    "for_each read_line \<lparr>patchset = before, current_chunk = cur\<rparr> out1 =
      Inr \<lparr>patchset = before @ [p], current_chunk = cur1\<rparr>"
    using read_patch [of p f before cur] Cons.prems by auto
  from Cons.IH [of "f @ out1" "before @ [p]" cur1] Cons.prems
  obtain out2 cur2 where "for_each write_patch (f @ out1) ps = Inr ((f @ out1) @ out2)"
    "for_each read_line \<lparr>patchset = before @ [p], current_chunk = cur1\<rparr> out2 =
      Inr \<lparr>patchset = before @ p # ps, current_chunk = cur2\<rparr>" by auto
  with 1 show ?case
    by (intro exI [of _ "out1 @ out2"] exI [of _ cur2]) (simp add: for_each_append)
next
  case Nil
  show ?case by (intro exI [of _ "[]"] exI) simp
qed

text \<open>
  Claim C30.  What \<open>write\<close> prints for a list of patches, \<open>parse_patchset\<close> reads back: the file names,
  the positions, and every line with its side, provided the names and lines are single lines and no
  deleted or added line looks like a file header once its sign is in front.
\<close>

theorem parse_written_patches:
  assumes "\<forall>p \<in> set ps. readable p"
  shows "\<exists>out. for_each write_patch [] ps = Inr out \<and> parse_patchset out = Inr ps"
proof -
  obtain out cur where "for_each write_patch [] ps = Inr out"
    "for_each read_line \<lparr>patchset = [], current_chunk = None\<rparr> out = Inr \<lparr>patchset = ps, current_chunk = cur\<rparr>"
    using read_patches [OF assms, of "[]" "[]" None] by auto
  then show ?thesis by (simp add: parse_patchset_def)
qed

theorem parse_written_patches_witness:
  "\<exists>out. for_each write_patch []
      [\<lparr>src_name = ''a'', dst_name = ''b'', chunks = [\<lparr>lines = [\<lparr>kind = SRC, content = ''x ''\<rparr>,
         \<lparr>kind = DST, content = ''x''\<rparr>], src_pos = 12, dst_pos = 12\<rparr>]\<rparr>] = Inr out
    \<and> parse_patchset out = Inr
      [\<lparr>src_name = ''a'', dst_name = ''b'', chunks = [\<lparr>lines = [\<lparr>kind = SRC, content = ''x ''\<rparr>,
         \<lparr>kind = DST, content = ''x''\<rparr>], src_pos = 12, dst_pos = 12\<rparr>]\<rparr>]"
  by (rule parse_written_patches) (simp add: readable_def readable_line_def one_line_def startswith_def)

text \<open>
  The proviso is needed: a patch that deletes the line \<open>-- x\<close> is read as two patches, the
  second one without content.  And the header of a chunk of one line, which \<open>unified_diff\<close>
  writes without its count, is refused with an exception that names no reason.
\<close>

theorem parse_patchset_misreads:
  "parse_patchset [''--- a'' @ newline, ''+++ b'' @ newline, ''@@ -1,1 +1,0 @@'' @ newline, ''--- x'' @ newline]
     = Inr [\<lparr>src_name = ''a'', dst_name = ''b'', chunks = [\<lparr>lines = [], src_pos = 1, dst_pos = 1\<rparr>]\<rparr>,
            \<lparr>src_name = ''x'', dst_name = [], chunks = []\<rparr>]
   \<and> parse_patchset [''--- a'' @ newline, ''+++ b'' @ newline, ''@@ -1 +1 @@'' @ newline] = Inl (PlainException [])"
  by code_simp

section \<open>Correctness: the white space pass\<close>

definition blank :: "char \<Rightarrow> bool" where
  "blank b \<longleftrightarrow> b = CHR '' '' \<or> b = CHR 0x09"

lemma whitespace_match_blank:
  "whitespace_match s = Some (g1, g2) \<Longrightarrow> \<exists>b. g2 = [b] \<and> blank b"
  by (auto simp: whitespace_match_def blank_def Option.bind_eq_Some_conv split: if_splits)

lemma whitespace_match_line:
  assumes "one_line s"
  shows "whitespace_match s =
    (if s \<noteq> [] \<and> blank (last s) then Some (butlast s, [last s]) else None)"
proof -
  have "s \<noteq> [] \<Longrightarrow> last s \<noteq> CHR 0x0A" using assms last_in_set [of s] by (metis one_line_def)
  then have "prefix_match [] s = Some s" using assms by (auto simp: prefix_match_def startswith_def one_line_def)
  then show ?thesis by (auto simp: whitespace_match_def blank_def)
qed

text \<open>What one pair of lines becomes.\<close>

definition restore :: "patch_line \<Rightarrow> patch_line \<Rightarrow> patch_line" where
  "restore s d = (case whitespace_match (content s) of
     Some (g1, g2) \<Rightarrow> if g1 = content d then append_to_line d g2 else d | None \<Rightarrow> d)"

lemma whitespace_loop_Cons:
  "whitespace_loop (s # srcs) (d # dsts) ls = whitespace_loop srcs dsts (ls[d := restore (ls ! s) (ls ! d)])"
  by (auto simp: restore_def split: option.splits)

definition restored :: "patch_line \<Rightarrow> patch_line \<Rightarrow> bool" where
  "restored l l' \<longleftrightarrow> kind l' = kind l \<and> (content l' = content l \<or> (\<exists>b. blank b \<and> content l' = content l @ [b]))"

lemma restored_refl [simp]: "restored l l"
  by (simp add: restored_def)

lemma restored_restore: "restored d (restore s d)"
  using whitespace_match_blank
  by (auto simp: restored_def restore_def append_to_line_def split: option.splits)

lemma whitespace_loop_restored:
  "distinct dsts \<Longrightarrow> \<forall>d \<in> set dsts. d < length ls \<Longrightarrow> length (fst (whitespace_loop srcs dsts ls)) = length ls \<and>
   (\<forall>k < length ls. restored (ls ! k) (fst (whitespace_loop srcs dsts ls) ! k)
     \<and> (k \<notin> set dsts \<longrightarrow> fst (whitespace_loop srcs dsts ls) ! k = ls ! k))"
proof (induction srcs arbitrary: dsts ls)
  case (Cons s srcs)
  show ?case
  proof (cases dsts)
    case (Cons d dsts')
    let ?ls = "ls[d := restore (ls ! s) (ls ! d)]"
    have "length (fst (whitespace_loop srcs dsts' ?ls)) = length ?ls \<and>
       (\<forall>k < length ?ls. restored (?ls ! k) (fst (whitespace_loop srcs dsts' ?ls) ! k)
         \<and> (k \<notin> set dsts' \<longrightarrow> fst (whitespace_loop srcs dsts' ?ls) ! k = ?ls ! k))"
      by (rule Cons.IH) (use Cons.prems Cons in auto)
    moreover have "d \<notin> set dsts'" "d < length ls" using Cons.prems Cons by auto
    ultimately have len: "length (fst (whitespace_loop srcs dsts' ?ls)) = length ls" and
      keep: "\<And>k. k < length ls \<Longrightarrow> k \<noteq> d \<Longrightarrow> restored (ls ! k) (fst (whitespace_loop srcs dsts' ?ls) ! k)
        \<and> (k \<notin> set dsts' \<longrightarrow> fst (whitespace_loop srcs dsts' ?ls) ! k = ls ! k)" and
      at: "fst (whitespace_loop srcs dsts' ?ls) ! d = restore (ls ! s) (ls ! d)" by (auto simp: nth_list_update)
    show ?thesis unfolding Cons whitespace_loop_Cons
    proof (intro conjI allI impI)
      fix k assume k: "k < length ls"
      show "restored (ls ! k) (fst (whitespace_loop srcs dsts' ?ls) ! k)"
        using keep [OF k] at restored_restore by (cases "k = d") simp_all
      assume "k \<notin> set (d # dsts')"
      then show "fst (whitespace_loop srcs dsts' ?ls) ! k = ls ! k" using keep [OF k] by simp
    qed (rule len)
  qed simp
qed simp

text \<open>The pairs of a chunk that the pass can handle: a shared line meets itself only.\<close>

definition aligned :: "chunk \<Rightarrow> bool" where
  "aligned c \<longleftrightarrow> length (src c) \<le> length (dst c)
     \<and> list_all (\<lambda>(s, d). s = d \<or> \<not> is_dst (lines c ! s)) (zip (src c) (dst c))"

lemma whitespace_match_shorter:
  assumes "whitespace_match s = Some (g1, g2)"
  shows "length g1 < length s"
proof -
  obtain m where m: "prefix_match [] s = Some m" "m \<noteq> []" "g1 = butlast m"
    using assms by (auto simp: whitespace_match_def Option.bind_eq_Some_conv split: if_splits)
  then have "length m \<le> length s" by (auto simp: prefix_match_def Let_def split: if_splits)
  then show ?thesis using m(2,3) by (cases m rule: rev_cases) auto
qed

lemma restore_self: "restore l l = l"
  using whitespace_match_shorter [of "content l"] by (force simp: restore_def split: option.splits)

lemma whitespace_loop_aligned:
  "length srcs \<le> length dsts \<Longrightarrow> distinct dsts \<Longrightarrow> \<forall>d \<in> set dsts. d < length ls \<Longrightarrow>
   \<forall>(s, d) \<in> set (zip srcs dsts). s = d \<or> s \<notin> set dsts \<Longrightarrow> distinct srcs \<Longrightarrow>
   snd (whitespace_loop srcs dsts ls) \<and>
   (\<forall>i < length srcs. fst (whitespace_loop srcs dsts ls) ! (dsts ! i) = restore (ls ! (srcs ! i)) (ls ! (dsts ! i)))"
proof (induction srcs arbitrary: dsts ls)
  case (Cons s srcs)
  then obtain d dsts' where dsts: "dsts = d # dsts'" by (cases dsts) auto
  let ?ls = "ls[d := restore (ls ! s) (ls ! d)]"
  have other: "\<forall>(s', d') \<in> set (zip srcs dsts'). s' = d' \<or> s' \<notin> set dsts'"
    using Cons.prems(4) by (auto simp: dsts)
  have IH: "snd (whitespace_loop srcs dsts' ?ls) \<and>
     (\<forall>i < length srcs. fst (whitespace_loop srcs dsts' ?ls) ! (dsts' ! i) = restore (?ls ! (srcs ! i)) (?ls ! (dsts' ! i)))"
    by (rule Cons.IH) (use Cons.prems other in \<open>auto simp: dsts\<close>)
  have d: "fst (whitespace_loop srcs dsts' ?ls) ! d = restore (ls ! s) (ls ! d)"
    using whitespace_loop_restored [of dsts' ?ls srcs] Cons.prems(2,3) by (auto simp: dsts)
  have keep: "?ls ! (srcs ! i) = ls ! (srcs ! i) \<and> ?ls ! (dsts' ! i) = ls ! (dsts' ! i)" if "i < length srcs" for i
  proof -
    have len: "i < length dsts'" using that Cons.prems(1) by (simp add: dsts)
    have "d \<noteq> dsts' ! i" using len Cons.prems(2) by (auto simp: dsts)
    moreover have "(srcs ! i, dsts' ! i) \<in> set (zip srcs dsts')" using len that by (auto simp: set_zip)
    then have "srcs ! i = dsts' ! i \<or> srcs ! i \<notin> set dsts" using Cons.prems(4) by (auto simp: dsts)
    ultimately have "d \<noteq> srcs ! i" by (auto simp: dsts)
    with \<open>d \<noteq> dsts' ! i\<close> show ?thesis by simp
  qed
  show ?case unfolding dsts whitespace_loop_Cons using IH d keep by (auto simp: nth_Cons split: nat.splits)
qed simp

text \<open>A destination line behind the last one that faces a source line is not reached.\<close>

lemma whitespace_loop_beyond:
  "distinct dsts \<Longrightarrow> \<forall>d \<in> set dsts. d < length ls \<Longrightarrow> length srcs \<le> i \<Longrightarrow> i < length dsts \<Longrightarrow>
   fst (whitespace_loop srcs dsts ls) ! (dsts ! i) = ls ! (dsts ! i)"
proof (induction srcs arbitrary: dsts ls i)
  case (Cons s srcs)
  then obtain d dsts' j where eq: "dsts = d # dsts'" "i = Suc j" by (cases dsts; cases i) auto
  have "d \<noteq> dsts' ! j" using Cons.prems by (auto simp: eq)
  then show ?case unfolding eq whitespace_loop_Cons using Cons.IH [of dsts' "ls[d := restore (ls ! s) (ls ! d)]" j] Cons.prems
    by (simp add: eq)
qed simp

definition same_shape :: "patch \<Rightarrow> patch \<Rightarrow> bool" where
  "same_shape p p' \<longleftrightarrow> src_name p' = src_name p \<and> dst_name p' = dst_name p \<and>
     list_all2 (\<lambda>c c'. src_pos c' = src_pos c \<and> dst_pos c' = dst_pos c \<and> list_all2 restored (lines c) (lines c'))
       (chunks p) (chunks p')"

lemma dst_props: "distinct (dst c)" "\<forall>d \<in> set (dst c). d < length (lines c)"
  by (auto simp: dst_def)

lemma whitespace_chunk_shape:
  "src_pos (fst (whitespace_chunk c)) = src_pos c \<and> dst_pos (fst (whitespace_chunk c)) = dst_pos c
   \<and> list_all2 restored (lines c) (lines (fst (whitespace_chunk c)))"
  using whitespace_loop_restored [OF dst_props, of "src c" c]
  by (auto simp: whitespace_chunk_def list_all2_conv_all_nth split: prod.splits)

lemma whitespace_chunks_shape:
  "list_all2 (\<lambda>c c'. src_pos c' = src_pos c \<and> dst_pos c' = dst_pos c \<and> list_all2 restored (lines c) (lines c'))
     cs (fst (whitespace_chunks cs))"
proof (induction cs)
  case (Cons c cs)
  with whitespace_chunk_shape [of c] show ?case
    by (auto split: prod.splits simp: list_all2_refl list.rel_refl)
qed simp

text \<open>
  Whatever the patches, the white space pass keeps their shape: every patch keeps its names,
  every chunk its position and its number of lines, and every line its side; the text of a line
  stays or gains one blank at its end.
\<close>

theorem whitespace_pass_shape:
  "list_all2 same_shape ps (whitespace_patches ps)"
proof (induction ps)
  case (Cons p ps)
  have refl: "same_shape p p" for p by (simp add: same_shape_def list.rel_refl)
  show ?case using Cons whitespace_chunks_shape [of "chunks p"]
    by (auto simp: same_shape_def [of p] list.rel_refl [of same_shape, OF refl] split: prod.splits)
qed simp

lemma src_props: "distinct (src c)" "\<forall>s \<in> set (src c). s < length (lines c)"
  by (auto simp: src_def)

lemma aligned_pairs:
  assumes "aligned c"
  shows "\<forall>(s, d) \<in> set (zip (src c) (dst c)). s = d \<or> s \<notin> set (dst c)"
  using assms by (auto simp: aligned_def list_all_iff dst_def)

text \<open>
  Claim C31.  On a chunk whose sides line up (no more source than destination lines, and a shared line
  facing itself) and whose lines hold no line feed, the pass does what it is for: it reaches the end, the
  chunk keeps its place and its number of lines, no source line and no line of neither side is touched, so
  the patch still applies, and of the destination lines, those behind the last one that faces a source line
  included, each that lacks exactly the final blank of the source line it faces gets it back, and each
  other one stays as it is.
\<close>

theorem whitespace_pass_restores:
  assumes "aligned c" "list_all (\<lambda>l. one_line (content l)) (lines c)"
  shows "snd (whitespace_chunk c)
    \<and> src_pos (fst (whitespace_chunk c)) = src_pos c \<and> dst_pos (fst (whitespace_chunk c)) = dst_pos c
    \<and> length (lines (fst (whitespace_chunk c))) = length (lines c)
    \<and> (\<forall>k < length (lines c). k \<in> set (src c) \<or> k \<notin> set (dst c) \<longrightarrow>
        lines (fst (whitespace_chunk c)) ! k = lines c ! k)
    \<and> (\<forall>i < length (dst c).
        let old = content (lines c ! (src c ! i));
            new = content (lines c ! (dst c ! i))
        in lines (fst (whitespace_chunk c)) ! (dst c ! i) =
             (if i < length (src c) \<and> old \<noteq> [] \<and> blank (last old) \<and> new = butlast old
              then (lines c ! (dst c ! i))\<lparr>content := old\<rparr> else lines c ! (dst c ! i)))"
proof -
  define ls where "ls = fst (whitespace_loop (src c) (dst c) (lines c))"
  have chunk: "fst (whitespace_chunk c) = c\<lparr>lines := ls\<rparr>" "snd (whitespace_chunk c) = snd (whitespace_loop (src c) (dst c) (lines c))"
    by (simp_all add: whitespace_chunk_def ls_def split: prod.splits)
  have len: "length (src c) \<le> length (dst c)" using assms(1) by (simp add: aligned_def)
  have fin: "snd (whitespace_loop (src c) (dst c) (lines c))"
    and pair: "\<And>i. i < length (src c) \<Longrightarrow> ls ! (dst c ! i) = restore (lines c ! (src c ! i)) (lines c ! (dst c ! i))"
    using whitespace_loop_aligned [OF len dst_props aligned_pairs [OF assms(1)] src_props(1)] by (simp_all add: ls_def)
  have old: "length ls = length (lines c)" "\<And>k. k < length (lines c) \<Longrightarrow> k \<notin> set (dst c) \<Longrightarrow> ls ! k = lines c ! k"
    using whitespace_loop_restored [OF dst_props, of "src c" c] by (auto simp: ls_def)
  have source: "ls ! k = lines c ! k" if k: "k \<in> set (src c)" for k
  proof (cases "k \<in> set (dst c)")
    case True
    obtain i where i: "i < length (src c)" "k = src c ! i" using k by (auto simp: in_set_conv_nth)
    then have "(src c ! i, dst c ! i) \<in> set (zip (src c) (dst c))" using len by (auto simp: set_zip)
    then have "dst c ! i = k" using aligned_pairs [OF assms(1)] True i(2) by auto
    then show ?thesis using pair [OF i(1)] i(2) by (simp add: restore_self)
  next
    case False
    then show ?thesis using old(2) src_props(2) [of c] k by blast
  qed
  have facing: "ls ! (dst c ! i) =
      (let old = content (lines c ! (src c ! i)); new = content (lines c ! (dst c ! i))
       in if i < length (src c) \<and> old \<noteq> [] \<and> blank (last old) \<and> new = butlast old
          then (lines c ! (dst c ! i))\<lparr>content := old\<rparr> else lines c ! (dst c ! i))"
    if i: "i < length (dst c)" for i
  proof (cases "i < length (src c)")
    case True
    then have "src c ! i < length (lines c)" using src_props(2) [of c] nth_mem by blast
    then have "one_line (content (lines c ! (src c ! i)))" using assms(2) by (auto simp: list_all_length)
    from whitespace_match_line [OF this] show ?thesis
      using True by (auto simp: pair restore_def append_to_line_def Let_def)
  next
    case False
    then show ?thesis using whitespace_loop_beyond [OF dst_props, of "src c" i c] i by (simp add: ls_def)
  qed
  show ?thesis unfolding chunk using fin old source facing by (simp add: Let_def)
qed

text \<open>The added line gets its blank back; the line added behind it stays.\<close>

theorem whitespace_pass_restores_witness:
  "lines (fst (whitespace_chunk \<lparr>lines = [\<lparr>kind = BOTH, content = ''a ''\<rparr>, \<lparr>kind = SRC, content = ''x ''\<rparr>,
     \<lparr>kind = DST, content = ''x''\<rparr>, \<lparr>kind = DST, content = ''y''\<rparr>], src_pos = 1, dst_pos = 1\<rparr>)) ! 2
     = \<lparr>kind = DST, content = ''x ''\<rparr>
   \<and> lines (fst (whitespace_chunk \<lparr>lines = [\<lparr>kind = BOTH, content = ''a ''\<rparr>, \<lparr>kind = SRC, content = ''x ''\<rparr>,
     \<lparr>kind = DST, content = ''x''\<rparr>, \<lparr>kind = DST, content = ''y''\<rparr>], src_pos = 1, dst_pos = 1\<rparr>)) ! 3
     = \<lparr>kind = DST, content = ''y''\<rparr>"
proof -
  define c where "c = \<lparr>lines = [\<lparr>kind = BOTH, content = ''a ''\<rparr>, \<lparr>kind = SRC, content = ''x ''\<rparr>,
     \<lparr>kind = DST, content = ''x''\<rparr>, \<lparr>kind = DST, content = ''y''\<rparr>], src_pos = 1, dst_pos = 1\<rparr>"
  have sides: "src c = [0, 1]" "dst c = [0, 2, 3]"
    by (simp_all add: c_def src_def dst_def is_src_def is_dst_def upt_rec)
  have at: "lines c ! Suc 0 = \<lparr>kind = SRC, content = ''x ''\<rparr>" "lines c ! Suc (Suc 0) = \<lparr>kind = DST, content = ''x''\<rparr>"
    "lines c ! Suc (Suc (Suc 0)) = \<lparr>kind = DST, content = ''y''\<rparr>" "lines c ! 3 = \<lparr>kind = DST, content = ''y''\<rparr>"
    by (simp_all add: c_def)
  have ok: "aligned c" "list_all (\<lambda>l. one_line (content l)) (lines c)"
    by (simp_all add: aligned_def sides) (simp_all add: c_def is_dst_def one_line_def)
  have "lines (fst (whitespace_chunk c)) ! (dst c ! 1) = \<lparr>kind = DST, content = ''x ''\<rparr>"
    "lines (fst (whitespace_chunk c)) ! (dst c ! 2) = \<lparr>kind = DST, content = ''y''\<rparr>"
    using whitespace_pass_restores [OF ok] by (simp_all add: sides at All_less_Suc numeral_2_eq_2 Let_def blank_def)
  then have "lines (fst (whitespace_chunk c)) ! 2 = \<lparr>kind = DST, content = ''x ''\<rparr>"
    "lines (fst (whitespace_chunk c)) ! 3 = \<lparr>kind = DST, content = ''y''\<rparr>" by (simp_all add: sides)
  from this [unfolded c_def] show ?thesis by (rule conjI)
qed

text \<open>
  Where the sides do not line up the pass pairs the wrong lines.  A chunk that deletes
  \<open>b\<close> with a final blank in front of an unchanged line \<open>b\<close> has its context line changed, so the patch no
  longer matches the file; and the chunk, having one source line more than destination lines, ends
  the pass, so that the next chunk keeps the white space change it should lose.
\<close>

theorem whitespace_pass_spoils_context:
  "let c1 = \<lparr>lines = [\<lparr>kind = SRC, content = ''b ''\<rparr>, \<lparr>kind = BOTH, content = ''b''\<rparr>], src_pos = 1, dst_pos = 1\<rparr>;
       c2 = \<lparr>lines = [\<lparr>kind = SRC, content = ''x ''\<rparr>, \<lparr>kind = DST, content = ''x''\<rparr>], src_pos = 9, dst_pos = 8\<rparr>;
       p = \<lparr>src_name = ''f'', dst_name = ''g'', chunks = [c1, c2]\<rparr>
   in whitespace_patches [p] =
        [p\<lparr>chunks := [c1\<lparr>lines := [\<lparr>kind = SRC, content = ''b ''\<rparr>, \<lparr>kind = BOTH, content = ''b ''\<rparr>]\<rparr>, c2]\<rparr>]
      \<and> snd (whitespace_chunk c2)
      \<and> lines (fst (whitespace_chunk c2)) = [\<lparr>kind = SRC, content = ''x ''\<rparr>, \<lparr>kind = DST, content = ''x ''\<rparr>]"
  by code_simp

section \<open>Correctness: the verdict\<close>

lemma indent_one_Inr:
  "indent_one t debug level fs outs f = Inr r \<longleftrightarrow>
     (\<exists>c d. fs f = Some c \<and> indent t debug level f (Some c) = Inr d \<and> r = outs @ [(f, d)])"
proof -
  have "fs f \<noteq> None" if "indent t debug level f (fs f) = Inr d" for d
    using that by (auto simp: indent_def split: option.splits if_splits)
  then show ?thesis by (auto simp: indent_one_def rbind_Inr_iff)
qed

lemma indent_all:
  assumes "for_each (indent_one t debug level fs) [] files = Inr outs"
  shows "map fst outs = files \<and> (\<forall>(f, d) \<in> set outs. \<exists>c. fs f = Some c \<and> indent t debug level f (Some c) = Inr d)"
proof -
  have "\<exists>new. outs = out0 @ new \<and> map fst new = files
      \<and> (\<forall>(f, d) \<in> set new. \<exists>c. fs f = Some c \<and> indent t debug level f (Some c) = Inr d)"
    if "for_each (indent_one t debug level fs) out0 files = Inr outs" for out0
    using that
  proof (induction files arbitrary: out0)
    case (Cons f files)
    then obtain c d where "fs f = Some c" "indent t debug level f (Some c) = Inr d"
      "for_each (indent_one t debug level fs) (out0 @ [(f, d)]) files = Inr outs"
      by (auto simp: rbind_Inr_iff indent_one_Inr)
    with Cons.IH [OF this(3)] show ?case by fastforce
  qed simp
  from this [OF assms] show ?thesis by simp
qed

lemma copy_in_place:
  "\<forall>(f, d) \<in> set outs. g f = d \<Longrightarrow>
   foldl (\<lambda>fs (f, d). fs(f \<mapsto> d)) fs outs x = (if x \<in> fst ` set outs then Some (g x) else fs x)"
  by (induction outs arbitrary: fs) auto

text \<open>
  Claim C32.  The verdict of \<open>indent_files\<close> when nothing raises.  In the checking mode no file is touched
  and the answer is true exactly when indenting leaves each of the files as it is.  In the in-place
  mode the answer is always true, each listed file has become its indented version and every other file is
  untouched.
\<close>

theorem indent_files_verdict:
  assumes "indent_files t diff debug level inplace fs files = Inr (ok, fs', out)"
  shows "if inplace
    then ok \<and> (\<forall>f. if f \<in> set files
        then \<exists>c d. fs f = Some c \<and> indent t debug level f (Some c) = Inr d \<and> fs' f = Some d else fs' f = fs f)
    else fs' = fs \<and> (ok \<longleftrightarrow> (\<forall>f \<in> set files. \<exists>c. fs f = Some c \<and> indent t debug level f (Some c) = Inr c))"
proof -
  obtain outs where "for_each (indent_one t debug level fs) [] files = Inr outs"
    using assms by (auto simp: indent_files_def rbind_Inr_iff)
  note out = this indent_all [OF this]
  define g where "g f = projr (indent t debug level f (fs f))" for f
  have g: "\<forall>(f, d) \<in> set outs. g f = d" using out(2) by (force simp: g_def)
  have files: "set files = fst ` set outs" using out(2) by (metis set_map)
  show ?thesis
  proof (cases inplace)
    case True
    with assms out(1) have "ok" "fs' = foldl (\<lambda>fs (f, d). fs(f \<mapsto> d)) fs outs" by (auto simp: indent_files_def)
    then show ?thesis using True out(2) copy_in_place [OF g, of fs] g by (fastforce simp: files)
  next
    case False
    have "(filter (\<lambda>(f, d). fs f \<noteq> Some d) outs = []) \<longleftrightarrow>
        (\<forall>f \<in> set files. \<exists>c. fs f = Some c \<and> indent t debug level f (Some c) = Inr c)"
      using out(2) by (fastforce simp: files filter_empty_conv)
    with False assms out(1) show ?thesis by (auto simp: indent_files_def Let_def split: if_splits)
  qed
qed

text \<open>Tools that satisfy the laws: a difference is the new text, and an indenter that cuts the first line.\<close>

definition plain_tools :: tools where
  "plain_tools = \<lparr>uncrustify = \<lambda>cfg ls. Some (case ls of None \<Rightarrow> [] | Some ls \<Rightarrow> tl ls), unified_diff = \<lambda>f g a b. b,
     patch_tool = \<lambda>d a. d, temp_name = \<lambda>f. f @ ''.tmp''\<rparr>"

theorem indent_files_verdict_witness:
  "\<exists>out. indent_files plain_tools False False 3 False (\<lambda>f. Some [''a'', ''b'']) [''x'', ''y''] =
      Inr (False, \<lambda>f. Some [''a'', ''b''], out)
    \<and> \<not> (\<forall>f \<in> set [''x'', ''y'']. \<exists>c. Some [''a'', ''b''] = Some c \<and> indent plain_tools False 3 f (Some c) = Inr c)"
proof -
  have two: "show_nat (Suc (Suc 0)) = ''2''" by code_simp
  have run: "indent_files plain_tools False False 3 False (\<lambda>f. Some [''a'', ''b'']) [''x'', ''y''] =
      Inr (False, \<lambda>f. Some [''a'', ''b''], [''Found 2 badly indented files:'', ''  x'', ''  y''])"
    by (simp add: indent_files_def indent_one_def indent_def plain_tools_def Let_def two)
  from indent_files_verdict [OF this] run show ?thesis by simp
qed

text \<open>
  At level 3 \<open>indent\<close> returns just what \<open>uncrustify\<close> made of the file, provided that \<open>patch\<close>
  applied to the output of \<open>unified_diff\<close> gives the new text; the debug mode always raises.
\<close>

theorem indent_level_3:
  assumes "\<And>f g a b. patch_tool t (unified_diff t f g a b) a = b" "3 \<le> level"
  shows "indent t debug level source (Some source_lines) =
    (case uncrustify t (uncrustify_config_file level) (Some source_lines) of
       None \<Rightarrow> Inl (PlainException ''uncrustify not installed'')
     | Some ls \<Rightarrow> if debug then Inl TypeError else Inr ls)"
  using assms by (simp add: indent_def split: option.splits)

theorem indent_level_3_witness:
  "indent plain_tools False 3 ''x'' (Some [''a'', ''b'']) = Inr [''b''] \<and> indent plain_tools True 3 ''x'' (Some [''a'', ''b'']) = Inl TypeError"
  using indent_level_3 [of plain_tools 3 False "''x''" "[''a'', ''b'']"]
    indent_level_3 [of plain_tools 3 True "''x''" "[''a'', ''b'']"]
  by (simp add: plain_tools_def)

end
