(* ===== verification/TestWorkers.thy ===== *)
theory TestWorkers
  imports TestJobs "HOL-Library.Multiset"
begin

text \<open>
  The concurrent part of \<open>test.py\<close>: the main thread puts the jobs and one stop job per worker on
  the input queue, the \<open>worker_thread\<close>s take them, run them and put them on the output queue, the
  main thread collects as many jobs as it queued and joins the workers, and the interrupt handler
  may set \<open>thread_exit\<close> at any time.  Every interleaving is a run of the step relation \<open>step\<close>.
  The queues are used through the contract \<open>fifo\<close>.
\<close>

section \<open>The queue contract\<close>

locale fifo =
  fixes put :: "'q \<Rightarrow> 'a \<Rightarrow> 'q"
    and get :: "'q \<Rightarrow> ('a \<times> 'q) option"
    and items :: "'q \<Rightarrow> 'a list"
  assumes items_put [simp]: "items (put q x) = items q @ [x]"
    and get_None: "get q = None \<longleftrightarrow> items q = []"
    and get_Some: "get q = Some (x, q') \<Longrightarrow> items q = x # items q'"
begin

lemma get_total: "items q \<noteq> [] \<Longrightarrow> \<exists>x q'. get q = Some (x, q')"
  using get_None [of q] by (cases "get q") auto

lemma get_cases: "get q = Some (x, q') \<Longrightarrow> (items q = x # items q' \<Longrightarrow> P) \<Longrightarrow> P"
  using get_Some by blast

lemma length_get: "get q = Some (x, q') \<Longrightarrow> length (items q) = Suc (length (items q'))"
  by (simp add: get_Some)

end

text \<open>\<open>queue.Queue\<close>; \<open>get\<close> on an empty queue blocks, so it has no result.\<close>

definition q_put :: "'a list \<Rightarrow> 'a \<Rightarrow> 'a list" where
  "q_put q x = q @ [x]"

definition q_get :: "'a list \<Rightarrow> ('a \<times> 'a list) option" where
  "q_get q = (case q of [] \<Rightarrow> None | x # q' \<Rightarrow> Some (x, q'))"

interpretation queue: fifo q_put q_get "\<lambda>q. q"
  by unfold_locales (auto simp: q_put_def q_get_def split: list.splits)

section \<open>The workers\<close>

text \<open>
  The work on one job: a suite gets the options for its XML output, an example is run as it is.
\<close>

definition execute_job :: "config \<Rightarrow> shell \<Rightarrow> test_options \<Rightarrow> job \<Rightarrow> py_error + job" where
  "execute_job c sh opts j =
     (let update_data = (if o_update_data opts then ''--update-data'' else [])
      in rbind (if is_example j \<or> is_pyexample j then
                  run_job_synchronously c sh (shell_command j) (job_cwd j) (o_valgrind opts) (is_pyexample j) (build_path j)
                else
                  run_job_synchronously c sh
                    (shell_command j @ '' --xml --tempdir='' @ tempdir j @ '' --out='' @ tmp_file_name j @ '' '' @ update_data)
                    (job_cwd j) (o_valgrind opts) False [])
           (\<lambda>(rc, standard_out, standard_err, et). Inr (j\<lparr>returncode := rc, elapsed_time := et\<rparr>)))"

text \<open>
  Where a worker is: blocked in \<open>get\<close>, behind it, behind the tests of \<open>thread_exit\<close> and
  \<open>is_skip\<close>, returned, or ended by an exception.
\<close>

datatype worker = Waiting | Got job | Running job | Stopped | Died job

record pool =
  todo :: "job list"
  input_queue :: "job list"
  output_queue :: "job list"
  workers :: "worker list"
  collected :: "job list"
  expected :: nat
  thread_exit :: bool

definition break_job :: job where
  "break_job = new_job\<lparr>is_break := True\<rparr>"

definition start_pool :: "job list \<Rightarrow> nat \<Rightarrow> pool" where
  "start_pool jobs processors =
     \<lparr>todo = jobs @ replicate processors break_job, input_queue = [], output_queue = [],
      workers = replicate processors Waiting, collected = [], expected = length jobs, thread_exit = False\<rparr>"

definition check_job :: "nat \<Rightarrow> job \<Rightarrow> pool \<Rightarrow> pool" where
  "check_job i j s =
     (if thread_exit s then
        s\<lparr>output_queue := q_put (output_queue s) (j\<lparr>is_break := True\<rparr>), workers := (workers s)[i := Waiting]\<rparr>
      else if is_skip j then s\<lparr>output_queue := q_put (output_queue s) j, workers := (workers s)[i := Waiting]\<rparr>
      else s\<lparr>workers := (workers s)[i := Running j]\<rparr>)"

inductive step :: "(job \<Rightarrow> py_error + job) \<Rightarrow> pool \<Rightarrow> pool \<Rightarrow> bool" for exec where
  dispatch: "todo s = j # rest \<Longrightarrow> step exec s (s\<lparr>todo := rest, input_queue := q_put (input_queue s) j\<rparr>)"
| take: "i < length (workers s) \<Longrightarrow> workers s ! i = Waiting \<Longrightarrow> q_get (input_queue s) = Some (j, q) \<Longrightarrow>
    step exec s (s\<lparr>input_queue := q, workers := (workers s)[i := if is_break j then Stopped else Got j]\<rparr>)"
| check: "i < length (workers s) \<Longrightarrow> workers s ! i = Got j \<Longrightarrow> step exec s (check_job i j s)"
| finish: "i < length (workers s) \<Longrightarrow> workers s ! i = Running j \<Longrightarrow> exec j = Inr j' \<Longrightarrow>
    step exec s (s\<lparr>output_queue := q_put (output_queue s) j', workers := (workers s)[i := Waiting]\<rparr>)"
| die: "i < length (workers s) \<Longrightarrow> workers s ! i = Running j \<Longrightarrow> exec j = Inl e \<Longrightarrow>
    step exec s (s\<lparr>workers := (workers s)[i := Died j]\<rparr>)"
| collect: "todo s = [] \<Longrightarrow> length (collected s) < expected s \<Longrightarrow> q_get (output_queue s) = Some (j, q) \<Longrightarrow>
    step exec s (s\<lparr>output_queue := q, collected := collected s @ [j]\<rparr>)"
| sigint_hook: "\<not> thread_exit s \<Longrightarrow> step exec s (s\<lparr>thread_exit := True\<rparr>)"

inductive_cases step_cases: "step exec s s'"

text \<open>The main thread is behind the joins.\<close>

definition finished :: "pool \<Rightarrow> bool" where
  "finished s \<longleftrightarrow> todo s = [] \<and> length (collected s) = expected s \<and> list_all (\<lambda>w. w = Stopped) (workers s)"

section \<open>The invariant\<close>

text \<open>What may come back for a job; only behind an interrupt may it come back unworked.\<close>

definition result_of :: "(job \<Rightarrow> py_error + job) \<Rightarrow> bool \<Rightarrow> job \<Rightarrow> job \<Rightarrow> bool" where
  "result_of exec interrupted j j' \<longleftrightarrow>
     (interrupted \<and> j' = j\<lparr>is_break := True\<rparr>) \<or> (is_skip j \<and> j' = j) \<or> (\<not> is_skip j \<and> exec j = Inr j')"

fun held :: "worker \<Rightarrow> job multiset" where
  "held (Got j) = {#j#}"
| "held (Running j) = {#j#}"
| "held (Died j) = {#j#}"
| "held _ = {#}"

fun worker_ok :: "worker \<Rightarrow> bool" where
  "worker_ok (Got j) = (\<not> is_break j)"
| "worker_ok (Running j) = (\<not> is_break j \<and> \<not> is_skip j)"
| "worker_ok _ = True"

definition in_flight :: "pool \<Rightarrow> job multiset" where
  "in_flight s = \<Sum>\<^sub># (image_mset held (mset (workers s)))"

definition stopped :: "pool \<Rightarrow> nat" where
  "stopped s = count (mset (workers s)) Stopped"

definition queue_ok :: "job list \<Rightarrow> pool \<Rightarrow> bool" where
  "queue_ok real s \<longleftrightarrow>
     (\<exists>k. input_queue s @ todo s = real @ replicate k break_job \<and> k + stopped s = length (workers s))
     \<and> (\<forall>j \<in> set real. \<not> is_break j) \<and> (real \<noteq> [] \<longrightarrow> stopped s = 0)"

definition pool_inv :: "(job \<Rightarrow> py_error + job) \<Rightarrow> job list \<Rightarrow> nat \<Rightarrow> pool \<Rightarrow> bool" where
  "pool_inv exec jobs n s \<longleftrightarrow> length (workers s) = n \<and> expected s = length jobs
     \<and> (\<forall>w \<in> set (workers s). worker_ok w)
     \<and> (\<exists>real ready. queue_ok real s
          \<and> list_all2 (result_of exec (thread_exit s)) ready (collected s @ output_queue s)
          \<and> mset jobs = mset ready + in_flight s + mset real)"

lemma is_break_break_job [simp]: "is_break break_job"
  by (simp add: break_job_def)

lemma result_of_mono: "result_of exec False j j' \<Longrightarrow> result_of exec b j j'"
  by (auto simp: result_of_def)

lemma update_worker:
  assumes "i < length ws" "ws ! i = w"
  obtains W where "mset ws = add_mset w W" "\<And>w'. mset (ws[i := w']) = add_mset w' W"
proof
  show "mset ws = add_mset w (mset ws - {#w#})" using assms by (auto intro: insert_DiffM [symmetric])
  show "mset (ws[i := w']) = add_mset w' (mset ws - {#w#})" for w' using assms by (simp add: mset_update)
qed

lemma pool_inv_start: "\<forall>j \<in> set jobs. \<not> is_break j \<Longrightarrow> pool_inv exec jobs n (start_pool jobs n)"
  unfolding pool_inv_def queue_ok_def start_pool_def stopped_def in_flight_def
  by (auto intro!: exI [of _ jobs] exI [of _ "[]"])

lemma pool_invE:
  assumes "pool_inv exec jobs n s"
  obtains real ready k where "length (workers s) = n" "expected s = length jobs"
    "\<forall>w \<in> set (workers s). worker_ok w"
    "input_queue s @ todo s = real @ replicate k break_job" "k + stopped s = n"
    "\<forall>j \<in> set real. \<not> is_break j" "real \<noteq> [] \<longrightarrow> stopped s = 0"
    "list_all2 (result_of exec (thread_exit s)) ready (collected s @ output_queue s)"
    "mset jobs = mset ready + in_flight s + mset real"
  using assms unfolding pool_inv_def queue_ok_def by blast

lemma pool_invI:
  assumes "length (workers s) = n" "expected s = length jobs"
    "\<forall>w \<in> set (workers s). worker_ok w"
    "input_queue s @ todo s = real @ replicate k break_job" "k + stopped s = n"
    "\<forall>j \<in> set real. \<not> is_break j" "real \<noteq> [] \<longrightarrow> stopped s = 0"
    "list_all2 (result_of exec (thread_exit s)) ready (collected s @ output_queue s)"
    "mset jobs = mset ready + in_flight s + mset real"
  shows "pool_inv exec jobs n s"
  using assms unfolding pool_inv_def queue_ok_def by blast

lemma worker_update_ok:
  "\<forall>w \<in> set ws. worker_ok w \<Longrightarrow> worker_ok w' \<Longrightarrow> \<forall>w \<in> set (ws[i := w']). worker_ok w"
  using set_update_subset_insert by fastforce

text \<open>A worker that goes from one state to another, and puts what it held on the output queue.\<close>

lemma inv_move:
  assumes inv: "pool_inv exec jobs n s" and i: "i < length (workers s)" "workers s ! i = w"
    and w: "w \<noteq> Stopped" "w' \<noteq> Stopped" "held w' = held w" "worker_ok w'"
  shows "pool_inv exec jobs n (s\<lparr>workers := (workers s)[i := w']\<rparr>)"
proof -
  obtain W where W: "mset (workers s) = add_mset w W" "\<And>v. mset ((workers s)[i := v]) = add_mset v W"
    using update_worker [OF i] by blast
  from inv obtain real ready k where "length (workers s) = n" "expected s = length jobs"
    and ok: "\<forall>w \<in> set (workers s). worker_ok w"
    and "input_queue s @ todo s = real @ replicate k break_job" "k + stopped s = n"
    "\<forall>j \<in> set real. \<not> is_break j" "real \<noteq> [] \<longrightarrow> stopped s = 0"
    "list_all2 (result_of exec (thread_exit s)) ready (collected s @ output_queue s)"
    "mset jobs = mset ready + in_flight s + mset real" by (rule pool_invE)
  then show ?thesis using w W worker_update_ok [OF ok w(4)]
    by (intro pool_invI [where real = real and ready = ready and k = k]) (auto simp: stopped_def in_flight_def)
qed

lemma inv_put:
  assumes inv: "pool_inv exec jobs n s" and i: "i < length (workers s)" "workers s ! i = w"
    and w: "held w = {#j#}" and j': "result_of exec (thread_exit s) j j'"
  shows "pool_inv exec jobs n (s\<lparr>output_queue := q_put (output_queue s) j', workers := (workers s)[i := Waiting]\<rparr>)"
proof -
  obtain W where W: "mset (workers s) = add_mset w W" "\<And>v. mset ((workers s)[i := v]) = add_mset v W"
    using update_worker [OF i] by blast
  have "w \<noteq> Stopped" using w by auto
  from inv obtain real ready k where "length (workers s) = n" "expected s = length jobs"
    and ok: "\<forall>w \<in> set (workers s). worker_ok w"
    and "input_queue s @ todo s = real @ replicate k break_job" "k + stopped s = n"
    "\<forall>j \<in> set real. \<not> is_break j" "real \<noteq> [] \<longrightarrow> stopped s = 0"
    and out: "list_all2 (result_of exec (thread_exit s)) ready (collected s @ output_queue s)"
    and "mset jobs = mset ready + in_flight s + mset real" by (rule pool_invE)
  moreover from out j' have "list_all2 (result_of exec (thread_exit s)) (ready @ [j]) ((collected s @ output_queue s) @ [j'])"
    by (intro list_all2_appendI) simp_all
  ultimately show ?thesis using w \<open>w \<noteq> Stopped\<close> W worker_update_ok [OF ok, of Waiting i]
    by (intro pool_invI [where real = real and ready = "ready @ [j]" and k = k])
      (auto simp: stopped_def in_flight_def q_put_def)
qed

lemma inv_take:
  assumes inv: "pool_inv exec jobs n s" and i: "i < length (workers s)" "workers s ! i = Waiting"
    and q: "input_queue s = j # q"
  shows "pool_inv exec jobs n (s\<lparr>input_queue := q, workers := (workers s)[i := if is_break j then Stopped else Got j]\<rparr>)"
proof -
  obtain W where W: "mset (workers s) = add_mset Waiting W" "\<And>v. mset ((workers s)[i := v]) = add_mset v W"
    using update_worker [OF i] by blast
  from inv obtain real ready k where 1: "length (workers s) = n" "expected s = length jobs"
    and ok: "\<forall>w \<in> set (workers s). worker_ok w"
    and pend: "input_queue s @ todo s = real @ replicate k break_job" "k + stopped s = n"
    "\<forall>j \<in> set real. \<not> is_break j" "real \<noteq> [] \<longrightarrow> stopped s = 0"
    and 2: "list_all2 (result_of exec (thread_exit s)) ready (collected s @ output_queue s)"
    "mset jobs = mset ready + in_flight s + mset real" by (rule pool_invE)
  show ?thesis
  proof (cases real)
    case Nil
    then obtain k' where k': "k = Suc k'" "j = break_job" "q @ todo s = replicate k' break_job"
      using pend(1) q by (cases k) auto
    with Nil 1 2 pend W worker_update_ok [OF ok, of Stopped i] show ?thesis
      by (intro pool_invI [where real = "[]" and ready = ready and k = k']) (auto simp: stopped_def in_flight_def)
  next
    case (Cons r real')
    then have "r = j" "q @ todo s = real' @ replicate k break_job" using pend(1) q by auto
    with Cons 1 2 pend W worker_update_ok [OF ok, of "Got j" i] show ?thesis
      by (intro pool_invI [where real = real' and ready = ready and k = k]) (auto simp: stopped_def in_flight_def)
  qed
qed

lemma inv_same_workers:
  assumes "pool_inv exec jobs n s" "workers s' = workers s" "expected s' = expected s"
    "input_queue s' @ todo s' = input_queue s @ todo s" "collected s' @ output_queue s' = collected s @ output_queue s"
    "thread_exit s' = thread_exit s \<or> thread_exit s'"
  shows "pool_inv exec jobs n s'"
proof -
  have mono: "result_of exec (thread_exit s) j j' \<Longrightarrow> result_of exec (thread_exit s') j j'" for j j'
    using assms(6) result_of_mono by (cases "thread_exit s") (auto simp: result_of_def)
  from assms(1) obtain real ready k where "length (workers s) = n" "expected s = length jobs"
    "\<forall>w \<in> set (workers s). worker_ok w"
    "input_queue s @ todo s = real @ replicate k break_job" "k + stopped s = n"
    "\<forall>j \<in> set real. \<not> is_break j" "real \<noteq> [] \<longrightarrow> stopped s = 0"
    and out: "list_all2 (result_of exec (thread_exit s)) ready (collected s @ output_queue s)"
    and "mset jobs = mset ready + in_flight s + mset real" by (rule pool_invE)
  moreover have "list_all2 (result_of exec (thread_exit s')) ready (collected s @ output_queue s)"
    using out by (rule list_all2_mono) (rule mono)
  ultimately show ?thesis using assms(2-5)
    by (intro pool_invI [where real = real and ready = ready and k = k]) (auto simp: stopped_def in_flight_def)
qed

lemma pool_inv_step:
  assumes "step exec s s'" "pool_inv exec jobs n s"
  shows "pool_inv exec jobs n s'"
  using assms(1)
proof (cases rule: step.cases)
  case (dispatch j rest)
  then show ?thesis by (intro inv_same_workers [OF assms(2)]) (auto simp: q_put_def)
next
  case (take i j q)
  then show ?thesis using inv_take [OF assms(2), of i j q] by (auto simp: q_get_def split: list.splits)
next
  case (check i j)
  have ok: "worker_ok (Got j)" using assms(2) check nth_mem unfolding pool_inv_def by metis
  show ?thesis
    using check(1) inv_put [OF assms(2) check(2,3), of j] inv_move [OF assms(2) check(2,3), of "Running j"] ok
    by (auto simp: check_job_def result_of_def)
next
  case (finish i j j')
  have "worker_ok (Running j)" using assms(2) finish nth_mem unfolding pool_inv_def by metis
  then show ?thesis
    using finish(1) inv_put [OF assms(2) finish(2,3), of j j'] finish(4) by (auto simp: result_of_def)
next
  case (die i j e)
  then show ?thesis using inv_move [OF assms(2) die(2,3), of "Died j"] by simp
next
  case (collect j q)
  then show ?thesis by (intro inv_same_workers [OF assms(2)]) (auto simp: q_get_def split: list.splits)
next
  case sigint_hook
  then show ?thesis by (intro inv_same_workers [OF assms(2)]) auto
qed

lemma pool_inv_reachable:
  assumes "(step exec)\<^sup>*\<^sup>* (start_pool jobs n) s" "\<forall>j \<in> set jobs. \<not> is_break j"
  shows "pool_inv exec jobs n s"
  using assms(1) by (induction rule: rtranclp_induct) (auto intro: pool_inv_start [OF assms(2)] pool_inv_step)

section \<open>Every run ends\<close>

fun worker_weight :: "worker \<Rightarrow> nat" where
  "worker_weight (Got j) = 3"
| "worker_weight (Running j) = 2"
| "worker_weight _ = 0"

definition weight :: "pool \<Rightarrow> nat" where
  "weight s =
     (\<Sum>j \<leftarrow> todo s. if is_break j then 2 else 5) + (\<Sum>j \<leftarrow> input_queue s. if is_break j then 1 else 4)
     + (\<Sum>w \<in># mset (workers s). worker_weight w) + length (output_queue s) + (if thread_exit s then 0 else 1)"

lemma weight_step: "step exec s s' \<Longrightarrow> weight s' < weight s"
proof (induction rule: step.induct)
  case (take i s j q)
  obtain W where "mset (workers s) = add_mset Waiting W" "\<And>v. mset ((workers s)[i := v]) = add_mset v W"
    using update_worker [OF take(1,2)] by blast
  then show ?case using take(3) by (auto simp: weight_def q_get_def split: list.splits)
next
  case (check i s j)
  obtain W where "mset (workers s) = add_mset (Got j) W" "\<And>v. mset ((workers s)[i := v]) = add_mset v W"
    using update_worker [OF check] by blast
  then show ?case by (auto simp: weight_def check_job_def q_put_def)
next
  case (finish i s j j')
  obtain W where "mset (workers s) = add_mset (Running j) W" "\<And>v. mset ((workers s)[i := v]) = add_mset v W"
    using update_worker [OF finish(1,2)] by blast
  then show ?case by (auto simp: weight_def q_put_def)
next
  case (die i s j e)
  obtain W where "mset (workers s) = add_mset (Running j) W" "\<And>v. mset ((workers s)[i := v]) = add_mset v W"
    using update_worker [OF die(1,2)] by blast
  then show ?case by (auto simp: weight_def)
qed (auto simp: weight_def q_put_def q_get_def split: list.splits)

lemma weight_run: "(step exec ^^ k) s s' \<Longrightarrow> k + weight s' \<le> weight s"
proof (induction k arbitrary: s')
  case (Suc k)
  then obtain t where "(step exec ^^ k) s t" "step exec t s'" by auto
  with Suc.IH [of t] weight_step [of exec t s'] show ?case by simp
qed simp

lemma weight_start:
  "\<forall>j \<in> set jobs. \<not> is_break j \<Longrightarrow> weight (start_pool jobs n) = 5 * length jobs + 2 * n + 1"
proof -
  assume "\<forall>j \<in> set jobs. \<not> is_break j"
  then have "(\<Sum>j \<leftarrow> jobs. if is_break j then 2 else 5) = 5 * length jobs" by (induction jobs) auto
  then show ?thesis by (simp add: weight_def start_pool_def sum_list_replicate)
qed

section \<open>No run gets stuck\<close>

definition total_on :: "(job \<Rightarrow> py_error + job) \<Rightarrow> job list \<Rightarrow> bool" where
  "total_on exec jobs \<longleftrightarrow> (\<forall>j \<in> set jobs. \<not> is_skip j \<longrightarrow> (\<exists>j'. exec j = Inr j'))"

lemma held_job:
  assumes "pool_inv exec jobs n s" "w \<in> set (workers s)" "j \<in># held w"
  shows "j \<in> set jobs"
proof -
  from assms(1) obtain real ready where "mset jobs = mset ready + in_flight s + mset real" unfolding pool_inv_def by blast
  moreover have "j \<in># in_flight s" using assms(2,3) by (auto simp: in_flight_def)
  ultimately have "j \<in># mset jobs" by simp
  then show ?thesis by simp
qed

lemma running_total:
  assumes "pool_inv exec jobs n s" "total_on exec jobs" "Running j \<in> set (workers s)"
  shows "\<exists>j'. exec j = Inr j'"
  using held_job [OF assms(1,3), of j] assms unfolding total_on_def pool_inv_def by fastforce

lemma nobody_dies:
  assumes "step exec s s'" "pool_inv exec jobs n s" "total_on exec jobs" "\<forall>j. Died j \<notin> set (workers s)"
  shows "\<forall>j. Died j \<notin> set (workers s')"
  using assms(1)
proof (cases rule: step.cases)
  case (die i j e)
  then show ?thesis using running_total [OF assms(2,3), of j] nth_mem [of i "workers s"] by auto
qed (use assms(4) in \<open>auto simp: check_job_def dest: set_update_subset_insert [THEN subsetD] split: if_splits\<close>)

lemma nobody_died:
  assumes "(step exec)\<^sup>*\<^sup>* (start_pool jobs n) s" "\<forall>j \<in> set jobs. \<not> is_break j" "total_on exec jobs"
  shows "\<forall>j. Died j \<notin> set (workers s)"
  using assms(1)
proof (induction rule: rtranclp_induct)
  case base
  then show ?case by (simp add: start_pool_def)
next
  case (step s s')
  show ?case by (rule nobody_dies [OF step(2) pool_inv_reachable [OF step(1) assms(2)] assms(3) step(3)])
qed

text \<open>When all workers wait for an empty queue or have stopped, all of them have stopped and every result is there.\<close>

lemma idle_pool:
  assumes inv: "pool_inv exec jobs n s" and n: "0 < n"
    and idle: "todo s = []" "\<forall>w \<in> set (workers s). w = Stopped \<or> w = Waiting \<and> input_queue s = []"
  shows "\<forall>w \<in> set (workers s). w = Stopped" "length (collected s) + length (output_queue s) = expected s"
proof -
  from inv obtain real ready k where len: "length (workers s) = n" "expected s = length jobs"
    and pend: "input_queue s @ todo s = real @ replicate k break_job" "k + stopped s = n" "real \<noteq> [] \<longrightarrow> stopped s = 0"
    and out: "list_all2 (result_of exec (thread_exit s)) ready (collected s @ output_queue s)"
    and jobs: "mset jobs = mset ready + in_flight s + mset real" by (rule pool_invE)
  have flight: "in_flight s = {#}" using idle(2) by (auto simp: in_flight_def sum_mset.neutral image_iff)
  have "input_queue s = []"
  proof (rule ccontr)
    assume ne: "input_queue s \<noteq> []"
    then have "\<forall>w \<in> set (workers s). w = Stopped" using idle(2) by auto
    then have "mset (workers s) = replicate_mset n Stopped"
      using len(1) by (metis mset_replicate replicate_length_same)
    then have "stopped s = n" by (simp add: stopped_def)
    with pend n ne idle(1) show False by auto
  qed
  then have "real = []" "k = 0" using pend(1) idle(1) by auto
  then have stop: "stopped s = n" using pend(2) by simp
  show "\<forall>w \<in> set (workers s). w = Stopped"
  proof
    fix w assume "w \<in> set (workers s)"
    then show "w = Stopped"
      using length_filter_less [of w "workers s" "(=) Stopped"] stop len(1) by (auto simp: stopped_def count_mset count_list_eq_length_filter)
  qed
  have "size (mset jobs) = length (collected s @ output_queue s)"
    using jobs flight \<open>real = []\<close> list_all2_lengthD [OF out] by simp
  then show "length (collected s) + length (output_queue s) = expected s" using len(2) by simp
qed

lemma progress:
  assumes inv: "pool_inv exec jobs n s" and total: "total_on exec jobs" and n: "0 < n"
    and alive: "\<forall>j. Died j \<notin> set (workers s)"
  shows "finished s \<or> (\<exists>s'. step exec s s' \<and> thread_exit s' = thread_exit s)"
proof -
  consider (queue) j rest where "todo s = j # rest"
    | (got) i j where "i < length (workers s)" "workers s ! i = Got j"
    | (run) i j where "i < length (workers s)" "workers s ! i = Running j"
    | (take) i where "i < length (workers s)" "workers s ! i = Waiting" "input_queue s \<noteq> []"
    | (idle) "todo s = []" "\<forall>w \<in> set (workers s). w = Stopped \<or> w = Waiting \<and> input_queue s = []"
  proof (cases "todo s")
    case Nil
    then show thesis using that(2-5) alive
      by (metis in_set_conv_nth worker.exhaust)
  qed (use that(1) in blast)
  then show ?thesis
  proof cases
    case queue
    from step.dispatch [OF this, of exec] show ?thesis by force
  next
    case got
    have "thread_exit (check_job i j s) = thread_exit s" by (simp add: check_job_def)
    with step.check [OF got, of exec] show ?thesis by blast
  next
    case run
    then obtain j' where "exec j = Inr j'" using running_total [OF inv total, of j] nth_mem [OF run(1)] by auto
    from step.finish [where exec = exec and s = s and i = i and j = j and j' = j', OF run this] show ?thesis by force
  next
    case take
    then obtain j q where "q_get (input_queue s) = Some (j, q)" using queue.get_total by blast
    from step.take [OF take(1,2) this, of exec] show ?thesis by force
  next
    case idle
    note idle_pool = idle_pool [OF inv n idle]
    show ?thesis
    proof (cases "output_queue s")
      case Nil
      with idle_pool idle(1) show ?thesis by (simp add: finished_def list_all_iff)
    next
      case (Cons j q)
      then have "q_get (output_queue s) = Some (j, q)" "length (collected s) < expected s"
        using idle_pool(2) by (simp_all add: q_get_def)
      from step.collect [OF idle(1) this(2,1), of exec] show ?thesis by force
    qed
  qed
qed

text \<open>
  Claim C6.  The driver ends.  With at least one worker, when the work on no job raises, every schedule of the
  main thread, the workers and the interrupt handler is at most \<open>5 * jobs + 2 * workers + 1\<close> steps
  long, and wherever a schedule stands, either everything is collected and all workers have
  returned, or some thread can move: no deadlock on the queues, with or without an interrupt.
\<close>

theorem run_tests_ends:
  assumes "\<forall>j \<in> set jobs. \<not> is_break j" "total_on exec jobs" "0 < n"
    and "(step exec ^^ k) (start_pool jobs n) s"
  shows "k \<le> 5 * length jobs + 2 * n + 1
    \<and> (finished s \<or> (\<exists>s'. step exec s s' \<and> thread_exit s' = thread_exit s))"
proof -
  have reach: "(step exec)\<^sup>*\<^sup>* (start_pool jobs n) s" using assms(4) by (rule relpowp_imp_rtranclp)
  from weight_run [OF assms(4)] have "k \<le> 5 * length jobs + 2 * n + 1" by (simp add: weight_start [OF assms(1)])
  moreover note progress [OF pool_inv_reachable [OF reach assms(1)] assms(2,3) nobody_died [OF reach assms(1,2)]]
  ultimately show ?thesis by blast
qed

theorem run_tests_ends_witness:
  "\<exists>s. (step Inr ^^ 0) (start_pool [new_job] 2) s
    \<and> (finished s \<or> (\<exists>s'. step Inr s s' \<and> thread_exit s' = thread_exit s))"
  using run_tests_ends [of "[new_job]" Inr 2 0 "start_pool [new_job] 2"] by (simp add: new_job_def total_on_def)

lemma collected_jobs:
  assumes "\<forall>j \<in> set jobs. \<not> is_break j" "(step exec)\<^sup>*\<^sup>* (start_pool jobs n) s" "finished s"
  shows "\<exists>order. mset order = mset jobs \<and> list_all2 (result_of exec (thread_exit s)) order (collected s)"
proof -
  from pool_inv_reachable [OF assms(2,1)] obtain real ready k
    where out: "expected s = length jobs" "list_all2 (result_of exec (thread_exit s)) ready (collected s @ output_queue s)"
      "mset jobs = mset ready + in_flight s + mset real" by (rule pool_invE)
  have "size (mset jobs) = size (mset ready) + size (in_flight s) + size (mset real)" using out(3) by simp
  moreover have "length ready = length (collected s) + length (output_queue s)"
    using list_all2_lengthD [OF out(2)] by simp
  moreover have "length (collected s) = length jobs" using assms(3) out(1) by (simp add: finished_def)
  ultimately have "in_flight s = {#}" "mset real = {#}" "output_queue s = []" by simp_all
  with out show ?thesis by auto
qed

text \<open>One worker and one skipped job, without an interrupt.\<close>

lemma skip_run:
  fixes j :: job
  defines "st a b c d e \<equiv> \<lparr>todo = a, input_queue = b, output_queue = c, workers = d, collected = e, expected = 1,
    thread_exit = False\<rparr>"
  assumes j: "is_skip j" "\<not> is_break j"
  shows "(step exec)\<^sup>*\<^sup>* (start_pool [j] 1) (st [] [] [] [Stopped] [j])"
proof -
  have "start_pool [j] 1 = st [j, break_job] [] [] [Waiting] []" by (simp add: start_pool_def st_def)
  also have "step exec \<dots> (st [break_job] [j] [] [Waiting] [])"
    using step.dispatch [of "st [j, break_job] [] [] [Waiting] []" j "[break_job]" exec] by (simp add: st_def q_put_def)
  moreover have "step exec (st [break_job] [j] [] [Waiting] []) (st [break_job] [] [] [Got j] [])"
    using step.take [of 0 "st [break_job] [j] [] [Waiting] []" j "[]" exec] j by (simp add: st_def q_get_def)
  moreover have "step exec (st [break_job] [] [] [Got j] []) (st [break_job] [] [j] [Waiting] [])"
    using step.check [of 0 "st [break_job] [] [] [Got j] []" j exec] j by (simp add: st_def check_job_def q_put_def)
  moreover have "step exec (st [break_job] [] [j] [Waiting] []) (st [] [break_job] [j] [Waiting] [])"
    using step.dispatch [of "st [break_job] [] [j] [Waiting] []" break_job "[]" exec] by (simp add: st_def q_put_def)
  moreover have "step exec (st [] [break_job] [j] [Waiting] []) (st [] [] [j] [Stopped] [])"
    using step.take [of 0 "st [] [break_job] [j] [Waiting] []" break_job "[]" exec] by (simp add: st_def q_get_def)
  moreover have "step exec (st [] [] [j] [Stopped] []) (st [] [] [] [Stopped] [j])"
    using step.collect [of "st [] [] [j] [Stopped] []" j "[]" exec] by (simp add: st_def q_get_def)
  ultimately show ?thesis by (auto intro: rtranclp.rtrancl_into_rtrancl converse_rtranclp_into_rtranclp)
qed

lemma demo_run:
  "(step Inr)\<^sup>*\<^sup>* (start_pool [new_job\<lparr>is_skip := True\<rparr>] 1)
    \<lparr>todo = [], input_queue = [], output_queue = [], workers = [Stopped], collected = [new_job\<lparr>is_skip := True\<rparr>],
     expected = 1, thread_exit = False\<rparr>"
  by (rule skip_run) (simp_all add: new_job_def)

lemma execute_job_keeps: "execute_job c sh opts j = Inr j' \<Longrightarrow> is_break j' = is_break j \<and> is_skip j' = is_skip j"
  by (auto simp: execute_job_def Let_def rbind_Inr_iff split: if_splits)

text \<open>
  Claim C7.  What the main thread collects, whatever the schedule: when it is done it has, for each
  queued job, exactly one result, in some order; a skipped job comes back as it was, any other one with
  the return code of its run, and unworked jobs, marked as breaks, only come back behind an
  interrupt.
\<close>

theorem collected_results:
  assumes "\<forall>j \<in> set jobs. \<not> is_break j" "(step exec)\<^sup>*\<^sup>* (start_pool jobs n) s" "finished s"
  shows "\<exists>order. mset order = mset jobs \<and> list_all2 (result_of exec (thread_exit s)) order (collected s)"
  by (rule collected_jobs [OF assms])

theorem collected_results_witness:
  "\<exists>s. finished s \<and> collected s = [new_job\<lparr>is_skip := True\<rparr>] \<and> (\<exists>order. mset order = mset [new_job\<lparr>is_skip := True\<rparr>]
     \<and> list_all2 (result_of Inr (thread_exit s)) order (collected s))"
proof -
  have fin: "finished \<lparr>todo = [], input_queue = [], output_queue = [], workers = [Stopped],
      collected = [new_job\<lparr>is_skip := True\<rparr>], expected = 1, thread_exit = False\<rparr>" by (simp add: finished_def)
  have "\<forall>j \<in> set [new_job\<lparr>is_skip := True\<rparr>]. \<not> is_break j" by (simp add: new_job_def)
  from collected_results [OF this demo_run fin] fin show ?thesis
    by (intro exI [of _ "\<lparr>todo = [], input_queue = [], output_queue = [], workers = [Stopped],
      collected = [new_job\<lparr>is_skip := True\<rparr>], expected = 1, thread_exit = False\<rparr>"]) simp
qed

end
