(* ===== verification/TestReport.thy ===== *)
theory TestReport
  imports TestWorkers
begin

text \<open>
  The last part of \<open>run_tests\<close>: the loop over the collected jobs that counts them, prints a line
  for each and appends to the XML results file, the summary and the exit status.  The lemmas
  show what the verdict means and that neither it nor the summary depends on the schedule of the
  workers.
\<close>

section \<open>The code\<close>

record tally =
  passed_tests :: nat
  failed_tests :: nat
  crashed_tests :: nat
  valgrind_errors :: nat
  skipped_tests :: nat
  failed_testnames :: "string list"
  crashed_testnames :: "string list"
  valgrind_testnames :: "string list"
  skipped_testnames :: "string list"
  printed :: "string list"
  xml_results :: "string list"

definition status_of :: "job \<Rightarrow> string" where
  "status_of j =
     (if is_skip j then ''SKIP''
      else if returncode j = 0 then ''PASS''
      else if returncode j = 1 then ''FAIL''
      else if returncode j = 2 then ''VALGR''
      else ''CRASH'')"

definition count_job :: "tally \<Rightarrow> job \<Rightarrow> tally" where
  "count_job t j =
     (if is_skip j then
        t\<lparr>skipped_tests := skipped_tests t + 1,
          skipped_testnames := skipped_testnames t @ [display_name j @ '' ('' @ skip_reason j @ '')'']\<rparr>
      else if returncode j = 0 then t\<lparr>passed_tests := passed_tests t + 1\<rparr>
      else if returncode j = 1 then
        t\<lparr>failed_tests := failed_tests t + 1, failed_testnames := failed_testnames t @ [display_name j]\<rparr>
      else if returncode j = 2 then
        t\<lparr>valgrind_errors := valgrind_errors t + 1, valgrind_testnames := valgrind_testnames t @ [display_name j]\<rparr>
      else
        t\<lparr>crashed_tests := crashed_tests t + 1, crashed_testnames := crashed_testnames t @ [display_name j]\<rparr>)"

definition status_line :: "test_options \<Rightarrow> job \<Rightarrow> string" where
  "status_line opts j =
     (let kind = (if is_example j \<or> is_pyexample j then ''Example'' else ''TestSuite'')
      in if o_duration opts \<or> o_constrain opts = ''performance''
         then status_of j @ '' ('' @ show_millis (elapsed_time j) @ ''): '' @ kind @ '' '' @ display_name j
         else status_of j @ '': '' @ kind @ '' '' @ display_name j)"

text \<open>What is appended to the results file; \<open>tmp_files\<close> are the files the suites left.\<close>

definition xml_entry :: "(string \<Rightarrow> string option) \<Rightarrow> job \<Rightarrow> py_error + string list" where
  "xml_entry tmp_files j =
     (if is_example j \<or> is_pyexample j then
        Inr [''<Example>'' @ nl, ''  <Name>'' @ display_name j @ ''</Name>'' @ nl,
             ''  <Result>'' @ status_of j @ ''</Result>'' @ nl,
             ''  <Time real=\"'' @ show_millis (elapsed_time j) @ ''\"/>'' @ nl, ''</Example>'' @ nl]
      else if is_skip j then
        Inr [''<Test>'' @ nl, ''  <Name>'' @ display_name j @ ''</Name>'' @ nl, ''  <Result>SKIP</Result>'' @ nl,
             ''  <Reason>'' @ skip_reason j @ ''</Reason>'' @ nl, ''</Test>'' @ nl]
      else if returncode j = 0 \<or> returncode j = 1 \<or> returncode j = 2 then
        (case tmp_files (tmp_file_name j) of None \<Rightarrow> Inl FileNotFoundError | Some s \<Rightarrow> Inr [s])
      else
        Inr [''<Test>'' @ nl, ''  <Name>'' @ display_name j @ ''</Name>'' @ nl, ''  <Result>CRASH</Result>'' @ nl,
             ''</Test>'' @ nl])"

definition collect_job :: "test_options \<Rightarrow> (string \<Rightarrow> string option) \<Rightarrow> tally \<Rightarrow> job \<Rightarrow> py_error + tally" where
  "collect_job opts tmp_files t j =
     (if is_break j then Inr t
      else
        let t = count_job t j;
            t = t\<lparr>printed := printed t @ [status_line opts j]\<rparr>
        in rbind (xml_entry tmp_files j) (\<lambda>entry. Inr (t\<lparr>xml_results := xml_results t @ entry\<rparr>)))"

definition start_tally :: tally where
  "start_tally = \<lparr>passed_tests = 0, failed_tests = 0, crashed_tests = 0, valgrind_errors = 0, skipped_tests = 0,
     failed_testnames = [], crashed_testnames = [], valgrind_testnames = [], skipped_testnames = [], printed = [],
     xml_results = [''<?xml version=\"1.0\"?>'' @ nl, ''<Results>'' @ nl]\<rparr>"

definition list_names :: "string \<Rightarrow> string list \<Rightarrow> string list" where
  "list_names title names =
     (if names \<noteq> [] then [title @ nl @ ''    '' @ join (nl @ ''    '') (sort_strings names)] else [])"

definition summary :: "nat \<Rightarrow> tally \<Rightarrow> string list" where
  "summary total_tests t =
     [show_nat (passed_tests t) @ '' of '' @ show_nat total_tests @ '' tests passed ('' @ show_nat (passed_tests t) @
      '' passed, '' @ show_nat (skipped_tests t) @ '' skipped, '' @ show_nat (failed_tests t) @ '' failed, '' @
      show_nat (crashed_tests t) @ '' crashed, '' @ show_nat (valgrind_errors t) @ '' valgrind errors)'']
     @ list_names ''List of SKIPped tests:'' (skipped_testnames t)
     @ list_names ''List of FAILed tests:'' (failed_testnames t)
     @ list_names ''List of CRASHed tests:'' (crashed_testnames t)
     @ list_names ''List of VALGR failures:'' (valgrind_testnames t)"

definition exit_status :: "nat \<Rightarrow> tally \<Rightarrow> int" where
  "exit_status total_tests t = (if passed_tests t + skipped_tests t = total_tests then 0 else 1)"

text \<open>The loop, the end of the results file, the summary and the status that \<open>run_tests\<close> returns.\<close>

definition report_tests ::
    "test_options \<Rightarrow> (string \<Rightarrow> string option) \<Rightarrow> nat \<Rightarrow> job list \<Rightarrow> py_error + int \<times> string list \<times> string list" where
  "report_tests opts tmp_files total_tests collected_jobs =
     rbind (for_each (collect_job opts tmp_files) start_tally collected_jobs) (\<lambda>t.
       Inr (exit_status total_tests t, summary total_tests t, xml_results t @ [''</Results>'' @ nl]))"

section \<open>What is counted\<close>

definition with_status :: "string \<Rightarrow> job list \<Rightarrow> job list" where
  "with_status st jobs = filter (\<lambda>j. \<not> is_break j \<and> status_of j = st) jobs"

definition files_ok :: "(string \<Rightarrow> string option) \<Rightarrow> job list \<Rightarrow> bool" where
  "files_ok tmp_files jobs \<longleftrightarrow> (\<forall>j \<in> set jobs. \<not> is_break j \<longrightarrow> (\<exists>entry. xml_entry tmp_files j = Inr entry))"

definition counted :: "job list \<Rightarrow> tally \<Rightarrow> bool" where
  "counted jobs t \<longleftrightarrow>
     passed_tests t = length (with_status ''PASS'' jobs) \<and> failed_tests t = length (with_status ''FAIL'' jobs)
     \<and> crashed_tests t = length (with_status ''CRASH'' jobs) \<and> valgrind_errors t = length (with_status ''VALGR'' jobs)
     \<and> skipped_tests t = length (with_status ''SKIP'' jobs)
     \<and> failed_testnames t = map display_name (with_status ''FAIL'' jobs)
     \<and> crashed_testnames t = map display_name (with_status ''CRASH'' jobs)
     \<and> valgrind_testnames t = map display_name (with_status ''VALGR'' jobs)
     \<and> skipped_testnames t = map (\<lambda>j. display_name j @ '' ('' @ skip_reason j @ '')'') (with_status ''SKIP'' jobs)"

lemma status_of_cases:
  "status_of j \<in> {''SKIP'', ''PASS'', ''FAIL'', ''VALGR'', ''CRASH''}"
  by (simp add: status_of_def)

lemma counted_start: "counted [] start_tally"
  by (simp add: counted_def with_status_def start_tally_def)

lemma counted_count_job:
  "counted jobs t \<Longrightarrow> \<not> is_break j \<Longrightarrow> counted (jobs @ [j]) (count_job t j)"
  by (simp add: counted_def with_status_def count_job_def status_of_def)

lemma counted_break: "counted jobs t \<Longrightarrow> is_break j \<Longrightarrow> counted (jobs @ [j]) t"
  by (simp add: counted_def with_status_def)

lemma counted_output [simp]:
  "counted jobs (t\<lparr>printed := p\<rparr>) = counted jobs t" "counted jobs (t\<lparr>xml_results := x\<rparr>) = counted jobs t"
  by (simp_all add: counted_def)

lemma collect_all:
  assumes "files_ok tmp_files jobs"
  shows "\<exists>t. for_each (collect_job opts tmp_files) start_tally jobs = Inr t \<and> counted jobs t"
proof (rule for_each_inv [where I = counted])
  fix before j rest t
  assume jobs: "jobs = before @ j # rest" and t: "counted before t"
  show "\<exists>t'. collect_job opts tmp_files t j = Inr t' \<and> counted (before @ [j]) t'"
  proof (cases "is_break j")
    case True
    with t show ?thesis by (simp add: collect_job_def counted_break)
  next
    case False
    then obtain entry where "xml_entry tmp_files j = Inr entry" using assms jobs by (auto simp: files_ok_def)
    with False t show ?thesis by (simp add: collect_job_def counted_count_job Let_def)
  qed
qed (rule counted_start)

lemma report_tests_counted:
  assumes "files_ok tmp_files jobs"
  shows "\<exists>t. report_tests opts tmp_files ntests jobs =
      Inr (exit_status ntests t, summary ntests t, xml_results t @ [''</Results>'' @ nl]) \<and> counted jobs t"
  using collect_all [OF assms, of opts] by (auto simp: report_tests_def)

lemma length_partition:
  "length jobs = length (with_status ''PASS'' jobs) + length (with_status ''SKIP'' jobs)
     + length (with_status ''FAIL'' jobs) + length (with_status ''CRASH'' jobs) + length (with_status ''VALGR'' jobs)
     + length (filter is_break jobs)"
  by (induction jobs) (auto simp: with_status_def status_of_def)

lemma no_bad_status:
  "length (with_status ''PASS'' jobs) + length (with_status ''SKIP'' jobs) = length jobs
   \<longleftrightarrow> (\<forall>j \<in> set jobs. \<not> is_break j \<and> status_of j \<in> {''PASS'', ''SKIP''})"
proof (induction jobs)
  case (Cons j jobs)
  have "length (with_status ''PASS'' jobs) + length (with_status ''SKIP'' jobs) \<le> length jobs"
    using length_partition [of jobs] by linarith
  with Cons show ?case by (auto simp: with_status_def)
qed (simp add: with_status_def)

text \<open>
  Claim C9.  The verdict.  When every collected job left what the report needs, the report counts each
  job under its own status and nothing twice, and the exit status is 0 exactly when each queued job
  was really worked on and passed or was skipped: an interrupt, a failure, a crash and a valgrind
  error all give 1.
\<close>

theorem report_verdict:
  assumes "files_ok tmp_files jobs" "length jobs = ntests"
  shows "\<exists>t. report_tests opts tmp_files ntests jobs =
      Inr (exit_status ntests t, summary ntests t, xml_results t @ [''</Results>'' @ nl])
    \<and> counted jobs t
    \<and> passed_tests t + skipped_tests t + failed_tests t + crashed_tests t + valgrind_errors t
        + length (filter is_break jobs) = ntests
    \<and> exit_status ntests t =
        (if \<forall>j \<in> set jobs. \<not> is_break j \<and> status_of j \<in> {''PASS'', ''SKIP''} then 0 else 1)"
proof -
  obtain t where t: "report_tests opts tmp_files ntests jobs =
      Inr (exit_status ntests t, summary ntests t, xml_results t @ [''</Results>'' @ nl])" "counted jobs t"
    using report_tests_counted [OF assms(1)] by blast
  moreover have "exit_status ntests t =
      (if \<forall>j \<in> set jobs. \<not> is_break j \<and> status_of j \<in> {''PASS'', ''SKIP''} then 0 else 1)"
    using t(2) assms(2) no_bad_status [of jobs] by (simp add: exit_status_def counted_def)
  moreover have "passed_tests t + skipped_tests t + failed_tests t + crashed_tests t + valgrind_errors t
      + length (filter is_break jobs) = ntests"
    using t(2) assms(2) length_partition [of jobs] by (simp add: counted_def)
  ultimately show ?thesis by blast
qed

theorem report_verdict_witness:
  "\<exists>t. report_tests plain_options (\<lambda>f. Some ''<Test/>'') 2
      [new_job\<lparr>display_name := ''a'', returncode := 1\<rparr>, new_job\<lparr>is_example := True\<rparr>] =
    Inr (1, summary 2 t, xml_results t @ [''</Results>'' @ nl])"
proof -
  have "files_ok (\<lambda>f. Some ''<Test/>'') [new_job\<lparr>display_name := ''a'', returncode := 1\<rparr>, new_job\<lparr>is_example := True\<rparr>]"
    by (simp add: files_ok_def xml_entry_def new_job_def)
  from report_verdict [OF this, of 2 plain_options] show ?thesis
    by (auto simp: status_of_def new_job_def)
qed

section \<open>Independence of the schedule\<close>

lemma inj_codes: "inj_on (map (\<lambda>c :: char. of_char c :: nat)) A"
proof (rule inj_onI)
  show "map (\<lambda>c :: char. of_char c :: nat) x = map of_char y \<Longrightarrow> x = y" for x y
    by (induction x arbitrary: y) (auto simp: map_eq_Cons_conv Cons_eq_map_conv)
qed

lemma sort_strings_mset:
  assumes "mset xs = mset ys"
  shows "sort_strings xs = sort_strings ys"
  unfolding sort_strings_def
  by (rule sort_key_inj_key_eq [OF _ inj_codes]) (simp_all add: assms)

lemma list_names_mset: "mset xs = mset ys \<Longrightarrow> list_names title xs = list_names title ys"
  using sort_strings_mset [of xs ys] by (auto simp: list_names_def)

lemma with_status_mset: "mset jobs = mset jobs' \<Longrightarrow> mset (with_status st jobs) = mset (with_status st jobs')"
  by (simp add: with_status_def)

lemma report_mset:
  assumes "mset jobs = mset jobs'" "files_ok tmp_files jobs"
    and "for_each (collect_job opts tmp_files) start_tally jobs = Inr t"
    and "for_each (collect_job opts tmp_files) start_tally jobs' = Inr t'"
  shows "report_tests opts tmp_files ntests jobs
    = Inr (exit_status ntests t', summary ntests t', xml_results t @ [''</Results>'' @ nl])"
proof -
  have ok: "files_ok tmp_files jobs'" using assms(2) mset_eq_setD [OF assms(1)] by (simp add: files_ok_def)
  have t: "counted jobs t" "counted jobs' t'"
    using collect_all [OF assms(2), of opts] collect_all [OF ok, of opts] assms(3,4) by auto
  have m: "mset (with_status st jobs) = mset (with_status st jobs')" for st by (rule with_status_mset [OF assms(1)])
  have len: "length (with_status st jobs) = length (with_status st jobs')" for st using m [of st] by (metis size_mset)
  have names: "list_names title (map f (with_status st jobs)) = list_names title (map f (with_status st jobs'))"
    for f :: "job \<Rightarrow> string" and st title by (rule list_names_mset) (simp add: m)
  have "exit_status ntests t = exit_status ntests t'"
    using t by (simp add: counted_def exit_status_def len)
  moreover have "summary ntests t = summary ntests t'"
    using t unfolding summary_def counted_def by (simp only: len names)
  ultimately show ?thesis using assms(3) by (simp add: report_tests_def)
qed

text \<open>What the loop prints and what it writes, job by job.\<close>

definition entry_of :: "(string \<Rightarrow> string option) \<Rightarrow> job \<Rightarrow> string list" where
  "entry_of tmp_files j = projr (xml_entry tmp_files j)"

definition worked_on :: "job list \<Rightarrow> job list" where
  "worked_on jobs = filter (\<lambda>j. \<not> is_break j) jobs"

lemma collect_output:
  assumes "files_ok tmp_files jobs"
  shows "\<exists>t. for_each (collect_job opts tmp_files) start_tally jobs = Inr t
    \<and> printed t = map (status_line opts) (worked_on jobs)
    \<and> xml_results t = xml_results start_tally @ concat (map (entry_of tmp_files) (worked_on jobs))"
proof (rule for_each_inv [where I = "\<lambda>js t. printed t = map (status_line opts) (worked_on js)
    \<and> xml_results t = xml_results start_tally @ concat (map (entry_of tmp_files) (worked_on js))"])
  fix before j rest and t :: tally
  let ?I = "\<lambda>js (t :: tally). printed t = map (status_line opts) (worked_on js)
    \<and> xml_results t = xml_results start_tally @ concat (map (entry_of tmp_files) (worked_on js))"
  assume jobs: "jobs = before @ j # rest" and t: "?I before t"
  show "\<exists>t'. collect_job opts tmp_files t j = Inr t' \<and> ?I (before @ [j]) t'"
  proof (cases "is_break j")
    case True
    with t show ?thesis by (simp add: collect_job_def worked_on_def)
  next
    case False
    then obtain entry where "xml_entry tmp_files j = Inr entry" using assms jobs by (auto simp: files_ok_def)
    moreover have "printed (count_job t j) = printed t" "xml_results (count_job t j) = xml_results t"
      by (simp_all add: count_job_def)
    ultimately show ?thesis using False t by (simp add: collect_job_def worked_on_def entry_of_def Let_def)
  qed
qed (simp add: start_tally_def worked_on_def)

definition finish_job :: "(job \<Rightarrow> py_error + job) \<Rightarrow> job \<Rightarrow> job" where
  "finish_job exec j = (if is_skip j then j else projr (exec j))"

lemma uninterrupted_results:
  assumes "list_all2 (result_of exec False) order results"
  shows "results = map (finish_job exec) order"
  using assms by (induction rule: list_all2_induct) (auto simp: result_of_def finish_job_def)

text \<open>
  Claim C8.  The schedule does not matter.  However the workers interleave, if there is no interrupt and
  every job leaves what the report needs, the jobs are collected in some order of the queued
  ones, each with the result that it has on its own; the exit status and the printed summary are those of
  running the jobs one after the other in queue order; and the status lines and the entries of
  the XML file are, one by one, those of this sequential run, put into the order of collection.
\<close>

theorem schedule_independent:
  assumes "\<forall>j \<in> set jobs. \<not> is_break j" "(step exec)\<^sup>*\<^sup>* (start_pool jobs n) s" "finished s" "\<not> thread_exit s"
    and "files_ok tmp_files (map (finish_job exec) jobs)"
  shows "\<exists>order t t'. mset order = mset (map (finish_job exec) jobs) \<and> collected s = order
    \<and> for_each (collect_job opts tmp_files) start_tally order = Inr t
    \<and> for_each (collect_job opts tmp_files) start_tally (map (finish_job exec) jobs) = Inr t'
    \<and> report_tests opts tmp_files (length jobs) order
        = Inr (exit_status (length jobs) t', summary (length jobs) t', xml_results t @ [''</Results>'' @ nl])
    \<and> report_tests opts tmp_files (length jobs) (map (finish_job exec) jobs)
        = Inr (exit_status (length jobs) t', summary (length jobs) t', xml_results t' @ [''</Results>'' @ nl])
    \<and> printed t = map (status_line opts) (worked_on order)
    \<and> printed t' = map (status_line opts) (worked_on (map (finish_job exec) jobs))
    \<and> xml_results t = xml_results start_tally @ concat (map (entry_of tmp_files) (worked_on order))
    \<and> xml_results t' = xml_results start_tally
        @ concat (map (entry_of tmp_files) (worked_on (map (finish_job exec) jobs)))"
proof -
  obtain order where order: "mset order = mset jobs" "list_all2 (result_of exec False) order (collected s)"
    using collected_jobs [OF assms(1-3)] assms(4) by auto
  then have "collected s = map (finish_job exec) order" by (intro uninterrupted_results)
  then have eq: "mset (collected s) = mset (map (finish_job exec) jobs)" using order(1) by simp
  have ok: "files_ok tmp_files (collected s)"
    using assms(5) mset_eq_setD [OF eq] by (simp add: files_ok_def)
  obtain t where t: "for_each (collect_job opts tmp_files) start_tally (collected s) = Inr t"
    "printed t = map (status_line opts) (worked_on (collected s))"
    "xml_results t = xml_results start_tally @ concat (map (entry_of tmp_files) (worked_on (collected s)))"
    using collect_output [OF ok] by blast
  obtain t' where t': "for_each (collect_job opts tmp_files) start_tally (map (finish_job exec) jobs) = Inr t'"
    "printed t' = map (status_line opts) (worked_on (map (finish_job exec) jobs))"
    "xml_results t' = xml_results start_tally
      @ concat (map (entry_of tmp_files) (worked_on (map (finish_job exec) jobs)))"
    using collect_output [OF assms(5)] by blast
  from report_mset [OF eq ok t(1) t'(1)] report_mset [OF refl assms(5) t'(1) t'(1)] t t' eq
  show ?thesis by blast
qed

text \<open>Two workers and two skipped jobs; the second job is collected first.\<close>

lemma swap_run:
  fixes a b :: job
  defines "st t i q w c \<equiv> \<lparr>todo = t, input_queue = i, output_queue = q, workers = w, collected = c, expected = 2,
    thread_exit = False\<rparr>"
  assumes a: "is_skip a" "\<not> is_break a" and b: "is_skip b" "\<not> is_break b"
  shows "(step exec)\<^sup>*\<^sup>* (start_pool [a, b] 2) (st [] [] [] [Stopped, Stopped] [b, a])"
proof -
  let ?K = break_job
  have dispatch: "step exec (st (j # t) i [] [Waiting, Waiting] []) (st t (i @ [j]) [] [Waiting, Waiting] [])" for j t i
    using step.dispatch [of "st (j # t) i [] [Waiting, Waiting] []" j t exec] by (simp add: st_def q_put_def)
  have start: "start_pool [a, b] 2 = st [a, b, ?K, ?K] [] [] [Waiting, Waiting] []"
    by (simp add: start_pool_def st_def numeral_2_eq_2)
  have "(step exec)\<^sup>*\<^sup>* (start_pool [a, b] 2) (st [] [a, b, ?K, ?K] [] [Waiting, Waiting] [])"
    unfolding start
    using dispatch [of a "[b, ?K, ?K]" "[]"] dispatch [of b "[?K, ?K]" "[a]"] dispatch [of ?K "[?K]" "[a, b]"]
      dispatch [of ?K "[]" "[a, b, ?K]"]
    by (auto intro: converse_rtranclp_into_rtranclp)
  also have "step exec \<dots> (st [] [b, ?K, ?K] [] [Got a, Waiting] [])"
    using step.take [of 0 "st [] [a, b, ?K, ?K] [] [Waiting, Waiting] []" a _ exec] a by (simp add: st_def q_get_def)
  also have "step exec \<dots> (st [] [?K, ?K] [] [Got a, Got b] [])"
    using step.take [of 1 "st [] [b, ?K, ?K] [] [Got a, Waiting] []" b _ exec] b by (simp add: st_def q_get_def)
  also have "step exec \<dots> (st [] [?K, ?K] [b] [Got a, Waiting] [])"
    using step.check [of 1 "st [] [?K, ?K] [] [Got a, Got b] []" b exec] b by (simp add: st_def check_job_def q_put_def)
  also have "step exec \<dots> (st [] [?K, ?K] [b, a] [Waiting, Waiting] [])"
    using step.check [of 0 "st [] [?K, ?K] [b] [Got a, Waiting] []" a exec] a by (simp add: st_def check_job_def q_put_def)
  also have "step exec \<dots> (st [] [?K] [b, a] [Stopped, Waiting] [])"
    using step.take [of 0 "st [] [?K, ?K] [b, a] [Waiting, Waiting] []" ?K _ exec] by (simp add: st_def q_get_def)
  also have "step exec \<dots> (st [] [] [b, a] [Stopped, Stopped] [])"
    using step.take [of 1 "st [] [?K] [b, a] [Stopped, Waiting] []" ?K _ exec] by (simp add: st_def q_get_def)
  also have "step exec \<dots> (st [] [] [a] [Stopped, Stopped] [b])"
    using step.collect [of "st [] [] [b, a] [Stopped, Stopped] []" b _ exec] by (simp add: st_def q_get_def)
  also have "step exec \<dots> (st [] [] [] [Stopped, Stopped] [b, a])"
    using step.collect [of "st [] [] [a] [Stopped, Stopped] [b]" a _ exec] by (simp add: st_def q_get_def)
  finally show ?thesis .
qed

theorem schedule_independent_witness:
  "\<exists>t. for_each (collect_job plain_options (\<lambda>f. None)) start_tally
        [new_job\<lparr>is_skip := True, display_name := ''b''\<rparr>, new_job\<lparr>is_skip := True, display_name := ''a''\<rparr>] = Inr t
    \<and> printed t = [''SKIP: TestSuite b'', ''SKIP: TestSuite a'']"
proof -
  let ?a = "new_job\<lparr>is_skip := True, display_name := ''a''\<rparr>" and ?b = "new_job\<lparr>is_skip := True, display_name := ''b''\<rparr>"
  have 1: "\<forall>j \<in> set [?a, ?b]. \<not> is_break j" by (simp add: new_job_def)
  have run: "(step Inr)\<^sup>*\<^sup>* (start_pool [?a, ?b] 2) \<lparr>todo = [], input_queue = [], output_queue = [],
      workers = [Stopped, Stopped], collected = [?b, ?a], expected = 2, thread_exit = False\<rparr>"
    by (rule swap_run) (simp_all add: new_job_def)
  have 2: "finished \<lparr>todo = [], input_queue = [], output_queue = [], workers = [Stopped, Stopped],
      collected = [?b, ?a], expected = 2, thread_exit = False\<rparr>" by (simp add: finished_def)
  have 3: "files_ok (\<lambda>f. None) (map (finish_job Inr) [?a, ?b])"
    by (simp add: files_ok_def xml_entry_def finish_job_def new_job_def)
  have lines: "map (status_line plain_options) (worked_on [?b, ?a]) = [''SKIP: TestSuite b'', ''SKIP: TestSuite a'']"
    by (simp add: worked_on_def status_line_def status_of_def new_job_def plain_options_def)
  from schedule_independent [OF 1 run 2 _ 3, of plain_options] lines show ?thesis by auto
qed

end
