(* ===== verification/TestFormats.thy ===== *)
theory TestFormats
  imports PyDict
begin

text \<open>
  The translations of the XML results of \<open>test.py\<close> to text and to HTML: \<open>read_test\<close>,
  \<open>node_to_text\<close>, \<open>translate_to_text\<close> and \<open>translate_to_html\<close>, over the part of
  \<open>ElementTree\<close> they use.  Text may be missing (\<open>None\<close>), which the formats print as
  \<open>None\<close>; a missing child raises \<open>AttributeError\<close>.
\<close>

section \<open>Elements\<close>

datatype xml = Element (tag: string) (xml_text: "string option") (attributes: "(string, string) dict") (subs: "xml list")

definition find_child :: "string \<Rightarrow> xml \<Rightarrow> xml option" where
  "find_child t e = List.find (\<lambda>c. tag c = t) (subs e)"

definition findall :: "string \<Rightarrow> xml \<Rightarrow> xml list" where
  "findall t e = filter (\<lambda>c. tag c = t) (subs e)"

definition show_text :: "string option \<Rightarrow> string" where
  "show_text s = (case s of None \<Rightarrow> ''None'' | Some x \<Rightarrow> x)"

definition text_of :: "string \<Rightarrow> xml \<Rightarrow> py_error + string option" where
  "text_of t e = (case find_child t e of None \<Rightarrow> Inl AttributeError | Some c \<Rightarrow> Inr (xml_text c))"

definition read_test :: "xml \<Rightarrow> py_error + string option \<times> string option \<times> string option \<times> string option" where
  "read_test test =
     rbind (text_of ''Result'' test) (\<lambda>result.
     rbind (text_of ''Name'' test) (\<lambda>name.
       let reason = (case find_child ''Reason'' test of None \<Rightarrow> Some [] | Some c \<Rightarrow> xml_text c);
           time_real = (case find_child ''Time'' test of None \<Rightarrow> Some [] | Some c \<Rightarrow> dget (attributes c) ''real'')
       in Inr (result, name, reason, time_real)))"

section \<open>Text\<close>

definition lf :: string where
  "lf = [CHR 0x0A]"

definition emit_child :: "string \<Rightarrow> string \<Rightarrow> string \<Rightarrow> xml \<Rightarrow> py_error + string" where
  "emit_child before t after e = rbind (text_of t e) (\<lambda>s. Inr (before @ show_text s @ after))"

definition details_to_text :: "string list \<Rightarrow> xml \<Rightarrow> py_error + string list" where
  "details_to_text f details =
     for_each (\<lambda>f (before, t). rbind (emit_child before t lf details) (\<lambda>s. Inr (f @ [s]))) (f @ [''    Details:'' @ lf])
       [(''      Message:   '', ''Message''), (''      Condition: '', ''Condition''), (''      Actual:    '', ''Actual''),
        (''      Limit:     '', ''Limit''), (''      File:      '', ''File''), (''      Line:      '', ''Line'')]"

definition headline :: "string option \<times> string option \<times> string option \<times> string option \<Rightarrow> string" where
  "headline r =
     (case r of (result, name, reason, time_real) \<Rightarrow>
       show_text result @ '': Test Suite \"'' @ show_text name @ ''\" ('' @ show_text time_real @ '')'' @
       (case reason of None \<Rightarrow> ''None'' | Some s \<Rightarrow> if s = [] then [] else '' ('' @ s @ '')'') @ lf)"

fun node_to_text :: "xml \<Rightarrow> string list \<Rightarrow> py_error + string list"
  and nodes_to_text :: "xml list \<Rightarrow> string list \<Rightarrow> py_error + string list" where
  "node_to_text (Element t x a cs) f =
     rbind (read_test (Element t x a cs)) (\<lambda>r.
     rbind (for_each details_to_text (f @ [headline r]) (findall ''FailureDetails'' (Element t x a cs))) (\<lambda>f.
       nodes_to_text cs f))"
| "nodes_to_text [] f = Inr f"
| "nodes_to_text (c # cs) f =
     (if tag c = ''Test'' then rbind (node_to_text c f) (\<lambda>f. nodes_to_text cs f) else nodes_to_text cs f)"

definition example_to_text :: "string list \<Rightarrow> xml \<Rightarrow> py_error + string list" where
  "example_to_text f example =
     rbind (text_of ''Result'' example) (\<lambda>result.
     rbind (text_of ''Name'' example) (\<lambda>name.
       let time_real = (case find_child ''Time'' example of None \<Rightarrow> Some [] | Some c \<Rightarrow> dget (attributes c) ''real'')
       in Inr (f @ [show_text result @ '': Example \"'' @ show_text name @ ''\" ('' @ show_text time_real @ '')'' @ lf])))"

definition translate_to_text :: "xml \<Rightarrow> py_error + string list" where
  "translate_to_text et =
     rbind (nodes_to_text (subs et) []) (\<lambda>f. for_each example_to_text f (findall ''Example'' et))"

section \<open>HTML\<close>

definition coloured :: "string \<Rightarrow> string \<Rightarrow> string" where
  "coloured colour s = ''<td style=\"color:'' @ colour @ ''\">'' @ s @ ''</td>'' @ lf"

definition cell :: "string \<Rightarrow> string" where
  "cell s = ''<td>'' @ s @ ''</td>'' @ lf"

definition row_start :: string where
  "row_start = ''<tr>'' @ lf"

definition row_end :: string where
  "row_end = ''</tr>'' @ lf"

definition table_end :: string where
  "table_end = ''</table>'' @ lf"

definition suite_header :: "string option \<Rightarrow> string option \<Rightarrow> string option \<Rightarrow> string option \<Rightarrow> string" where
  "suite_header result name reason time =
     (if result = Some ''PASS'' then
        ''<h3 style=\"color:green\">'' @ show_text result @ '': '' @ show_text name @ '' ('' @ show_text time @ '')</h3>'' @ lf
      else if result = Some ''SKIP'' then
        ''<h3 style=\"color:#ff6600\">'' @ show_text result @ '': '' @ show_text name @ '' ('' @ show_text time @ '') ('' @
          show_text reason @ '')</h3>'' @ lf
      else
        ''<h3 style=\"color:red\">'' @ show_text result @ '': '' @ show_text name @ '' ('' @ show_text time @ '')</h3>'' @ lf)"

text \<open>One row of a failed test case; the row is closed with the end tag of a cell.\<close>

definition details_row ::
    "string option \<Rightarrow> string option \<Rightarrow> string option \<Rightarrow> string list \<times> bool \<Rightarrow> xml \<Rightarrow> py_error + string list \<times> bool" where
  "details_row result name time st details =
     (case st of (f, first_row) \<Rightarrow>
       let f = f @ [row_start] @
             (if first_row then [coloured ''red'' (show_text result), cell (show_text name), cell (show_text time)]
              else [cell [], cell [], cell []]) @ [''<td>'']
       in rbind (for_each (\<lambda>f (before, t, after). rbind (emit_child before t after details) (\<lambda>s. Inr (f @ [s]))) f
            [(''<b>Message: </b>'', ''Message'', '', ''), (''<b>Condition: </b>'', ''Condition'', '', ''),
             (''<b>Actual: </b>'', ''Actual'', '', ''), (''<b>Limit: </b>'', ''Limit'', '', ''),
             (''<b>File: </b>'', ''File'', '', ''), (''<b>Line: </b>'', ''Line'', [])])
            (\<lambda>f. Inr (f @ [''</td>'' @ lf, ''</td>'' @ lf], False)))"

definition case_to_html :: "string list \<Rightarrow> xml \<Rightarrow> py_error + string list" where
  "case_to_html f test_case =
     rbind (read_test test_case) (\<lambda>(result, name, reason, time).
       if result = Some ''FAIL'' then
         rbind (for_each (details_row result name time) (f, True) (findall ''FailureDetails'' test_case)) (\<lambda>(f, _). Inr f)
       else
         Inr (f @ [row_start, coloured ''green'' (show_text result), cell (show_text name), cell (show_text time),
                   cell (show_text reason), row_end]))"

definition suite_to_html :: "string list \<Rightarrow> xml \<Rightarrow> py_error + string list" where
  "suite_to_html f suite =
     rbind (read_test suite) (\<lambda>(result, name, reason, time).
       let f = f @ [suite_header result name reason time, ''<table border=\"1\">'' @ lf, ''<th> Result </th>'' @ lf]
       in if result \<in> set [Some ''CRASH'', Some ''SKIP'', Some ''VALGR''] then
            Inr (f @ [row_start,
                      if result = Some ''SKIP'' then coloured ''#ff6600'' (show_text result) else coloured ''red'' (show_text result),
                      row_end, table_end])
          else
            rbind (for_each case_to_html
                     (f @ [''<th>Test Case Name</th>'' @ lf, ''<th> Time </th>'' @ lf]
                        @ (if result = Some ''FAIL'' then [''<th>Failure Details</th>'' @ lf] else []))
                     (findall ''Test'' suite))
              (\<lambda>f. Inr (f @ [table_end])))"

definition example_to_html :: "string list \<Rightarrow> xml \<Rightarrow> py_error + string list" where
  "example_to_html f example =
     rbind (read_test example) (\<lambda>(result, name, reason, time).
       Inr (f @ [row_start,
                 if result = Some ''PASS'' then coloured ''green'' (show_text result)
                 else if result = Some ''SKIP'' then ''<td style=\"color:#ff6600\">'' @ show_text result @ ''</fd>'' @ lf
                 else coloured ''red'' (show_text result),
                 cell (show_text name), cell (show_text time), cell (show_text reason), row_end]))"

definition translate_to_html :: "xml \<Rightarrow> py_error + string list" where
  "translate_to_html et =
     rbind (for_each suite_to_html
              [''<html>'' @ lf, ''<body>'' @ lf, ''<center><h1>ns-3 Test Results</h1></center>'' @ lf,
               ''<h2>Test Suites</h2>'' @ lf]
              (findall ''Test'' et)) (\<lambda>f.
     rbind (for_each example_to_html
              (f @ [''<h2>Examples</h2>'' @ lf, ''<table border=\"1\">'' @ lf, ''<th> Result </th>'' @ lf,
                    ''<th>Example Name</th>'' @ lf, ''<th>Elapsed Time</th>'' @ lf, ''<th>Details</th>'' @ lf])
              (findall ''Example'' et)) (\<lambda>f.
       Inr (f @ [table_end, ''</body>'' @ lf, ''</html>'' @ lf])))"

section \<open>Correctness of the text report\<close>

text \<open>
  What a report of complete elements looks like.  A node is complete when it has a result and
  a name and each of its failure details has the six fields.
\<close>

definition detail_fields :: "string list" where
  "detail_fields = [''Message'', ''Condition'', ''Actual'', ''Limit'', ''File'', ''Line'']"

definition has_child :: "xml \<Rightarrow> string \<Rightarrow> bool" where
  "has_child e t \<longleftrightarrow> find_child t e \<noteq> None"

definition complete :: "xml \<Rightarrow> bool" where
  "complete e \<longleftrightarrow> has_child e ''Result'' \<and> has_child e ''Name''
     \<and> (\<forall>d \<in> set (findall ''FailureDetails'' e). \<forall>t \<in> set detail_fields. has_child d t)"

text \<open>The test nodes below an element, each before its own sub-tests.\<close>

fun tests_in :: "xml \<Rightarrow> xml list" and tests_below :: "xml list \<Rightarrow> xml list" where
  "tests_in (Element t x a cs) = Element t x a cs # tests_below cs"
| "tests_below [] = []"
| "tests_below (c # cs) = (if tag c = ''Test'' then tests_in c else []) @ tests_below cs"

definition field :: "string \<Rightarrow> xml \<Rightarrow> string" where
  "field t e = show_text (case find_child t e of None \<Rightarrow> None | Some c \<Rightarrow> xml_text c)"

definition time_of :: "xml \<Rightarrow> string" where
  "time_of e = show_text (case find_child ''Time'' e of None \<Rightarrow> Some [] | Some c \<Rightarrow> dget (attributes c) ''real'')"

definition reason_of :: "xml \<Rightarrow> string" where
  "reason_of e = (case (case find_child ''Reason'' e of None \<Rightarrow> Some [] | Some c \<Rightarrow> xml_text c) of
     None \<Rightarrow> ''None'' | Some s \<Rightarrow> if s = [] then [] else '' ('' @ s @ '')'')"

definition detail_lines :: "xml \<Rightarrow> string list" where
  "detail_lines d = [''    Details:'' @ lf,
     ''      Message:   '' @ field ''Message'' d @ lf, ''      Condition: '' @ field ''Condition'' d @ lf,
     ''      Actual:    '' @ field ''Actual'' d @ lf, ''      Limit:     '' @ field ''Limit'' d @ lf,
     ''      File:      '' @ field ''File'' d @ lf, ''      Line:      '' @ field ''Line'' d @ lf]"

definition node_lines :: "xml \<Rightarrow> string list" where
  "node_lines e =
     [field ''Result'' e @ '': Test Suite \"'' @ field ''Name'' e @ ''\" ('' @ time_of e @ '')'' @ reason_of e @ lf]
     @ concat (map detail_lines (findall ''FailureDetails'' e))"

definition example_line :: "xml \<Rightarrow> string" where
  "example_line e = field ''Result'' e @ '': Example \"'' @ field ''Name'' e @ ''\" ('' @ time_of e @ '')'' @ lf"

lemma text_of_field:
  "text_of t e = (if has_child e t then Inr (case find_child t e of None \<Rightarrow> None | Some c \<Rightarrow> xml_text c) else Inl AttributeError)"
  by (simp add: text_of_def has_child_def split: option.splits)

lemma emit_child_field:
  "emit_child before t after e = (if has_child e t then Inr (before @ field t e @ after) else Inl AttributeError)"
  by (simp add: emit_child_def text_of_field field_def)

lemma details_to_text_eq:
  "details_to_text f d =
     (if \<forall>t \<in> set detail_fields. has_child d t then Inr (f @ detail_lines d) else Inl AttributeError)"
  by (auto simp: details_to_text_def emit_child_field detail_fields_def detail_lines_def)

lemma all_details_to_text:
  "for_each details_to_text f ds =
     (if \<forall>d \<in> set ds. \<forall>t \<in> set detail_fields. has_child d t then Inr (f @ concat (map detail_lines ds))
      else Inl AttributeError)"
  by (induction ds arbitrary: f) (auto simp: details_to_text_eq)

definition test_fields :: "xml \<Rightarrow> string option \<times> string option \<times> string option \<times> string option" where
  "test_fields e =
     ((case find_child ''Result'' e of None \<Rightarrow> None | Some c \<Rightarrow> xml_text c),
      (case find_child ''Name'' e of None \<Rightarrow> None | Some c \<Rightarrow> xml_text c),
      (case find_child ''Reason'' e of None \<Rightarrow> Some [] | Some c \<Rightarrow> xml_text c),
      (case find_child ''Time'' e of None \<Rightarrow> Some [] | Some c \<Rightarrow> dget (attributes c) ''real''))"

lemma read_test_eq:
  "read_test e = (if has_child e ''Result'' \<and> has_child e ''Name'' then Inr (test_fields e) else Inl AttributeError)"
  by (simp add: read_test_def text_of_field test_fields_def Let_def)

lemma headline_fields:
  "headline (test_fields e) # concat (map detail_lines (findall ''FailureDetails'' e)) = node_lines e"
  by (simp add: headline_def test_fields_def node_lines_def field_def time_of_def reason_of_def)

lemma node_to_text_eq:
  "node_to_text e f =
     (if \<forall>x \<in> set (tests_in e). complete x then Inr (f @ concat (map node_lines (tests_in e))) else Inl AttributeError)"
  "nodes_to_text cs f =
     (if \<forall>x \<in> set (tests_below cs). complete x then Inr (f @ concat (map node_lines (tests_below cs))) else Inl AttributeError)"
proof (induction e f and cs f rule: node_to_text_nodes_to_text.induct)
  case (1 t x a cs f)
  let ?e = "Element t x a cs"
  show ?case
  proof (cases "complete ?e")
    case True
    then have "node_to_text ?e f = nodes_to_text cs (f @ node_lines ?e)"
      by (simp add: complete_def read_test_eq all_details_to_text flip: headline_fields)
    also have "\<dots> = (if \<forall>x \<in> set (tests_below cs). complete x
        then Inr ((f @ node_lines ?e) @ concat (map node_lines (tests_below cs))) else Inl AttributeError)"
      using True 1 by (simp add: complete_def read_test_eq all_details_to_text flip: headline_fields)
    finally show ?thesis using True by simp
  next
    case False
    then have "node_to_text ?e f = Inl AttributeError"
      by (auto simp: complete_def read_test_eq all_details_to_text)
    with False show ?thesis by simp
  qed
next
  case (3 c cs f)
  then show ?case by (cases "tag c = ''Test''") auto
qed simp

lemma example_to_text_eq:
  "example_to_text f e =
     (if has_child e ''Result'' \<and> has_child e ''Name'' then Inr (f @ [example_line e]) else Inl AttributeError)"
  by (simp add: example_to_text_def text_of_field example_line_def field_def time_of_def Let_def)

text \<open>
  The text report.  \<open>translate_to_text\<close> succeeds exactly when every test node, at every
  depth, and every example has its result and its name and every failure detail its six fields; then it
  holds, for each test node in document order, its headline and its details, and a line per example.
\<close>

theorem text_report:
  "translate_to_text et =
     (if (\<forall>x \<in> set (tests_below (subs et)). complete x)
         \<and> (\<forall>x \<in> set (findall ''Example'' et). has_child x ''Result'' \<and> has_child x ''Name'')
      then Inr (concat (map node_lines (tests_below (subs et))) @ map example_line (findall ''Example'' et))
      else Inl AttributeError)"
proof -
  have "for_each example_to_text f xs =
      (if \<forall>x \<in> set xs. has_child x ''Result'' \<and> has_child x ''Name'' then Inr (f @ map example_line xs)
       else Inl AttributeError)" for f xs
    by (induction xs arbitrary: f) (auto simp: example_to_text_eq)
  then show ?thesis by (simp add: translate_to_text_def node_to_text_eq)
qed

section \<open>Correctness of the HTML report\<close>

definition starts :: "string list \<Rightarrow> nat" where
  "starts f = length (filter (\<lambda>s. s = row_start) f)"

definition ends :: "string list \<Rightarrow> nat" where
  "ends f = length (filter (\<lambda>s. s = row_end) f)"

named_theorems row_simps

lemma starts_ends [row_simps]:
  "starts [] = 0" "starts (s # f) = (if s = row_start then 1 else 0) + starts f" "starts (f @ g) = starts f + starts g"
  "ends [] = 0" "ends (s # f) = (if s = row_end then 1 else 0) + ends f" "ends (f @ g) = ends f + ends g"
  by (simp_all add: starts_def ends_def)

lemma rows_differ [row_simps]:
  "row_start \<noteq> row_end" "row_end \<noteq> row_start" "table_end \<noteq> row_start" "table_end \<noteq> row_end"
  "coloured c s \<noteq> row_start" "coloured c s \<noteq> row_end" "cell s \<noteq> row_start" "cell s \<noteq> row_end"
  by (simp_all add: row_start_def row_end_def table_end_def coloured_def cell_def lf_def)

definition is_fail :: "xml \<Rightarrow> bool" where
  "is_fail e \<longleftrightarrow> fst (test_fields e) = Some ''FAIL''"

text \<open>The rows of a case, and those that are never closed.\<close>

definition case_rows :: "xml \<Rightarrow> nat" where
  "case_rows e = (if is_fail e then length (findall ''FailureDetails'' e) else 1)"

definition open_rows :: "xml \<Rightarrow> nat" where
  "open_rows e = (if is_fail e then length (findall ''FailureDetails'' e) else 0)"

lemma details_row_rows:
  assumes "details_row result nm time st d = Inr st'"
  shows "starts (fst st') = starts (fst st) + 1" "ends (fst st') = ends (fst st)"
  using assms
  by (auto simp: details_row_def emit_child_field rbind_Inr_iff row_simps Let_def split: prod.splits if_splits)
    (simp_all add: row_start_def row_end_def lf_def)

lemma case_to_html_rows:
  assumes "case_to_html f e = Inr f'"
  shows "starts f' = starts f + case_rows e" "starts f' + ends f = starts f + ends f' + open_rows e"
proof -
  have "starts f' = starts f + case_rows e \<and> starts f' + ends f = starts f + ends f' + open_rows e"
  proof (cases "is_fail e")
    case True
    then obtain b where loop: "for_each (details_row (fst (test_fields e)) (fst (snd (test_fields e)))
        (snd (snd (snd (test_fields e))))) (f, True) (findall ''FailureDetails'' e) = Inr (f', b)"
      using assms by (auto simp: case_to_html_def read_test_eq is_fail_def rbind_Inr_iff split: prod.splits if_splits)
    have "starts (fst (f', b)) = starts (fst (f, True)) + sum_list (map (\<lambda>d. 1) (findall ''FailureDetails'' e))"
      by (rule for_each_sum [OF loop, where m = "\<lambda>st. starts (fst st)"]) (rule details_row_rows(1))
    moreover have "ends (fst (f', b)) = ends (fst (f, True)) + sum_list (map (\<lambda>d. 0) (findall ''FailureDetails'' e))"
      by (rule for_each_sum [OF loop, where m = "\<lambda>st. ends (fst st)"]) (simp add: details_row_rows(2))
    ultimately show ?thesis using True by (simp add: case_rows_def open_rows_def sum_list_triv)
  next
    case False
    then show ?thesis using assms
      by (auto simp: case_to_html_def read_test_eq is_fail_def case_rows_def open_rows_def row_simps split: prod.splits if_splits)
  qed
  then show "starts f' = starts f + case_rows e" "starts f' + ends f = starts f + ends f' + open_rows e" by auto
qed

text \<open>Suites that crashed, were skipped or failed under valgrind have one row of their own.\<close>

definition no_cases :: "xml \<Rightarrow> bool" where
  "no_cases e \<longleftrightarrow> fst (test_fields e) \<in> set [Some ''CRASH'', Some ''SKIP'', Some ''VALGR'']"

definition suite_rows :: "xml \<Rightarrow> nat" where
  "suite_rows e = (if no_cases e then 1 else sum_list (map case_rows (findall ''Test'' e)))"

definition suite_open_rows :: "xml \<Rightarrow> nat" where
  "suite_open_rows e = (if no_cases e then 0 else sum_list (map open_rows (findall ''Test'' e)))"

lemma header_rows [row_simps]:
  "suite_header a b c d \<noteq> row_start" "suite_header a b c d \<noteq> row_end"
  by (simp_all add: suite_header_def row_start_def row_end_def lf_def)

lemma balance_loop:
  assumes "for_each g f xs = Inr (f' :: string list)"
    and "\<And>f x f'. g f x = Inr f' \<Longrightarrow> starts f' = starts f + r x"
    and "\<And>f x f'. g f x = Inr f' \<Longrightarrow> starts f' + ends f = starts f + ends f' + k x"
  shows "starts f' = starts f + sum_list (map r xs) \<and> starts f' + ends f = starts f + ends f' + sum_list (map k xs)"
  using assms(1)
proof (induction xs arbitrary: f)
  case (Cons x xs)
  then obtain f1 where f1: "g f x = Inr f1" "for_each g f1 xs = Inr f'" by (auto simp: rbind_Inr_iff)
  from Cons.IH [OF f1(2)] assms(2,3) [OF f1(1)] show ?case by simp
qed simp

lemma suite_to_html_rows:
  assumes "suite_to_html f e = Inr f'"
  shows "starts f' = starts f + suite_rows e" "starts f' + ends f = starts f + ends f' + suite_open_rows e"
proof -
  have "starts f' = starts f + suite_rows e \<and> starts f' + ends f = starts f + ends f' + suite_open_rows e"
  proof (cases "no_cases e")
    case True
    then show ?thesis using assms
      by (auto simp: suite_to_html_def read_test_eq no_cases_def suite_rows_def suite_open_rows_def row_simps Let_def
          split: prod.splits if_splits) (simp_all add: row_start_def row_end_def lf_def)
  next
    case False
    obtain result nm reason time where e: "test_fields e = (result, nm, reason, time)" by (cases "test_fields e")
    define f0 where "f0 = f @ [suite_header result nm reason time, ''<table border=\"1\">'' @ lf, ''<th> Result </th>'' @ lf]
      @ [''<th>Test Case Name</th>'' @ lf, ''<th> Time </th>'' @ lf]
      @ (if result = Some ''FAIL'' then [''<th>Failure Details</th>'' @ lf] else [])"
    have "read_test e = Inr (test_fields e)" using assms by (auto simp: suite_to_html_def read_test_eq split: if_splits)
    then have "suite_to_html f e = rbind (for_each case_to_html f0 (findall ''Test'' e)) (\<lambda>f. Inr (f @ [table_end]))"
      using False by (simp add: suite_to_html_def e no_cases_def f0_def)
    with assms obtain f1 where loop: "for_each case_to_html f0 (findall ''Test'' e) = Inr f1" "f' = f1 @ [table_end]"
      by (auto simp: rbind_Inr_iff)
    moreover have "starts f0 = starts f" "ends f0 = ends f"
      by (simp_all add: f0_def row_simps) (simp_all add: row_start_def row_end_def lf_def)
    ultimately have "starts f0 = starts f" "ends f0 = ends f" by simp_all
    moreover have "starts f1 = starts f0 + sum_list (map case_rows (findall ''Test'' e))
        \<and> starts f1 + ends f0 = starts f0 + ends f1 + sum_list (map open_rows (findall ''Test'' e))"
      by (rule balance_loop [OF loop(1)]) (erule case_to_html_rows)+
    ultimately show ?thesis using False loop(2) by (simp add: suite_rows_def suite_open_rows_def row_simps)
  qed
  then show "starts f' = starts f + suite_rows e" "starts f' + ends f = starts f + ends f' + suite_open_rows e" by auto
qed

lemma example_to_html_rows:
  assumes "example_to_html f e = Inr f'"
  shows "starts f' = starts f + 1" "starts f' + ends f = starts f + ends f' + 0"
  using assms
  by (auto simp: example_to_html_def read_test_eq row_simps split: prod.splits if_splits)
    (simp_all add: row_start_def row_end_def lf_def)

text \<open>
  The tables of the HTML report.  Whenever \<open>translate_to_html\<close> succeeds, a suite with
  cases has one row per case that did not fail and one per failure detail of a case that did, so a
  failed case without details is missing; and every row of a failed case is left open, since the
  code ends it with the end tag of a cell.
\<close>

theorem html_rows:
  assumes "translate_to_html et = Inr f"
  shows "starts f = sum_list (map suite_rows (findall ''Test'' et)) + length (findall ''Example'' et)
    \<and> starts f = ends f + sum_list (map suite_open_rows (findall ''Test'' et))"
proof -
  obtain f1 f2 where loops: "for_each suite_to_html [''<html>'' @ lf, ''<body>'' @ lf,
        ''<center><h1>ns-3 Test Results</h1></center>'' @ lf, ''<h2>Test Suites</h2>'' @ lf] (findall ''Test'' et) = Inr f1"
      "for_each example_to_html (f1 @ [''<h2>Examples</h2>'' @ lf, ''<table border=\"1\">'' @ lf,
        ''<th> Result </th>'' @ lf, ''<th>Example Name</th>'' @ lf, ''<th>Elapsed Time</th>'' @ lf,
        ''<th>Details</th>'' @ lf]) (findall ''Example'' et) = Inr f2"
      "f = f2 @ [table_end, ''</body>'' @ lf, ''</html>'' @ lf]"
    using assms by (auto simp: translate_to_html_def rbind_Inr_iff)
  note suites = balance_loop [OF loops(1), where r = suite_rows and k = suite_open_rows, OF suite_to_html_rows]
  note tables = balance_loop [OF loops(2), where r = "\<lambda>_. 1" and k = "\<lambda>_. 0",
    OF example_to_html_rows(1) example_to_html_rows(2), of "\<lambda>f e f'. e" "\<lambda>f e f'. e"]
  have plain: "starts (f1 @ [''<h2>Examples</h2>'' @ lf, ''<table border=\"1\">'' @ lf,
        ''<th> Result </th>'' @ lf, ''<th>Example Name</th>'' @ lf, ''<th>Elapsed Time</th>'' @ lf,
        ''<th>Details</th>'' @ lf]) = starts f1"
      "ends (f1 @ [''<h2>Examples</h2>'' @ lf, ''<table border=\"1\">'' @ lf,
        ''<th> Result </th>'' @ lf, ''<th>Example Name</th>'' @ lf, ''<th>Elapsed Time</th>'' @ lf,
        ''<th>Details</th>'' @ lf]) = ends f1"
      "starts [''<html>'' @ lf, ''<body>'' @ lf, ''<center><h1>ns-3 Test Results</h1></center>'' @ lf,
        ''<h2>Test Suites</h2>'' @ lf] = 0"
      "ends [''<html>'' @ lf, ''<body>'' @ lf, ''<center><h1>ns-3 Test Results</h1></center>'' @ lf,
        ''<h2>Test Suites</h2>'' @ lf] = 0"
      "starts f = starts f2" "ends f = ends f2"
    by (simp_all add: row_simps loops(3)) (simp_all add: row_start_def row_end_def lf_def)
  show ?thesis using suites tables unfolding plain by (simp add: sum_list_triv)
qed

text \<open>A results file with one failed suite whose failed case has a detail, and another failed case without one.\<close>

definition demo_results :: xml where
  "demo_results =
     (let leaf = (\<lambda>t s. Element t (Some s) [] []);
          detail = Element ''FailureDetails'' None [] (map (\<lambda>t. leaf t ''x'') detail_fields);
          failed = (\<lambda>t cs. Element t None [] ([leaf ''Result'' ''FAIL'', leaf ''Name'' ''n''] @ cs))
      in Element ''Results'' None [] [failed ''Test'' [failed ''Test'' [detail], failed ''Test'' []]])"

theorem html_rows_witness:
  "\<exists>f. translate_to_html demo_results = Inr f \<and> starts f = 1 \<and> ends f = 0"
proof -
  have "\<exists>f. translate_to_html demo_results = Inr f"
    by (simp add: translate_to_html_def demo_results_def findall_def suite_to_html_def case_to_html_def read_test_def
        text_of_def find_child_def details_row_def emit_child_def detail_fields_def Let_def)
  then obtain f where f: "translate_to_html demo_results = Inr f" by blast
  from html_rows [OF this] have "starts f = 1 \<and> ends f = 0"
    by (simp add: demo_results_def findall_def suite_rows_def suite_open_rows_def no_cases_def test_fields_def
        find_child_def case_rows_def open_rows_def is_fail_def detail_fields_def Let_def)
  with f show ?thesis by blast
qed

theorem text_report_witness:
  "\<exists>f. translate_to_text demo_results = Inr f \<and> length f = 10"
proof -
  have "\<forall>x \<in> set (tests_below (subs demo_results)). complete x" by code_simp
  moreover have "findall ''Example'' demo_results = []" by (simp add: demo_results_def findall_def Let_def)
  ultimately have "translate_to_text demo_results = Inr (concat (map node_lines (tests_below (subs demo_results))))"
    using text_report [of demo_results] by simp
  moreover have "length (concat (map node_lines (tests_below (subs demo_results)))) = 10"
    by code_simp
  ultimately show ?thesis by blast
qed

end
