(* ===== verification/TestOutput.thy ===== *)
theory TestOutput
  imports TestReport TestFormats
begin

text \<open>
  What \<open>test.py\<close> does before and behind the tests: \<open>read_waf_config\<close>, which executes lines of the
  files that waf left, the directory of the results, the reports, the notes and the removal of the
  directory.  What Python evaluates or executes is an argument.
\<close>

section \<open>The configuration of waf\<close>

definition interesting_config_items :: "string list" where
  "interesting_config_items =
     [''NS3_ENABLED_MODULES'', ''NS3_ENABLED_CONTRIBUTED_MODULES'', ''NS3_MODULE_PATH'', ''NSC_ENABLED'', ''ENABLE_REAL_TIME'',
      ''ENABLE_THREADING'', ''ENABLE_EXAMPLES'', ''ENABLE_TESTS'', ''EXAMPLE_DIRECTORIES'', ''ENABLE_PYTHON_BINDINGS'',
      ''NSCLICK'', ''ENABLE_BRITE'', ''ENABLE_OPENFLOW'', ''APPNAME'', ''BUILD_PROFILE'', ''VERSION'', ''PYTHON'', ''VALGRIND_FOUND'']"

text \<open>Files are lists of lines with their ends; \<open>ev\<close> is \<open>eval\<close> and \<open>ex\<close> is \<open>exec\<close> on the globals.\<close>

type_synonym files = "string \<Rightarrow> string list option"

record lock_dirs =
  top_dir :: "string option"
  out_dir :: "string option"

definition dir_value :: "(string \<Rightarrow> py_error + string) \<Rightarrow> string \<Rightarrow> py_error + string" where
  "dir_value ev line = (case split_on (CHR ''='') line of [key, val] \<Rightarrow> ev (strip val) | _ \<Rightarrow> Inl ValueError)"

definition lock_line :: "(string \<Rightarrow> py_error + string) \<Rightarrow> lock_dirs \<Rightarrow> string \<Rightarrow> py_error + lock_dirs" where
  "lock_line ev dirs line =
     rbind (if startswith line ''top_dir ='' then rbind (dir_value ev line) (\<lambda>d. Inr (dirs\<lparr>top_dir := Some d\<rparr>)) else Inr dirs)
       (\<lambda>dirs. if startswith line ''out_dir ='' then rbind (dir_value ev line) (\<lambda>d. Inr (dirs\<lparr>out_dir := Some d\<rparr>)) else Inr dirs)"

definition exec_line :: "(string \<Rightarrow> 's \<Rightarrow> py_error + 's) \<Rightarrow> 's \<Rightarrow> string \<Rightarrow> py_error + 's" where
  "exec_line ex st line =
     for_each (\<lambda>st item. if startswith line item then ex line st else Inr st) st interesting_config_items"

definition lock_file :: "files \<Rightarrow> string \<Rightarrow> string list option" where
  "lock_file fs platform =
     (case fs (''.lock-waf_'' @ platform @ ''_build'') of Some ls \<Rightarrow> Some ls | None \<Rightarrow> fs ''.lock-waf_linux2_build'')"

definition read_waf_config ::
    "string \<Rightarrow> (string \<Rightarrow> py_error + string) \<Rightarrow> (string \<Rightarrow> 's \<Rightarrow> py_error + 's) \<Rightarrow> files \<Rightarrow> 's
      \<Rightarrow> py_error + (string \<times> string \<times> 's)" where
  "read_waf_config platform ev ex fs st =
     (case lock_file fs platform of
        None \<Rightarrow> Inl (SystemExit 2)
      | Some ls \<Rightarrow>
          rbind (for_each (lock_line ev) \<lparr>top_dir = None, out_dir = None\<rparr> ls) (\<lambda>dirs.
            case (top_dir dirs, out_dir dirs) of
              (Some t, Some d) \<Rightarrow>
                (case fs (d @ ''/c4che/_cache.py'') of
                   None \<Rightarrow> Inl FileNotFoundError
                 | Some cache \<Rightarrow> rbind (for_each (exec_line ex) st cache) (\<lambda>st. Inr (t, d, st)))
            | _ \<Rightarrow> Inl UnboundLocalError))"

section \<open>The directory of the results\<close>

text \<open>The directories that are there, as a list; \<open>rmtree\<close> takes what is below with it.\<close>

definition make_directory :: "string \<Rightarrow> string list \<Rightarrow> string list" where
  "make_directory d dirs = (if d \<in> set dirs then dirs else dirs @ [d])"

definition output_dir :: "string \<Rightarrow> string" where
  "output_dir date_and_time = path_join TMP_OUTPUT_DIR date_and_time"

definition prepare_output :: "string \<Rightarrow> string list \<Rightarrow> string list" where
  "prepare_output date_and_time dirs = make_directory (output_dir date_and_time) (make_directory TMP_OUTPUT_DIR dirs)"

definition rmtree :: "string \<Rightarrow> string list \<Rightarrow> string list" where
  "rmtree d dirs = filter (\<lambda>p. p \<noteq> d \<and> \<not> startswith p (d @ ''/'')) dirs"

definition remove_output :: "test_options \<Rightarrow> string \<Rightarrow> string list \<Rightarrow> string list" where
  "remove_output opts date_and_time dirs = (if o_retain opts then dirs else rmtree (output_dir date_and_time) dirs)"

section \<open>The end of the run\<close>

text \<open>
  The files that are written; \<open>et\<close> is the tree of the results file and \<open>results\<close> its lines.  An exception in
  the first report keeps the others from being written.
\<close>

definition write_reports :: "test_options \<Rightarrow> xml \<Rightarrow> string list \<Rightarrow> py_error + (string \<times> string list) list" where
  "write_reports opts et results =
     rbind (if length (o_html opts) > 0 then rbind (translate_to_html et) (\<lambda>f. Inr [(o_html opts @ ''.html'', f)]) else Inr []) (\<lambda>h.
     rbind (if length (o_text opts) > 0 then rbind (translate_to_text et) (\<lambda>f. Inr [(o_text opts @ ''.txt'', f)]) else Inr []) (\<lambda>t.
       Inr (h @ t @ (if length (o_xml opts) > 0 then [(o_xml opts @ ''.xml'', results)] else []))))"

definition disabled_note :: "string \<Rightarrow> string \<Rightarrow> string list" where
  "disabled_note what option =
     [''***  Note: ns-3 '' @ what @ '' are currently disabled. Enable them by adding'',
      ''***  \"'' @ option @ ''\" to ./waf configure or modifying your .ns3rc file.'', []]"

definition closing_notes :: "bool \<Rightarrow> bool \<Rightarrow> bool \<Rightarrow> test_options \<Rightarrow> string list" where
  "closing_notes enable_tests enable_examples valgrind_found opts =
     (if \<not> enable_tests \<or> \<not> enable_examples then
        [[]] @ (if \<not> enable_tests then disabled_note ''tests'' ''--enable-tests'' else [])
        @ (if \<not> enable_examples then disabled_note ''examples'' ''--enable-examples'' else [])
      else [])
     @ (if o_valgrind opts \<and> \<not> valgrind_found then
          [[], ''***  Note: you are trying to use valgrind, but valgrind could not be found'',
           ''***  on your machine.  All tests and examples will crash or be skipped.'', []]
        else [])"

text \<open>The second half of \<open>run_tests\<close> behind the last job: status, printed lines, files and directories.\<close>

definition finish_tests ::
    "bool \<Rightarrow> bool \<Rightarrow> bool \<Rightarrow> test_options \<Rightarrow> (string list \<Rightarrow> xml) \<Rightarrow> (string \<Rightarrow> string option) \<Rightarrow> nat \<Rightarrow> string \<Rightarrow> string list
      \<Rightarrow> job list \<Rightarrow> py_error + (int \<times> string list \<times> (string \<times> string list) list \<times> string list)" where
  "finish_tests enable_tests enable_examples valgrind_found opts parse_xml tmp_files total_tests date_and_time dirs collected_jobs =
     rbind (report_tests opts tmp_files total_tests collected_jobs) (\<lambda>(status, printed, results).
     rbind (write_reports opts (parse_xml results) results) (\<lambda>written.
       Inr (status,
         printed @ (if length (o_html opts) + length (o_text opts) + length (o_xml opts) > 0 then [[]] else [])
           @ closing_notes enable_tests enable_examples valgrind_found opts,
         written, remove_output opts date_and_time dirs)))"

section \<open>Correctness\<close>

text \<open>No item begins with another, so a line is executed at most once.\<close>

lemma items_apart:
  "list_all (\<lambda>a. list_all (\<lambda>b. a = b \<or> \<not> startswith b a) interesting_config_items) interesting_config_items
   \<and> distinct interesting_config_items"
  by code_simp

definition interesting :: "string \<Rightarrow> bool" where
  "interesting line = list_ex (startswith line) interesting_config_items"

lemma prefix_of_prefix: "startswith s a \<Longrightarrow> startswith s b \<Longrightarrow> length a \<le> length b \<Longrightarrow> startswith b a"
  unfolding startswith_def by (metis min.absorb1 take_take)

lemma exec_line_once: "exec_line ex st line = (if interesting line then ex line st else Inr st)"
proof (cases "interesting line")
  case True
  then obtain item where item: "item \<in> set interesting_config_items" "startswith line item"
    by (auto simp: interesting_def list_ex_iff)
  then obtain us vs where split: "interesting_config_items = us @ item # vs" by (metis split_list)
  have other: "\<not> startswith line b" if "b \<in> set us \<union> set vs" for b
  proof
    assume b: "startswith line b"
    have "b \<noteq> item" using items_apart that unfolding split by auto
    moreover have "startswith b item \<or> startswith item b"
      using prefix_of_prefix [OF item(2) b] prefix_of_prefix [OF b item(2)] by linarith
    ultimately show False using items_apart that item(1) unfolding split by (auto simp: list_all_iff)
  qed
  have quiet: "for_each (\<lambda>st item. if startswith line item then ex line st else Inr st) s bs = Inr s"
    if "\<forall>b\<in>set bs. \<not> startswith line b" for bs s
    using that by (induction bs) auto
  have "for_each (\<lambda>st item. if startswith line item then ex line st else Inr st) s vs = Inr s" for s
    using other by (intro quiet) blast
  moreover have "rbind (ex line st) (\<lambda>s. Inr s) = ex line st" by (cases "ex line st") simp_all
  ultimately show ?thesis using True quiet [of us st] other item(2)
    by (simp add: exec_line_def split for_each_append)
next
  case False
  have "for_each (\<lambda>st item. if startswith line item then ex line st else Inr st) s bs = Inr s"
    if "\<forall>b\<in>set bs. \<not> startswith line b" for bs s
    using that by (induction bs) auto
  then show ?thesis using False by (simp add: exec_line_def interesting_def list_ex_iff)
qed

lemma lock_line_other:
  "\<not> startswith l ''top_dir ='' \<Longrightarrow> \<not> startswith l ''out_dir ='' \<Longrightarrow> lock_line ev dirs l = Inr dirs"
  by (simp add: lock_line_def)

lemma lock_lines_other:
  "\<forall>l\<in>set ls. \<not> startswith l ''top_dir ='' \<and> \<not> startswith l ''out_dir ='' \<Longrightarrow> for_each (lock_line ev) dirs ls = Inr dirs"
  by (induction ls) (simp_all add: lock_line_other)

lemma dir_value_plain: "CHR ''='' \<notin> set val \<Longrightarrow> CHR ''='' \<notin> set key \<Longrightarrow> dir_value ev (key @ CHR ''='' # val) = ev (strip val)"
  by (simp add: dir_value_def split_on_append split_on_none)

lemma exec_lines:
  assumes "\<forall>l\<in>set cache. interesting l \<longrightarrow> (\<forall>s. ex l s = Inr (f l s))"
  shows "for_each (exec_line ex) st cache = Inr (foldl (\<lambda>st l. f l st) st (filter interesting cache))"
  using assms by (induction cache arbitrary: st) (simp_all add: exec_line_once)

text \<open>
  From a lock file with one line for each directory, and no equals sign in them, the
  two directories are read, and of the cache the lines that begin with an item are executed, each
  once and in their order, and no other.
\<close>

theorem waf_config_read:
  assumes "lock_file fs platform = Some (us @ (''top_dir ='' @ t) # vs @ (''out_dir ='' @ d) # ws)"
    and "\<forall>l\<in>set us \<union> set vs \<union> set ws. \<not> startswith l ''top_dir ='' \<and> \<not> startswith l ''out_dir =''"
    and "CHR ''='' \<notin> set t \<union> set d" "ev (strip t) = Inr base" "ev (strip d) = Inr out"
    and "fs (out @ ''/c4che/_cache.py'') = Some cache"
    and "\<forall>l\<in>set cache. interesting l \<longrightarrow> (\<forall>s. ex l s = Inr (f l s))"
  shows "read_waf_config platform ev ex fs st = Inr (base, out, foldl (\<lambda>st l. f l st) st (filter interesting cache))"
proof -
  have "dir_value ev (''top_dir '' @ CHR ''='' # t) = Inr base" "dir_value ev (''out_dir '' @ CHR ''='' # d) = Inr out"
    using dir_value_plain [of t "''top_dir ''" ev] dir_value_plain [of d "''out_dir ''" ev] assms(3-5) by simp_all
  moreover define lt where "lt = ''top_dir ='' @ t"
  moreover define ld where "ld = ''out_dir ='' @ d"
  ultimately have line: "lock_line ev dirs lt = Inr (dirs\<lparr>top_dir := Some base\<rparr>)" "lock_line ev dirs ld = Inr (dirs\<lparr>out_dir := Some out\<rparr>)" for dirs
    by (simp_all add: lock_line_def startswith_def)
  have "for_each (lock_line ev) \<lparr>top_dir = None, out_dir = None\<rparr> (us @ lt # vs @ ld # ws) = Inr \<lparr>top_dir = Some base, out_dir = Some out\<rparr>"
    using assms(2) by (simp add: for_each_append lock_lines_other line)
  then show ?thesis using assms(1,6) exec_lines [OF assms(7)] unfolding lt_def ld_def by (simp add: read_waf_config_def)
qed

text \<open>A directory whose name has an equals sign cannot be unpacked into a key and a value.\<close>

lemma equals_in_directory: "lock_line ev dirs ''top_dir = /home/a=b'' = Inl ValueError"
  by (simp add: lock_line_def dir_value_def startswith_def)

text \<open>
  Only the directory of this run is removed, and only if it is not to be retained; two runs in the
  same second share it, and the first that ends takes it from the other.
\<close>

lemma output_dir_removed:
  assumes "output_dir date \<notin> set dirs" "\<forall>p\<in>set dirs. \<not> startswith p (output_dir date @ ''/'')"
    "output_dir date \<noteq> TMP_OUTPUT_DIR" "\<not> startswith TMP_OUTPUT_DIR (output_dir date @ ''/'')"
  shows "remove_output opts date (prepare_output date dirs) =
    (if o_retain opts then make_directory TMP_OUTPUT_DIR dirs @ [output_dir date] else make_directory TMP_OUTPUT_DIR dirs)"
proof -
  have new: "output_dir date \<notin> set (make_directory TMP_OUTPUT_DIR dirs)" using assms(1,3) by (auto simp: make_directory_def)
  have "\<forall>p\<in>set (make_directory TMP_OUTPUT_DIR dirs). \<not> startswith p (output_dir date @ ''/'')"
    using assms(2,4) by (auto simp: make_directory_def)
  with new have "rmtree (output_dir date) (make_directory TMP_OUTPUT_DIR dirs) = make_directory TMP_OUTPUT_DIR dirs"
    unfolding rmtree_def by (intro filter_True ballI) metis
  moreover have "rmtree (output_dir date) [output_dir date] = []" by (simp add: rmtree_def)
  moreover have "rmtree (output_dir date) (xs @ ys) = rmtree (output_dir date) xs @ rmtree (output_dir date) ys" for xs ys
    by (simp add: rmtree_def)
  ultimately show ?thesis using new by (simp add: remove_output_def prepare_output_def make_directory_def [of "output_dir date"])
qed

lemma same_second:
  "\<not> o_retain opts \<Longrightarrow>
    output_dir date \<notin> set (remove_output opts date (prepare_output date (prepare_output date dirs)))"
  by (simp add: remove_output_def rmtree_def)

text \<open>When a report cannot be written, the status is lost and the directory stays.\<close>

lemma finish_keeps_status:
  "finish_tests et ee vf opts parse_xml tmp_files n date dirs js = Inr (status, lines, written, dirs') \<Longrightarrow>
    \<exists>printed results. report_tests opts tmp_files n js = Inr (status, printed, results)
      \<and> write_reports opts (parse_xml results) results = Inr written \<and> dirs' = remove_output opts date dirs"
  by (auto simp: finish_tests_def rbind_Inr_iff)

definition small_tree :: files where
  "small_tree = [''.lock-waf_linux_build'' \<mapsto> [''top_dir = /ns3'', ''out_dir = /ns3/build''],
     ''/ns3/build/c4che/_cache.py'' \<mapsto> [''CC = gcc'', ''APPNAME = ns'', ''VERSION = 3'']]"

theorem waf_config_read_witness:
  "read_waf_config ''linux'' Inr (\<lambda>l st. Inr (st @ [l])) small_tree [] = Inr (''/ns3'', ''/ns3/build'', [''APPNAME = ns'', ''VERSION = 3''])"
proof -
  have "lock_file small_tree ''linux'' = Some ([] @ (''top_dir ='' @ '' /ns3'') # [] @ (''out_dir ='' @ '' /ns3/build'') # [])"
    by (simp add: lock_file_def small_tree_def)
  moreover have "strip '' /ns3'' = ''/ns3''" "strip '' /ns3/build'' = ''/ns3/build''" by code_simp+
  moreover have "small_tree (''/ns3/build'' @ ''/c4che/_cache.py'') = Some [''CC = gcc'', ''APPNAME = ns'', ''VERSION = 3'']"
    by (simp add: small_tree_def)
  moreover have "filter interesting [''CC = gcc'', ''APPNAME = ns'', ''VERSION = 3''] = [''APPNAME = ns'', ''VERSION = 3'']"
    by code_simp
  ultimately show ?thesis
    using waf_config_read [of small_tree "''linux''" "[]" "'' /ns3''" "[]" "'' /ns3/build''" "[]" Inr "''/ns3''" "''/ns3/build''"
        "[''CC = gcc'', ''APPNAME = ns'', ''VERSION = 3'']" "\<lambda>l st. Inr (st @ [l])" "\<lambda>l st. st @ [l]" "[]"] by simp
qed

end
