(* ===== verification/GridTimeline.thy ===== *)
theory GridTimeline
  imports PyDict PyNum
begin

text \<open>
  The data model of the timeline viewer, \<open>utils/grid.py\<close> lines 11 to 434: the data ranges and the
  events of a time line with their binary searches and windows, the time lines with their objects
  that are found by name and made on first use, the bounds and the values.

  The script names \<open>python3\<close> in its first line, but \<open>list.sort(cmp)\<close>, \<open>dict.has_key\<close> and the
  \<open>gtk\<close> module exist in Python 2 only.  The version that runs it is therefore an argument: under
  \<open>Py3\<close> these calls raise.  The times of the data are integers, the bounds of a window are what the
  window shows, floating point numbers, and so rationals; Python compares the two exactly.

  An object that the code returns to be changed later is its index in the list that holds it: the
  lists only grow at their end, so an index names the same object for the whole run.
\<close>

section \<open>Data ranges and events\<close>

record data_range =
  range_start :: int
  range_end :: int
  range_value :: string

definition new_data_range :: data_range where
  "new_data_range = \<lparr>range_start = 0, range_end = 0, range_value = ''''\<rparr>"

text \<open>\<open>EventString\<close>, \<open>EventFloat\<close> and \<open>EventInt\<close> differ in the value only.\<close>

record 'v timed_event =
  event_at :: int
  event_value :: 'v

type_synonym event_string = "string timed_event"
type_synonym event_float = "rat timed_event"
type_synonym event_number = "int timed_event"

definition new_event_string :: event_string where
  "new_event_string = \<lparr>event_at = 0, event_value = ''''\<rparr>"

definition new_event_float :: event_float where
  "new_event_float = \<lparr>event_at = 0, event_value = 0\<rparr>"

definition new_event_number :: event_number where
  "new_event_number = \<lparr>event_at = 0, event_value = 0\<rparr>"

text \<open>The comparison functions, and \<open>sort\<close> with one of them: the stable sort of Python 2.\<close>

definition ranges_cmp :: "data_range \<Rightarrow> data_range \<Rightarrow> int" where
  "ranges_cmp a b =
     (let diff = range_start a - range_start b in if diff < 0 then - 1 else if diff > 0 then 1 else 0)"

definition events_cmp :: "'v timed_event \<Rightarrow> 'v timed_event \<Rightarrow> int" where
  "events_cmp a b =
     (let diff = event_at a - event_at b in if diff < 0 then - 1 else if diff > 0 then 1 else 0)"

fun insert_cmp :: "('a \<Rightarrow> 'a \<Rightarrow> int) \<Rightarrow> 'a \<Rightarrow> 'a list \<Rightarrow> 'a list" where
  "insert_cmp cmp x [] = [x]"
| "insert_cmp cmp x (y # ys) = (if cmp x y \<le> 0 then x # y # ys else y # insert_cmp cmp x ys)"

definition list_sort :: "python \<Rightarrow> ('a \<Rightarrow> 'a \<Rightarrow> int) \<Rightarrow> 'a list \<Rightarrow> py_error + 'a list" where
  "list_sort v cmp xs = (if v = Py3 then Inl TypeError else Inr (foldr (insert_cmp cmp) xs []))"

lemma insert_cmp_insort:
  "(\<And>a b. cmp a b \<le> 0 \<longleftrightarrow> (key a :: int) \<le> key b) \<Longrightarrow> insert_cmp cmp x xs = insort_key key x xs"
  by (induction xs) auto

lemma ranges_cmp_le: "ranges_cmp a b \<le> 0 \<longleftrightarrow> range_start a \<le> range_start b"
  by (simp add: ranges_cmp_def Let_def)

lemma events_cmp_le: "events_cmp a b \<le> 0 \<longleftrightarrow> event_at a \<le> event_at b"
  by (simp add: events_cmp_def Let_def)

lemma list_sort_key:
  assumes "\<And>a b. cmp a b \<le> 0 \<longleftrightarrow> (key a :: int) \<le> key b"
  shows "list_sort Py2 cmp xs = Inr (sort_key key xs)"
proof -
  have "insert_cmp cmp = insort_key key" by (intro ext) (rule insert_cmp_insort [OF assms])
  then show ?thesis by (simp add: list_sort_def sort_key_def)
qed

lemmas sort_ranges_key = list_sort_key [of ranges_cmp range_start, OF ranges_cmp_le]
lemmas sort_events_key = list_sort_key [of events_cmp event_at, OF events_cmp_le]

lemma list_sort_Py3 [simp]: "list_sort Py3 cmp xs = Inl TypeError"
  by (simp add: list_sort_def)

section \<open>TimelineDataRange\<close>

record timeline_data_range =
  range_name :: string
  ranges :: "data_range list"

definition new_timeline_data_range :: "string \<Rightarrow> timeline_data_range" where
  "new_timeline_data_range nm = \<lparr>range_name = nm, ranges = []\<rparr>"

text \<open>
  \<open>__search\<close>: the loop keeps \<open>0 \<le> l\<close> and \<open>u < length\<close>, so the index is always valid.
\<close>

function search_ranges :: "data_range list \<Rightarrow> rat \<Rightarrow> int \<Rightarrow> int \<Rightarrow> int" where
  "search_ranges rs key l u =
     (if l \<le> u
      then let i = (l + u) div 2; r = rs ! nat i
           in if of_int (range_start r) \<le> key \<and> key \<le> of_int (range_end r) then i
              else if key < of_int (range_start r) then search_ranges rs key l (i - 1)
              else search_ranges rs key (i + 1) u
      else - 1)"
  by auto
termination by (relation "measure (\<lambda>(rs, key, l, u). nat (u + 1 - l))") auto

declare search_ranges.simps [simp del]

definition search_range :: "timeline_data_range \<Rightarrow> rat \<Rightarrow> int" where
  "search_range t key = search_ranges (ranges t) key 0 (int (length (ranges t)) - 1)"

definition add_range :: "data_range \<Rightarrow> timeline_data_range \<Rightarrow> timeline_data_range" where
  "add_range r t = t\<lparr>ranges := ranges t @ [r]\<rparr>"

definition get_ranges :: "timeline_data_range \<Rightarrow> rat \<Rightarrow> rat \<Rightarrow> data_range list" where
  "get_ranges t a b =
     (let s = search_range t a; e = search_range t b
      in if s = - 1 \<and> e = - 1 then []
         else if s = - 1 then py_slice (ranges t) 0 (e + 1)
         else if e = - 1 then py_slice (ranges t) s (int (length (ranges t)))
         else py_slice (ranges t) s (e + 1))"

definition get_ranges_bounds :: "timeline_data_range \<Rightarrow> rat \<Rightarrow> rat \<Rightarrow> int \<times> int" where
  "get_ranges_bounds t a b =
     (let s = search_range t a; e = search_range t b
      in if s = - 1 \<and> e = - 1 then (0, 0)
         else if s = - 1 then (0, e + 1)
         else if e = - 1 then (s, int (length (ranges t)))
         else (s, e + 1))"

definition sort_ranges :: "python \<Rightarrow> timeline_data_range \<Rightarrow> py_error + timeline_data_range" where
  "sort_ranges v t = rbind (list_sort v ranges_cmp (ranges t)) (\<lambda>rs. Inr (t\<lparr>ranges := rs\<rparr>))"

definition range_bounds :: "timeline_data_range \<Rightarrow> int \<times> int" where
  "range_bounds t =
     (if ranges t = [] then (0, 0) else (range_start (hd (ranges t)), range_end (last (ranges t))))"

section \<open>TimelineEvent\<close>

record 'v timeline_event =
  events_name :: string
  events :: "'v timed_event list"

definition new_timeline_event :: "string \<Rightarrow> 'v timeline_event" where
  "new_timeline_event nm = \<lparr>events_name = nm, events = []\<rparr>"

function search_events :: "'v timed_event list \<Rightarrow> rat \<Rightarrow> int \<Rightarrow> int \<Rightarrow> int" where
  "search_events es key l u =
     (if l \<le> u
      then let i = (l + u) div 2; x = of_int (event_at (es ! nat i))
           in if key = x then i
              else if key < x then search_events es key l (i - 1)
              else search_events es key (i + 1) u
      else l)"
  by auto
termination by (relation "measure (\<lambda>(es, key, l, u). nat (u + 1 - l))") auto

declare search_events.simps [simp del]

definition search_event :: "'v timeline_event \<Rightarrow> rat \<Rightarrow> int" where
  "search_event t key = search_events (events t) key 0 (int (length (events t)) - 1)"

definition add_event :: "'v timed_event \<Rightarrow> 'v timeline_event \<Rightarrow> 'v timeline_event" where
  "add_event e t = t\<lparr>events := events t @ [e]\<rparr>"

definition get_events :: "'v timeline_event \<Rightarrow> rat \<Rightarrow> rat \<Rightarrow> 'v timed_event list" where
  "get_events t a b = py_slice (events t) (search_event t a) (search_event t b + 1)"

definition get_events_bounds :: "'v timeline_event \<Rightarrow> rat \<Rightarrow> rat \<Rightarrow> int \<times> int" where
  "get_events_bounds t a b = (search_event t a, search_event t b + 1)"

definition sort_events :: "python \<Rightarrow> 'v timeline_event \<Rightarrow> py_error + 'v timeline_event" where
  "sort_events v t = rbind (list_sort v events_cmp (events t)) (\<lambda>es. Inr (t\<lparr>events := es\<rparr>))"

definition event_bounds :: "'v timeline_event \<Rightarrow> int \<times> int" where
  "event_bounds t =
     (if events t = [] then (0, 0) else (event_at (hd (events t)), event_at (last (events t))))"

section \<open>Timeline and Timelines\<close>

record timeline =
  timeline_name :: string
  timeline_ranges :: "timeline_data_range list"
  event_str :: "string timeline_event list"
  event_int :: "int timeline_event list"

type_synonym timelines = "timeline list"

definition new_timeline :: "string \<Rightarrow> timeline" where
  "new_timeline nm = \<lparr>timeline_name = nm, timeline_ranges = [], event_str = [], event_int = []\<rparr>"

text \<open>
  The loop of \<open>get_range\<close>, \<open>get_event_str\<close>, \<open>get_event_int\<close> and \<open>Timelines.get\<close>: the first
  object with the name, or a new one at the end.
\<close>

fun find_name :: "('a \<Rightarrow> string) \<Rightarrow> string \<Rightarrow> 'a list \<Rightarrow> nat option" where
  "find_name name_of nm [] = None"
| "find_name name_of nm (x # xs) =
     (if name_of x = nm then Some 0 else map_option Suc (find_name name_of nm xs))"

definition get_or_add :: "('a \<Rightarrow> string) \<Rightarrow> (string \<Rightarrow> 'a) \<Rightarrow> 'a list \<Rightarrow> string \<Rightarrow> nat \<times> 'a list" where
  "get_or_add name_of new xs nm =
     (case find_name name_of nm xs of Some i \<Rightarrow> (i, xs) | None \<Rightarrow> (length xs, xs @ [new nm]))"

definition get_range :: "timeline \<Rightarrow> string \<Rightarrow> nat \<times> timeline" where
  "get_range t nm =
     (let (i, rs) = get_or_add range_name new_timeline_data_range (timeline_ranges t) nm
      in (i, t\<lparr>timeline_ranges := rs\<rparr>))"

definition get_event_str :: "timeline \<Rightarrow> string \<Rightarrow> nat \<times> timeline" where
  "get_event_str t nm =
     (let (i, es) = get_or_add events_name new_timeline_event (event_str t) nm in (i, t\<lparr>event_str := es\<rparr>))"

definition get_event_int :: "timeline \<Rightarrow> string \<Rightarrow> nat \<times> timeline" where
  "get_event_int t nm =
     (let (i, es) = get_or_add events_name new_timeline_event (event_int t) nm in (i, t\<lparr>event_int := es\<rparr>))"

definition get_timeline :: "timelines \<Rightarrow> string \<Rightarrow> nat \<times> timelines" where
  "get_timeline ts nm = get_or_add timeline_name new_timeline ts nm"

text \<open>A loop that calls a method that may raise on every object of a list.\<close>

primrec each :: "('a \<Rightarrow> 'e + 'a) \<Rightarrow> 'a list \<Rightarrow> 'e + 'a list" where
  "each f [] = Inr []"
| "each f (x # xs) = rbind (f x) (\<lambda>y. rbind (each f xs) (\<lambda>ys. Inr (y # ys)))"

definition sort_timeline :: "python \<Rightarrow> timeline \<Rightarrow> py_error + timeline" where
  "sort_timeline v t =
     rbind (each (sort_ranges v) (timeline_ranges t)) (\<lambda>rs.
     rbind (each (sort_events v) (event_int t)) (\<lambda>is.
     rbind (each (sort_events v) (event_str t)) (\<lambda>ss.
     Inr (t\<lparr>timeline_ranges := rs, event_int := is, event_str := ss\<rparr>))))"

definition sort_timelines :: "python \<Rightarrow> timelines \<Rightarrow> py_error + timelines" where
  "sort_timelines v ts = each (sort_timeline v) ts"

definition widen :: "int \<times> int \<Rightarrow> int \<times> int \<Rightarrow> int \<times> int" where
  "widen acc b = (if fst b < fst acc then fst b else fst acc, if snd b > snd acc then snd b else snd acc)"

definition timeline_bounds :: "timeline \<Rightarrow> int \<times> int" where
  "timeline_bounds t =
     foldl widen (foldl widen (foldl widen (0, 0) (map range_bounds (timeline_ranges t)))
       (map event_bounds (event_str t))) (map event_bounds (event_int t))"

definition timelines_bounds :: "timelines \<Rightarrow> int \<times> int" where
  "timelines_bounds ts = foldl widen (0, 0) (map timeline_bounds ts)"

text \<open>\<open>get_all_range_values\<close>: the keys of a dictionary, in the order in which Python 2 lists them.\<close>

definition get_all_range_values :: "(string list \<Rightarrow> string list) \<Rightarrow> timelines \<Rightarrow> string list" where
  "get_all_range_values ord ts =
     ord (dkeys (foldl (\<lambda>d v. dset d v (1 :: nat)) []
       (concat (map (\<lambda>t. concat (map (\<lambda>r. map range_value (ranges r)) (timeline_ranges t))) ts))))"


section \<open>Objects found by name\<close>

text \<open>
  What the reader of the data relies on: changing the object that \<open>get\<close> returns changes the
  object of that name and no other, where an object not made yet counts as a new one.
\<close>

definition at_name :: "('a \<Rightarrow> string) \<Rightarrow> (string \<Rightarrow> 'a) \<Rightarrow> 'a list \<Rightarrow> string \<Rightarrow> 'a" where
  "at_name name_of new xs nm = (case find_name name_of nm xs of Some i \<Rightarrow> xs ! i | None \<Rightarrow> new nm)"

definition change :: "('a \<Rightarrow> string) \<Rightarrow> (string \<Rightarrow> 'a) \<Rightarrow> string \<Rightarrow> ('a \<Rightarrow> 'a) \<Rightarrow> 'a list \<Rightarrow> 'a list" where
  "change name_of new nm f xs = (let (i, ys) = get_or_add name_of new xs nm in ys[i := f (ys ! i)])"

locale named_objects =
  fixes name_of :: "'a \<Rightarrow> string" and new :: "string \<Rightarrow> 'a"
  assumes name_new [simp]: "name_of (new nm) = nm"
begin

lemma find_name_Some:
  "find_name name_of nm xs = Some i \<Longrightarrow> i < length xs \<and> name_of (xs ! i) = nm"
  by (induction xs arbitrary: i) (auto split: if_splits)

lemma find_name_None: "find_name name_of nm xs = None \<longleftrightarrow> nm \<notin> name_of ` set xs"
  by (induction xs) auto

lemma find_name_append:
  "find_name name_of nm (xs @ ys) =
     (case find_name name_of nm xs of
        Some i \<Rightarrow> Some i | None \<Rightarrow> map_option (\<lambda>i. length xs + i) (find_name name_of nm ys))"
  by (induction xs) (cases "find_name name_of nm ys"; auto split: option.splits)+

lemma find_name_map:
  "(\<And>x. name_of (f x) = name_of x) \<Longrightarrow> find_name name_of nm (map f xs) = find_name name_of nm xs"
  by (induction xs) auto

lemma find_name_update:
  "i < length xs \<Longrightarrow> name_of y = name_of (xs ! i) \<Longrightarrow>
   find_name name_of nm (xs[i := y]) = find_name name_of nm xs"
  by (induction xs arbitrary: i) (auto split: nat.splits)

lemma get_or_add_found:
  "get_or_add name_of new xs nm = (i, ys) \<Longrightarrow>
   i < length ys \<and> find_name name_of nm ys = Some i \<and> name_of (ys ! i) = nm \<and> ys ! i = at_name name_of new xs nm"
  using find_name_Some [of nm xs]
  by (auto simp: get_or_add_def at_name_def find_name_append split: option.splits)

lemma get_or_add_again:
  "get_or_add name_of new xs nm = (i, ys) \<Longrightarrow> get_or_add name_of new ys nm = (i, ys)"
  using get_or_add_found [of xs nm i ys] by (simp add: get_or_add_def)

lemma get_or_add_others:
  "get_or_add name_of new xs nm = (i, ys) \<Longrightarrow> at_name name_of new ys nm' = at_name name_of new xs nm'"
  using find_name_Some [of nm' xs]
  by (auto simp: get_or_add_def at_name_def find_name_append nth_append split: option.splits if_splits)

lemma get_or_add_distinct:
  "get_or_add name_of new xs nm = (i, ys) \<Longrightarrow> distinct (map name_of xs) \<Longrightarrow> distinct (map name_of ys)"
  by (auto simp: get_or_add_def find_name_None split: option.splits)

lemma at_name_name [simp]: "name_of (at_name name_of new xs nm) = nm"
  by (auto simp: at_name_def dest: find_name_Some split: option.splits)

lemma at_name_Nil [simp]: "at_name name_of new [] nm = new nm"
  by (simp add: at_name_def)

lemma at_name_map:
  assumes "\<And>x. name_of (f x) = name_of x" "\<And>nm. f (new nm) = new nm"
  shows "at_name name_of new (map f xs) nm = f (at_name name_of new xs nm)"
  using find_name_Some [of nm xs] by (auto simp: at_name_def find_name_map assms split: option.splits)

lemma at_name_change:
  assumes f: "\<And>x. name_of (f x) = name_of x"
  shows "at_name name_of new (change name_of new nm f xs) nm' =
         (if nm' = nm then f (at_name name_of new xs nm) else at_name name_of new xs nm')"
proof -
  obtain i ys where ys: "get_or_add name_of new xs nm = (i, ys)" by fastforce
  note found = get_or_add_found [OF ys] and others = get_or_add_others [OF ys]
  have "find_name name_of nm'' (ys[i := f (ys ! i)]) = find_name name_of nm'' ys" for nm''
    using found by (intro find_name_update) (simp_all add: f)
  then have "at_name name_of new (ys[i := f (ys ! i)]) nm' =
      (if nm' = nm then f (ys ! i) else at_name name_of new ys nm')"
    using found find_name_Some [of nm' ys] by (auto simp: at_name_def nth_list_update split: option.splits)
  then show ?thesis using found others by (simp add: change_def ys)
qed

lemma change_all:
  assumes "\<forall>x \<in> set xs. P x" "P (new nm)" "\<And>x. P x \<Longrightarrow> P (f x)"
  shows "\<forall>x \<in> set (change name_of new nm f xs). P x"
proof -
  obtain i ys where ys: "get_or_add name_of new xs nm = (i, ys)" by fastforce
  then have all: "\<forall>x \<in> set ys. P x" using assms(1,2) by (auto simp: get_or_add_def split: option.splits)
  moreover have "i < length ys" using get_or_add_found [OF ys] by simp
  ultimately show ?thesis using assms(3) by (auto simp: change_def ys dest!: set_update_subset_insert [THEN subsetD])
qed

lemma change_distinct:
  assumes f: "\<And>x. name_of (f x) = name_of x" and "distinct (map name_of xs)"
  shows "distinct (map name_of (change name_of new nm f xs))"
proof -
  obtain i ys where ys: "get_or_add name_of new xs nm = (i, ys)" by fastforce
  then have "map name_of (ys[i := f (ys ! i)]) = map name_of ys"
    using get_or_add_found [OF ys] by (simp add: map_update f list_update_same_conv)
  then show ?thesis using get_or_add_distinct [OF ys assms(2)] by (simp add: change_def ys)
qed

end

interpretation range_objects: named_objects range_name new_timeline_data_range
  by unfold_locales (simp add: new_timeline_data_range_def)

interpretation event_objects: named_objects events_name new_timeline_event
  by unfold_locales (simp add: new_timeline_event_def)

interpretation timeline_objects: named_objects timeline_name new_timeline
  by unfold_locales (simp add: new_timeline_def)

text \<open>The objects of a file, by their names.\<close>

abbreviation timeline_of :: "timelines \<Rightarrow> string \<Rightarrow> timeline" where
  "timeline_of \<equiv> at_name timeline_name new_timeline"

abbreviation range_of :: "timeline \<Rightarrow> string \<Rightarrow> timeline_data_range" where
  "range_of t \<equiv> at_name range_name new_timeline_data_range (timeline_ranges t)"

abbreviation event_str_of :: "timeline \<Rightarrow> string \<Rightarrow> string timeline_event" where
  "event_str_of t \<equiv> at_name events_name new_timeline_event (event_str t)"

abbreviation event_int_of :: "timeline \<Rightarrow> string \<Rightarrow> int timeline_event" where
  "event_int_of t \<equiv> at_name events_name new_timeline_event (event_int t)"


section \<open>The searches and the windows\<close>

lemma filter_take_nth:
  assumes "\<And>j. j < length xs \<Longrightarrow> P (xs ! j) \<longleftrightarrow> j < n"
  shows "filter P xs = take n xs"
proof -
  have "\<forall>x \<in> set (take n xs). P x" "\<forall>x \<in> set (drop n xs). \<not> P x"
    using assms by (auto simp: in_set_conv_nth)
  then have "filter P (take n xs @ drop n xs) = take n xs"
    by (simp only: filter_append filter_True filter_False append_Nil2)
  then show ?thesis by simp
qed

lemma filter_drop_nth:
  assumes "\<And>j. j < length xs \<Longrightarrow> P (xs ! j) \<longleftrightarrow> n \<le> j"
  shows "filter P xs = drop n xs"
proof -
  have "\<forall>x \<in> set (take n xs). \<not> P x" "\<forall>x \<in> set (drop n xs). P x"
    using assms by (auto simp: in_set_conv_nth)
  then have "filter P (take n xs @ drop n xs) = drop n xs"
    by (simp only: filter_append filter_True filter_False append_Nil)
  then show ?thesis by simp
qed

text \<open>The ranges of one line as the simulation writes them: in order and not overlapping.\<close>

definition in_range :: "rat \<Rightarrow> data_range \<Rightarrow> bool" where
  "in_range key r = (of_int (range_start r) \<le> key \<and> key \<le> of_int (range_end r))"

definition ranges_ok :: "data_range list \<Rightarrow> bool" where
  "ranges_ok rs =
     ((\<forall>r \<in> set rs. range_start r \<le> range_end r) \<and> sorted_wrt (\<lambda>a b. range_end a < range_start b) rs)"

lemma ranges_ok_nth:
  assumes "ranges_ok rs" "j < length rs"
  shows "range_start (rs ! j) \<le> range_end (rs ! j)"
    and "i < j \<Longrightarrow> range_end (rs ! i) < range_start (rs ! j)"
  using assms by (auto simp: ranges_ok_def sorted_wrt_iff_nth_less)

lemma search_ranges_result:
  assumes "ranges_ok rs" "0 \<le> l" "u < int (length rs)"
    and "\<And>j. j < length rs \<Longrightarrow> in_range key (rs ! j) \<Longrightarrow> l \<le> int j \<and> int j \<le> u"
  shows "search_ranges rs key l u = - 1 \<and> (\<forall>r \<in> set rs. \<not> in_range key r)
    \<or> (\<exists>i < length rs. search_ranges rs key l u = int i \<and> in_range key (rs ! i))"
  using assms
proof (induction rs key l u rule: search_ranges.induct)
  case (1 rs key l u)
  define i where "i = (l + u) div 2"
  let ?r = "rs ! nat i"
  note step = search_ranges.simps [of rs key l u, unfolded Let_def, folded i_def in_range_def]
  consider "u < l" | "l \<le> u" "in_range key ?r"
    | "l \<le> u" "\<not> in_range key ?r" "key < of_int (range_start ?r)"
    | "l \<le> u" "\<not> in_range key ?r" "\<not> key < of_int (range_start ?r)" by linarith
  then show ?case
  proof cases
    case 1
    then have "\<forall>r \<in> set rs. \<not> in_range key r" using "1.prems"(4) by (fastforce simp: in_set_conv_nth)
    with 1 show ?thesis by (simp add: step)
  next
    case 2
    then have "0 \<le> i" "nat i < length rs" using "1.prems"(2,3) by (auto simp: i_def)
    with 2 show ?thesis by (auto simp: step intro!: exI [of _ "nat i"])
  next
    case 3
    then have i: "0 \<le> i" "nat i < length rs" "l \<le> i" "i \<le> u" using "1.prems"(2,3) by (auto simp: i_def)
    have "int j \<le> i - 1" if "j < length rs" "in_range key (rs ! j)" for j
    proof (rule ccontr)
      assume "\<not> int j \<le> i - 1"
      then have "nat i \<le> j" using i by simp
      then have "range_start ?r \<le> range_start (rs ! j)"
        using ranges_ok_nth(2) [OF "1.prems"(1) that(1), of "nat i"] ranges_ok_nth(1) [OF "1.prems"(1) i(2)]
        by (cases "nat i = j") auto
      then have "(of_int (range_start ?r) :: rat) \<le> of_int (range_start (rs ! j))" by simp
      with that(2) 3(3) show False by (simp add: in_range_def)
    qed
    then show ?thesis using 3 "1.IH"(1) [OF 3(1) i_def refl] "1.prems" i
      by (simp add: step in_range_def)
  next
    case 4
    then have i: "0 \<le> i" "nat i < length rs" "l \<le> i" "i \<le> u" using "1.prems"(2,3) by (auto simp: i_def)
    have "i + 1 \<le> int j" if "j < length rs" "in_range key (rs ! j)" for j
    proof (rule ccontr)
      assume "\<not> i + 1 \<le> int j"
      then have "j \<le> nat i" using i by simp
      then have "range_end (rs ! j) \<le> range_end ?r"
        using ranges_ok_nth(2) [OF "1.prems"(1) i(2), of j] ranges_ok_nth(1) [OF "1.prems"(1) i(2)]
        by (cases "j = nat i") auto
      then have "(of_int (range_end (rs ! j)) :: rat) \<le> of_int (range_end ?r)" by simp
      with that(2) 4(2,3) show False by (simp add: in_range_def)
    qed
    then show ?thesis using 4 "1.IH"(2) [OF 4(1) i_def refl] "1.prems" i
      by (simp add: step in_range_def)
  qed
qed


lemma search_range_result:
  assumes "ranges_ok (ranges t)"
  obtains "search_range t key = - 1" "\<forall>r \<in> set (ranges t). \<not> in_range key r"
  | i where "search_range t key = int i" "i < length (ranges t)" "in_range key (ranges t ! i)"
  using search_ranges_result [OF assms, of 0 "int (length (ranges t)) - 1" key] that
  by (auto simp: search_range_def)

text \<open>A range ends at or behind a time, or starts at or before it, by its place beside the range of the time.\<close>

lemma range_end_ge_iff:
  assumes ok: "ranges_ok rs" and i: "i < length rs" "in_range key (rs ! i)" and j: "j < length rs"
  shows "key \<le> of_int (range_end (rs ! j)) \<longleftrightarrow> i \<le> j"
proof -
  have "of_int (range_end (rs ! j)) < key" if "j < i"
    using ranges_ok_nth(2) [OF ok i(1) that] i(2) unfolding in_range_def
    by (meson of_int_less_iff order_less_le_trans)
  moreover have "key \<le> of_int (range_end (rs ! j))" if "i \<le> j"
  proof -
    have "range_end (rs ! i) \<le> range_end (rs ! j)"
      using ranges_ok_nth(2) [OF ok j, of i] ranges_ok_nth(1) [OF ok j] that by (cases "i = j") auto
    then show ?thesis using i(2) unfolding in_range_def by (meson of_int_le_iff order_trans)
  qed
  ultimately show ?thesis by (meson leD leI)
qed

lemma range_start_le_iff:
  assumes ok: "ranges_ok rs" and i: "i < length rs" "in_range key (rs ! i)" and j: "j < length rs"
  shows "of_int (range_start (rs ! j)) \<le> key \<longleftrightarrow> j \<le> i"
proof -
  have "key < of_int (range_start (rs ! j))" if "i < j"
    using ranges_ok_nth(2) [OF ok j that] i(2) unfolding in_range_def
    by (meson of_int_less_iff order_le_less_trans)
  moreover have "of_int (range_start (rs ! j)) \<le> key" if "j \<le> i"
  proof -
    have "range_start (rs ! j) \<le> range_start (rs ! i)"
      using ranges_ok_nth(2) [OF ok i(1), of j] ranges_ok_nth(1) [OF ok j] that by (cases "i = j") auto
    then show ?thesis using i(2) unfolding in_range_def by (meson of_int_le_iff order_trans)
  qed
  ultimately show ?thesis by (meson leD leI)
qed

lemma get_ranges_slices:
  assumes ok: "ranges_ok (ranges t)"
    and i: "i < length (ranges t)" "in_range a (ranges t ! i)" "search_range t a = int i"
    and j: "j < length (ranges t)" "in_range b (ranges t ! j)" "search_range t b = int j"
  shows "get_ranges t a b =
    filter (\<lambda>r. a \<le> of_int (range_end r) \<and> of_int (range_start r) \<le> b) (ranges t)"
proof -
  have "filter (\<lambda>r. of_int (range_start r) \<le> b) (ranges t) = take (Suc j) (ranges t)"
    using range_start_le_iff [OF ok j(1,2)] by (intro filter_take_nth) (simp add: less_Suc_eq_le)
  moreover have "filter (\<lambda>r. a \<le> of_int (range_end r)) (take (Suc j) (ranges t)) = drop i (take (Suc j) (ranges t))"
    using range_end_ge_iff [OF ok i(1,2)] by (intro filter_drop_nth) simp
  ultimately have "filter (\<lambda>r. a \<le> of_int (range_end r)) (filter (\<lambda>r. of_int (range_start r) \<le> b) (ranges t))
      = drop i (take (Suc j) (ranges t))" by simp
  then show ?thesis using py_slice_nat [of "ranges t" i "Suc j"] i(3) j(3)
    by (simp add: get_ranges_def add.commute conj_commute)
qed

lemma get_ranges_covered:
  assumes ok: "ranges_ok (ranges t)"
    and "\<exists>r \<in> set (ranges t). in_range a r" "\<exists>r \<in> set (ranges t). in_range b r"
  shows "get_ranges t a b =
    filter (\<lambda>r. a \<le> of_int (range_end r) \<and> of_int (range_start r) \<le> b) (ranges t)"
  by (rule search_range_result [OF ok, of a]; rule search_range_result [OF ok, of b])
    (use assms(2,3) in \<open>blast intro: get_ranges_slices [OF ok]\<close>)+

text \<open>
  Claim C29.  For a line of ranges of which none ends before it starts and each starts after the end of
  the one before it (not at it: of ranges that touch, the search finds either): \<open>get_ranges\<close> answers
  the ranges that meet the window when some range holds its start and some range holds its end.
  When none holds its start, the ranges before the window are in the answer too, when none holds its
  end, the ranges behind it, and when none holds either, the answer is empty, also where ranges
  lie inside the window.
\<close>

theorem get_ranges_window:
  assumes ok: "ranges_ok (ranges t)"
  shows "get_ranges t a b =
    (let left = \<exists>r \<in> set (ranges t). in_range a r; right = \<exists>r \<in> set (ranges t). in_range b r
     in if left \<or> right
        then filter (\<lambda>r. (left \<longrightarrow> a \<le> of_int (range_end r)) \<and> (right \<longrightarrow> of_int (range_start r) \<le> b)) (ranges t)
        else [])"
proof -
  let ?rs = "ranges t"
  consider "search_range t a = - 1" "search_range t b = - 1"
      "\<not> (\<exists>r \<in> set ?rs. in_range a r)" "\<not> (\<exists>r \<in> set ?rs. in_range b r)"
    | j where "search_range t a = - 1" "search_range t b = int j" "j < length ?rs"
      "in_range b (?rs ! j)" "\<not> (\<exists>r \<in> set ?rs. in_range a r)"
    | i where "search_range t a = int i" "search_range t b = - 1" "i < length ?rs"
      "in_range a (?rs ! i)" "\<not> (\<exists>r \<in> set ?rs. in_range b r)"
    | i j where "search_range t a = int i" "i < length ?rs" "in_range a (?rs ! i)"
      "search_range t b = int j" "j < length ?rs" "in_range b (?rs ! j)"
    by (rule search_range_result [OF ok, of a]; rule search_range_result [OF ok, of b]) auto
  then show ?thesis
  proof cases
    case 1
    then show ?thesis by (simp add: get_ranges_def)
  next
    case (2 j)
    then have "filter (\<lambda>r. of_int (range_start r) \<le> b) ?rs = take (Suc j) ?rs"
      using range_start_le_iff [OF ok 2(3,4)] by (intro filter_take_nth) (simp add: less_Suc_eq_le)
    moreover have "\<exists>r \<in> set ?rs. in_range b r" using 2(3,4) nth_mem by blast
    ultimately show ?thesis using py_slice_nat [of ?rs 0 "Suc j"] 2 by (simp add: get_ranges_def add.commute)
  next
    case (3 i)
    then have "filter (\<lambda>r. a \<le> of_int (range_end r)) ?rs = drop i ?rs"
      using range_end_ge_iff [OF ok 3(3,4)] by (intro filter_drop_nth)
    moreover have "\<exists>r \<in> set ?rs. in_range a r" using 3(3,4) nth_mem by blast
    ultimately show ?thesis using py_slice_nat [of ?rs i "length ?rs"] 3 by (simp add: get_ranges_def)
  next
    case (4 i j)
    then have "\<exists>r \<in> set ?rs. in_range a r" "\<exists>r \<in> set ?rs. in_range b r" using nth_mem by blast+
    then show ?thesis using get_ranges_slices [OF ok 4(2,3,1,5,6,4)] by simp
  qed
qed


theorem get_ranges_window_witness:
  "get_ranges \<lparr>range_name = ''rx'', ranges =
      [\<lparr>range_start = 0, range_end = 4, range_value = ''idle''\<rparr>, \<lparr>range_start = 6, range_end = 9, range_value = ''busy''\<rparr>]\<rparr>
    (1 / 2) 5 =
    [\<lparr>range_start = 0, range_end = 4, range_value = ''idle''\<rparr>, \<lparr>range_start = 6, range_end = 9, range_value = ''busy''\<rparr>]"
  by (subst get_ranges_window) (simp_all add: ranges_ok_def in_range_def)

text \<open>The events of one line after sorting, when no two have the same time.\<close>

definition events_ok :: "'v timed_event list \<Rightarrow> bool" where
  "events_ok es = sorted_wrt (<) (map event_at es)"

lemma events_ok_nth: "events_ok es \<Longrightarrow> i < j \<Longrightarrow> j < length es \<Longrightarrow> event_at (es ! i) < event_at (es ! j)"
  by (auto simp: events_ok_def sorted_wrt_iff_nth_less)

text \<open>\<open>search_events\<close> counts the events before the time.\<close>

lemma search_events_result:
  assumes "events_ok es" "0 \<le> l" "l \<le> u + 1" "u < int (length es)"
    and "\<And>j. j < length es \<Longrightarrow> int j < l \<Longrightarrow> of_int (event_at (es ! j)) < key"
    and "\<And>j. j < length es \<Longrightarrow> u < int j \<Longrightarrow> key < of_int (event_at (es ! j))"
  shows "\<exists>n \<le> length es. search_events es key l u = int n
    \<and> (\<forall>j < length es. of_int (event_at (es ! j)) < key \<longleftrightarrow> j < n)"
  using assms
proof (induction es key l u rule: search_events.induct)
  case (1 es key l u)
  define i where "i = (l + u) div 2"
  let ?x = "of_int (event_at (es ! nat i)) :: rat"
  note step = search_events.simps [of es key l u, unfolded Let_def, folded i_def]
  have mono: "(of_int (event_at (es ! j)) :: rat) < of_int (event_at (es ! k))" if "j < k" "k < length es" for j k
    using events_ok_nth [OF "1.prems"(1) that] by simp
  consider "u < l" | "l \<le> u" "key = ?x" | "l \<le> u" "key < ?x" | "l \<le> u" "?x < key" by linarith
  then show ?case
  proof cases
    case 1
    then have u: "u = l - 1" using "1.prems"(3) by simp
    have "of_int (event_at (es ! j)) < key \<longleftrightarrow> j < nat l" if "j < length es" for j
      using "1.prems"(5,6) [OF that] u by (cases "int j < l") force+
    moreover have "search_events es key l u = l" using 1 by (simp add: step)
    ultimately show ?thesis using u "1.prems"(2,4) by (intro exI [of _ "nat l"]) simp
  next
    case 2
    then have i: "0 \<le> i" "nat i < length es" using "1.prems"(2,4) by (auto simp: i_def)
    have "of_int (event_at (es ! j)) < key \<longleftrightarrow> j < nat i" if "j < length es" for j
      using mono [of j "nat i"] mono [of "nat i" j] i that 2(2) by (cases j "nat i" rule: linorder_cases) auto
    moreover have "search_events es key l u = i" using 2(1) by (subst step) (simp add: 2(2) [symmetric])
    ultimately show ?thesis using i by (intro exI [of _ "nat i"]) simp
  next
    case 3
    then have i: "0 \<le> i" "nat i < length es" "l \<le> i" using "1.prems"(2,4) by (auto simp: i_def)
    have "key < of_int (event_at (es ! j))" if "j < length es" "i - 1 < int j" for j
    proof (cases "j = nat i")
      case False
      then have "nat i < j" using that(2) i(1) by linarith
      from less_trans [OF 3(2) mono [OF this that(1)]] show ?thesis .
    qed (simp add: 3(2))
    moreover have "search_events es key l u = search_events es key l (i - 1)"
      using 3(1) less_imp_neq [OF 3(2)] 3(2) by (subst step) simp
    ultimately show ?thesis using "1.IH"(1) [OF 3(1) i_def refl] less_imp_neq [OF 3(2)] 3(2) "1.prems" i by simp
  next
    case 4
    then have i: "0 \<le> i" "nat i < length es" "i \<le> u" using "1.prems"(2,4) by (auto simp: i_def)
    have "of_int (event_at (es ! j)) < key" if "j < length es" "int j < i + 1" for j
    proof (cases "j = nat i")
      case False
      then have "j < nat i" using that(2) i(1) by linarith
      from less_trans [OF mono [OF this i(2)] 4(2)] show ?thesis .
    qed (simp add: 4(2))
    moreover have "search_events es key l u = search_events es key (i + 1) u"
      using 4(1) less_imp_neq [OF 4(2)] less_not_sym [OF 4(2)] by (subst step) simp
    ultimately show ?thesis
      using "1.IH"(2) [OF 4(1) i_def refl] less_imp_neq [OF 4(2)] less_not_sym [OF 4(2)] "1.prems" i by simp
  qed
qed

lemma search_event_result:
  assumes "events_ok (events t)"
  obtains n where "n \<le> length (events t)" "search_event t key = int n"
    "\<And>j. j < length (events t) \<Longrightarrow> of_int (event_at (events t ! j)) < key \<longleftrightarrow> j < n"
  using search_events_result [OF assms, of 0 "int (length (events t)) - 1" key] that
  by (auto simp: search_event_def)

text \<open>
  \<open>get_events\<close> on sorted events with distinct times answers the events of the half-open window and
  the first event at its end or behind it, which need not be in the window.
\<close>

theorem get_events_window:
  assumes ok: "events_ok (events t)" and "a \<le> b"
  shows "get_events t a b =
    filter (\<lambda>e. a \<le> of_int (event_at e) \<and> of_int (event_at e) < b) (events t)
    @ take 1 (filter (\<lambda>e. b \<le> of_int (event_at e)) (events t))"
proof -
  let ?es = "events t"
  obtain m where m: "m \<le> length ?es" "search_event t a = int m"
    "\<And>j. j < length ?es \<Longrightarrow> of_int (event_at (?es ! j)) < a \<longleftrightarrow> j < m"
    using search_event_result [OF ok, of a] by blast
  obtain n where n: "n \<le> length ?es" "search_event t b = int n"
    "\<And>j. j < length ?es \<Longrightarrow> of_int (event_at (?es ! j)) < b \<longleftrightarrow> j < n"
    using search_event_result [OF ok, of b] by blast
  have "m \<le> n"
  proof (rule ccontr)
    assume "\<not> m \<le> n"
    then have "of_int (event_at (?es ! n)) < a" "\<not> of_int (event_at (?es ! n)) < b" using m n by auto
    with \<open>a \<le> b\<close> show False by linarith
  qed
  have "filter (\<lambda>e. of_int (event_at e) < b) ?es = take n ?es" by (rule filter_take_nth) (rule n(3))
  moreover have "filter (\<lambda>e. a \<le> of_int (event_at e)) (take n ?es) = drop m (take n ?es)"
    using m(3) by (intro filter_drop_nth) (simp add: not_less [symmetric])
  ultimately have "filter (\<lambda>e. a \<le> of_int (event_at e)) (filter (\<lambda>e. of_int (event_at e) < b) ?es) = drop m (take n ?es)"
    by simp
  then have window: "filter (\<lambda>e. a \<le> of_int (event_at e) \<and> of_int (event_at e) < b) ?es = drop m (take n ?es)"
    by (simp add: conj_commute)
  have rest: "filter (\<lambda>e. b \<le> of_int (event_at e)) ?es = drop n ?es"
    using n(3) by (intro filter_drop_nth) (simp add: not_less [symmetric])
  have "get_events t a b = drop m (take (n + 1) ?es)"
    using py_slice_nat [of ?es m "n + 1"] by (simp add: get_events_def m(2) n(2) add.commute)
  also have "\<dots> = drop m (take n ?es) @ take 1 (drop n ?es)"
    using \<open>m \<le> n\<close> n(1) by (simp only: take_add drop_append) simp
  finally show ?thesis by (simp only: window rest)
qed

theorem get_events_window_witness:
  "get_events \<lparr>events_name = ''tx'', events =
      [\<lparr>event_at = 1, event_value = ''a''\<rparr>, \<lparr>event_at = 4, event_value = ''b''\<rparr>, \<lparr>event_at = 9, event_value = ''c''\<rparr>]\<rparr>
    2 5 = [\<lparr>event_at = 4, event_value = ''b''\<rparr>, \<lparr>event_at = 9, event_value = ''c''\<rparr>]"
  by (subst get_events_window) (simp_all add: events_ok_def)

text \<open>Events of the same time: the search stops at any of them, and the ones before it are lost.\<close>

lemma get_events_same_time:
  "get_events \<lparr>events_name = ''tx'', events =
      [\<lparr>event_at = 5, event_value = ''a''\<rparr>, \<lparr>event_at = 5, event_value = ''b''\<rparr>, \<lparr>event_at = 5, event_value = ''c''\<rparr>]\<rparr>
    5 5 = [\<lparr>event_at = 5, event_value = ''b''\<rparr>]"
  by code_simp


section \<open>Sorting and bounds\<close>

text \<open>What sorting does to every line, under Python 2, and that Python 3 refuses the first line it meets.\<close>

definition sorted_range_line :: "timeline_data_range \<Rightarrow> timeline_data_range" where
  "sorted_range_line t = t\<lparr>ranges := sort_key range_start (ranges t)\<rparr>"

definition sorted_event_line :: "'v timeline_event \<Rightarrow> 'v timeline_event" where
  "sorted_event_line t = t\<lparr>events := sort_key event_at (events t)\<rparr>"

definition sorted_timeline :: "timeline \<Rightarrow> timeline" where
  "sorted_timeline t = t\<lparr>timeline_ranges := map sorted_range_line (timeline_ranges t),
     event_int := map sorted_event_line (event_int t), event_str := map sorted_event_line (event_str t)\<rparr>"

lemma each_map: "(\<And>x. f x = Inr (g x)) \<Longrightarrow> each f xs = Inr (map g xs)"
  by (induction xs) simp_all

lemma each_raises: "(\<And>x. f x = Inl e) \<Longrightarrow> each f xs = (if xs = [] then Inr [] else Inl e)"
  by (cases xs) simp_all

lemma sort_lines_Py2:
  "sort_ranges Py2 r = Inr (sorted_range_line r)" "sort_events Py2 e = Inr (sorted_event_line e)"
  by (simp_all add: sort_ranges_def sort_events_def sort_ranges_key sort_events_key
      sorted_range_line_def sorted_event_line_def)

lemma sort_lines_Py3: "sort_ranges Py3 r = Inl TypeError" "sort_events Py3 e = Inl TypeError"
  by (simp_all add: sort_ranges_def sort_events_def)

lemma sort_timeline_Py2: "sort_timeline Py2 t = Inr (sorted_timeline t)"
  by (simp add: sort_timeline_def sorted_timeline_def each_map [OF sort_lines_Py2(1)] each_map [OF sort_lines_Py2(2)])

lemma sort_timelines_Py2: "sort_timelines Py2 ts = Inr (map sorted_timeline ts)"
  by (simp add: sort_timelines_def each_map sort_timeline_Py2)

definition no_lines :: "timeline \<Rightarrow> bool" where
  "no_lines t = (timeline_ranges t = [] \<and> event_int t = [] \<and> event_str t = [])"

lemma sort_timeline_Py3: "sort_timeline Py3 t = (if no_lines t then Inr t else Inl TypeError)"
  by (simp add: sort_timeline_def no_lines_def each_raises [OF sort_lines_Py3(1)] each_raises [OF sort_lines_Py3(2)])

lemma sort_timelines_Py3:
  "sort_timelines Py3 ts = (if \<forall>t \<in> set ts. no_lines t then Inr ts else Inl TypeError)"
  unfolding sort_timelines_def by (induction ts) (auto simp: sort_timeline_Py3)

lemma sorted_names [simp]:
  "range_name (sorted_range_line r) = range_name r" "events_name (sorted_event_line e) = events_name e"
  "timeline_name (sorted_timeline t) = timeline_name t"
  by (simp_all add: sorted_range_line_def sorted_event_line_def sorted_timeline_def)

lemma sorted_new [simp]:
  "sorted_range_line (new_timeline_data_range nm) = new_timeline_data_range nm"
  "sorted_event_line (new_timeline_event nm) = new_timeline_event nm"
  "sorted_timeline (new_timeline nm) = new_timeline nm"
  by (simp_all add: sorted_range_line_def sorted_event_line_def sorted_timeline_def new_timeline_data_range_def
      new_timeline_event_def new_timeline_def)

text \<open>The bounds of all lines, and the loop that widens.\<close>

definition line_bounds :: "timeline \<Rightarrow> (int \<times> int) list" where
  "line_bounds t = map range_bounds (timeline_ranges t) @ map event_bounds (event_str t) @ map event_bounds (event_int t)"

lemma timeline_bounds_lines: "timeline_bounds t = foldl widen (0, 0) (line_bounds t)"
  by (simp add: timeline_bounds_def line_bounds_def)

lemma widen_le: "fst (widen acc b) = min (fst acc) (fst b)" "snd (widen acc b) = max (snd acc) (snd b)"
  by (simp_all add: widen_def)

lemma foldl_widen:
  "fst (foldl widen acc bs) = foldl min (fst acc) (map fst bs)"
  "snd (foldl widen acc bs) = foldl max (snd acc) (map snd bs)"
  by (induction bs arbitrary: acc) (simp_all add: widen_le)

lemma foldl_min:
  fixes x :: int
  shows "foldl min x xs \<le> x \<and> (\<forall>y \<in> set xs. foldl min x xs \<le> y) \<and> foldl min x xs \<in> insert x (set xs)"
proof (induction xs arbitrary: x)
  case (Cons a xs)
  from Cons [of "min x a"] show ?case by (auto simp: min_def split: if_splits)
qed simp

lemma foldl_max:
  fixes x :: int
  shows "x \<le> foldl max x xs \<and> (\<forall>y \<in> set xs. y \<le> foldl max x xs) \<and> foldl max x xs \<in> insert x (set xs)"
proof (induction xs arbitrary: x)
  case (Cons a xs)
  from Cons [of "max x a"] show ?case by (auto simp: max_def split: if_splits)
qed simp

lemma widen_covers:
  assumes "foldl widen (0, 0) bs = (lo, hi)"
  shows "lo \<le> 0" "0 \<le> hi" "b \<in> set bs \<Longrightarrow> lo \<le> fst b" "b \<in> set bs \<Longrightarrow> snd b \<le> hi"
    and "lo = 0 \<or> (\<exists>b \<in> set bs. lo = fst b)" "hi = 0 \<or> (\<exists>b \<in> set bs. hi = snd b)"
  using foldl_min [of 0 "map fst bs"] foldl_max [of 0 "map snd bs"] foldl_widen [of "(0, 0)" bs] assms
  by auto

lemma sorted_hd_le: "sorted (map f xs) \<Longrightarrow> x \<in> set xs \<Longrightarrow> f (hd xs) \<le> (f x :: int)"
  by (cases xs) auto

lemma sorted_le_last: "sorted (map f xs) \<Longrightarrow> x \<in> set xs \<Longrightarrow> f x \<le> (f (last xs) :: int)"
  by (induction xs) auto

lemma event_bounds_cover:
  assumes "sorted (map event_at (events t))" "e \<in> set (events t)"
  shows "fst (event_bounds t) \<le> event_at e" "event_at e \<le> snd (event_bounds t)"
proof -
  have "events t \<noteq> []" using assms(2) by auto
  then show "fst (event_bounds t) \<le> event_at e" "event_at e \<le> snd (event_bounds t)"
    using sorted_hd_le [OF assms] sorted_le_last [OF assms] by (simp_all add: event_bounds_def)
qed

lemma range_bounds_cover:
  assumes "sorted (map range_start (ranges t))" "r \<in> set (ranges t)"
  shows "fst (range_bounds t) \<le> range_start r"
    and "ranges_ok (ranges t) \<Longrightarrow> range_end r \<le> snd (range_bounds t)"
proof -
  have ne: "ranges t \<noteq> []" using assms(2) by auto
  then show "fst (range_bounds t) \<le> range_start r"
    using sorted_hd_le [OF assms] by (simp add: range_bounds_def)
  assume ok: "ranges_ok (ranges t)"
  have "range_end (ranges t ! i) \<le> range_end (ranges t ! j)" if "i < j" "j < length (ranges t)" for i j
    using ranges_ok_nth(1) [OF ok that(2)] ranges_ok_nth(2) [OF ok that(2,1)] by linarith
  then have "sorted (map range_end (ranges t))"
    by (simp add: sorted_wrt_iff_nth_less)
  from sorted_le_last [OF this assms(2)] show "range_end r \<le> snd (range_bounds t)"
    using ne by (simp add: range_bounds_def)
qed


lemma timelines_bounds_cover:
  assumes "timelines_bounds ts = (lo, hi)" "t \<in> set ts" "b \<in> set (line_bounds t)"
  shows "lo \<le> fst b \<and> snd b \<le> hi"
proof -
  obtain l h where lh: "timeline_bounds t = (l, h)" by fastforce
  then have "l \<le> fst b" "snd b \<le> h"
    using widen_covers(3,4) [of "line_bounds t" l h b] assms(3) by (simp_all add: timeline_bounds_lines)
  moreover have "lo \<le> l" "h \<le> hi"
    using widen_covers(3,4) [of "map timeline_bounds ts" lo hi "(l, h)"] assms(1,2) lh
    by (force simp: timelines_bounds_def)+
  ultimately show ?thesis by simp
qed

lemma timelines_bounds_attained:
  assumes "timelines_bounds ts = (lo, hi)"
  shows "lo \<le> 0" "0 \<le> hi"
    and "lo = 0 \<or> (\<exists>t \<in> set ts. \<exists>b \<in> set (line_bounds t). lo = fst b)"
    and "hi = 0 \<or> (\<exists>t \<in> set ts. \<exists>b \<in> set (line_bounds t). hi = snd b)"
proof -
  have w: "foldl widen (0, 0) (map timeline_bounds ts) = (lo, hi)" using assms by (simp add: timelines_bounds_def)
  show "lo \<le> 0" "0 \<le> hi" using widen_covers(1,2) [OF w] .
  have lines: "fst (timeline_bounds t) = 0 \<or> (\<exists>b \<in> set (line_bounds t). fst (timeline_bounds t) = fst b)"
    "snd (timeline_bounds t) = 0 \<or> (\<exists>b \<in> set (line_bounds t). snd (timeline_bounds t) = snd b)" for t
    using widen_covers(5,6) [of "line_bounds t" "fst (timeline_bounds t)" "snd (timeline_bounds t)"]
    by (simp_all add: timeline_bounds_lines)
  have "lo = 0 \<or> (\<exists>t \<in> set ts. lo = fst (timeline_bounds t))" using widen_covers(5) [OF w] by auto
  then show "lo = 0 \<or> (\<exists>t \<in> set ts. \<exists>b \<in> set (line_bounds t). lo = fst b)" using lines(1) by metis
  have "hi = 0 \<or> (\<exists>t \<in> set ts. hi = snd (timeline_bounds t))" using widen_covers(6) [OF w] by auto
  then show "hi = 0 \<or> (\<exists>t \<in> set ts. \<exists>b \<in> set (line_bounds t). hi = snd b)" using lines(2) by metis
qed

text \<open>The bounds hold every range start and event of sorted lines, and every range end of ordered ones.\<close>

lemma timelines_bounds_hold:
  assumes "timelines_bounds (map sorted_timeline ts) = (lo, hi)" "t \<in> set (map sorted_timeline ts)"
  shows "r \<in> set (timeline_ranges t) \<Longrightarrow> x \<in> set (ranges r) \<Longrightarrow> lo \<le> range_start x"
    and "r \<in> set (timeline_ranges t) \<Longrightarrow> x \<in> set (ranges r) \<Longrightarrow> ranges_ok (ranges r) \<Longrightarrow> range_end x \<le> hi"
    and "e \<in> set (event_str t) \<Longrightarrow> y \<in> set (events e) \<Longrightarrow> lo \<le> event_at y \<and> event_at y \<le> hi"
    and "f \<in> set (event_int t) \<Longrightarrow> z \<in> set (events f) \<Longrightarrow> lo \<le> event_at z \<and> event_at z \<le> hi"
proof -
  note cover = timelines_bounds_cover [OF assms]
  have sorted: "r \<in> set (timeline_ranges t) \<Longrightarrow> sorted (map range_start (ranges r))"
    "e \<in> set (event_str t) \<Longrightarrow> sorted (map event_at (events e))"
    "f \<in> set (event_int t) \<Longrightarrow> sorted (map event_at (events f))" for r e f
    using assms(2) by (auto simp: sorted_timeline_def sorted_range_line_def sorted_event_line_def)
  have bounds: "r \<in> set (timeline_ranges t) \<Longrightarrow> range_bounds r \<in> set (line_bounds t)"
    "e \<in> set (event_str t) \<Longrightarrow> event_bounds e \<in> set (line_bounds t)"
    "f \<in> set (event_int t) \<Longrightarrow> event_bounds f \<in> set (line_bounds t)" for r e f
    by (simp_all add: line_bounds_def)
  show "r \<in> set (timeline_ranges t) \<Longrightarrow> x \<in> set (ranges r) \<Longrightarrow> lo \<le> range_start x"
    using range_bounds_cover(1) [OF sorted(1)] cover [OF bounds(1)] by (meson order_trans)
  show "r \<in> set (timeline_ranges t) \<Longrightarrow> x \<in> set (ranges r) \<Longrightarrow> ranges_ok (ranges r) \<Longrightarrow> range_end x \<le> hi"
    using range_bounds_cover(2) [OF sorted(1)] cover [OF bounds(1)] by (meson order_trans)
  show "e \<in> set (event_str t) \<Longrightarrow> y \<in> set (events e) \<Longrightarrow> lo \<le> event_at y \<and> event_at y \<le> hi"
    using event_bounds_cover [OF sorted(2)] cover [OF bounds(2)] by (meson order_trans)
  show "f \<in> set (event_int t) \<Longrightarrow> z \<in> set (events f) \<Longrightarrow> lo \<le> event_at z \<and> event_at z \<le> hi"
    using event_bounds_cover [OF sorted(3)] cover [OF bounds(3)] by (meson order_trans)
qed

end
