(* ===== verification/GridData.thy ===== *)
theory GridData
  imports GridTimeline
begin

text \<open>
  The reader of the timeline viewer, \<open>read_data\<close> of \<open>utils/grid.py\<close>, with its four regular
  expressions, and the colours with which the values of the ranges are drawn.
\<close>

section \<open>Colours\<close>

record color =
  red :: rat
  green :: rat
  blue :: rat

definition new_color :: "rat \<Rightarrow> rat \<Rightarrow> rat \<Rightarrow> color" where
  "new_color r g b = \<lparr>red = r, green = g, blue = b\<rparr>"

definition set_color :: "rat \<Rightarrow> rat \<Rightarrow> rat \<Rightarrow> color \<Rightarrow> color" where
  "set_color r g b c = c\<lparr>red := r, green := g, blue := b\<rparr>"

text \<open>\<open>Colors\<close>: the colours by name, and the default colours, one list for the whole class.\<close>

record colors =
  by_name :: "(string, color) dict"
  default_colors :: "color list"

definition new_colors :: colors where
  "new_colors = \<lparr>by_name = [], default_colors =
     [new_color 1 0 0, new_color 0 1 0, new_color 0 0 1, new_color 1 1 0, new_color 1 0 1, new_color 0 1 1]\<rparr>"

definition add_color :: "string \<Rightarrow> color \<Rightarrow> colors \<Rightarrow> colors" where
  "add_color nm c cs = cs\<lparr>by_name := dset (by_name cs) nm c\<rparr>"

text \<open>\<open>lookup\<close>: a name without a colour takes the last of the default colours; \<open>pop\<close> raises when none is left.\<close>

definition lookup_color :: "python \<Rightarrow> colors \<Rightarrow> string \<Rightarrow> py_error + (colors \<times> color)" where
  "lookup_color v cs nm =
     (if v = Py3 then Inl AttributeError
      else case dget (by_name cs) nm of
        Some c \<Rightarrow> Inr (cs, c)
      | None \<Rightarrow>
          if default_colors cs = [] then Inl IndexError
          else let c = last (default_colors cs)
               in Inr (add_color nm c (cs\<lparr>default_colors := butlast (default_colors cs)\<rparr>), c))"

text \<open>The loop of \<open>main\<close> that collects the colours of the legend.\<close>

definition legend_step :: "python \<Rightarrow> colors \<times> color list \<Rightarrow> string \<Rightarrow> py_error + (colors \<times> color list)" where
  "legend_step v s nm =
     rbind (lookup_color v (fst s) nm) (\<lambda>(cs, c). Inr (cs, snd s @ [c]))"

definition legend_colors :: "python \<Rightarrow> colors \<Rightarrow> string list \<Rightarrow> py_error + (colors \<times> color list)" where
  "legend_colors v cs vals = for_each (legend_step v) (cs, []) vals"

section \<open>The lines of a file\<close>

text \<open>
  The regular expressions match at the start of the line and need not reach its end.
  \<open>([^ ]+)\<close> takes all up to the next blank, \<open>([0-9]+)\<close> all digits.
\<close>

definition literal :: "string \<Rightarrow> string \<Rightarrow> string option" where
  "literal p s = (if startswith s p then Some (drop (length p) s) else None)"

definition word_group :: "string \<Rightarrow> (string \<times> string) option" where
  "word_group s =
     (let w = takeWhile (\<lambda>c. c \<noteq> CHR '' '') s in if w = [] then None else Some (w, drop (length w) s))"

definition digits_group :: "string \<Rightarrow> (int \<times> string) option" where
  "digits_group s =
     (let d = takeWhile is_digit s in if d = [] then None else Some (int (read_nat d), drop (length d) s))"

definition hex_value :: "char \<Rightarrow> nat option" where
  "hex_value c =
     (let n = of_char c
      in if 48 \<le> n \<and> n \<le> 57 then Some (n - 48)
         else if 97 \<le> n \<and> n \<le> 102 then Some (n - 87)
         else if 65 \<le> n \<and> n \<le> 70 then Some (n - 55)
         else None)"

definition hex_group :: "string \<Rightarrow> (int \<times> string) option" where
  "hex_group s =
     (case s of
        a # b # rest \<Rightarrow>
          Option.bind (hex_value a) (\<lambda>m. Option.bind (hex_value b) (\<lambda>n. Some (int (16 * m + n), rest)))
      | _ \<Rightarrow> None)"

definition range_match :: "string \<Rightarrow> (string \<times> string \<times> string \<times> int \<times> int) option" where
  "range_match line =
     Option.bind (literal ''range '' line) (\<lambda>s.
     Option.bind (word_group s) (\<lambda>(g1, s). Option.bind (literal '' '' s) (\<lambda>s.
     Option.bind (word_group s) (\<lambda>(g2, s). Option.bind (literal '' '' s) (\<lambda>s.
     Option.bind (word_group s) (\<lambda>(g3, s). Option.bind (literal '' '' s) (\<lambda>s.
     Option.bind (digits_group s) (\<lambda>(g4, s). Option.bind (literal '' '' s) (\<lambda>s.
     Option.bind (digits_group s) (\<lambda>(g5, s). Some (g1, g2, g3, g4, g5)))))))))))"

definition event_str_match :: "string \<Rightarrow> (string \<times> string \<times> string \<times> int) option" where
  "event_str_match line =
     Option.bind (literal ''event-str '' line) (\<lambda>s.
     Option.bind (word_group s) (\<lambda>(g1, s). Option.bind (literal '' '' s) (\<lambda>s.
     Option.bind (word_group s) (\<lambda>(g2, s). Option.bind (literal '' '' s) (\<lambda>s.
     Option.bind (word_group s) (\<lambda>(g3, s). Option.bind (literal '' '' s) (\<lambda>s.
     Option.bind (digits_group s) (\<lambda>(g4, s). Some (g1, g2, g3, g4)))))))))"

definition event_int_match :: "string \<Rightarrow> (string \<times> string \<times> int \<times> int) option" where
  "event_int_match line =
     Option.bind (literal ''event-int '' line) (\<lambda>s.
     Option.bind (word_group s) (\<lambda>(g1, s). Option.bind (literal '' '' s) (\<lambda>s.
     Option.bind (word_group s) (\<lambda>(g2, s). Option.bind (literal '' '' s) (\<lambda>s.
     Option.bind (digits_group s) (\<lambda>(g3, s). Option.bind (literal '' '' s) (\<lambda>s.
     Option.bind (digits_group s) (\<lambda>(g4, s). Some (g1, g2, g3, g4)))))))))"

definition color_match :: "string \<Rightarrow> (string \<times> int \<times> int \<times> int) option" where
  "color_match line =
     Option.bind (literal ''color '' line) (\<lambda>s.
     Option.bind (word_group s) (\<lambda>(g1, s). Option.bind (literal '' #'' s) (\<lambda>s.
     Option.bind (hex_group s) (\<lambda>(g2, s). Option.bind (hex_group s) (\<lambda>(g3, s).
     Option.bind (hex_group s) (\<lambda>(g4, s). Some (g1, g2, g3, g4)))))))"

text \<open>A division of integers: Python 2 rounds down, Python 3 answers a floating point number.\<close>

definition py_div :: "python \<Rightarrow> int \<Rightarrow> int \<Rightarrow> rat" where
  "py_div v a b = (if v = Py2 then of_int (a div b) else of_int a / of_int b)"

definition read_line :: "python \<Rightarrow> timelines \<times> colors \<Rightarrow> string \<Rightarrow> timelines \<times> colors" where
  "read_line v state line =
     (let (ts, cs) = state
      in case range_match line of
        Some (g1, g2, g3, g4, g5) \<Rightarrow>
          (let (i, ts) = get_timeline ts g1;
               (j, t) = get_range (ts ! i) g2;
               r = new_data_range\<lparr>range_value := g3, range_start := g4, range_end := g5\<rparr>;
               t = t\<lparr>timeline_ranges := (timeline_ranges t)[j := add_range r (timeline_ranges t ! j)]\<rparr>
           in (ts[i := t], cs))
      | None \<Rightarrow>
      case event_str_match line of
        Some (g1, g2, g3, g4) \<Rightarrow>
          (let (i, ts) = get_timeline ts g1;
               (j, t) = get_event_str (ts ! i) g2;
               e = new_event_string\<lparr>event_value := g3, event_at := g4\<rparr>;
               t = t\<lparr>event_str := (event_str t)[j := add_event e (event_str t ! j)]\<rparr>
           in (ts[i := t], cs))
      | None \<Rightarrow>
      case event_int_match line of
        Some (g1, g2, g3, g4) \<Rightarrow>
          (let (i, ts) = get_timeline ts g1;
               (j, t) = get_event_int (ts ! i) g2;
               e = new_event_number\<lparr>event_value := g3, event_at := g4\<rparr>;
               t = t\<lparr>event_int := (event_int t)[j := add_event e (event_int t ! j)]\<rparr>
           in (ts[i := t], cs))
      | None \<Rightarrow>
      case color_match line of
        Some (g1, g2, g3, g4) \<Rightarrow>
          (ts, add_color g1 (new_color (py_div v g2 255) (py_div v g3 255) (py_div v g4 255)) cs)
      | None \<Rightarrow> (ts, cs))"

definition read_data :: "python \<Rightarrow> string list \<Rightarrow> py_error + (colors \<times> timelines)" where
  "read_data v lines =
     (let (ts, cs) = foldl (read_line v) ([], new_colors) lines
      in rbind (sort_timelines v ts) (\<lambda>ts. Inr (cs, ts)))"


section \<open>What the reader collects\<close>

text \<open>A line adds its datum to the line of its name, and to no other.\<close>

abbreviation change_timeline :: "string \<Rightarrow> (timeline \<Rightarrow> timeline) \<Rightarrow> timelines \<Rightarrow> timelines" where
  "change_timeline \<equiv> change timeline_name new_timeline"

definition put_range :: "string \<Rightarrow> data_range \<Rightarrow> timeline \<Rightarrow> timeline" where
  "put_range nm r t =
     t\<lparr>timeline_ranges := change range_name new_timeline_data_range nm (add_range r) (timeline_ranges t)\<rparr>"

definition put_event_str :: "string \<Rightarrow> event_string \<Rightarrow> timeline \<Rightarrow> timeline" where
  "put_event_str nm e t = t\<lparr>event_str := change events_name new_timeline_event nm (add_event e) (event_str t)\<rparr>"

definition put_event_int :: "string \<Rightarrow> event_number \<Rightarrow> timeline \<Rightarrow> timeline" where
  "put_event_int nm e t = t\<lparr>event_int := change events_name new_timeline_event nm (add_event e) (event_int t)\<rparr>"

datatype datum =
  RangeDatum string string data_range
| StringDatum string string event_string
| NumberDatum string string event_number
| ColorDatum string int int int
| NoDatum

definition datum_of :: "string \<Rightarrow> datum" where
  "datum_of line =
     (case range_match line of
        Some (g1, g2, g3, g4, g5) \<Rightarrow> RangeDatum g1 g2 \<lparr>range_start = g4, range_end = g5, range_value = g3\<rparr>
      | None \<Rightarrow>
      case event_str_match line of
        Some (g1, g2, g3, g4) \<Rightarrow> StringDatum g1 g2 \<lparr>event_at = g4, event_value = g3\<rparr>
      | None \<Rightarrow>
      case event_int_match line of
        Some (g1, g2, g3, g4) \<Rightarrow> NumberDatum g1 g2 \<lparr>event_at = g4, event_value = g3\<rparr>
      | None \<Rightarrow>
      case color_match line of
        Some (g1, g2, g3, g4) \<Rightarrow> ColorDatum g1 g2 g3 g4
      | None \<Rightarrow> NoDatum)"

fun put :: "python \<Rightarrow> timelines \<times> colors \<Rightarrow> datum \<Rightarrow> timelines \<times> colors" where
  "put v (ts, cs) (RangeDatum n1 n2 r) = (change_timeline n1 (put_range n2 r) ts, cs)"
| "put v (ts, cs) (StringDatum n1 n2 e) = (change_timeline n1 (put_event_str n2 e) ts, cs)"
| "put v (ts, cs) (NumberDatum n1 n2 e) = (change_timeline n1 (put_event_int n2 e) ts, cs)"
| "put v (ts, cs) (ColorDatum nm r g b) =
     (ts, add_color nm (new_color (py_div v r 255) (py_div v g 255) (py_div v b 255)) cs)"
| "put v (ts, cs) NoDatum = (ts, cs)"

lemma read_line_put: "read_line v s line = put v s (datum_of line)"
  by (cases s)
    (simp add: read_line_def datum_of_def change_def put_range_def put_event_str_def put_event_int_def Let_def
      get_timeline_def get_range_def get_event_str_def get_event_int_def new_data_range_def
      new_event_string_def new_event_number_def split: option.splits prod.splits)

lemma put_names [simp]:
  "timeline_name (put_range nm r t) = timeline_name t"
  "timeline_name (put_event_str nm e t) = timeline_name t"
  "timeline_name (put_event_int nm f t) = timeline_name t"
  "range_name (add_range r x) = range_name x" "events_name (add_event e' y) = events_name y"
  by (simp_all add: put_range_def put_event_str_def put_event_int_def add_range_def add_event_def)

text \<open>The lines of a file, seen by name.\<close>

definition ranges_in :: "timelines \<Rightarrow> string \<Rightarrow> string \<Rightarrow> data_range list" where
  "ranges_in ts n1 n2 = ranges (range_of (timeline_of ts n1) n2)"

definition strings_in :: "timelines \<Rightarrow> string \<Rightarrow> string \<Rightarrow> event_string list" where
  "strings_in ts n1 n2 = events (event_str_of (timeline_of ts n1) n2)"

definition numbers_in :: "timelines \<Rightarrow> string \<Rightarrow> string \<Rightarrow> event_number list" where
  "numbers_in ts n1 n2 = events (event_int_of (timeline_of ts n1) n2)"

lemma put_range_view:
  "range_of (put_range nm r t) nm' =
     (if nm' = nm then add_range r (range_of t nm) else range_of t nm')"
  "event_str_of (put_range nm r t) = event_str_of t" "event_int_of (put_range nm r t) = event_int_of t"
  by (simp_all add: put_range_def range_objects.at_name_change)

lemma put_event_str_view:
  "event_str_of (put_event_str nm e t) nm' =
     (if nm' = nm then add_event e (event_str_of t nm) else event_str_of t nm')"
  "range_of (put_event_str nm e t) = range_of t" "event_int_of (put_event_str nm e t) = event_int_of t"
  by (simp_all add: put_event_str_def event_objects.at_name_change)

lemma put_event_int_view:
  "event_int_of (put_event_int nm e t) nm' =
     (if nm' = nm then add_event e (event_int_of t nm) else event_int_of t nm')"
  "range_of (put_event_int nm e t) = range_of t" "event_str_of (put_event_int nm e t) = event_str_of t"
  by (simp_all add: put_event_int_def event_objects.at_name_change)

lemmas put_views = put_range_view put_event_str_view put_event_int_view

fun range_datum :: "string \<Rightarrow> string \<Rightarrow> datum \<Rightarrow> data_range option" where
  "range_datum n1 n2 (RangeDatum m1 m2 r) = (if m1 = n1 \<and> m2 = n2 then Some r else None)"
| "range_datum n1 n2 d = None"

fun string_datum :: "string \<Rightarrow> string \<Rightarrow> datum \<Rightarrow> event_string option" where
  "string_datum n1 n2 (StringDatum m1 m2 e) = (if m1 = n1 \<and> m2 = n2 then Some e else None)"
| "string_datum n1 n2 d = None"

fun number_datum :: "string \<Rightarrow> string \<Rightarrow> datum \<Rightarrow> event_number option" where
  "number_datum n1 n2 (NumberDatum m1 m2 e) = (if m1 = n1 \<and> m2 = n2 then Some e else None)"
| "number_datum n1 n2 d = None"

fun color_datum :: "python \<Rightarrow> string \<Rightarrow> datum \<Rightarrow> color option" where
  "color_datum v nm (ColorDatum m r g b) =
     (if m = nm then Some (new_color (py_div v r 255) (py_div v g 255) (py_div v b 255)) else None)"
| "color_datum v nm d = None"

lemma put_in:
  assumes "put v (ts, cs) d = (ts', cs')"
  shows "ranges_in ts' n1 n2 = ranges_in ts n1 n2 @ (case range_datum n1 n2 d of None \<Rightarrow> [] | Some r \<Rightarrow> [r])"
    and "strings_in ts' n1 n2 = strings_in ts n1 n2 @ (case string_datum n1 n2 d of None \<Rightarrow> [] | Some e \<Rightarrow> [e])"
    and "numbers_in ts' n1 n2 = numbers_in ts n1 n2 @ (case number_datum n1 n2 d of None \<Rightarrow> [] | Some e \<Rightarrow> [e])"
    and "dget (by_name cs') nm = (case color_datum v nm d of None \<Rightarrow> dget (by_name cs) nm | Some c \<Rightarrow> Some c)"
    and "default_colors cs' = default_colors cs"
  using assms
  by (cases d; auto simp: ranges_in_def strings_in_def numbers_in_def timeline_objects.at_name_change put_views
      add_range_def add_event_def add_color_def)+


lemma ranges_in_Nil [simp]: "ranges_in [] n1 n2 = []" "strings_in [] n1 n2 = []" "numbers_in [] n1 n2 = []"
  by (simp_all add: ranges_in_def strings_in_def numbers_in_def new_timeline_def
      new_timeline_data_range_def new_timeline_event_def)

lemma read_lines_in:
  assumes "foldl (read_line v) ([], cs0) lines = (ts, cs)"
  shows "ranges_in ts n1 n2 = List.map_filter (range_datum n1 n2) (map datum_of lines)"
    and "strings_in ts n1 n2 = List.map_filter (string_datum n1 n2) (map datum_of lines)"
    and "numbers_in ts n1 n2 = List.map_filter (number_datum n1 n2) (map datum_of lines)"
    and "dget (by_name cs) nm =
      (case rev (List.map_filter (color_datum v nm) (map datum_of lines)) of [] \<Rightarrow> dget (by_name cs0) nm | c # rest \<Rightarrow> Some c)"
    and "default_colors cs = default_colors cs0"
proof -
  have "ranges_in ts n1 n2 = List.map_filter (range_datum n1 n2) (map datum_of lines)
    \<and> strings_in ts n1 n2 = List.map_filter (string_datum n1 n2) (map datum_of lines)
    \<and> numbers_in ts n1 n2 = List.map_filter (number_datum n1 n2) (map datum_of lines)
    \<and> dget (by_name cs) nm =
      (case rev (List.map_filter (color_datum v nm) (map datum_of lines)) of [] \<Rightarrow> dget (by_name cs0) nm | c # rest \<Rightarrow> Some c)
    \<and> default_colors cs = default_colors cs0"
    using assms
  proof (induction lines arbitrary: ts cs rule: rev_induct)
    case Nil
    then show ?case by (simp add: List.map_filter_simps)
  next
    case (snoc line lines)
    obtain ts' cs' where s: "foldl (read_line v) ([], cs0) lines = (ts', cs')" by fastforce
    with snoc.prems have "put v (ts', cs') (datum_of line) = (ts, cs)"
      by (simp del: foldl_append add: foldl_append [of "read_line v"] read_line_put [of v "(ts', cs')"])
    from put_in [OF this] snoc.IH [OF s] show ?case
      by (auto simp: map_filter_snoc split: option.splits list.splits)
  qed
  then show "ranges_in ts n1 n2 = List.map_filter (range_datum n1 n2) (map datum_of lines)"
    "strings_in ts n1 n2 = List.map_filter (string_datum n1 n2) (map datum_of lines)"
    "numbers_in ts n1 n2 = List.map_filter (number_datum n1 n2) (map datum_of lines)"
    "dget (by_name cs) nm =
      (case rev (List.map_filter (color_datum v nm) (map datum_of lines)) of [] \<Rightarrow> dget (by_name cs0) nm | c # rest \<Rightarrow> Some c)"
    "default_colors cs = default_colors cs0" by blast+
qed

lemma sorted_timelines_in:
  "ranges_in (map sorted_timeline ts) n1 n2 = sort_key range_start (ranges_in ts n1 n2)"
  "strings_in (map sorted_timeline ts) n1 n2 = sort_key event_at (strings_in ts n1 n2)"
  "numbers_in (map sorted_timeline ts) n1 n2 = sort_key event_at (numbers_in ts n1 n2)"
proof -
  have lines: "range_of (sorted_timeline t) nm = sorted_range_line (range_of t nm)"
    "event_str_of (sorted_timeline t) nm = sorted_event_line (event_str_of t nm)"
    "event_int_of (sorted_timeline t) nm = sorted_event_line (event_int_of t nm)" for t nm
    by (simp_all add: sorted_timeline_def range_objects.at_name_map event_objects.at_name_map)
  show "ranges_in (map sorted_timeline ts) n1 n2 = sort_key range_start (ranges_in ts n1 n2)"
    "strings_in (map sorted_timeline ts) n1 n2 = sort_key event_at (strings_in ts n1 n2)"
    "numbers_in (map sorted_timeline ts) n1 n2 = sort_key event_at (numbers_in ts n1 n2)"
    by (simp_all add: ranges_in_def strings_in_def numbers_in_def timeline_objects.at_name_map lines)
      (simp_all add: sorted_range_line_def sorted_event_line_def)
qed

lemma read_data_Py2:
  "\<exists>cs ts. read_data Py2 lines = Inr (cs, ts)
    \<and> (\<forall>n1 n2.
        ranges_in ts n1 n2 = sort_key range_start (List.map_filter (range_datum n1 n2) (map datum_of lines))
      \<and> strings_in ts n1 n2 = sort_key event_at (List.map_filter (string_datum n1 n2) (map datum_of lines))
      \<and> numbers_in ts n1 n2 = sort_key event_at (List.map_filter (number_datum n1 n2) (map datum_of lines)))
    \<and> (\<forall>nm. dget (by_name cs) nm =
        (case rev (List.map_filter (color_datum Py2 nm) (map datum_of lines)) of [] \<Rightarrow> None | c # rest \<Rightarrow> Some c))"
proof -
  obtain ts cs where s: "foldl (read_line Py2) ([], new_colors) lines = (ts, cs)" by fastforce
  have "dget (by_name cs) nm =
      (case rev (List.map_filter (color_datum Py2 nm) (map datum_of lines)) of [] \<Rightarrow> None | c # rest \<Rightarrow> Some c)" for nm
    using read_lines_in(4) [OF s, of nm] by (simp add: new_colors_def split: list.splits)
  then show ?thesis
    by (intro exI [of _ cs] exI [of _ "map sorted_timeline ts"])
      (simp add: read_data_def s sort_timelines_Py2 sorted_timelines_in read_lines_in(1-3) [OF s])
qed

text \<open>
  Claim C27.  Under Python 2 the reader returns for every file: each line of ranges or events holds exactly the
  data of its two names, by time and in the order of the file where times are equal, and a colour
  is the last one that the file gives for the name.
\<close>

theorem read_data_collects:
  "\<exists>cs ts. read_data Py2 lines = Inr (cs, ts)
    \<and> (\<forall>n1 n2.
        ranges_in ts n1 n2 = sort_key range_start (List.map_filter (range_datum n1 n2) (map datum_of lines))
      \<and> strings_in ts n1 n2 = sort_key event_at (List.map_filter (string_datum n1 n2) (map datum_of lines))
      \<and> numbers_in ts n1 n2 = sort_key event_at (List.map_filter (number_datum n1 n2) (map datum_of lines)))
    \<and> (\<forall>nm. dget (by_name cs) nm =
        (case rev (List.map_filter (color_datum Py2 nm) (map datum_of lines)) of [] \<Rightarrow> None | c # rest \<Rightarrow> Some c))"
  by (rule read_data_Py2)

text \<open>The lines that hold no range and no event.\<close>

definition no_time :: "datum \<Rightarrow> bool" where
  "no_time d = (case d of NoDatum \<Rightarrow> True | ColorDatum nm r g b \<Rightarrow> True | _ \<Rightarrow> False)"

lemma timeline_of_lines: "\<not> no_lines (timeline_of ts nm) \<Longrightarrow> \<exists>t \<in> set ts. \<not> no_lines t"
  using timeline_objects.find_name_Some [of nm ts]
  by (auto simp: at_name_def no_lines_def new_timeline_def split: option.splits)

lemma in_lines:
  assumes "ranges_in ts n1 n2 \<noteq> [] \<or> strings_in ts n1 n2 \<noteq> [] \<or> numbers_in ts n1 n2 \<noteq> []"
  shows "\<exists>t \<in> set ts. \<not> no_lines t"
  using assms
  by (intro timeline_of_lines [of ts n1])
    (auto simp: ranges_in_def strings_in_def numbers_in_def no_lines_def new_timeline_data_range_def new_timeline_event_def)

lemma no_time_lines:
  assumes "\<forall>line \<in> set lines. no_time (datum_of line)"
  shows "fst (foldl (read_line v) (ts, cs) lines) = ts"
  using assms
proof (induction lines arbitrary: cs)
  case (Cons line lines)
  then obtain cs' where "read_line v (ts, cs) line = (ts, cs')"
    by (cases "datum_of line") (auto simp: read_line_put no_time_def)
  then show ?case using Cons by simp
qed simp

lemma map_filter_member: "x \<in> set xs \<Longrightarrow> f x = Some y \<Longrightarrow> List.map_filter f xs \<noteq> []"
  by (induction xs) (auto simp: List.map_filter_simps split: option.splits)

lemma time_lines:
  assumes "foldl (read_line v) ([], cs0) lines = (ts, cs)" "line \<in> set lines" "\<not> no_time (datum_of line)"
  shows "\<exists>t \<in> set ts. \<not> no_lines t"
proof -
  note views = read_lines_in(1-3) [OF assms(1)]
  have member: "datum_of line \<in> set (map datum_of lines)" using assms(2) by simp
  show ?thesis
  proof (cases "datum_of line")
    case (RangeDatum n1 n2 r)
    with map_filter_member [OF member, of "range_datum n1 n2" r] views(1) [of n1 n2]
    show ?thesis by (intro in_lines [of ts n1 n2]) simp
  next
    case (StringDatum n1 n2 e)
    with map_filter_member [OF member, of "string_datum n1 n2" e] views(2) [of n1 n2]
    show ?thesis by (intro in_lines [of ts n1 n2]) simp
  next
    case (NumberDatum n1 n2 e)
    with map_filter_member [OF member, of "number_datum n1 n2" e] views(3) [of n1 n2]
    show ?thesis by (intro in_lines [of ts n1 n2]) simp
  qed (use assms(3) in \<open>simp_all add: no_time_def\<close>)
qed

text \<open>
  Under Python 3 the reader raises as soon as the file has one range or event: the
  comparison function is no argument of \<open>list.sort\<close> any more.
\<close>

theorem read_data_python3:
  "read_data Py3 lines =
    (if list_all no_time (map datum_of lines)
     then Inr (snd (foldl (read_line Py3) ([], new_colors) lines), [])
     else Inl TypeError)"
proof -
  obtain ts cs where s: "foldl (read_line Py3) ([], new_colors) lines = (ts, cs)" by fastforce
  show ?thesis
  proof (cases "list_all no_time (map datum_of lines)")
    case True
    with no_time_lines [of lines Py3 "[]" new_colors] s have "ts = []" by (simp add: list_all_iff)
    with True show ?thesis by (simp add: read_data_def s sort_timelines_Py3)
  next
    case False
    then obtain line where "line \<in> set lines" "\<not> no_time (datum_of line)" by (auto simp: list_all_iff)
    from time_lines [OF s this] have "\<not> (\<forall>t \<in> set ts. no_lines t)" by blast
    with False show ?thesis by (simp add: read_data_def s sort_timelines_Py3)
  qed
qed


section \<open>Lines written and read\<close>

definition hex_char :: "nat \<Rightarrow> char" where
  "hex_char n = char_of (if n < 10 then 48 + n else 87 + n)"

definition show_hex :: "int \<Rightarrow> string" where
  "show_hex n = [hex_char (nat n div 16), hex_char (nat n mod 16)]"

fun show_datum :: "datum \<Rightarrow> string" where
  "show_datum (RangeDatum n1 n2 r) =
     ''range '' @ n1 @ '' '' @ n2 @ '' '' @ range_value r @ '' '' @ show_nat (nat (range_start r)) @ '' ''
       @ show_nat (nat (range_end r)) @ [CHR 0x0A]"
| "show_datum (StringDatum n1 n2 e) =
     ''event-str '' @ n1 @ '' '' @ n2 @ '' '' @ event_value e @ '' '' @ show_nat (nat (event_at e)) @ [CHR 0x0A]"
| "show_datum (NumberDatum n1 n2 e) =
     ''event-int '' @ n1 @ '' '' @ n2 @ '' '' @ show_nat (nat (event_value e)) @ '' '' @ show_nat (nat (event_at e)) @ [CHR 0x0A]"
| "show_datum (ColorDatum nm r g b) =
     ''color '' @ nm @ '' #'' @ show_hex r @ show_hex g @ show_hex b @ [CHR 0x0A]"
| "show_datum NoDatum = [CHR 0x0A]"

definition word_ok :: "string \<Rightarrow> bool" where
  "word_ok w = (w \<noteq> [] \<and> CHR '' '' \<notin> set w \<and> CHR 0x0A \<notin> set w)"

definition byte_ok :: "int \<Rightarrow> bool" where
  "byte_ok n = (0 \<le> n \<and> n < 256)"

fun datum_ok :: "datum \<Rightarrow> bool" where
  "datum_ok (RangeDatum n1 n2 r) =
     (word_ok n1 \<and> word_ok n2 \<and> word_ok (range_value r) \<and> 0 \<le> range_start r \<and> 0 \<le> range_end r)"
| "datum_ok (StringDatum n1 n2 e) = (word_ok n1 \<and> word_ok n2 \<and> word_ok (event_value e) \<and> 0 \<le> event_at e)"
| "datum_ok (NumberDatum n1 n2 e) = (word_ok n1 \<and> word_ok n2 \<and> 0 \<le> event_value e \<and> 0 \<le> event_at e)"
| "datum_ok (ColorDatum nm r g b) = (word_ok nm \<and> byte_ok r \<and> byte_ok g \<and> byte_ok b)"
| "datum_ok NoDatum = True"

lemma literal_append [simp]: "literal p (p @ s) = Some s"
  by (simp add: literal_def)

lemma literal_blank [simp]: "literal '' '' (CHR '' '' # s) = Some s" "literal '' #'' (CHR '' '' # CHR ''#'' # s) = Some s"
  by (simp_all add: literal_def startswith_def)

lemma word_group_append [simp]: "word_ok w \<Longrightarrow> word_group (w @ CHR '' '' # s) = Some (w, CHR '' '' # s)"
  unfolding word_group_def word_ok_def by (subst takeWhile_append2) (auto simp: Let_def)

lemma digits_group_append [simp]:
  assumes "\<not> is_digit c"
  shows "digits_group (show_nat n @ c # s) = Some (int n, c # s)"
proof -
  have "takeWhile is_digit (show_nat n @ c # s) = show_nat n"
    using show_nat_digits [of n] assms by (simp add: takeWhile_append2 list_all_iff)
  then show ?thesis using show_nat_digits [of n] by (simp add: digits_group_def Let_def read_show_nat)
qed

lemma not_digits [simp]: "\<not> is_digit (CHR '' '')" "\<not> is_digit (CHR 0x0A)"
  by (simp_all add: is_digit_def)

lemma hex_value_char: "n < 16 \<Longrightarrow> hex_value (hex_char n) = Some n"
  by (auto simp: hex_value_def hex_char_def Let_def)

lemma hex_group_show [simp]: "byte_ok n \<Longrightarrow> hex_group (show_hex n @ s) = Some (n, s)"
  by (auto simp: hex_group_def show_hex_def byte_ok_def hex_value_char nat_less_iff of_nat_div of_nat_mod)

lemma no_literal [simp]:
  "literal ''range '' (CHR ''e'' # s) = None" "literal ''range '' (CHR ''c'' # s) = None"
  "literal ''range '' (CHR 0x0A # s) = None" "literal ''event-str '' (CHR ''c'' # s) = None"
  "literal ''event-str '' (CHR 0x0A # s) = None" "literal ''event-int '' (CHR ''c'' # s) = None"
  "literal ''event-int '' (CHR 0x0A # s) = None" "literal ''color '' (CHR 0x0A # s) = None"
  "literal ''event-str '' (CHR ''e'' # CHR ''v'' # CHR ''e'' # CHR ''n'' # CHR ''t'' # CHR ''-'' # CHR ''i'' # s) = None"
  by (simp_all add: literal_def startswith_def)

lemma literal_patterns [simp]:
  "literal ''range '' (CHR ''r'' # CHR ''a'' # CHR ''n'' # CHR ''g'' # CHR ''e'' # CHR '' '' # s) = Some s"
  "literal ''event-str '' (CHR ''e'' # CHR ''v'' # CHR ''e'' # CHR ''n'' # CHR ''t'' # CHR ''-'' # CHR ''s'' # CHR ''t'' # CHR ''r'' # CHR '' '' # s) = Some s"
  "literal ''event-int '' (CHR ''e'' # CHR ''v'' # CHR ''e'' # CHR ''n'' # CHR ''t'' # CHR ''-'' # CHR ''i'' # CHR ''n'' # CHR ''t'' # CHR '' '' # s) = Some s"
  "literal ''color '' (CHR ''c'' # CHR ''o'' # CHR ''l'' # CHR ''o'' # CHR ''r'' # CHR '' '' # s) = Some s"
  by (simp_all add: literal_def startswith_def)

lemma datum_of_show: "datum_ok d \<Longrightarrow> datum_of (show_datum d) = d"
  by (cases d) (simp_all add: datum_of_def range_match_def event_str_match_def event_int_match_def color_match_def)

text \<open>What Python 2 keeps of a colour: a component is full or nothing.\<close>

definition kept_shade :: "int \<Rightarrow> rat" where
  "kept_shade n = (if n = 255 then 1 else 0)"

fun kept_color :: "string \<Rightarrow> datum \<Rightarrow> color option" where
  "kept_color nm (ColorDatum m r g b) =
     (if m = nm then Some (new_color (kept_shade r) (kept_shade g) (kept_shade b)) else None)"
| "kept_color nm d = None"

lemma color_datum_kept: "datum_ok d \<Longrightarrow> color_datum Py2 nm d = kept_color nm d"
proof -
  have "(of_int (n div 255) :: rat) = kept_shade n" if "byte_ok n" for n
  proof (cases "n = 255")
    case False
    with that have "n div 255 = 0" by (simp add: byte_ok_def div_pos_pos_trivial)
    with False show ?thesis by (simp add: kept_shade_def)
  qed (simp add: kept_shade_def)
  then show "datum_ok d \<Longrightarrow> color_datum Py2 nm d = kept_color nm d" by (cases d) (simp_all add: py_div_def)
qed

text \<open>
  Claim C28.  Under Python 2 (under Python 3 the reader raises on the first range or event) a file that is
  written one datum a line, with names and values that are not empty and hold no blank and no line
  feed, times and numbers from zero on and the components of a colour from 0 to 255, is read back: each
  line of ranges or events has exactly the data written for its names, by time, and a name has the last
  colour written for it, of which the integer division by 255 only keeps whether a component was full.
\<close>

theorem read_written_data:
  assumes "\<forall>d \<in> set ds. datum_ok d"
  shows "\<exists>cs ts. read_data Py2 (map show_datum ds) = Inr (cs, ts)
    \<and> (\<forall>n1 n2.
        ranges_in ts n1 n2 = sort_key range_start (List.map_filter (range_datum n1 n2) ds)
      \<and> strings_in ts n1 n2 = sort_key event_at (List.map_filter (string_datum n1 n2) ds)
      \<and> numbers_in ts n1 n2 = sort_key event_at (List.map_filter (number_datum n1 n2) ds))
    \<and> (\<forall>nm. dget (by_name cs) nm =
        (case rev (List.map_filter (kept_color nm) ds) of [] \<Rightarrow> None | c # rest \<Rightarrow> Some c))"
proof -
  have lines: "map datum_of (map show_datum ds) = ds" using assms by (simp add: datum_of_show map_idI)
  have "List.map_filter (color_datum Py2 nm) ds = List.map_filter (kept_color nm) ds" for nm
    using assms by (induction ds) (simp_all add: List.map_filter_simps color_datum_kept split: option.split)
  then show ?thesis using read_data_Py2 [of "map show_datum ds", unfolded lines] by simp
qed

theorem read_written_data_witness:
  "\<exists>cs ts. read_data Py2 (map show_datum
      [RangeDatum ''node'' ''rx'' \<lparr>range_start = 7, range_end = 9, range_value = ''busy''\<rparr>,
       ColorDatum ''busy'' 128 255 127,
       RangeDatum ''node'' ''rx'' \<lparr>range_start = 2, range_end = 6, range_value = ''idle''\<rparr>]) = Inr (cs, ts)
    \<and> ranges_in ts ''node'' ''rx'' =
      [\<lparr>range_start = 2, range_end = 6, range_value = ''idle''\<rparr>, \<lparr>range_start = 7, range_end = 9, range_value = ''busy''\<rparr>]
    \<and> dget (by_name cs) ''busy'' = Some (new_color 0 1 0)"
proof -
  let ?ds = "[RangeDatum ''node'' ''rx'' \<lparr>range_start = 7, range_end = 9, range_value = ''busy''\<rparr>,
       ColorDatum ''busy'' 128 255 127,
       RangeDatum ''node'' ''rx'' \<lparr>range_start = 2, range_end = 6, range_value = ''idle''\<rparr>]"
  have "\<forall>d \<in> set ?ds. datum_ok d" by (simp add: word_ok_def byte_ok_def)
  from read_written_data [OF this] obtain cs ts where "read_data Py2 (map show_datum ?ds) = Inr (cs, ts)"
    "ranges_in ts ''node'' ''rx'' = sort_key range_start (List.map_filter (range_datum ''node'' ''rx'') ?ds)"
    "dget (by_name cs) ''busy'' = (case rev (List.map_filter (kept_color ''busy'') ?ds) of [] \<Rightarrow> None | c # rest \<Rightarrow> Some c)"
    by blast
  then show ?thesis by (intro exI [of _ cs] exI [of _ ts]) (simp add: List.map_filter_simps kept_shade_def)
qed


section \<open>The invariant of the data\<close>

text \<open>No two objects of a list share a name, every time is a natural number.\<close>

definition range_line_ok :: "timeline_data_range \<Rightarrow> bool" where
  "range_line_ok r = (\<forall>x \<in> set (ranges r). 0 \<le> range_start x \<and> 0 \<le> range_end x)"

definition event_line_ok :: "'v timeline_event \<Rightarrow> bool" where
  "event_line_ok e = (\<forall>x \<in> set (events e). 0 \<le> event_at x)"

definition timeline_ok :: "timeline \<Rightarrow> bool" where
  "timeline_ok t =
     (distinct (map range_name (timeline_ranges t)) \<and> distinct (map events_name (event_str t))
      \<and> distinct (map events_name (event_int t)) \<and> (\<forall>r \<in> set (timeline_ranges t). range_line_ok r)
      \<and> (\<forall>e \<in> set (event_str t). event_line_ok e) \<and> (\<forall>e \<in> set (event_int t). event_line_ok e))"

definition timelines_ok :: "timelines \<Rightarrow> bool" where
  "timelines_ok ts = (distinct (map timeline_name ts) \<and> (\<forall>t \<in> set ts. timeline_ok t))"

fun times_ok :: "datum \<Rightarrow> bool" where
  "times_ok (RangeDatum n1 n2 r) = (0 \<le> range_start r \<and> 0 \<le> range_end r)"
| "times_ok (StringDatum n1 n2 e) = (0 \<le> event_at e)"
| "times_ok (NumberDatum n1 n2 e) = (0 \<le> event_at e)"
| "times_ok d = True"

lemma digits_group_nonneg: "digits_group s = Some (n, rest) \<Longrightarrow> 0 \<le> n"
  by (auto simp: digits_group_def Let_def split: if_splits)

lemma datum_of_times: "times_ok (datum_of line)"
  by (auto simp: datum_of_def range_match_def event_str_match_def event_int_match_def bind_eq_Some_conv
      split: option.splits dest!: digits_group_nonneg)

lemma new_ok:
  "range_line_ok (new_timeline_data_range nm)" "event_line_ok (new_timeline_event nm)" "timeline_ok (new_timeline nm)"
  by (simp_all add: range_line_ok_def event_line_ok_def timeline_ok_def new_timeline_data_range_def
      new_timeline_event_def new_timeline_def)

lemma put_timeline_ok:
  assumes "timeline_ok t"
  shows "times_ok (RangeDatum n1 nm r) \<Longrightarrow> timeline_ok (put_range nm r t)"
    and "times_ok (StringDatum n1 nm e) \<Longrightarrow> timeline_ok (put_event_str nm e t)"
    and "times_ok (NumberDatum n1 nm f) \<Longrightarrow> timeline_ok (put_event_int nm f t)"
proof -
  have add: "range_line_ok x \<Longrightarrow> times_ok (RangeDatum n1 nm r) \<Longrightarrow> range_line_ok (add_range r x)"
    "event_line_ok y \<Longrightarrow> 0 \<le> event_at g \<Longrightarrow> event_line_ok (add_event g y)" for x y g
    by (auto simp: range_line_ok_def event_line_ok_def add_range_def add_event_def)
  have old: "Ball (set (timeline_ranges t)) range_line_ok" "Ball (set (event_str t)) event_line_ok"
    "Ball (set (event_int t)) event_line_ok" using assms by (simp_all add: timeline_ok_def)
  have all: "times_ok (RangeDatum n1 nm r) \<Longrightarrow>
      Ball (set (change range_name new_timeline_data_range nm (add_range r) (timeline_ranges t))) range_line_ok"
    by (rule range_objects.change_all [OF old(1) new_ok(1) add(1)])
  have all_str: "0 \<le> event_at e \<Longrightarrow>
      Ball (set (change events_name new_timeline_event nm (add_event e) (event_str t))) event_line_ok"
    by (rule event_objects.change_all [OF old(2) new_ok(2) add(2)])
  have all_int: "0 \<le> event_at f \<Longrightarrow>
      Ball (set (change events_name new_timeline_event nm (add_event f) (event_int t))) event_line_ok"
    by (rule event_objects.change_all [OF old(3) new_ok(2) add(2)])
  show "times_ok (RangeDatum n1 nm r) \<Longrightarrow> timeline_ok (put_range nm r t)"
    using assms all by (simp add: timeline_ok_def put_range_def range_objects.change_distinct)
  show "times_ok (StringDatum n1 nm e) \<Longrightarrow> timeline_ok (put_event_str nm e t)"
    using assms all_str by (simp add: timeline_ok_def put_event_str_def event_objects.change_distinct)
  show "times_ok (NumberDatum n1 nm f) \<Longrightarrow> timeline_ok (put_event_int nm f t)"
    using assms all_int by (simp add: timeline_ok_def put_event_int_def event_objects.change_distinct)
qed

lemma change_timelines_ok:
  assumes "timelines_ok ts" "\<And>t. timeline_ok t \<Longrightarrow> timeline_ok (f t)" "\<And>t. timeline_name (f t) = timeline_name t"
  shows "timelines_ok (change_timeline nm f ts)"
  using assms unfolding timelines_ok_def
  by (intro conjI timeline_objects.change_all timeline_objects.change_distinct) (simp_all add: new_ok)

lemma put_ok: "timelines_ok ts \<Longrightarrow> times_ok d \<Longrightarrow> timelines_ok (fst (put v (ts, cs) d))"
  by (cases d) (simp_all add: change_timelines_ok put_timeline_ok)

lemma read_lines_ok: "timelines_ok ts \<Longrightarrow> timelines_ok (fst (foldl (read_line v) (ts, cs) lines))"
proof (induction lines arbitrary: ts cs)
  case (Cons line lines)
  have "timelines_ok (fst (read_line v (ts, cs) line))"
    using put_ok [OF Cons.prems datum_of_times] by (simp add: read_line_put)
  then show ?case using Cons.IH by (cases "read_line v (ts, cs) line") simp
qed simp

lemma sorted_timeline_ok: "timeline_ok t \<Longrightarrow> timeline_ok (sorted_timeline t)"
  by (auto simp: timeline_ok_def sorted_timeline_def range_line_ok_def event_line_ok_def sorted_range_line_def
      sorted_event_line_def comp_def)

lemma sorted_timelines_ok: "timelines_ok ts \<Longrightarrow> timelines_ok (map sorted_timeline ts)"
  by (auto simp: timelines_ok_def comp_def sorted_timeline_ok)

lemma timelines_ok_Nil [simp]: "timelines_ok []"
  by (simp add: timelines_ok_def)

definition in_order :: "timeline \<Rightarrow> bool" where
  "in_order t =
     ((\<forall>r \<in> set (timeline_ranges t). sorted (map range_start (ranges r)))
      \<and> (\<forall>e \<in> set (event_str t). sorted (map event_at (events e)))
      \<and> (\<forall>e \<in> set (event_int t). sorted (map event_at (events e))))"

lemma sorted_in_order: "in_order (sorted_timeline t)"
  by (auto simp: in_order_def sorted_timeline_def sorted_range_line_def sorted_event_line_def)

lemma read_data_sorted:
  assumes "read_data v lines = Inr (cs, ts)"
  obtains ts0 where "ts = map sorted_timeline ts0" "timelines_ok ts0"
proof (cases v)
  case Py2
  then show thesis using assms read_lines_ok [of "[]" v new_colors lines] that
    by (auto simp: read_data_def sort_timelines_Py2 split: prod.splits)
next
  case Py3
  obtain us ds where s: "foldl (read_line v) ([], new_colors) lines = (us, ds)" by fastforce
  have "ts = []"
    using assms time_lines [OF s] no_time_lines [of lines v "[]" new_colors] s
    by (auto simp: read_data_def Py3 sort_timelines_Py3 rbind_Inr_iff split: if_splits)
  then show thesis using that [of "[]"] by simp
qed

text \<open>
  Claim C33.  Whatever the file holds, the data that the reader returns are well formed: names are distinct at
  both levels, times are not negative and every line is in the order of time, as the binary
  searches of the windows need it.
\<close>

theorem read_data_invariant:
  assumes "read_data v lines = Inr (cs, ts)"
  shows "timelines_ok ts \<and> list_all in_order ts"
proof -
  obtain ts0 where "ts = map sorted_timeline ts0" "timelines_ok ts0" by (rule read_data_sorted [OF assms])
  then show ?thesis by (simp add: sorted_timelines_ok list_all_iff sorted_in_order)
qed

theorem read_data_invariant_witness:
  "\<exists>cs ts. read_data Py2 [show_datum (NumberDatum ''a'' ''b'' \<lparr>event_at = 3, event_value = 1\<rparr>)] = Inr (cs, ts) \<and> timelines_ok ts"
  using read_data_Py2 [of "[show_datum (NumberDatum ''a'' ''b'' \<lparr>event_at = 3, event_value = 1\<rparr>)]"]
    read_data_invariant [of Py2 "[show_datum (NumberDatum ''a'' ''b'' \<lparr>event_at = 3, event_value = 1\<rparr>)]"] by blast


lemma read_data_lower:
  assumes read: "read_data v lines = Inr (cs, ts)" and bounds: "timelines_bounds ts = (lo, hi)"
  shows "lo = 0" "0 \<le> hi"
proof -
  obtain ts0 where ts: "ts = map sorted_timeline ts0" "timelines_ok ts0" by (rule read_data_sorted [OF read])
  then have ok: "timeline_ok t" if "t \<in> set ts" for t
    using sorted_timelines_ok [OF ts(2)] that unfolding ts(1) [symmetric] by (simp only: timelines_ok_def)
  have "0 \<le> fst b" if "t \<in> set ts" "b \<in> set (line_bounds t)" for t b
    using ok [OF that(1)] that(2)
    by (auto simp: line_bounds_def timeline_ok_def range_line_ok_def event_line_ok_def range_bounds_def event_bounds_def)
  then show "lo = 0" "0 \<le> hi" using timelines_bounds_attained(1,2,3) [OF bounds] by force+
qed

text \<open>
  \<open>get_bounds\<close> on what was read: the axis starts at zero, wherever the data start, and holds every
  range start and every event, and every range end where the ranges of the line do not overlap.
\<close>

theorem read_data_bounds:
  assumes read: "read_data v lines = Inr (cs, ts)" and bounds: "timelines_bounds ts = (lo, hi)"
  shows "lo = 0 \<and> (\<forall>t \<in> set ts.
      (\<forall>r \<in> set (timeline_ranges t). \<forall>x \<in> set (ranges r).
         lo \<le> range_start x \<and> (ranges_ok (ranges r) \<longrightarrow> range_end x \<le> hi))
      \<and> (\<forall>e \<in> set (event_str t). \<forall>x \<in> set (events e). lo \<le> event_at x \<and> event_at x \<le> hi)
      \<and> (\<forall>e \<in> set (event_int t). \<forall>x \<in> set (events e). lo \<le> event_at x \<and> event_at x \<le> hi))"
proof -
  obtain ts0 where "ts = map sorted_timeline ts0" by (rule read_data_sorted [OF read])
  then show ?thesis
    using timelines_bounds_hold [of ts0 lo hi] bounds read_data_lower(1) [OF read bounds] by blast
qed

theorem read_data_bounds_witness:
  "timelines_bounds [new_timeline ''a''\<lparr>event_int := [\<lparr>events_name = ''b'', events = [\<lparr>event_at = 7, event_value = 1\<rparr>]\<rparr>]\<rparr>] = (0, 7)"
proof -
  let ?ts = "[new_timeline ''a''\<lparr>event_int := [\<lparr>events_name = ''b'', events = [\<lparr>event_at = 7, event_value = 1\<rparr>]\<rparr>]\<rparr>]"
  have read: "read_data Py2 [''event-int a b 1 7''] = Inr (new_colors, ?ts)" by code_simp
  obtain lo hi where bounds: "timelines_bounds ?ts = (lo, hi)" by fastforce
  moreover have "snd (timelines_bounds ?ts) = 7" by code_simp
  ultimately show ?thesis using read_data_bounds [OF read bounds] by simp
qed

section \<open>The colours of the legend\<close>

lemma lookup_known: "dget (by_name cs) nm = Some c \<Longrightarrow> lookup_color Py2 cs nm = Inr (cs, c)"
  by (simp add: lookup_color_def)

lemma lookup_new:
  "dget (by_name cs) nm = None \<Longrightarrow> default_colors cs = ds @ [c] \<Longrightarrow>
   lookup_color Py2 cs nm = Inr (cs\<lparr>by_name := by_name cs @ [(nm, c)], default_colors := ds\<rparr>, c)"
  by (simp add: lookup_color_def add_color_def dset_new)

lemma dget_append: "dget (d @ e) k = (case dget d k of None \<Rightarrow> dget e k | Some v \<Rightarrow> Some v)"
  by (simp add: dget_def map_add_def split: option.splits)

lemma legend_loop:
  assumes "distinct vals"
  shows "for_each (legend_step Py2) (cs, acc) vals =
    (let new = filter (\<lambda>nm. dget (by_name cs) nm = None) vals; ds = default_colors cs;
         names = by_name cs @ zip new (rev ds)
     in if length new \<le> length ds
        then Inr (cs\<lparr>by_name := names, default_colors := take (length ds - length new) ds\<rparr>,
                  acc @ map (\<lambda>nm. the (dget names nm)) vals)
        else Inl IndexError)"
  using assms
proof (induction vals arbitrary: cs acc)
  case (Cons x vals)
  let ?new = "filter (\<lambda>nm. dget (by_name cs) nm = None) vals"
  show ?case
  proof (cases "dget (by_name cs) x")
    case (Some c)
    then show ?thesis using Cons by (simp add: legend_step_def lookup_known Let_def dget_append)
  next
    case None
    show ?thesis
    proof (cases "default_colors cs" rule: rev_cases)
      case Nil
      with None show ?thesis by (simp add: legend_step_def lookup_color_def)
    next
      case (snoc ds c)
      have "filter (\<lambda>nm. dget (by_name cs @ [(x, c)]) nm = None) vals = ?new"
        using Cons.prems by (intro filter_cong) (auto simp: dget_append dget_def split: option.splits)
      with None snoc Cons show ?thesis
        by (simp add: legend_step_def lookup_new Let_def dget_append [of "by_name cs" "(x, c) # _"]) (simp add: dget_def)
    qed
  qed
qed (simp add: Let_def)

text \<open>
  The legend of \<open>main\<close>: a value keeps the colour of the file, the values without one take the
  default colours from the last on, and when there are more of them than default colours,
  six for a fresh list, the script ends with an \<open>IndexError\<close>.
\<close>

theorem legend_colors_result:
  assumes "distinct vals"
  shows "legend_colors Py2 cs vals =
    (let new = filter (\<lambda>nm. dget (by_name cs) nm = None) vals; ds = default_colors cs;
         names = by_name cs @ zip new (rev ds)
     in if length new \<le> length ds
        then Inr (cs\<lparr>by_name := names, default_colors := take (length ds - length new) ds\<rparr>,
                  map (\<lambda>nm. the (dget names nm)) vals)
        else Inl IndexError)"
  using legend_loop [OF assms, of cs "[]"] by (simp add: legend_colors_def Let_def)

theorem legend_colors_result_witness:
  "legend_colors Py2 (add_color ''b'' (new_color 0 0 0) new_colors) [''a'', ''b''] =
    Inr (new_colors\<lparr>by_name := [(''b'', new_color 0 0 0), (''a'', new_color 0 1 1)],
        default_colors := butlast (default_colors new_colors)\<rparr>,
      [new_color 0 1 1, new_color 0 0 0])"
  by (subst legend_colors_result) (simp, code_simp)

text \<open>Under Python 2 the shades of a colour are divided as integers: all but the full ones are lost.\<close>

lemma color_shades_lost:
  "read_line Py2 ([], new_colors) ''color busy #80ff7f'' = ([], add_color ''busy'' (new_color 0 1 0) new_colors)"
  by code_simp

end
