(* ===== verification/GridRender.thy ===== *)
theory GridRender
  imports GridData
begin

text \<open>
  The renderers of the timeline viewer for the legend and the time lines, \<open>utils/grid.py\<close> lines 497
  to 845: their layout and the commands that they give to cairo.  What cairo draws is not
  modelled; a drawing is the list of the commands, and the size of a text, which only cairo knows, is the
  argument \<open>ext\<close>.  These sizes are floating point numbers, so that the division of a pixel
  position is the one of the rationals under both versions of Python.  The attributes that a
  constructor leaves unset are zero here; \<open>main\<close> sets them all before it draws.
\<close>

record extents =
  y_bearing :: rat
  t_width :: rat
  t_height :: rat

datatype draw_op =
  Rectangle rat rat rat rat
| MoveTo rat rat
| LineTo rat rat
| RelLineTo rat rat
| ClosePath
| SetOperatorSource
| SetLineWidth rat
| SetSourceRgb rat rat rat
| SetDash "rat list" rat
| Translate rat rat
| Stroke
| StrokePreserve
| Fill
| ShowText string
| Save
| Restore

section \<open>The legend\<close>

record legend =
  legend_padding :: rat
  legend_texts :: "string list"
  legend_shades :: "color list"
  legend_width :: rat
  legend_height :: rat

definition new_legend :: legend where
  "new_legend = \<lparr>legend_padding = 10, legend_texts = [], legend_shades = [], legend_width = 0, legend_height = 0\<rparr>"

definition set_padding :: "rat \<Rightarrow> legend \<Rightarrow> legend" where
  "set_padding p l = l\<lparr>legend_padding := p\<rparr>"

definition set_legends :: "string list \<Rightarrow> color list \<Rightarrow> legend \<Rightarrow> legend" where
  "set_legends texts shades l = l\<lparr>legend_texts := texts, legend_shades := shades\<rparr>"

text \<open>The variables of the loops of \<open>layout\<close> and \<open>draw\<close>, and the turn that both take for a text.\<close>

record legend_pos =
  line_height :: rat
  total_height :: rat
  line_used :: rat

definition item_width :: "rat \<Rightarrow> extents \<Rightarrow> rat" where
  "item_width p e = p + p + t_width e + p"

definition item_height :: "rat \<Rightarrow> extents \<Rightarrow> rat" where
  "item_height p e = t_height e + p"

definition place_item :: "rat \<Rightarrow> rat \<Rightarrow> legend_pos \<Rightarrow> extents \<Rightarrow> legend_pos" where
  "place_item p width s e =
     (let s = (if item_height p e > line_height s then s\<lparr>line_height := item_height p e\<rparr> else s)
      in if line_used s + item_width p e > width
         then s\<lparr>line_used := p + item_width p e, total_height := total_height s + line_height s\<rparr>
         else s\<lparr>line_used := line_used s + item_width p e\<rparr>)"

definition legend_start :: "rat \<Rightarrow> legend_pos" where
  "legend_start p = \<lparr>line_height = 0, total_height = p, line_used = p\<rparr>"

definition layout_legend :: "(string \<Rightarrow> extents) \<Rightarrow> rat \<Rightarrow> legend \<Rightarrow> legend" where
  "layout_legend ext width l =
     (let s = foldl (place_item (legend_padding l) width) (legend_start (legend_padding l)) (map ext (legend_texts l))
      in l\<lparr>legend_width := width, legend_height := total_height s + line_height s\<rparr>)"

definition draw_item :: "legend \<Rightarrow> legend_pos \<Rightarrow> nat \<Rightarrow> string \<Rightarrow> extents \<Rightarrow> py_error + draw_op list" where
  "draw_item l s i label e =
     (let p = legend_padding l; x = line_used s - item_width p e
      in case py_nth (legend_shades l) (int i) of
        None \<Rightarrow> Inl IndexError
      | Some c \<Rightarrow> Inr
          [Rectangle x (total_height s) p p, SetSourceRgb 0 0 0, SetLineWidth 2, StrokePreserve,
           SetSourceRgb (red c) (green c) (blue c), Fill,
           MoveTo (x + p * 2) (total_height s + t_height e), SetSourceRgb 0 0 0, ShowText label])"

definition draw_legend_step ::
  "(string \<Rightarrow> extents) \<Rightarrow> legend \<Rightarrow> nat \<times> legend_pos \<times> draw_op list \<Rightarrow> string \<Rightarrow> py_error + (nat \<times> legend_pos \<times> draw_op list)" where
  "draw_legend_step ext l st label =
     (let (i, s, ops) = st; s = place_item (legend_padding l) (legend_width l) s (ext label)
      in rbind (draw_item l s i label (ext label)) (\<lambda>new. Inr (i + 1, s, ops @ new)))"

definition draw_legend :: "(string \<Rightarrow> extents) \<Rightarrow> legend \<Rightarrow> py_error + draw_op list" where
  "draw_legend ext l =
     rbind (for_each (draw_legend_step ext l) (0, legend_start (legend_padding l), []) (legend_texts l))
       (\<lambda>(i, s, ops). Inr ops)"

section \<open>The time lines\<close>

record renderer =
  padding :: rat
  lines_of :: timelines
  colors_of :: colors
  win_start :: rat
  win_end :: rat
  left_width :: rat
  right_width :: rat
  max_text_height :: rat
  full_width :: rat
  full_height :: rat

definition new_renderer :: renderer where
  "new_renderer = \<lparr>padding = 10, lines_of = [], colors_of = new_colors, win_start = 0, win_end = 0,
     left_width = 0, right_width = 0, max_text_height = 0, full_width = 0, full_height = 0\<rparr>"

definition set_timelines :: "timelines \<Rightarrow> colors \<Rightarrow> renderer \<Rightarrow> renderer" where
  "set_timelines ts cs r = r\<lparr>lines_of := ts, colors_of := cs\<rparr>"

definition set_render_range :: "rat \<Rightarrow> rat \<Rightarrow> renderer \<Rightarrow> renderer" where
  "set_render_range s e r = r\<lparr>win_start := s, win_end := e\<rparr>"

definition get_data_x_start :: "renderer \<Rightarrow> rat" where
  "get_data_x_start r = padding r / 2 + left_width r + padding r + right_width r + padding r / 2"

definition sample_text :: string where
  "sample_text = ''ABCDEFGHIJKLMNOPQRSTUVWXYZabcedefghijklmnopqrstuvwxyz0123456789''"

definition widest :: "(string \<Rightarrow> extents) \<Rightarrow> rat \<Rightarrow> string list \<Rightarrow> rat" where
  "widest ext w names = foldl (\<lambda>w nm. max w (t_width (ext nm))) w names"

text \<open>The counters of \<open>layout\<close>: the time lines, their range lines and their event lines of both kinds.\<close>

definition right_names :: "timeline \<Rightarrow> string list" where
  "right_names t =
     map range_name (timeline_ranges t) @ map events_name (event_int t) @ map events_name (event_str t)"

definition n_ranges :: "timelines \<Rightarrow> nat" where
  "n_ranges ts = sum_list (map (\<lambda>t. length (timeline_ranges t)) ts)"

definition n_events :: "timelines \<Rightarrow> nat" where
  "n_events ts = sum_list (map (\<lambda>t. length (event_int t) + length (event_str t)) ts)"

definition layout_height :: "rat \<Rightarrow> rat \<Rightarrow> timelines \<Rightarrow> rat" where
  "layout_height p mth ts =
     (let left_n = of_nat (length ts);
          left_height = left_n * mth + (left_n - 1) * p;
          right_n = of_nat (n_ranges ts + n_events ts);
          right_height = (right_n - 1) * p + right_n * mth;
          right_data_height = of_nat (n_events ts) * (mth + 5) + of_nat (n_ranges ts) * 10 + (right_n - 1) * p;
          height = max left_height right_height
      in max height right_data_height)"

definition layout_lines :: "(string \<Rightarrow> extents) \<Rightarrow> rat \<Rightarrow> renderer \<Rightarrow> renderer" where
  "layout_lines ext width r =
     (let mth = t_height (ext sample_text); ts = lines_of r
      in r\<lparr>left_width := widest ext 0 (map timeline_name ts),
           right_width := widest ext 0 (concat (map right_names ts)),
           max_text_height := mth,
           full_width := width,
           full_height := layout_height (padding r) mth ts + padding r\<rparr>)"

definition draw_line :: "rat \<Rightarrow> rat \<Rightarrow> rat \<Rightarrow> rat \<Rightarrow> draw_op list" where
  "draw_line x y width height =
     [MoveTo x y, RelLineTo width height, ClosePath, SetOperatorSource, SetLineWidth 1, SetSourceRgb 0 0 0, Stroke]"

text \<open>
  What a drawing changes besides the commands: the height reached, the count that colours the
  background of every second line, and the colours, of which the first drawing of a value may take one.
\<close>

record pen =
  cur_y :: rat
  grey :: int
  pen_colors :: colors
  drawn :: "draw_op list"

definition emit :: "draw_op list \<Rightarrow> pen \<Rightarrow> pen" where
  "emit ops s = s\<lparr>drawn := drawn s @ ops\<rparr>"

definition grey_background :: "renderer \<Rightarrow> rat \<Rightarrow> rat \<Rightarrow> rat \<Rightarrow> rat \<Rightarrow> pen \<Rightarrow> pen" where
  "grey_background r x y width height s =
     (if grey s mod 2 = 0
      then emit [Rectangle x (y - padding r / 2) width (height + padding r),
                 SetSourceRgb (9 / 10) (9 / 10) (9 / 10), Fill] s
      else s)"

text \<open>The position of a time in the window, cut to a pixel.\<close>

definition pixel_of :: "renderer \<Rightarrow> rat \<Rightarrow> rat \<Rightarrow> rat \<Rightarrow> py_error + int" where
  "pixel_of r x width t =
     (if win_end r - win_start r = 0 then Inl ZeroDivisionError
      else Inr (cut (x + (t - win_start r) * width / (win_end r - win_start r))))"

definition draw_event ::
  "('v \<Rightarrow> string) \<Rightarrow> renderer \<Rightarrow> rat \<Rightarrow> rat \<Rightarrow> rat \<Rightarrow> int \<times> draw_op list \<Rightarrow> 'v timed_event
    \<Rightarrow> py_error + (int \<times> draw_op list)" where
  "draw_event str r x y width st e =
     rbind (pixel_of r x width (of_int (event_at e))) (\<lambda>real_x.
       Inr (if real_x > fst st + 2
            then (real_x, snd st @
              [Rectangle (of_int real_x) y 1 1, SetSourceRgb 1 0 0, Stroke,
               MoveTo (of_int real_x) (y + max_text_height r), SetSourceRgb 0 0 0, ShowText (str (event_value e))])
            else st))"

definition draw_events ::
  "('v \<Rightarrow> string) \<Rightarrow> renderer \<Rightarrow> 'v timeline_event \<Rightarrow> rat \<Rightarrow> rat \<Rightarrow> rat \<Rightarrow> rat \<Rightarrow> pen \<Rightarrow> py_error + pen" where
  "draw_events str r t x y width height s =
     (let s = grey_background r x y width height s; (lo, hi) = get_events_bounds t (win_start r) (win_end r)
      in rbind (for_each (draw_event str r x y width) (cut x, []) (py_slice (events t) lo hi)) (\<lambda>(last_x, ops).
         Inr ((emit ops s)\<lparr>grey := grey s + 1\<rparr>)))"

definition draw_range ::
  "python \<Rightarrow> renderer \<Rightarrow> rat \<Rightarrow> rat \<Rightarrow> rat \<Rightarrow> int \<times> colors \<times> draw_op list \<Rightarrow> data_range
    \<Rightarrow> py_error + (int \<times> colors \<times> draw_op list)" where
  "draw_range v r x y width st d =
     (let (last_x, cs, ops) = st;
          s = max (of_int (range_start d)) (win_start r);
          e = min (of_int (range_end d)) (win_end r)
      in rbind (pixel_of r x width s) (\<lambda>x_start.
         rbind (pixel_of r x width e) (\<lambda>x_end.
         if x_end > last_x
         then rbind (lookup_color v cs (range_value d)) (\<lambda>(cs, c).
           Inr (x_end, cs, ops @
             [Rectangle (of_int x_start) y (of_int (x_end - x_start)) 10, SetSourceRgb 0 0 0, StrokePreserve,
              SetSourceRgb (red c) (green c) (blue c), Fill]))
         else Inr (last_x, cs, ops))))"

definition draw_ranges ::
  "python \<Rightarrow> renderer \<Rightarrow> timeline_data_range \<Rightarrow> rat \<Rightarrow> rat \<Rightarrow> rat \<Rightarrow> rat \<Rightarrow> pen \<Rightarrow> py_error + pen" where
  "draw_ranges v r t x y width height s =
     (let s = grey_background r x y width height s; (lo, hi) = get_ranges_bounds t (win_start r) (win_end r)
      in rbind (for_each (draw_range v r x y width) (cut (x - 1), pen_colors s, []) (py_slice (ranges t) lo hi))
         (\<lambda>(last_x, cs, ops). Inr ((emit ops s)\<lparr>grey := grey s + 1, pen_colors := cs\<rparr>)))"

text \<open>\<open>draw\<close>: the columns, the name of each line, the line itself and the rule below it.\<close>

definition right_x_start :: "renderer \<Rightarrow> rat" where
  "right_x_start r = padding r / 2 + left_width r + padding r"

definition data_x_start :: "renderer \<Rightarrow> rat" where
  "data_x_start r = right_x_start r + right_width r + padding r / 2"

definition data_width :: "renderer \<Rightarrow> rat" where
  "data_width r = full_width r - data_x_start r"

definition draw_name :: "(string \<Rightarrow> extents) \<Rightarrow> renderer \<Rightarrow> rat \<Rightarrow> string \<Rightarrow> pen \<Rightarrow> pen" where
  "draw_name ext r x nm s =
     emit [MoveTo x (cur_y s + max_text_height r - (t_height (ext nm) + y_bearing (ext nm))), ShowText nm] s"

definition next_line :: "renderer \<Rightarrow> rat \<Rightarrow> pen \<Rightarrow> pen" where
  "next_line r step s =
     (let s = s\<lparr>cur_y := cur_y s + step\<rparr>
      in emit (draw_line (right_x_start r - padding r / 2) (cur_y s - padding r / 2) (right_width r + padding r) 0) s)"

definition draw_event_line ::
  "(string \<Rightarrow> extents) \<Rightarrow> ('v \<Rightarrow> string) \<Rightarrow> renderer \<Rightarrow> pen \<Rightarrow> 'v timeline_event \<Rightarrow> py_error + pen" where
  "draw_event_line ext str r s t =
     rbind (draw_events str r t (data_x_start r) (cur_y s) (data_width r) (max_text_height r + 5)
         (draw_name ext r (right_x_start r) (events_name t) s)) (\<lambda>s.
       Inr (next_line r (max_text_height r + 5 + padding r) s))"

definition draw_range_line ::
  "python \<Rightarrow> (string \<Rightarrow> extents) \<Rightarrow> renderer \<Rightarrow> pen \<Rightarrow> timeline_data_range \<Rightarrow> py_error + pen" where
  "draw_range_line v ext r s t =
     rbind (draw_ranges v r t (data_x_start r) (cur_y s) (data_width r) 10
         (draw_name ext r (right_x_start r) (range_name t) s)) (\<lambda>s.
       Inr (next_line r (max_text_height r + padding r) s))"

definition show_int :: "int \<Rightarrow> string" where
  "show_int n = (if n < 0 then ''-'' @ show_nat (nat (- n)) else show_nat (nat n))"

definition draw_timeline ::
  "python \<Rightarrow> (string \<Rightarrow> extents) \<Rightarrow> renderer \<Rightarrow> pen \<Rightarrow> timeline \<Rightarrow> py_error + pen" where
  "draw_timeline v ext r s t =
     rbind (for_each (draw_event_line ext show_int r) (draw_name ext r (padding r / 2) (timeline_name t) s) (event_int t)) (\<lambda>s.
     rbind (for_each (draw_event_line ext (\<lambda>x. x) r) s (event_str t)) (\<lambda>s.
     rbind (for_each (draw_range_line v ext r) s (timeline_ranges t)) (\<lambda>s.
       Inr (emit (draw_line 0 (cur_y s - padding r / 2) (full_width r) 0) s))))"

definition draw_lines :: "python \<Rightarrow> (string \<Rightarrow> extents) \<Rightarrow> renderer \<Rightarrow> py_error + (renderer \<times> rat \<times> draw_op list)" where
  "draw_lines v ext r =
     (let s = \<lparr>cur_y = padding r / 2, grey = 1, pen_colors = colors_of r, drawn = draw_line 0 0 (full_width r) 0\<rparr>
      in rbind (for_each (draw_timeline v ext r) s (lines_of r)) (\<lambda>s.
         let bot_y = cur_y s - padding r / 2;
             left_x_end = padding r / 2 + left_width r;
             right_x_end = right_x_start r + right_width r
         in Inr (r\<lparr>colors_of := pen_colors s\<rparr>, bot_y,
              drawn s @ draw_line (left_x_end + padding r / 2) 0 0 bot_y
                @ draw_line (right_x_end + padding r / 2) 0 0 bot_y)))"


section \<open>The boxes of the legend\<close>

text \<open>The place that the loop gives to each text: its left and upper corner and its size.\<close>

record box =
  box_x :: rat
  box_y :: rat
  box_w :: rat
  box_h :: rat

fun item_boxes :: "rat \<Rightarrow> rat \<Rightarrow> legend_pos \<Rightarrow> extents list \<Rightarrow> box list" where
  "item_boxes p width s [] = []"
| "item_boxes p width s (e # es) =
     (let s' = place_item p width s e
      in \<lparr>box_x = line_used s' - item_width p e, box_y = total_height s', box_w = item_width p e, box_h = item_height p e\<rparr>
         # item_boxes p width s' es)"

definition item_ops :: "rat \<Rightarrow> box \<Rightarrow> string \<Rightarrow> color \<Rightarrow> draw_op list" where
  "item_ops p b label c =
     [Rectangle (box_x b) (box_y b) p p, SetSourceRgb 0 0 0, SetLineWidth 2, StrokePreserve,
      SetSourceRgb (red c) (green c) (blue c), Fill,
      MoveTo (box_x b + p * 2) (box_y b + (box_h b - p)), SetSourceRgb 0 0 0, ShowText label]"

text \<open>A box on the same row to the right of another, or on a lower row.\<close>

definition beside :: "box \<Rightarrow> box \<Rightarrow> bool" where
  "beside a b = (box_y a = box_y b \<and> box_x a + box_w a \<le> box_x b \<or> box_y a + box_h a \<le> box_y b)"

lemma place_item_step:
  assumes "s' = place_item p width s e"
  shows "item_height p e \<le> line_height s'" "line_height s \<le> line_height s'" "total_height s \<le> total_height s' \<or> line_height s' < 0"
    and "total_height s' = total_height s \<and> line_used s' = line_used s + item_width p e
       \<or> total_height s' = total_height s + line_height s' \<and> line_used s' = p + item_width p e"
  using assms by (auto simp: place_item_def Let_def)

text \<open>What holds before a turn: nothing that is still to be placed can meet what is there.\<close>

definition after :: "legend_pos \<Rightarrow> box \<Rightarrow> bool" where
  "after s b =
     (box_y b = total_height s \<and> box_x b + box_w b \<le> line_used s \<and> box_h b \<le> line_height s
      \<or> box_y b + box_h b \<le> total_height s)"

lemma after_place:
  assumes "after s b" "0 \<le> item_height p e" "0 \<le> line_height s" "0 \<le> item_width p e"
  shows "after (place_item p width s e) b"
  using assms by (auto simp: after_def place_item_def Let_def)

lemma item_boxes_after:
  assumes "0 \<le> p" "\<forall>e \<in> set es. 0 \<le> t_width e \<and> 0 \<le> t_height e" "0 \<le> line_height s" "after s b"
  shows "\<forall>c \<in> set (item_boxes p width s es). beside b c"
  using assms
proof (induction es arbitrary: s)
  case (Cons e es)
  have size: "0 \<le> item_width p e" "0 \<le> item_height p e" using Cons.prems by (simp_all add: item_width_def item_height_def)
  let ?s = "place_item p width s e"
  have "beside b \<lparr>box_x = line_used ?s - item_width p e, box_y = total_height ?s, box_w = item_width p e, box_h = item_height p e\<rparr>"
    using Cons.prems(3,4) size by (auto simp: beside_def after_def place_item_def Let_def)
  moreover have "0 \<le> line_height ?s" using Cons.prems(3) place_item_step(2) [OF refl, of s p width e] by linarith
  ultimately show ?case
    using Cons.IH [of ?s] Cons.prems after_place [OF Cons.prems(4) size(2) Cons.prems(3) size(1)] by (simp add: Let_def)
qed simp

lemma item_boxes_beside:
  assumes "0 \<le> p" "\<forall>e \<in> set es. 0 \<le> t_width e \<and> 0 \<le> t_height e" "0 \<le> line_height s"
  shows "sorted_wrt beside (item_boxes p width s es)"
  using assms
proof (induction es arbitrary: s)
  case (Cons e es)
  let ?s = "place_item p width s e"
  have line: "0 \<le> line_height ?s" using Cons.prems(3) place_item_step(2) [OF refl, of s p width e] by linarith
  have "after ?s \<lparr>box_x = line_used ?s - item_width p e, box_y = total_height ?s, box_w = item_width p e, box_h = item_height p e\<rparr>"
    using place_item_step(1) [OF refl, of p e width s] by (simp add: after_def)
  from item_boxes_after [OF Cons.prems(1) _ line this, of es] Cons.IH [OF Cons.prems(1) _ line] Cons.prems(2)
  show ?case by (simp add: Let_def)
qed simp

lemma legend_grows:
  assumes "0 \<le> p" "0 \<le> line_height s" "\<forall>e \<in> set es. 0 \<le> t_height e"
  shows "total_height s + line_height s \<le> (let s' = foldl (place_item p width) s es in total_height s' + line_height s')"
  using assms
proof (induction es arbitrary: s)
  case (Cons e es)
  have "0 \<le> item_height p e" using Cons.prems(1,3) by (simp add: item_height_def)
  then have "0 \<le> line_height (place_item p width s e)"
    "total_height s + line_height s \<le> total_height (place_item p width s e) + line_height (place_item p width s e)"
    using Cons.prems(2) by (auto simp: place_item_def Let_def)
  with Cons.IH [of "place_item p width s e"] Cons.prems(1,3) show ?case by (simp add: Let_def)
qed simp

lemma item_boxes_inside:
  assumes "0 \<le> p" "\<forall>e \<in> set es. 0 \<le> t_width e \<and> 0 \<le> t_height e \<and> p + item_width p e \<le> width"
    and "0 \<le> line_height s" "p \<le> line_used s" "p \<le> total_height s" "b \<in> set (item_boxes p width s es)"
  shows "p \<le> box_x b \<and> box_x b + box_w b \<le> width \<and> p \<le> box_y b
    \<and> box_y b + box_h b \<le> (let s' = foldl (place_item p width) s es in total_height s' + line_height s')"
  using assms
proof (induction es arbitrary: s)
  case (Cons e es)
  let ?s = "place_item p width s e"
  have size: "0 \<le> item_width p e" "0 \<le> item_height p e" using Cons.prems by (simp_all add: item_width_def item_height_def)
  have s: "0 \<le> line_height ?s" "p \<le> line_used ?s" "p \<le> total_height ?s"
    "p \<le> line_used ?s - item_width p e" "line_used ?s \<le> width"
    using Cons.prems(2-5) size by (auto simp: place_item_def Let_def)
  from Cons.prems(6) consider
    "b = \<lparr>box_x = line_used ?s - item_width p e, box_y = total_height ?s, box_w = item_width p e, box_h = item_height p e\<rparr>"
    | "b \<in> set (item_boxes p width ?s es)" by (auto simp: Let_def)
  then show ?case
  proof cases
    case 1
    then show ?thesis using s legend_grows [OF Cons.prems(1) s(1), of es width] Cons.prems(2) place_item_step(1) [OF refl, of p e width s]
      by (simp add: Let_def)
  next
    case 2
    with Cons.IH [of ?s] Cons.prems(1,2) s(1-3) show ?thesis by (simp add: Let_def)
  qed
qed simp


lemma draw_item_ops:
  "draw_item l s i label e =
    (case py_nth (legend_shades l) (int i) of None \<Rightarrow> Inl IndexError
     | Some c \<Rightarrow> Inr (item_ops (legend_padding l) \<lparr>box_x = line_used s - item_width (legend_padding l) e, box_y = total_height s,
         box_w = item_width (legend_padding l) e, box_h = item_height (legend_padding l) e\<rparr> label c))"
  by (simp add: draw_item_def item_ops_def item_height_def Let_def split: option.splits)

lemma draw_legend_loop:
  assumes "i + length texts \<le> length (legend_shades l)"
  shows "\<exists>s'. for_each (draw_legend_step ext l) (i, s, ops) texts =
    Inr (i + length texts, s', ops @ concat (map (\<lambda>(b, label, c). item_ops (legend_padding l) b label c)
      (zip (item_boxes (legend_padding l) (legend_width l) s (map ext texts))
        (zip texts (drop i (legend_shades l))))))"
  using assms
proof (induction texts arbitrary: i s ops)
  case (Cons label texts)
  then have i: "i < length (legend_shades l)" by simp
  then have shade: "drop i (legend_shades l) = legend_shades l ! i # drop (Suc i) (legend_shades l)"
    by (simp add: Cons_nth_drop_Suc)
  let ?p = "legend_padding l" and ?s = "place_item (legend_padding l) (legend_width l) s (ext label)"
  let ?b = "\<lparr>box_x = line_used ?s - item_width ?p (ext label), box_y = total_height ?s,
    box_w = item_width ?p (ext label), box_h = item_height ?p (ext label)\<rparr>"
  from Cons.IH [of "Suc i" ?s "ops @ item_ops ?p ?b label (legend_shades l ! i)"] Cons.prems show ?case
    by (simp add: draw_legend_step_def Let_def draw_item_ops py_nth_nat [OF i] shade)
qed simp

text \<open>
  The legend is drawn box by box as it was laid out: with a colour for every text and an area
  wide enough for each, no two boxes meet and all lie inside the width and the height that
  \<open>layout\<close> answers.
\<close>

theorem legend_boxes:
  assumes "0 \<le> legend_padding l" "length (legend_texts l) \<le> length (legend_shades l)"
    and "\<forall>e \<in> set (map ext (legend_texts l)). 0 \<le> t_width e \<and> 0 \<le> t_height e
      \<and> legend_padding l + item_width (legend_padding l) e \<le> width"
  shows "\<exists>boxes. draw_legend ext (layout_legend ext width l) =
      Inr (concat (map (\<lambda>(b, label, c). item_ops (legend_padding l) b label c)
        (zip boxes (zip (legend_texts l) (legend_shades l)))))
    \<and> length boxes = length (legend_texts l) \<and> sorted_wrt beside boxes
    \<and> (\<forall>b \<in> set boxes. legend_padding l \<le> box_x b \<and> box_x b + box_w b \<le> width
        \<and> legend_padding l \<le> box_y b \<and> box_y b + box_h b \<le> legend_height (layout_legend ext width l))"
proof -
  let ?p = "legend_padding l" and ?es = "map ext (legend_texts l)"
  let ?boxes = "item_boxes ?p width (legend_start ?p) ?es"
  let ?l = "layout_legend ext width l"
  have l: "legend_padding ?l = ?p" "legend_texts ?l = legend_texts l" "legend_shades ?l = legend_shades l" "legend_width ?l = width"
    by (simp_all add: layout_legend_def Let_def)
  have len: "length (item_boxes p w s es) = length es" for p w s es
    by (induction p w s es rule: item_boxes.induct) (simp_all add: Let_def)
  obtain s' where "for_each (draw_legend_step ext ?l) (0, legend_start ?p, []) (legend_texts l) =
      Inr (length (legend_texts l), s', concat (map (\<lambda>(b, label, c). item_ops ?p b label c)
        (zip ?boxes (zip (legend_texts l) (legend_shades l)))))"
    using draw_legend_loop [of 0 "legend_texts l" ?l ext "legend_start ?p" "[]"] assms(2) by (auto simp: l)
  then have "draw_legend ext ?l = Inr (concat (map (\<lambda>(b, label, c). item_ops ?p b label c)
      (zip ?boxes (zip (legend_texts l) (legend_shades l)))))"
    by (simp add: draw_legend_def l)
  moreover have "sorted_wrt beside ?boxes"
    using assms by (intro item_boxes_beside) (simp_all add: legend_start_def)
  moreover have "?p \<le> box_x b \<and> box_x b + box_w b \<le> width \<and> ?p \<le> box_y b \<and> box_y b + box_h b \<le> legend_height ?l"
    if "b \<in> set ?boxes" for b
    using item_boxes_inside [OF assms(1) assms(3) _ _ _ that] by (simp add: layout_legend_def legend_start_def Let_def)
  ultimately show ?thesis by (intro exI [of _ ?boxes]) (simp add: len)
qed

theorem legend_boxes_witness:
  "\<exists>boxes. length boxes = 2 \<and> sorted_wrt beside boxes \<and>
    draw_legend (\<lambda>t. \<lparr>y_bearing = 0, t_width = 20, t_height = 8\<rparr>)
      (layout_legend (\<lambda>t. \<lparr>y_bearing = 0, t_width = 20, t_height = 8\<rparr>) 100
        (set_legends [''idle'', ''busy''] [new_color 1 0 0, new_color 0 1 0] new_legend)) =
    Inr (concat (map (\<lambda>(b, label, c). item_ops 10 b label c)
      (zip boxes (zip [''idle'', ''busy''] [new_color 1 0 0, new_color 0 1 0]))))"
proof -
  let ?l = "set_legends [''idle'', ''busy''] [new_color 1 0 0, new_color 0 1 0] new_legend"
    and ?ext = "\<lambda>t. \<lparr>y_bearing = 0, t_width = 20, t_height = 8\<rparr>"
  have "\<exists>boxes. draw_legend ?ext (layout_legend ?ext 100 ?l) =
      Inr (concat (map (\<lambda>(b, label, c). item_ops (legend_padding ?l) b label c)
        (zip boxes (zip (legend_texts ?l) (legend_shades ?l)))))
    \<and> length boxes = length (legend_texts ?l) \<and> sorted_wrt beside boxes
    \<and> (\<forall>b \<in> set boxes. legend_padding ?l \<le> box_x b \<and> box_x b + box_w b \<le> 100
        \<and> legend_padding ?l \<le> box_y b \<and> box_y b + box_h b \<le> legend_height (layout_legend ?ext 100 ?l))"
    by (rule legend_boxes) (simp_all add: set_legends_def new_legend_def item_width_def)
  then obtain boxes where b: "draw_legend ?ext (layout_legend ?ext 100 ?l) =
      Inr (concat (map (\<lambda>(b, label, c). item_ops (legend_padding ?l) b label c)
        (zip boxes (zip (legend_texts ?l) (legend_shades ?l)))))"
    "length boxes = length (legend_texts ?l)" "sorted_wrt beside boxes" by blast
  have l: "legend_padding ?l = 10" "legend_texts ?l = [''idle'', ''busy'']"
    "legend_shades ?l = [new_color 1 0 0, new_color 0 1 0]" by (simp_all add: set_legends_def new_legend_def)
  from b show ?thesis unfolding l by (intro exI [of _ boxes]) simp
qed


section \<open>The height of the data\<close>

lemma cur_y_emit [simp]: "cur_y (emit ops s) = cur_y s" "cur_y (draw_name ext r x nm s) = cur_y s"
  "cur_y (grey_background r x y width height s) = cur_y s"
  by (simp_all add: emit_def draw_name_def grey_background_def)

lemma cur_y_next_line [simp]: "cur_y (next_line r step s) = cur_y s + step"
  by (simp add: next_line_def Let_def)

lemma cur_y_draw_events: "draw_events str r t x y width height s = Inr s' \<Longrightarrow> cur_y s' = cur_y s"
  by (auto simp: draw_events_def Let_def rbind_Inr_iff split: prod.splits)

lemma cur_y_draw_ranges: "draw_ranges v r t x y width height s = Inr s' \<Longrightarrow> cur_y s' = cur_y s"
  by (auto simp: draw_ranges_def Let_def rbind_Inr_iff split: prod.splits)

lemma cur_y_event_line:
  "draw_event_line ext str r s t = Inr s' \<Longrightarrow> cur_y s' = cur_y s + (max_text_height r + 5 + padding r)"
  by (auto simp: draw_event_line_def rbind_Inr_iff dest!: cur_y_draw_events)

lemma cur_y_range_line:
  "draw_range_line v ext r s t = Inr s' \<Longrightarrow> cur_y s' = cur_y s + (max_text_height r + padding r)"
  by (auto simp: draw_range_line_def rbind_Inr_iff dest!: cur_y_draw_ranges)

lemma sum_list_const: "sum_list (map (\<lambda>x. c) xs) = of_nat (length xs) * (c :: rat)"
  by (induction xs) (simp_all add: algebra_simps)

lemma cur_y_timeline:
  assumes "draw_timeline v ext r s t = Inr s'"
  shows "cur_y s' = cur_y s
    + (of_nat (length (event_int t) + length (event_str t)) * (max_text_height r + 5 + padding r)
       + of_nat (length (timeline_ranges t)) * (max_text_height r + padding r))"
proof -
  obtain s1 s2 s3 where lines:
    "for_each (draw_event_line ext show_int r) (draw_name ext r (padding r / 2) (timeline_name t) s) (event_int t) = Inr s1"
    "for_each (draw_event_line ext (\<lambda>x. x) r) s1 (event_str t) = Inr s2"
    "for_each (draw_range_line v ext r) s2 (timeline_ranges t) = Inr s3" "cur_y s' = cur_y s3"
    using assms by (auto simp: draw_timeline_def rbind_Inr_iff)
  have "cur_y s1 = cur_y (draw_name ext r (padding r / 2) (timeline_name t) s)
      + sum_list (map (\<lambda>_. max_text_height r + 5 + padding r) (event_int t))"
    by (rule for_each_sum [OF lines(1)]) (rule cur_y_event_line)
  moreover have "cur_y s2 = cur_y s1 + sum_list (map (\<lambda>_. max_text_height r + 5 + padding r) (event_str t))"
    by (rule for_each_sum [OF lines(2)]) (rule cur_y_event_line)
  moreover have "cur_y s3 = cur_y s2 + sum_list (map (\<lambda>_. max_text_height r + padding r) (timeline_ranges t))"
    by (rule for_each_sum [OF lines(3)]) (rule cur_y_range_line)
  ultimately show ?thesis by (simp add: lines(4) sum_list_const algebra_simps)
qed

lemma bottom_of_lines:
  assumes "draw_lines v ext r = Inr (r', bottom, ops)"
  shows "bottom = of_nat (n_events (lines_of r)) * (max_text_height r + 5 + padding r)
    + of_nat (n_ranges (lines_of r)) * (max_text_height r + padding r)"
proof -
  let ?w = "\<lambda>t. of_nat (length (event_int t) + length (event_str t)) * (max_text_height r + 5 + padding r)
       + of_nat (length (timeline_ranges t)) * (max_text_height r + padding r)"
  obtain s s' where "for_each (draw_timeline v ext r) s (lines_of r) = Inr s'" "cur_y s = padding r / 2"
    "bottom = cur_y s' - padding r / 2"
    using assms by (auto simp: draw_lines_def Let_def rbind_Inr_iff)
  moreover have "cur_y s' = cur_y s + sum_list (map ?w (lines_of r))"
    by (rule for_each_sum [OF calculation(1)]) (rule cur_y_timeline)
  ultimately have "bottom = sum_list (map ?w (lines_of r))" by simp
  also have "\<dots> = of_nat (n_events ts) * (max_text_height r + 5 + padding r)
    + of_nat (n_ranges ts) * (max_text_height r + padding r)" if "ts = lines_of r" for ts
    unfolding that [symmetric] by (induction ts) (simp_all add: n_events_def n_ranges_def algebra_simps)
  finally show ?thesis by simp
qed

text \<open>
  The height that \<open>layout\<close> answers against the height that \<open>draw\<close> needs for the lines.  The
  difference is the least of three amounts, so the drawing runs over its area exactly when there
  are lines of events, lines of ranges with a text higher than ten pixels, and the column of names
  is not the highest.
\<close>

theorem drawn_below_layout:
  assumes "draw_lines v ext (layout_lines ext width r) = Inr (r', bottom, ops)"
  shows "bottom - full_height (layout_lines ext width r) =
    (let mth = t_height (ext sample_text); p = padding r; n = of_nat (length (lines_of r))
     in min (bottom - (n * mth + (n - 1) * p) - p)
          (min (of_nat (n_events (lines_of r)) * 5) (of_nat (n_ranges (lines_of r)) * (mth - 10))))"
proof -
  let ?mth = "t_height (ext sample_text)"
  have "bottom = of_nat (n_events (lines_of r)) * (?mth + 5 + padding r) + of_nat (n_ranges (lines_of r)) * (?mth + padding r)"
    using bottom_of_lines [OF assms(1)] by (simp add: layout_lines_def Let_def)
  then show ?thesis
    by (simp add: layout_lines_def layout_height_def Let_def min_def max_def algebra_simps)
qed

definition demo_extents :: "string \<Rightarrow> extents" where
  "demo_extents label = \<lparr>y_bearing = 0, t_width = 20, t_height = 12\<rparr>"

definition demo_renderer :: renderer where
  "demo_renderer = set_timelines [new_timeline ''node''\<lparr>timeline_ranges := [new_timeline_data_range ''rx''],
     event_int := [new_timeline_event ''tx'']\<rparr>] new_colors new_renderer"

theorem drawn_below_layout_witness:
  "\<exists>r' bottom ops. draw_lines Py2 demo_extents (layout_lines demo_extents 100 demo_renderer) = Inr (r', bottom, ops)
    \<and> bottom - full_height (layout_lines demo_extents 100 demo_renderer) = 2"
proof -
  have "\<not> (case draw_lines Py2 demo_extents (layout_lines demo_extents 100 demo_renderer) of Inl e \<Rightarrow> True | Inr x \<Rightarrow> False)"
    by code_simp
  then obtain r' bottom ops where draw:
    "draw_lines Py2 demo_extents (layout_lines demo_extents 100 demo_renderer) = Inr (r', bottom, ops)"
    by (auto split: sum.splits)
  moreover have "bottom = 49" using bottom_of_lines [OF draw]
    by (simp add: layout_lines_def demo_renderer_def set_timelines_def n_events_def n_ranges_def demo_extents_def
        new_renderer_def new_timeline_def Let_def)
  ultimately show ?thesis using drawn_below_layout [OF draw]
    by (simp add: demo_renderer_def set_timelines_def n_events_def n_ranges_def demo_extents_def
        new_renderer_def new_timeline_def Let_def)
qed

section \<open>The ranges in the window\<close>

lemma slice_of_ranges:
  "(case get_ranges_bounds t a b of (lo, hi) \<Rightarrow> py_slice (ranges t) lo hi) = get_ranges t a b"
  by (simp add: get_ranges_bounds_def get_ranges_def Let_def py_slice_def slice_bound_def)

text \<open>The rectangles of a drawing lie between two columns and are not turned around.\<close>

definition rects_inside :: "rat \<Rightarrow> rat \<Rightarrow> draw_op list \<Rightarrow> bool" where
  "rects_inside l u ops =
     list_all (\<lambda>op. case op of Rectangle x y w h \<Rightarrow> l \<le> x \<and> 0 \<le> w \<and> x + w \<le> u | _ \<Rightarrow> True) ops"

lemma rects_inside_append [simp]:
  "rects_inside l u (ops @ ops') \<longleftrightarrow> rects_inside l u ops \<and> rects_inside l u ops'" "rects_inside l u []"
  by (simp_all add: rects_inside_def)

lemma pixel_of_inside:
  assumes "0 \<le> x" "0 \<le> width" "win_start r < win_end r"
  obtains f where "\<And>t. pixel_of r x width t = Inr (f t)" "\<And>t u. t \<le> u \<Longrightarrow> f t \<le> f u"
    "f (win_start r) = cut x" "of_int (f (win_end r)) \<le> x + width"
proof
  let ?f = "\<lambda>t. cut (x + (t - win_start r) * width / (win_end r - win_start r))"
  show "pixel_of r x width t = Inr (?f t)" for t using assms(3) by (simp add: pixel_of_def)
  show "?f t \<le> ?f u" if "t \<le> u" for t u
    using that assms by (intro cut_mono add_left_mono divide_right_mono mult_right_mono) simp_all
  show "?f (win_start r) = cut x" by simp
  show "of_int (?f (win_end r)) \<le> x + width"
    using assms cut_bounds(1) [of "x + width"] by simp
qed

lemma draw_range_inside:
  assumes win: "0 \<le> x" "0 \<le> width" "win_start r < win_end r"
    and meets: "win_start r \<le> of_int (range_end d)" "of_int (range_start d) \<le> win_end r" "range_start d \<le> range_end d"
    and draw: "draw_range v r x y width (last_x, cs, ops) d = Inr (last_x', cs', ops')"
    and "rects_inside (of_int (cut x)) (x + width) ops"
  shows "rects_inside (of_int (cut x)) (x + width) ops'"
proof -
  from pixel_of_inside [OF win] obtain f where f: "\<And>t. pixel_of r x width t = Inr (f t)"
    "\<And>t u. t \<le> u \<Longrightarrow> f t \<le> f u" "f (win_start r) = cut x" "of_int (f (win_end r)) \<le> x + width" by blast
  let ?s = "max (of_int (range_start d)) (win_start r)" and ?e = "min (of_int (range_end d)) (win_end r)"
  have "(of_int (range_start d) :: rat) \<le> of_int (range_end d)" using meets(3) by simp
  then have "?s \<le> ?e" using meets win(3) by simp
  then have "f ?s \<le> f ?e" "cut x \<le> f ?s" "f ?e \<le> f (win_end r)"
    using f(2) [of "win_start r" ?s] by (auto simp: f(3) intro!: f(2))
  moreover have "(of_int (f ?e) :: rat) \<le> of_int (f (win_end r))" using calculation(3) by simp
  ultimately show ?thesis
    using draw assms(8) f(4)
    by (auto simp: draw_range_def Let_def f(1) rbind_Inr_iff rects_inside_def split: if_splits)
qed

text \<open>
  When a range holds each end of the window, every rectangle of \<open>draw_ranges\<close> lies in the data
  area and none is turned around.
\<close>

theorem draw_ranges_inside:
  assumes "0 \<le> x" "0 \<le> width" "win_start r < win_end r" "ranges_ok (ranges t)"
    and "\<exists>d \<in> set (ranges t). in_range (win_start r) d" "\<exists>d \<in> set (ranges t). in_range (win_end r) d"
    and "draw_ranges v r t x y width height s = Inr s'"
  shows "\<exists>ops. drawn s' = drawn s @ ops \<and> rects_inside (of_int (cut x)) (x + width) ops"
proof -
  let ?in = "rects_inside (of_int (cut x)) (x + width)"
  let ?hits = "filter (\<lambda>d. win_start r \<le> of_int (range_end d) \<and> of_int (range_start d) \<le> win_end r) (ranges t)"
  have hits: "(case get_ranges_bounds t (win_start r) (win_end r) of (lo, hi) \<Rightarrow> py_slice (ranges t) lo hi) = ?hits"
    unfolding slice_of_ranges using assms by (intro get_ranges_covered)
  have loop: "?in ops'" if "for_each (draw_range v r x y width) (lx, cs, ops) ds = Inr (lx', cs', ops')" "?in ops"
    "set ds \<subseteq> set ?hits" for lx cs ops ds lx' cs' ops'
    using that
  proof (induction ds arbitrary: lx cs ops)
    case (Cons d ds)
    then obtain lx1 cs1 ops1 where step: "draw_range v r x y width (lx, cs, ops) d = Inr (lx1, cs1, ops1)"
      "for_each (draw_range v r x y width) (lx1, cs1, ops1) ds = Inr (lx', cs', ops')"
      by (auto simp: rbind_Inr_iff)
    have d: "win_start r \<le> of_int (range_end d)" "of_int (range_start d) \<le> win_end r" "range_start d \<le> range_end d"
      using Cons.prems(3) assms(4) by (auto simp: ranges_ok_def)
    from Cons.IH [OF step(2) draw_range_inside [OF assms(1-3) d step(1) Cons.prems(2)]] Cons.prems(3)
    show ?case by simp
  qed simp
  obtain lx cs ops where ops:
    "for_each (draw_range v r x y width) (cut (x - 1), pen_colors (grey_background r x y width height s), []) ?hits = Inr (lx, cs, ops)"
    "drawn s' = drawn (grey_background r x y width height s) @ ops"
    using assms(7) hits by (auto simp: draw_ranges_def Let_def rbind_Inr_iff emit_def split: prod.splits)
  have "cut x \<le> \<lfloor>x\<rfloor>" using assms(1) by (simp add: cut_def)
  then have "?in [Rectangle x (y - padding r / 2) width (height + padding r), SetSourceRgb (9 / 10) (9 / 10) (9 / 10), Fill]"
    using assms(1,2) cut_bounds(1) [of x] by (simp add: rects_inside_def)
  then obtain bg where "drawn (grey_background r x y width height s) = drawn s @ bg" "?in bg"
    unfolding grey_background_def emit_def by (cases "grey s mod 2 = 0") auto
  with ops loop [OF ops(1)] show ?thesis by (intro exI [of _ "bg @ ops"]) simp
qed

theorem draw_ranges_inside_witness:
  "\<exists>s' ops. draw_ranges Py2 (set_render_range 1 8 new_renderer)
      \<lparr>range_name = ''rx'', ranges = [\<lparr>range_start = 0, range_end = 4, range_value = ''a''\<rparr>,
         \<lparr>range_start = 5, range_end = 9, range_value = ''b''\<rparr>]\<rparr> 50 0 70 10
      \<lparr>cur_y = 0, grey = 1, pen_colors = new_colors, drawn = []\<rparr> = Inr s'
    \<and> drawn s' = ops \<and> rects_inside 50 120 ops"
proof -
  let ?r = "set_render_range 1 8 new_renderer" and ?s = "\<lparr>cur_y = 0, grey = 1, pen_colors = new_colors, drawn = []\<rparr>"
  let ?t = "\<lparr>range_name = ''rx'', ranges = [\<lparr>range_start = 0, range_end = 4, range_value = ''a''\<rparr>,
         \<lparr>range_start = 5, range_end = 9, range_value = ''b''\<rparr>]\<rparr>"
  have "\<not> (case draw_ranges Py2 ?r ?t 50 0 70 10 ?s of Inl e \<Rightarrow> True | Inr x \<Rightarrow> False)" by code_simp
  then obtain s' where draw: "draw_ranges Py2 ?r ?t 50 0 70 10 ?s = Inr s'" by (auto split: sum.splits)
  have "\<exists>ops. drawn s' = drawn ?s @ ops \<and> rects_inside (of_int (cut 50)) (50 + 70) ops"
    by (rule draw_ranges_inside [OF _ _ _ _ _ _ draw])
      (simp_all add: set_render_range_def new_renderer_def ranges_ok_def in_range_def)
  with draw show ?thesis by (auto simp: cut_def)
qed

text \<open>
  When no range holds the end of the window, a range behind it is drawn all the same, from beyond
  the right edge back to it.
\<close>

lemma draw_ranges_turned_around:
  "draw_range Py2 (set_render_range 1 8 new_renderer) 50 0 70 (50, new_colors, []) \<lparr>range_start = 15, range_end = 19, range_value = ''a''\<rparr> =
    Inr (120, add_color ''a'' (new_color 0 1 1) new_colors\<lparr>default_colors := butlast (default_colors new_colors)\<rparr>,
      [Rectangle 190 0 (- 70) 10, SetSourceRgb 0 0 0, StrokePreserve, SetSourceRgb 0 1 1, Fill])"
  by code_simp

end
