(* ===== verification/GridGraphic.thy ===== *)
theory GridGraphic
  imports GridRender
begin

text \<open>
  The scales and the whole picture of the timeline viewer, \<open>utils/grid.py\<close> lines 847 to 1241:
  \<open>ScaleRenderer\<close> with its marks, and \<open>GraphicRenderer\<close>, which holds the range that is shown, lays
  the parts out and draws them.  Where the script divides, the numbers are \<open>num\<close>, since an
  integer range is divided in another way than one of floating point numbers.
\<close>

section \<open>ScaleRenderer\<close>

record scale =
  scale_top :: bool
  scale_lo :: num
  scale_hi :: num
  scale_delta :: num
  scale_width :: num
  scale_height :: rat

definition new_scale :: scale where
  "new_scale = \<lparr>scale_top = False, scale_lo = I 0, scale_hi = I 0, scale_delta = I 0, scale_width = I 0, scale_height = 0\<rparr>"

definition set_bounds :: "num \<Rightarrow> num \<Rightarrow> scale \<Rightarrow> scale" where
  "set_bounds lo hi s = s\<lparr>scale_lo := lo, scale_hi := hi\<rparr>"

definition get_position :: "python \<Rightarrow> scale \<Rightarrow> num \<Rightarrow> py_error + num" where
  "get_position v s x =
     num_div v (num_mul (num_sub x (scale_lo s)) (scale_width s)) (num_sub (scale_hi s) (scale_lo s))"

definition set_top :: "scale \<Rightarrow> scale" where
  "set_top s = s\<lparr>scale_top := True\<rparr>"

definition set_bot :: "scale \<Rightarrow> scale" where
  "set_bot s = s\<lparr>scale_top := False\<rparr>"

text \<open>The loop \<open>while (closest*10) < data_delta\<close>; \<open>closest\<close> starts at one and is always positive.\<close>

function closest_power :: "int \<Rightarrow> rat \<Rightarrow> int" where
  "closest_power closest d = (if 0 < closest \<and> of_int (closest * 10) < d then closest_power (closest * 10) d else closest)"
  by auto
termination
proof (relation "measure (\<lambda>(closest, d). nat (\<lceil>d\<rceil> - closest))")
  fix closest :: int and d :: rat
  assume "0 < closest \<and> of_int (closest * 10) < d"
  then have "0 < closest" "closest * 10 < \<lceil>d\<rceil>" by (simp_all only: less_ceiling_iff)
  then show "((closest * 10, d), closest, d) \<in> measure (\<lambda>(closest, d). nat (\<lceil>d\<rceil> - closest))" by simp
qed simp

declare closest_power.simps [simp del]

definition choose_delta :: "python \<Rightarrow> num \<Rightarrow> py_error + num" where
  "choose_delta v data_delta =
     (let closest = I (closest_power 1 (num_val data_delta))
      in rbind (num_div v data_delta closest) (\<lambda>q.
         if num_val q = 0 then Inr closest
         else if num_val q = 1 then num_div v closest (I 10)
         else Inr closest))"

text \<open>The first mark behind the lower bound, and the last one up to the upper bound.\<close>

definition first_mark :: "num \<Rightarrow> num \<Rightarrow> py_error + num" where
  "first_mark lo delta = rbind (num_mod lo delta) (\<lambda>m. Inr (num_add (num_sub lo m) delta))"

definition last_mark :: "num \<Rightarrow> num \<Rightarrow> py_error + num" where
  "last_mark hi delta = rbind (num_mod hi delta) (\<lambda>m. Inr (num_sub hi m))"

definition layout_scale :: "python \<Rightarrow> (string \<Rightarrow> extents) \<Rightarrow> num \<Rightarrow> scale \<Rightarrow> py_error + scale" where
  "layout_scale v ext width s =
     rbind (choose_delta v (num_sub (scale_hi s) (scale_lo s))) (\<lambda>delta.
     rbind (first_mark (scale_lo s) delta) (\<lambda>start.
     rbind (last_mark (scale_hi s) delta) (\<lambda>end.
       Inr (s\<lparr>scale_delta := delta, scale_width := width, scale_height := t_height (ext sample_text) + 10\<rparr>))))"

text \<open>\<open>range(lo, hi, step)\<close>\<close>

definition py_range :: "int \<Rightarrow> int \<Rightarrow> int \<Rightarrow> py_error + int list" where
  "py_range lo hi step =
     (if step = 0 then Inl ValueError
      else Inr (map (\<lambda>k. lo + int k * step)
        [0..<nat (if 0 < step then (hi - lo + step - 1) div step else (lo - hi - step - 1) div (- step))]))"

definition marks :: "scale \<Rightarrow> num \<Rightarrow> py_error + int list" where
  "marks s delta =
     rbind (first_mark (scale_lo s) delta) (\<lambda>start.
     rbind (last_mark (scale_hi s) delta) (\<lambda>end.
       py_range (num_int start) (num_int (num_add end delta)) (num_int delta)))"

definition draw_tick :: "python \<Rightarrow> (string \<Rightarrow> extents) \<Rightarrow> scale \<Rightarrow> draw_op list \<Rightarrow> int \<Rightarrow> py_error + draw_op list" where
  "draw_tick v ext s ops x =
     rbind (get_position v s (I x)) (\<lambda>real_x.
       let real_x = num_val real_x; e = ext (show_int x);
           sgn = (if scale_top s then - 1 else 1);
           text_delta = (if scale_top s then t_height e + y_bearing e else - y_bearing e)
       in Inr (ops @ [MoveTo real_x 0, LineTo real_x (5 * sgn), ClosePath, Stroke,
            MoveTo (real_x - t_width e / 2) ((5 + 5 + text_delta) * sgn), ShowText (show_int x)]))"

definition draw_subtick :: "python \<Rightarrow> scale \<Rightarrow> draw_op list \<Rightarrow> int \<Rightarrow> py_error + draw_op list" where
  "draw_subtick v s ops x =
     rbind (get_position v s (I x)) (\<lambda>real_x.
       let real_x = num_val real_x; sgn = (if scale_top s then - 1 else 1)
       in Inr (ops @ [MoveTo real_x 0, LineTo real_x (3 * sgn), ClosePath, Stroke]))"

definition draw_scale :: "python \<Rightarrow> (string \<Rightarrow> extents) \<Rightarrow> scale \<Rightarrow> py_error + draw_op list" where
  "draw_scale v ext s =
     rbind (marks s (scale_delta s)) (\<lambda>ticks.
     rbind (for_each (draw_tick v ext s) [SetSourceRgb 0 0 0, SetLineWidth 1] ticks) (\<lambda>ops.
     rbind (num_div v (scale_delta s) (I 10)) (\<lambda>delta.
     if 0 < num_val delta
     then rbind (marks s delta) (\<lambda>subticks. for_each (draw_subtick v s) ops subticks)
     else Inr ops)))"

section \<open>GraphicRenderer\<close>

record graphic =
  all_start :: num
  all_end :: num
  mid_scale :: scale
  bot_scale :: scale
  pic_width :: num
  pic_height :: num
  r_start :: num
  r_end :: num
  data_part :: renderer
  legend_part :: legend

definition new_graphic :: "num \<Rightarrow> num \<Rightarrow> graphic" where
  "new_graphic lo hi = \<lparr>all_start = F (num_val lo), all_end = F (num_val hi), mid_scale = set_top new_scale,
     bot_scale = set_bot (set_bounds lo hi new_scale), pic_width = I 1, pic_height = I 1,
     r_start = I 0, r_end = I 0, data_part = new_renderer, legend_part = new_legend\<rparr>"

text \<open>Rectangles are \<open>(x, y, width, height)\<close>.\<close>

definition get_data_rectangle :: "graphic \<Rightarrow> rat \<times> rat \<times> rat \<times> rat" where
  "get_data_rectangle g =
     (let x_start = get_data_x_start (data_part g)
      in (x_start, legend_height (legend_part g), num_val (pic_width g) - x_start, full_height (data_part g)))"

definition scale_data :: "python \<Rightarrow> graphic \<Rightarrow> num \<Rightarrow> py_error + num" where
  "scale_data v g x =
     rbind (num_div v x (num_sub (pic_width g) (F (get_data_x_start (data_part g))))) (\<lambda>q.
       Inr (num_mul q (num_sub (r_end g) (r_start g))))"

definition get_selection_rectangle :: "python \<Rightarrow> graphic \<Rightarrow> py_error + (num \<times> rat \<times> num \<times> rat)" where
  "get_selection_rectangle v g =
     (let y_start = legend_height (legend_part g) + full_height (data_part g) + scale_height (mid_scale g) + 20;
          y_height = scale_height (bot_scale g) + 20
      in rbind (get_position v (bot_scale g) (r_start g)) (\<lambda>x_start.
         rbind (get_position v (bot_scale g) (r_end g)) (\<lambda>x_end.
           Inr (x_start, y_start, num_sub x_end x_start, y_height))))"

definition scale_selection :: "python \<Rightarrow> graphic \<Rightarrow> num \<Rightarrow> py_error + num" where
  "scale_selection v g x =
     rbind (num_div v x (pic_width g)) (\<lambda>q. Inr (num_mul q (num_sub (all_end g) (all_start g))))"

text \<open>The attributes are set part by part, so a scale that raises leaves those before it laid out.\<close>

definition layout_graphic ::
  "python \<Rightarrow> (string \<Rightarrow> extents) \<Rightarrow> num \<Rightarrow> num \<Rightarrow> graphic \<Rightarrow> (py_error, unit, graphic) outcome" where
  "layout_graphic v ext width height g =
     (let g = g\<lparr>pic_width := width, pic_height := height\<rparr>;
          g = g\<lparr>legend_part := layout_legend ext (num_val width) (legend_part g)\<rparr>;
          g = g\<lparr>data_part := layout_lines ext (num_val width) (data_part g)\<rparr>
      in attempt (layout_scale v ext (num_sub width (F (get_data_x_start (data_part g)))) (mid_scale g)) g (\<lambda>mid.
         let g = g\<lparr>mid_scale := mid\<rparr>
         in attempt (layout_scale v ext width (bot_scale g)) g (\<lambda>bot. (Inr (), g\<lparr>bot_scale := bot\<rparr>))))"

definition set_range ::
  "python \<Rightarrow> (string \<Rightarrow> extents) \<Rightarrow> num \<Rightarrow> num \<Rightarrow> graphic \<Rightarrow> (py_error, unit, graphic) outcome" where
  "set_range v ext a b g =
     (let s = num_min a b; e = num_max a b;
          lo = num_max (all_start g) s; hi = num_min (all_end g) e
      in layout_graphic v ext (pic_width g) (pic_height g)
           (g\<lparr>r_start := lo, r_end := hi, data_part := set_render_range (num_val lo) (num_val hi) (data_part g),
              mid_scale := set_bounds lo hi (mid_scale g)\<rparr>))"

definition get_range_shown :: "graphic \<Rightarrow> num \<times> num" where
  "get_range_shown g = (r_start g, r_end g)"

definition set_data :: "renderer \<Rightarrow> graphic \<Rightarrow> graphic" where
  "set_data d g = g\<lparr>data_part := d\<rparr>"

definition set_top_legend :: "legend \<Rightarrow> graphic \<Rightarrow> graphic" where
  "set_top_legend l g = g\<lparr>legend_part := l\<rparr>"

text \<open>\<open>draw\<close>, part by part in its order.\<close>

definition draw_background :: "graphic \<Rightarrow> draw_op list" where
  "draw_background g =
     [Save, SetSourceRgb 1 1 1, SetOperatorSource, Rectangle 0 0 (num_val (pic_width g)) (num_val (pic_height g)), Fill]"

definition draw_separation :: "graphic \<Rightarrow> draw_op list" where
  "draw_separation g =
     (let h = legend_height (legend_part g)
      in [MoveTo 0 h, LineTo (num_val (pic_width g)) h, ClosePath, SetLineWidth 2, SetSourceRgb 0 0 0, Stroke])"

definition draw_pane_lines :: "graphic \<Rightarrow> rat \<Rightarrow> draw_op list" where
  "draw_pane_lines g h =
     [MoveTo (get_data_x_start (data_part g)) h, RelLineTo 0 (- scale_height (mid_scale g)), ClosePath,
      SetSourceRgb 0 0 0, SetLineWidth 2, Stroke,
      MoveTo 0 h, LineTo (num_val (pic_width g)) h, ClosePath, SetLineWidth 2, SetSourceRgb 0 0 0, Stroke]"

definition draw_connections :: "graphic \<Rightarrow> rat \<Rightarrow> rat \<Rightarrow> rat \<Rightarrow> draw_op list" where
  "draw_connections g h select_start select_end =
     (let w = num_val (pic_width g)
      in [MoveTo 0 h, LineTo (get_data_x_start (data_part g)) h, LineTo select_start (h + 20), LineTo 0 (h + 20), LineTo 0 h,
          SetSourceRgb 0 0 0, SetLineWidth 1, StrokePreserve, SetSourceRgb (9 / 10) (9 / 10) (9 / 10), Fill,
          MoveTo w h, LineTo w (h + 20), LineTo select_end (h + 20), LineTo w h,
          SetSourceRgb 0 0 0, SetLineWidth 1, StrokePreserve, SetSourceRgb (9 / 10) (9 / 10) (9 / 10), Fill])"

definition draw_unused :: "graphic \<Rightarrow> rat \<Rightarrow> rat \<Rightarrow> rat \<Rightarrow> draw_op list" where
  "draw_unused g h unused_start unused_end =
     (let w = num_val (pic_width g); unused_height = scale_height (bot_scale g) + 20
      in [Rectangle 0 h unused_start unused_height, Rectangle unused_end h (w - unused_end) unused_height,
          SetSourceRgb (9 / 10) (9 / 10) (9 / 10), Fill,
          MoveTo unused_end h, LineTo w h, LineTo w (h + unused_height), LineTo 0 (h + unused_height), LineTo 0 h,
          LineTo unused_start h, ClosePath, SetLineWidth 2, SetSourceRgb 0 0 0, Stroke,
          MoveTo unused_start h, LineTo unused_end h, ClosePath, SetLineWidth 1,
          SetSourceRgb (9 / 10) (9 / 10) (9 / 10), Stroke,
          Save, MoveTo (max unused_start 2) h, RelLineTo 0 unused_height, MoveTo (min unused_end (w - 2)) h,
          RelLineTo 0 unused_height, SetDash [5] 0, SetSourceRgb 0 0 0, SetLineWidth 1, Stroke, Restore])"

definition draw_graphic :: "python \<Rightarrow> (string \<Rightarrow> extents) \<Rightarrow> graphic \<Rightarrow> py_error + (graphic \<times> draw_op list)" where
  "draw_graphic v ext g =
     rbind (draw_legend ext (legend_part g)) (\<lambda>legend_ops.
     rbind (draw_lines v ext (data_part g)) (\<lambda>(d, bot_y, data_ops).
     rbind (draw_scale v ext (mid_scale g)) (\<lambda>mid_ops.
     rbind (get_position v (bot_scale g) (r_start g)) (\<lambda>x_start.
     rbind (get_position v (bot_scale g) (r_end g)) (\<lambda>x_end.
     rbind (draw_scale v ext (bot_scale g)) (\<lambda>bot_ops.
       let legend_h = legend_height (legend_part g);
           used = legend_h + full_height (data_part g) + scale_height (mid_scale g)
       in Inr (g\<lparr>data_part := d\<rparr>,
            draw_background g
            @ [Save] @ legend_ops @ [Restore] @ draw_separation g
            @ [Save, Translate 0 legend_h] @ data_ops @ [Restore]
            @ [Save, Translate (get_data_x_start (data_part g)) used] @ mid_ops @ [Restore]
            @ draw_pane_lines g used
            @ draw_connections g used (num_val x_start) (num_val x_end)
            @ draw_unused g (used + 20) (num_val x_start) (num_val x_end)
            @ [Save, Translate 0 (used + 20)] @ bot_ops @ [Restore])))))))"

definition x_pixel :: "python \<Rightarrow> graphic \<Rightarrow> num \<Rightarrow> num \<Rightarrow> py_error + num" where
  "x_pixel v g x width =
     num_div v (num_mul (num_sub x (all_start g)) width) (num_sub (all_end g) (all_start g))"


section \<open>The marks of a scale\<close>

lemma closest_power_result:
  "0 < c \<Longrightarrow> \<exists>k. closest_power c d = c * 10 ^ k \<and> d \<le> of_int (c * 10 ^ k * 10) \<and> (k = 0 \<or> of_int (c * 10 ^ k) < d)"
proof (induction c d rule: closest_power.induct)
  case (1 c d)
  show ?case
  proof (cases "of_int (c * 10) < d")
    case True
    then have step: "closest_power c d = closest_power (c * 10) d" using 1(2) by (subst closest_power.simps) simp
    have "0 < c * 10" using 1(2) by simp
    from 1(1) [OF conjI [OF 1(2) True] this] obtain k where k: "closest_power (c * 10) d = c * 10 * 10 ^ k"
      "d \<le> of_int (c * 10 * 10 ^ k * 10)" "k = 0 \<or> of_int (c * 10 * 10 ^ k) < d" by (elim exE conjE)
    have pow: "c * 10 ^ Suc k = c * 10 * 10 ^ k" by simp
    from k(3) True have "of_int (c * 10 * 10 ^ k) < d" by (cases k) simp_all
    with k(1,2) show ?thesis unfolding step by (intro exI [of _ "Suc k"]) (simp only: pow simp_thms)
  next
    case False
    then have "closest_power c d = c" by (subst closest_power.simps) simp
    with False show ?thesis by (intro exI [of _ 0]) simp
  qed
qed

lemma choose_delta_result:
  assumes "0 < num_val dd"
  shows "num_val dd = 1 \<Longrightarrow> choose_delta Py2 dd = Inr (I 0)"
    and "num_val dd \<noteq> 1 \<Longrightarrow> \<exists>k. choose_delta Py2 dd = Inr (I (10 ^ k)) \<and> num_val dd \<le> 20 * 10 ^ k \<and> (k = 0 \<or> 10 ^ k < num_val dd)"
proof -
  obtain k where k: "closest_power 1 (num_val dd) = 10 ^ k" "num_val dd \<le> of_int (10 ^ k * 10)"
    "k = 0 \<or> of_int (10 ^ k) < num_val dd" using closest_power_result [of 1 "num_val dd"] by auto
  show "choose_delta Py2 dd = Inr (I 0)" if "num_val dd = 1"
  proof -
    have "closest_power 1 (num_val dd) = 1" by (simp add: that closest_power.simps)
    with that show ?thesis by (cases dd) (simp_all add: choose_delta_def num_div.simps Let_def)
  qed
  assume ne: "num_val dd \<noteq> 1"
  show "\<exists>k. choose_delta Py2 dd = Inr (I (10 ^ k)) \<and> num_val dd \<le> 20 * 10 ^ k \<and> (k = 0 \<or> 10 ^ k < num_val dd)"
  proof (cases dd)
    case (F q)
    then have "q \<noteq> 10 ^ k" using k(3) ne by (cases k) auto
    then show ?thesis using assms k F
      by (intro exI [of _ k]) (auto simp: choose_delta_def num_div.simps Let_def)
  next
    case (I n)
    then have n: "0 < n" "n \<noteq> 1" using assms ne by simp_all
    have n4: "k = 0 \<or> 10 ^ k < n" using k(3) I by (simp only: num_val.simps of_int_less_iff)
    show ?thesis
    proof (cases "n div 10 ^ k = 1")
      case True
      then obtain m where m: "k = Suc m" using n(2) by (cases k) auto
      have "10 ^ k * 1 + n mod 10 ^ k = n" using mult_div_mod_eq [of "10 ^ k" n] unfolding True .
      moreover have "n mod 10 ^ k < 10 ^ k" by simp
      ultimately have "n < 10 ^ k + 10 ^ k" by linarith
      then have "n < 20 * 10 ^ m" unfolding m power_Suc by linarith
      then have "rat_of_int n < of_int (20 * 10 ^ m)" by (simp only: of_int_less_iff)
      moreover have "10 * 10 ^ m < n" "(0 :: int) < 10 ^ m" using n4 m by simp_all
      then have "(10 ^ m :: int) < n" by linarith
      then have "(of_int (10 ^ m) :: rat) < of_int n" by (simp only: of_int_less_iff)
      ultimately show ?thesis using I True m k(1)
        by (intro exI [of _ m]) (simp add: choose_delta_def num_div.simps Let_def)
    next
      case False
      have "n div 10 ^ k \<noteq> 0" using n(1) n4 by (auto simp: zdiv_eq_0_iff)
      moreover have "(10 ^ k * 10 :: rat) \<le> 20 * 10 ^ k" by simp
      then have "num_val dd \<le> 20 * 10 ^ k" using k(2) by (simp only: of_int_mult of_int_power of_int_numeral)
      ultimately show ?thesis using False k(1,3) I
        by (intro exI [of _ k]) (simp add: choose_delta_def num_div.simps Let_def)
    qed
  qed
qed


lemma marks_positions:
  assumes "0 < d"
  shows "marks s (I d) = Inr (map ((*) d)
    [\<lfloor>num_val (scale_lo s) / of_int d\<rfloor> + 1..\<lfloor>num_val (scale_hi s) / of_int d\<rfloor>])"
proof -
  let ?l = "\<lfloor>num_val (scale_lo s) / of_int d\<rfloor>" and ?h = "\<lfloor>num_val (scale_hi s) / of_int d\<rfloor>"
  have first: "\<exists>f. first_mark n (I d) = Inr f \<and> num_int f = d * \<lfloor>num_val n / of_int d\<rfloor> + d" for n
    using assms by (cases n) (auto simp: first_mark_def num_mod.simps cut_def floor_divide_of_int_eq
        minus_mod_eq_mult_div simp flip: of_int_mult of_int_add)
  have last: "\<exists>f. last_mark n (I d) = Inr f \<and> num_int (num_add f (I d)) = d * \<lfloor>num_val n / of_int d\<rfloor> + d" for n
    using assms by (cases n) (auto simp: last_mark_def num_mod.simps cut_def floor_divide_of_int_eq
        minus_mod_eq_mult_div simp flip: of_int_mult of_int_add)
  have "(d * ?h + d - (d * ?l + d) + d - 1) div d = ?h - ?l"
  proof -
    have "d * ?h + d - (d * ?l + d) + d - 1 = (d - 1) + (?h - ?l) * d" by (simp add: algebra_simps)
    then show ?thesis using assms by (simp only: div_mult_self1) simp
  qed
  moreover have "map (\<lambda>k. d * ?l + d + int k * d) [0..<nat (?h - ?l)] = map ((*) d) [?l + 1..?h]"
  proof (rule nth_equalityI)
    fix i assume "i < length (map (\<lambda>k. d * ?l + d + int k * d) [0..<nat (?h - ?l)])"
    then show "map (\<lambda>k. d * ?l + d + int k * d) [0..<nat (?h - ?l)] ! i = map ((*) d) [?l + 1..?h] ! i"
      by (simp add: algebra_simps)
  qed simp
  moreover have "(d = 0) = False" using assms by simp
  ultimately have "py_range (d * ?l + d) (d * ?h + d) d = Inr (map ((*) d) [?l + 1..?h])"
    by (simp only: py_range_def if_False if_True assms)
  then show ?thesis
    using first [of "scale_lo s"] last [of "scale_hi s"] by (auto simp: marks_def)
qed

text \<open>
  The scale under Python 2: a range of exactly one unit ends with a division by zero.  For every other range
  the distance of the marks is a power of ten, and there are at most twenty of them, exactly the
  multiples of the distance above the lower bound and up to the upper one.
\<close>

theorem scale_marks:
  assumes "num_val (scale_lo s) < num_val (scale_hi s)"
  shows "if num_val (scale_hi s) - num_val (scale_lo s) = 1
    then layout_scale Py2 ext w s = Inl ZeroDivisionError
    else \<exists>k s' xs. layout_scale Py2 ext w s = Inr s' \<and> scale_delta s' = I (10 ^ k)
      \<and> marks s' (scale_delta s') = Inr xs \<and> length xs \<le> 20 \<and> sorted xs
      \<and> set xs = {x. 10 ^ k dvd x \<and> num_val (scale_lo s) < of_int x \<and> of_int x \<le> num_val (scale_hi s)}"
proof (cases "num_val (scale_hi s) - num_val (scale_lo s) = 1")
  case True
  then show ?thesis
    using choose_delta_result(1) [of "num_sub (scale_hi s) (scale_lo s)"]
    by (simp add: layout_scale_def first_mark_def num_mod.simps)
next
  case False
  let ?lo = "num_val (scale_lo s)" and ?hi = "num_val (scale_hi s)"
  obtain k where k: "choose_delta Py2 (num_sub (scale_hi s) (scale_lo s)) = Inr (I (10 ^ k))" "?hi - ?lo \<le> 20 * 10 ^ k"
    using choose_delta_result(2) [of "num_sub (scale_hi s) (scale_lo s)"] assms False by auto
  let ?d = "10 ^ k :: int"
  let ?xs = "map ((*) ?d) [\<lfloor>?lo / of_int ?d\<rfloor> + 1..\<lfloor>?hi / of_int ?d\<rfloor>]"
  have marks: "marks s (I ?d) = Inr ?xs" by (rule marks_positions) simp
  let ?s = "s\<lparr>scale_delta := I ?d, scale_width := w, scale_height := t_height (ext sample_text) + 10\<rparr>"
  have layout: "layout_scale Py2 ext w s = Inr ?s"
    using marks by (auto simp: layout_scale_def k(1) marks_def rbind_Inr_iff)
  have "?hi / of_int ?d \<le> ?lo / of_int ?d + of_int 20"
    using k(2) by (simp add: field_simps)
  then have "\<lfloor>?hi / of_int ?d\<rfloor> \<le> \<lfloor>?lo / of_int ?d\<rfloor> + 20" by (metis floor_add_int floor_mono)
  then have len: "length ?xs \<le> 20" by simp
  have "x \<in> set ?xs \<longleftrightarrow> ?d dvd x \<and> ?lo < of_int x \<and> of_int x \<le> ?hi" for x
  proof -
    have "x \<in> set ?xs \<longleftrightarrow> (\<exists>j. x = ?d * j \<and> ?lo / of_int ?d < of_int j \<and> of_int j \<le> ?hi / of_int ?d)"
      by (auto simp: add1_zle_eq floor_less_iff le_floor_iff image_iff)
    also have "\<dots> \<longleftrightarrow> ?d dvd x \<and> ?lo < of_int x \<and> of_int x \<le> ?hi"
      by (auto simp: dvd_def field_simps)
    finally show ?thesis .
  qed
  moreover have "sorted ?xs" by (simp add: sorted_wrt_map sorted_wrt_upto [THEN sorted_wrt_mono_rel [rotated]])
  moreover have "marks ?s (scale_delta ?s) = Inr ?xs" using marks by (simp add: marks_def)
  ultimately show ?thesis using False layout len by auto
qed


theorem scale_marks_witness:
  "\<exists>s' xs. layout_scale Py2 demo_extents (I 100) (set_bounds (I 0) (I 55) new_scale) = Inr s'
    \<and> marks s' (scale_delta s') = Inr xs \<and> length xs \<le> 20"
  using scale_marks [of "set_bounds (I 0) (I 55) new_scale" demo_extents "I 100"] by (auto simp: set_bounds_def)

section \<open>The range shown\<close>

lemma layout_scale_keeps:
  "layout_scale v ext w s = Inr s' \<Longrightarrow> scale_lo s' = scale_lo s \<and> scale_hi s' = scale_hi s \<and> scale_width s' = w
    \<and> scale_top s' = scale_top s"
  by (auto simp: layout_scale_def rbind_Inr_iff)

lemma layout_lines_keeps [simp]:
  "win_start (layout_lines ext w d) = win_start d" "win_end (layout_lines ext w d) = win_end d"
  "lines_of (layout_lines ext w d) = lines_of d" "colors_of (layout_lines ext w d) = colors_of d"
  by (simp_all add: layout_lines_def Let_def)

text \<open>The parts that show the range agree with it.\<close>

definition in_sync :: "graphic \<Rightarrow> bool" where
  "in_sync g =
     (win_start (data_part g) = num_val (r_start g) \<and> win_end (data_part g) = num_val (r_end g)
      \<and> scale_lo (mid_scale g) = r_start g \<and> scale_hi (mid_scale g) = r_end g)"

lemma layout_graphic_result:
  fixes v ext w h g
  defines "g' \<equiv> snd (layout_graphic v ext w h g)"
  shows "all_start g' = all_start g" "all_end g' = all_end g" "r_start g' = r_start g" "r_end g' = r_end g"
    "pic_width g' = w" "pic_height g' = h" "in_sync g' = in_sync g"
    "scale_lo (bot_scale g') = scale_lo (bot_scale g)" "scale_hi (bot_scale g') = scale_hi (bot_scale g)"
proof -
  have mid: "scale_lo m = scale_lo s \<and> scale_hi m = scale_hi s" if "layout_scale v ext x s = Inr m" for x s m
    using layout_scale_keeps [OF that] by blast
  show "all_start g' = all_start g" "all_end g' = all_end g" "r_start g' = r_start g" "r_end g' = r_end g"
    "pic_width g' = w" "pic_height g' = h" "in_sync g' = in_sync g"
    "scale_lo (bot_scale g') = scale_lo (bot_scale g)" "scale_hi (bot_scale g') = scale_hi (bot_scale g)"
    unfolding g'_def
    by (auto simp: layout_graphic_def attempt_def Let_def in_sync_def mid split: sum.splits)
qed

text \<open>The range is set whether the layout behind it raises or not.\<close>

lemma set_range_result:
  fixes v ext a b g
  defines "g' \<equiv> snd (set_range v ext a b g)"
  shows "r_start g' = num_max (all_start g) (num_min a b)" "r_end g' = num_min (all_end g) (num_max a b)"
    "all_start g' = all_start g" "all_end g' = all_end g" "pic_width g' = pic_width g" "in_sync g'"
    "scale_lo (bot_scale g') = scale_lo (bot_scale g)" "scale_hi (bot_scale g') = scale_hi (bot_scale g)"
  unfolding g'_def set_range_def Let_def layout_graphic_result
  by (simp_all add: in_sync_def set_render_range_def set_bounds_def)

end
