(* ===== verification/GridWindow.thy ===== *)
theory GridWindow
  imports GridGraphic
begin

text \<open>
  The window of the timeline viewer, \<open>utils/grid.py\<close> lines 1243 to 1615 and \<open>main\<close>: the handlers of
  the mouse, of the zoom buttons, of a change of size and of a redraw as functions on the state of
  \<open>GtkGraphicRenderer\<close>, and a session as the list of the events that GTK delivers.  An attribute
  that the constructor does not set is \<open>None\<close> until a handler sets it; reading it before
  is an \<open>AttributeError\<close>.  GTK prints the exception of a handler and goes on, so a handler gives an
  outcome: what it answers or raises, and the state it leaves, which may be a half changed one.
  How far a drawing got that raised (the colours it had taken and what it had put on the surface)
  is the argument \<open>cut_short\<close>, any function of the picture.
  The connection of the handlers to GTK and the widgets around the drawing area are not modelled.
\<close>

section \<open>The state and the handlers\<close>

datatype cursor = DoubleArrow | Fleur | NoCursor

record gui =
  pic :: graphic
  moving_left :: bool
  moving_right :: bool
  moving_both :: bool
  moving_top :: bool
  moving_left_cur :: "num option"
  moving_right_cur :: "num option"
  moving_both_start :: "num option"
  moving_both_cur :: "num option"
  moving_top_start :: "num option"
  moving_top_cur :: "num option"
  force_redraw :: bool
  gui_width :: "num option"
  gui_height :: "num option"
  buffer_surface :: "draw_op list option"
  pointer :: cursor
  redraw_queued :: bool

definition new_gui :: "graphic \<Rightarrow> gui" where
  "new_gui g = \<lparr>pic = g, moving_left = False, moving_right = False, moving_both = False, moving_top = False,
     moving_left_cur = None, moving_right_cur = None, moving_both_start = None, moving_both_cur = None,
     moving_top_start = None, moving_top_cur = None, force_redraw = True, gui_width = None, gui_height = None,
     buffer_surface = None, pointer = NoCursor, redraw_queued = False\<rparr>"

definition attribute :: "'a option \<Rightarrow> py_error + 'a" where
  "attribute a = (case a of None \<Rightarrow> Inl AttributeError | Some x \<Rightarrow> Inr x)"

definition full_redraw :: "gui \<Rightarrow> gui" where
  "full_redraw w = w\<lparr>force_redraw := True, redraw_queued := True\<rparr>"

type_synonym 'a gui_outcome = "(py_error, 'a, gui) outcome"

type_synonym cut_short = "graphic \<Rightarrow> colors \<times> draw_op list"

text \<open>\<open>set_range\<close> of the picture, the full redraw behind it.\<close>

definition show_range :: "python \<Rightarrow> (string \<Rightarrow> extents) \<Rightarrow> num \<Rightarrow> num \<Rightarrow> gui \<Rightarrow> unit gui_outcome" where
  "show_range v ext a b w =
     (case set_range v ext a b (pic w) of (answer, g) \<Rightarrow>
       attempt answer (w\<lparr>pic := g\<rparr>) (\<lambda>_. (Inr (), full_redraw (w\<lparr>pic := g\<rparr>))))"

definition set_smaller_zoom :: "python \<Rightarrow> (string \<Rightarrow> extents) \<Rightarrow> gui \<Rightarrow> unit gui_outcome" where
  "set_smaller_zoom v ext w =
     (let (start, stop) = get_range_shown (pic w)
      in show_range v ext start (num_add start (num_mul (num_sub stop start) (I 2))) w)"

definition set_bigger_zoom :: "python \<Rightarrow> (string \<Rightarrow> extents) \<Rightarrow> gui \<Rightarrow> unit gui_outcome" where
  "set_bigger_zoom v ext w =
     (let (start, stop) = get_range_shown (pic w)
      in attempt (num_div v (num_sub stop start) (I 2)) w (\<lambda>half. show_range v ext start (num_add start half) w))"

text \<open>The picture drawn on a surface, which is the buffer of the window.\<close>

definition draw_onto :: "python \<Rightarrow> (string \<Rightarrow> extents) \<Rightarrow> cut_short \<Rightarrow> draw_op list \<Rightarrow> gui \<Rightarrow> unit gui_outcome" where
  "draw_onto v ext cut_short buf w =
     (case draw_graphic v ext (pic w) of
        Inl e \<Rightarrow>
          (let (cs, ops) = cut_short (pic w); g = pic w
           in (Inl e, w\<lparr>pic := g\<lparr>data_part := (data_part g)\<lparr>colors_of := cs\<rparr>\<rparr>, buffer_surface := Some (buf @ ops)\<rparr>))
      | Inr (g, ops) \<Rightarrow> (Inr (), w\<lparr>pic := g, buffer_surface := Some (buf @ ops)\<rparr>))"

text \<open>\<open>output_png\<close> draws on the buffer of the window, and writes the new surface, which stays empty.\<close>

definition output_png :: "python \<Rightarrow> (string \<Rightarrow> extents) \<Rightarrow> cut_short \<Rightarrow> gui \<Rightarrow> draw_op list gui_outcome" where
  "output_png v ext cut_short w =
     (let surface = []
      in attempt (attribute (buffer_surface w)) w (\<lambda>buf.
         and_then (draw_onto v ext cut_short buf w) (\<lambda>_ w. (Inr surface, w))))"

text \<open>The mouse: the answer says whether the handler took the event.  The pointer is at floating point numbers.\<close>

definition button_press :: "python \<Rightarrow> rat \<Rightarrow> rat \<Rightarrow> gui \<Rightarrow> bool gui_outcome" where
  "button_press v ex ey w =
     attempt (get_selection_rectangle v (pic w)) w (\<lambda>(x, y, width, height).
       let (d_x, d_y, d_width, d_height) = get_data_rectangle (pic w);
           x = num_val x; right = x + num_val width;
           on_selection = y < ey \<and> ey < y + height
       in if on_selection \<and> \<bar>ex - x\<bar> < 5 then (Inr True, w\<lparr>moving_left := True\<rparr>)
          else if on_selection \<and> \<bar>ex - right\<bar> < 5 then (Inr True, w\<lparr>moving_right := True\<rparr>)
          else if on_selection \<and> x < ex \<and> ex < right
          then (Inr True, w\<lparr>moving_both := True, moving_both_start := Some (F ex), moving_both_cur := Some (F ex)\<rparr>)
          else if d_y < ey \<and> ey < d_y + d_height \<and> d_x < ex \<and> ex < d_x + d_width
          then (Inr True, w\<lparr>moving_top := True, moving_top_start := Some (F ex), moving_top_cur := Some (F ex)\<rparr>)
          else (Inr False, w))"

definition button_release :: "python \<Rightarrow> (string \<Rightarrow> extents) \<Rightarrow> gui \<Rightarrow> bool gui_outcome" where
  "button_release v ext w =
     (if moving_left w then
        let w = w\<lparr>moving_left := False\<rparr>
        in attempt (attribute (moving_left_cur w)) w (\<lambda>cur.
           attempt (scale_selection v (pic w) cur) w (\<lambda>left.
           and_then (show_range v ext left (snd (get_range_shown (pic w))) w) (\<lambda>_ w. (Inr True, w))))
      else if moving_right w then
        let w = w\<lparr>moving_right := False\<rparr>
        in attempt (attribute (moving_right_cur w)) w (\<lambda>cur.
           attempt (scale_selection v (pic w) cur) w (\<lambda>right.
           and_then (show_range v ext (fst (get_range_shown (pic w))) right w) (\<lambda>_ w. (Inr True, w))))
      else if moving_both w then
        let w = w\<lparr>moving_both := False\<rparr>
        in attempt (attribute (moving_both_cur w)) w (\<lambda>cur.
           attempt (attribute (moving_both_start w)) w (\<lambda>start.
           attempt (scale_selection v (pic w) (num_sub cur start)) w (\<lambda>delta.
           let (left, right) = get_range_shown (pic w)
           in and_then (show_range v ext (num_add left delta) (num_add right delta) w) (\<lambda>_ w. (Inr True, w)))))
      else (Inr False, if moving_top w then w\<lparr>moving_top := False\<rparr> else w))"

text \<open>The redraw of the selection, for which the handler reads the width of the widget.\<close>

definition redraw_selection :: "gui \<Rightarrow> bool gui_outcome" where
  "redraw_selection w = attempt (attribute (gui_width w)) w (\<lambda>_. (Inr True, w\<lparr>redraw_queued := True\<rparr>))"

definition move_left :: "rat \<Rightarrow> num \<Rightarrow> num \<Rightarrow> gui \<Rightarrow> bool gui_outcome" where
  "move_left ex x width w =
     (let right = num_add x width
      in redraw_selection (w\<lparr>moving_left_cur :=
           Some (if ex \<le> 0 then I 0 else if num_val right \<le> ex then right else F ex)\<rparr>))"

text \<open>At the right edge the handler assigns to \<open>__moving_right\<close> where \<open>__moving_right_cur\<close> is meant.\<close>

definition move_right :: "rat \<Rightarrow> num \<Rightarrow> gui \<Rightarrow> bool gui_outcome" where
  "move_right ex x w =
     attempt (attribute (gui_width w)) w (\<lambda>gw.
       redraw_selection
         (if num_val gw \<le> ex then w\<lparr>moving_right := num_val gw \<noteq> 0\<rparr>
          else w\<lparr>moving_right_cur := Some (if ex < num_val x then x else F ex)\<rparr>))"

definition move_both :: "rat \<Rightarrow> num \<Rightarrow> num \<Rightarrow> gui \<Rightarrow> bool gui_outcome" where
  "move_both ex x width w =
     attempt (attribute (gui_width w)) w (\<lambda>gw.
     attempt (attribute (moving_both_start w)) w (\<lambda>start.
       let cur_e = num_sub gw (num_sub (num_add x width) start); cur_s = num_sub start x
       in redraw_selection (w\<lparr>moving_both_cur :=
            Some (if ex < num_val cur_s then cur_s else if num_val cur_e < ex then cur_e else F ex)\<rparr>)))"

definition move_top :: "python \<Rightarrow> (string \<Rightarrow> extents) \<Rightarrow> rat \<Rightarrow> gui \<Rightarrow> bool gui_outcome" where
  "move_top v ext ex w =
     (let w = w\<lparr>moving_top_cur := Some (F ex)\<rparr>
      in attempt (attribute (moving_top_start w)) w (\<lambda>start.
         attempt (scale_data v (pic w) (num_sub start (F ex))) w (\<lambda>delta.
         let (left, right) = get_range_shown (pic w)
         in and_then (show_range v ext (num_add left delta) (num_add right delta) w) (\<lambda>_ w.
              (Inr True, w\<lparr>moving_top_start := Some (F ex)\<rparr>)))))"

definition set_pointer :: "rat \<Rightarrow> rat \<Rightarrow> rat \<Rightarrow> rat \<Rightarrow> rat \<Rightarrow> rat \<Rightarrow> gui \<Rightarrow> bool \<times> gui" where
  "set_pointer ex ey x y right height w =
     (let (d_x, d_y, d_width, d_height) = get_data_rectangle (pic w);
          on_selection = y < ey \<and> ey < y + height
      in if on_selection \<and> (\<bar>ex - x\<bar> < 5 \<or> \<bar>ex - right\<bar> < 5) then (True, w\<lparr>pointer := DoubleArrow\<rparr>)
         else if on_selection \<and> x < ex \<and> ex < right then (True, w\<lparr>pointer := Fleur\<rparr>)
         else if d_y < ey \<and> ey < d_y + d_height \<and> d_x < ex \<and> ex < d_x + d_width then (True, w\<lparr>pointer := Fleur\<rparr>)
         else (False, w\<lparr>pointer := NoCursor\<rparr>))"

definition motion_notify :: "python \<Rightarrow> (string \<Rightarrow> extents) \<Rightarrow> rat \<Rightarrow> rat \<Rightarrow> gui \<Rightarrow> bool gui_outcome" where
  "motion_notify v ext ex ey w =
     attempt (get_selection_rectangle v (pic w)) w (\<lambda>(x, y, width, height).
       if moving_left w then move_left ex x width w
       else if moving_right w then move_right ex x w
       else if moving_both w then move_both ex x width w
       else if moving_top w then move_top v ext ex w
       else (case set_pointer ex ey (num_val x) y (num_val x + num_val width) height w of (taken, w) \<Rightarrow> (Inr taken, w)))"

definition size_allocate :: "python \<Rightarrow> (string \<Rightarrow> extents) \<Rightarrow> int \<Rightarrow> int \<Rightarrow> gui \<Rightarrow> unit gui_outcome" where
  "size_allocate v ext width height w =
     (let w = w\<lparr>gui_width := Some (I width), gui_height := Some (I height)\<rparr>
      in case layout_graphic v ext (I width) (I height) (pic w) of (answer, g) \<Rightarrow>
           attempt answer (w\<lparr>pic := g\<rparr>) (\<lambda>_. (Inr (), full_redraw (w\<lparr>pic := g\<rparr>))))"

text \<open>The lines that \<open>expose\<close> draws over the buffer while the selection is being moved.\<close>

definition selection_line :: "rat \<Rightarrow> rat \<Rightarrow> rat \<Rightarrow> draw_op list" where
  "selection_line x y height = [MoveTo x y, RelLineTo 0 height, ClosePath]"

definition expose_left :: "rat \<Rightarrow> rat \<Rightarrow> gui \<Rightarrow> py_error + draw_op list" where
  "expose_left y height w =
     (if moving_left w
      then rbind (attribute (moving_left_cur w)) (\<lambda>cur.
        Inr (selection_line (max (num_val cur) 2) y height @ [SetLineWidth 1, SetSourceRgb 0 0 0, Stroke]))
      else Inr [])"

definition expose_right :: "rat \<Rightarrow> rat \<Rightarrow> gui \<Rightarrow> py_error + draw_op list" where
  "expose_right y height w =
     (if moving_right w
      then rbind (attribute (moving_right_cur w)) (\<lambda>cur. rbind (attribute (gui_width w)) (\<lambda>gw.
        Inr (selection_line (min (num_val cur) (num_val gw - 2)) y height @ [SetLineWidth 1, SetSourceRgb 0 0 0, Stroke])))
      else Inr [])"

definition expose_both :: "rat \<Rightarrow> rat \<Rightarrow> rat \<Rightarrow> rat \<Rightarrow> gui \<Rightarrow> py_error + draw_op list" where
  "expose_both x y width height w =
     (if moving_both w
      then rbind (attribute (moving_both_cur w)) (\<lambda>cur. rbind (attribute (moving_both_start w)) (\<lambda>start.
        let delta_x = num_val cur - num_val start
        in Inr (selection_line (x + delta_x) y height @ selection_line (x + width + delta_x) y height
             @ [SetSourceRgb 0 0 0, SetLineWidth 1, Stroke])))
      else Inr [])"

definition redraw_buffer :: "python \<Rightarrow> (string \<Rightarrow> extents) \<Rightarrow> cut_short \<Rightarrow> gui \<Rightarrow> unit gui_outcome" where
  "redraw_buffer v ext cut_short w =
     (if force_redraw w
      then and_then (draw_onto v ext cut_short [] w) (\<lambda>_ w. (Inr (), w\<lparr>force_redraw := False\<rparr>))
      else (Inr (), w))"

text \<open>What the window then shows: the buffer within the area to redraw, and the lines over it.\<close>

definition expose ::
  "python \<Rightarrow> (string \<Rightarrow> extents) \<Rightarrow> cut_short \<Rightarrow> gui \<Rightarrow> (draw_op list \<times> draw_op list) gui_outcome" where
  "expose v ext cut_short w =
     and_then (redraw_buffer v ext cut_short (w\<lparr>redraw_queued := False\<rparr>)) (\<lambda>_ w.
     attempt (attribute (buffer_surface w)) w (\<lambda>buf.
     attempt (get_selection_rectangle v (pic w)) w (\<lambda>(x, y, width, height).
     attempt (expose_left y height w) w (\<lambda>left.
     attempt (expose_right y height w) w (\<lambda>right.
     attempt (expose_both (num_val x) y (num_val width) height w) w (\<lambda>both.
       (Inr (buf, left @ right @ both), w)))))))"

section \<open>Sessions\<close>

text \<open>The events of the window: the two zoom buttons, the answer of the file dialog, and what the widget receives.\<close>

datatype window_event =
  ZoomOut
| ZoomIn
| DialogResponse int
| Press rat rat
| Release
| Motion rat rat
| Resize int int
| Expose

text \<open>Nothing but the state is kept of a handler: GTK prints what it raises and goes on.\<close>

fun handle :: "python \<Rightarrow> (string \<Rightarrow> extents) \<Rightarrow> cut_short \<Rightarrow> gui \<Rightarrow> window_event \<Rightarrow> unit gui_outcome" where
  "handle v ext cut_short w ZoomOut = set_smaller_zoom v ext w"
| "handle v ext cut_short w ZoomIn = set_bigger_zoom v ext w"
| "handle v ext cut_short w (DialogResponse response) =
     (if response = 1 then and_then (output_png v ext cut_short w) (\<lambda>png w. (Inr (), w)) else (Inr (), w))"
| "handle v ext cut_short w (Press x y) = and_then (button_press v x y w) (\<lambda>taken w. (Inr (), w))"
| "handle v ext cut_short w Release = and_then (button_release v ext w) (\<lambda>taken w. (Inr (), w))"
| "handle v ext cut_short w (Motion x y) = and_then (motion_notify v ext x y w) (\<lambda>taken w. (Inr (), w))"
| "handle v ext cut_short w (Resize width height) = size_allocate v ext width height w"
| "handle v ext cut_short w Expose = and_then (expose v ext cut_short w) (\<lambda>shown w. (Inr (), w))"

definition session :: "python \<Rightarrow> (string \<Rightarrow> extents) \<Rightarrow> cut_short \<Rightarrow> gui \<Rightarrow> window_event list \<Rightarrow> gui" where
  "session v ext cut_short w evs = foldl (\<lambda>w ev. snd (handle v ext cut_short w ev)) w evs"

text \<open>\<open>main\<close>: the file is read, the parts are put together and the default range is set, a tenth of the whole around its middle.\<close>

definition default_range :: "python \<Rightarrow> int \<Rightarrow> int \<Rightarrow> py_error + (num \<times> num)" where
  "default_range v lower upper =
     rbind (num_div v (I (upper - lower)) (I 2)) (\<lambda>mid.
     rbind (num_div v (I (upper - lower)) (I 10)) (\<lambda>width.
     rbind (num_div v width (I 2)) (\<lambda>half.
       Inr (num_sub mid half, num_add mid half))))"

definition main_picture ::
  "python \<Rightarrow> (string list \<Rightarrow> string list) \<Rightarrow> (string \<Rightarrow> extents) \<Rightarrow> string list \<Rightarrow> py_error + graphic" where
  "main_picture v ord ext lines =
     rbind (read_data v lines) (\<lambda>(cs, ts).
       let (lower, upper) = timelines_bounds ts;
           vals = get_all_range_values ord ts
       in rbind (legend_colors v cs vals) (\<lambda>(cs, shades).
          rbind (default_range v lower upper) (\<lambda>(lo, hi).
            state_or_error (set_range v ext lo hi
              (set_data (set_timelines ts cs new_renderer)
                (set_top_legend (set_legends vals shades new_legend) (new_graphic (I lower) (I upper))))))))"


section \<open>The range shown stays inside the data\<close>

text \<open>What every handler keeps: the range is inside the whole, and the parts that show it agree with it.\<close>

definition shown_ok :: "graphic \<Rightarrow> bool" where
  "shown_ok g =
     (num_val (all_start g) \<le> num_val (r_start g) \<and> num_val (r_end g) \<le> num_val (all_end g) \<and> in_sync g)"

lemma shown_ok_set_range: "shown_ok (snd (set_range v ext a b g))"
  by (simp add: shown_ok_def set_range_result)

text \<open>The whole changes by no handler.\<close>

definition same_whole :: "graphic \<Rightarrow> graphic \<Rightarrow> bool" where
  "same_whole g g' = (all_start g' = all_start g \<and> all_end g' = all_end g)"

text \<open>Both are kept by each part of a handler, whether it raises or not.\<close>

definition kept :: "graphic \<Rightarrow> gui \<Rightarrow> bool" where
  "kept g w = (shown_ok (pic w) \<and> same_whole g (pic w))"

lemma kept_pic [simp]: "kept g (w\<lparr>pic := g'\<rparr>) = (shown_ok g' \<and> same_whole g g')"
  by (simp add: kept_def)

lemma kept_fields [simp]:
  "kept g (w\<lparr>moving_left := b\<rparr>) = kept g w" "kept g (w\<lparr>moving_right := b\<rparr>) = kept g w"
  "kept g (w\<lparr>moving_both := b\<rparr>) = kept g w" "kept g (w\<lparr>moving_top := b\<rparr>) = kept g w"
  "kept g (w\<lparr>moving_left_cur := c\<rparr>) = kept g w" "kept g (w\<lparr>moving_right_cur := c\<rparr>) = kept g w"
  "kept g (w\<lparr>moving_both_start := c\<rparr>) = kept g w" "kept g (w\<lparr>moving_both_cur := c\<rparr>) = kept g w"
  "kept g (w\<lparr>moving_top_start := c\<rparr>) = kept g w" "kept g (w\<lparr>moving_top_cur := c\<rparr>) = kept g w"
  "kept g (w\<lparr>force_redraw := b\<rparr>) = kept g w" "kept g (w\<lparr>buffer_surface := s\<rparr>) = kept g w"
  "kept g (w\<lparr>pointer := p\<rparr>) = kept g w" "kept g (w\<lparr>redraw_queued := b\<rparr>) = kept g w"
  "kept g (w\<lparr>gui_width := x\<rparr>) = kept g w" "kept g (w\<lparr>gui_height := x\<rparr>) = kept g w" "kept g (full_redraw w) = kept g w"
  by (simp_all add: kept_def full_redraw_def)

lemma kept_show_range: "kept g w \<Longrightarrow> kept g (snd (show_range v ext a b w))"
proof -
  assume "kept g w"
  moreover obtain answer g' where r: "set_range v ext a b (pic w) = (answer, g')" by fastforce
  moreover have "shown_ok g'" using shown_ok_set_range [of v ext a b "pic w"] r by simp
  moreover have "same_whole (pic w) g'" using set_range_result(3,4) [of v ext a b "pic w"] r by (simp add: same_whole_def)
  ultimately show ?thesis by (simp add: show_range_def attempt_def kept_def same_whole_def full_redraw_def split: sum.splits)
qed

lemma kept_layout: "kept g w \<Longrightarrow> kept g (snd (size_allocate v ext width height w))"
proof -
  assume "kept g w"
  moreover obtain answer g' where r: "layout_graphic v ext (I width) (I height) (pic w) = (answer, g')" by fastforce
  moreover have "shown_ok g' = shown_ok (pic w)" "same_whole (pic w) g'"
    using layout_graphic_result [of v ext "I width" "I height" "pic w"] r by (simp_all add: shown_ok_def same_whole_def)
  ultimately show ?thesis
    by (simp add: size_allocate_def attempt_def kept_def same_whole_def full_redraw_def Let_def split: sum.splits)
qed

lemma draw_graphic_keeps:
  assumes "draw_graphic v ext g = Inr (g', ops)"
  obtains cs where "g' = g\<lparr>data_part := (data_part g)\<lparr>colors_of := cs\<rparr>\<rparr>"
  using assms by (auto simp: draw_graphic_def draw_lines_def Let_def rbind_Inr_iff)

lemma kept_draw: "kept g w \<Longrightarrow> kept g (snd (draw_onto v ext cut_short buf w))"
proof -
  assume w: "kept g w"
  have colors: "shown_ok (h\<lparr>data_part := (data_part h)\<lparr>colors_of := cs\<rparr>\<rparr>) = shown_ok h"
    "same_whole g (h\<lparr>data_part := (data_part h)\<lparr>colors_of := cs\<rparr>\<rparr>) = same_whole g h" for h cs
    by (simp_all add: shown_ok_def same_whole_def in_sync_def)
  have drawn: "shown_ok g' \<and> same_whole g g'" if "draw_graphic v ext (pic w) = Inr (g', ops)" for g' ops
    using draw_graphic_keeps [OF that] w colors by (metis kept_def)
  show ?thesis using w
    by (auto simp: draw_onto_def colors kept_def Let_def dest: drawn split: sum.splits prod.splits)
qed

lemmas kept_rules = attempt_state [where I = "kept g" for g] and_then_state [where I = "kept g" for g]

lemma kept_redraw_selection: "kept g w \<Longrightarrow> kept g (snd (redraw_selection w))"
  by (auto simp: redraw_selection_def intro!: kept_rules)

lemma kept_motions:
  "kept g w \<Longrightarrow> kept g (snd (move_left ex x width w))"
  "kept g w \<Longrightarrow> kept g (snd (move_right ex x w))"
  "kept g w \<Longrightarrow> kept g (snd (move_both ex x width w))"
  "kept g w \<Longrightarrow> kept g (snd (set_pointer ex ey qx y right height w))"
  by (auto simp: move_left_def move_right_def move_both_def set_pointer_def Let_def kept_redraw_selection
      intro!: kept_rules split: prod.splits)

lemma and_then_last: "snd (and_then o1 (\<lambda>x w. (Inr (a x), w))) = snd o1"
  by (cases o1; cases "fst o1") auto

lemma kept_then:
  "kept g (snd o1) \<Longrightarrow> (\<And>u. kept g u \<Longrightarrow> kept g (f u)) \<Longrightarrow> kept g (snd (and_then o1 (\<lambda>_ w. (Inr x, f w))))"
  by (cases o1; cases "fst o1") auto

lemma kept_if:
  "kept g (snd (if b then x else y)) = (if b then kept g (snd x) else kept g (snd y))"
  "kept g (if b then w else w') = (if b then kept g w else kept g w')"
  by simp_all

lemma kept_attempt: "kept g w \<Longrightarrow> (\<And>x. kept g (snd (f x))) \<Longrightarrow> kept g (snd (attempt r w f))"
  by (rule attempt_state [where I = "kept g"])

lemma kept_shown: "kept g w \<Longrightarrow> kept g (snd (and_then (show_range v ext a b w) (\<lambda>_ w. (Inr x, w))))"
  by (simp add: and_then_last kept_show_range)

lemma kept_press: "kept g w \<Longrightarrow> kept g (snd (button_press v ex ey w))"
  by (simp add: button_press_def Let_def split_def kept_if kept_attempt del: abs_less_iff)

lemma kept_release: "kept g w \<Longrightarrow> kept g (snd (button_release v ext w))"
  unfolding button_release_def Let_def split_def
  by (simp only: kept_if kept_fields kept_attempt kept_shown snd_conv if_True simp_thms split: if_split)

lemma kept_motion: "kept g w \<Longrightarrow> kept g (snd (motion_notify v ext ex ey w))"
proof -
  assume w: "kept g w"
  then have top: "kept g (snd (move_top v ext ex w))"
    unfolding move_top_def Let_def split_def
    by (simp only: kept_fields kept_attempt kept_then kept_show_range snd_conv simp_thms)
  show ?thesis
    unfolding motion_notify_def split_def
    by (simp only: kept_if kept_attempt kept_motions [OF w] w top snd_conv simp_thms split: if_split)
qed

lemma kept_redraw_buffer: "kept g w \<Longrightarrow> kept g (snd (redraw_buffer v ext cut_short w))"
  unfolding redraw_buffer_def by (simp only: kept_if kept_fields kept_then kept_draw snd_conv if_cancel if_True)

lemma kept_expose:
  assumes "kept g w"
  shows "kept g (snd (expose v ext cut_short w))"
  unfolding expose_def
proof (rule and_then_state [where I = "kept g"])
  show "kept g (snd (redraw_buffer v ext cut_short (w\<lparr>redraw_queued := False\<rparr>)))"
    using assms by (simp add: kept_redraw_buffer)
  from this show "kept g (snd (attempt (attribute (buffer_surface u)) u (\<lambda>buf.
     attempt (get_selection_rectangle v (pic u)) u (\<lambda>(x, y, width, height).
     attempt (expose_left y height u) u (\<lambda>left.
     attempt (expose_right y height u) u (\<lambda>right.
     attempt (expose_both (num_val x) y (num_val width) height u) u (\<lambda>both.
       (Inr (buf, left @ right @ both), u))))))))"
    if "redraw_buffer v ext cut_short (w\<lparr>redraw_queued := False\<rparr>) = (Inr r, u)" for r u
    using that unfolding split_def by (simp only: kept_attempt snd_conv)
qed

lemma kept_handle:
  assumes "kept g w"
  shows "kept g (snd (handle v ext cut_short w ev))"
proof (cases ev)
  case (DialogResponse response)
  have "kept g (snd (output_png v ext cut_short w))"
    unfolding output_png_def Let_def by (simp only: kept_attempt kept_then kept_draw assms)
  with DialogResponse assms show ?thesis by (simp add: and_then_last)
qed (simp_all only: handle.simps and_then_last set_smaller_zoom_def set_bigger_zoom_def Let_def split_def assms
    kept_attempt kept_show_range kept_layout kept_press kept_release kept_motion kept_expose)

lemma session_keeps: "kept g w \<Longrightarrow> kept g (session v ext cut_short w evs)"
  by (induction evs arbitrary: w) (simp_all add: session_def kept_handle del: handle.simps)

lemma main_picture_result:
  assumes "main_picture v ord ext lines = Inr g"
  obtains cs ts upper where "read_data v lines = Inr (cs, ts)" "timelines_bounds ts = (0, upper)" "0 \<le> upper"
    "all_start g = F 0" "all_end g = F (of_int upper)" "shown_ok g" "in_sync g"
    "scale_lo (bot_scale g) = I 0" "scale_hi (bot_scale g) = I upper"
proof -
  obtain cs ts where read: "read_data v lines = Inr (cs, ts)"
    using assms by (auto simp: main_picture_def rbind_Inr_iff)
  obtain lo hi where bounds: "timelines_bounds ts = (lo, hi)" by fastforce
  note low = read_data_lower [OF read bounds]
  have made: "snd o1 = g" if "state_or_error o1 = Inr g" for o1 :: "(py_error, unit, graphic) outcome"
    using that by (auto simp: state_or_error_def split: prod.splits sum.splits)
  obtain cs' shades a b where "snd (set_range v ext a b
      (set_data (set_timelines ts cs' new_renderer)
        (set_top_legend (set_legends (get_all_range_values ord ts) shades new_legend) (new_graphic (I lo) (I hi))))) = g"
    using assms by (auto simp: main_picture_def read bounds Let_def rbind_Inr_iff dest!: made split: prod.splits)
  then show thesis
    by (intro that [OF read _ low(2)])
      (auto simp: bounds low(1) set_range_result shown_ok_set_range new_graphic_def set_data_def set_top_legend_def
        set_bot_def set_bounds_def)
qed

text \<open>
  Claim C25.  Once \<open>main\<close> has put the picture of a file together, whatever the user does with the mouse, the
  buttons and the size of the window, the range that is shown starts at zero or later and ends no
  later than the data, and the scale and the lines show the same range.  This holds after every
  event, also when its handler raised: GTK prints the exception and goes on with the state that the handler left.
\<close>

theorem session_stays_inside:
  assumes "main_picture v ord ext lines = Inr g"
  shows "\<exists>cs ts upper. read_data v lines = Inr (cs, ts) \<and> timelines_bounds ts = (0, upper)
    \<and> (let w = session v ext cut_short (new_gui g) evs
       in 0 \<le> num_val (r_start (pic w)) \<and> num_val (r_end (pic w)) \<le> of_int upper \<and> in_sync (pic w))"
proof -
  obtain cs ts upper where g: "read_data v lines = Inr (cs, ts)" "timelines_bounds ts = (0, upper)"
    "all_start g = F 0" "all_end g = F (of_int upper)" "shown_ok g"
    by (rule main_picture_result [OF assms])
  have "kept g (session v ext cut_short (new_gui g) evs)"
    using g(5) by (intro session_keeps) (simp add: kept_def new_gui_def same_whole_def)
  with g show ?thesis by (auto simp: kept_def shown_ok_def same_whole_def Let_def)
qed

definition demo_lines :: "string list" where
  "demo_lines = [''range node rx busy 0 40'', ''event-int node tx 1 60'']"

text \<open>
  In a window on sixty units of time the range is doubled and the left handle is clicked without a
  move, which raises.  A drawing that raises is taken to have drawn nothing.
\<close>

definition no_drawing :: "cut_short" where
  "no_drawing g = (colors_of (data_part g), [])"

theorem session_stays_inside_witness:
  "\<exists>g. main_picture Py2 (\<lambda>xs. xs) demo_extents demo_lines = Inr g \<and> r_start g = I 27 \<and> r_end g = I 33
    \<and> fst (handle Py2 demo_extents no_drawing
         (session Py2 demo_extents no_drawing (new_gui g) [Resize 400 300, ZoomOut, Press 180 125]) Release) = Inl AttributeError
    \<and> (let w = session Py2 demo_extents no_drawing (new_gui g) [Resize 400 300, ZoomOut, Press 180 125, Release]
       in r_end (pic w) = I 39 \<and> num_val (r_end (pic w)) \<le> 60 \<and> in_sync (pic w))"
proof -
  have "case main_picture Py2 (\<lambda>xs. xs) demo_extents demo_lines of Inl e \<Rightarrow> False | Inr g \<Rightarrow>
      r_start g = I 27 \<and> r_end g = I 33 \<and> fst (handle Py2 demo_extents no_drawing
         (session Py2 demo_extents no_drawing (new_gui g) [Resize 400 300, ZoomOut, Press 180 125]) Release) = Inl AttributeError
      \<and> r_end (pic (session Py2 demo_extents no_drawing (new_gui g) [Resize 400 300, ZoomOut, Press 180 125, Release])) = I 39"
    by code_simp
  then obtain g where g: "main_picture Py2 (\<lambda>xs. xs) demo_extents demo_lines = Inr g" "r_start g = I 27" "r_end g = I 33"
      "fst (handle Py2 demo_extents no_drawing
         (session Py2 demo_extents no_drawing (new_gui g) [Resize 400 300, ZoomOut, Press 180 125]) Release) = Inl AttributeError"
      "r_end (pic (session Py2 demo_extents no_drawing (new_gui g) [Resize 400 300, ZoomOut, Press 180 125, Release])) = I 39"
    by (auto split: sum.splits simp del: handle.simps)
  with session_stays_inside [OF g(1), of no_drawing "[Resize 400 300, ZoomOut, Press 180 125, Release]"]
  show ?thesis by (auto simp: Let_def simp del: handle.simps)
qed

section \<open>Moving the selection\<close>

text \<open>
  The picture once the range is one of floating point numbers, as every drag leaves it: the whole
  goes from zero to \<open>e\<close>, the widget is \<open>n\<close> pixels wide and the scale below shows all of it.
\<close>

definition float_picture :: "int \<Rightarrow> int \<Rightarrow> graphic \<Rightarrow> bool" where
  "float_picture e n g =
     (0 < e \<and> 0 < n \<and> all_start g = F 0 \<and> all_end g = F (of_int e) \<and> pic_width g = I n
      \<and> scale_lo (bot_scale g) = I 0 \<and> scale_hi (bot_scale g) = I e \<and> scale_width (bot_scale g) = I n
      \<and> is_float (r_start g) \<and> is_float (r_end g)
      \<and> 0 \<le> num_val (r_start g) \<and> num_val (r_start g) \<le> num_val (r_end g) \<and> num_val (r_end g) \<le> of_int e)"

definition pixel :: "int \<Rightarrow> int \<Rightarrow> rat \<Rightarrow> rat" where
  "pixel e n t = t * of_int n / of_int e"

definition time_at :: "int \<Rightarrow> int \<Rightarrow> rat \<Rightarrow> rat" where
  "time_at e n x = x / of_int n * of_int e"

lemma time_at_pixel: "0 < e \<Longrightarrow> 0 < n \<Longrightarrow> time_at e n (pixel e n t) = t"
  by (simp add: time_at_def pixel_def)

lemma time_at_less: "0 < e \<Longrightarrow> 0 < n \<Longrightarrow> time_at e n x < t \<longleftrightarrow> x < pixel e n t"
  by (simp add: time_at_def pixel_def field_simps)

lemma selection_rectangle:
  assumes "float_picture e n g"
  obtains y h where "get_selection_rectangle v g =
    Inr (F (pixel e n (num_val (r_start g))), y, F (pixel e n (num_val (r_end g)) - pixel e n (num_val (r_start g))), h)"
proof -
  obtain a b where "r_start g = F a" "r_end g = F b"
    using assms by (cases "r_start g"; cases "r_end g") (simp_all add: float_picture_def)
  moreover from assms have "e \<noteq> 0" "scale_lo (bot_scale g) = I 0" "scale_hi (bot_scale g) = I e"
    "scale_width (bot_scale g) = I n" by (simp_all add: float_picture_def)
  ultimately show thesis
    by (intro that) (simp add: get_selection_rectangle_def get_position_def num_div_float pixel_def Let_def)
qed

lemma scale_selection_value:
  assumes "float_picture e n g" "is_float x \<or> x = I 0"
  obtains q where "scale_selection v g x = Inr q" "num_val q = time_at e n (num_val x)"
proof -
  have g: "n \<noteq> 0" "pic_width g = I n" "all_end g = F (of_int e)" "all_start g = F 0"
    using assms(1) by (simp_all add: float_picture_def)
  obtain q where "num_div v x (I n) = Inr q" "num_val q = num_val x / of_int n"
    using assms(2) g(1) by (cases v; cases x) (auto simp: num_div.simps)
  then show thesis using that [of "num_mul q (F (of_int e))"] by (simp add: scale_selection_def g time_at_def)
qed

text \<open>The left handle while it is held: the pointer cut to the part left of the right handle.\<close>

definition left_target :: "int \<Rightarrow> int \<Rightarrow> graphic \<Rightarrow> rat \<Rightarrow> rat" where
  "left_target e n g x = max 0 (min x (pixel e n (num_val (r_end g))))"

definition holds_left :: "gui \<Rightarrow> bool" where
  "holds_left w = (moving_left w \<and> gui_width w \<noteq> None)"

lemma motion_left:
  assumes pic: "float_picture e n (pic w)" and "holds_left w"
  obtains w' c where "handle v ext cut_short w (Motion x y) = (Inr (), w')" "pic w' = pic w" "holds_left w'"
    "moving_left_cur w' = Some c" "is_float c \<or> c = I 0" "num_val c = left_target e n (pic w) x"
proof -
  obtain yy h where sel: "get_selection_rectangle v (pic w) =
      Inr (F (pixel e n (num_val (r_start (pic w)))), yy,
        F (pixel e n (num_val (r_end (pic w))) - pixel e n (num_val (r_start (pic w)))), h)"
    by (rule selection_rectangle [OF pic])
  have nonneg: "0 \<le> pixel e n (num_val (r_end (pic w)))"
    using pic by (simp add: float_picture_def pixel_def)
  obtain gw where gw: "gui_width w = Some gw" using assms(2) by (auto simp: holds_left_def)
  let ?c = "if x \<le> 0 then I 0 else if pixel e n (num_val (r_end (pic w))) \<le> x
    then F (pixel e n (num_val (r_end (pic w)))) else F x"
  let ?w = "w\<lparr>moving_left_cur := Some ?c, redraw_queued := True\<rparr>"
  have "handle v ext cut_short w (Motion x y) = (Inr (), ?w)"
    using assms(2) gw by (simp add: motion_notify_def sel holds_left_def move_left_def redraw_selection_def attribute_def Let_def)
  moreover have "num_val ?c = left_target e n (pic w) x" using nonneg by (simp add: left_target_def)
  ultimately show thesis using assms(2) by (intro that [of ?w ?c]) (simp_all add: holds_left_def)
qed

lemma session_Cons: "session v ext cut_short w (ev # evs) = session v ext cut_short (snd (handle v ext cut_short w ev)) evs"
  by (simp add: session_def)

lemma session_append:
  "session v ext cut_short w (evs @ evs') = session v ext cut_short (session v ext cut_short w evs) evs'"
  by (simp add: session_def)

lemma session_Nil: "session v ext cut_short w [] = w"
  by (simp add: session_def)

lemma motions_left:
  assumes "float_picture e n (pic w)" "holds_left w" "ms \<noteq> []"
  shows "\<exists>c. (let w' = session v ext cut_short w (map (\<lambda>(x, y). Motion x y) ms) in pic w' = pic w \<and> holds_left w'
    \<and> moving_left_cur w' = Some c \<and> (is_float c \<or> c = I 0) \<and> num_val c = left_target e n (pic w) (fst (last ms)))"
  using assms
proof (induction ms arbitrary: w)
  case (Cons m ms)
  obtain w1 c where w1: "handle v ext cut_short w (Motion (fst m) (snd m)) = (Inr (), w1)" "pic w1 = pic w" "holds_left w1"
    "moving_left_cur w1 = Some c" "is_float c \<or> c = I 0" "num_val c = left_target e n (pic w) (fst m)"
    by (rule motion_left [OF Cons.prems(1,2)])
  show ?case
  proof (cases "ms = []")
    case True
    with w1 show ?thesis by (auto simp: session_Cons session_Nil Let_def case_prod_unfold simp del: handle.simps)
  next
    case False
    with Cons.IH [of w1] w1 Cons.prems show ?thesis
      by (auto simp: session_Cons Let_def case_prod_unfold simp del: handle.simps)
  qed
qed simp

lemma pic_show_range [simp]: "pic (snd (show_range v ext a b w)) = snd (set_range v ext a b (pic w))"
  "moving_left (snd (show_range v ext a b w)) = moving_left w"
  by (cases "set_range v ext a b (pic w)"; simp add: show_range_def attempt_def full_redraw_def split: sum.splits)+

lemma release_left:
  fixes v ext cut_short w
  defines "w' \<equiv> snd (handle v ext cut_short w Release)"
  assumes pic: "float_picture e n (pic w)" and "moving_left w" "moving_left_cur w = Some c" "is_float c \<or> c = I 0"
    and "num_val c = left_target e n (pic w) x"
  shows "num_val (r_start (pic w')) = max 0 (min (time_at e n x) (num_val (r_end (pic w))))"
    and "num_val (r_end (pic w')) = num_val (r_end (pic w))" and "\<not> moving_left w'" and "in_sync (pic w')"
proof -
  obtain q where q: "scale_selection v (pic w) c = Inr q" "num_val q = time_at e n (num_val c)"
    by (rule scale_selection_value [OF pic assms(5)])
  then have w': "pic w' = snd (set_range v ext q (r_end (pic w)) (pic w))" "\<not> moving_left w'"
    using assms(3,4) by (simp_all add: w'_def button_release_def attribute_def get_range_shown_def and_then_last)
  have p: "0 < e" "0 < n" "all_start (pic w) = F 0" "all_end (pic w) = F (of_int e)"
    "0 \<le> num_val (r_end (pic w))" "num_val (r_end (pic w)) \<le> of_int e" using pic by (simp_all add: float_picture_def)
  have "mono (time_at e n)"
    using p(1,2) by (intro monoI) (simp add: time_at_def divide_right_mono mult_right_mono)
  then have mono: "time_at e n (max 0 (min x (pixel e n t))) = max 0 (min (time_at e n x) t)" for t
    using time_at_pixel [OF p(1,2)] by (simp add: max_of_mono [symmetric] min_of_mono [symmetric]) (simp add: time_at_def)
  have "num_val q = max 0 (min (time_at e n x) (num_val (r_end (pic w))))"
    using mono by (simp add: q(2) assms(6) left_target_def)
  then show "num_val (r_start (pic w')) = max 0 (min (time_at e n x) (num_val (r_end (pic w))))"
    "num_val (r_end (pic w')) = num_val (r_end (pic w))" "\<not> moving_left w'" "in_sync (pic w')"
    using w' p by (simp_all add: set_range_result min_def max_def)
qed

text \<open>
  Dragging the left handle of the selection moves the start of the range to the time under the
  pointer, kept between zero and the end of the range, which stays, whatever way the pointer took.
\<close>

theorem drag_left_selects:
  fixes v ext cut_short w px py ms
  defines "w' \<equiv> session v ext cut_short w (Press px py # map (\<lambda>(x, y). Motion x y) ms @ [Release])"
  assumes pic: "float_picture e n (pic w)" and "gui_width w \<noteq> None"
    and rect: "get_selection_rectangle v (pic w) = Inr (x, y, width, height)"
    and press: "y < py" "py < y + height" "\<bar>px - num_val x\<bar> < 5" and "ms \<noteq> []"
  shows "num_val (r_start (pic w')) = max 0 (min (time_at e n (fst (last ms))) (num_val (r_end (pic w))))
    \<and> num_val (r_end (pic w')) = num_val (r_end (pic w)) \<and> \<not> moving_left w' \<and> in_sync (pic w')"
proof -
  let ?w = "w\<lparr>moving_left := True\<rparr>"
  let ?w1 = "session v ext cut_short ?w (map (\<lambda>(x, y). Motion x y) ms)"
  obtain d_x d_y d_w d_h where "get_data_rectangle (pic w) = (d_x, d_y, d_w, d_h)" by (rule prod_cases4)
  then have pressed: "handle v ext cut_short w (Press px py) = (Inr (), ?w)"
    using press by (simp add: button_press_def rect Let_def)
  obtain c where w1: "pic ?w1 = pic w" "holds_left ?w1"
    "moving_left_cur ?w1 = Some c" "is_float c \<or> c = I 0" "num_val c = left_target e n (pic w) (fst (last ms))"
    using motions_left [of e n ?w ms v ext cut_short] pic assms(3,8) by (auto simp: holds_left_def Let_def)
  have "w' = snd (handle v ext cut_short ?w1 Release)"
    by (simp add: w'_def session_Cons session_append session_Nil pressed del: handle.simps)
  then show ?thesis
    using release_left [OF _ _ w1(3,4), of e n "fst (last ms)" v ext cut_short] pic w1(1,2,5) by (simp add: holds_left_def)
qed

text \<open>
  Zooming out is the way back from zooming in, for a range of floating point numbers inside the
  whole; an integer range of Python 2 may lose one unit, since the half is rounded.
\<close>

theorem zoom_in_out:
  fixes v ext cut_short w
  defines "w' \<equiv> session v ext cut_short w [ZoomIn, ZoomOut]"
  assumes "is_float (r_start (pic w)) \<or> is_float (r_end (pic w))"
    and "num_val (all_start (pic w)) \<le> num_val (r_start (pic w))" "num_val (r_start (pic w)) \<le> num_val (r_end (pic w))"
      "num_val (r_end (pic w)) \<le> num_val (all_end (pic w))"
  shows "num_val (r_start (pic w')) = num_val (r_start (pic w)) \<and> num_val (r_end (pic w')) = num_val (r_end (pic w))"
proof -
  let ?s = "num_val (r_start (pic w))" and ?e = "num_val (r_end (pic w))"
  have half: "num_div v (num_sub (r_end (pic w)) (r_start (pic w))) (I 2) = Inr (F ((?e - ?s) / 2))"
    using assms(2) by (simp add: num_div_float disj_commute)
  define g1 where "g1 = snd (set_range v ext (r_start (pic w)) (num_add (r_start (pic w)) (F ((?e - ?s) / 2))) (pic w))"
  have w': "pic w' = snd (set_range v ext (r_start g1) (num_add (r_start g1) (num_mul (num_sub (r_end g1) (r_start g1)) (I 2))) g1)"
    using half by (simp add: w'_def session_def set_bigger_zoom_def set_smaller_zoom_def get_range_shown_def g1_def)
  note r = set_range_result(1-4) [of v ext "r_start (pic w)" "num_add (r_start (pic w)) (F ((?e - ?s) / 2))" "pic w",
      folded g1_def]
  have "num_val (r_start g1) = ?s" "num_val (r_end g1) = ?s + (?e - ?s) / 2"
    using assms(3-5) by (simp_all add: r min_def max_def field_simps)
  then show ?thesis using assms(3-5) r(3,4)
    by (simp add: w' set_range_result min_def max_def field_simps)
qed

text \<open>
  A click on a handle of a fresh window without a move of the pointer raises: the position of the
  handle is only set by a move.
\<close>

theorem click_without_drag:
  assumes "button_press v px py (new_gui g) = (taken, w)" "moving_left w \<or> moving_right w"
  shows "fst (handle v ext cut_short w Release) = Inl AttributeError"
proof -
  have "moving_left_cur w = None \<and> moving_right_cur w = None"
    using assms(1) by (auto simp: button_press_def new_gui_def Let_def attempt_def case_prod_unfold split: if_splits sum.splits)
  then show ?thesis using assms(2) by (auto simp: button_release_def attribute_def Let_def)
qed

text \<open>So does a drag of the right handle that reaches the right edge of the window at once.\<close>

lemma right_edge_lost:
  assumes "moving_right w" "\<not> moving_left w" "moving_right_cur w = None" "gui_width w = Some (I n)" "0 < n" "of_int n \<le> x"
    and "get_selection_rectangle v (pic w) = Inr rect"
  shows "\<exists>w'. handle v ext cut_short w (Motion x y) = (Inr (), w')
    \<and> fst (handle v ext cut_short w' Release) = Inl AttributeError"
  using assms
  by (cases rect)
    (simp add: motion_notify_def move_right_def redraw_selection_def attribute_def button_release_def)

text \<open>
  Under Python 2 a handle at an integer position, as the edge of the other handle is while the range
  is the default one, is divided by the integer width: the new bound is the start of the whole.
\<close>

lemma integer_handle_lost:
  assumes "pic_width g = I n" "0 \<le> x" "x < n"
  shows "\<exists>q. scale_selection Py2 g (I x) = Inr q \<and> num_val q = 0"
  using assms by (auto simp: scale_selection_def num_div.simps)

section \<open>Witnesses\<close>

text \<open>A window on sixty units of time, 120 pixels wide, that shows the range from 12 to 30.\<close>

definition demo_graphic :: graphic where
  "demo_graphic = \<lparr>all_start = F 0, all_end = F 60, mid_scale = set_bounds (F 12) (F 30) new_scale,
     bot_scale = (set_bounds (I 0) (I 60) new_scale)\<lparr>scale_width := I 120\<rparr>, pic_width = I 120, pic_height = I 90,
     r_start = F 12, r_end = F 30, data_part = set_render_range 12 30 new_renderer, legend_part = new_legend\<rparr>"

definition demo_gui :: gui where
  "demo_gui = (new_gui demo_graphic)\<lparr>gui_width := Some (I 120)\<rparr>"

theorem drag_left_selects_witness:
  "let w' = session Py2 demo_extents no_drawing demo_gui [Press 24 30, Motion 50 30, Motion 40 10, Release]
   in num_val (r_start (pic w')) = 20 \<and> num_val (r_end (pic w')) = 30"
proof -
  have rect: "get_selection_rectangle Py2 (pic demo_gui) = Inr (F 24, 20, F 36, 20)"
    by (simp add: demo_gui_def demo_graphic_def new_gui_def get_selection_rectangle_def get_position_def num_div_float
        set_bounds_def set_render_range_def new_renderer_def new_legend_def new_scale_def Let_def)
  have "float_picture 60 120 (pic demo_gui)"
    by (simp add: float_picture_def demo_gui_def demo_graphic_def new_gui_def set_bounds_def)
  from drag_left_selects [OF this _ rect, where px = 24 and py = 30 and ms = "[(50, 30), (40, 10)]" and ext = demo_extents
      and cut_short = no_drawing]
  show ?thesis
    by (simp add: demo_gui_def demo_graphic_def new_gui_def time_at_def Let_def)
qed

theorem zoom_in_out_witness:
  "num_val (r_end (pic (session Py2 demo_extents no_drawing demo_gui [ZoomIn, ZoomOut]))) = 30"
  using zoom_in_out [of demo_gui Py2 demo_extents no_drawing]
  by (simp add: demo_gui_def demo_graphic_def new_gui_def)

theorem click_without_drag_witness:
  "\<exists>w. button_press Py2 24 30 (new_gui demo_graphic) = (Inr True, w)
    \<and> fst (handle Py2 demo_extents no_drawing w Release) = Inl AttributeError"
proof -
  have press: "button_press Py2 24 30 (new_gui demo_graphic) = (Inr True, (new_gui demo_graphic)\<lparr>moving_left := True\<rparr>)"
    by code_simp
  from click_without_drag [OF press, where ext = demo_extents and cut_short = no_drawing] press show ?thesis by simp
qed

end
