(* ===== verification/RadNumeric.thy ===== *)
theory RadNumeric
  imports RadUtil PyNum
begin

text \<open>
  The numeric functions of the binding generator, \<open>bindings/python/rad_util.py\<close>: binary numerals and
  their enumeration, the area of a polygon, quantiles and the trimming of outliers, ranges of
  floating point numbers and the choice of a unit.  Floating point numbers are rationals, their
  rounding is not modelled; the formats \<open>%.nf\<close> and \<open>%.ng\<close> and \<open>round\<close> are arguments.
\<close>

section \<open>Binary numerals\<close>

text \<open>\<open>int(s, 2)\<close>: white space around, a sign and the prefix \<open>0b\<close> are allowed.\<close>

definition bin2int :: "string \<Rightarrow> py_error + int" where
  "bin2int bin_string =
     (let s = strip bin_string;
          (neg, s) = (case s of c # t \<Rightarrow> if c = CHR ''-'' then (True, t) else if c = CHR ''+'' then (False, t) else (False, s)
                      | [] \<Rightarrow> (False, s));
          s = (if startswith s ''0b'' \<or> startswith s ''0B'' then drop 2 s else s)
      in if s = [] \<or> \<not> list_all (\<lambda>c. c = CHR ''0'' \<or> c = CHR ''1'') s then Inl ValueError
         else Inr (if neg then - int (bin_value s) else int (bin_value s)))"

text \<open>
  \<open>binary_range\<close>: a counter with its least digit first.  \<open>carry\<close> is the inner loop with its
  array of the digits that toggle, \<open>binary_loop\<close> the outer one, which ends when the digit behind the
  last one toggles.
\<close>

function carry :: "nat \<Rightarrow> string \<Rightarrow> nat list \<Rightarrow> nat \<Rightarrow> string \<times> nat list" where
  "carry bits v toggle i =
     (if i < bits \<and> toggle ! i = 1
      then if v ! i = CHR ''0'' then carry bits (v[i := CHR ''1'']) (toggle[i + 1 := 0]) (i + 1)
           else carry bits (v[i := CHR ''0'']) (toggle[i + 1 := 1]) (i + 1)
      else (v, toggle))"
  by auto
termination by (relation "measure (\<lambda>(bits, v, toggle, i). bits - i)") auto

declare carry.simps [simp del]

partial_function (option) binary_loop :: "nat \<Rightarrow> string \<Rightarrow> nat list \<Rightarrow> string list \<Rightarrow> string list option" where
  "binary_loop bits v toggle l =
     (if toggle ! bits \<noteq> 1
      then let (v', toggle') = carry bits v (1 # replicate bits 0) 0
           in binary_loop bits v' toggle' (l @ [rev v])
      else Some l)"

definition binary_range :: "nat \<Rightarrow> string list option" where
  "binary_range bits = binary_loop bits (replicate bits (CHR ''0'')) (1 # replicate bits 0) []"

text \<open>\<open>random_vec\<close>: the numbers of the generator, as integers below 1024, are the
  argument \<open>rs\<close>.  The quotient of Python 3 is a floating point number, which \<open>hex\<close> refuses.\<close>

definition random_bits :: "int list \<Rightarrow> py_error + string" where
  "random_bits rs = for_each (\<lambda>vector i. rbind (int2bin i 10) (\<lambda>s. Inr (vector @ s))) [] rs"

definition random_vec :: "python \<Rightarrow> nat \<Rightarrow> int option \<Rightarrow> int list \<Rightarrow> py_error + string" where
  "random_vec v bits max_value rs =
     rbind (random_bits (take (bits div 10 + 1) rs)) (\<lambda>vector.
     rbind (case max_value of
         None \<Rightarrow> Inr vector
       | Some m \<Rightarrow>
           if m \<noteq> 0 \<and> m < 2 ^ bits - 1
           then rbind (bin2int vector) (\<lambda>n.
             if (2 :: int) ^ bits - 1 = 0 then Inl ZeroDivisionError
             else if v = Py3 then Inl TypeError
             else int2bin (n div (2 ^ bits - 1) * m) (int bits))
           else Inr vector) (\<lambda>vector. Inr (take bits vector)))"

section \<open>Polygons\<close>

text \<open>The argument is changed in place: the scaled and closed list is the second part of the result.\<close>

type_synonym point = "rat \<times> rat"

definition scale_point :: "int \<Rightarrow> point \<Rightarrow> int \<times> int" where
  "scale_point precision p = (cut (fst p * of_int precision), cut (snd p * of_int precision))"

definition close_polygon :: "(int \<times> int) list \<Rightarrow> (int \<times> int) list" where
  "close_polygon ps = (if last ps \<noteq> hd ps then ps @ [hd ps] else ps)"

fun shoelace :: "int \<Rightarrow> (int \<times> int) list \<Rightarrow> int" where
  "shoelace area (p # q # ps) = shoelace (area + fst q * snd p - snd q * fst p) (q # ps)"
| "shoelace area ps = area"

definition polygon_area :: "python \<Rightarrow> point list \<Rightarrow> int \<Rightarrow> py_error + (rat \<times> (int \<times> int) list)" where
  "polygon_area v points_list precision =
     (if points_list = [] then Inl IndexError
      else let ps = close_polygon (map (scale_point precision) points_list)
           in rbind (num_div v (I (shoelace 0 ps)) (I 2)) (\<lambda>half.
              if precision = 0 then Inl ZeroDivisionError
              else Inr (\<bar>num_val half\<bar> / of_int (precision ^ 2), ps)))"

section \<open>Statistics\<close>

definition nth_or_raise :: "rat list \<Rightarrow> int \<Rightarrow> py_error + rat" where
  "nth_or_raise xs i = (case py_nth xs i of None \<Rightarrow> Inl IndexError | Some x \<Rightarrow> Inr x)"

definition quantile :: "rat list \<Rightarrow> rat \<Rightarrow> py_error + rat" where
  "quantile l p =
     (let l_sort = sort l; n = int (length l); r = 1 + (of_int n - 1) * p; i = cut r; f = r - of_int i
      in if i < n
         then rbind (nth_or_raise l_sort (i - 1)) (\<lambda>a. rbind (nth_or_raise l_sort i) (\<lambda>b. Inr ((1 - f) * a + f * b)))
         else nth_or_raise l_sort (i - 1))"

definition median_of :: "rat list \<Rightarrow> py_error + rat" where
  "median_of l_sort =
     (let index = int (length l_sort) div 2
      in if length l_sort mod 2 = 0
         then rbind (nth_or_raise l_sort index) (\<lambda>a. rbind (nth_or_raise l_sort (index - 1)) (\<lambda>b. Inr ((a + b) / 2)))
         else nth_or_raise l_sort index)"

definition trim :: "rat list \<Rightarrow> py_error + rat list" where
  "trim l =
     (let l_sort = sort l
      in rbind (median_of l_sort) (\<lambda>median.
         rbind (quantile l_sort (1 / 4)) (\<lambda>q1. rbind (quantile l_sort (3 / 4)) (\<lambda>q3.
           let iqr_extra = (q3 - q1) * (3 / 2)
           in Inr (filter (\<lambda>x. q1 - iqr_extra \<le> x \<and> x \<le> q3 + iqr_extra) l_sort)))))"

section \<open>Ranges of floating point numbers\<close>

partial_function (option) float_loop :: "rat \<Rightarrow> rat \<Rightarrow> rat \<Rightarrow> rat list \<Rightarrow> rat list option" where
  "float_loop cur stop step l = (if cur < stop then float_loop (cur + step) stop step (l @ [cur]) else Some l)"

definition float_range :: "rat \<Rightarrow> rat option \<Rightarrow> rat option \<Rightarrow> rat list option" where
  "float_range start stop step =
     (let (start, stop) = (case stop of None \<Rightarrow> (0, start) | Some s \<Rightarrow> (start, s));
          step = (case step of None \<Rightarrow> 1 | Some s \<Rightarrow> s)
      in float_loop start stop step [])"

section \<open>Units\<close>

type_synonym prefixes = "(num \<times> string \<times> string) list"

definition si_prefixes :: prefixes where
  "si_prefixes =
     [(F (10 ^ 24), ''Y'', ''yotta''), (F (10 ^ 21), ''Z'', ''zetta''), (F (10 ^ 18), ''E'', ''exa''),
      (F (10 ^ 15), ''P'', ''peta''), (F (10 ^ 12), ''T'', ''tera''), (F (10 ^ 9), ''G'', ''giga''),
      (F (10 ^ 6), ''M'', ''mega''), (F (10 ^ 3), ''k'', ''kilo''), (F (1 / 10 ^ 3), ''m'', ''milli''),
      (F (1 / 10 ^ 6), ''u'', ''micro''), (F (1 / 10 ^ 9), ''n'', ''nano''), (F (1 / 10 ^ 12), ''p'', ''pico''),
      (F (1 / 10 ^ 15), ''f'', ''femto''), (F (1 / 10 ^ 18), ''a'', ''atto''), (F (1 / 10 ^ 21), ''z'', ''zepto''),
      (F (1 / 10 ^ 24), ''y'', ''yocto'')]"

definition extra_prefixes :: prefixes where
  "extra_prefixes =
     [(F 100, ''h'', ''hecto''), (F 10, ''da'', ''deka''), (F (1 / 10), ''d'', ''deci''), (F (1 / 100), ''c'', ''centi'')]"

definition bin_prefixes :: prefixes where
  "bin_prefixes =
     [(I (2 ^ 10), ''K'', ''kilo''), (I (2 ^ 20), ''M'', ''mega''), (I (2 ^ 30), ''G'', ''mega''),
      (I (2 ^ 40), ''T'', ''tera''), (I (2 ^ 50), ''P'', ''peta''), (I (2 ^ 60), ''E'', ''exa'')]"

record unit_options =
  dp :: nat
  sigfigs :: "nat option"
  unit_suffix :: string
  unit_space :: string
  use_extra_prefixes :: bool
  use_full_name :: bool
  bin_mode :: bool

definition default_units :: unit_options where
  "default_units = \<lparr>dp = 0, sigfigs = None, unit_suffix = '''', unit_space = '' '', use_extra_prefixes = False,
     use_full_name = False, bin_mode = False\<rparr>"

definition unit_prefixes :: "unit_options \<Rightarrow> prefixes" where
  "unit_prefixes opts =
     sort_key (\<lambda>(m, names). num_val m)
       ((if bin_mode opts then bin_prefixes
         else if use_extra_prefixes opts then si_prefixes @ extra_prefixes else si_prefixes) @ [(I 1, '''', '''')])"

text \<open>The loop over the multipliers, and the two cases behind it for a value that no pair encloses.\<close>

fun enclosing :: "num list \<Rightarrow> rat \<Rightarrow> nat option" where
  "enclosing (lower # upper # ms) amount =
     (if num_val lower \<le> amount \<and> amount < num_val upper then Some 0 else map_option Suc (enclosing (upper # ms) amount))"
| "enclosing ms amount = None"

definition choose_mult :: "num list \<Rightarrow> rat \<Rightarrow> nat" where
  "choose_mult ms amount =
     (if amount < num_val (hd ms) then 0
      else if num_val (last ms) \<le> amount then length ms - 1
      else case enclosing ms amount of Some i \<Rightarrow> i | None \<Rightarrow> 0)"

definition nice_units ::
  "python \<Rightarrow> (rat \<Rightarrow> nat \<Rightarrow> rat) \<Rightarrow> (nat \<Rightarrow> rat \<Rightarrow> string) \<Rightarrow> (nat \<Rightarrow> rat \<Rightarrow> string) \<Rightarrow> unit_options \<Rightarrow> num
    \<Rightarrow> py_error + string" where
  "nice_units v round_to fixed general opts amount =
     (if v = Py3 then Inl AttributeError
      else
        let prefixes = unit_prefixes opts; ms = map fst prefixes; i = choose_mult ms (num_val amount)
        in rbind (num_div v amount (ms ! i)) (\<lambda>new_value.
           rbind (if sigfigs opts = None \<and> i < length ms - 1
                  then rbind (num_div v (ms ! (i + 1)) (ms ! i)) (\<lambda>next_ratio.
                    if round_to (num_val new_value) (dp opts) = round_to (num_val next_ratio) (dp opts)
                    then rbind (num_div v amount (ms ! (i + 1))) (\<lambda>new_value. Inr (i + 1, new_value))
                    else Inr (i, new_value))
                  else Inr (i, new_value)) (\<lambda>(i, new_value).
           let str_value = (case sigfigs opts of None \<Rightarrow> fixed (dp opts) (num_val new_value)
                            | Some s \<Rightarrow> general s (num_val new_value));
               (symbol, full_name) = snd (prefixes ! i)
           in Inr (str_value @ unit_space opts @ (if use_full_name opts then full_name else symbol) @ unit_suffix opts))))"

text \<open>\<open>pt2str\<close>, with \<open>str\<close> of a number as an argument.\<close>

definition pt2str :: "(rat \<Rightarrow> string) \<Rightarrow> point \<Rightarrow> string" where
  "pt2str str p = ''('' @ str (fst p) @ '', '' @ str (snd p) @ '')''"


section \<open>Numerals and their enumeration\<close>

definition binary :: "string \<Rightarrow> bool" where
  "binary s = (set s \<subseteq> {CHR ''0'', CHR ''1''})"

lemma bin_value_Cons: "bin_value (c # s) = (if c = CHR ''1'' then 2 ^ length s else 0) + bin_value s"
  using bin_value_append [of "[c]" s] by (simp add: bin_value_def [of "[c]"])

lemma binary_unique:
  "length s = length t \<Longrightarrow> binary s \<Longrightarrow> binary t \<Longrightarrow> bin_value s = bin_value t \<Longrightarrow> s = t"
proof (induction s t rule: list_induct2)
  case (Cons c s d t)
  have "bin_value s < 2 ^ length t" "bin_value t < 2 ^ length t"
    using bin_value_bound [of s] bin_value_bound [of t] Cons.hyps by simp_all
  then have "c = CHR ''1'' \<longleftrightarrow> d = CHR ''1''" "bin_value s = bin_value t"
    using Cons.prems(3) Cons.hyps by (auto simp: bin_value_Cons split: if_splits)
  with Cons show ?case by (auto simp: binary_def)
qed simp

lemma int2bin_binary:
  assumes "binary s" "s \<noteq> []"
  shows "int2bin (int (bin_value s)) (int (length s)) = Inr s"
proof -
  obtain t where t: "int2bin (int (bin_value s)) (int (length s)) = Inr t" "length t = length s"
    "bin_value t = bin_value s" "binary t"
    using int2bin_result [of "length s" "bin_value s"] assms(2) bin_value_bound [of s] by (auto simp: binary_def)
  then show ?thesis using binary_unique [of t s] assms(1) by simp
qed

lemma strip_binary: "binary s \<Longrightarrow> strip s = s"
proof -
  have "dropWhile is_space s = s" if "binary s" for s
    using that by (cases s) (auto simp: binary_def is_space_def)
  from this [of s] this [of "rev s"] show "binary s \<Longrightarrow> strip s = s" by (simp add: strip_def binary_def)
qed

lemma bin2int_binary:
  assumes "binary s" "s \<noteq> []"
  shows "bin2int s = Inr (int (bin_value s))"
proof -
  have "\<not> startswith s ''0b''" "\<not> startswith s ''0B''"
    using assms(1) by (auto simp: startswith_iff binary_def)
  moreover have "list_all (\<lambda>c. c = CHR ''0'' \<or> c = CHR ''1'') s" using assms(1) by (auto simp: binary_def list_all_iff)
  moreover have "(case s of c # t \<Rightarrow> if c = CHR ''-'' then (True, t) else if c = CHR ''+'' then (False, t) else (False, s)
      | [] \<Rightarrow> (False, s)) = (False, s)" using assms by (cases s) (auto simp: binary_def)
  ultimately show ?thesis using assms(2) by (simp add: bin2int_def strip_binary [OF assms(1)] Let_def)
qed

text \<open>The inner loop adds one: the digits up to the first zero are turned over, the rest stays.\<close>

fun increment :: "string \<Rightarrow> string \<times> bool" where
  "increment [] = ([], True)"
| "increment (c # cs) =
     (if c = CHR ''0'' then (CHR ''1'' # cs, False)
      else let (ds, over) = increment cs in (CHR ''0'' # ds, over))"

lemma carry_increment:
  assumes "length v = bits" "length toggle = bits + 1" "toggle ! i = 1" "i \<le> bits"
    "\<And>j. i < j \<Longrightarrow> j \<le> bits \<Longrightarrow> toggle ! j = 0"
  shows "\<exists>toggle'. carry bits v toggle i = (take i v @ fst (increment (drop i v)), toggle')
    \<and> (toggle' ! bits = 1 \<longleftrightarrow> snd (increment (drop i v)))"
  using assms
proof (induction bits v toggle i rule: carry.induct)
  case (1 bits v toggle i)
  show ?case
  proof (cases "i < bits")
    case False
    then have "carry bits v toggle i = (v, toggle)" by (subst carry.simps) simp
    with False "1.prems" show ?thesis by simp
  next
    case True
    then have v: "drop i v = v ! i # drop (Suc i) v" "i < length v" using "1.prems"(1) by (simp_all add: Cons_nth_drop_Suc)
    show ?thesis
    proof (cases "v ! i = CHR ''0''")
      case zero: True
      have "(toggle[i + 1 := 0]) ! (i + 1) \<noteq> 1" using "1.prems"(2) True by simp
      then have "carry bits (v[i := CHR ''1'']) (toggle[i + 1 := 0]) (i + 1) = (v[i := CHR ''1''], toggle[i + 1 := 0])"
        by (simp add: carry.simps [of bits "v[i := CHR ''1'']"])
      moreover have "toggle[i + 1 := 0] ! bits = 0"
        using "1.prems"(2,5) True by (cases "bits = i + 1") simp_all
      ultimately show ?thesis using zero True "1.prems"(3) v
        by (simp add: carry.simps [of bits v toggle i] upd_conv_take_nth_drop)
    next
      case one: False
      let ?v = "v[i := CHR ''0'']" and ?t = "toggle[i + 1 := 1]"
      have later: "?t ! j = 0" if "i + 1 < j" "j \<le> bits" for j using "1.prems"(5) [of j] that by simp
      obtain toggle' where t: "carry bits ?v ?t (i + 1) =
          (take (i + 1) ?v @ fst (increment (drop (i + 1) ?v)), toggle')"
        "toggle' ! bits = 1 \<longleftrightarrow> snd (increment (drop (i + 1) ?v))"
        using "1.IH"(2) [OF conjI [OF True "1.prems"(3)] one] "1.prems"(1,2) True later by auto
      have "take (i + 1) ?v = take i v @ [CHR ''0'']" using v(2) by (simp add: take_Suc_conv_app_nth)
      with t one True "1.prems"(3) v show ?thesis
        by (simp add: carry.simps [of bits v toggle i] case_prod_unfold Let_def)
    qed
  qed
qed


lemma increment_value:
  "binary v \<Longrightarrow> (ds, over) = increment v \<Longrightarrow>
   length ds = length v \<and> binary ds
   \<and> bin_value (rev ds) + (if over then 2 ^ length v else 0) = bin_value (rev v) + 1"
proof (induction v arbitrary: ds over)
  case (Cons c cs)
  obtain es o2 where inc: "increment cs = (es, o2)" by fastforce
  have IH: "length es = length cs \<and> binary es
      \<and> bin_value (rev es) + (if o2 then 2 ^ length cs else 0) = bin_value (rev cs) + 1"
    using Cons.IH [of es o2] Cons.prems(1) inc by (simp add: binary_def)
  have snoc: "bin_value (s @ [d]) = 2 * bin_value s + (if d = CHR ''1'' then 1 else 0)" for s d
    by (simp add: bin_value_def)
  show ?case using Cons.prems IH inc by (auto simp: snoc binary_def split: if_splits)
qed (simp add: binary_def bin_value_def)

lemma binary_loop_counts:
  assumes "0 < bits" "length v = bits" "binary v" "toggle ! bits \<noteq> 1"
  shows "\<exists>ss. binary_loop bits v toggle l = Some (l @ ss) \<and> length ss = 2 ^ bits - bin_value (rev v)
    \<and> (\<forall>k < length ss. binary (ss ! k) \<and> length (ss ! k) = bits \<and> bin_value (ss ! k) = bin_value (rev v) + k)"
  using assms
proof (induction "2 ^ bits - bin_value (rev v)" arbitrary: v toggle l rule: less_induct)
  case less
  obtain ds over where inc: "increment v = (ds, over)" by fastforce
  obtain toggle' where t: "carry bits v (1 # replicate bits 0) 0 = (ds, toggle')" "toggle' ! bits = 1 \<longleftrightarrow> over"
    using carry_increment [of v bits "1 # replicate bits 0" 0] less.prems(2) inc by (auto simp: nth_Cons')
  have value_v: "bin_value (rev v) < 2 ^ bits" using bin_value_bound [of "rev v"] less.prems(2) by simp
  have ds: "length ds = bits" "binary ds"
    "bin_value (rev ds) + (if over then 2 ^ bits else 0) = bin_value (rev v) + 1"
    using increment_value [of v ds over] less.prems(2,3) inc by auto
  have step: "binary_loop bits v toggle l = binary_loop bits ds toggle' (l @ [rev v])"
    using less.prems(4) t(1) by (subst binary_loop.simps) simp
  have v: "binary (rev v)" "length (rev v) = bits" using less.prems(2,3) by (simp_all add: binary_def)
  show ?case
  proof (cases over)
    case True
    then have "binary_loop bits ds toggle' (l @ [rev v]) = Some (l @ [rev v])" "2 ^ bits - bin_value (rev v) = 1"
      using t(2) ds(3) value_v by (simp_all add: binary_loop.simps [of bits ds toggle'])
    with v show ?thesis by (intro exI [of _ "[rev v]"]) (simp add: step)
  next
    case False
    then have next_value: "bin_value (rev ds) = bin_value (rev v) + 1" using ds(3) by simp
    have next_bound: "bin_value (rev ds) < 2 ^ bits" using bin_value_bound [of "rev ds"] ds(1) by simp
    have "\<exists>ss. binary_loop bits ds toggle' (l @ [rev v]) = Some ((l @ [rev v]) @ ss)
        \<and> length ss = 2 ^ bits - bin_value (rev ds)
        \<and> (\<forall>k < length ss. binary (ss ! k) \<and> length (ss ! k) = bits \<and> bin_value (ss ! k) = bin_value (rev ds) + k)"
    proof (rule less.hyps)
      show "2 ^ bits - bin_value (rev ds) < 2 ^ bits - bin_value (rev v)" using next_value next_bound by linarith
    qed (use less.prems(1) ds(1,2) t(2) False in simp_all)
    then obtain ss where ss: "binary_loop bits ds toggle' (l @ [rev v]) = Some ((l @ [rev v]) @ ss)"
      "length ss = 2 ^ bits - bin_value (rev ds)"
      "\<forall>k < length ss. binary (ss ! k) \<and> length (ss ! k) = bits \<and> bin_value (ss ! k) = bin_value (rev ds) + k"
      by blast
    then show ?thesis using v next_value value_v next_bound
      by (intro exI [of _ "rev v # ss"]) (auto simp: step nth_Cons split: nat.splits)
  qed
qed

text \<open>
  \<open>binary_range\<close> returns, and for a width that is not zero its list holds the numeral that \<open>int2bin\<close>
  gives for every number of that width, in order; for the width zero it is empty, though there is
  one numeral of no digits.
\<close>

theorem binary_range_all:
  "binary_range 0 = Some []
   \<and> (\<exists>ss. binary_range (Suc n) = Some ss \<and> length ss = 2 ^ Suc n
        \<and> list_all2 (\<lambda>k s. int2bin (int k) (int (Suc n)) = Inr s) [0..<2 ^ Suc n] ss)"
proof
  show "binary_range 0 = Some []" by (simp add: binary_range_def binary_loop.simps)
  let ?b = "Suc n" and ?v = "replicate (Suc n) (CHR ''0'')"
  have "bin_value (rev ?v) = 0" using bin_value_0 [of ?v] by (simp del: replicate_Suc)
  then obtain ss where ss: "binary_range ?b = Some ss" "length ss = 2 ^ ?b"
    "\<forall>k < length ss. binary (ss ! k) \<and> length (ss ! k) = ?b \<and> bin_value (ss ! k) = k"
    using binary_loop_counts [of ?b ?v "1 # replicate ?b 0" "[]"]
    by (auto simp: binary_range_def binary_def nth_Cons' simp del: replicate_Suc)
  have "int2bin (int k) (int ?b) = Inr (ss ! k)" if "k < 2 ^ ?b" for k
    using int2bin_binary [of "ss ! k"] ss(2,3) that by (metis length_0_conv nat.distinct(1))
  then show "\<exists>ss. binary_range ?b = Some ss \<and> length ss = 2 ^ ?b
        \<and> list_all2 (\<lambda>k s. int2bin (int k) (int ?b) = Inr s) [0..<2 ^ ?b] ss"
    using ss(1,2) by (intro exI [of _ ss]) (simp add: list_all2_conv_all_nth del: power_Suc)
qed

text \<open>\<open>bin2int\<close> and \<open>int2bin\<close> undo each other.\<close>

theorem bin2int_int2bin:
  assumes "0 < n"
  shows "(i < 2 ^ n \<longrightarrow> rbind (int2bin (int i) (int n)) bin2int = Inr (int i))
    \<and> (binary s \<and> s \<noteq> [] \<longrightarrow> rbind (bin2int s) (\<lambda>k. int2bin k (int (length s))) = Inr s)"
proof -
  have "rbind (int2bin (int i) (int n)) bin2int = Inr (int i)" if i: "i < 2 ^ n"
  proof -
    obtain t where "int2bin (int i) (int n) = Inr t" "length t = n" "bin_value t = i" "binary t"
      using int2bin_result [OF assms, of i] i by (auto simp: binary_def)
    moreover from this have "t \<noteq> []" using assms by auto
    ultimately show ?thesis by (simp add: bin2int_binary)
  qed
  then show ?thesis by (simp add: bin2int_binary int2bin_binary)
qed

theorem bin2int_int2bin_witness: "rbind (int2bin 123 8) bin2int = Inr 123"
  using bin2int_int2bin [of 8 123 "''1''"] by simp

section \<open>Ranges of floating point numbers\<close>

lemma float_loop_stop: "stop \<le> cur \<Longrightarrow> float_loop cur stop step l = Some l"
  by (subst float_loop.simps) simp

lemma float_loop_progression:
  "0 < step \<Longrightarrow> cur + (of_nat n - 1) * step < stop \<or> n = 0 \<Longrightarrow> stop \<le> cur + of_nat n * step \<Longrightarrow>
   float_loop cur stop step l = Some (l @ map (\<lambda>k. cur + of_nat k * step) [0..<n])"
proof (induction n arbitrary: cur l)
  case (Suc n)
  have "0 \<le> of_nat n * step" using Suc.prems(1) by simp
  with Suc.prems(2) have less: "cur < stop" by simp
  have "float_loop cur stop step l = float_loop (cur + step) stop step (l @ [cur])"
    using less by (subst float_loop.simps) simp
  also have "\<dots> = Some ((l @ [cur]) @ map (\<lambda>k. (cur + step) + of_nat k * step) [0..<n])"
    using Suc.prems by (intro Suc.IH) (auto simp: algebra_simps)
  also have "map (\<lambda>k. (cur + step) + of_nat k * step) [0..<n] = map (\<lambda>k. cur + of_nat k * step) [1..<Suc n]"
    by (simp add: map_Suc_upt [symmetric] algebra_simps del: map_Suc_upt upt_Suc)
  finally show ?case by (simp add: upt_conv_Cons del: upt_Suc)
qed (simp add: float_loop_stop)

lemma float_loop_returns:
  assumes "float_loop cur stop step l = Some l'"
  shows "cur < stop \<longrightarrow> 0 < step"
proof (rule float_loop.raw_induct [where P = "\<lambda>cur stop step l l'. cur < stop \<longrightarrow> 0 < step", OF _ assms])
  fix loop and cur stop step :: rat and l l'
  assume IH: "\<And>cur stop step l l'. loop cur stop step l = Some l' \<Longrightarrow> cur < stop \<longrightarrow> 0 < step"
    and run: "(if cur < stop then loop (cur + step) stop step (l @ [cur]) else Some l) = Some l'"
  show "cur < stop \<longrightarrow> 0 < step"
  proof
    assume "cur < stop"
    with IH [of "cur + step" stop step] run have "cur + step < stop \<longrightarrow> 0 < step" by auto
    with \<open>cur < stop\<close> show "0 < step" by linarith
  qed
qed

text \<open>
  \<open>float_range\<close> with a step above zero returns the arithmetic progression below the end, which has
  as many numbers as steps fit; with another step it returns only where the range is empty.
\<close>

theorem float_range_result:
  "float_range a (Some b) (Some s) =
    (if b \<le> a then Some []
     else if 0 < s then Some (map (\<lambda>k. a + of_nat k * s) [0..<nat \<lceil>(b - a) / s\<rceil>])
     else None)"
proof -
  consider "b \<le> a" | "a < b" "0 < s" | "a < b" "s \<le> 0" by linarith
  then show ?thesis
  proof cases
    case 2
    define n where "n = nat \<lceil>(b - a) / s\<rceil>"
    have "0 < (b - a) / s" using 2 by simp
    then have n: "of_nat n = (of_int \<lceil>(b - a) / s\<rceil> :: rat)" by (simp add: n_def)
    have "of_nat n - 1 < (b - a) / s" "(b - a) / s \<le> of_nat n" unfolding n by linarith+
    then have "(of_nat n - 1) * s < b - a" "b - a \<le> of_nat n * s"
      using 2(2) by (simp_all add: less_divide_eq divide_le_eq)
    then show ?thesis using 2 float_loop_progression [of s a n b "[]"] by (simp add: float_range_def n_def)
  next
    case 3
    then have "float_loop a b s [] = None" using float_loop_returns [of a b s "[]"] by (cases "float_loop a b s []") auto
    with 3 show ?thesis by (simp add: float_range_def)
  qed (simp add: float_range_def float_loop_stop)
qed

section \<open>The area of a polygon\<close>

definition edge :: "int \<times> int \<Rightarrow> int \<times> int \<Rightarrow> int" where
  "edge p q = fst q * snd p - snd q * fst p"

definition turn :: "(int \<times> int) list \<Rightarrow> int" where
  "turn ps = shoelace 0 (ps @ [hd ps])"

lemma shoelace_from: "shoelace a ps = a + shoelace 0 ps"
proof (induction ps arbitrary: a rule: induct_list012)
  case (3 p q ps)
  show ?case using "3.IH"(2) [of "a + fst q * snd p - snd q * fst p"] "3.IH"(2) [of "fst q * snd p - snd q * fst p"]
    by simp
qed simp_all

lemma shoelace_Cons: "shoelace 0 (p # q # ps) = edge p q + shoelace 0 (q # ps)"
  using shoelace_from [of "edge p q" "q # ps"] by (simp add: edge_def)

lemma shoelace_snoc: "ps \<noteq> [] \<Longrightarrow> shoelace 0 (ps @ [q]) = shoelace 0 ps + edge (last ps) q"
proof (induction ps rule: induct_list012)
  case (3 p p' ps)
  then show ?case using shoelace_Cons [of p p' "ps @ [q]"] shoelace_Cons [of p p' ps] by simp
qed (simp_all add: edge_def)

lemma shoelace_rev: "shoelace 0 (rev ps) = - shoelace 0 ps"
proof (induction ps rule: induct_list012)
  case (3 p q ps)
  then show ?case using shoelace_snoc [of "rev (q # ps)" p] shoelace_Cons [of p q ps]
    by (simp add: edge_def)
qed simp_all

lemma close_polygon_turn: "ps \<noteq> [] \<Longrightarrow> shoelace 0 (close_polygon ps) = turn ps"
  using shoelace_snoc [of ps "hd ps"] by (auto simp: close_polygon_def turn_def edge_def)

lemma turn_rotate1: "turn (rotate1 ps) = turn ps"
proof (cases ps)
  case (Cons p rest)
  then show ?thesis
  proof (cases rest)
    case (Cons q r)
    have "turn (rotate1 ps) = shoelace 0 (q # r @ [p]) + edge p q"
      using shoelace_snoc [of "q # r @ [p]" q] \<open>ps = p # rest\<close> Cons by (simp add: turn_def)
    then show ?thesis using shoelace_Cons [of p q "r @ [p]"] \<open>ps = p # rest\<close> Cons by (simp add: turn_def)
  qed simp
qed simp

lemma turn_rotate: "turn (rotate k ps) = turn ps"
  by (induction k) (simp_all add: turn_rotate1)

lemma turn_rev: "turn (rev ps) = - turn ps"
proof (cases ps)
  case (Cons p rest)
  have "turn (rev ps) = turn (p # rev rest)" using turn_rotate1 [of "p # rev rest"] Cons by simp
  also have "\<dots> = shoelace 0 (rev (p # rest @ [p]))" by (simp add: turn_def)
  finally show ?thesis using Cons by (simp add: shoelace_rev turn_def del: rev.simps rev_append)
qed (simp add: turn_def)

lemma polygon_area_turn:
  assumes "l \<noteq> []" "c \<noteq> 0"
  shows "map_sum id fst (polygon_area Py3 l c) = Inr (\<bar>of_int (turn (map (scale_point c) l)) / 2\<bar> / of_int (c ^ 2))"
  using assms by (simp add: polygon_area_def Let_def close_polygon_turn num_div.simps)

text \<open>
  The area under Python 3 depends on neither the corner the list starts with nor its direction nor
  on the list being closed, and it is right for a rectangle.  Python 2 halves an integer, so a list
  with one digit of precision and its reverse may have different areas.
\<close>

theorem polygon_area_corners:
  assumes "l \<noteq> []" "c \<noteq> 0"
  shows "(\<exists>A \<ge> 0. map_sum id fst (polygon_area Py3 l c) = Inr A
      \<and> map_sum id fst (polygon_area Py3 (rotate k l) c) = Inr A
      \<and> map_sum id fst (polygon_area Py3 (rev l) c) = Inr A
      \<and> map_sum id fst (polygon_area Py3 (l @ [hd l]) c) = Inr A)
    \<and> map_sum id fst (polygon_area Py3 [(of_int x, of_int y), (of_int (x + w), of_int y),
      (of_int (x + w), of_int (y + h)), (of_int x, of_int (y + h))] c) = Inr (of_int \<bar>w * h\<bar>)
    \<and> map_sum id fst (polygon_area Py2 [(0, 0), (1, 0), (0, 1)] 1) = Inr 1
    \<and> map_sum id fst (polygon_area Py2 [(0, 1), (1, 0), (0, 0)] 1) = Inr 0"
proof (intro conjI)
  let ?A = "\<bar>of_int (turn (map (scale_point c) l)) / 2\<bar> / of_int (c ^ 2) :: rat"
  have "map_sum id fst (polygon_area Py3 (rotate k l) c) = Inr ?A"
    using polygon_area_turn [of "rotate k l" c] assms by (simp add: turn_rotate flip: rotate_map)
  moreover have "map_sum id fst (polygon_area Py3 (rev l) c) = Inr ?A"
    using polygon_area_turn [of "rev l" c] assms by (simp add: turn_rev flip: rev_map)
  moreover have "turn (map (scale_point c) (l @ [hd l])) = turn (map (scale_point c) l)"
    using assms(1) shoelace_snoc [of "map (scale_point c) (l @ [hd l])" "scale_point c (hd l)"]
    by (simp add: turn_def hd_append hd_map edge_def)
  then have "map_sum id fst (polygon_area Py3 (l @ [hd l]) c) = Inr ?A"
    using polygon_area_turn [of "l @ [hd l]" c] assms by simp
  ultimately show "\<exists>A \<ge> 0. map_sum id fst (polygon_area Py3 l c) = Inr A
      \<and> map_sum id fst (polygon_area Py3 (rotate k l) c) = Inr A
      \<and> map_sum id fst (polygon_area Py3 (rev l) c) = Inr A
      \<and> map_sum id fst (polygon_area Py3 (l @ [hd l]) c) = Inr A"
    using polygon_area_turn [OF assms] by (intro exI [of _ ?A]) simp
next
  let ?box = "[(of_int x, of_int y), (of_int (x + w), of_int y), (of_int (x + w), of_int (y + h)), (of_int x, of_int (y + h))]"
  have cut_int: "cut (of_int a * of_int c) = a * c" for a
    unfolding of_int_mult [symmetric] by (simp only: cut_def floor_of_int ceiling_of_int if_cancel)
  have scaled: "map (scale_point c) ?box = [(x * c, y * c), ((x + w) * c, y * c), ((x + w) * c, (y + h) * c), (x * c, (y + h) * c)]"
    by (simp add: scale_point_def cut_int del: of_int_add)
  have "turn (map (scale_point c) ?box) = - 2 * (w * h * c ^ 2)"
    unfolding scaled by (simp add: turn_def algebra_simps power2_eq_square)
  moreover have "\<bar>of_int (- 2 * (w * h * c ^ 2)) / 2\<bar> / of_int (c ^ 2) = (of_int \<bar>w * h\<bar> :: rat)"
    using assms(2) by (simp add: abs_mult)
  ultimately show "map_sum id fst (polygon_area Py3 ?box c) = Inr (of_int \<bar>w * h\<bar>)"
    using polygon_area_turn [of ?box c] assms(2) by simp
qed code_simp+

theorem polygon_area_corners_witness:
  "map_sum id fst (polygon_area Py3 [(0, 0), (0, 1), (1, 1), (1, 2), (2, 2), (2, 0), (0, 0)] 100) = Inr 3
   \<and> map_sum id fst (polygon_area Py3 (rev [(0, 0), (0, 1), (1, 1), (1, 2), (2, 2), (2, 0), (0, 0)]) 100) = Inr 3"
proof -
  have "map_sum id fst (polygon_area Py3 [(0, 0), (0, 1), (1, 1), (1, 2), (2, 2), (2, 0), (0, 0)] 100) = Inr 3"
    by code_simp
  then show ?thesis
    using polygon_area_corners [of "[(0, 0), (0, 1), (1, 1), (1, 2), (2, 2), (2, 0), (0, 0)]" 100] by auto
qed

section \<open>Quantiles\<close>

text \<open>The value between two neighbours, \<open>between s k f\<close>, at the fraction \<open>f\<close> of the way.\<close>

definition between :: "rat list \<Rightarrow> nat \<Rightarrow> rat \<Rightarrow> rat" where
  "between s k f = (if Suc k < length s then (1 - f) * s ! k + f * s ! Suc k else s ! k)"

lemma quantile_between:
  assumes "l \<noteq> []" "0 \<le> p" "p \<le> 1"
  defines "r \<equiv> (of_nat (length l) - 1) * p"
  shows "quantile l p = Inr (between (sort l) (nat \<lfloor>r\<rfloor>) (r - of_int \<lfloor>r\<rfloor>))"
    and "0 \<le> r" "r \<le> of_nat (length l) - 1"
proof -
  let ?n = "length l"
  have n: "1 \<le> ?n" using assms(1) by (cases l) simp_all
  then have n1: "0 \<le> (of_nat ?n - 1 :: rat)" by simp
  then show r: "0 \<le> r" "r \<le> of_nat ?n - 1" using assms(2,3) mult_left_le [of p "of_nat ?n - 1"] by (simp_all add: r_def)
  define k where "k = nat \<lfloor>r\<rfloor>"
  have k: "\<lfloor>r\<rfloor> = int k" using r(1) by (simp add: k_def)
  have "int k \<le> int ?n - 1" using floor_mono [OF r(2)] k by simp
  then have kn: "k < ?n" using n by linarith
  have cut: "cut (1 + r) = int k + 1" using r(1) by (simp add: cut_def k)
  have "quantile l p = (if int k + 1 < int ?n
      then Inr ((1 - (1 + r - of_int (int k + 1))) * sort l ! k + (1 + r - of_int (int k + 1)) * sort l ! (k + 1))
      else Inr (sort l ! k))"
    using kn cut py_nth_nat [of k "sort l"] py_nth_nat [of "Suc k" "sort l"]
    by (auto simp: quantile_def Let_def r_def nth_or_raise_def add.commute)
  then show "quantile l p = Inr (between (sort l) (nat \<lfloor>r\<rfloor>) (r - of_int \<lfloor>r\<rfloor>))"
    using kn by (simp add: between_def k add.commute)
qed

lemma between_bounds:
  assumes "sorted s" "0 \<le> f" "f < 1" "k < length s"
  shows "s ! k \<le> between s k f" "Suc k < length s \<Longrightarrow> between s k f \<le> s ! Suc k"
proof -
  have step: "s ! k \<le> s ! Suc k" if "Suc k < length s" using assms(1) that by (simp add: sorted_nth_mono)
  have "(1 - f) * a + f * b = a + f * (b - a)" for a b by (simp add: algebra_simps)
  then have eq: "between s k f = (if Suc k < length s then s ! k + f * (s ! Suc k - s ! k) else s ! k)"
    by (simp add: between_def)
  show "s ! k \<le> between s k f" using step assms(2) by (simp add: eq)
  show "between s k f \<le> s ! Suc k" if "Suc k < length s"
    using step mult_left_le_one_le [of "s ! Suc k - s ! k" f] assms(2,3) that by (simp add: eq)
qed

lemma between_mono:
  assumes "sorted s" "0 \<le> q" "q \<le> r" "r \<le> of_nat (length s) - 1"
  shows "between s (nat \<lfloor>q\<rfloor>) (q - of_int \<lfloor>q\<rfloor>) \<le> between s (nat \<lfloor>r\<rfloor>) (r - of_int \<lfloor>r\<rfloor>)"
proof -
  let ?k = "nat \<lfloor>q\<rfloor>" and ?m = "nat \<lfloor>r\<rfloor>" and ?f = "q - of_int \<lfloor>q\<rfloor>" and ?g = "r - of_int \<lfloor>r\<rfloor>"
  have f: "0 \<le> ?f" "?f < 1" "0 \<le> ?g" "?g < 1" by linarith+
  have "\<lfloor>r\<rfloor> \<le> int (length s) - 1" using floor_mono [OF assms(4)] by simp
  moreover have floor: "\<lfloor>q\<rfloor> \<le> \<lfloor>r\<rfloor>" "0 \<le> \<lfloor>q\<rfloor>" using assms(2,3) by (simp_all add: floor_mono)
  ultimately have m: "?m < length s" "?k \<le> ?m" by linarith+
  show ?thesis
  proof (cases "?k = ?m")
    case True
    then have "\<lfloor>q\<rfloor> = \<lfloor>r\<rfloor>" using floor by linarith
    then have "?f \<le> ?g" using assms(3) by simp
    moreover have "s ! ?m \<le> s ! Suc ?m" if "Suc ?m < length s" using assms(1) that by (simp add: sorted_nth_mono)
    ultimately have "(1 - ?f) * s ! ?m + ?f * s ! Suc ?m \<le> (1 - ?g) * s ! ?m + ?g * s ! Suc ?m" if "Suc ?m < length s"
      using mult_right_mono [of ?f ?g "s ! Suc ?m - s ! ?m"] that by (simp add: algebra_simps)
    then show ?thesis using True by (simp add: between_def)
  next
    case False
    then have "Suc ?k \<le> ?m" using m(2) by simp
    then have "between s ?k ?f \<le> s ! Suc ?k" "s ! Suc ?k \<le> s ! ?m"
      using between_bounds(2) [OF assms(1) f(1,2)] m(1) assms(1) by (auto intro: sorted_nth_mono)
    then show ?thesis using between_bounds(1) [OF assms(1) f(3,4) m(1)] by linarith
  qed
qed

lemma sorted_ends:
  fixes s :: "'a :: linorder list"
  assumes "sorted s" "s \<noteq> []"
  shows "Min (set s) = s ! 0" "Max (set s) = s ! (length s - 1)"
  using assms by (auto intro!: Min_eqI Max_eqI sorted_nth_mono nth_mem simp: in_set_conv_nth [of _ s]
    intro: exI [of _ 0] exI [of _ "length s - 1"])

lemma quantile_ends:
  assumes "l \<noteq> []"
  shows "quantile l 0 = Inr (Min (set l))" "quantile l 1 = Inr (Max (set l))"
proof -
  have s: "sort l \<noteq> []" "0 < length l" using assms length_sort [where xs = l] by (metis length_0_conv, simp)
  then have "quantile l 0 = Inr (sort l ! 0)" using quantile_between(1) [OF assms, of 0] by (simp add: between_def)
  then show "quantile l 0 = Inr (Min (set l))" using sorted_ends(1) [of "sort l"] s(1) by simp
  have last_index: "nat (int (length l) - 1) = length l - 1" by simp
  have "(of_nat (length l) - 1) * 1 = (of_nat (length l - 1) :: rat)" using s(2) by (cases "length l") simp_all
  then have "quantile l 1 = Inr (sort l ! (length l - 1))"
    using quantile_between(1) [OF assms, of 1] s(2) last_index by (simp add: between_def)
  then show "quantile l 1 = Inr (Max (set l))" using sorted_ends(2) [of "sort l"] s(1) by simp
qed

lemma quantile_mono:
  assumes "l \<noteq> []" "0 \<le> p" "p \<le> p'" "p' \<le> 1"
  shows "\<exists>q q'. quantile l p = Inr q \<and> quantile l p' = Inr q' \<and> q \<le> q'"
proof -
  have n: "0 \<le> (of_nat (length l) - 1 :: rat)" using assms(1) by (cases l) simp_all
  have p: "p \<le> 1" "0 \<le> p'" using assms by simp_all
  note q = quantile_between [OF assms(1,2) p(1)] and q' = quantile_between [OF assms(1) p(2) assms(4)]
  show ?thesis using between_mono [of "sort l", OF _ q(2) mult_left_mono [OF assms(3) n]] q(1) q'(1,3) by simp
qed

text \<open>
  The quantiles of a list that is not empty: the least element at 0, the greatest at 1, and no
  smaller quantile for a greater fraction, so that all of them lie in between.
\<close>

theorem quantile_monotone:
  assumes "l \<noteq> []" "0 \<le> p" "p \<le> p'" "p' \<le> 1"
  shows "\<exists>q q'. quantile l p = Inr q \<and> quantile l p' = Inr q' \<and> Min (set l) \<le> q \<and> q \<le> q' \<and> q' \<le> Max (set l)
    \<and> quantile l 0 = Inr (Min (set l)) \<and> quantile l 1 = Inr (Max (set l))"
  using quantile_mono [OF assms] quantile_mono [of l 0 p] quantile_mono [of l p' 1] quantile_ends [OF assms(1)] assms
  by auto

theorem quantile_monotone_witness:
  "\<exists>q q'. quantile [7, 1, 4] (1 / 4) = Inr q \<and> quantile [7, 1, 4] (3 / 4) = Inr q' \<and> 1 \<le> q \<and> q \<le> q' \<and> q' \<le> 7"
  using quantile_monotone [of "[7, 1, 4]" "1 / 4" "3 / 4"] by auto

text \<open>
  \<open>trim\<close> raises for the empty list.  Otherwise it returns the elements in order, without those that
  lie more than one and a half times the distance of the quartiles outside them.
\<close>

theorem trim_outliers:
  "trim [] = Inl IndexError
   \<and> (l \<noteq> [] \<longrightarrow> (\<exists>q1 q3. quantile l (1 / 4) = Inr q1 \<and> quantile l (3 / 4) = Inr q3 \<and> q1 \<le> q3
     \<and> trim l = Inr (filter (\<lambda>x. \<bar>2 * x - q1 - q3\<bar> \<le> 4 * (q3 - q1)) (sort l))))"
proof (intro conjI impI)
  show "trim [] = Inl IndexError" by code_simp
  assume l: "l \<noteq> []"
  obtain q1 q3 where q: "quantile l (1 / 4) = Inr q1" "quantile l (3 / 4) = Inr q3" "q1 \<le> q3"
    using quantile_mono [OF l, of "1 / 4" "3 / 4"] by auto
  define i where "i = length l div 2"
  have at: "\<exists>m. nth_or_raise (sort l) (int k) = Inr m" if "k < length l" for k
    using py_nth_nat [of k "sort l"] that by (simp add: nth_or_raise_def)
  have "i < length l" using l by (cases l) (simp_all add: i_def)
  then obtain m m' where m: "nth_or_raise (sort l) (int i) = Inr m" "nth_or_raise (sort l) (int (i - 1)) = Inr m'"
    using at [of i] at [of "i - 1"] by (meson less_imp_diff_less)
  have "0 < i" if "length l mod 2 = 0" using that l unfolding i_def by (cases "length l") auto
  then have pred: "int i - 1 = int (i - 1)" if "length l mod 2 = 0" using that by simp
  have "int (length l) div 2 = int i" by (simp add: zdiv_int i_def)
  then have "median_of (sort l) = (if length l mod 2 = 0 then Inr ((m + m') / 2) else Inr m)"
    using m pred by (simp add: median_of_def Let_def)
  then have "\<exists>m. median_of (sort l) = Inr m" by (metis (full_types))
  moreover have "quantile (sort l) p = quantile l p" for p
    unfolding quantile_def length_sort by (simp only: sorted_sort_id [OF sorted_sort])
  moreover have "q1 - (q3 - q1) * (3 / 2) \<le> x \<and> x \<le> q3 + (q3 - q1) * (3 / 2) \<longleftrightarrow> \<bar>2 * x - q1 - q3\<bar> \<le> 4 * (q3 - q1)" for x
    by (auto simp: field_simps abs_le_iff)
  ultimately show "\<exists>q1 q3. quantile l (1 / 4) = Inr q1 \<and> quantile l (3 / 4) = Inr q3 \<and> q1 \<le> q3
     \<and> trim l = Inr (filter (\<lambda>x. \<bar>2 * x - q1 - q3\<bar> \<le> 4 * (q3 - q1)) (sort l))"
    using q by (auto simp: trim_def Let_def)
qed

theorem trim_outliers_witness: "trim [100, 3, 1, 2, 4] = Inr [1, 2, 3, 4]"
proof -
  have "quantile [100, 3, 1, 2, 4] (1 / 4) = Inr 2" "quantile [100, 3, 1, 2, 4] (3 / 4) = Inr 4" by code_simp+
  then show ?thesis using trim_outliers [of "[100, 3, 1, 2, 4]"] by auto
qed

section \<open>The choice of a unit\<close>

lemma enclosing_some:
  "sorted (map num_val ms) \<Longrightarrow> ms \<noteq> [] \<Longrightarrow> num_val (hd ms) \<le> x \<Longrightarrow> x < num_val (last ms) \<Longrightarrow>
   \<exists>i. enclosing ms x = Some i \<and> Suc i < length ms \<and> num_val (ms ! i) \<le> x \<and> x < num_val (ms ! Suc i)"
proof (induction ms x rule: enclosing.induct)
  case (1 a b ms x)
  then show ?case by (cases "x < num_val b") (auto simp: not_less)
qed simp_all

lemma choose_mult_encloses:
  fixes x :: rat
  assumes "sorted (map num_val ms)" "ms \<noteq> []"
  defines "i \<equiv> choose_mult ms x"
  shows "i < length ms \<and> (if x < num_val (hd ms) then i = 0
    else num_val (ms ! i) \<le> x \<and> (Suc i < length ms \<longrightarrow> x < num_val (ms ! Suc i)))"
proof -
  consider "x < num_val (hd ms)" | "num_val (hd ms) \<le> x" "num_val (last ms) \<le> x"
    | "num_val (hd ms) \<le> x" "x < num_val (last ms)" by linarith
  then show ?thesis
  proof cases
    case 3
    then show ?thesis using enclosing_some [OF assms(1,2) 3] by (auto simp: i_def choose_mult_def)
  qed (use assms(2) in \<open>auto simp: i_def choose_mult_def last_conv_nth\<close>)
qed

lemma unit_prefixes_sorted: "sorted (map (num_val \<circ> fst) (unit_prefixes opts))" "unit_prefixes opts \<noteq> []"
proof -
  have "(\<lambda>(m, names). num_val m) = (num_val \<circ> fst :: num \<times> string \<times> string \<Rightarrow> rat)" by auto
  then show "sorted (map (num_val \<circ> fst) (unit_prefixes opts))" by (simp add: unit_prefixes_def)
  show "unit_prefixes opts \<noteq> []" by (auto simp: unit_prefixes_def simp flip: length_0_conv)
qed

text \<open>
  The unit of \<open>nice_units\<close> before rounding: for a value from the least multiplier on, the greatest
  multiplier that is not above it; a value below all of them, such as zero or a negative number,
  gets the least.  Python 3 raises, since the keys of a dictionary have no \<open>sort\<close>.
\<close>

theorem nice_units_multiplier:
  "(let ms = map fst (unit_prefixes opts); i = choose_mult ms x
    in i < length ms \<and> (if x < num_val (hd ms) then i = 0
       else num_val (ms ! i) \<le> x \<and> (\<forall>j. i < j \<and> j < length ms \<longrightarrow> x < num_val (ms ! j))))
   \<and> nice_units Py3 round_to fixed general opts amount = Inl AttributeError
   \<and> (round_to 0 0 \<noteq> round_to 1000 0 \<longrightarrow>
      nice_units Py2 round_to fixed general default_units (I 0) = Inr (fixed 0 0 @ '' y''))"
proof (intro conjI impI)
  define ms where "ms = map fst (unit_prefixes opts)"
  define i where "i = choose_mult ms x"
  have sorted: "sorted (map num_val ms)" "ms \<noteq> []" using unit_prefixes_sorted [of opts] by (simp_all add: ms_def)
  note choose = choose_mult_encloses [OF sorted, of x, folded i_def]
  have "x < num_val (ms ! j)" if "\<not> x < num_val (hd ms)" "i < j" "j < length ms" for j
    using choose that sorted_nth_mono [OF sorted(1), of "Suc i" j] by auto
  with choose show "let ms = map fst (unit_prefixes opts); i = choose_mult ms x
    in i < length ms \<and> (if x < num_val (hd ms) then i = 0
       else num_val (ms ! i) \<le> x \<and> (\<forall>j. i < j \<and> j < length ms \<longrightarrow> x < num_val (ms ! j)))"
    unfolding Let_def ms_def [symmetric] i_def [symmetric] by simp
next
  assume digits: "round_to 0 0 \<noteq> round_to 1000 0"
  let ?ps = "unit_prefixes default_units"
  have choose: "choose_mult (map fst ?ps) 0 = 0" by code_simp
  have "?ps ! 0 = (F (1 / 10 ^ 24), ''y'', ''yocto'')" "?ps ! 1 = (F (1 / 10 ^ 21), ''z'', ''zepto'')" "length ?ps = 17"
    by code_simp+
  then show "nice_units Py2 round_to fixed general default_units (I 0) = Inr (fixed 0 0 @ '' y'')"
    using digits by (simp add: nice_units_def Let_def choose num_div.simps) (simp add: default_units_def)
qed (simp add: nice_units_def)

theorem nice_units_multiplier_witness:
  "nice_units Py2 (\<lambda>q n. q) (\<lambda>n q. if q = 0 then ''0'' else ''1'') (\<lambda>n q. '''') default_units (I 0) = Inr ''0 y''"
  using nice_units_multiplier [of default_units 1 "\<lambda>q n. q" "\<lambda>n q. if q = 0 then ''0'' else ''1''" "\<lambda>n q. ''''" "I 0"] by simp

end
