(* ===== verification/NsConfig.thy ===== *)
theory NsConfig
  imports PyPrelude "HOL-Library.Sublist"
begin

text \<open>
  The reader of the configuration file \<open>.ns3rc\<close>, \<open>utils.py\<close>.  A file is the list of its lines, with
  their line feeds, and a missing one is \<open>None\<close>; Python's \<open>eval\<close> is an argument.
  The readers are compared with the \<open>configuration\<close> that the lines give.
\<close>

text \<open>What \<open>eval\<close> may answer; of a value that is neither a truth value nor a list, its truth and its text.\<close>

datatype config_value = BoolValue bool | ListValue "string list" | OtherValue bool string

primrec truthy :: "config_value \<Rightarrow> bool" where
  "truthy (BoolValue b) = b"
| "truthy (ListValue xs) = (xs \<noteq> [])"
| "truthy (OtherValue b s) = b"

type_synonym evaluator = "string \<Rightarrow> py_error + config_value"

definition uncomment :: "string \<Rightarrow> string" where
  "uncomment line = fst (split_once (CHR ''#'') line)"

definition eval_right_side :: "evaluator \<Rightarrow> string \<Rightarrow> py_error + config_value" where
  "eval_right_side eval line =
     (case split_once (CHR ''='') line of (name, None) \<Rightarrow> Inl IndexError | (name, Some expr) \<Rightarrow> eval (strip expr))"

fun list_loop :: "evaluator \<Rightarrow> string \<Rightarrow> string \<Rightarrow> bool \<Rightarrow> string list \<Rightarrow> py_error + config_value" where
  "list_loop eval list_name list_string parsing [] = Inr (ListValue [])"
| "list_loop eval list_name list_string parsing (line # rest) =
     (let line = uncomment line
      in if sublist list_name line \<or> parsing
         then let list_string = list_string @ line
              in if CHR '']'' \<notin> set list_string then list_loop eval list_name list_string True rest
                 else eval_right_side eval list_string
         else list_loop eval list_name list_string parsing rest)"

definition get_list_from_file :: "evaluator \<Rightarrow> string list option \<Rightarrow> string \<Rightarrow> py_error + config_value" where
  "get_list_from_file eval file list_name =
     (case file of None \<Rightarrow> Inr (ListValue []) | Some lines \<Rightarrow> list_loop eval list_name '''' False lines)"

fun bool_loop :: "evaluator \<Rightarrow> string \<Rightarrow> string list \<Rightarrow> py_error + config_value option" where
  "bool_loop eval bool_name [] = Inr None"
| "bool_loop eval bool_name (line # rest) =
     (let line = uncomment line
      in if sublist bool_name line then rbind (eval_right_side eval line) (\<lambda>b. Inr (Some b))
         else bool_loop eval bool_name rest)"

text \<open>\<open>bool_found\<close> is only bound where the file exists.\<close>

definition get_bool_from_file ::
  "evaluator \<Rightarrow> string list option \<Rightarrow> string \<Rightarrow> config_value \<Rightarrow> py_error + config_value" where
  "get_bool_from_file eval file bool_name value_if_missing =
     (case file of
        None \<Rightarrow> Inl UnboundLocalError
      | Some lines \<Rightarrow> rbind (bool_loop eval bool_name lines) (\<lambda>found.
          Inr (case found of Some b \<Rightarrow> b | None \<Rightarrow> value_if_missing)))"

definition read_config_file ::
  "evaluator \<Rightarrow> (string \<Rightarrow> string list option) \<Rightarrow> string
    \<Rightarrow> py_error + (bool \<times> config_value \<times> config_value \<times> config_value)" where
  "read_config_file eval fs home =
     (let path = (if fs ''.ns3rc'' \<noteq> None then ''.ns3rc'' else home @ ''.ns3rc'')
      in if fs path = None then Inr (False, ListValue [''all_modules''], BoolValue False, BoolValue False)
         else rbind (get_list_from_file eval (fs path) ''modules_enabled'') (\<lambda>modules.
              let modules = (if truthy modules then modules else ListValue [''all_modules''])
              in rbind (get_bool_from_file eval (fs path) ''examples_enabled'' (BoolValue False)) (\<lambda>examples.
                 rbind (get_bool_from_file eval (fs path) ''tests_enabled'' (BoolValue False)) (\<lambda>tests.
                   Inr (True, modules, examples, tests)))))"

section \<open>What the readers find\<close>

abbreviation mentions :: "string \<Rightarrow> string \<Rightarrow> bool" where
  "mentions name line \<equiv> sublist name (uncomment line)"

lemma list_loop_skip:
  "list_all (\<lambda>line. \<not> mentions name line) pre \<Longrightarrow>
   list_loop eval name s False (pre @ rest) = list_loop eval name s False rest"
  by (induction pre) (simp_all add: Let_def)

lemma list_loop_collect:
  "CHR '']'' \<notin> set s \<Longrightarrow> list_all (\<lambda>line. CHR '']'' \<notin> set (uncomment line)) mid \<Longrightarrow>
   list_loop eval name s True (mid @ rest) = list_loop eval name (s @ concat (map uncomment mid)) True rest"
  by (induction mid arbitrary: s) (simp_all add: Let_def)

lemma bool_loop_skip:
  "list_all (\<lambda>line. \<not> mentions name line) pre \<Longrightarrow>
   bool_loop eval name (pre @ rest) = bool_loop eval name rest"
  by (induction pre) (simp_all add: Let_def)

text \<open>
  \<open>get_list_from_file\<close> evaluates what is assigned in the first line that mentions the name, joined
  with the lines behind it up to the first closing bracket, without their comments.  The list is empty
  when the file is missing, when no line mentions the name, and also when the bracket never comes.
\<close>

theorem get_list_from_file_result:
  "get_list_from_file eval None name = Inr (ListValue [])
   \<and> (list_all (\<lambda>line. \<not> mentions name line) pre \<longrightarrow>
       get_list_from_file eval (Some pre) name = Inr (ListValue [])
     \<and> (mentions name line \<and> list_all (\<lambda>line. CHR '']'' \<notin> set (uncomment line)) (line # mid) \<longrightarrow>
         get_list_from_file eval (Some (pre @ line # mid)) name = Inr (ListValue [])
       \<and> (CHR '']'' \<in> set (uncomment end_line) \<longrightarrow>
           get_list_from_file eval (Some (pre @ line # mid @ end_line # post)) name
           = eval_right_side eval (concat (map uncomment (line # mid @ [end_line]))))))"
proof (intro conjI impI)
  assume pre: "list_all (\<lambda>line. \<not> mentions name line) pre"
  show "get_list_from_file eval (Some pre) name = Inr (ListValue [])"
    using list_loop_skip [OF pre, of eval "[]" "[]"] by (simp add: get_list_from_file_def)
  assume mid: "mentions name line \<and> list_all (\<lambda>line. CHR '']'' \<notin> set (uncomment line)) (line # mid)"
  have run: "get_list_from_file eval (Some (pre @ line # mid @ rest)) name
      = list_loop eval name (uncomment line @ concat (map uncomment mid)) True rest" for rest
    using list_loop_skip [OF pre, of eval "[]" "line # mid @ rest"] mid
      list_loop_collect [of "uncomment line" mid eval name rest]
    by (simp add: get_list_from_file_def)
  show "get_list_from_file eval (Some (pre @ line # mid)) name = Inr (ListValue [])"
    using run [of "[]"] by simp
  assume "CHR '']'' \<in> set (uncomment end_line)"
  then show "get_list_from_file eval (Some (pre @ line # mid @ end_line # post)) name
      = eval_right_side eval (concat (map uncomment (line # mid @ [end_line])))"
    using run [of "end_line # post"] by (simp add: Let_def)
qed (simp add: get_list_from_file_def)

section \<open>The configuration that a file stands for\<close>

text \<open>
  A truth value is what is assigned in the first line that mentions its name.  The list of modules is
  what is assigned from the first line that mentions its name to the first closing bracket from there
  on, without the comments; all modules stand for no such lines and for an empty list.
\<close>

definition configured_bool :: "evaluator \<Rightarrow> string list \<Rightarrow> string \<Rightarrow> py_error + config_value" where
  "configured_bool eval rc name =
     (case find (mentions name) rc of
        None \<Rightarrow> Inr (BoolValue False)
      | Some line \<Rightarrow> eval_right_side eval (uncomment line))"

definition configured_list :: "evaluator \<Rightarrow> string list \<Rightarrow> string \<Rightarrow> py_error + config_value" where
  "configured_list eval rc name =
     (let parts = map uncomment (dropWhile (\<lambda>line. \<not> mentions name line) rc);
          open_part = takeWhile (\<lambda>part. CHR '']'' \<notin> set part) parts
      in if open_part = parts then Inr (ListValue [''all_modules''])
         else rbind (eval_right_side eval (concat (take (Suc (length open_part)) parts)))
           (\<lambda>modules. Inr (if truthy modules then modules else ListValue [''all_modules''])))"

definition configuration ::
  "evaluator \<Rightarrow> string list \<Rightarrow> py_error + (bool \<times> config_value \<times> config_value \<times> config_value)" where
  "configuration eval rc =
     rbind (configured_list eval rc ''modules_enabled'') (\<lambda>modules.
     rbind (configured_bool eval rc ''examples_enabled'') (\<lambda>examples.
     rbind (configured_bool eval rc ''tests_enabled'') (\<lambda>tests. Inr (True, modules, examples, tests))))"

lemma bool_reader: "get_bool_from_file eval (Some rc) name (BoolValue False) = configured_bool eval rc name"
proof -
  have "bool_loop eval name rc = (case find (mentions name) rc of
      None \<Rightarrow> Inr None | Some line \<Rightarrow> rbind (eval_right_side eval (uncomment line)) (\<lambda>b. Inr (Some b)))"
    by (induction rc) (simp_all add: Let_def)
  then show ?thesis
    by (auto simp: get_bool_from_file_def configured_bool_def rbind_assoc rbind_def split: option.splits sum.splits)
qed

lemma open_list_loop:
  "CHR '']'' \<notin> set s \<Longrightarrow>
   list_loop eval name s True lines =
     (let parts = map uncomment lines; open_part = takeWhile (\<lambda>part. CHR '']'' \<notin> set part) parts
      in if open_part = parts then Inr (ListValue [])
         else eval_right_side eval (s @ concat (take (Suc (length open_part)) parts)))"
  by (induction lines arbitrary: s) (simp_all add: Let_def)

lemma list_reader:
  "rbind (get_list_from_file eval (Some rc) name) (\<lambda>modules.
     Inr (if truthy modules then modules else ListValue [''all_modules''])) = configured_list eval rc name"
proof -
  have "list_loop eval name [] False rc =
      (let parts = map uncomment (dropWhile (\<lambda>line. \<not> mentions name line) rc);
           open_part = takeWhile (\<lambda>part. CHR '']'' \<notin> set part) parts
       in if open_part = parts then Inr (ListValue [])
          else eval_right_side eval (concat (take (Suc (length open_part)) parts)))"
    by (induction rc) (auto simp: Let_def open_list_loop)
  then show ?thesis by (simp add: get_list_from_file_def configured_list_def Let_def)
qed

text \<open>
  Claim C40.  The configuration is the one of the file in the working directory and only without it the
  one of the home directory; without both, everything is left at its default.  Of a file, each of
  the two truth values is what \<open>eval\<close> answers for the right side of the first line that mentions its
  name, and False when no line does, whatever the file says of the other values.  The modules are what
  \<open>eval\<close> answers for the lines from the first that mentions them to the first closing bracket, and all
  modules when no line mentions them, the bracket never comes or the answer is empty.  The first
  error, in the order modules, examples, tests, ends the reading with this error.  Called for a missing
  file, \<open>get_bool_from_file\<close> raises instead of answering the default.
\<close>

theorem read_config_file_result:
  "read_config_file eval fs home
     = (case (fs ''.ns3rc'', fs (home @ ''.ns3rc'')) of
          (None, None) \<Rightarrow> Inr (False, ListValue [''all_modules''], BoolValue False, BoolValue False)
        | (Some rc, _) \<Rightarrow> configuration eval rc
        | (None, Some rc) \<Rightarrow> configuration eval rc)
   \<and> get_bool_from_file eval None name default_value = Inl UnboundLocalError"
proof
  have "rbind (get_list_from_file eval (Some rc) ''modules_enabled'') (\<lambda>modules.
          let modules = (if truthy modules then modules else ListValue [''all_modules'']) in f modules)
      = rbind (configured_list eval rc ''modules_enabled'') f" for rc
      and f :: "config_value \<Rightarrow> py_error + (bool \<times> config_value \<times> config_value \<times> config_value)"
    by (simp add: list_reader [symmetric] rbind_assoc)
  then show "read_config_file eval fs home
     = (case (fs ''.ns3rc'', fs (home @ ''.ns3rc'')) of
          (None, None) \<Rightarrow> Inr (False, ListValue [''all_modules''], BoolValue False, BoolValue False)
        | (Some rc, _) \<Rightarrow> configuration eval rc
        | (None, Some rc) \<Rightarrow> configuration eval rc)"
    by (auto simp: read_config_file_def configuration_def bool_reader split: option.splits)
qed (simp add: get_bool_from_file_def)

text \<open>A file of the home directory that sets the tests only; and one whose examples cannot be evaluated.\<close>

theorem read_config_file_result_witness:
  "read_config_file (\<lambda>e. Inr (OtherValue True e)) [''/root/.ns3rc'' \<mapsto> [''tests_enabled = True # all'']] ''/root/''
     = Inr (True, ListValue [''all_modules''], BoolValue False, OtherValue True ''True'')
   \<and> read_config_file (\<lambda>e. Inl ValueError) [''.ns3rc'' \<mapsto> [''examples_enabled = ?'', ''tests_enabled'']] ''/root/''
     = Inl ValueError"
proof -
  have "configuration (\<lambda>e. Inr (OtherValue True e)) [''tests_enabled = True # all'']
      = Inr (True, ListValue [''all_modules''], BoolValue False, OtherValue True ''True'')"
    "configuration (\<lambda>e. Inl ValueError) [''examples_enabled = ?'', ''tests_enabled''] = Inl ValueError"
    by code_simp+
  then show ?thesis
    using read_config_file_result [where fs = "[''/root/.ns3rc'' \<mapsto> [''tests_enabled = True # all'']]"
        and home = "''/root/''" and eval = "\<lambda>e. Inr (OtherValue True e)"]
      read_config_file_result [where fs = "[''.ns3rc'' \<mapsto> [''examples_enabled = ?'', ''tests_enabled'']]"
        and home = "''/root/''" and eval = "\<lambda>e. Inl ValueError"]
    by simp
qed

theorem get_list_from_file_result_witness:
  "get_list_from_file (\<lambda>e. Inr (OtherValue True e))
    (Some [''a = 1'', ''modules_enabled = ['' @ [CHR 0x0A], ''core, # one'', ''wifi]'' @ [CHR 0x0A]]) ''modules_enabled''
    = Inr (OtherValue True (''['' @ [CHR 0x0A] @ ''core, wifi]''))"
proof -
  have mentions: "\<not> mentions ''modules_enabled'' ''a = 1''" "mentions ''modules_enabled'' (''modules_enabled = ['' @ [CHR 0x0A])"
    by code_simp+
  have bracket: "list_all (\<lambda>line. CHR '']'' \<notin> set (uncomment line)) [''modules_enabled = ['' @ [CHR 0x0A], ''core, # one'']"
    "CHR '']'' \<in> set (uncomment (''wifi]'' @ [CHR 0x0A]))" by code_simp+
  have "eval_right_side (\<lambda>e. Inr (OtherValue True e))
      (concat (map uncomment [''modules_enabled = ['' @ [CHR 0x0A], ''core, # one'', ''wifi]'' @ [CHR 0x0A]]))
    = Inr (OtherValue True (''['' @ [CHR 0x0A] @ ''core, wifi]''))" by code_simp
  then show ?thesis
    using get_list_from_file_result [of "\<lambda>e. Inr (OtherValue True e)" "''modules_enabled''" "[''a = 1'']"
        "''modules_enabled = ['' @ [CHR 0x0A]" "[''core, # one'']" "''wifi]'' @ [CHR 0x0A]" "[]"] mentions bracket
    by simp
qed

end
