(* ===== verification/WafRun.thy ===== *)
theory WafRun
  imports ShellCmd PyPath "HOL-Library.Sublist"
begin

text \<open>
  The launcher of the build, \<open>wutils.py\<close>: the search for a program of the build, the command
  line that a template gives for it, the environment of the process and what its exit means.  The
  programs of the build, the options and the operating system are the fields of the record
  \<open>waf_build\<close>; \<open>run_process\<close> answers the exit status of a process and the bytes it wrote to the error output, or
  \<open>None\<close> when it cannot be started.  Under \<open>valgrind\<close> these are decoded, as Python 3 decodes UTF-8.
\<close>

section \<open>Data\<close>

record program =
  prog_name :: string
  source_dir :: string
  build_dir :: string
  target_path :: string
  is_ns3_program :: bool

record waf_build =
  programs :: "program list"
  launch_dir :: string
  platform_name :: string
  os_environ :: "(string, string) dict"
  module_path :: "string list"
  executable_path :: "string list"
  valgrind_path :: "string list"
  python_path :: "string list"
  pymoddir :: string
  pyvizdir :: string
  signals :: "(string \<times> int) list"
  opt_template :: "string option"
  opt_valgrind :: bool
  opt_cwd_launch :: string
  cwd_launch :: string
  run_process :: "string list \<Rightarrow> (string, string) dict \<Rightarrow> string option \<Rightarrow> (int \<times> string) option"

text \<open>What the functions raise: a \<open>WafError\<close>, by its cause, or an exception of Python.\<close>

datatype waf_error =
    Conflict
  | NoValgrind
  | NotStarted "string list"
  | Signalled "string list" string
  | Exited "string list" int
  | NoProgram string "string list"
  | Raised py_error

definition raised :: "py_error + 'a \<Rightarrow> waf_error + 'a" where
  "raised r = map_sum Raised id r"

lemma raised_simps [simp]: "raised (Inl e) = Inl (Raised e)" "raised (Inr a) = Inr a"
  by (simp_all add: raised_def)

section \<open>Operations\<close>

definition get_command_template :: "waf_build \<Rightarrow> string list \<Rightarrow> string" where
  "get_command_template b arguments =
     foldl (\<lambda>cmd a. cmd @ '' '' @ a)
       (case opt_template b of None \<Rightarrow> ''%s'' | Some t \<Rightarrow> if t = [] then ''%s'' else t) arguments"

text \<open>
  The fallback for a Python without \<open>os.path.relpath\<close>; \<open>os.path.commonprefix\<close> of two lists is their
  common prefix.
\<close>

definition relpath_fallback :: "string \<Rightarrow> string \<Rightarrow> string \<Rightarrow> py_error + string" where
  "relpath_fallback curdir path start =
     (if path = [] then Inl ValueError
      else let start_list = split_on (CHR ''/'') (abspath curdir start);
               path_list = split_on (CHR ''/'') (abspath curdir path);
               i = length (common_prefix start_list path_list);
               rel_list = replicate (length start_list - i) ''..'' @ drop i path_list
           in if rel_list = [] then Inr ''.'' else Inr (foldl path_join (hd rel_list) (tl rel_list)))"

definition program_names :: "waf_build \<Rightarrow> program \<Rightarrow> string list" where
  "program_names b obj =
     [prog_name obj, path_join (relpath [] (source_dir obj) (launch_dir b)) (prog_name obj)]"

definition in_subtree :: "waf_build \<Rightarrow> program \<Rightarrow> bool" where
  "in_subtree b obj \<longleftrightarrow> startswith (source_dir obj) (launch_dir b) \<or> startswith (build_dir obj) (launch_dir b)"

fun search_program :: "waf_build \<Rightarrow> string \<Rightarrow> string list \<Rightarrow> program list \<Rightarrow> waf_error + program" where
  "search_program b nm found_programs [] = Inl (NoProgram nm found_programs)"
| "search_program b nm found_programs (obj # objs) =
     (if \<not> is_ns3_program obj then search_program b nm found_programs objs
      else if \<not> in_subtree b obj then search_program b nm found_programs objs
      else if nm \<in> set (program_names b obj) then Inr obj
      else search_program b nm (found_programs @ program_names b obj) objs)"

definition find_program :: "waf_build \<Rightarrow> string \<Rightarrow> waf_error + program" where
  "find_program b nm = search_program b nm [] (programs b)"

definition path_variable :: "string \<Rightarrow> string" where
  "path_variable plat =
     (if plat = ''linux2'' \<or> plat = ''linux'' then ''LD_LIBRARY_PATH''
      else if plat = ''darwin'' then ''DYLD_LIBRARY_PATH''
      else if plat = ''win32'' then ''PATH''
      else if plat = ''cygwin'' then ''PATH''
      else if startswith plat ''freebsd'' then ''LD_LIBRARY_PATH''
      else ''LD_LIBRARY_PATH'')"

definition pathsep :: "string \<Rightarrow> string" where
  "pathsep plat = (if plat = ''win32'' then '';'' else '':'')"

definition put_before :: "string \<Rightarrow> string \<Rightarrow> string list \<Rightarrow> (string, string) dict \<Rightarrow> (string, string) dict" where
  "put_before plat var dirs proc_env =
     (case dget proc_env var of
        Some old \<Rightarrow> dset proc_env var (join (pathsep plat) (dirs @ [old]))
      | None \<Rightarrow> dset proc_env var (join (pathsep plat) dirs))"

definition get_proc_env :: "waf_build \<Rightarrow> (string, string) dict option \<Rightarrow> (string, string) dict" where
  "get_proc_env b os_env =
     (let proc_env = os_environ b;
          proc_env = (case os_env of None \<Rightarrow> proc_env | Some e \<Rightarrow> foldl (\<lambda>d (k, v). dset d k v) proc_env e);
          plat = platform_name b;
          proc_env = put_before plat (path_variable plat) (module_path b) proc_env;
          proc_env = put_before plat ''PYTHONPATH'' [pymoddir b, pyvizdir b] proc_env
      in put_before plat ''PATH'' (executable_path b) proc_env)"

fun signal_name :: "(string \<times> int) list \<Rightarrow> int \<Rightarrow> string option" where
  "signal_name [] retval = None"
| "signal_name ((nm, val) # rest) retval =
     (if 3 < length nm \<and> take 3 nm = ''SIG'' \<and> nm ! 3 \<noteq> CHR ''_'' \<and> val = - retval then Some nm
      else signal_name rest retval)"

text \<open>
  \<open>bytes.decode('utf-8')\<close>: the code points, or \<open>None\<close> for a sequence that is cut off, too long for its
  value, a surrogate or beyond the last code point.
\<close>

definition follows :: "nat \<Rightarrow> bool" where
  "follows b \<longleftrightarrow> 0x80 \<le> b \<and> b \<le> 0xBF"

definition second_of_three :: "nat \<Rightarrow> nat \<Rightarrow> bool" where
  "second_of_three a b \<longleftrightarrow> (if a = 0xE0 then 0xA0 else 0x80) \<le> b \<and> b \<le> (if a = 0xED then 0x9F else 0xBF)"

definition second_of_four :: "nat \<Rightarrow> nat \<Rightarrow> bool" where
  "second_of_four a b \<longleftrightarrow> (if a = 0xF0 then 0x90 else 0x80) \<le> b \<and> b \<le> (if a = 0xF4 then 0x8F else 0xBF)"

fun utf8_decode :: "nat list \<Rightarrow> nat list option" where
  "utf8_decode [] = Some []"
| "utf8_decode (a # bs) =
     (if a < 0x80 then map_option ((#) a) (utf8_decode bs)
      else case bs of
        [] \<Rightarrow> None
      | b # cs \<Rightarrow>
          if 0xC2 \<le> a \<and> a \<le> 0xDF then
            if follows b then map_option ((#) ((a - 0xC0) * 0x40 + (b - 0x80))) (utf8_decode cs) else None
          else case cs of
            [] \<Rightarrow> None
          | c # ds \<Rightarrow>
              if 0xE0 \<le> a \<and> a \<le> 0xEF then
                if second_of_three a b \<and> follows c
                then map_option ((#) (((a - 0xE0) * 0x40 + (b - 0x80)) * 0x40 + (c - 0x80))) (utf8_decode ds) else None
              else case ds of
                [] \<Rightarrow> None
              | d # es \<Rightarrow>
                  if 0xF0 \<le> a \<and> a \<le> 0xF4 \<and> second_of_four a b \<and> follows c \<and> follows d
                  then map_option ((#) ((((a - 0xF0) * 0x40 + (b - 0x80)) * 0x40 + (c - 0x80)) * 0x40 + (d - 0x80))) (utf8_decode es)
                  else None)"

definition decode_utf8 :: "string \<Rightarrow> py_error + nat list" where
  "decode_utf8 bytes = (case utf8_decode (map of_char bytes) of None \<Rightarrow> Inl UnicodeDecodeError | Some chars \<Rightarrow> Inr chars)"

text \<open>The loop over the error output runs over a string, so \<open>line\<close> is one character.\<close>

definition leak_found :: "nat list \<Rightarrow> bool" where
  "leak_found stderrdata = list_ex (\<lambda>line. sublist (map of_char ''== LEAK SUMMARY'') [line]) stderrdata"

text \<open>What the exit of the process means.\<close>

definition judge_exit :: "waf_build \<Rightarrow> string list \<Rightarrow> int \<Rightarrow> waf_error + int" where
  "judge_exit b vec retval =
     (if retval = 0 then Inr retval
      else case (if retval < 0 then signal_name (signals b) retval else None) of
             Some signame \<Rightarrow> Inl (Signalled vec signame)
           | None \<Rightarrow> Inl (Exited vec retval))"

definition run_argv ::
  "waf_build \<Rightarrow> string list \<Rightarrow> (string, string) dict option \<Rightarrow> string option \<Rightarrow> bool \<Rightarrow> waf_error + int" where
  "run_argv b vec os_env dir force_no_valgrind =
     (let proc_env = get_proc_env b os_env;
          checked = (opt_valgrind b \<and> \<not> force_no_valgrind)
      in if checked \<and> opt_template b \<noteq> None \<and> opt_template b \<noteq> Some [] then Inl Conflict
         else if checked \<and> valgrind_path b = [] then Inl NoValgrind
         else
           let vec = (if checked
                 then [hd (valgrind_path b), ''--leak-check=full'', ''--show-reachable=yes'', ''--error-exitcode=1''] @ vec
                 else vec)
           in case run_process b vec proc_env dir of
                None \<Rightarrow> if platform_name b = ''win32'' \<and> \<not> checked then Inl (NotStarted vec)
                        else Inl (Raised FileNotFoundError)
              | Some (status, stderrdata) \<Rightarrow>
                  if checked then
                    rbind (raised (decode_utf8 stderrdata)) (\<lambda>stderrdata.
                      judge_exit b vec (if status = 0 \<and> leak_found stderrdata then 1 else status))
                  else judge_exit b vec status)"

text \<open>
  The operator \<open>%\<close> with one string: \<open>%%\<close> and \<open>%s\<close>; another conversion is the argument \<open>conv\<close>, without
  flags and widths.
\<close>

fun percent :: "(char \<Rightarrow> string \<Rightarrow> py_error + string) \<Rightarrow> string \<Rightarrow> string option \<Rightarrow> py_error + string" where
  "percent conv [] None = Inr []"
| "percent conv [] (Some a) = Inl TypeError"
| "percent conv [c] a =
     (if c = CHR ''%'' then Inl ValueError else if a = None then Inr [c] else Inl TypeError)"
| "percent conv (c # d # rest) a =
     (if c \<noteq> CHR ''%'' then rbind (percent conv (d # rest) a) (\<lambda>s. Inr (c # s))
      else if d = CHR ''%'' then rbind (percent conv rest a) (\<lambda>s. Inr (CHR ''%'' # s))
      else case a of
        None \<Rightarrow> Inl TypeError
      | Some arg \<Rightarrow> rbind (if d = CHR ''s'' then Inr arg else conv d arg) (\<lambda>t.
          rbind (percent conv rest None) (\<lambda>s. Inr (t @ s))))"

definition escape :: "string \<Rightarrow> string" where
  "escape s = concat (map (\<lambda>c. if c = CHR 0x5C then [CHR 0x5C, CHR 0x5C] else [c]) s)"

definition get_run_program ::
  "waf_build \<Rightarrow> (char \<Rightarrow> string \<Rightarrow> py_error + string) \<Rightarrow> string \<Rightarrow> string option \<Rightarrow> waf_error + string \<times> string list" where
  "get_run_program b conv program_string template =
     (if template = None \<or> template = Some ''%s'' then
        rbind (raised (shlex_split program_string)) (\<lambda>vec.
        if vec = [] then Inl (Raised IndexError)
        else rbind (find_program b (hd vec)) (\<lambda>obj.
          Inr (hd vec, target_path obj # tl vec)))
      else
        rbind (find_program b program_string) (\<lambda>obj.
        rbind (raised (percent conv (the template) (Some (target_path obj)))) (\<lambda>tmpl.
        rbind (raised (shlex_split (escape tmpl))) (\<lambda>execvec.
          Inr (program_string, execvec)))))"

definition launch_cwd :: "waf_build \<Rightarrow> string" where
  "launch_cwd b = (if opt_cwd_launch b \<noteq> [] then opt_cwd_launch b else cwd_launch b)"

definition visualize_flag :: string where
  "visualize_flag = ''--SimulatorImplementationType=ns3::VisualSimulatorImpl''"

definition run_program ::
  "waf_build \<Rightarrow> (char \<Rightarrow> string \<Rightarrow> py_error + string) \<Rightarrow> string \<Rightarrow> string option \<Rightarrow> string option \<Rightarrow> bool \<Rightarrow> waf_error + int" where
  "run_program b conv program_string template dir visualize =
     rbind (get_run_program b conv program_string template) (\<lambda>(dummy_program_name, execvec).
       let dir = (case dir of None \<Rightarrow> launch_cwd b | Some d \<Rightarrow> d);
           execvec = (if visualize then execvec @ [visualize_flag] else execvec)
       in run_argv b execvec None (Some dir) False)"

definition run_python_program :: "waf_build \<Rightarrow> string \<Rightarrow> bool \<Rightarrow> waf_error + int" where
  "run_python_program b program_string visualize =
     rbind (raised (shlex_split program_string)) (\<lambda>execvec.
       let execvec = (if visualize then execvec @ [visualize_flag] else execvec)
       in if python_path b = [] then Inl (Raised IndexError)
          else run_argv b (hd (python_path b) # execvec) None (Some (launch_cwd b)) False)"

fun uniquify_go :: "'a set \<Rightarrow> 'a list \<Rightarrow> 'a list" where
  "uniquify_go seen [] = []"
| "uniquify_go seen (x # xs) = (if x \<in> seen then uniquify_go seen xs else x # uniquify_go (insert x seen) xs)"

definition uniquify_list :: "'a list \<Rightarrow> 'a list" where
  "uniquify_list xs = uniquify_go {} xs"

section \<open>The command line\<close>

text \<open>Words that \<open>shlex.split\<close> leaves whole when their backslashes are doubled.\<close>

definition word_char :: "char \<Rightarrow> bool" where
  "word_char c \<longleftrightarrow> c \<noteq> CHR '' '' \<and> c \<noteq> CHR 0x09 \<and> c \<noteq> CHR 0x0D \<and> c \<noteq> CHR 0x0A \<and> c \<noteq> CHR 0x22 \<and> c \<noteq> CHR 0x27"

definition plain_word :: "string \<Rightarrow> bool" where
  "plain_word s \<longleftrightarrow> s \<noteq> [] \<and> list_all word_char s"

lemma escape_simps [simp]:
  "escape [] = []"
  "escape (c # s) = (if c = CHR 0x5C then CHR 0x5C # CHR 0x5C # escape s else c # escape s)"
  "escape (s @ t) = escape s @ escape t"
  by (simp_all add: escape_def)

lemma escape_none: "CHR 0x5C \<notin> set s \<Longrightarrow> escape s = s"
  by (induction s) auto

lemma shlex_go_word:
  "list_all word_char w \<Longrightarrow> shlex_go InWord tok q (escape w @ rest) = shlex_go InWord (tok @ w) q rest"
  by (induction w arbitrary: tok) (simp_all add: word_char_def)

lemma shlex_go_start:
  "plain_word w \<Longrightarrow> shlex_go Start tok q (escape w @ rest) = shlex_go InWord w False rest"
  by (cases w) (auto simp: plain_word_def shlex_go_word word_char_def)

lemma shlex_split_words: "list_all plain_word ws \<Longrightarrow> shlex_split (escape (join '' '' ws)) = Inr ws"
  unfolding shlex_split_def
proof (induction "'' ''" ws rule: join.induct)
  case (2 w)
  then show ?case using shlex_go_start [of w "[]" False "[]"] by (simp add: plain_word_def)
next
  case (3 w v ws)
  then show ?case using shlex_go_start [of w "[]" False "'' '' @ escape (join '' '' (v # ws))"]
    by (simp add: plain_word_def)
qed simp

lemma percent_plain: "CHR ''%'' \<notin> set s \<Longrightarrow> percent conv s None = Inr s"
  by (induction conv s "None :: string option" rule: percent.induct) auto

lemma template_default:
  assumes "opt_template b = None \<or> opt_template b = Some []"
  shows "get_command_template b ws = join '' '' (''%s'' # ws)"
proof -
  have "foldl (\<lambda>cmd a. cmd @ '' '' @ a) s ws = join '' '' (s # ws)" for s
  proof (induction ws arbitrary: s)
    case (Cons a ws)
    show ?case using Cons.IH [of "s @ '' '' @ a"] by (cases ws) simp_all
  qed simp
  then show ?thesis using assms by (auto simp: get_command_template_def)
qed

text \<open>
  A program that is found is started with the given arguments, one by one, on both ways to give them:
  in the program string without a template, and through the template that
  \<open>get_command_template\<close> makes of them.  The words must hold no blanks or quotes, the arguments no
  backslash and no percent sign; the path of the program may hold both.
\<close>

theorem run_program_words:
  assumes found: "find_program b nm = Inr obj"
    and words: "list_all plain_word (target_path obj # nm # ws)" "list_all (\<lambda>w. set w \<inter> {CHR 0x5C, CHR ''%''} = {}) (nm # ws)"
    and default: "opt_template b = None \<or> opt_template b = Some []"
  shows "get_run_program b conv (join '' '' (nm # ws)) (Some (get_command_template b [])) = Inr (nm, target_path obj # ws)
    \<and> (ws \<noteq> [] \<longrightarrow> get_run_program b conv nm (Some (get_command_template b ws)) = Inr (nm, target_path obj # ws))"
proof (intro conjI impI)
  have none: "c \<notin> set (join '' '' vs)" if "c \<noteq> CHR '' ''" "list_all (\<lambda>w. c \<notin> set w) vs" for c vs
    using that by (induction "'' ''" vs rule: join.induct) auto
  have "CHR 0x5C \<notin> set (join '' '' (nm # ws))" using words(2) by (intro none) (auto simp: list_all_iff)
  from escape_none [OF this] have "shlex_split (join '' '' (nm # ws)) = Inr (nm # ws)"
    using shlex_split_words [of "nm # ws"] words(1) by simp
  then show "get_run_program b conv (join '' '' (nm # ws)) (Some (get_command_template b [])) = Inr (nm, target_path obj # ws)"
    using found by (simp add: get_run_program_def template_default [OF default])
  assume ws: "ws \<noteq> []"
  then have template: "get_command_template b ws = ''%s '' @ join '' '' ws"
    by (cases ws) (simp_all add: template_default [OF default])
  have "CHR ''%'' \<notin> set (join '' '' ws)" using words(2) by (intro none) (auto simp: list_all_iff)
  then have "percent conv (''%s '' @ join '' '' ws) (Some (target_path obj)) = Inr (target_path obj @ '' '' @ join '' '' ws)"
    using percent_plain [of "'' '' @ join '' '' ws" conv] by simp
  moreover have "target_path obj @ '' '' @ join '' '' ws = join '' '' (target_path obj # ws)"
    using ws by (cases ws) simp_all
  ultimately show "get_run_program b conv nm (Some (get_command_template b ws)) = Inr (nm, target_path obj # ws)"
    using found shlex_split_words [of "target_path obj # ws"] words(1) ws
    by (simp add: get_run_program_def template)
qed

section \<open>The search\<close>

abbreviation eligible :: "waf_build \<Rightarrow> program \<Rightarrow> bool" where
  "eligible b obj \<equiv> is_ns3_program obj \<and> in_subtree b obj"

lemma search_program_result:
  "search_program b nm found objs =
    (case filter (\<lambda>obj. eligible b obj \<and> nm \<in> set (program_names b obj)) objs of
       obj # _ \<Rightarrow> Inr obj
     | [] \<Rightarrow> Inl (NoProgram nm (found @ concat (map (program_names b) (filter (eligible b) objs)))))"
  by (induction objs arbitrary: found) (auto split: list.split)

text \<open>
  The search answers the first program of the subtree that has the name, alone or behind its
  directory; when there is none, the error lists both names of every program of the subtree.
\<close>

theorem find_program_first:
  "find_program b nm =
    (case filter (\<lambda>obj. eligible b obj \<and> nm \<in> set (program_names b obj)) (programs b) of
       obj # _ \<Rightarrow> Inr obj
     | [] \<Rightarrow> Inl (NoProgram nm (concat (map (program_names b) (filter (eligible b) (programs b))))))"
  by (simp add: find_program_def search_program_result split: list.split)

section \<open>The environment and the exit\<close>

lemma put_before_get:
  "dget (put_before plat var dirs d) k =
    (if k = var then Some (join (pathsep plat) (dirs @ (case dget d var of None \<Rightarrow> [] | Some old \<Rightarrow> [old]))) else dget d k)"
  by (simp add: put_before_def split: option.splits)

text \<open>
  The environment of a process: the module directories stand before the library path, the
  binding directories before \<open>PYTHONPATH\<close> and the program directories before \<open>PATH\<close>, each with the
  value the user had behind them; every other variable is the user's.
\<close>

theorem proc_env_lookup:
  fixes b :: waf_build
  defines "sep \<equiv> pathsep (platform_name b)" and "lib \<equiv> path_variable (platform_name b)"
    and "user \<equiv> (\<lambda>k. case dget (os_environ b) k of None \<Rightarrow> [] | Some v \<Rightarrow> [v])"
  shows "dget (get_proc_env b None) k =
    (if k = ''PYTHONPATH'' then Some (join sep ([pymoddir b, pyvizdir b] @ user k))
     else if k = ''PATH'' then
       Some (join sep (executable_path b @ (if lib = ''PATH'' then [join sep (module_path b @ user k)] else user k)))
     else if k = lib then Some (join sep (module_path b @ user k))
     else dget (os_environ b) k)"
proof -
  have "lib \<noteq> ''PYTHONPATH''" by (simp add: lib_def path_variable_def)
  then show ?thesis by (auto simp: get_proc_env_def Let_def put_before_get sep_def lib_def user_def)
qed

lemma leak_found_never: "\<not> leak_found s"
proof -
  have "\<not> sublist (map of_char ''== LEAK SUMMARY'') [c]" for c :: nat
    using sublist_length_le [of "map of_char ''== LEAK SUMMARY''" "[c]"] by auto
  then show ?thesis by (auto simp: leak_found_def list_ex_iff)
qed

text \<open>The names of a signal: those of the table with its number that start with \<open>SIG\<close> and no underscore behind it.\<close>

definition signal_names :: "waf_build \<Rightarrow> int \<Rightarrow> string list" where
  "signal_names b n = map fst (filter (\<lambda>(nm, val). 3 < length nm \<and> take 3 nm = ''SIG'' \<and> nm ! 3 \<noteq> CHR ''_'' \<and> val = n) (signals b))"

lemma signal_name_first:
  "signal_name (signals b) retval = (case signal_names b (- retval) of [] \<Rightarrow> None | nm # _ \<Rightarrow> Some nm)"
proof -
  have "signal_name sigs retval = (case map fst (filter (\<lambda>(nm, val). 3 < length nm \<and> take 3 nm = ''SIG''
      \<and> nm ! 3 \<noteq> CHR ''_'' \<and> val = - retval) sigs) of [] \<Rightarrow> None | nm # _ \<Rightarrow> Some nm)" for sigs
    by (induction sigs retval rule: signal_name.induct) auto
  then show ?thesis by (simp add: signal_names_def)
qed

text \<open>The command that is started, and the options and tools it needs.\<close>

definition started_command :: "waf_build \<Rightarrow> bool \<Rightarrow> string list \<Rightarrow> string list" where
  "started_command b checked vec =
     (if checked then [hd (valgrind_path b), ''--leak-check=full'', ''--show-reachable=yes'', ''--error-exitcode=1''] @ vec else vec)"

definition can_check :: "waf_build \<Rightarrow> bool" where
  "can_check b \<longleftrightarrow> opt_template b \<in> {None, Some []} \<and> valgrind_path b \<noteq> []"

definition readable :: "string \<Rightarrow> bool" where
  "readable err \<longleftrightarrow> utf8_decode (map of_char err) \<noteq> None"

lemma run_argv_started:
  fixes b vec os_env dir no_check
  defines "checked \<equiv> opt_valgrind b \<and> \<not> no_check"
  assumes "checked \<longrightarrow> can_check b"
  shows "run_argv b vec os_env dir no_check =
    (case run_process b (started_command b checked vec) (get_proc_env b os_env) dir of
       None \<Rightarrow> if platform_name b = ''win32'' \<and> \<not> checked then Inl (NotStarted vec) else Inl (Raised FileNotFoundError)
     | Some (status, err) \<Rightarrow>
         if checked \<and> \<not> readable err then Inl (Raised UnicodeDecodeError)
         else judge_exit b (started_command b checked vec) status)"
proof (cases checked)
  case True
  then have "opt_template b = None \<or> opt_template b = Some []" "valgrind_path b \<noteq> []" "opt_valgrind b" "\<not> no_check"
    using assms(2) by (auto simp: can_check_def checked_def)
  then show ?thesis using True
    by (auto simp: run_argv_def started_command_def Let_def leak_found_never decode_utf8_def readable_def
        split: option.split)
next
  case False
  then show ?thesis by (auto simp: run_argv_def started_command_def Let_def checked_def split: option.split)
qed

text \<open>
  Claim C38.  The exit of a program of the build.  \<open>run_argv\<close> returns nothing but zero, and exactly when the process
  was started and exited with zero, where for a run under \<open>valgrind\<close> its error output must be
  UTF-8, \<open>valgrind\<close> be installed and no command template be given.  Every other exit status of a
  process that was started is an error with the command that was started: with the first name of the signal for a
  negative status that has one, else with the status; under \<open>valgrind\<close> an error output that is
  not UTF-8 raises \<open>UnicodeDecodeError\<close> instead, whatever the status.  A process is started with the command, under
  \<open>valgrind\<close> with \<open>valgrind\<close> before it, in the environment of \<open>get_proc_env\<close>.  The report of leaks that \<open>valgrind\<close>
  writes has no part in this, since the loop that looks for it sees single characters.
\<close>

theorem run_argv_status:
  fixes b vec os_env dir no_check
  defines "checked \<equiv> opt_valgrind b \<and> \<not> no_check"
    and "result \<equiv> run_argv b vec os_env dir no_check"
  defines "cmd \<equiv> started_command b checked vec"
  defines "process \<equiv> run_process b cmd (get_proc_env b os_env) dir"
  shows "(result = Inr r \<longleftrightarrow>
      r = 0 \<and> (checked \<longrightarrow> can_check b) \<and> (\<exists>err. process = Some (0, err) \<and> (checked \<longrightarrow> readable err)))
    \<and> (\<forall>status err. process = Some (status, err) \<and> status \<noteq> 0 \<and> (checked \<longrightarrow> can_check b) \<longrightarrow>
        result =
          (if checked \<and> \<not> readable err then Inl (Raised UnicodeDecodeError)
           else if status < 0 \<and> signal_names b (- status) \<noteq> [] then Inl (Signalled cmd (hd (signal_names b (- status))))
           else Inl (Exited cmd status)))
    \<and> (checked \<and> \<not> can_check b \<longrightarrow> result \<in> {Inl Conflict, Inl NoValgrind})"
proof (cases "checked \<and> \<not> can_check b")
  case True
  then show ?thesis by (auto simp: run_argv_def result_def checked_def can_check_def Let_def)
next
  case False
  have started: "result = (case process of
       None \<Rightarrow> if platform_name b = ''win32'' \<and> \<not> checked then Inl (NotStarted vec) else Inl (Raised FileNotFoundError)
     | Some (status, err) \<Rightarrow> if checked \<and> \<not> readable err then Inl (Raised UnicodeDecodeError) else judge_exit b cmd status)"
    unfolding result_def process_def cmd_def checked_def
    by (rule run_argv_started) (use False in \<open>auto simp: checked_def\<close>)
  have judged: "judge_exit b cmd status = (if status = 0 then Inr 0
      else if status < 0 \<and> signal_names b (- status) \<noteq> [] then Inl (Signalled cmd (hd (signal_names b (- status))))
      else Inl (Exited cmd status))" for status
    by (simp add: judge_exit_def signal_name_first split: list.split)
  from False show ?thesis unfolding started judged by (auto split: option.splits if_splits)
qed

section \<open>The relative path\<close>

definition is_part :: "string \<Rightarrow> bool" where
  "is_part x \<longleftrightarrow> x \<noteq> [] \<and> CHR ''/'' \<notin> set x"

lemma foldl_path_join:
  "is_part a \<Longrightarrow> list_all is_part xs \<Longrightarrow> foldl path_join (s @ a) xs = s @ join ''/'' (a # xs)"
proof (induction xs arbitrary: s a)
  case (Cons x xs)
  have "last a \<noteq> CHR ''/''" "\<not> startswith x ''/''"
    using Cons.prems last_in_set [of a] by (cases x; auto simp: is_part_def startswith_def)+
  then have "path_join (s @ a) x = (s @ a @ ''/'') @ x" using Cons.prems(1) by (simp add: path_join_def is_part_def)
  then show ?case using Cons.IH [of x "s @ a @ ''/''"] Cons.prems(2) by simp
qed simp

lemma absolute_parts:
  assumes "list_all is_part xs" "xs \<noteq> []"
  shows "split_on (CHR ''/'') (''/'' @ join ''/'' xs) = [] # xs" "path_parts (''/'' @ join ''/'' xs) = xs"
proof -
  have "split_on (CHR ''/'') (join ''/'' xs) = xs"
    using split_on_join [of xs "CHR ''/''"] assms by (auto simp: list_all_iff is_part_def)
  then show split: "split_on (CHR ''/'') (''/'' @ join ''/'' xs) = [] # xs" by simp
  show "path_parts (''/'' @ join ''/'' xs) = xs"
    using assms(1) unfolding path_parts_def split by (simp add: list_all_iff is_part_def)
qed

text \<open>
  The fallback for the relative path agrees with the library's function below the root; for the
  root itself it counts an empty component and leads one level too high.
\<close>

theorem relpath_fallback_agrees:
  assumes "path \<noteq> []" "as \<noteq> []" "bs \<noteq> []" "list_all is_part (as @ bs)"
    and "abspath curdir start = ''/'' @ join ''/'' as" "abspath curdir path = ''/'' @ join ''/'' bs"
  shows "relpath_fallback curdir path start = Inr (relpath curdir path start)
    \<and> relpath_fallback curdir ''/usr'' ''/'' = Inr ''../usr'' \<and> relpath curdir ''/usr'' ''/'' = ''usr''"
proof (intro conjI)
  define rel where "rel = replicate (length as - length (common_prefix as bs)) ''..'' @ drop (length (common_prefix as bs)) bs"
  have parts: "list_all is_part as" "list_all is_part bs" using assms(4) by simp_all
  note at = absolute_parts [OF parts(1) assms(2)] absolute_parts [OF parts(2) assms(3)]
  have "list_all is_part rel" using parts(2) by (auto simp: rel_def list_all_iff is_part_def dest: in_set_dropD)
  then have "foldl path_join (hd rel) (tl rel) = join ''/'' rel" if "rel \<noteq> []"
    using foldl_path_join [of "hd rel" "tl rel" "[]"] that by (cases rel) simp_all
  then show "relpath_fallback curdir path start = Inr (relpath curdir path start)"
    using assms(1) unfolding relpath_fallback_def relpath_def assms(5,6) at by (simp add: rel_def Let_def)
  have "abspath curdir ''/'' = ''/''" "abspath curdir ''/usr'' = ''/usr''"
    by (simp_all add: abspath_def path_join_def startswith_def normpath_def initial_slashes_def norm_step_def)
  then show "relpath_fallback curdir ''/usr'' ''/'' = Inr ''../usr''" "relpath curdir ''/usr'' ''/'' = ''usr''"
    by (simp_all add: relpath_fallback_def relpath_def path_parts_def path_join_def startswith_def)
qed

text \<open>\<open>uniquify_list\<close> keeps one of each element, in the order of the list.\<close>

lemma uniquify_go_result:
  "distinct (uniquify_go seen xs) \<and> set (uniquify_go seen xs) = set xs - seen \<and> subseq (uniquify_go seen xs) xs"
  by (induction seen xs rule: uniquify_go.induct) auto

lemma uniquify_list_result:
  "distinct (uniquify_list xs) \<and> set (uniquify_list xs) = set xs \<and> subseq (uniquify_list xs) xs"
  using uniquify_go_result [of "{}" xs] by (simp add: uniquify_list_def)

section \<open>Witnesses\<close>

text \<open>A build with one program, started on Linux; the process exits with the status given.\<close>

definition demo_build :: "int \<Rightarrow> string \<Rightarrow> waf_build" where
  "demo_build status err =
     \<lparr>programs = [\<lparr>prog_name = ''first'', source_dir = ''/ns3/examples/tutorial'', build_dir = ''/ns3/build/examples/tutorial'',
                   target_path = ''/ns3/build/first'', is_ns3_program = True\<rparr>],
      launch_dir = ''/ns3'', platform_name = ''linux'', os_environ = [], module_path = [''/ns3/build''], executable_path = [],
      valgrind_path = [''/usr/bin/valgrind''], python_path = [''/usr/bin/python''], pymoddir = ''/ns3/py'', pyvizdir = ''/ns3/viz'',
      signals = [(''SIGSEGV'', 11)], opt_template = None, opt_valgrind = True, opt_cwd_launch = [], cwd_launch = ''/ns3'',
      run_process = (\<lambda>vec env dir. Some (status, err))\<rparr>"

theorem run_program_words_witness:
  "get_run_program (demo_build 0 []) (\<lambda>c a. Inl TypeError) ''first --n=2'' (Some ''%s'') = Inr (''first'', [''/ns3/build/first'', ''--n=2''])
   \<and> get_run_program (demo_build 0 []) (\<lambda>c a. Inl TypeError) ''first'' (Some ''%s --n=2'') = Inr (''first'', [''/ns3/build/first'', ''--n=2''])"
proof -
  let ?obj = "hd (programs (demo_build 0 []))"
  have "find_program (demo_build 0 []) ''first'' = Inr ?obj" by code_simp
  moreover have "list_all plain_word (target_path ?obj # ''first'' # [''--n=2''])" by code_simp
  moreover have "list_all (\<lambda>w. set w \<inter> {CHR 0x5C, CHR ''%''} = {}) (''first'' # [''--n=2''])" by simp
  moreover have "opt_template (demo_build 0 []) = None \<or> opt_template (demo_build 0 []) = Some []" by (simp add: demo_build_def)
  ultimately show ?thesis
    using run_program_words [of "demo_build 0 []" "''first''" ?obj "[''--n=2'']" "\<lambda>c a. Inl TypeError"]
    by (simp add: demo_build_def get_command_template_def)
qed

theorem run_argv_status_witness:
  "run_argv (demo_build 0 ''== LEAK SUMMARY: 8 bytes'') [''first''] None None False = Inr 0
   \<and> run_argv (demo_build (- 11) []) [''first''] None None True = Inl (Signalled [''first''] ''SIGSEGV'')
   \<and> run_argv (demo_build 1 [CHR 0xFF]) [''first''] None None False = Inl (Raised UnicodeDecodeError)"
proof (intro conjI)
  have "readable ''== LEAK SUMMARY: 8 bytes''" "\<not> readable [CHR 0xFF]" by code_simp+
  then show "run_argv (demo_build 0 ''== LEAK SUMMARY: 8 bytes'') [''first''] None None False = Inr 0"
    "run_argv (demo_build 1 [CHR 0xFF]) [''first''] None None False = Inl (Raised UnicodeDecodeError)"
    using run_argv_status [of "demo_build 0 ''== LEAK SUMMARY: 8 bytes''" "[''first'']" None None False 0]
      run_argv_status [of "demo_build 1 [CHR 0xFF]" "[''first'']" None None False 0]
    by (simp_all add: demo_build_def can_check_def)
  show "run_argv (demo_build (- 11) []) [''first''] None None True = Inl (Signalled [''first''] ''SIGSEGV'')"
    using run_argv_status [of "demo_build (- 11) []" "[''first'']" None None True 0]
    by (simp add: demo_build_def signal_names_def started_command_def)
qed

theorem relpath_fallback_agrees_witness: "relpath_fallback ''/'' ''/a/b'' ''/a/c'' = Inr ''../b''"
proof -
  have "relpath ''/'' ''/a/b'' ''/a/c'' = ''../b''" by code_simp
  moreover have "abspath ''/'' ''/a/c'' = ''/a/c''" "abspath ''/'' ''/a/b'' = ''/a/b''" by code_simp+
  ultimately show ?thesis
    using relpath_fallback_agrees [of "''/a/b''" "[''a'', ''c'']" "[''a'', ''b'']" "''/''" "''/a/c''"] by (simp add: is_part_def)
qed

end
