(* ===== verification/FlowResults.thy ===== *)
theory FlowResults
  imports TestFormats PyNum
begin

text \<open>
  The reader of flow monitor results, \<open>flowmon-parse-results.py\<close>, a Python 2 script: the figures of
  every flow, the address of every flow and the statistics of the probes, read from the element tree
  of one result file, and the report that is printed.  Floating point numbers are rationals; the
  format \<open>%.2f\<close> is an argument.
\<close>

section \<open>Numbers in attributes\<close>

definition read_sign :: "string \<Rightarrow> bool \<times> string" where
  "read_sign s =
     (case s of
        c # t \<Rightarrow> if c = CHR ''-'' then (True, t) else if c = CHR ''+'' then (False, t) else (False, s)
      | [] \<Rightarrow> (False, s))"

definition read_digits :: "string \<Rightarrow> py_error + int" where
  "read_digits s =
     (let (neg, t) = read_sign s
      in if t = [] \<or> \<not> list_all is_digit t then Inl ValueError
         else Inr (if neg then - int (read_nat t) else int (read_nat t)))"

definition read_int :: "string \<Rightarrow> py_error + int" where
  "read_int s = read_digits (strip s)"

text \<open>\<open>long\<close> accepts the letter that Python 2 writes behind a long integer.\<close>

definition read_long :: "string \<Rightarrow> py_error + int" where
  "read_long s =
     (let t = strip s
      in read_digits (if t \<noteq> [] \<and> last t \<in> set [CHR ''l'', CHR ''L''] then butlast t else t))"

definition read_float :: "string \<Rightarrow> py_error + rat" where
  "read_float s =
     (let (neg, t) = read_sign (strip s);
          mantissa = takeWhile (\<lambda>c. c \<noteq> CHR ''e'' \<and> c \<noteq> CHR ''E'') t;
          expo = drop (length mantissa) t;
          (a, frac) = split_once (CHR ''.'') mantissa;
          digits = a @ (case frac of None \<Rightarrow> [] | Some f \<Rightarrow> f);
          places = (case frac of None \<Rightarrow> 0 | Some f \<Rightarrow> length f)
      in if digits = [] \<or> \<not> list_all is_digit digits then Inl ValueError
         else rbind (if expo = [] then Inr 0 else read_digits (tl expo)) (\<lambda>e.
           let q = of_nat (read_nat digits) / 10 ^ places * (if 0 \<le> e then 10 ^ nat e else 1 / 10 ^ nat (- e))
           in Inr (if neg then - q else q)))"

text \<open>A missing attribute is \<open>None\<close>, which the conversions and the slice refuse.\<close>

definition attr :: "xml \<Rightarrow> string \<Rightarrow> py_error + string" where
  "attr el k = (case dget (attributes el) k of None \<Rightarrow> Inl TypeError | Some s \<Rightarrow> Inr s)"

definition cut_unit :: "string \<Rightarrow> string" where
  "cut_unit s = py_slice_to s (- 4)"

definition parse_time_ns :: "string option \<Rightarrow> py_error + int" where
  "parse_time_ns tm =
     (case tm of
        None \<Rightarrow> Inl AttributeError
      | Some s \<Rightarrow> if startswith (rev s) (rev ''ns'') then read_long (cut_unit s) else Inl ValueError)"

section \<open>Data\<close>

record five_tuple =
  source_address :: "string option"
  destination_address :: "string option"
  source_port :: int
  destination_port :: int
  protocol :: int

record probe_stats =
  probe_id :: int
  packets :: int
  bytes :: int
  delay_from_first_probe :: rat

text \<open>The slot \<open>five_tuple_of\<close> is \<open>None\<close> as long as it is not set.\<close>

record flow =
  flow_id :: int
  delay_mean :: "rat option"
  packet_loss_ratio :: "rat option"
  rx_bitrate :: "rat option"
  tx_bitrate :: "rat option"
  five_tuple_of :: "five_tuple option"
  packet_size_mean :: "rat option"
  probe_stats_unsorted :: "probe_stats list"
  hop_count :: rat
  interruptions :: "(rat \<times> rat \<times> int) list option"
  rx_duration_of :: rat

definition new_five_tuple :: "xml \<Rightarrow> py_error + five_tuple" where
  "new_five_tuple el =
     rbind (rbind (attr el ''sourcePort'') read_int) (\<lambda>sp.
     rbind (rbind (attr el ''destinationPort'') read_int) (\<lambda>dp.
     rbind (rbind (attr el ''protocol'') read_int) (\<lambda>p.
       Inr \<lparr>source_address = dget (attributes el) ''sourceAddress'',
            destination_address = dget (attributes el) ''destinationAddress'',
            source_port = sp, destination_port = dp, protocol = p\<rparr>)))"

definition new_histogram :: "xml \<Rightarrow> py_error + (rat \<times> rat \<times> int) list" where
  "new_histogram el =
     for_each (\<lambda>bins b.
       rbind (rbind (attr b ''start'') read_float) (\<lambda>s.
       rbind (rbind (attr b ''width'') read_float) (\<lambda>w.
       rbind (rbind (attr b ''count'') read_int) (\<lambda>c. Inr (bins @ [(s, w, c)]))))) [] (findall ''bin'' el)"

definition duration :: "xml \<Rightarrow> string \<Rightarrow> string \<Rightarrow> py_error + rat" where
  "duration el stop start =
     rbind (rbind (attr el stop) (\<lambda>s. read_long (cut_unit s))) (\<lambda>b.
     rbind (rbind (attr el start) (\<lambda>s. read_long (cut_unit s))) (\<lambda>a. Inr (of_int (b - a) / 10 ^ 9)))"

definition bitrate :: "xml \<Rightarrow> string \<Rightarrow> rat \<Rightarrow> py_error + rat option" where
  "bitrate el k d =
     (if 0 < d then rbind (rbind (attr el k) read_long) (\<lambda>n. Inr (Some (of_int (n * 8) / d))) else Inr None)"

definition new_flow :: "xml \<Rightarrow> py_error + flow" where
  "new_flow el =
     rbind (rbind (attr el ''flowId'') read_int) (\<lambda>fid.
     rbind (rbind (attr el ''rxPackets'') read_long) (\<lambda>rx_packets.
     rbind (rbind (attr el ''txPackets'') read_long) (\<lambda>tx_packets.
     rbind (duration el ''timeLastTxPacket'' ''timeFirstTxPacket'') (\<lambda>tx_duration.
     rbind (duration el ''timeLastRxPacket'' ''timeFirstRxPacket'') (\<lambda>rx_duration.
     rbind (if rx_packets \<noteq> 0
            then rbind (rbind (attr el ''timesForwarded'') read_float) (\<lambda>t. Inr (t / of_int rx_packets + 1))
            else Inr (- 1000)) (\<lambda>hops.
     rbind (if rx_packets \<noteq> 0
            then rbind (rbind (attr el ''delaySum'') (\<lambda>s. read_float (cut_unit s))) (\<lambda>d.
                 rbind (rbind (attr el ''rxBytes'') read_float) (\<lambda>n.
                   Inr (Some (d / of_int rx_packets / 10 ^ 9), Some (n / of_int rx_packets))))
            else Inr (None, None)) (\<lambda>(delay, size).
     rbind (bitrate el ''rxBytes'' rx_duration) (\<lambda>rx_rate.
     rbind (bitrate el ''txBytes'' tx_duration) (\<lambda>tx_rate.
     rbind (rbind (attr el ''lostPackets'') read_float) (\<lambda>lost.
     rbind (if rx_packets = 0 then Inr None
            else if of_int rx_packets + lost = 0 then Inl ZeroDivisionError
            else Inr (Some (lost / (of_int rx_packets + lost)))) (\<lambda>loss.
     rbind (case find_child ''flowInterruptionsHistogram'' el of
              None \<Rightarrow> Inr None
            | Some h \<Rightarrow> rbind (new_histogram h) (\<lambda>b. Inr (Some b))) (\<lambda>hist.
       Inr \<lparr>flow_id = fid, delay_mean = delay, packet_loss_ratio = loss, rx_bitrate = rx_rate, tx_bitrate = tx_rate,
            five_tuple_of = None, packet_size_mean = size, probe_stats_unsorted = [], hop_count = hops,
            interruptions = hist, rx_duration_of = rx_duration\<rparr>))))))))))))"

section \<open>The result of a simulation\<close>

text \<open>
  The flows are shared by the list and the map of the constructor: the map holds the place in the list.
\<close>

type_synonym flow_table = "flow list \<times> (int, nat) dict"

definition add_flow :: "flow_table \<Rightarrow> xml \<Rightarrow> py_error + flow_table" where
  "add_flow st el =
     (case st of (flows, flow_map) \<Rightarrow>
        rbind (new_flow el) (\<lambda>f. Inr (flows @ [f], dset flow_map (flow_id f) (length flows))))"

definition update_flow :: "flow_table \<Rightarrow> int \<Rightarrow> (flow \<Rightarrow> py_error + flow) \<Rightarrow> py_error + flow_table" where
  "update_flow st fid g =
     (case st of (flows, flow_map) \<Rightarrow>
        case dget flow_map fid of
          None \<Rightarrow> Inl KeyError
        | Some i \<Rightarrow> rbind (g (flows ! i)) (\<lambda>f. Inr (flows[i := f], flow_map)))"

text \<open>The right side of the assignment is evaluated before the map is searched.\<close>

definition classify_flow :: "flow_table \<Rightarrow> xml \<Rightarrow> py_error + flow_table" where
  "classify_flow st el =
     rbind (rbind (attr el ''flowId'') read_int) (\<lambda>fid.
     rbind (new_five_tuple el) (\<lambda>t. update_flow st fid (\<lambda>f. Inr (f\<lparr>five_tuple_of := Some t\<rparr>))))"

definition new_probe_stats :: "int \<Rightarrow> xml \<Rightarrow> py_error + int \<times> probe_stats" where
  "new_probe_stats pid el =
     rbind (rbind (attr el ''flowId'') read_int) (\<lambda>fid.
     rbind (rbind (attr el ''packets'') read_int) (\<lambda>n.
     rbind (rbind (attr el ''bytes'') read_long) (\<lambda>b.
     rbind (if 0 < n then rbind (parse_time_ns (dget (attributes el) ''delayFromFirstProbeSum'')) (\<lambda>t. Inr (of_int t / of_int n))
            else Inr 0) (\<lambda>d.
       Inr (fid, \<lparr>probe_id = pid, packets = n, bytes = b, delay_from_first_probe = d\<rparr>)))))"

definition add_stats :: "int \<Rightarrow> flow_table \<Rightarrow> xml \<Rightarrow> py_error + flow_table" where
  "add_stats pid st el =
     rbind (new_probe_stats pid el) (\<lambda>(fid, s).
       update_flow st fid (\<lambda>f. Inr (f\<lparr>probe_stats_unsorted := probe_stats_unsorted f @ [s]\<rparr>)))"

definition add_probe :: "flow_table \<Rightarrow> xml \<Rightarrow> py_error + flow_table" where
  "add_probe st el =
     rbind (rbind (attr el ''index'') read_int) (\<lambda>pid. for_each (add_stats pid) st (findall ''FlowStats'' el))"

definition find_path :: "string \<Rightarrow> string \<Rightarrow> xml \<Rightarrow> xml list" where
  "find_path a b el = concat (map (findall b) (findall a el))"

definition new_simulation :: "xml \<Rightarrow> py_error + flow list" where
  "new_simulation el =
     (case findall ''Ipv4FlowClassifier'' el of
        [classifier] \<Rightarrow>
          rbind (for_each add_flow ([], []) (find_path ''FlowStats'' ''Flow'' el)) (\<lambda>st.
          rbind (for_each classify_flow st (findall ''Flow'' classifier)) (\<lambda>st.
          rbind (for_each add_probe st (find_path ''FlowProbes'' ''FlowProbe'' el)) (\<lambda>(flows, flow_map). Inr flows)))
      | _ \<Rightarrow> Inl ValueError)"

section \<open>The report\<close>

text \<open>The events of the parser, \<open>True\<close> for the start and \<open>False\<close> for the end of an element.\<close>

fun events_of :: "xml \<Rightarrow> (bool \<times> xml) list"
  and events_of_all :: "xml list \<Rightarrow> (bool \<times> xml) list" where
  "events_of (Element t x a cs) = (True, Element t x a cs) # events_of_all cs @ [(False, Element t x a cs)]"
| "events_of_all [] = []"
| "events_of_all (c # cs) = events_of c @ events_of_all cs"

definition event_step :: "int \<times> flow list list \<Rightarrow> bool \<times> xml \<Rightarrow> py_error + int \<times> flow list list" where
  "event_step st ev =
     (case (st, ev) of ((level, sims), (start, elem)) \<Rightarrow>
        if start then Inr (level + 1, sims)
        else if level - 1 = 0 \<and> tag elem = ''FlowMonitor''
             then rbind (new_simulation elem) (\<lambda>sim. Inr (level - 1, sims @ [sim]))
             else Inr (level - 1, sims))"

definition read_results :: "xml \<Rightarrow> py_error + flow list list" where
  "read_results doc = rbind (for_each event_step (0, []) (events_of doc)) (\<lambda>(level, sims). Inr sims)"

definition show_int :: "int \<Rightarrow> string" where
  "show_int i = (if i < 0 then CHR ''-'' # show_nat (nat (- i)) else show_nat (nat i))"

definition figure :: "(rat \<Rightarrow> string) \<Rightarrow> string \<Rightarrow> rat option \<Rightarrow> rat \<Rightarrow> string \<Rightarrow> string" where
  "figure fixed2 label q scaling unit_name =
     [CHR 0x09] @ label @ '': '' @ (case q of None \<Rightarrow> ''None'' | Some x \<Rightarrow> fixed2 (x * scaling) @ unit_name)"

definition flow_report :: "(rat \<Rightarrow> string) \<Rightarrow> flow \<Rightarrow> py_error + string list" where
  "flow_report fixed2 f =
     (case five_tuple_of f of
        None \<Rightarrow> Inl AttributeError
      | Some t \<Rightarrow>
          rbind (if protocol t = 6 then Inr ''TCP'' else if protocol t = 17 then Inr ''UDP'' else Inl KeyError) (\<lambda>proto.
          Inr [''FlowID: '' @ show_int (flow_id f) @ '' ('' @ proto @ '' '' @ show_text (source_address t) @ ''/'' @
                 show_int (source_port t) @ '' --> '' @ show_text (destination_address t) @ ''/'' @
                 show_int (destination_port t) @ '')'',
               figure fixed2 ''TX bitrate'' (tx_bitrate f) (1 / 1000) '' kbit/s'',
               figure fixed2 ''RX bitrate'' (rx_bitrate f) (1 / 1000) '' kbit/s'',
               figure fixed2 ''Mean Delay'' (delay_mean f) 1000 '' ms'',
               figure fixed2 ''Packet Loss Ratio'' (packet_loss_ratio f) 100 '' %''])) "

text \<open>What is printed, and the exception that ends it.\<close>

fun print_flows :: "(rat \<Rightarrow> string) \<Rightarrow> flow list \<Rightarrow> string list \<times> py_error option" where
  "print_flows fixed2 [] = ([], None)"
| "print_flows fixed2 (f # fs) =
     (case flow_report fixed2 f of
        Inl e \<Rightarrow> ([], Some e)
      | Inr ls \<Rightarrow> let (rest, e) = print_flows fixed2 fs in (ls @ rest, e))"

definition main_report :: "(rat \<Rightarrow> string) \<Rightarrow> xml \<Rightarrow> string list \<times> py_error option" where
  "main_report fixed2 doc =
     (case read_results doc of
        Inl e \<Rightarrow> ([], Some e)
      | Inr sims \<Rightarrow> print_flows fixed2 (concat sims))"

section \<open>Times\<close>

lemma read_digits_show: "read_digits (show_nat n) = Inr (int n)" "read_digits (CHR ''+'' # show_nat n) = Inr (int n)"
proof -
  have digits: "show_nat n \<noteq> []" "list_all is_digit (show_nat n)" using show_nat_digits by blast+
  then have sign: "read_sign (show_nat n) = (False, show_nat n)"
    by (cases "show_nat n") (auto simp: read_sign_def is_digit_def)
  have plus: "read_sign (CHR ''+'' # show_nat n) = (False, show_nat n)" by (simp add: read_sign_def)
  then show "read_digits (show_nat n) = Inr (int n)" "read_digits (CHR ''+'' # show_nat n) = Inr (int n)"
    using digits by (simp_all add: read_digits_def read_show_nat sign plus)
qed

lemma digit_not_space: "is_digit c \<Longrightarrow> \<not> is_space c \<and> c \<noteq> CHR ''l'' \<and> c \<noteq> CHR ''L''"
  by (auto simp: is_digit_def is_space_def)

lemma strip_show: "strip (show_nat n) = show_nat n" "strip (CHR ''+'' # show_nat n) = CHR ''+'' # show_nat n"
proof -
  have digits: "list_all is_digit (show_nat n)" "show_nat n \<noteq> []" using show_nat_digits by blast+
  have keep: "dropWhile is_space s = s" if "s \<noteq> []" "\<not> is_space (hd s)" for s
    using that by (cases s) simp_all
  have ends: "\<not> is_space (hd (show_nat n))" "\<not> is_space (last (show_nat n))"
    using digits digit_not_space by (metis hd_in_set last_in_set list_all_iff)+
  then show "strip (show_nat n) = show_nat n" "strip (CHR ''+'' # show_nat n) = CHR ''+'' # show_nat n"
    using digits(2) by (simp_all add: strip_def keep hd_rev is_space_def)
qed

lemma read_long_show: "read_long (show_nat n) = Inr (int n)" "read_long (CHR ''+'' # show_nat n) = Inr (int n)"
proof -
  have "show_nat n \<noteq> []" "is_digit (last (show_nat n))"
    using show_nat_digits [of n] last_in_set [of "show_nat n"] by (auto simp: list_all_iff)
  then show "read_long (show_nat n) = Inr (int n)" "read_long (CHR ''+'' # show_nat n) = Inr (int n)"
    using digit_not_space [of "last (show_nat n)"]
    by (simp_all add: read_long_def strip_show Let_def read_digits_show)
qed

lemma show_nat_digit: "n < 10 \<Longrightarrow> show_nat n = [digit_char n]"
  by (subst show_nat.simps) simp

lemma show_nat_snoc: "10 \<le> n \<Longrightarrow> show_nat n = show_nat (n div 10) @ [digit_char (n mod 10)]"
  by (subst show_nat.simps) simp

lemma show_nat_two: "100 \<le> n \<Longrightarrow> \<exists>c d. show_nat n = show_nat (n div 100) @ [c, d]"
  using show_nat_snoc [of n] show_nat_snoc [of "n div 10"] by (simp add: div_mult2_eq [of n 10 10, simplified])

lemma show_nat_short: "n < 100 \<Longrightarrow> length (show_nat n) \<le> 2"
  by (cases "n < 10") (simp_all add: show_nat_digit show_nat_snoc [of n] not_less div_less_iff_less_mult)

lemma show_nat_cut: "100 \<le> n \<Longrightarrow> take (length (show_nat n) - 2) (show_nat n) = show_nat (n div 100)"
  using show_nat_two [of n] by auto

text \<open>
  A time as the flow monitor writes it is read as it is.  The function cuts off four characters for
  the unit of two: a time without a decimal point loses its last two digits, and one below 100 is refused.
\<close>

theorem parse_time_ns_formats:
  "parse_time_ns (Some (''+'' @ show_nat n @ ''.0ns'')) = Inr (int n)
   \<and> parse_time_ns (Some (show_nat n @ ''ns'')) = (if n < 100 then Inl ValueError else Inr (int (n div 100)))"
proof
  have "cut_unit (''+'' @ show_nat n @ ''.0ns'') = CHR ''+'' # show_nat n"
    using py_slice_to_neg [of 4 "''+'' @ show_nat n @ ''.0ns''"] by (simp add: cut_unit_def)
  then show "parse_time_ns (Some (''+'' @ show_nat n @ ''.0ns'')) = Inr (int n)"
    by (simp add: parse_time_ns_def startswith_def read_long_show)
  have cut: "cut_unit (show_nat n @ ''ns'') = take (length (show_nat n) - 2) (show_nat n)"
    using py_slice_to_neg [of 4 "show_nat n @ ''ns''"] by (simp add: cut_unit_def)
  have "read_long [] = Inl ValueError" by code_simp
  then have "read_long (take (length (show_nat n) - 2) (show_nat n)) = Inl ValueError" if "n < 100"
    using that show_nat_short [of n] by simp
  moreover have "read_long (take (length (show_nat n) - 2) (show_nat n)) = Inr (int (n div 100))" if "\<not> n < 100"
    using that show_nat_cut [of n] by (simp add: read_long_show)
  ultimately show "parse_time_ns (Some (show_nat n @ ''ns'')) = (if n < 100 then Inl ValueError else Inr (int (n div 100)))"
    by (simp only: parse_time_ns_def cut option.case) (simp add: startswith_def)
qed

section \<open>The figures of a flow\<close>

text \<open>
  The figures of a flow that was read: with no packet received, the delay, the size and the loss are
  unknown and the hops are marked with -1000; otherwise the loss is the share of the packets lost
  and below one, the delay and the size are known, and with no packet forwarded less than none the hops are at least one.  A
  bit rate is known exactly for a duration above zero.
\<close>

theorem flow_figures:
  assumes read: "new_flow el = Inr f"
    and rx: "rbind (attr el ''rxPackets'') read_long = Inr n" "0 \<le> n"
    and lost: "rbind (attr el ''lostPackets'') read_float = Inr k" "0 \<le> k"
  shows "(if n = 0 then delay_mean f = None \<and> packet_size_mean f = None \<and> packet_loss_ratio f = None \<and> hop_count f = - 1000
      else delay_mean f \<noteq> None \<and> packet_size_mean f \<noteq> None
        \<and> (\<exists>q. packet_loss_ratio f = Some q \<and> q * (of_int n + k) = k \<and> 0 \<le> q \<and> q < 1)
        \<and> (\<exists>t. rbind (attr el ''timesForwarded'') read_float = Inr t \<and> (hop_count f - 1) * of_int n = t))
    \<and> (rx_bitrate f = None \<longleftrightarrow> rx_duration_of f \<le> 0)
    \<and> five_tuple_of f = None \<and> probe_stats_unsorted f = []"
proof -
  have bit: "r = None \<longleftrightarrow> d \<le> 0" if "bitrate el key d = Inr r" for key d r
    using that by (auto simp: bitrate_def rbind_Inr_iff not_less split: if_splits)
  show ?thesis
  proof (cases "n = 0")
    case True
    then show ?thesis using read rx lost
      by (auto simp: new_flow_def rbind_Inr_iff dest: bit split: option.splits)
  next
    case False
    then have n: "0 < (of_int n :: rat)" "0 < of_int n + k" using rx(2) lost(2) by (simp_all add: add_pos_nonneg)
    show ?thesis using read rx lost False n
      by (auto simp: new_flow_def rbind_Inr_iff dest: bit split: option.splits)
  qed
qed

section \<open>The flows of a simulation\<close>

text \<open>A loop that reads an item of the list and then changes the state reads all items.\<close>

lemma for_each_read:
  "for_each (\<lambda>s x. rbind (r x) (u s)) s xs = Inr s' \<Longrightarrow> \<exists>ys. map r xs = map Inr ys \<and> for_each u s ys = Inr s'"
proof (induction xs arbitrary: s)
  case (Cons x xs)
  then obtain y t where "r x = Inr y" "u s y = Inr t" "for_each (\<lambda>s x. rbind (r x) (u s)) t xs = Inr s'"
    by (auto simp: rbind_Inr_iff)
  moreover from Cons.IH [OF this(3)] obtain ys where "map r xs = map Inr ys" "for_each u t ys = Inr s'" by blast
  ultimately show ?case by (intro exI [of _ "y # ys"]) simp
qed simp

definition table_ok :: "flow_table \<Rightarrow> bool" where
  "table_ok st \<longleftrightarrow> distinct (map flow_id (fst st))
     \<and> (\<forall>fid i. dget (snd st) fid = Some i \<longleftrightarrow> i < length (fst st) \<and> flow_id (fst st ! i) = fid)"

lemma add_flows_table:
  "for_each add_flow ([], []) els = Inr st \<Longrightarrow> distinct (map (\<lambda>el. rbind (attr el ''flowId'') read_int) els) \<Longrightarrow>
   table_ok st \<and> map new_flow els = map Inr (fst st)"
proof (induction els arbitrary: st rule: rev_induct)
  case (snoc el els)
  obtain st' where st': "for_each add_flow ([], []) els = Inr st'" "add_flow st' el = Inr st"
    using snoc.prems(1) by (auto simp: for_each_append rbind_Inr_iff)
  then obtain f where f: "new_flow el = Inr f" and st: "st = (fst st' @ [f], dset (snd st') (flow_id f) (length (fst st')))"
    by (cases st') (auto simp: add_flow_def rbind_Inr_iff)
  note IH = snoc.IH [OF st'(1)]
  have fid: "rbind (attr e ''flowId'') read_int = Inr (flow_id g)" if "new_flow e = Inr g" for e g
    using that by (auto simp: new_flow_def rbind_Inr_iff)
  have new: "flow_id f \<notin> set (map flow_id (fst st'))"
  proof
    assume "flow_id f \<in> set (map flow_id (fst st'))"
    then obtain g where g: "g \<in> set (fst st')" "flow_id g = flow_id f" by auto
    have "Inr g \<in> set (map new_flow els)" using IH snoc.prems(2) g(1) by simp
    then obtain e where "e \<in> set els" "new_flow e = Inr g" by auto
    with fid [OF this(2)] fid [OF f] g(2) snoc.prems(2) show False by (auto simp: image_iff)
  qed
  have "table_ok st'" "map new_flow els = map Inr (fst st')" using IH snoc.prems(2) by simp_all
  moreover from new have "flow_id (fst st' ! i) \<noteq> flow_id f" if "i < length (fst st')" for i
    using nth_mem [OF that] by (force simp: image_iff)
  ultimately show ?case
    using new by (auto simp: table_ok_def st f nth_append less_Suc_eq split: if_splits)
qed (simp add: table_ok_def)

text \<open>Updates of the flows that do not change their ids.\<close>

definition apply_updates :: "('v \<Rightarrow> flow \<Rightarrow> flow) \<Rightarrow> (int \<times> 'v) list \<Rightarrow> flow \<Rightarrow> flow" where
  "apply_updates g us f = foldl (\<lambda>f (fid, v). if fid = flow_id f then g v f else f) f us"

lemma update_flow_table:
  assumes "table_ok st" "update_flow st fid (\<lambda>f. Inr (g f)) = Inr st'" "\<And>f. flow_id (g f) = flow_id f"
  shows "table_ok st' \<and> snd st' = snd st \<and> fid \<in> flow_id ` set (fst st)
    \<and> fst st' = map (\<lambda>f. if fid = flow_id f then g f else f) (fst st)"
proof -
  obtain flows m where st: "st = (flows, m)" by fastforce
  with assms(2) obtain i where i: "dget m fid = Some i" "st' = (flows[i := g (flows ! i)], m)"
    by (auto simp: update_flow_def split: option.splits)
  then have at: "i < length flows" "flow_id (flows ! i) = fid" using assms(1) by (auto simp: table_ok_def st)
  have "dget m (flow_id (flows ! j)) = Some j" if "j < length flows" for j
    using assms(1) that by (auto simp: table_ok_def st)
  then have "flow_id (flows ! j) = fid \<longleftrightarrow> j = i" if "j < length flows" for j
    using that at i(1) by (metis option.inject)
  then have same: "flows[i := g (flows ! i)] = map (\<lambda>f. if fid = flow_id f then g f else f) flows"
    using at(1) by (intro nth_equalityI) (simp_all add: nth_list_update eq_commute [of fid])
  have ids: "map flow_id (flows[i := g (flows ! i)]) = map flow_id flows"
    using at(1) assms(3) by (simp add: map_update list_update_same_conv)
  moreover have "flow_id (flows[i := g (flows ! i)] ! j) = flow_id (flows ! j)" if "j < length flows" for j
    using that at(1) assms(3) by (cases "j = i") simp_all
  ultimately have "table_ok st'" using assms(1) unfolding table_ok_def i(2) st fst_conv snd_conv length_list_update
    by (simp cong: conj_cong)
  moreover note same
  ultimately show ?thesis using i at by (auto simp: st)
qed

lemma update_flows_table:
  assumes "\<And>v f. flow_id (g v f) = flow_id f"
  shows "for_each (\<lambda>st (fid, v). update_flow st fid (\<lambda>f. Inr (g v f))) st us = Inr st' \<Longrightarrow> table_ok st \<Longrightarrow>
    table_ok st' \<and> fst st' = map (apply_updates g us) (fst st) \<and> fst ` set us \<subseteq> flow_id ` set (fst st)"
proof (induction us arbitrary: st)
  case (Cons u us)
  obtain fid v where u: "u = (fid, v)" by fastforce
  then obtain t where t: "update_flow st fid (\<lambda>f. Inr (g v f)) = Inr t"
    "for_each (\<lambda>st (fid, v). update_flow st fid (\<lambda>f. Inr (g v f))) t us = Inr st'"
    using Cons.prems(1) by (auto simp: rbind_Inr_iff)
  note step = update_flow_table [OF Cons.prems(2) t(1) assms]
  have "flow_id ` set (fst t) = (\<lambda>f. flow_id (if fid = flow_id f then g v f else f)) ` set (fst st)"
    unfolding conjunct2 [OF conjunct2 [OF conjunct2 [OF step]]] by (simp add: image_image del: if_image_distrib)
  also have "\<dots> = flow_id ` set (fst st)" using assms by (intro image_cong) simp_all
  finally have ids: "flow_id ` set (fst t) = flow_id ` set (fst st)" .
  then show ?case using step Cons.IH [OF t(2)] by (auto simp: u apply_updates_def)
qed (simp add: apply_updates_def map_idI)

lemma apply_tuples:
  "apply_updates (\<lambda>t f. f\<lparr>five_tuple_of := Some t\<rparr>) us f =
    (case map_of (rev us) (flow_id f) of None \<Rightarrow> f | Some t \<Rightarrow> f\<lparr>five_tuple_of := Some t\<rparr>)"
  by (induction us rule: rev_induct) (auto simp: apply_updates_def split: option.splits)

lemma apply_stats:
  "apply_updates (\<lambda>s f. f\<lparr>probe_stats_unsorted := probe_stats_unsorted f @ [s]\<rparr>) us f =
    f\<lparr>probe_stats_unsorted := probe_stats_unsorted f @ map snd (filter (\<lambda>u. fst u = flow_id f) us)\<rparr>"
  by (induction us rule: rev_induct) (auto simp: apply_updates_def)

text \<open>What one element of the classifier says of a flow, and what one probe says of the flows.\<close>

definition class_entry :: "xml \<Rightarrow> py_error + int \<times> five_tuple" where
  "class_entry el =
     rbind (rbind (attr el ''flowId'') read_int) (\<lambda>fid. rbind (new_five_tuple el) (\<lambda>t. Inr (fid, t)))"

definition probe_entries :: "xml \<Rightarrow> (int \<times> probe_stats) list \<Rightarrow> bool" where
  "probe_entries el ss \<longleftrightarrow> (\<exists>pid. rbind (attr el ''index'') read_int = Inr pid
     \<and> map (new_probe_stats pid) (findall ''FlowStats'' el) = map Inr ss)"

abbreviation put_tuple :: "flow_table \<Rightarrow> int \<times> five_tuple \<Rightarrow> py_error + flow_table" where
  "put_tuple \<equiv> \<lambda>st (fid, v). update_flow st fid (\<lambda>f. Inr (f\<lparr>five_tuple_of := Some v\<rparr>))"

abbreviation put_stats :: "flow_table \<Rightarrow> int \<times> probe_stats \<Rightarrow> py_error + flow_table" where
  "put_stats \<equiv> \<lambda>st (fid, v). update_flow st fid (\<lambda>f. Inr (f\<lparr>probe_stats_unsorted := probe_stats_unsorted f @ [v]\<rparr>))"

lemma classify_read: "classify_flow = (\<lambda>st el. rbind (class_entry el) (put_tuple st))"
  by (simp add: fun_eq_iff classify_flow_def class_entry_def rbind_assoc)

lemma add_stats_read: "add_stats pid = (\<lambda>st el. rbind (new_probe_stats pid el) (put_stats st))"
  by (simp add: fun_eq_iff add_stats_def)

lemma add_probes_read:
  "for_each add_probe st els = Inr st' \<Longrightarrow>
   \<exists>ss. list_all2 probe_entries els ss \<and> for_each put_stats st (concat ss) = Inr st'"
proof (induction els arbitrary: st)
  case (Cons el els)
  then obtain t where t: "add_probe st el = Inr t" "for_each add_probe t els = Inr st'" by (auto simp: rbind_Inr_iff)
  then obtain pid where pid: "rbind (attr el ''index'') read_int = Inr pid"
    and stats: "for_each (add_stats pid) st (findall ''FlowStats'' el) = Inr t"
    unfolding add_probe_def rbind_Inr_iff [of "rbind (attr el ''index'') read_int"] by blast
  from for_each_read [OF stats [unfolded add_stats_read]] obtain us where us:
    "map (new_probe_stats pid) (findall ''FlowStats'' el) = map Inr us" "for_each put_stats st us = Inr t" by blast
  from Cons.IH [OF t(2)] obtain ss where "list_all2 probe_entries els ss" "for_each put_stats t (concat ss) = Inr st'"
    by blast
  moreover have "probe_entries el us" using pid us(1) by (auto simp: probe_entries_def)
  ultimately show ?case using us(2) by (intro exI [of _ "us # ss"]) (simp add: for_each_append)
qed simp

lemma new_flow_fresh: "new_flow el = Inr f \<Longrightarrow> five_tuple_of f = None \<and> probe_stats_unsorted f = []"
  by (auto simp: new_flow_def rbind_Inr_iff)

text \<open>
  Claim C39.  The flows of a simulation whose ids are distinct are its flow elements in their order, each with
  the address that the classifier gives last for its id and with the statistics that the probes
  give for it, in the order of the file.  The classifier and the probes mention flows of the file
  only, since the constructor raises for any other.
\<close>

theorem new_simulation_flows:
  assumes read: "new_simulation el = Inr flows"
    and ids: "distinct (map (\<lambda>e. rbind (attr e ''flowId'') read_int) (find_path ''FlowStats'' ''Flow'' el))"
  shows "\<exists>c fs ts ss. findall ''Ipv4FlowClassifier'' el = [c]
    \<and> map new_flow (find_path ''FlowStats'' ''Flow'' el) = map Inr fs
    \<and> map class_entry (findall ''Flow'' c) = map Inr ts
    \<and> list_all2 probe_entries (find_path ''FlowProbes'' ''FlowProbe'' el) ss
    \<and> fst ` set ts \<union> fst ` set (concat ss) \<subseteq> flow_id ` set fs
    \<and> flows = map (\<lambda>f. f\<lparr>five_tuple_of := map_of (rev ts) (flow_id f),
        probe_stats_unsorted := map snd (filter (\<lambda>u. fst u = flow_id f) (concat ss))\<rparr>) fs"
proof -
  from read obtain c st1 st2 m where c: "findall ''Ipv4FlowClassifier'' el = [c]"
    and st1: "for_each add_flow ([], []) (find_path ''FlowStats'' ''Flow'' el) = Inr st1"
    and st2: "for_each classify_flow st1 (findall ''Flow'' c) = Inr st2"
    and st3: "for_each add_probe st2 (find_path ''FlowProbes'' ''FlowProbe'' el) = Inr (flows, m)"
    by (auto simp: new_simulation_def rbind_Inr_iff split: list.splits)
  obtain fs where fs: "fst st1 = fs" "table_ok st1" "map new_flow (find_path ''FlowStats'' ''Flow'' el) = map Inr fs"
    using add_flows_table [OF st1 ids] by blast
  have fresh: "five_tuple_of f = None \<and> probe_stats_unsorted f = []" if "f \<in> set fs" for f
  proof -
    from that have "Inr f \<in> set (map new_flow (find_path ''FlowStats'' ''Flow'' el))" using fs(3) by simp
    then show ?thesis using new_flow_fresh by auto
  qed
  from for_each_read [OF st2 [unfolded classify_read]] obtain ts where ts:
    "map class_entry (findall ''Flow'' c) = map Inr ts" "for_each put_tuple st1 ts = Inr st2" by blast
  from add_probes_read [OF st3] obtain ss where ss:
    "list_all2 probe_entries (find_path ''FlowProbes'' ''FlowProbe'' el) ss"
    "for_each put_stats st2 (concat ss) = Inr (flows, m)" by blast
  note two = update_flows_table [OF _ ts(2) fs(2), simplified]
  note three = update_flows_table [OF _ ss(2), simplified]
  have "flows = map (apply_updates (\<lambda>s f. f\<lparr>probe_stats_unsorted := probe_stats_unsorted f @ [s]\<rparr>) (concat ss))
      (map (apply_updates (\<lambda>t f. f\<lparr>five_tuple_of := Some t\<rparr>) ts) fs)"
    using two three fs(1) by simp
  also have "\<dots> = map (\<lambda>f. f\<lparr>five_tuple_of := map_of (rev ts) (flow_id f),
      probe_stats_unsorted := map snd (filter (\<lambda>u. fst u = flow_id f) (concat ss))\<rparr>) fs"
    using fresh by (auto simp: apply_tuples apply_stats split: option.splits)
  finally have flows: "flows = \<dots>" .
  have "flow_id ` set (fst st2) = flow_id ` set fs"
    using two fs(1) by (auto simp: image_image apply_tuples image_iff split: option.splits)
  then have "fst ` set ts \<union> fst ` set (concat ss) \<subseteq> flow_id ` set fs" using two three fs(1) by auto
  with c fs(3) ts(1) ss(1) flows show ?thesis by blast
qed

section \<open>The report of a file\<close>

lemma event_step_simps:
  "event_step (n, sims) (True, e) = Inr (n + 1, sims)"
  "event_step (n, sims) (False, e) =
    (if n = 1 \<and> tag e = ''FlowMonitor'' then rbind (new_simulation e) (\<lambda>sim. Inr (n - 1, sims @ [sim]))
     else Inr (n - 1, sims))"
  by (simp_all add: event_step_def)

lemma rbind_Inr [simp]: "rbind r Inr = r"
  by (cases r) simp_all

lemma events_loop:
  "0 \<le> n \<Longrightarrow> for_each event_step (n, sims) (events_of e) =
     (if n = 0 \<and> tag e = ''FlowMonitor'' then rbind (new_simulation e) (\<lambda>s. Inr (n, sims @ [s])) else Inr (n, sims))"
  "0 < n \<Longrightarrow> for_each event_step (n, sims) (events_of_all es) = Inr (n, sims)"
proof (induction e and es arbitrary: n and n rule: events_of_events_of_all.induct)
  case (1 t x a cs)
  then show ?case by (simp add: for_each_append event_step_simps rbind_assoc)
qed (simp_all add: for_each_append)

definition complete :: "flow \<Rightarrow> bool" where
  "complete f \<longleftrightarrow> (\<exists>t. five_tuple_of f = Some t \<and> (protocol t = 6 \<or> protocol t = 17))"

lemma flow_report_complete:
  "flow_report fixed2 f = (if complete f then Inr (projr (flow_report fixed2 f))
     else if five_tuple_of f = None then Inl AttributeError else Inl KeyError)"
  "complete f \<Longrightarrow> length (projr (flow_report fixed2 f)) = 5"
  by (auto simp: flow_report_def complete_def split: option.split)

lemma print_flows_result:
  "length (fst (print_flows fixed2 flows)) = 5 * length (takeWhile complete flows)
   \<and> snd (print_flows fixed2 flows) = (case dropWhile complete flows of
       [] \<Rightarrow> None
     | f # _ \<Rightarrow> Some (if five_tuple_of f = None then AttributeError else KeyError))"
proof (induction flows)
  case (Cons f flows)
  then show ?case
    using flow_report_complete(1) [of fixed2 f] flow_report_complete(2) [of f fixed2]
    by (cases "complete f"; cases "flow_report fixed2 f") (auto split: prod.splits if_splits)
qed simp

text \<open>
  The script prints nothing for a file of another kind and nothing when the reading raises.
  Otherwise it prints five lines for each flow, up to the first flow that the classifier does not
  name, where it ends with an \<open>AttributeError\<close>, or whose protocol is neither TCP nor UDP, where it
  ends with a \<open>KeyError\<close>.
\<close>

theorem main_report_result:
  "(let (ls, e) = main_report fixed2 doc
    in if tag doc \<noteq> ''FlowMonitor'' then ls = [] \<and> e = None
       else case new_simulation doc of
         Inl x \<Rightarrow> ls = [] \<and> e = Some x
       | Inr flows \<Rightarrow> length ls = 5 * length (takeWhile complete flows)
           \<and> e = (case dropWhile complete flows of
               [] \<Rightarrow> None
             | f # _ \<Rightarrow> Some (if five_tuple_of f = None then AttributeError else KeyError)))"
proof -
  have "read_results doc = (if tag doc = ''FlowMonitor'' then rbind (new_simulation doc) (\<lambda>s. Inr [s]) else Inr [])"
    using events_loop(1) [of 0 "[]" doc] by (cases "new_simulation doc") (simp_all add: read_results_def)
  then show ?thesis
    using print_flows_result [of fixed2 "projr (new_simulation doc)"]
    by (cases "new_simulation doc") (simp_all add: main_report_def case_prod_beta)
qed

section \<open>Witnesses\<close>

definition demo_flow :: xml where
  "demo_flow = Element ''Flow'' None
     [(''flowId'', ''1''), (''rxPackets'', ''8''), (''txPackets'', ''10''),
      (''timeLastTxPacket'', ''+30.0ns''), (''timeFirstTxPacket'', ''+10.0ns''),
      (''timeLastRxPacket'', ''+30.0ns''), (''timeFirstRxPacket'', ''+10.0ns''),
      (''timesForwarded'', ''8''), (''delaySum'', ''+16.0ns''), (''rxBytes'', ''80''), (''txBytes'', ''90''),
      (''lostPackets'', ''2'')] []"

definition demo_results :: xml where
  "demo_results = Element ''FlowMonitor'' None []
     [Element ''FlowStats'' None [] [demo_flow],
      Element ''Ipv4FlowClassifier'' None []
        [Element ''Flow'' None [(''flowId'', ''1''), (''sourcePort'', ''53''), (''destinationPort'', ''9''), (''protocol'', ''17'')] []],
      Element ''FlowProbes'' None []
        [Element ''FlowProbe'' None [(''index'', ''0'')]
          [Element ''FlowStats'' None [(''flowId'', ''1''), (''packets'', ''0''), (''bytes'', ''0'')] []]]]"

lemma demo_flow_reads:
  "rbind (attr demo_flow ''rxPackets'') read_long = Inr 8"
  "rbind (attr demo_flow ''lostPackets'') read_float = Inr 2"
  by code_simp+

lemma demo_flow_read: "\<exists>f. new_flow demo_flow = Inr f"
proof -
  have "(case new_flow demo_flow of Inl e \<Rightarrow> False | Inr f \<Rightarrow> True)" by code_simp
  then show ?thesis by (cases "new_flow demo_flow") simp_all
qed

theorem flow_figures_witness: "\<exists>f. new_flow demo_flow = Inr f \<and> packet_loss_ratio f = Some (1 / 5)"
proof -
  obtain f where f: "new_flow demo_flow = Inr f" using demo_flow_read by blast
  from flow_figures [OF f demo_flow_reads(1) _ demo_flow_reads(2)] have "packet_loss_ratio f = Some (1 / 5)" by auto
  with f show ?thesis by blast
qed

theorem new_simulation_flows_witness:
  "\<exists>flows fs. new_simulation demo_results = Inr flows \<and> new_flow demo_flow = Inr (hd fs)
    \<and> map flow_id flows = map flow_id fs \<and> length fs = 1"
proof -
  have "(case new_simulation demo_results of Inl e \<Rightarrow> False | Inr flows \<Rightarrow> True)" by code_simp
  then obtain flows where flows: "new_simulation demo_results = Inr flows"
    by (cases "new_simulation demo_results") simp_all
  have els: "find_path ''FlowStats'' ''Flow'' demo_results = [demo_flow]" by code_simp
  have "distinct (map (\<lambda>e. rbind (attr e ''flowId'') read_int) [demo_flow])" by simp
  from new_simulation_flows [OF flows, unfolded els, OF this] obtain fs ts ss where fs: "map new_flow [demo_flow] = map Inr fs"
    "flows = map (\<lambda>f. f\<lparr>five_tuple_of := map_of (rev ts) (flow_id f),
        probe_stats_unsorted := map snd (filter (\<lambda>u. fst u = flow_id f) (concat ss))\<rparr>) fs" by blast
  then have "map flow_id flows = map flow_id fs" by simp
  with fs(1) show ?thesis using flows by (intro exI [of _ flows] exI [of _ fs]) auto
qed

end
