(* ===== verification/Spec2Isabelle.thy ===== *)
theory Spec2Isabelle
  imports VizThread VizPointer VizPlugins ModuleScanModular CreateModule SmartPointer CommandTask CompilerFlags Topsort FindCycles RadUtil ShellCmd CheckStyle TestJobs TestWorkers TestReport TestOutput GridWindow RadNumeric NsConfig WafRun FlowResults
begin

text \<open>
  The Python tools of the repository, a tree of the network simulator ns-3.  The simulator itself is
  C++ and is not part of this development; the tools around it are: the test driver \<open>test.py\<close>, the
  reader of the configuration \<open>utils.py\<close>, the launcher \<open>wutils.py\<close>, the command interpreter
  \<open>waf-tools/shellcmd.py\<close>, the task \<open>command.py\<close> and the flags \<open>cflags.py\<close> of the build, the scaffold
  \<open>src/create-module.py\<close>, the style checker \<open>utils/check-style.py\<close>, the timeline viewer
  \<open>utils/grid.py\<close>, the live visualizer \<open>src/visualizer/visualizer\<close>, the results reader
  \<open>src/flow-monitor/examples/flowmon-parse-results.py\<close>, and of the binding generator
  the algorithms \<open>bindings/python/topsort.py\<close> and \<open>rad_util.py\<close>, the scanners \<open>ns3modulescan.py\<close> and
  \<open>ns3modulescan-modular.py\<close> and the smart pointers of \<open>ns3modulegen_core_customizations.py\<close>.

  \<^bold>\<open>How Python is modelled.\<close>
  \<open>PyPrelude\<close>: a result that may raise is \<open>'e + 'a\<close> with \<open>Inl\<close> the exception, \<open>rbind\<close> passes it on, \<open>for_each\<close> is
  the \<open>for\<close> loop that ends at the first one; where a program goes on after an exception, an
  \<open>outcome\<close> pairs the result with the state that is left; indices and slices with their negative
  bounds; the string methods.  \<open>PyDict\<close>: dictionaries as association lists in the order of insertion, with the
  contract that the scripts rely on as the locale \<open>py_mapping\<close>; where a script enumerates a
  dictionary of Python 2, the order is an argument with the hypothesis \<open>dict_order\<close>.  \<open>PyPath\<close>:
  \<open>os.path\<close>.  \<open>PyNum\<close>: numbers that are integers or floating point, since the division of Python 2
  depends on it; the version of Python is an argument (\<open>Py2\<close>, \<open>Py3\<close>) where a script behaves
  differently under the two.  A floating point number is a rational; rounding is not modelled.
  Objects that are changed in place are records that are passed on, and where two places share
  an object (the timelines of the viewer, the flows of a simulation) one of them holds its index.

  \<^bold>\<open>Binding generator.\<close>
  \<open>Topsort\<close>: \<open>topsort\<close> and \<open>topsort_levels\<close> with their counts of parents and lists of children.  The
  result is a sorted permutation, and the \<open>CycleError\<close> is raised exactly for a relation with a
  cycle; the levels are the depths.  \<open>FindCycles\<close>: \<open>find_cycles\<close> with its list of paths.  It ends,
  what it returns are cycles, and it returns every elementary one up to rotation.  \<open>ModuleScan\<close>:
  \<open>ns3modulescan.py\<close> with the path of a header, the annotations of what is scanned and the sections of
  the bindings, which it puts into the order of \<open>topsort\<close>; \<open>ModuleScanModular\<close>: the scanner of a single
  module, whose search in a path always ends and agrees with the other where that ends.
  \<open>SmartPointer\<close>: the names of smart pointers; every spelling is read as the same type.  \<open>RadUtil\<close> and
  \<open>RadNumeric\<close>: the helpers on lists, strings and integers, and those on binary numerals, polygons,
  quantiles, ranges and units.

  \<^bold>\<open>Build.\<close>
  \<open>ShellCmd\<close>: \<open>shlex.split\<close>, the parser with its six states and the interpreter over a world of files and processes; the
  parser accepts exactly the rendered well-formed command lines, the interpreter follows the exit
  codes, leaves no process unwaited and no file open, but the ends of its pipes.  \<open>WafRun\<close>: the search for a program, the
  command line of a template (with \<open>shlex_split\<close> of \<open>ShellCmd\<close>), the environment and the exit of
  the process, with the decoding of what \<open>valgrind\<close> writes.  \<open>NsConfig\<close>: the two readers of \<open>.ns3rc\<close>; what they
  answer is a \<open>configuration\<close> of the lines, each value on its own, up to the first error.
  \<open>CommandTask\<close>: the task of \<open>command.py\<close>, which replaces variables in a parsed line and runs it; the processes are
  those written, with the values as arguments.  \<open>CompilerFlags\<close>: the flags of \<open>cflags.py\<close>; flags that are
  set are kept, and to configure twice changes nothing.
  \<open>CreateModule\<close>: the templates of \<open>src/create-module.py\<close> and its main program over a disk; a good name
  makes its six directories and nine files and nothing else, and the same name is refused afterwards.

  \<^bold>\<open>Style checker.\<close>
  \<open>CheckStyle\<close>: the patch classes, the reader of patches line by line, their writer, the white space
  pass, \<open>indent\<close> and the main program.  What is written is read back, the white space pass only
  restores trailing white space where the lines pair up, and the verdict on the files is the
  one of the single files.

  \<^bold>\<open>Test driver.\<close>
  \<open>TestJobs\<close>: which tests are chosen and queued, their commands and environment.  \<open>TestWorkers\<close>: the main thread, the
  worker threads and the interrupt handler as the step relation \<open>step\<close> on the two queues, whose
  contract is the locale \<open>fifo\<close>.  Every run ends and every queued job is collected once.  \<open>TestReport\<close>: the
  counters, the summary and the exit status; the verdict does not depend on the schedule.
  \<open>TestFormats\<close>: the text and HTML reports over the element tree.  \<open>TestOutput\<close>: the configuration
  that waf left, the directory of the results and the end of the run.  The theorem \<open>driver_verdict\<close> below
  puts the parts together, from the plan through every schedule to the exit status.

  \<^bold>\<open>Timeline viewer.\<close>
  \<open>GridTimeline\<close>: ranges, events and timelines, the binary searches and the windows that are
  answered from sorted data; \<open>get_range\<close> and its relatives are instances of the locale
  \<open>named_objects\<close>.  \<open>GridData\<close>: the colours and \<open>read_data\<close>, with its four line formats as matching
  functions.  What is read refines the list of data of the file, is sorted and well formed, and a
  written file is read back.  \<open>GridRender\<close>, \<open>GridGraphic\<close>: layout and drawing as lists of
  drawing operations, with the bounds they keep; the text extents that cairo measures are an
  argument.  \<open>GridWindow\<close>: the handlers of the mouse, the buttons and the window as \<open>handle\<close>,
  and \<open>session\<close> for any sequence of such events, in which GTK goes on with the state that a
  handler leaves when it raises: the range shown stays inside the data.

  \<^bold>\<open>Visualizer.\<close>
  \<open>VizThread\<close>: the simulator's thread and the main loop of \<open>core.py\<close> as the step relation
  \<open>viz_step\<close> on the lock, the event, the queue of messages and the update timer.  A lock held is
  held once, every wait ends within fourteen actions and eleven for each callback in progress,
  and a message is lost only where \<open>update_view\<close> raises (\<open>FailView\<close>); the lemmas after them show the double timer and the samples that a second turn overwrites.
  \<open>VizBase\<close>: the scale of the canvas, the device traits, the loading of plugins and the SVG items.
  \<open>VizHud\<close>: the axes of \<open>hud.py\<close>; \<open>rint_log10\<close> is the rounded logarithm, and an axis gets four
  to nine marks.  \<open>VizNodes\<close>: nodes, channels and wires as a store of objects with identity; the
  colours follow the state and a wire ends where its nodes are.  \<open>VizScene\<close>: the scan of the topology,
  in which every wired device gets its link, and the first positions.  \<open>VizView\<close>: the window with the selection,
  the modes, panning, zooming and following, as \<open>user_step\<close>, through any session of which exactly the
  selected node is drawn with the thick outline.  \<open>VizPointer\<close>: a dragged node follows the pointer up to what
  was scrolled; the first scaling shows every node when the zoom and the scroll bars accept its values.  \<open>VizTraffic\<close>: the sliding window of samples, the averages, and the arrows, drawn from a
  pool of items by the locale \<open>pool_drawing\<close>, of which the transmissions and the drops are the two
  interpretations.  \<open>VizPlugins\<close>: the links to access points, the statistics of the interfaces, the headers
  that can be filtered and the routing tables.  The simulator and GTK are arguments: what
  the simulator reports is the state of a topology, an association or a list of samples, and the
  adjustments and conversions of the canvas are the functions of the record \<open>toolkit\<close>.

  \<^bold>\<open>Flow monitor.\<close>
  \<open>FlowResults\<close>: the figures of the flows, the constructor that joins flows, classifier and probes, and the
  report; each flow gets the address and the statistics of its own id.

  \<^bold>\<open>Loops and bounds.\<close>
  Loops over lists are structural or \<open>for_each\<close>.  The work lists of \<open>topsort\<close> and \<open>find_cycles\<close>, the
  binary searches, Euclid's algorithm, the scale, the axes, \<open>subst_arg\<close> and \<open>modular_loop\<close> are
  \<open>function\<close>s with a measure.  Only
  \<open>binary_loop\<close>, \<open>float_loop\<close>, \<open>type_is_good\<close> and \<open>relative_loop\<close> are partial functions, because a state that
  the callers never reach, a step that is not positive, a type above itself, or the root of the file
  system makes the loop run for ever; \<open>binary_range_all\<close>, \<open>float_range_result\<close>, \<open>packet_filter_result\<close> and
  \<open>relative_path_result\<close> state when they return.  No fuel is used.  Integers are unbounded, as in
  Python; the numerals of \<open>int2bin\<close> are bounded by their width.

  \<^bold>\<open>Not modelled.\<close>
  What other programs and libraries do: waf, cairo, GTK, difflib, uncrustify, mercurial, the compiler of
  the bindings, the XML parser, the operating system; they are arguments of the definitions that use them.
  In \<open>test.py\<close>, the messages of the verbose mode.  In \<open>check-style.py\<close>, the debug output.  In \<open>grid.py\<close>, the
  construction of the widgets.  In \<open>rad_util.py\<close>, \<open>timestamp\<close> and \<open>getmodule\<close>.  The texts of exceptions, except where they are
  printed.  In the visualizer, the construction of the widgets, menus and dialogs, the tooltips, the
  screenshot and the Python shell.  In the binding generator, the run of the parser pygccxml and the
  handlers of pybindgen.  The generated bindings, which are lists of calls without logic,
  and the configuration files of the documentation.
\<close>

section \<open>The test driver from the plan to the exit status\<close>

lemma finished_results:
  assumes jobs: "\<forall>j \<in> set jobs. \<not> is_break j"
    and run: "(step (execute_job c sh opts))\<^sup>*\<^sup>* (start_pool jobs n) s" "finished s" "\<not> thread_exit s"
  obtains order where "mset order = mset jobs" "collected s = map (finish_job (execute_job c sh opts)) order"
    "\<forall>j \<in> set jobs. is_skip j \<or> (\<exists>j'. execute_job c sh opts j = Inr j' \<and> is_skip j' = is_skip j \<and> \<not> is_break j')"
proof -
  obtain order where order: "mset order = mset jobs" "list_all2 (result_of (execute_job c sh opts) False) order (collected s)"
    using collected_jobs [OF jobs run(1,2)] run(3) by auto
  have "is_skip j \<or> (\<exists>j'. execute_job c sh opts j = Inr j' \<and> is_skip j' = is_skip j \<and> \<not> is_break j')" if j: "j \<in> set jobs" for j
  proof -
    have "j \<in> set order" using j mset_eq_setD [OF order(1)] by simp
    then obtain j' where "result_of (execute_job c sh opts) False j j'"
      using order(2) by (auto simp: list_all2_conv_all_nth in_set_conv_nth)
    then show ?thesis using execute_job_keeps [of c sh opts j] jobs j by (auto simp: result_of_def)
  qed
  with order(1) uninterrupted_results [OF order(2)] that show ?thesis by blast
qed

text \<open>
  Claim C5.  The whole driver refines running the planned jobs one by one: whatever the schedule of the threads,
  without an interrupt the exit status is 0 exactly when every job that \<open>queue_jobs\<close> planned is
  skipped or its command returned 0, provided the suites left the files of their results.
\<close>

theorem driver_verdict:
  assumes plan: "queue_jobs c sh opts evaluate progs scripts ex dir = Inr jobs"
    and run: "(step (execute_job c sh opts))\<^sup>*\<^sup>* (start_pool jobs n) s" "finished s" "\<not> thread_exit s"
    and files: "files_ok tmp_files (map (finish_job (execute_job c sh opts)) jobs)"
  shows "\<exists>lines xml. report_tests opts tmp_files (length jobs) (collected s) =
    Inr (if \<forall>j \<in> set jobs. is_skip j \<or> (\<exists>j'. execute_job c sh opts j = Inr j' \<and> returncode j' = 0) then 0 else 1, lines, xml)"
proof -
  let ?run = "finish_job (execute_job c sh opts)"
  have jobs: "\<forall>j \<in> set jobs. \<not> is_break j" using queue_jobs_ok [OF plan] by (auto simp: job_ok_def)
  obtain order where order: "mset order = mset jobs" "collected s = map ?run order"
    and each: "\<forall>j \<in> set jobs. is_skip j \<or> (\<exists>j'. execute_job c sh opts j = Inr j' \<and> is_skip j' = is_skip j \<and> \<not> is_break j')"
    using finished_results [OF jobs run] .
  have same: "set order = set jobs" "length (collected s) = length jobs"
    using mset_eq_setD [OF order(1)] mset_eq_length [OF order(1)] order(2) by simp_all
  have "files_ok tmp_files (collected s)" using files same(1) by (simp add: files_ok_def order(2))
  then obtain t where t: "report_tests opts tmp_files (length jobs) (collected s) =
      Inr (exit_status (length jobs) t, summary (length jobs) t, xml_results t @ [''</Results>'' @ nl])" "counted (collected s) t"
    using report_tests_counted by blast
  have "exit_status (length jobs) t =
      (if \<forall>j \<in> set (collected s). \<not> is_break j \<and> status_of j \<in> {''PASS'', ''SKIP''} then 0 else 1)"
    using t(2) no_bad_status [of "collected s"] same(2) by (simp add: exit_status_def counted_def)
  moreover have "(\<not> is_break (?run j) \<and> status_of (?run j) \<in> {''PASS'', ''SKIP''})
      \<longleftrightarrow> is_skip j \<or> (\<exists>j'. execute_job c sh opts j = Inr j' \<and> returncode j' = 0)" if "j \<in> set jobs" for j
    using bspec [OF each that] bspec [OF jobs that] by (auto simp: finish_job_def status_of_def)
  then have "(\<forall>j \<in> set (collected s). \<not> is_break j \<and> status_of j \<in> {''PASS'', ''SKIP''})
      \<longleftrightarrow> (\<forall>j \<in> set jobs. is_skip j \<or> (\<exists>j'. execute_job c sh opts j = Inr j' \<and> returncode j' = 0))"
    by (simp add: order(2) same(1))
  ultimately show ?thesis using t(1) by simp
qed

text \<open>One suite is asked for, which is skipped because the build has no NSC.\<close>

definition nsc_options :: test_options where
  "nsc_options = plain_options\<lparr>o_suite := ''nsc-tcp-loss''\<rparr>"

definition nsc_job :: job where
  "nsc_job = suite_job plain_config nsc_options ''out'' ''nsc-tcp-loss''"

theorem driver_verdict_witness:
  "\<exists>lines xml. report_tests nsc_options (\<lambda>f. None) 1 [nsc_job] = Inr (0, lines, xml)"
proof -
  let ?ex = "\<lparr>example_tests = [], example_names_original = [], python_tests = []\<rparr>"
  let ?s = "\<lparr>todo = [], input_queue = [], output_queue = [], workers = [Stopped], collected = [nsc_job], expected = 1,
    thread_exit = False\<rparr>"
  have plan: "queue_jobs plain_config plain_shell nsc_options (\<lambda>s. True) [] [] ?ex ''out'' = Inr [nsc_job]"
    unfolding nsc_job_def by code_simp
  have skip: "is_skip nsc_job" "\<not> is_break nsc_job" "\<not> is_example nsc_job" by code_simp+
  have "files_ok (\<lambda>f. None) (map (finish_job (execute_job plain_config plain_shell nsc_options)) [nsc_job])"
    using skip by (simp add: files_ok_def finish_job_def xml_entry_def)
  from driver_verdict [OF plan skip_run [OF skip(1,2)] _ _ this] skip(1) show ?thesis by (simp add: finished_def)
qed

end
